(* ===== verification/Prelude.thy ===== *)
theory Prelude
  imports Main "HOL-Library.Char_ord" "HOL-Library.List_Lexorder"
begin

text \<open>
  Shared vocabulary of the development: results that may be an exception, Python text
  (a \<open>string\<close> is a list of code points below 256, the Latin-1 block, on which
  \<open>str.strip\<close>, \<open>str.lower\<close>, \<open>\d\<close> and their kin are exact), decimal numerals, and a small
  library of regular expressions with a derivative matcher, in which the patterns of the
  source are written down constructor by constructor.
\<close>

named_theorems py_simps \<open>characteristic equations of the Python text helpers\<close>

section \<open>Results\<close>

type_synonym ('e, 'a) result = "'e + 'a"

text \<open>Running a statement that may raise, then the rest of the block.\<close>

definition rbind :: "('e, 'a) result \<Rightarrow> ('a \<Rightarrow> ('e, 'b) result) \<Rightarrow> ('e, 'b) result" where
  "rbind m f = (case m of Inl e \<Rightarrow> Inl e | Inr x \<Rightarrow> f x)"

lemma rbind_simps [simp]:
  "rbind (Inl e) f = Inl e"
  "rbind (Inr x) f = f x"
  by (simp_all add: rbind_def)

text \<open>Congruence for evaluation: the continuation is left alone until its argument is known.\<close>

lemma rbind_weak_cong: "r = s \<Longrightarrow> rbind r f = rbind s f"
  by simp

lemma rbind_Inr_iff: "rbind m f = Inr y \<longleftrightarrow> (\<exists>x. m = Inr x \<and> f x = Inr y)"
  by (cases m) simp_all

lemma rbind_Inl_iff: "rbind m f = Inl e \<longleftrightarrow> m = Inl e \<or> (\<exists>x. m = Inr x \<and> f x = Inl e)"
  by (cases m) simp_all

definition is_ok :: "('e, 'a) result \<Rightarrow> bool" where
  "is_ok r = (case r of Inl _ \<Rightarrow> False | Inr _ \<Rightarrow> True)"

lemma is_ok_simps [simp]: "is_ok (Inr x)" "\<not> is_ok (Inl e)"
  by (simp_all add: is_ok_def)

lemma is_ok_iff: "is_ok r \<longleftrightarrow> (\<exists>x. r = Inr x)"
  by (cases r) simp_all

text \<open>A \<open>for\<close> loop that builds a list and stops at the first exception.\<close>

fun map_result :: "('a \<Rightarrow> ('e, 'b) result) \<Rightarrow> 'a list \<Rightarrow> ('e, 'b list) result" where
  "map_result f [] = Inr []"
| "map_result f (x # xs) = rbind (f x) (\<lambda>y. rbind (map_result f xs) (\<lambda>ys. Inr (y # ys)))"

lemma map_result_Inr:
  "map_result f xs = Inr ys \<longleftrightarrow> length ys = length xs \<and> (\<forall>i < length xs. f (xs ! i) = Inr (ys ! i))"
proof (induction xs arbitrary: ys)
  case Nil
  then show ?case by auto
next
  case (Cons x xs)
  show ?case
  proof
    assume "map_result f (x # xs) = Inr ys"
    then obtain y zs where "f x = Inr y" "map_result f xs = Inr zs" "ys = y # zs"
      by (auto simp: rbind_Inr_iff)
    with Cons.IH [of zs] show "length ys = length (x # xs)
        \<and> (\<forall>i < length (x # xs). f ((x # xs) ! i) = Inr (ys ! i))"
      by (auto simp: nth_Cons split: nat.splits)
  next
    assume a: "length ys = length (x # xs)
        \<and> (\<forall>i < length (x # xs). f ((x # xs) ! i) = Inr (ys ! i))"
    then obtain y zs where "ys = y # zs" by (cases ys) auto
    with a have "f x = Inr y" "map_result f xs = Inr zs"
      using Cons.IH [of zs] by (auto dest: spec [of _ 0] spec [of _ "Suc _"])
    with \<open>ys = y # zs\<close> show "map_result f (x # xs) = Inr ys" by simp
  qed
qed

section \<open>Lists\<close>

text \<open>\<open>sorted(set(xs))\<close>: the distinct elements in ascending order.\<close>

definition sorted_set :: "'a::linorder list \<Rightarrow> 'a list" where
  "sorted_set xs = sort (remdups xs)"

lemma set_sorted_set [simp]: "set (sorted_set xs) = set xs"
  by (simp add: sorted_set_def)

lemma sorted_set_Nil [simp]: "sorted_set xs = [] \<longleftrightarrow> xs = []"
  by (metis set_empty set_sorted_set)

lemma sorted_set_empty [simp]: "sorted_set [] = []"
  by simp

lemma sorted_sorted_set: "sorted (sorted_set xs) \<and> distinct (sorted_set xs)"
  by (simp add: sorted_set_def)

lemma sorted_set_cong: "set xs = set ys \<Longrightarrow> sorted_set xs = sorted_set ys"
  by (metis set_sorted_set sorted_distinct_set_unique sorted_sorted_set)

text \<open>\<open>enumerate(xs, start)\<close>.\<close>

fun enumerate_from :: "nat \<Rightarrow> 'a list \<Rightarrow> (nat \<times> 'a) list" where
  "enumerate_from n [] = []"
| "enumerate_from n (x # xs) = (n, x) # enumerate_from (Suc n) xs"

lemma length_enumerate_from [simp]: "length (enumerate_from n xs) = length xs"
  by (induction n xs rule: enumerate_from.induct) auto

lemma enumerate_from_append: "enumerate_from n (xs @ ys) = enumerate_from n xs @ enumerate_from (n + length xs) ys"
  by (induction xs arbitrary: n) simp_all

lemma map_snd_enumerate_from [simp]: "map snd (enumerate_from n xs) = xs"
  by (induction n xs rule: enumerate_from.induct) auto

lemma nth_enumerate_from [simp]: "i < length xs \<Longrightarrow> enumerate_from n xs ! i = (n + i, xs ! i)"
  by (induction n xs arbitrary: i rule: enumerate_from.induct) (auto simp: nth_Cons split: nat.splits)

section \<open>Python text\<close>

abbreviation chr_nl :: char where "chr_nl \<equiv> CHR 0x0A"
abbreviation chr_cr :: char where "chr_cr \<equiv> CHR 0x0D"
abbreviation chr_quote :: char where "chr_quote \<equiv> CHR 0x22"
abbreviation chr_apos :: char where "chr_apos \<equiv> CHR 0x27"

definition code :: "char \<Rightarrow> nat" where
  "code c = of_char c"

lemma code_less: "code c < 256"
  using of_char_mod_256 [where 'a = nat, of c] unfolding code_def by (metis mod_less_divisor zero_less_numeral)

lemma code_char_of [simp]: "n < 256 \<Longrightarrow> code (char_of n) = n"
  by (simp add: code_def)

lemma code_inject [simp]: "code a = code b \<longleftrightarrow> a = b"
  by (simp add: code_def)

text \<open>\<open>str.isspace\<close> on the Latin-1 block; also what \<open>str.strip\<close> removes and \<open>\s\<close> matches.\<close>

definition is_space :: "char \<Rightarrow> bool" where
  "is_space c = (code c \<in> set [9, 10, 11, 12, 13, 28, 29, 30, 31, 32, 133, 160])"

text \<open>\<open>\d\<close> and \<open>[0-9]\<close>: on the Latin-1 block both are the ten ASCII digits.\<close>

definition is_digit :: "char \<Rightarrow> bool" where
  "is_digit c = (48 \<le> code c \<and> code c \<le> 57)"

definition is_upper_ascii :: "char \<Rightarrow> bool" where
  "is_upper_ascii c = (65 \<le> code c \<and> code c \<le> 90)"

definition is_lower_ascii :: "char \<Rightarrow> bool" where
  "is_lower_ascii c = (97 \<le> code c \<and> code c \<le> 122)"

definition is_alnum_ascii :: "char \<Rightarrow> bool" where
  "is_alnum_ascii c = (is_digit c \<or> is_upper_ascii c \<or> is_lower_ascii c)"

definition py_strip :: "string \<Rightarrow> string" where
  "py_strip s = rev (dropWhile is_space (rev (dropWhile is_space s)))"

definition lower_char :: "char \<Rightarrow> char" where
  "lower_char c = (if is_upper_ascii c \<or> (192 \<le> code c \<and> code c \<le> 222 \<and> code c \<noteq> 215)
                   then char_of (code c + 32) else c)"

definition py_lower :: "string \<Rightarrow> string" where
  "py_lower s = map lower_char s"

text \<open>
  \<open>str.upper\<close>: U+00DF becomes \<open>SS\<close>; U+00B5 and U+00FF have their upper-case forms outside
  the Latin-1 block and stay as they are in the model.
\<close>

definition upper_char :: "char \<Rightarrow> string" where
  "upper_char c = (if code c = 223 then ''SS''
     else if is_lower_ascii c \<or> (224 \<le> code c \<and> code c \<le> 254 \<and> code c \<noteq> 247)
          then [char_of (code c - 32)] else [c])"

definition py_upper :: "string \<Rightarrow> string" where
  "py_upper s = concat (map upper_char s)"

text \<open>\<open>s.replace(c, "")\<close> and \<open>s.replace(c, d)\<close> for one-character arguments.\<close>

definition remove_char :: "char \<Rightarrow> string \<Rightarrow> string" where
  "remove_char c s = filter (\<lambda>x. x \<noteq> c) s"

definition replace_char :: "char \<Rightarrow> char \<Rightarrow> string \<Rightarrow> string" where
  "replace_char c d s = map (\<lambda>x. if x = c then d else x) s"

definition starts_with :: "'a list \<Rightarrow> 'a list \<Rightarrow> bool" where
  "starts_with p s = (take (length p) s = p)"

definition ends_with :: "'a list \<Rightarrow> 'a list \<Rightarrow> bool" where
  "ends_with p s = (length p \<le> length s \<and> drop (length s - length p) s = p)"

text \<open>\<open>s.split(c)\<close> for a one-character separator: always at least one part.\<close>

fun split_char :: "'a \<Rightarrow> 'a list \<Rightarrow> 'a list list" where
  "split_char c [] = [[]]"
| "split_char c (x # xs) =
     (if x = c then [] # split_char c xs
      else case split_char c xs of p # ps \<Rightarrow> (x # p) # ps | [] \<Rightarrow> [[x]])"

lemma split_char_not_Nil [simp]: "split_char c xs \<noteq> []"
  by (induction xs) (auto split: list.splits)

fun py_join :: "string \<Rightarrow> string list \<Rightarrow> string" where
  "py_join sep [] = ''''"
| "py_join sep [s] = s"
| "py_join sep (s # ss) = s @ sep @ py_join sep ss"

lemma dropWhile_idem_hd: "xs = [] \<or> \<not> P (hd xs) \<Longrightarrow> dropWhile P xs = xs"
  by (cases xs) auto

lemma py_strip_id: "s = [] \<or> (\<not> is_space (hd s) \<and> \<not> is_space (last s)) \<Longrightarrow> py_strip s = s"
  by (auto simp: py_strip_def dropWhile_idem_hd hd_rev)

lemma py_strip_Nil [simp]: "py_strip [] = []"
  by (simp add: py_strip_def)

lemma set_dropWhile: "set (dropWhile P xs) \<subseteq> set xs"
  by (auto dest: set_dropWhileD)

lemma set_py_strip: "set (py_strip s) \<subseteq> set s"
  by (auto simp: py_strip_def dest!: set_dropWhileD)

lemma py_strip_eq_Nil: "py_strip s = [] \<longleftrightarrow> (\<forall>c \<in> set s. is_space c)"
proof
  assume "py_strip s = []"
  then have all: "\<forall>c \<in> set (dropWhile is_space s). is_space c"
    by (simp add: py_strip_def)
  have "dropWhile is_space s = []"
  proof (rule ccontr)
    assume ne: "dropWhile is_space s \<noteq> []"
    then have "\<not> is_space (hd (dropWhile is_space s))" by (rule hd_dropWhile)
    with all ne show False by simp
  qed
  then show "\<forall>c \<in> set s. is_space c" by simp
next
  assume "\<forall>c \<in> set s. is_space c"
  then show "py_strip s = []" by (auto simp: py_strip_def dest: set_dropWhileD)
qed

lemma py_strip_ends:
  assumes "py_strip s \<noteq> []"
  shows "\<not> is_space (hd (py_strip s))" and "\<not> is_space (last (py_strip s))"
proof -
  let ?a = "dropWhile is_space s"
  let ?b = "dropWhile is_space (rev ?a)"
  have b: "?b \<noteq> []" using assms unfolding py_strip_def by (metis rev.simps(1))
  then have a: "?a \<noteq> []" by (metis dropWhile.simps(1) rev.simps(1))
  have "\<not> is_space (hd ?b)" using b by (rule hd_dropWhile)
  then show "\<not> is_space (last (py_strip s))" using b by (simp add: py_strip_def last_rev del: dropWhile_eq_Nil_conv)
  have "\<exists>pre. rev ?a = pre @ ?b" by (metis takeWhile_dropWhile_id)
  then obtain pre where "rev ?a = pre @ ?b" ..
  then have "?a = rev ?b @ rev pre" by (metis rev_append rev_rev_ident)
  then have "hd ?a = hd (rev ?b)" using b by (metis hd_append rev_is_Nil_conv)
  moreover have "\<not> is_space (hd ?a)" using a by (rule hd_dropWhile)
  ultimately show "\<not> is_space (hd (py_strip s))" unfolding py_strip_def by metis
qed

lemma py_strip_idem [simp]: "py_strip (py_strip s) = py_strip s"
  using py_strip_ends by (cases "py_strip s = []") (auto intro: py_strip_id)

section \<open>Decimal numerals\<close>

definition digit_char :: "nat \<Rightarrow> char" where
  "digit_char d = char_of (48 + d)"

definition digit_val :: "char \<Rightarrow> nat" where
  "digit_val c = code c - 48"

fun show_nat :: "nat \<Rightarrow> string" where
  "show_nat n = (if n < 10 then [digit_char n] else show_nat (n div 10) @ [digit_char (n mod 10)])"

declare show_nat.simps [simp del]

definition show_int :: "int \<Rightarrow> string" where
  "show_int i = (if i < 0 then ''-'' @ show_nat (nat (- i)) else show_nat (nat i))"

text \<open>\<open>int(s)\<close> of a string of digits.\<close>

definition digits_val :: "string \<Rightarrow> nat" where
  "digits_val s = foldl (\<lambda>a c. 10 * a + digit_val c) 0 s"

definition all_digits :: "string \<Rightarrow> bool" where
  "all_digits s = list_all is_digit s"

lemma digit_char_facts:
  assumes "d < 10"
  shows "is_digit (digit_char d)" and "digit_val (digit_char d) = d"
  using assms by (simp_all add: is_digit_def digit_char_def digit_val_def code_def)

lemma digit_char_numerals [simp]:
  "digit_char 0 = CHR ''0''" "digit_char (Suc 0) = CHR ''1''" "digit_char 2 = CHR ''2''"
  "digit_char 3 = CHR ''3''" "digit_char 4 = CHR ''4''" "digit_char 5 = CHR ''5''"
  "digit_char 6 = CHR ''6''" "digit_char 7 = CHR ''7''" "digit_char 8 = CHR ''8''"
  "digit_char 9 = CHR ''9''"
  by (simp_all add: digit_char_def char_of_def bit_Suc_0_iff)

lemma digits_val_append: "digits_val (s @ t) = digits_val s * 10 ^ length t + digits_val t"
proof -
  have gen: "foldl (\<lambda>a c. 10 * a + digit_val c) b t
      = b * 10 ^ length t + foldl (\<lambda>a c. 10 * a + digit_val c) 0 t" for b t
  proof (induction t arbitrary: b)
    case Nil
    then show ?case by simp
  next
    case (Cons c t)
    let ?f = "\<lambda>a c. 10 * a + digit_val c"
    have "foldl ?f b (c # t) = (10 * b + digit_val c) * 10 ^ length t + foldl ?f 0 t"
      using Cons.IH [of "10 * b + digit_val c"] by simp
    moreover have "foldl ?f 0 (c # t) = digit_val c * 10 ^ length t + foldl ?f 0 t"
      using Cons.IH [of "digit_val c"] by simp
    ultimately show ?case by (simp add: distrib_right)
  qed
  show ?thesis unfolding digits_val_def foldl_append by (rule gen)
qed

lemma digits_val_simps [simp]:
  "digits_val [] = 0"
  "digits_val [c] = digit_val c"
  by (simp_all add: digits_val_def)

lemma digits_val_Cons: "digits_val (c # s) = digit_val c * 10 ^ length s + digits_val s"
  using digits_val_append [of "[c]" s] by simp

lemma digits_val_show_nat [simp]: "digits_val (show_nat n) = n"
proof (induction n rule: show_nat.induct)
  case (1 n)
  show ?case
  proof (cases "n < 10")
    case True
    then show ?thesis by (subst show_nat.simps) (simp add: digit_char_facts)
  next
    case False
    with 1 have "digits_val (show_nat (n div 10)) = n div 10" by simp
    with False show ?thesis
      by (subst show_nat.simps) (simp add: digits_val_append digit_char_facts)
  qed
qed

lemma all_digits_show_nat [simp]: "all_digits (show_nat n)"
proof (induction n rule: show_nat.induct)
  case (1 n)
  show ?case
  proof (cases "n < 10")
    case True
    then show ?thesis by (subst show_nat.simps) (simp add: all_digits_def digit_char_facts)
  next
    case False
    with 1 have "all_digits (show_nat (n div 10))" by simp
    with False show ?thesis
      by (subst show_nat.simps) (simp add: all_digits_def digit_char_facts)
  qed
qed

lemma show_nat_not_Nil [simp]: "show_nat n \<noteq> []"
  by (subst show_nat.simps) simp

lemma show_nat_inject [simp]: "show_nat m = show_nat n \<longleftrightarrow> m = n"
  by (metis digits_val_show_nat)

lemma digits_val_less: "all_digits s \<Longrightarrow> digits_val s < 10 ^ length s"
proof (induction s)
  case Nil
  then show ?case by simp
next
  case (Cons c s)
  then have "digit_val c \<le> 9" and "digits_val s < 10 ^ length s"
    by (auto simp: all_digits_def is_digit_def digit_val_def)
  then have "digit_val c * 10 ^ length s + digits_val s < 9 * 10 ^ length s + 10 ^ length s"
    by (meson add_le_less_mono mult_le_mono1)
  then show ?case by (simp add: digits_val_Cons)
qed

lemma length_show_nat: "length (show_nat n) \<le> k \<longleftrightarrow> n < 10 ^ k" if "0 < k"
  using that
proof (induction n arbitrary: k rule: show_nat.induct)
  case (1 n)
  show ?case
  proof (cases "n < 10")
    case True
    then have "length (show_nat n) = 1" by (subst show_nat.simps) simp
    moreover have "(10::nat) ^ 1 \<le> 10 ^ k" using 1 by (intro power_increasing) auto
    ultimately show ?thesis using True 1 by simp
  next
    case False
    then have len: "length (show_nat n) = Suc (length (show_nat (n div 10)))"
      by (subst show_nat.simps) simp
    show ?thesis
    proof (cases "k = 1")
      case True
      then show ?thesis using False len by (cases "show_nat (n div 10)") auto
    next
      case k: False
      with 1 obtain k' where k': "k = Suc k'" "0 < k'" by (cases k) auto
      with 1 False have "length (show_nat (n div 10)) \<le> k' \<longleftrightarrow> n div 10 < 10 ^ k'" by simp
      moreover have "n div 10 < 10 ^ k' \<longleftrightarrow> n < 10 ^ k"
        using k' by (simp add: div_less_iff_less_mult mult.commute)
      ultimately show ?thesis using len k' by simp
    qed
  qed
qed

section \<open>Stores that only grow\<close>

text \<open>
  What a table that is only ever inserted into promises to its readers: a step keeps what is sound and
  what was there before. The lemma says so of any number of steps.
\<close>

locale growing_store =
  fixes advance :: "'s \<Rightarrow> 's \<Rightarrow> bool" and sound :: "'s \<Rightarrow> bool" and before :: "'s \<Rightarrow> 's \<Rightarrow> bool"
  assumes before_refl: "before a a"
    and before_trans: "before a b \<Longrightarrow> before b c \<Longrightarrow> before a c"
    and advance_kept: "advance a b \<Longrightarrow> sound a \<Longrightarrow> sound b \<and> before a b"
begin

lemma run_kept:
  assumes "advance\<^sup>*\<^sup>* a b" "sound a"
  shows "sound b \<and> before a b"
  using assms by (induction rule: rtranclp_induct) (auto intro: before_refl before_trans dest: advance_kept)

end

section \<open>Regular expressions\<close>

datatype rx = RNone | REps | RCls "char \<Rightarrow> bool" | RSeq rx rx | RAlt rx rx | RStar rx

fun nullable :: "rx \<Rightarrow> bool" where
  "nullable RNone = False"
| "nullable REps = True"
| "nullable (RCls p) = False"
| "nullable (RSeq r s) = (nullable r \<and> nullable s)"
| "nullable (RAlt r s) = (nullable r \<or> nullable s)"
| "nullable (RStar r) = True"

text \<open>Derivatives, with the trivial sequences collapsed so that terms stay small.\<close>

fun rseq :: "rx \<Rightarrow> rx \<Rightarrow> rx" where
  "rseq RNone s = RNone"
| "rseq REps s = s"
| "rseq r s = RSeq r s"

fun ralt :: "rx \<Rightarrow> rx \<Rightarrow> rx" where
  "ralt RNone s = s"
| "ralt r RNone = r"
| "ralt r s = RAlt r s"

fun rx_deriv :: "char \<Rightarrow> rx \<Rightarrow> rx" where
  "rx_deriv c RNone = RNone"
| "rx_deriv c REps = RNone"
| "rx_deriv c (RCls p) = (if p c then REps else RNone)"
| "rx_deriv c (RSeq r s) =
     (if nullable r then ralt (rseq (rx_deriv c r) s) (rx_deriv c s) else rseq (rx_deriv c r) s)"
| "rx_deriv c (RAlt r s) = ralt (rx_deriv c r) (rx_deriv c s)"
| "rx_deriv c (RStar r) = rseq (rx_deriv c r) (RStar r)"

fun rx_match :: "rx \<Rightarrow> string \<Rightarrow> bool" where
  "rx_match r [] = nullable r"
| "rx_match r (c # s) = rx_match (rx_deriv c r) s"

text \<open>The language a pattern denotes, independently of the matcher.\<close>

inductive in_lang :: "string \<Rightarrow> rx \<Rightarrow> bool" where
  eps: "in_lang [] REps"
| cls: "p c \<Longrightarrow> in_lang [c] (RCls p)"
| seq: "in_lang u r \<Longrightarrow> in_lang v s \<Longrightarrow> in_lang (u @ v) (RSeq r s)"
| alt1: "in_lang u r \<Longrightarrow> in_lang u (RAlt r s)"
| alt2: "in_lang u s \<Longrightarrow> in_lang u (RAlt r s)"
| star0: "in_lang [] (RStar r)"
| star1: "in_lang u r \<Longrightarrow> in_lang v (RStar r) \<Longrightarrow> in_lang (u @ v) (RStar r)"

inductive_simps in_lang_simps:
  "in_lang u RNone" "in_lang u REps" "in_lang u (RCls p)" "in_lang u (RSeq r s)"
  "in_lang u (RAlt r s)"

inductive_cases in_lang_StarE: "in_lang u (RStar r)"

lemma in_lang_Seq_Cls [simp]:
  "in_lang (c # u) (RSeq (RCls p) r) \<longleftrightarrow> p c \<and> in_lang u r"
  "\<not> in_lang [] (RSeq (RCls p) r)"
proof -
  have "in_lang (c # u) (RSeq (RCls p) r)" if "p c" "in_lang u r"
    using in_lang.seq [OF in_lang.cls [of p c] that(2)] that(1) by simp
  then show "in_lang (c # u) (RSeq (RCls p) r) \<longleftrightarrow> p c \<and> in_lang u r"
    by (auto simp: in_lang_simps)
qed (auto simp: in_lang_simps)

lemma nullable_in_lang: "nullable r \<longleftrightarrow> in_lang [] r"
  by (induction r) (auto simp: in_lang_simps intro: in_lang.intros)

lemma in_lang_rseq: "in_lang u (rseq r s) \<longleftrightarrow> in_lang u (RSeq r s)"
  by (cases r) (auto simp: in_lang_simps)

lemma in_lang_ralt: "in_lang u (ralt r s) \<longleftrightarrow> in_lang u (RAlt r s)"
  by (cases "(r, s)" rule: ralt.cases) (auto simp: in_lang_simps)

lemma in_lang_Star_Cons:
  "in_lang (c # u) (RStar r) \<longleftrightarrow> (\<exists>v w. u = v @ w \<and> in_lang (c # v) r \<and> in_lang w (RStar r))"
  (is "?l \<longleftrightarrow> ?r")
proof
  have "in_lang x q \<Longrightarrow> q = RStar r \<Longrightarrow> x = c # u \<Longrightarrow>
      \<exists>v w. u = v @ w \<and> in_lang (c # v) r \<and> in_lang w (RStar r)" for x q u
  proof (induction arbitrary: u rule: in_lang.induct)
    case (star1 a r' b)
    show ?case using star1.hyps star1.prems star1.IH by (cases a rule: list.exhaust) auto
  qed simp_all
  then show "?l \<Longrightarrow> ?r" by blast
next
  assume ?r
  then show ?l by (metis append_Cons in_lang.star1)
qed

lemma in_lang_deriv: "in_lang u (rx_deriv c r) \<longleftrightarrow> in_lang (c # u) r"
proof (induction r arbitrary: u)
  case (RSeq r s)
  have "in_lang (c # u) (RSeq r s) \<longleftrightarrow>
      (\<exists>v w. u = v @ w \<and> in_lang (c # v) r \<and> in_lang w s) \<or> (in_lang [] r \<and> in_lang (c # u) s)"
    by (auto simp: in_lang_simps Cons_eq_append_conv)
  then show ?case
    by (auto simp: in_lang_rseq in_lang_ralt in_lang_simps RSeq nullable_in_lang)
next
  case (RStar r)
  then show ?case by (auto simp: in_lang_rseq in_lang_simps in_lang_Star_Cons)
qed (auto simp: in_lang_simps in_lang_ralt)

theorem rx_match_in_lang: "rx_match r s \<longleftrightarrow> in_lang s r"
  by (induction r s rule: rx_match.induct) (auto simp: nullable_in_lang in_lang_deriv)

text \<open>The usual abbreviations: a literal, \<open>r?\<close>, \<open>r+\<close>, \<open>r{n}\<close> and \<open>r{m,n}\<close>.\<close>

definition rlit :: "char \<Rightarrow> rx" where
  "rlit c = RCls (\<lambda>x. x = c)"

definition ropt :: "rx \<Rightarrow> rx" where
  "ropt r = RAlt r REps"

definition rplus :: "rx \<Rightarrow> rx" where
  "rplus r = RSeq r (RStar r)"

fun rtimes :: "nat \<Rightarrow> rx \<Rightarrow> rx" where
  "rtimes 0 r = REps"
| "rtimes (Suc n) r = RSeq r (rtimes n r)"

fun rupto :: "nat \<Rightarrow> rx \<Rightarrow> rx" where
  "rupto 0 r = REps"
| "rupto (Suc n) r = RAlt REps (RSeq r (rupto n r))"

definition rrange :: "nat \<Rightarrow> nat \<Rightarrow> rx \<Rightarrow> rx" where
  "rrange m n r = RSeq (rtimes m r) (rupto (n - m) r)"

abbreviation rdigit :: rx where "rdigit \<equiv> RCls is_digit"

definition rsign :: rx where
  "rsign = ropt (RCls (\<lambda>c. c = CHR ''+'' \<or> c = CHR ''-''))"

text \<open>\<open>re.match\<close> of a pattern closed by \<open>$\<close>: the dollar also matches before one final newline.\<close>

definition match_dollar :: "rx \<Rightarrow> string \<Rightarrow> bool" where
  "match_dollar r s = (rx_match r s \<or> (s \<noteq> [] \<and> last s = chr_nl \<and> rx_match r (butlast s)))"

lemma match_dollar_no_nl: "s = [] \<or> last s \<noteq> chr_nl \<Longrightarrow> match_dollar r s = rx_match r s"
  by (auto simp: match_dollar_def)

lemma in_lang_digits_star: "in_lang s (RStar rdigit) \<longleftrightarrow> all_digits s"
proof (induction s)
  case Nil
  then show ?case by (auto intro: in_lang.intros simp: all_digits_def)
next
  case (Cons c s)
  then show ?case by (auto simp: in_lang_Star_Cons in_lang_simps all_digits_def)
qed

lemma in_lang_digits_plus: "in_lang s (rplus rdigit) \<longleftrightarrow> s \<noteq> [] \<and> all_digits s"
  by (cases s) (auto simp: rplus_def in_lang_digits_star all_digits_def)

lemma in_lang_ropt: "in_lang s (ropt r) \<longleftrightarrow> s = [] \<or> in_lang s r"
  by (auto simp: ropt_def in_lang_simps)

lemma in_lang_rlit: "in_lang s (rlit c) \<longleftrightarrow> s = [c]"
  by (auto simp: rlit_def in_lang_simps)

lemma in_lang_rsign: "in_lang s rsign \<longleftrightarrow> s = [] \<or> s = ''+'' \<or> s = ''-''"
  by (auto simp: rsign_def in_lang_ropt in_lang_simps)

lemma in_lang_class_times: "in_lang u (rtimes k (RCls p)) \<longleftrightarrow> list_all p u \<and> length u = k"
proof (induction k arbitrary: u)
  case 0
  then show ?case by (auto simp: in_lang_simps)
next
  case (Suc k)
  then show ?case by (cases u) auto
qed

lemma in_lang_class_upto: "in_lang u (rupto k (RCls p)) \<longleftrightarrow> list_all p u \<and> length u \<le> k"
proof (induction k arbitrary: u)
  case 0
  then show ?case by (auto simp: in_lang_simps)
next
  case (Suc k)
  then show ?case by (cases u) (auto simp: in_lang_simps(2) in_lang_simps(5))
qed

lemma in_lang_class_range:
  assumes mn: "m \<le> n"
  shows "in_lang s (rrange m n (RCls p)) \<longleftrightarrow> list_all p s \<and> m \<le> length s \<and> length s \<le> n"
proof -
  have "in_lang s (rrange m n (RCls p)) \<longleftrightarrow>
      (\<exists>u v. s = u @ v \<and> (list_all p u \<and> length u = m) \<and> (list_all p v \<and> length v \<le> n - m))"
    unfolding rrange_def in_lang_simps in_lang_class_times in_lang_class_upto by blast
  also have "\<dots> \<longleftrightarrow> list_all p s \<and> m \<le> length s \<and> length s \<le> n" (is "?l \<longleftrightarrow> ?r")
  proof
    assume ?r
    then have "s = take m s @ drop m s \<and> (list_all p (take m s) \<and> length (take m s) = m)
        \<and> (list_all p (drop m s) \<and> length (drop m s) \<le> n - m)"
      by (auto simp: list_all_iff dest: in_set_takeD in_set_dropD)
    then show ?l by blast
  next
    assume ?l
    then show ?r using mn by auto
  qed
  finally show ?thesis .
qed

lemma in_lang_rtimes_digit: "in_lang s (rtimes n rdigit) \<longleftrightarrow> all_digits s \<and> length s = n"
  unfolding in_lang_class_times all_digits_def by (rule refl)

lemma in_lang_rupto_digit: "in_lang s (rupto n rdigit) \<longleftrightarrow> all_digits s \<and> length s \<le> n"
  unfolding in_lang_class_upto all_digits_def by (rule refl)

lemma in_lang_rrange_digit:
  "m \<le> n \<Longrightarrow> in_lang s (rrange m n rdigit) \<longleftrightarrow> all_digits s \<and> m \<le> length s \<and> length s \<le> n"
  unfolding all_digits_def by (rule in_lang_class_range)

lemmas rx_lang_simps = rx_match_in_lang in_lang_simps in_lang_digits_star in_lang_digits_plus
  in_lang_ropt in_lang_rlit in_lang_rsign in_lang_rtimes_digit in_lang_rupto_digit

text \<open>Counted repetitions and byte values unfold by these when a pattern is evaluated.\<close>

lemma rtimes_numeral [py_simps]:
  "rtimes (numeral k) r = RSeq r (rtimes (pred_numeral k) r)" "rtimes 1 r = RSeq r REps"
  by (simp_all add: numeral_eq_Suc)

lemma rupto_numeral [py_simps]:
  "rupto (numeral k) r = RAlt REps (RSeq r (rupto (pred_numeral k) r))" "rupto 1 r = RAlt REps (RSeq r REps)"
  by (simp_all add: numeral_eq_Suc)

lemma char_of_code_iff [py_simps]: "n < 256 \<Longrightarrow> char_of n = c \<longleftrightarrow> n = code c"
  using code_inject [of "char_of n" c] by simp

declare rsign_def [py_simps] ropt_def [py_simps] rplus_def [py_simps] rrange_def [py_simps] rlit_def [py_simps]
  is_digit_def [py_simps] code_def [py_simps] match_dollar_def [py_simps]

end
