(* ===== verification/PyValue.thy ===== *)
theory PyValue
  imports Complex_Main Prelude "HOL-Library.Product_Lexorder"
begin

text \<open>
  The Python values the program passes around untyped (\<open>Any\<close>, parsed JSON), with truthiness,
  \<open>str\<close> and \<open>repr\<close>; \<open>decimal.Decimal\<close> under its default context (28 digits, half-even);
  and the \<open>Finding\<close> triple that the validators of several components return, ordered as the
  source orders it (\<open>dataclass(order=True)\<close>).
\<close>

section \<open>Findings\<close>

datatype finding = Finding (f_code: string) (f_location: string) (f_message: string)

definition finding_key :: "finding \<Rightarrow> string \<times> string \<times> string" where
  "finding_key f = (f_code f, f_location f, f_message f)"

lemma finding_key_inject: "finding_key a = finding_key b \<longleftrightarrow> a = b"
  by (cases a; cases b) (simp add: finding_key_def)

instantiation finding :: linorder
begin

definition less_eq_finding :: "finding \<Rightarrow> finding \<Rightarrow> bool" where
  "less_eq_finding a b = (finding_key a \<le> finding_key b)"

definition less_finding :: "finding \<Rightarrow> finding \<Rightarrow> bool" where
  "less_finding a b = (finding_key a < finding_key b)"

instance
  by standard (auto simp: less_eq_finding_def less_finding_def finding_key_inject less_le)

end

section \<open>Exceptions\<close>

text \<open>The exception classes the modelled code raises, with their message where it is one string.\<close>

datatype exn = MoneyError string | CurrencyError string | InvalidOperation | OverflowError
  | AuthorizationError string | CycleError string | MappingError string | LineageError string
  | ReleaseError string | TokenizationError string | UnprofilableFile string
  | ExtractionError string | RejectedUpload string | IdentityError string | KeyError string
  | TypeError | CsvError string | ReaderError | IndexError | ValueError string | SpreadsheetError string
  | OpenDocumentError string | PdfError string | OcrRequired string | OcrError string | BadZipFile
  | UnicodeEncodeError | ObjectStoreError string | RawRecordConflict string

text \<open>\<open>type(error).__name__\<close>, and \<open>str(error)\<close> of the classes that carry a message.\<close>

fun exn_name :: "exn \<Rightarrow> string" where
  "exn_name (MoneyError s) = ''MoneyError''"
| "exn_name (CurrencyError s) = ''CurrencyError''"
| "exn_name InvalidOperation = ''InvalidOperation''"
| "exn_name OverflowError = ''OverflowError''"
| "exn_name (AuthorizationError s) = ''AuthorizationError''"
| "exn_name (CycleError s) = ''CycleError''"
| "exn_name (MappingError s) = ''MappingError''"
| "exn_name (LineageError s) = ''LineageError''"
| "exn_name (ReleaseError s) = ''ReleaseError''"
| "exn_name (TokenizationError s) = ''TokenizationError''"
| "exn_name (UnprofilableFile s) = ''UnprofilableFile''"
| "exn_name (ExtractionError s) = ''ExtractionError''"
| "exn_name (RejectedUpload s) = ''RejectedUpload''"
| "exn_name (IdentityError s) = ''IdentityError''"
| "exn_name (KeyError s) = ''KeyError''"
| "exn_name TypeError = ''TypeError''"
| "exn_name (CsvError s) = ''Error''"
| "exn_name ReaderError = ''ReaderError''"
| "exn_name IndexError = ''IndexError''"
| "exn_name (ValueError s) = ''ValueError''"
| "exn_name (SpreadsheetError s) = ''SpreadsheetError''"
| "exn_name (OpenDocumentError s) = ''OpenDocumentError''"
| "exn_name (PdfError s) = ''PdfError''"
| "exn_name (OcrRequired s) = ''OcrRequired''"
| "exn_name (OcrError s) = ''OcrError''"
| "exn_name BadZipFile = ''BadZipFile''"
| "exn_name UnicodeEncodeError = ''UnicodeEncodeError''"
| "exn_name (ObjectStoreError s) = ''ObjectStoreError''"
| "exn_name (RawRecordConflict s) = ''RawRecordConflict''"

definition of_option :: "exn \<Rightarrow> 'a option \<Rightarrow> (exn, 'a) result" where
  "of_option e r = (case r of None \<Rightarrow> Inl e | Some x \<Rightarrow> Inr x)"

lemma of_option_simps [simp]: "of_option e None = Inl e" "of_option e (Some x) = Inr x"
  by (simp_all add: of_option_def)

lemma of_option_Inr_iff [simp]: "of_option e r = Inr x \<longleftrightarrow> r = Some x"
  by (cases r) simp_all

section \<open>Decimal\<close>

text \<open>
  \<open>Fin s c e\<close> is the finite number with sign bit \<open>s\<close>, coefficient \<open>c\<close> and exponent \<open>e\<close>, as
  \<open>Decimal.as_tuple\<close> shows it; a NaN carries the text it prints as. Exponents are not limited to
  the 18 digits of the C library.
\<close>

datatype decimal = Fin bool nat int | Inf bool | NaN string

definition dec_prec :: nat where "dec_prec = 28"

fun dec_is_finite :: "decimal \<Rightarrow> bool" where
  "dec_is_finite (Fin s c e) = True"
| "dec_is_finite _ = False"

definition signed :: "bool \<Rightarrow> nat \<Rightarrow> int" where
  "signed s c = (if s then - int c else int c)"

fun dec_val :: "decimal \<Rightarrow> rat" where
  "dec_val (Fin s c e) = of_int (signed s c) * 10 powi e"
| "dec_val _ = 0"

definition num_digits :: "nat \<Rightarrow> nat" where
  "num_digits c = length (show_nat c)"

text \<open>Dropping \<open>k\<close> decimal digits of a coefficient, half to even.\<close>

definition half_even :: "nat \<Rightarrow> nat \<Rightarrow> nat" where
  "half_even c k =
     (let p = 10 ^ k; q = c div p; r = 2 * (c mod p)
      in if r > p \<or> (r = p \<and> odd q) then q + 1 else q)"

text \<open>Rounding an exact result to the context precision, as every arithmetic operation does.\<close>

definition dec_round :: "bool \<Rightarrow> nat \<Rightarrow> int \<Rightarrow> decimal" where
  "dec_round s c e =
     (let n = num_digits c in
      if n \<le> dec_prec then Fin s c e
      else let k = n - dec_prec; q = half_even c k
           in if q = 10 ^ dec_prec then Fin s (10 ^ (dec_prec - 1)) (e + int k + 1)
              else Fin s q (e + int k))"

text \<open>\<open>Decimal.quantize\<close> to exponent \<open>q\<close>; \<open>None\<close> is \<open>InvalidOperation\<close>.\<close>

fun dec_quantize :: "int \<Rightarrow> decimal \<Rightarrow> decimal option" where
  "dec_quantize q (Fin s c e) =
     (if c = 0 then Some (Fin s 0 q)
      else if q \<le> e then
        (if num_digits c + nat (e - q) > dec_prec then None
         else Some (Fin s (c * 10 ^ nat (e - q)) q))
      else let c' = half_even c (nat (q - e))
           in if num_digits c' > dec_prec then None else Some (Fin s c' q))"
| "dec_quantize q (Inf s) = None"
| "dec_quantize q (NaN t) = (if ends_with ''sNaN'' (takeWhile (\<lambda>c. \<not> is_digit c) t) then None else Some (NaN t))"

text \<open>Addition of finite decimals: exact, then rounded; \<open>- 0\<close> only from two negative operands.\<close>

definition dec_align :: "bool \<Rightarrow> nat \<Rightarrow> int \<Rightarrow> int \<Rightarrow> int" where
  "dec_align s c e m = signed s (c * 10 ^ nat (e - m))"

fun dec_add :: "decimal \<Rightarrow> decimal \<Rightarrow> decimal option" where
  "dec_add (Fin s1 c1 e1) (Fin s2 c2 e2) =
     (let m = min e1 e2; t = dec_align s1 c1 e1 m + dec_align s2 c2 e2 m
      in if t = 0 then Some (Fin (s1 \<and> s2) 0 m)
         else Some (dec_round (t < 0) (nat \<bar>t\<bar>) m))"
| "dec_add _ _ = None"

fun dec_neg :: "decimal \<Rightarrow> decimal" where
  "dec_neg (Fin s c e) = Fin (\<not> s) c e"
| "dec_neg (Inf s) = Inf (\<not> s)"
| "dec_neg (NaN t) = NaN t"

definition dec_sub :: "decimal \<Rightarrow> decimal \<Rightarrow> decimal option" where
  "dec_sub a b = dec_add a (dec_neg b)"

text \<open>\<open>abs(d)\<close> rounds to the context and clears the sign.\<close>

fun dec_abs :: "decimal \<Rightarrow> decimal" where
  "dec_abs (Fin s c e) = dec_round False c e"
| "dec_abs (Inf s) = Inf False"
| "dec_abs (NaN t) = NaN t"

text \<open>Comparison with zero and numeric equality of finite decimals.\<close>

fun dec_lt0 :: "decimal \<Rightarrow> bool" where
  "dec_lt0 (Fin s c e) = (s \<and> c \<noteq> 0)"
| "dec_lt0 (Inf s) = s"
| "dec_lt0 (NaN t) = False"

fun dec_eq :: "decimal \<Rightarrow> decimal \<Rightarrow> bool" where
  "dec_eq (Fin s1 c1 e1) (Fin s2 c2 e2) =
     (let m = min e1 e2 in dec_align s1 c1 e1 m = dec_align s2 c2 e2 m)"
| "dec_eq (Inf s) (Inf t) = (s = t)"
| "dec_eq _ _ = False"

definition pad_left :: "nat \<Rightarrow> string \<Rightarrow> string" where
  "pad_left n s = replicate (n - length s) (CHR ''0'') @ s"

text \<open>\<open>str(d)\<close>, the to-scientific-string of the specification.\<close>

fun dec_str :: "decimal \<Rightarrow> string" where
  "dec_str (Fin s c e) =
     (let ds = show_nat c; n = int (length ds); left = e + n;
          dot = (if e \<le> 0 \<and> left > -6 then left else 1);
          body = (if dot \<le> 0 then ''0.'' @ replicate (nat (- dot)) (CHR ''0'') @ ds
                  else if dot \<ge> n then ds @ replicate (nat (dot - n)) (CHR ''0'')
                  else take (nat dot) ds @ ''.'' @ drop (nat dot) ds);
          ex = (if left = dot then ''''
                else ''E'' @ (if left - dot < 0 then ''-'' else ''+'') @ show_nat (nat \<bar>left - dot\<bar>))
      in (if s then ''-'' else '''') @ body @ ex)"
| "dec_str (Inf s) = (if s then ''-Infinity'' else ''Infinity'')"
| "dec_str (NaN t) = t"

text \<open>\<open>format(d, ".12f")\<close>: fixed point with twelve places, rounded half to even without limit.\<close>

fun dec_format12 :: "decimal \<Rightarrow> string" where
  "dec_format12 (Fin s c e) =
     (let u = (if -12 \<le> e then c * 10 ^ nat (e + 12) else half_even c (nat (-12 - e)))
      in (if s then ''-'' else '''') @ show_nat (u div 10 ^ 12) @ ''.'' @ pad_left 12 (show_nat (u mod 10 ^ 12)))"
| "dec_format12 (Inf s) = (if s then ''-Infinity'' else ''Infinity'')"
| "dec_format12 (NaN t) = t"

section \<open>Decimal of a string\<close>

definition split_sign :: "string \<Rightarrow> bool \<times> string" where
  "split_sign s = (case s of
       c # r \<Rightarrow> if c = CHR ''-'' then (True, r) else if c = CHR ''+'' then (False, r) else (False, s)
     | [] \<Rightarrow> (False, s))"

definition not_exp_mark :: "char \<Rightarrow> bool" where
  "not_exp_mark c = (c \<noteq> CHR ''e'' \<and> c \<noteq> CHR ''E'')"

definition not_dot :: "char \<Rightarrow> bool" where
  "not_dot c = (c \<noteq> CHR ''.'')"

text \<open>The exponent part after the mark: an optional sign and at least one digit.\<close>

definition dec_exponent :: "string \<Rightarrow> int option" where
  "dec_exponent t = (let (neg, ds) = split_sign t in
     if ds \<noteq> [] \<and> all_digits ds
     then Some (if neg then - int (digits_val ds) else int (digits_val ds)) else None)"

text \<open>Digits with at most one point and at least one digit: the coefficient and the places.\<close>

definition dec_mantissa :: "string \<Rightarrow> (nat \<times> nat) option" where
  "dec_mantissa t = (let ip = takeWhile not_dot t; rest = dropWhile not_dot t; fp = drop 1 rest in
     if all_digits ip \<and> all_digits fp \<and> ip @ fp \<noteq> []
     then Some (digits_val (ip @ fp), length fp) else None)"

definition dec_special :: "bool \<Rightarrow> string \<Rightarrow> decimal option" where
  "dec_special neg t = (let l = py_lower t; sg = (if neg then ''-'' else '''') in
     if l = ''inf'' \<or> l = ''infinity'' then Some (Inf neg)
     else if starts_with ''nan'' l \<and> all_digits (drop 3 l) then
       Some (NaN (sg @ ''NaN'' @ dropWhile (\<lambda>c. c = CHR ''0'') (drop 3 l)))
     else if starts_with ''snan'' l \<and> all_digits (drop 4 l) then
       Some (NaN (sg @ ''sNaN'' @ dropWhile (\<lambda>c. c = CHR ''0'') (drop 4 l)))
     else None)"

text \<open>\<open>Decimal(s)\<close>; \<open>None\<close> is \<open>InvalidOperation\<close>. Underscores are ignored, as in C.\<close>

definition decimal_of_string :: "string \<Rightarrow> decimal option" where
  "decimal_of_string s =
     (let (neg, t) = split_sign (remove_char (CHR ''_'') (py_strip s));
          m = takeWhile not_exp_mark t; rest = dropWhile not_exp_mark t in
      case dec_mantissa m of
        Some (c, places) \<Rightarrow>
          (if rest = [] then Some (Fin neg c (- int places))
           else case dec_exponent (drop 1 rest) of
                  Some x \<Rightarrow> Some (Fin neg c (x - int places))
                | None \<Rightarrow> None)
      | None \<Rightarrow> dec_special neg t)"

section \<open>Values\<close>

datatype pyval = PNone | PBool bool | PInt int | PStr string | PFloat string | PDec decimal
  | PList "pyval list" | PDict "(string \<times> pyval) list"

type_synonym pydict = "(string \<times> pyval) list"

text \<open>A float carries the text it prints as; \<open>bool(value)\<close>.\<close>

fun truthy :: "pyval \<Rightarrow> bool" where
  "truthy PNone = False"
| "truthy (PBool b) = b"
| "truthy (PInt i) = (i \<noteq> 0)"
| "truthy (PStr s) = (s \<noteq> [])"
| "truthy (PFloat t) = (t \<noteq> ''0.0'' \<and> t \<noteq> ''-0.0'')"
| "truthy (PDec d) = (case d of Fin s c e \<Rightarrow> c \<noteq> 0 | _ \<Rightarrow> True)"
| "truthy (PList xs) = (xs \<noteq> [])"
| "truthy (PDict kvs) = (kvs \<noteq> [])"

fun type_name :: "pyval \<Rightarrow> string" where
  "type_name PNone = ''NoneType''"
| "type_name (PBool b) = ''bool''"
| "type_name (PInt i) = ''int''"
| "type_name (PStr s) = ''str''"
| "type_name (PFloat t) = ''float''"
| "type_name (PDec d) = ''Decimal''"
| "type_name (PList xs) = ''list''"
| "type_name (PDict kvs) = ''dict''"

definition hex_char :: "nat \<Rightarrow> char" where
  "hex_char d = (if d < 10 then char_of (48 + d) else char_of (87 + d))"

definition printable :: "char \<Rightarrow> bool" where
  "printable c = ((32 \<le> code c \<and> code c \<le> 126) \<or> (161 \<le> code c \<and> code c \<noteq> 173))"

definition repr_char :: "char \<Rightarrow> char \<Rightarrow> string" where
  "repr_char q c =
     (if c = q \<or> c = CHR 0x5C then [CHR 0x5C, c]
      else if c = CHR 0x09 then [CHR 0x5C, CHR ''t'']
      else if c = chr_nl then [CHR 0x5C, CHR ''n'']
      else if c = chr_cr then [CHR 0x5C, CHR ''r'']
      else if printable c then [c]
      else [CHR 0x5C, CHR ''x'', hex_char (code c div 16), hex_char (code c mod 16)])"

definition repr_str :: "string \<Rightarrow> string" where
  "repr_str s = (let q = (if chr_apos \<in> set s \<and> chr_quote \<notin> set s then chr_quote else chr_apos)
                 in [q] @ concat (map (repr_char q) s) @ [q])"

fun py_repr :: "pyval \<Rightarrow> string" where
  "py_repr PNone = ''None''"
| "py_repr (PBool b) = (if b then ''True'' else ''False'')"
| "py_repr (PInt i) = show_int i"
| "py_repr (PStr s) = repr_str s"
| "py_repr (PFloat t) = t"
| "py_repr (PDec d) = ''Decimal('' @ [chr_apos] @ dec_str d @ [chr_apos] @ '')''"
| "py_repr (PList xs) = ''['' @ py_join '', '' (map py_repr xs) @ '']''"
| "py_repr (PDict kvs) =
     ''{'' @ py_join '', '' (map (\<lambda>kv. repr_str (fst kv) @ '': '' @ py_repr (snd kv)) kvs) @ ''}''"

fun py_str :: "pyval \<Rightarrow> string" where
  "py_str (PStr s) = s"
| "py_str (PDec d) = dec_str d"
| "py_str v = py_repr v"

definition repr_str_list :: "string list \<Rightarrow> string" where
  "repr_str_list xs = ''['' @ py_join '', '' (map repr_str xs) @ '']''"

text \<open>\<open>d.get(key)\<close> and \<open>d.get(key, default)\<close> of a dict in insertion order, its keys distinct.\<close>

definition dict_get :: "pydict \<Rightarrow> string \<Rightarrow> pyval" where
  "dict_get d k = (case map_of d k of Some v \<Rightarrow> v | None \<Rightarrow> PNone)"

definition dict_get_default :: "pydict \<Rightarrow> string \<Rightarrow> pyval \<Rightarrow> pyval" where
  "dict_get_default d k v0 = (case map_of d k of Some v \<Rightarrow> v | None \<Rightarrow> v0)"

section \<open>Facts about decimals\<close>

lemma num_digits_le: "0 < k \<Longrightarrow> num_digits c \<le> k \<longleftrightarrow> c < 10 ^ k"
  by (simp add: num_digits_def length_show_nat)

lemma num_digits_nonzero [simp]: "num_digits c \<noteq> 0"
  by (simp add: num_digits_def)

lemma num_digits_eqI:
  assumes "10 ^ k \<le> c" and "c < 10 ^ Suc k"
  shows "num_digits c = Suc k"
proof -
  have "num_digits c \<le> Suc k" using assms(2) num_digits_le [of "Suc k" c] by simp
  moreover have "\<not> num_digits c \<le> k" if "0 < k" using assms(1) num_digits_le [of k c] that by simp
  moreover have "num_digits c \<noteq> 0" by (rule num_digits_nonzero)
  ultimately show ?thesis by (cases "k = 0") linarith+
qed

lemma num_digits_lower: "0 < c \<Longrightarrow> num_digits c = Suc m \<Longrightarrow> 10 ^ m \<le> c"
proof (cases "m = 0")
  case False
  assume "num_digits c = Suc m"
  then have "\<not> num_digits c \<le> m" by simp
  with False show "10 ^ m \<le> c" using num_digits_le [of m c] by simp
qed simp

lemma num_digits_shift:
  assumes "0 < c"
  shows "num_digits (c * 10 ^ k) = num_digits c + k"
proof -
  obtain m where m: "num_digits c = Suc m" using not0_implies_Suc num_digits_nonzero by blast
  have "10 ^ m \<le> c" using num_digits_lower [OF assms m] .
  then have "10 ^ (m + k) \<le> c * 10 ^ k" by (simp add: power_add)
  moreover have "c < 10 ^ Suc m" using num_digits_le [of "Suc m" c] m by simp
  then have "c * 10 ^ k < 10 ^ Suc m * 10 ^ k" by simp
  then have "c * 10 ^ k < 10 ^ Suc (m + k)" by (simp add: power_add)
  ultimately show ?thesis using m by (simp add: num_digits_eqI)
qed

lemma dec_val_shift:
  "q \<le> e \<Longrightarrow> dec_val (Fin s (c * 10 ^ nat (e - q)) q) = dec_val (Fin s c e)"
proof -
  assume "q \<le> e"
  then have "(10::rat) powi e = 10 ^ nat (e - q) * 10 powi q"
    using power_int_add [of "10::rat" "e - q" q] by (simp add: power_int_def)
  then show ?thesis by (simp add: signed_def)
qed

lemma split_sign_digit: "s \<noteq> [] \<Longrightarrow> is_digit (hd s) \<Longrightarrow> split_sign s = (False, s)"
  by (cases s) (auto simp: split_sign_def is_digit_def code_def)

lemma not_dot_digit: "is_digit c \<Longrightarrow> not_dot c"
  by (auto simp: not_dot_def is_digit_def code_def)

lemma not_exp_mark_digit: "is_digit c \<Longrightarrow> not_exp_mark c"
  by (auto simp: not_exp_mark_def is_digit_def code_def)

lemma not_exp_mark_dot [simp]: "not_exp_mark (CHR ''.'')"
  by (simp add: not_exp_mark_def)

lemma not_space_digit: "is_digit c \<Longrightarrow> \<not> is_space c"
  by (auto simp: is_space_def is_digit_def)

lemma digit_not_underscore: "is_digit c \<Longrightarrow> c \<noteq> CHR ''_''"
  by (auto simp: is_digit_def code_def)

end
