(* ===== verification/Money.thy ===== *)
theory Money
  imports PyValue
begin

text \<open>
  \<open>fincilia_contracts/money.py\<close>: exact money. An amount is a decimal at scale 12; a float is
  refused, never converted. The lemmas characterise what \<open>parse_money\<close> accepts, show that the
  canonical text form reads back, and that \<open>add\<close> and \<open>subtract\<close> are exact or raise.
\<close>

section \<open>The module\<close>

definition MONEY_SCALE :: nat where "MONEY_SCALE = 12"
definition MONEY_PRECISION :: nat where "MONEY_PRECISION = 38"
definition ZERO :: decimal where "ZERO = Fin False 0 (-12)"

definition SUPPORTED_CURRENCIES :: "string list" where
  "SUPPORTED_CURRENCIES = [''COP'', ''USD'', ''EUR'']"

definition quantize_money :: "decimal \<Rightarrow> (exn, decimal) result" where
  "quantize_money d = of_option InvalidOperation (dec_quantize (- int MONEY_SCALE) d)"

text \<open>The checks of \<open>parse_money\<close> once a \<open>Decimal\<close> is at hand.\<close>

fun check_money :: "pyval \<Rightarrow> string \<Rightarrow> decimal \<Rightarrow> (exn, decimal) result" where
  "check_money v field (Fin s c e) =
     (if - e > int MONEY_SCALE
      then Inl (MoneyError (field @ '': money carries more than '' @ show_nat MONEY_SCALE @ '' decimal places''))
      else rbind (quantize_money (Fin s c e)) (\<lambda>q. case q of
             Fin s' c' e' \<Rightarrow>
               (if num_digits c' > MONEY_PRECISION
                then Inl (MoneyError (field @ '': money exceeds '' @ show_nat MONEY_PRECISION @ '' significant digits''))
                else Inr q)
           | _ \<Rightarrow> Inr q))"
| "check_money v field _ = Inl (MoneyError (field @ '': money must be finite; got '' @ py_repr v))"

definition parse_money :: "pyval \<Rightarrow> string \<Rightarrow> (exn, decimal) result" where
  "parse_money v field = (case v of
       PBool b \<Rightarrow> Inl (MoneyError (field @ '': money must not be a float; got '' @ py_repr v))
     | PFloat t \<Rightarrow> Inl (MoneyError (field @ '': money must not be a float; got '' @ py_repr v))
     | PDec d \<Rightarrow> check_money v field d
     | PInt i \<Rightarrow> check_money v field (Fin (i < 0) (nat \<bar>i\<bar>) 0)
     | PStr s \<Rightarrow> (case decimal_of_string (py_strip s) of
           None \<Rightarrow> Inl (MoneyError (field @ '': '' @ py_repr v @ '' is not an exact decimal''))
         | Some d \<Rightarrow> check_money v field d)
     | _ \<Rightarrow> Inl (MoneyError (field @ '': unsupported money type '' @ type_name v)))"

definition format_money :: "decimal \<Rightarrow> string" where
  "format_money d = dec_format12 d"

definition parse_currency :: "pyval \<Rightarrow> string \<Rightarrow> (exn, string) result" where
  "parse_currency v field = (case v of
       PStr s \<Rightarrow>
         (if py_strip s = '''' then Inl (CurrencyError (field @ '': currency is required and never inferred''))
          else let cur = py_upper (py_strip s) in
            if cur \<in> set SUPPORTED_CURRENCIES then Inr cur
            else Inl (CurrencyError (field @ '': '' @ repr_str cur @ '' is not a supported currency'')))
     | _ \<Rightarrow> Inl (CurrencyError (field @ '': currency is required and never inferred'')))"

definition add :: "decimal \<Rightarrow> decimal \<Rightarrow> (exn, decimal) result" where
  "add left right = rbind (of_option InvalidOperation (dec_add left right)) quantize_money"

definition subtract :: "decimal \<Rightarrow> decimal \<Rightarrow> (exn, decimal) result" where
  "subtract left right = rbind (of_option InvalidOperation (dec_sub left right)) quantize_money"

definition is_exact_zero :: "decimal \<Rightarrow> bool" where
  "is_exact_zero d = dec_eq d ZERO"

definition require_same_currency :: "string \<Rightarrow> string \<Rightarrow> (exn, string) result" where
  "require_same_currency left right =
     (if left \<noteq> right
      then Inl (CurrencyError (''cannot combine '' @ left @ '' with '' @ right @ '' without an explicit rate''))
      else Inr left)"

section \<open>The type invariant of money\<close>

text \<open>What every amount of the program is: scale 12 and at most 28 significant digits.\<close>

fun is_money :: "decimal \<Rightarrow> bool" where
  "is_money (Fin s c e) = (e = -12 \<and> c < 10 ^ 28)"
| "is_money _ = False"

text \<open>An amount counted in units of \<open>10\<^sup>-\<^sup>1\<^sup>2\<close>.\<close>

fun units :: "decimal \<Rightarrow> int" where
  "units (Fin s c e) = signed s c"
| "units _ = 0"

lemma is_money_cases:
  assumes "is_money d"
  obtains s c where "d = Fin s c (-12)" and "c < 10 ^ 28"
  using assms by (cases d) auto

lemma is_money_ZERO [simp]: "is_money ZERO"
  by (simp add: ZERO_def)

lemma units_ZERO [simp]: "units ZERO = 0"
  by (simp add: ZERO_def signed_def)

lemma powi_money: "(10::rat) powi (-12) = 1 / 10 ^ 12"
  by (simp add: power_int_def power_divide inverse_eq_divide)

lemma dec_val_money: "is_money d \<Longrightarrow> dec_val d = of_int (units d) / 10 ^ 12"
  by (cases d) (simp_all add: powi_money)

lemma is_exact_zero_money: "is_money d \<Longrightarrow> is_exact_zero d \<longleftrightarrow> units d = 0"
  by (cases d) (auto simp: is_exact_zero_def ZERO_def dec_align_def signed_def)

lemma units_bound: "is_money d \<Longrightarrow> \<bar>units d\<bar> < 10 ^ 28"
  by (cases d) (auto simp: signed_def)

lemma quantize_money_Fin:
  assumes "-12 \<le> e"
  shows "quantize_money (Fin s c e) =
    (if c = 0 then Inr (Fin s 0 (-12))
     else if c * 10 ^ nat (e + 12) < 10 ^ 28 then Inr (Fin s (c * 10 ^ nat (e + 12)) (-12))
     else Inl InvalidOperation)"
proof (cases "c = 0")
  case True
  then show ?thesis by (simp add: quantize_money_def MONEY_SCALE_def)
next
  case False
  then have "num_digits c + nat (e + 12) \<le> 28 \<longleftrightarrow> c * 10 ^ nat (e + 12) < 10 ^ 28"
    using num_digits_shift [of c "nat (e + 12)"] num_digits_le [of 28 "c * 10 ^ nat (e + 12)"] by simp
  then show ?thesis using False assms
    by (auto simp: quantize_money_def MONEY_SCALE_def dec_prec_def)
qed

text \<open>
  Quantizing already fails above 28 digits, so the test of the 38-digit ceiling never fires:
  the checks amount to the scale test and the quantize.
\<close>

lemma check_money_Fin:
  "check_money v field (Fin s c e) =
    (if e < -12 then Inl (MoneyError (field @ '': money carries more than 12 decimal places''))
     else quantize_money (Fin s c e))"
proof (cases "e < -12")
  case True
  then show ?thesis by (simp add: MONEY_SCALE_def show_nat.simps)
next
  case False
  have "num_digits x \<le> MONEY_PRECISION" if "x < 10 ^ 28" for x
  proof -
    have "x < 10 ^ 38" using that by (rule less_le_trans) simp
    then show ?thesis using num_digits_le [of 38 x] by (simp add: MONEY_PRECISION_def)
  qed
  from this [of 0] this [of "c * 10 ^ nat (e + 12)"] show ?thesis using False
    by (auto simp: MONEY_SCALE_def quantize_money_Fin not_less [symmetric])
qed

lemma quantize_money_ok:
  assumes "-12 \<le> e" and "quantize_money (Fin s c e) = Inr d"
  shows "is_money d" and "dec_val d = dec_val (Fin s c e)" and "\<exists>c'. d = Fin s c' (-12)"
proof -
  have d: "d = Fin s (c * 10 ^ nat (e - (-12))) (-12)" and "c * 10 ^ nat (e + 12) < 10 ^ 28"
    using assms by (auto simp: quantize_money_Fin split: if_splits)
  then show "is_money d" and "\<exists>c'. d = Fin s c' (-12)" by auto
  show "dec_val d = dec_val (Fin s c e)"
    unfolding d by (rule dec_val_shift) (use assms(1) in simp)
qed

text \<open>The number a value denotes before any check of the module.\<close>

fun money_reading :: "pyval \<Rightarrow> decimal option" where
  "money_reading (PDec d) = Some d"
| "money_reading (PInt i) = Some (Fin (i < 0) (nat \<bar>i\<bar>) 0)"
| "money_reading (PStr s) = decimal_of_string (py_strip s)"
| "money_reading _ = None"

lemma parse_money_reading:
  "parse_money v field = Inr d \<longleftrightarrow> (\<exists>r. money_reading v = Some r \<and> check_money v field r = Inr d)"
  by (cases v) (auto simp: parse_money_def split: option.splits)

lemma check_money_ok:
  "check_money v field r = Inr d \<longleftrightarrow>
    (\<exists>s c e. r = Fin s c e \<and> -12 \<le> e \<and> (c = 0 \<or> c * 10 ^ nat (e + 12) < 10 ^ 28)
       \<and> d = Fin s (c * 10 ^ nat (e + 12)) (-12))"
proof (cases r)
  case (Fin s c e)
  then show ?thesis
    by (auto simp: check_money_Fin quantize_money_Fin not_less simp del: check_money.simps)
qed auto

lemma money_abs_less:
  assumes "-12 \<le> e"
  shows "c * 10 ^ nat (e + 12) < 10 ^ 28 \<longleftrightarrow> \<bar>dec_val (Fin s c e)\<bar> < 10 ^ 16"
proof -
  let ?u = "c * 10 ^ nat (e - (-12))"
  have "dec_val (Fin s c e) = dec_val (Fin s ?u (-12))" using assms by (rule dec_val_shift [symmetric])
  also have "\<bar>\<dots>\<bar> = rat_of_nat ?u / 10 ^ 12"
    by (simp add: signed_def powi_money)
  finally have "\<bar>dec_val (Fin s c e)\<bar> < 10 ^ 16 \<longleftrightarrow> rat_of_nat ?u / 10 ^ 12 < 10 ^ 16" by presburger
  also have "\<dots> \<longleftrightarrow> rat_of_nat ?u < 10 ^ 28"
    by (simp add: divide_less_eq)
  also have "\<dots> \<longleftrightarrow> ?u < 10 ^ 28"
    by (metis of_nat_less_iff of_nat_numeral of_nat_power)
  finally show ?thesis by simp
qed

lemma parse_money_is_money: "parse_money v field = Inr d \<Longrightarrow> is_money d"
  by (auto simp: parse_money_reading check_money_ok)

text \<open>
  C38. \<open>parse_money\<close> accepts exactly the values that read as a finite decimal with at most
  twelve places and magnitude below \<open>10\<^sup>1\<^sup>6\<close>, and returns the same number at scale 12, never a
  rounded one.
\<close>

theorem parse_money_exact:
  "parse_money v field = Inr d \<longleftrightarrow>
    (\<exists>s c e. money_reading v = Some (Fin s c e) \<and> -12 \<le> e \<and> \<bar>dec_val (Fin s c e)\<bar> < 10 ^ 16
       \<and> (\<exists>c'. d = Fin s c' (-12)) \<and> dec_val d = dec_val (Fin s c e))"
  (is "?l \<longleftrightarrow> (\<exists>s c e. ?r s c e)")
proof
  assume ?l
  then obtain s c e where r: "money_reading v = Some (Fin s c e)" and e: "-12 \<le> e"
    and c: "c = 0 \<or> c * 10 ^ nat (e + 12) < 10 ^ 28" and d: "d = Fin s (c * 10 ^ nat (e + 12)) (-12)"
    by (auto simp: parse_money_reading check_money_ok)
  from c have "c * 10 ^ nat (e + 12) < 10 ^ 28" by auto
  then have "\<bar>dec_val (Fin s c e)\<bar> < 10 ^ 16" using money_abs_less [OF e] by blast
  moreover have "dec_val d = dec_val (Fin s c e)"
    using dec_val_shift [OF e, of s c] d by simp
  ultimately show "\<exists>s c e. ?r s c e" using r e d by blast
next
  assume "\<exists>s c e. ?r s c e"
  then obtain s c e c' where r: "money_reading v = Some (Fin s c e)" and e: "-12 \<le> e"
    and b: "\<bar>dec_val (Fin s c e)\<bar> < 10 ^ 16" and d: "d = Fin s c' (-12)"
    and eq: "dec_val d = dec_val (Fin s c e)" by blast
  have "dec_val (Fin s (c * 10 ^ nat (e + 12)) (-12)) = dec_val (Fin s c' (-12))"
    using dec_val_shift [OF e, of s c] d eq by simp
  then have "int c * 10 ^ nat (e + 12) = int c'" by (auto simp: signed_def split: if_splits)
  then have "int (c * 10 ^ nat (e + 12)) = int c'" by simp
  then have "c' = c * 10 ^ nat (e + 12)" by (simp only: of_nat_eq_iff)
  then show ?l using r e b d money_abs_less [OF e]
    by (auto simp: parse_money_reading check_money_ok)
qed

theorem parse_money_exact_witness:
  "parse_money (PStr '' 1.5 '') ''amount'' = Inr (Fin False 1500000000000 (-12))"
proof -
  have "money_reading (PStr '' 1.5 '') = Some (Fin False 15 (-1))" by code_simp
  moreover have "\<bar>dec_val (Fin False 15 (-1))\<bar> < 10 ^ 16"
    by (simp add: signed_def power_int_def)
  moreover have "dec_val (Fin False 1500000000000 (-12)) = dec_val (Fin False 15 (-1))"
    using dec_val_shift [of "-12" "-1" False 15] by simp
  ultimately show ?thesis
    by (subst parse_money_exact) (intro exI conjI, assumption, simp, assumption, rule refl, assumption)
qed

section \<open>The canonical text form\<close>

lemma all_digits_pad_left: "all_digits s \<Longrightarrow> all_digits (pad_left n s)"
  by (auto simp: all_digits_def pad_left_def list_all_iff is_digit_def code_def)

lemma digits_val_pad_left: "digits_val (pad_left n s) = digits_val s"
proof -
  have "digits_val (replicate k (CHR ''0'') @ s) = digits_val s" for k
    by (induction k) (simp_all add: digits_val_Cons digit_val_def code_def)
  then show ?thesis by (simp add: pad_left_def)
qed

lemma length_pad_left: "length s \<le> n \<Longrightarrow> length (pad_left n s) = n"
  by (simp add: pad_left_def)

lemma takeWhile_digits_dot:
  assumes "all_digits i"
  shows "takeWhile not_dot (i @ CHR ''.'' # f) = i" and "dropWhile not_dot (i @ CHR ''.'' # f) = CHR ''.'' # f"
proof -
  have "\<And>c. c \<in> set i \<Longrightarrow> not_dot c" using assms by (auto simp: all_digits_def list_all_iff not_dot_digit)
  then show "takeWhile not_dot (i @ CHR ''.'' # f) = i" and "dropWhile not_dot (i @ CHR ''.'' # f) = CHR ''.'' # f"
    by (simp_all add: takeWhile_append2 dropWhile_append2 not_dot_def)
qed

text \<open>Reading a plain numeral: an optional sign, digits, and digits after a point if there is one.\<close>

definition fraction_text :: "string \<Rightarrow> string" where
  "fraction_text f = (if f = [] then [] else CHR ''.'' # f)"

lemma set_fraction_text: "set (fraction_text f) \<subseteq> insert (CHR ''.'') (set f)"
  by (auto simp: fraction_text_def)

lemma mantissa_of_plain:
  "all_digits i \<Longrightarrow> i \<noteq> [] \<Longrightarrow> all_digits f \<Longrightarrow>
     dec_mantissa (i @ fraction_text f) = Some (digits_val (i @ f), length f)"
proof -
  assume a: "all_digits i" "i \<noteq> []" "all_digits f"
  have "\<And>c. c \<in> set i \<Longrightarrow> not_dot c" using a by (auto simp: all_digits_def list_all_iff not_dot_digit)
  then have i: "\<forall>c \<in> set i. not_dot c" and t: "takeWhile not_dot i = i" by (simp_all add: takeWhile_eq_all_conv)
  have d: "\<not> not_dot (CHR ''.'')" by (simp add: not_dot_def)
  show ?thesis
  proof (cases "f = []")
    case True
    have e: "dropWhile not_dot i = []" using i by simp
    show ?thesis using a True by (simp add: dec_mantissa_def fraction_text_def t e all_digits_def)
  next
    case False
    then show ?thesis using a i d by (simp add: dec_mantissa_def fraction_text_def Let_def)
  qed
qed

lemma decimal_of_plain:
  assumes i: "all_digits i" "i \<noteq> []" and f: "all_digits f" and sg: "sg \<in> {[], ''+'', ''-''}"
    and s: "s = sg @ i @ fraction_text f"
  shows "decimal_of_string s = Some (Fin (sg = ''-'') (digits_val (i @ f)) (- int (length f)))"
    and "py_strip s = s"
proof -
  let ?b = "i @ fraction_text f"
  have chars: "is_digit c \<or> c = CHR ''.''" if "c \<in> set ?b" for c
    using that i f set_fraction_text [of f] by (auto simp: all_digits_def list_all_iff)
  have dig: "is_digit (hd i)" "is_digit (last ?b)"
    using i f by (auto simp: all_digits_def list_all_iff fraction_text_def)
  have ne: "s \<noteq> []" "?b \<noteq> []" using i by (auto simp: s)
  have marks: "\<not> is_space (CHR ''-'')" "\<not> is_space (CHR ''+'')" by (simp_all add: is_space_def code_def)
  have "hd s = CHR ''-'' \<or> hd s = CHR ''+'' \<or> hd s = hd i" "last s = last ?b" using i sg ne by (auto simp: s)
  then have "\<not> is_space (hd s)" "\<not> is_space (last s)"
    using dig marks not_space_digit by metis+
  then show strip: "py_strip s = s" by (intro py_strip_id) auto
  have "set s \<subseteq> {CHR ''-'', CHR ''+''} \<union> set ?b" using sg by (auto simp: s)
  then have "c \<noteq> CHR ''_''" if "c \<in> set s" for c
    using chars that digit_not_underscore [of c] by auto
  then have "remove_char (CHR ''_'') s = s"
    unfolding remove_char_def by (intro filter_True) blast
  moreover have "split_sign ?b = (False, ?b)" using i dig by (intro split_sign_digit) auto
  then have "split_sign s = (sg = ''-'', ?b)"
    using sg by (auto simp: s) (simp_all add: split_sign_def)
  moreover have all: "\<forall>c \<in> set ?b. not_exp_mark c"
    using chars not_exp_mark_digit not_exp_mark_dot by metis
  from all have m: "takeWhile not_exp_mark ?b = ?b" "dropWhile not_exp_mark ?b = []"
    by (simp_all only: takeWhile_eq_all_conv dropWhile_eq_Nil_conv)
  ultimately show "decimal_of_string s = Some (Fin (sg = ''-'') (digits_val (i @ f)) (- int (length f)))"
    using strip mantissa_of_plain [OF i f] unfolding decimal_of_string_def by (simp only: Let_def m prod.case) simp
qed

lemma decimal_of_fixed_point:
  assumes "all_digits i" "i \<noteq> []" and f: "all_digits f" "f \<noteq> []"
    and s: "s = (if neg then ''-'' else []) @ i @ ''.'' @ f"
  shows "decimal_of_string s = Some (Fin neg (digits_val (i @ f)) (- int (length f)))"
    and "py_strip s = s"
  using decimal_of_plain [OF assms(1-3), of "if neg then ''-'' else []" s] f
  by (auto simp: s fraction_text_def)

lemma fixed12_read: "decimal_of_string (dec_format12 (Fin s c (-12))) = Some (Fin s c (-12))"
  and fixed12_strip: "py_strip (dec_format12 (Fin s c (-12))) = dec_format12 (Fin s c (-12))"
proof -
  define i where "i = show_nat (c div 10 ^ 12)"
  define f where "f = pad_left 12 (show_nat (c mod 10 ^ 12))"
  have len: "length f = 12"
    unfolding f_def by (rule length_pad_left) (simp only: length_show_nat, simp)
  have fmt: "dec_format12 (Fin s c (-12)) = (if s then ''-'' else []) @ i @ ''.'' @ f"
    by (simp add: i_def f_def)
  have digs: "all_digits i" "i \<noteq> []" "all_digits f" "f \<noteq> []"
    using len by (auto simp: i_def f_def all_digits_pad_left)
  have "digits_val (i @ f) = c"
    using len by (simp add: digits_val_append i_def f_def digits_val_pad_left)
  then show "decimal_of_string (dec_format12 (Fin s c (-12))) = Some (Fin s c (-12))"
    using decimal_of_fixed_point(1) [OF digs fmt] len by simp
  show "py_strip (dec_format12 (Fin s c (-12))) = dec_format12 (Fin s c (-12))"
    by (rule decimal_of_fixed_point(2) [OF digs fmt])
qed

lemma format_money_read:
  assumes "is_money d"
  shows "parse_money (PStr (format_money d)) field = Inr d"
proof -
  obtain s c where d: "d = Fin s c (-12)" and c: "c < 10 ^ 28" using assms by (rule is_money_cases)
  have "money_reading (PStr (format_money d)) = Some (Fin s c (-12))"
    unfolding money_reading.simps format_money_def d fixed12_strip fixed12_read by (rule refl)
  then show ?thesis using c d by (simp add: parse_money_reading check_money_ok)
qed

text \<open>
  The canonical text of an amount reads back as that very amount, sign bit and scale
  included: what the program serialises is what it parses.
\<close>

theorem format_parse_roundtrip:
  "is_money d \<Longrightarrow> parse_money (PStr (format_money d)) field = Inr d"
  by (rule format_money_read)

theorem format_parse_roundtrip_witness:
  "parse_money (PStr (format_money (Fin True 1500000000000 (-12)))) ''amount''
     = Inr (Fin True 1500000000000 (-12))"
  by (rule format_parse_roundtrip) simp

text \<open>
  An integer of seventeen digits or more is not refused as money but escapes as
  \<open>InvalidOperation\<close>, which is no \<open>MoneyError\<close>: the declared \<open>numeric(38, 12)\<close> is out of reach
  because quantizing runs under the default context of 28 digits.
\<close>

theorem parse_money_beyond_context:
  "10 ^ 16 \<le> \<bar>n\<bar> \<Longrightarrow> parse_money (PInt n) field = Inl InvalidOperation"
proof -
  assume n: "10 ^ 16 \<le> \<bar>n\<bar>"
  then have "10 ^ 16 \<le> nat \<bar>n\<bar>" by (simp add: le_nat_iff)
  then have "\<not> nat \<bar>n\<bar> * 10 ^ 12 < 10 ^ 28" and "nat \<bar>n\<bar> \<noteq> 0" by simp_all
  then show ?thesis
    by (simp add: parse_money_def check_money_Fin quantize_money_Fin del: check_money.simps)
qed

theorem parse_money_beyond_context_witness:
  "parse_money (PInt 12345678901234567) ''amount'' = Inl InvalidOperation"
  by (rule parse_money_beyond_context) simp

section \<open>Arithmetic\<close>

lemma dec_add_money:
  assumes "is_money a" and "is_money b"
  obtains z where "dec_add a b = (if units a + units b = 0 then Some (Fin z 0 (-12))
    else Some (dec_round (units a + units b < 0) (nat \<bar>units a + units b\<bar>) (-12)))"
proof -
  obtain s c where a: "a = Fin s c (-12)" using assms(1) by (rule is_money_cases)
  obtain t d where b: "b = Fin t d (-12)" using assms(2) by (rule is_money_cases)
  show ?thesis by (rule that [of "s \<and> t"]) (simp add: a b dec_align_def Let_def)
qed

text \<open>A sum of 29 digits loses its last one to the context, and then no longer fits the scale.\<close>

lemma quantize_after_overflow:
  assumes "10 ^ 28 \<le> c" and "c < 10 ^ 29"
  shows "quantize_money (dec_round s c (-12)) = Inl InvalidOperation"
proof -
  have n: "num_digits c = Suc 28" using assms by (intro num_digits_eqI) simp_all
  let ?q = "half_even c 1"
  have q: "10 ^ 27 \<le> ?q" using assms by (auto simp: half_even_def Let_def)
  show ?thesis
  proof (cases "?q = 10 ^ 28")
    case True
    then show ?thesis using n
      by (simp add: dec_round_def dec_prec_def quantize_money_Fin)
  next
    case False
    moreover have "\<not> ?q * 10 < 10 ^ 28" using q by simp
    moreover have "?q \<noteq> 0" using q by (intro notI) simp
    ultimately show ?thesis using n
      by (simp add: dec_round_def dec_prec_def quantize_money_Fin)
  qed
qed

lemma add_money_result:
  assumes "is_money a" and "is_money b"
  shows "if \<bar>units a + units b\<bar> < 10 ^ 28
         then (\<exists>d. add a b = Inr d \<and> is_money d \<and> units d = units a + units b)
         else add a b = Inl InvalidOperation"
proof -
  let ?t = "units a + units b"
  obtain z where sum: "dec_add a b = (if ?t = 0 then Some (Fin z 0 (-12))
      else Some (dec_round (?t < 0) (nat \<bar>?t\<bar>) (-12)))"
    using assms by (rule dec_add_money)
  consider "?t = 0" | "?t \<noteq> 0" "\<bar>?t\<bar> < 10 ^ 28" | "10 ^ 28 \<le> \<bar>?t\<bar>" by linarith
  then show ?thesis
  proof cases
    case 1
    then show ?thesis by (simp add: add_def sum quantize_money_Fin signed_def)
  next
    case 2
    then have lt: "nat \<bar>?t\<bar> < 10 ^ 28" by (simp add: nat_less_iff)
    then have "num_digits (nat \<bar>?t\<bar>) \<le> dec_prec"
      using num_digits_le [of 28 "nat \<bar>?t\<bar>"] by (simp add: dec_prec_def)
    then have "add a b = Inr (Fin (?t < 0) (nat \<bar>?t\<bar>) (-12))"
      using 2 lt by (simp add: add_def sum dec_round_def quantize_money_Fin)
    then show ?thesis using 2 lt by (simp add: signed_def)
  next
    case 3
    then have "10 ^ 28 \<le> nat \<bar>?t\<bar>" by (simp add: le_nat_iff)
    moreover have "\<bar>?t\<bar> < 2 * 10 ^ 28"
      using units_bound [OF assms(1)] units_bound [OF assms(2)] by linarith
    then have "nat \<bar>?t\<bar> < 10 ^ 29" by (simp add: nat_less_iff)
    ultimately have "quantize_money (dec_round (?t < 0) (nat \<bar>?t\<bar>) (-12)) = Inl InvalidOperation"
      by (rule quantize_after_overflow)
    then show ?thesis using 3 by (auto simp: add_def sum)
  qed
qed

lemma is_money_neg [simp]: "is_money (dec_neg d) = is_money d"
  by (cases d) simp_all

lemma units_neg [simp]: "units (dec_neg d) = - units d"
  by (cases d) (simp_all add: signed_def)

lemma subtract_as_add: "subtract a b = add a (dec_neg b)"
  by (simp add: subtract_def add_def dec_sub_def)

lemma subtract_money_result:
  assumes "is_money a" and "is_money b"
  shows "if \<bar>units a - units b\<bar> < 10 ^ 28
         then (\<exists>d. subtract a b = Inr d \<and> is_money d \<and> units d = units a - units b)
         else subtract a b = Inl InvalidOperation"
proof -
  have "units a - units b = units a + units (dec_neg b)" by simp
  moreover have "is_money (dec_neg b)" using assms(2) by simp
  note add_money_result [OF assms(1) this]
  ultimately show ?thesis by (simp only: subtract_as_add)
qed

text \<open>
  Adding and subtracting two amounts is exact or raises: the result is an amount whose units
  are the sum (difference) of the units, and \<open>InvalidOperation\<close> is raised exactly when that
  number needs more than 28 digits. No operation of the module ever rounds money.
\<close>

theorem arithmetic_exact_or_raises:
  assumes "is_money a" and "is_money b"
  shows "(if \<bar>units a + units b\<bar> < 10 ^ 28
          then (\<exists>d. add a b = Inr d \<and> is_money d \<and> units d = units a + units b)
          else add a b = Inl InvalidOperation)
       \<and> (if \<bar>units a - units b\<bar> < 10 ^ 28
          then (\<exists>d. subtract a b = Inr d \<and> is_money d \<and> units d = units a - units b)
          else subtract a b = Inl InvalidOperation)"
  using add_money_result [OF assms] subtract_money_result [OF assms] by blast

theorem arithmetic_exact_or_raises_witness:
  "add (Fin False 9999999999999999000000000000 (-12)) (Fin False 1000000000000 (-12)) = Inl InvalidOperation"
  using arithmetic_exact_or_raises
    [of "Fin False 9999999999999999000000000000 (-12)" "Fin False 1000000000000 (-12)"]
  by (simp add: signed_def)

text \<open>
  The canonical form is not unique: minus zero parses to an amount equal to zero whose text
  keeps the sign, so two representations of one amount do not compare as text.
\<close>

theorem negative_zero_keeps_its_sign:
  "parse_money (PStr ''-0'') field = Inr (Fin True 0 (-12))
   \<and> is_exact_zero (Fin True 0 (-12))
   \<and> format_money (Fin True 0 (-12)) = ''-0.000000000000''
   \<and> format_money ZERO = ''0.000000000000''"
proof (intro conjI)
  have pad: "pad_left 12 ''0'' = ''000000000000''" by (simp add: pad_left_def numeral_eq_Suc)
  have "decimal_of_string (py_strip ''-0'') = Some (Fin True 0 0)" by code_simp
  then show "parse_money (PStr ''-0'') field = Inr (Fin True 0 (-12))"
    by (simp add: parse_money_def check_money_Fin quantize_money_Fin del: check_money.simps)
  show "is_exact_zero (Fin True 0 (-12))" by (simp add: is_exact_zero_money signed_def)
  show "format_money (Fin True 0 (-12)) = ''-0.000000000000''"
    and "format_money ZERO = ''0.000000000000''"
    by (simp_all add: format_money_def ZERO_def show_nat.simps pad)
qed

text \<open>Apart from the sign of zero, the canonical text determines the amount and conversely.\<close>

lemma format_money_inject:
  assumes "is_money a" and "is_money b"
  shows "format_money a = format_money b \<longleftrightarrow> a = b"
  using format_money_read [OF assms(1)] format_money_read [OF assms(2)] by (metis sum.inject(2))

section \<open>Running totals\<close>

text \<open>
  What a ledger needs of an addition of amounts: below the context it is exact. Both the product's
  \<open>add\<close> and the bare \<open>+\<close> of the completeness engine promise it; a total over positive amounts is
  then exact whenever the last sum is in range.
\<close>

fun run_total :: "(decimal \<Rightarrow> decimal \<Rightarrow> (exn, decimal) result) \<Rightarrow> decimal \<Rightarrow> decimal list \<Rightarrow> (exn, decimal) result" where
  "run_total plus_of a [] = Inr a"
| "run_total plus_of a (b # bs) = rbind (plus_of a b) (\<lambda>c. run_total plus_of c bs)"

locale exact_addition =
  fixes plus_of :: "decimal \<Rightarrow> decimal \<Rightarrow> (exn, decimal) result"
  assumes exact: "is_money a \<Longrightarrow> is_money b \<Longrightarrow> \<bar>units a + units b\<bar> < 10 ^ 28 \<Longrightarrow>
      \<exists>d. plus_of a b = Inr d \<and> is_money d \<and> units d = units a + units b"
begin

lemma run_total_exact:
  "\<lbrakk>is_money a; 0 \<le> units a; \<forall>b \<in> set bs. is_money b \<and> 0 \<le> units b; units a + sum_list (map units bs) < 10 ^ 28\<rbrakk>
   \<Longrightarrow> \<exists>d. run_total plus_of a bs = Inr d \<and> is_money d \<and> units d = units a + sum_list (map units bs)"
proof (induction bs arbitrary: a)
  case (Cons b bs)
  have "0 \<le> sum_list (map units bs)" using Cons.prems by (intro sum_list_nonneg) auto
  then have bound: "\<bar>units a + units b\<bar> < 10 ^ 28" using Cons.prems by simp
  obtain c where c: "plus_of a b = Inr c" "is_money c" "units c = units a + units b"
    using exact [OF Cons.prems(1) _ bound] Cons.prems by auto
  have "\<exists>d. run_total plus_of c bs = Inr d \<and> is_money d \<and> units d = units c + sum_list (map units bs)"
    by (rule Cons.IH) (use c Cons.prems in auto)
  then show ?case using c by auto
qed simp

end

interpretation product: exact_addition add
proof
  fix a b assume "is_money a" "is_money b" "\<bar>units a + units b\<bar> < 10 ^ 28"
  then show "\<exists>d. add a b = Inr d \<and> is_money d \<and> units d = units a + units b"
    using add_money_result [of a b] by simp
qed

lemma dec_add_exact:
  assumes "is_money a" "is_money b" "\<bar>units a + units b\<bar> < 10 ^ 28"
  shows "\<exists>d. dec_add a b = Some d \<and> is_money d \<and> units d = units a + units b"
proof -
  let ?t = "units a + units b"
  obtain z where sum: "dec_add a b = (if ?t = 0 then Some (Fin z 0 (-12))
      else Some (dec_round (?t < 0) (nat \<bar>?t\<bar>) (-12)))"
    using assms(1,2) by (rule dec_add_money)
  have lt: "nat \<bar>?t\<bar> < 10 ^ 28" using assms(3) by (simp add: nat_less_iff)
  then have "num_digits (nat \<bar>?t\<bar>) \<le> dec_prec"
    using num_digits_le [of 28 "nat \<bar>?t\<bar>"] by (simp add: dec_prec_def)
  then have "dec_round (?t < 0) (nat \<bar>?t\<bar>) (-12) = Fin (?t < 0) (nat \<bar>?t\<bar>) (-12)"
    by (simp add: dec_round_def)
  then show ?thesis using lt sum by (auto simp: signed_def)
qed

lemma dec_sub_exact:
  assumes "is_money a" "is_money b" "\<bar>units a - units b\<bar> < 10 ^ 28"
  shows "\<exists>d. dec_sub a b = Some d \<and> is_money d \<and> units d = units a - units b"
  using dec_add_exact [of a "dec_neg b"] assms by (simp add: dec_sub_def)

end
