(* ===== verification/Tenancy.thy ===== *)
theory Tenancy
  imports PyValue
begin

text \<open>
  \<open>fincilia_contracts/tenancy.py\<close>: the tenant context resolved by the server, the role and
  permission matrices, and segregation of duties. The lemmas show that authorization is exactly
  membership in the matrix, that a client-supplied company never defines the scope, and that a
  history of guarded exercises never holds both sides of a segregated pair.
\<close>

section \<open>Roles and permissions\<close>

definition ROLES :: "string list" where
  "ROLES = [''owner'', ''firm_admin'', ''preparer'', ''reviewer'', ''auditor'', ''read_only'']"

definition FIRM_ROLES :: "string list" where
  "FIRM_ROLES = [''owner'', ''firm_admin'', ''member'']"

definition FIRM_PERMISSIONS :: "string list" where
  "FIRM_PERMISSIONS = [''company.provision'']"

definition FIRM_ROLE_PERMISSIONS :: "(string \<times> string list) list" where
  "FIRM_ROLE_PERMISSIONS =
    [(''owner'', FIRM_PERMISSIONS), (''firm_admin'', FIRM_PERMISSIONS), (''member'', [])]"

definition PERMISSIONS :: "string list" where
  "PERMISSIONS =
    [''company.read'', ''document.upload'', ''document.read'', ''dataset.map'',
     ''dataset.publish'', ''dataset.export'', ''financial_account.manage'',
     ''data_source.manage'', ''movement.read'', ''match.propose'', ''match.confirm'',
     ''match.reject'', ''close.prepare'', ''close.approve'', ''close.reopen.request'',
     ''close.reopen.approve'', ''audit.read'', ''member.manage'', ''quality.read'',
     ''quality.manage'', ''report.read'', ''report.export'']"

definition ROLE_PERMISSIONS :: "(string \<times> string list) list" where
  "ROLE_PERMISSIONS =
    [(''owner'', PERMISSIONS),
     (''firm_admin'',
       [''company.read'', ''document.upload'', ''document.read'', ''dataset.map'',
        ''financial_account.manage'', ''data_source.manage'',
        ''movement.read'', ''match.propose'', ''match.reject'', ''close.prepare'',
        ''close.reopen.request'',
        ''audit.read'', ''member.manage'', ''quality.read'', ''quality.manage'',
        ''report.read'']),
     (''preparer'',
       [''company.read'', ''document.upload'', ''document.read'', ''dataset.map'',
        ''dataset.export'', ''movement.read'', ''match.propose'', ''match.reject'',
        ''close.prepare'', ''quality.read'', ''quality.manage'', ''report.read'',
        ''close.reopen.request'',
        ''report.export'']),
     (''reviewer'',
       [''company.read'', ''document.read'', ''dataset.publish'', ''dataset.export'',
        ''movement.read'', ''match.confirm'', ''match.reject'', ''close.approve'',
        ''close.reopen.approve'',
        ''audit.read'', ''quality.read'', ''quality.manage'', ''report.read'',
        ''report.export'']),
     (''auditor'',
       [''company.read'', ''document.read'', ''dataset.export'', ''movement.read'',
        ''audit.read'', ''quality.read'', ''report.read'', ''report.export'']),
     (''read_only'',
       [''company.read'', ''document.read'', ''movement.read'', ''quality.read'',
        ''report.read''])]"

definition SEGREGATED_PAIRS :: "(string \<times> string) list" where
  "SEGREGATED_PAIRS =
    [(''match.propose'', ''match.confirm''),
     (''close.prepare'', ''close.approve''),
     (''close.reopen.request'', ''close.reopen.approve''),
     (''dataset.map'', ''dataset.publish'')]"

text \<open>\<open>matrix.get(role, frozenset())\<close>.\<close>

definition granted_by :: "(string \<times> string list) list \<Rightarrow> string \<Rightarrow> string set" where
  "granted_by m role = (case map_of m role of None \<Rightarrow> {} | Some ps \<Rightarrow> set ps)"

definition derive_permissions :: "string list \<Rightarrow> string set" where
  "derive_permissions roles = fold (\<lambda>role granted. granted \<union> granted_by ROLE_PERMISSIONS role) roles {}"

definition derive_firm_permissions :: "string \<Rightarrow> string set" where
  "derive_firm_permissions role = granted_by FIRM_ROLE_PERMISSIONS role"

definition require_firm_permission :: "string \<Rightarrow> string \<Rightarrow> (exn, unit) result" where
  "require_firm_permission role permission =
     (if permission \<notin> set FIRM_PERMISSIONS
      then Inl (AuthorizationError (''unknown firm permission '' @ repr_str permission))
      else if permission \<notin> derive_firm_permissions role
      then Inl (AuthorizationError (''firm role lacks '' @ permission))
      else Inr ())"

fun first_conflict :: "(string \<times> string) list \<Rightarrow> string \<Rightarrow> string set \<Rightarrow> string option" where
  "first_conflict [] permission past = None"
| "first_conflict ((left, right) # pairs) permission past =
     (if permission = right \<and> left \<in> past then Some left
      else if permission = left \<and> right \<in> past then Some right
      else first_conflict pairs permission past)"

definition violates_segregation :: "string \<Rightarrow> string set \<Rightarrow> string option" where
  "violates_segregation permission already_exercised =
     first_conflict SEGREGATED_PAIRS permission already_exercised"

section \<open>The tenant context\<close>

record tenant_context =
  subject_id :: string
  firm_id :: string
  company_id :: string
  roles :: "string list"
  authorization_version :: int
  engagement_id :: "string option"
  permissions :: "string set"

text \<open>
  Construction with \<open>__post_init__\<close>: whatever permissions the caller passes are replaced by the
  ones the roles derive.
\<close>

definition make_context :: "tenant_context \<Rightarrow> (exn, tenant_context) result" where
  "make_context c =
     (if subject_id c = [] \<or> firm_id c = [] \<or> company_id c = []
      then Inl (AuthorizationError ''a tenant context always names a subject, a firm and a company'')
      else let unknown = sorted_set (filter (\<lambda>r. r \<notin> set ROLES) (roles c)) in
        if unknown \<noteq> [] then Inl (AuthorizationError (''unknown roles: '' @ repr_str_list unknown))
        else if authorization_version c < 1
        then Inl (AuthorizationError ''authorization_version starts at 1'')
        else Inr (c\<lparr>permissions := derive_permissions (roles c)\<rparr>))"

definition has_permission :: "tenant_context \<Rightarrow> string \<Rightarrow> bool" where
  "has_permission c permission = (permission \<in> permissions c)"

definition require_permission :: "tenant_context \<Rightarrow> string \<Rightarrow> (exn, unit) result" where
  "require_permission c permission =
     (if permission \<notin> set PERMISSIONS
      then Inl (AuthorizationError (''unknown permission '' @ repr_str permission))
      else if permission \<notin> permissions c
      then Inl (AuthorizationError (''subject lacks '' @ permission @ '' on company '' @ company_id c))
      else Inr ())"

definition require_company :: "tenant_context \<Rightarrow> string \<Rightarrow> (exn, unit) result" where
  "require_company c claimed_company_id =
     (if claimed_company_id \<noteq> company_id c
      then Inl (AuthorizationError ''the requested company does not match the authorised context'')
      else Inr ())"

section \<open>Authorization is membership in the matrix\<close>

lemma fold_union: "fold (\<lambda>x g. g \<union> f x) xs A = A \<union> (\<Union>x \<in> set xs. f x)"
  by (induction xs arbitrary: A) auto

lemma derive_permissions_eq: "derive_permissions rs = (\<Union>r \<in> set rs. granted_by ROLE_PERMISSIONS r)"
  by (simp add: derive_permissions_def fold_union)

lemma granted_by_iff: "p \<in> granted_by m role \<longleftrightarrow> (\<exists>ps. map_of m role = Some ps \<and> p \<in> set ps)"
  by (simp add: granted_by_def split: option.splits)

lemma granted_by_unknown: "role \<notin> fst ` set m \<Longrightarrow> granted_by m role = {}"
  by (simp add: granted_by_def map_of_eq_None_iff [THEN iffD2])

lemma matrix_declares_known_permissions:
  "\<forall>(role, ps) \<in> set ROLE_PERMISSIONS. set ps \<subseteq> set PERMISSIONS"
  by (simp add: ROLE_PERMISSIONS_def PERMISSIONS_def)

lemma derived_are_declared: "derive_permissions rs \<subseteq> set PERMISSIONS"
  using matrix_declares_known_permissions
  unfolding derive_permissions_eq by (fastforce simp: granted_by_iff dest: map_of_SomeD)

lemma make_context_Inr:
  "make_context c = Inr ctx \<longleftrightarrow>
     subject_id c \<noteq> [] \<and> firm_id c \<noteq> [] \<and> company_id c \<noteq> [] \<and> set (roles c) \<subseteq> set ROLES
     \<and> 1 \<le> authorization_version c \<and> ctx = c\<lparr>permissions := derive_permissions (roles c)\<rparr>"
proof -
  have "sorted_set (filter (\<lambda>r. r \<notin> set ROLES) (roles c)) = [] \<longleftrightarrow> set (roles c) \<subseteq> set ROLES"
    by (auto simp: filter_empty_conv)
  then show ?thesis by (auto simp: make_context_def Let_def)
qed

text \<open>
  In a context the server built, \<open>require\<close> lets an operation through exactly when one of the
  context's roles grants the permission in the matrix; permissions passed by the caller of the
  constructor have no effect, and every role of the context is a declared one.
\<close>

theorem require_iff_role_grants:
  assumes "make_context c = Inr ctx"
  shows "(require_permission ctx permission = Inr ()
          \<longleftrightarrow> (\<exists>role \<in> set (roles c). permission \<in> granted_by ROLE_PERMISSIONS role))
       \<and> set (roles c) \<subseteq> set ROLES
       \<and> make_context (c\<lparr>permissions := anything\<rparr>) = Inr ctx"
proof -
  have ctx: "ctx = c\<lparr>permissions := derive_permissions (roles c)\<rparr>" "set (roles c) \<subseteq> set ROLES"
    using assms by (auto simp: make_context_Inr)
  have "require_permission ctx permission = Inr () \<longleftrightarrow> permission \<in> derive_permissions (roles c)"
    using derived_are_declared by (auto simp: require_permission_def ctx)
  moreover have "make_context (c\<lparr>permissions := anything\<rparr>) = Inr ctx"
    using assms by (auto simp: make_context_Inr)
  ultimately show ?thesis using ctx by (auto simp: derive_permissions_eq)
qed

definition sample_context :: tenant_context where
  "sample_context = \<lparr>subject_id = ''ana'', firm_id = ''f1'', company_id = ''c1'',
     roles = [''auditor''], authorization_version = 1, engagement_id = None, permissions = {}\<rparr>"

theorem require_iff_role_grants_witness:
  "require_permission (sample_context\<lparr>permissions := derive_permissions [''auditor'']\<rparr>) ''audit.read'' = Inr ()"
proof -
  have "make_context sample_context = Inr (sample_context\<lparr>permissions := derive_permissions [''auditor'']\<rparr>)"
    by (simp add: make_context_Inr sample_context_def ROLES_def)
  moreover have "''audit.read'' \<in> granted_by ROLE_PERMISSIONS ''auditor''"
    by (simp add: granted_by_def ROLE_PERMISSIONS_def)
  ultimately show ?thesis
    using require_iff_role_grants [of sample_context _ "''audit.read''"] by (auto simp: sample_context_def)
qed

lemma require_company_iff: "require_company c claimed = Inr () \<longleftrightarrow> claimed = company_id c"
  by (simp add: require_company_def)

lemma require_firm_permission_iff:
  "require_firm_permission role p = Inr () \<longleftrightarrow> p \<in> derive_firm_permissions role"
  by (auto simp: require_firm_permission_def derive_firm_permissions_def granted_by_def
      FIRM_ROLE_PERMISSIONS_def FIRM_PERMISSIONS_def split: option.splits if_splits)

section \<open>Segregation of duties\<close>

definition segregated :: "string \<Rightarrow> string \<Rightarrow> bool" where
  "segregated p q = ((p, q) \<in> set SEGREGATED_PAIRS \<or> (q, p) \<in> set SEGREGATED_PAIRS)"

lemma first_conflict_Some:
  "first_conflict pairs p past = Some q \<Longrightarrow> q \<in> past \<and> ((q, p) \<in> set pairs \<or> (p, q) \<in> set pairs)"
  by (induction pairs p past rule: first_conflict.induct) (auto split: if_splits)

lemma first_conflict_None:
  "first_conflict pairs p past = None \<longleftrightarrow>
     (\<forall>(l, r) \<in> set pairs. \<not> (p = r \<and> l \<in> past) \<and> \<not> (p = l \<and> r \<in> past))"
  by (induction pairs p past rule: first_conflict.induct) auto

lemma violates_segregation_None:
  "violates_segregation p past = None \<longleftrightarrow> (\<forall>q \<in> past. \<not> segregated p q)"
  by (auto simp: violates_segregation_def first_conflict_None segregated_def)

lemma violates_segregation_Some:
  "violates_segregation p past = Some q \<Longrightarrow> q \<in> past \<and> segregated p q"
  using first_conflict_Some by (auto simp: violates_segregation_def segregated_def)

text \<open>A subject's history on one object: a permission is exercised only where the check passes.\<close>

inductive history :: "string set \<Rightarrow> bool" where
  fresh: "history {}"
| exercise: "history past \<Longrightarrow> violates_segregation p past = None \<Longrightarrow> history (insert p past)"

lemma segregated_sym: "segregated p q = segregated q p"
  by (auto simp: segregated_def)

lemma segregated_irrefl: "\<not> segregated p p"
  by (auto simp: segregated_def SEGREGATED_PAIRS_def)

text \<open>
  A subject whose every exercise passed \<open>violates_segregation\<close> never holds both sides of a
  segregated pair on one object: who proposes does not confirm, who prepares does not approve.
\<close>

theorem guarded_history_respects_segregation:
  assumes "history past" and "p \<in> past" and "q \<in> past"
  shows "\<not> segregated p q"
  using assms
proof (induction arbitrary: p q rule: history.induct)
  case fresh
  then show ?case by simp
next
  case (exercise past r)
  then show ?case
    by (auto simp: violates_segregation_None segregated_irrefl) (metis segregated_sym)
qed

theorem guarded_history_respects_segregation_witness:
  "history {''match.propose''} \<and> \<not> segregated ''match.propose'' ''match.propose''"
proof -
  have h: "history {''match.propose''}"
    using history.exercise [OF history.fresh] by (simp add: violates_segregation_None)
  then show ?thesis using guarded_history_respects_segregation [OF h] by simp
qed

text \<open>
  No single role but the owner can do both halves of a segregated pair, and the owner can do
  all of them: for the owner segregation rests on the per-object check alone.
\<close>

theorem roles_do_not_span_segregated_pairs:
  "(\<forall>role \<in> set ROLES. role \<noteq> ''owner'' \<longrightarrow>
      (\<forall>(l, r) \<in> set SEGREGATED_PAIRS.
         \<not> (l \<in> granted_by ROLE_PERMISSIONS role \<and> r \<in> granted_by ROLE_PERMISSIONS role)))
   \<and> (\<forall>(l, r) \<in> set SEGREGATED_PAIRS.
         l \<in> granted_by ROLE_PERMISSIONS ''owner'' \<and> r \<in> granted_by ROLE_PERMISSIONS ''owner'')"
  by (simp add: ROLES_def SEGREGATED_PAIRS_def granted_by_def ROLE_PERMISSIONS_def PERMISSIONS_def)

theorem roles_do_not_span_segregated_pairs_witness:
  "\<not> (''close.prepare'' \<in> granted_by ROLE_PERMISSIONS ''reviewer''
       \<and> ''close.approve'' \<in> granted_by ROLE_PERMISSIONS ''reviewer'')"
proof -
  have "''reviewer'' \<in> set ROLES" "(''close.prepare'', ''close.approve'') \<in> set SEGREGATED_PAIRS"
    by (simp_all add: ROLES_def SEGREGATED_PAIRS_def)
  then show ?thesis using roles_do_not_span_segregated_pairs by fastforce
qed

end
