(* ===== verification/Release.thy ===== *)
theory Release
  imports PyValue
begin

text \<open>
  \<open>fincilia_contracts/release.py\<close>: the engine release key, the canonical JSON of a manifest and
  the reproduction key. SHA-256 is the argument \<open>sha\<close> of the definitions that hash. The lemmas
  show that the canonical JSON does not depend on the order of a dict and that the reproduction key depends on exactly the declared inputs.
\<close>

section \<open>Canonical JSON\<close>

text \<open>\<open>json.dumps(..., ensure_ascii=False)\<close> of a string.\<close>

definition json_char :: "char \<Rightarrow> string" where
  "json_char c =
     (if c = chr_quote then [CHR 0x5C, chr_quote]
      else if c = CHR 0x5C then [CHR 0x5C, CHR 0x5C]
      else if c = chr_nl then [CHR 0x5C, CHR ''n'']
      else if c = chr_cr then [CHR 0x5C, CHR ''r'']
      else if c = CHR 0x09 then [CHR 0x5C, CHR ''t'']
      else if c = CHR 0x0C then [CHR 0x5C, CHR ''f'']
      else if c = CHR 0x08 then [CHR 0x5C, CHR ''b'']
      else if code c < 32 then [CHR 0x5C, CHR ''u'', CHR ''0'', CHR ''0'', hex_char (code c div 16), hex_char (code c mod 16)]
      else [c])"

definition json_string :: "string \<Rightarrow> string" where
  "json_string s = [chr_quote] @ concat (map json_char s) @ [chr_quote]"

lemma map_result_cong [fundef_cong]:
  "xs = ys \<Longrightarrow> (\<And>x. x \<in> set ys \<Longrightarrow> f x = g x) \<Longrightarrow> map_result f xs = map_result g ys"
  by (induction xs arbitrary: ys) auto

lemma rbind_cong [fundef_cong]:
  "m = n \<Longrightarrow> (\<And>x. n = Inr x \<Longrightarrow> f x = g x) \<Longrightarrow> rbind m f = rbind n g"
  by (cases n) auto

text \<open>
  \<open>sort_keys=True, separators=(",", ":")\<close>. A \<open>Decimal\<close> is not serialisable; float text is the one
  \<open>repr\<close> gives. Items are ordered by key, and a dict has each key once.
\<close>

fun json_dump :: "pyval \<Rightarrow> (exn, string) result" where
  "json_dump PNone = Inr ''null''"
| "json_dump (PBool b) = Inr (if b then ''true'' else ''false'')"
| "json_dump (PInt i) = Inr (show_int i)"
| "json_dump (PStr s) = Inr (json_string s)"
| "json_dump (PFloat t) = Inr t"
| "json_dump (PDec d) = Inl TypeError"
| "json_dump (PList xs) =
     rbind (map_result json_dump xs) (\<lambda>ts. Inr (''['' @ py_join '','' ts @ '']''))"
| "json_dump (PDict kvs) =
     rbind (map_result (\<lambda>kv. rbind (json_dump (snd kv)) (\<lambda>t. Inr (fst kv, t))) kvs)
       (\<lambda>items. Inr (''{'' @ py_join '','' (map (\<lambda>(k, t). json_string k @ '':'' @ t) (sort_key fst items)) @ ''}''))"

definition canonical_json :: "pydict \<Rightarrow> (exn, string) result" where
  "canonical_json payload = json_dump (PDict payload)"

section \<open>Releases and reproduction\<close>

definition FLOATING_TOKENS :: "string list" where
  "FLOATING_TOKENS = [''latest'', ''main'', ''head'', ''stable'', ''current'']"

definition MANIFEST_INPUT_FIELDS :: "string list" where
  "MANIFEST_INPUT_FIELDS =
    [''canonical_schema_version'', ''company_id'', ''deterministic_config'', ''engine_release_key'',
     ''input_artifact_sha256'', ''locale'', ''mapping_definition_digest'', ''mapping_version_id'',
     ''random_seed'', ''source_schema_digest'', ''timezone'']"

definition validate_release_key :: "string \<Rightarrow> (exn, unit) result" where
  "validate_release_key key =
     (if key = [] \<or> \<not> (3 \<le> length key \<and> length key \<le> 120)
      then Inl (ReleaseError ''release key must be between 3 and 120 characters'')
      else if py_lower (py_strip key) \<in> set FLOATING_TOKENS
      then Inl (ReleaseError (''floating release token is not reproducible: '' @ key))
      else Inr ())"

definition manifest_inputs :: "pydict \<Rightarrow> pydict" where
  "manifest_inputs manifest = map (\<lambda>f. (f, dict_get manifest f)) MANIFEST_INPUT_FIELDS"

definition reproduction_key :: "(string \<Rightarrow> string) \<Rightarrow> pydict \<Rightarrow> (exn, string) result" where
  "reproduction_key sha manifest =
     (let missing = filter (\<lambda>f. f \<notin> fst ` set manifest) MANIFEST_INPUT_FIELDS in
      if missing \<noteq> []
      then Inl (ReleaseError (''manifest is missing required fields: '' @ repr_str_list (sort missing)))
      else rbind (validate_release_key (py_str (dict_get manifest ''engine_release_key'')))
        (\<lambda>_. rbind (canonical_json (manifest_inputs manifest)) (\<lambda>t. Inr (sha t))))"

definition digest_of :: "(string \<Rightarrow> string) \<Rightarrow> pyval \<Rightarrow> (exn, string) result" where
  "digest_of sha v = rbind
     (case v of PDict kvs \<Rightarrow> canonical_json kvs
        | PList xs \<Rightarrow> json_dump (PList xs)
        | PNone \<Rightarrow> Inr []
        | w \<Rightarrow> Inr (py_str w)) (\<lambda>t. Inr (sha t))"

section \<open>The canonical text does not depend on the order of a dict\<close>

definition dump_item :: "string \<times> pyval \<Rightarrow> (exn, string \<times> string) result" where
  "dump_item kv = rbind (json_dump (snd kv)) (\<lambda>t. Inr (fst kv, t))"

lemma dump_item_iff [simp]:
  "dump_item kv = Inr it \<longleftrightarrow> fst it = fst kv \<and> json_dump (snd kv) = Inr (snd it)"
  "dump_item kv = Inl e \<longleftrightarrow> json_dump (snd kv) = Inl e"
  by (cases it; cases "json_dump (snd kv)"; auto simp: dump_item_def)+

lemma map_fst_dump_items: "map_result dump_item kvs = Inr items \<Longrightarrow> map fst items = map fst kvs"
  by (induction kvs arbitrary: items) (auto simp: rbind_Inr_iff)

lemma dump_items_error: "(\<exists>kv \<in> set kvs. \<exists>e. json_dump (snd kv) = Inl e) \<longleftrightarrow> (\<exists>e. map_result dump_item kvs = Inl e)"
proof (induction kvs)
  case (Cons kv kvs)
  have "(\<exists>e. map_result dump_item (kv # kvs) = Inl e) \<longleftrightarrow>
      (\<exists>e. json_dump (snd kv) = Inl e) \<or> (\<exists>e. map_result dump_item kvs = Inl e)"
    by (cases "json_dump (snd kv)"; cases "map_result dump_item kvs") (auto simp: rbind_Inl_iff dump_item_def)
  then show ?case using Cons by auto
qed simp

lemma json_dump_only_TypeError: "json_dump v = Inl e \<Longrightarrow> e = TypeError"
proof (induction v arbitrary: e)
  case (PList xs)
  have "map_result json_dump xs = Inl e \<Longrightarrow> e = TypeError" using PList.IH
    by (induction xs) (auto simp: rbind_Inl_iff)
  then show ?case using PList.prems by (auto simp: rbind_Inl_iff)
next
  case (PDict kvs)
  have IH: "json_dump (snd kv) = Inl e \<Longrightarrow> e = TypeError" if "kv \<in> set kvs" for kv
    using PDict.IH [of kv "snd kv"] that by (cases kv) auto
  have "map_result dump_item kvs = Inl e \<Longrightarrow> e = TypeError" using IH
    by (induction kvs) (auto simp: rbind_Inl_iff)
  then show ?case using PDict.prems by (auto simp: rbind_Inl_iff dump_item_def [abs_def])
qed auto

lemma set_dump_items:
  "map_result dump_item kvs = Inr items \<Longrightarrow>
    set items = {(k, t). \<exists>v. (k, v) \<in> set kvs \<and> json_dump v = Inr t}"
proof (induction kvs arbitrary: items)
  case (Cons kv kvs)
  then obtain t rest where t: "json_dump (snd kv) = Inr t" "map_result dump_item kvs = Inr rest"
    "items = (fst kv, t) # rest" by (auto simp: rbind_Inr_iff)
  then have "set rest = {(k, t). \<exists>v. (k, v) \<in> set kvs \<and> json_dump v = Inr t}" using Cons.IH by blast
  then show ?case using t by (cases kv) auto
qed simp

lemma sort_key_fst_cong:
  assumes "distinct (map fst xs)" and "distinct (map fst ys)" and "set xs = set ys"
  shows "sort_key fst xs = sort_key fst ys"
proof (rule map_sorted_distinct_set_unique [where f = fst])
  show "inj_on fst (set (sort_key fst xs) \<union> set (sort_key fst ys))"
    using assms by (simp add: distinct_map)
  show "distinct (map fst (sort_key fst xs))" "distinct (map fst (sort_key fst ys))"
    using assms(1,2) by (metis distinct_map distinct_sort set_sort)+
qed (use assms in simp_all)

lemma canonical_json_dict:
  "canonical_json kvs = rbind (map_result dump_item kvs)
     (\<lambda>items. Inr (''{'' @ py_join '','' (map (\<lambda>(k, t). json_string k @ '':'' @ t) (sort_key fst items)) @ ''}''))"
  by (simp add: canonical_json_def dump_item_def [abs_def])

lemma canonical_json_cong:
  assumes "distinct (map fst a)" and "distinct (map fst b)" and "set a = set b"
  shows "canonical_json a = canonical_json b"
proof (cases "map_result dump_item a")
  case (Inl e)
  then obtain e' where e': "map_result dump_item b = Inl e'"
    using dump_items_error [of a] dump_items_error [of b] assms(3) by auto
  have "canonical_json a = Inl e" "canonical_json b = Inl e'" using Inl e' by (simp_all add: canonical_json_dict)
  then show ?thesis using json_dump_only_TypeError unfolding canonical_json_def by metis
next
  case (Inr xs)
  then obtain ys where ys: "map_result dump_item b = Inr ys"
  proof (cases "map_result dump_item b")
    case (Inl e)
    then have "\<exists>e. map_result dump_item a = Inl e"
      using dump_items_error [of a] dump_items_error [of b] assms(3) by simp
    then show ?thesis using Inr by simp
  qed
  have "set xs = set ys" unfolding set_dump_items [OF Inr] set_dump_items [OF ys] assms(3) ..
  moreover have "distinct (map fst xs)" "distinct (map fst ys)"
    unfolding map_fst_dump_items [OF Inr] map_fst_dump_items [OF ys] using assms by simp_all
  ultimately have "sort_key fst xs = sort_key fst ys" by (intro sort_key_fst_cong)
  then show ?thesis using Inr ys by (simp add: canonical_json_dict)
qed

text \<open>
  The canonical JSON of a manifest does not depend on the order in which its keys were
  inserted, errors included: two processes that hold the same dict serialise the same bytes.
\<close>

theorem canonical_json_order_insensitive:
  assumes "distinct (map fst a)" and "distinct (map fst b)" and "set a = set b"
  shows "canonical_json a = canonical_json b \<and> digest_of sha (PDict a) = digest_of sha (PDict b)"
  using canonical_json_cong [OF assms] by (simp add: digest_of_def)

theorem canonical_json_order_insensitive_witness:
  "canonical_json [(''b'', PInt 2), (''a'', PStr ''x'')] = canonical_json [(''a'', PStr ''x''), (''b'', PInt 2)]"
  using canonical_json_order_insensitive [of "[(''b'', PInt 2), (''a'', PStr ''x'')]" "[(''a'', PStr ''x''), (''b'', PInt 2)]"]
  by auto

section \<open>The reproduction key\<close>

lemma manifest_inputs_eq_iff:
  "manifest_inputs m = manifest_inputs n \<longleftrightarrow> (\<forall>f \<in> set MANIFEST_INPUT_FIELDS. dict_get m f = dict_get n f)"
  by (auto simp: manifest_inputs_def)

lemma engine_release_key_declared: "''engine_release_key'' \<in> set MANIFEST_INPUT_FIELDS"
  by (simp add: MANIFEST_INPUT_FIELDS_def)

lemma reproduction_key_complete:
  assumes "set MANIFEST_INPUT_FIELDS \<subseteq> fst ` set m"
  shows "reproduction_key sha m = rbind (validate_release_key (py_str (dict_get m ''engine_release_key'')))
      (\<lambda>_. rbind (canonical_json (manifest_inputs m)) (\<lambda>t. Inr (sha t)))"
proof -
  have "filter (\<lambda>f. f \<notin> fst ` set m) MANIFEST_INPUT_FIELDS = []"
    using assms by (auto simp: filter_empty_conv)
  then show ?thesis unfolding reproduction_key_def Let_def by simp
qed

text \<open>
  The reproduction key is a function of the declared input fields alone: two manifests that
  agree on them get the same outcome whatever else they carry (output digests, say), a manifest
  that lacks one is refused, and a floating engine release never gets a key.
\<close>

theorem reproduction_key_of_declared_inputs:
  shows "set MANIFEST_INPUT_FIELDS \<subseteq> fst ` set m \<Longrightarrow> set MANIFEST_INPUT_FIELDS \<subseteq> fst ` set n \<Longrightarrow>
      (\<And>f. f \<in> set MANIFEST_INPUT_FIELDS \<Longrightarrow> dict_get m f = dict_get n f) \<Longrightarrow>
      reproduction_key sha m = reproduction_key sha n
      \<and> (f \<in> set MANIFEST_INPUT_FIELDS \<longrightarrow> \<not> is_ok (reproduction_key sha (filter (\<lambda>kv. fst kv \<noteq> f) m)))
      \<and> (py_lower (py_strip (py_str (dict_get m ''engine_release_key''))) \<in> set FLOATING_TOKENS
           \<longrightarrow> \<not> is_ok (reproduction_key sha m))"
proof (intro conjI impI)
  assume m: "set MANIFEST_INPUT_FIELDS \<subseteq> fst ` set m" and n: "set MANIFEST_INPUT_FIELDS \<subseteq> fst ` set n"
    and eq: "\<And>f. f \<in> set MANIFEST_INPUT_FIELDS \<Longrightarrow> dict_get m f = dict_get n f"
  have "manifest_inputs m = manifest_inputs n" using eq by (simp add: manifest_inputs_eq_iff)
  then show "reproduction_key sha m = reproduction_key sha n"
    unfolding reproduction_key_complete [OF m] reproduction_key_complete [OF n]
    by (simp add: eq [OF engine_release_key_declared])
next
  assume "f \<in> set MANIFEST_INPUT_FIELDS"
  then have "f \<in> set (filter (\<lambda>g. g \<notin> fst ` set (filter (\<lambda>kv. fst kv \<noteq> f) m)) MANIFEST_INPUT_FIELDS)" by auto
  then have "filter (\<lambda>g. g \<notin> fst ` set (filter (\<lambda>kv. fst kv \<noteq> f) m)) MANIFEST_INPUT_FIELDS \<noteq> []" by (intro notI) (simp only: list.set empty_iff)
  then show "\<not> is_ok (reproduction_key sha (filter (\<lambda>kv. fst kv \<noteq> f) m))"
    unfolding reproduction_key_def Let_def by simp
next
  assume m: "set MANIFEST_INPUT_FIELDS \<subseteq> fst ` set m"
    and fl: "py_lower (py_strip (py_str (dict_get m ''engine_release_key''))) \<in> set FLOATING_TOKENS"
  have "\<not> is_ok (validate_release_key (py_str (dict_get m ''engine_release_key'')))"
    using fl by (simp add: validate_release_key_def)
  then show "\<not> is_ok (reproduction_key sha m)"
    unfolding reproduction_key_complete [OF m] by (auto simp: is_ok_iff rbind_Inr_iff)
qed

definition sample_manifest :: pydict where
  "sample_manifest = map (\<lambda>f. (f, PStr ''v-1'')) MANIFEST_INPUT_FIELDS"

theorem reproduction_key_of_declared_inputs_witness:
  "reproduction_key (\<lambda>t. t) sample_manifest
     = reproduction_key (\<lambda>t. t) (sample_manifest @ [(''output_digests'', PList [PStr ''d''])])"
proof -
  have m: "set MANIFEST_INPUT_FIELDS \<subseteq> fst ` set sample_manifest"
    and n: "set MANIFEST_INPUT_FIELDS \<subseteq> fst ` set (sample_manifest @ [(''output_digests'', PList [PStr ''d''])])"
    by (auto simp: sample_manifest_def image_iff)
  have "dict_get sample_manifest f = dict_get (sample_manifest @ [(''output_digests'', PList [PStr ''d''])]) f"
    if "f \<in> set MANIFEST_INPUT_FIELDS" for f
    using that by (auto simp: sample_manifest_def dict_get_def map_add_def map_of_map_keys MANIFEST_INPUT_FIELDS_def)
  with reproduction_key_of_declared_inputs [OF m n] show ?thesis by blast
qed

end
