(* ===== verification/Tokenization.thy ===== *)
theory Tokenization
  imports PyValue
begin

text \<open>
  \<open>fincilia_contracts/tokenization.py\<close>: account identifiers become keyed tokens. HMAC-SHA256 is
  the argument \<open>hmac\<close> (key, material) of the definitions. The lemmas show that the token depends
  on the normal form only, that the material it is computed from separates companies, families and
  key versions, and that at most four digits of an identifier are ever shown.
\<close>

section \<open>The module\<close>

definition MIN_KEY_LENGTH :: nat where "MIN_KEY_LENGTH = 32"

definition LAST4_FAMILIES :: "string list" where
  "LAST4_FAMILIES = [''bank_account'', ''payment_gateway'', ''merchant_acquirer'', ''digital_wallet'']"

text \<open>\<open>^[A-Za-z0-9][A-Za-z0-9 ._/-]{3,63}$\<close>\<close>

definition identifier_char :: "char \<Rightarrow> bool" where
  "identifier_char c = (is_alnum_ascii c \<or> c \<in> set '' ._/-'')"

definition IDENTIFIER :: rx where
  "IDENTIFIER = RSeq (RCls is_alnum_ascii) (rrange 3 63 (RCls identifier_char))"

text \<open>\<open>[\s._/-]\<close>\<close>

definition is_separator :: "char \<Rightarrow> bool" where
  "is_separator c = (is_space c \<or> c \<in> set ''._/-'')"

record account_identifier =
  token :: string
  last4 :: "string option"
  key_version :: int

definition normalise :: "string \<Rightarrow> (exn, string) result" where
  "normalise identifier =
     (let squeezed = py_upper (filter (\<lambda>c. \<not> is_separator c) identifier) in
      if squeezed = [] then Inl (TokenizationError ''the identifier is empty once separators are removed'')
      else Inr squeezed)"

definition digits_of :: "string \<Rightarrow> string" where
  "digits_of identifier = filter is_digit identifier"

text \<open>\<open>s[-4:]\<close>\<close>

definition tail4 :: "string \<Rightarrow> string" where
  "tail4 s = drop (length s - 4) s"

definition unit_separator :: string where "unit_separator = [CHR 0x1F]"

definition token_material :: "int \<Rightarrow> string \<Rightarrow> string \<Rightarrow> string \<Rightarrow> string" where
  "token_material kv company family canonical =
     py_join unit_separator [show_int kv, company, family, canonical]"

definition tokenize :: "(string \<Rightarrow> string \<Rightarrow> string) \<Rightarrow> string \<Rightarrow> string \<Rightarrow> int \<Rightarrow> string \<Rightarrow> string
    \<Rightarrow> (exn, account_identifier) result" where
  "tokenize hmac identifier key kv family company =
     (if key = [] \<or> length key < MIN_KEY_LENGTH
      then Inl (TokenizationError (''the tokenization key needs at least '' @ show_nat MIN_KEY_LENGTH @ '' characters''))
      else if \<not> (1 \<le> kv \<and> kv \<le> 999) then Inl (TokenizationError ''the key version is out of range'')
      else rbind (normalise identifier) (\<lambda>canonical.
        if \<not> match_dollar IDENTIFIER (py_strip identifier)
        then Inl (TokenizationError ''the identifier has characters or a length this system does not accept'')
        else let digits = digits_of canonical in
          Inr \<lparr>token = hmac key (token_material kv company family canonical),
               last4 = (if family \<in> set LAST4_FAMILIES \<and> 4 \<le> length digits then Some (tail4 digits) else None),
               key_version = kv\<rparr>))"

definition matches :: "(string \<Rightarrow> string \<Rightarrow> string) \<Rightarrow> string \<Rightarrow> string \<Rightarrow> string \<Rightarrow> int \<Rightarrow> string \<Rightarrow> string \<Rightarrow> bool" where
  "matches hmac candidate stored_token key kv family company =
     (case tokenize hmac candidate key kv family company of
        Inl e \<Rightarrow> False | Inr computed \<Rightarrow> token computed = stored_token)"

definition redact :: "string \<Rightarrow> (exn, string) result" where
  "redact identifier =
     rbind (if identifier = [] then Inr [] else rbind (normalise identifier) (\<lambda>n. Inr (digits_of n)))
       (\<lambda>digits. Inr (if 4 \<le> length digits then ''...'' @ tail4 digits else ''(sin cola visible)''))"

section \<open>What a token depends on\<close>

lemma tokenize_Inr:
  "tokenize hmac identifier key kv family company = Inr a \<longleftrightarrow>
    MIN_KEY_LENGTH \<le> length key \<and> 1 \<le> kv \<and> kv \<le> 999
    \<and> match_dollar IDENTIFIER (py_strip identifier)
    \<and> (\<exists>n. normalise identifier = Inr n
        \<and> a = \<lparr>token = hmac key (token_material kv company family n),
               last4 = (if family \<in> set LAST4_FAMILIES \<and> 4 \<le> length (digits_of n) then Some (tail4 (digits_of n)) else None),
               key_version = kv\<rparr>)"
  by (auto simp: tokenize_def rbind_Inr_iff Let_def MIN_KEY_LENGTH_def)

lemma upper_char_no_unit_separator: "c \<noteq> CHR 0x1F \<Longrightarrow> CHR 0x1F \<notin> set (upper_char c)"
proof
  assume c: "c \<noteq> CHR 0x1F" and "CHR 0x1F \<in> set (upper_char c)"
  then have eq: "char_of (code c - 32) = CHR 0x1F" and ge: "97 \<le> code c"
    by (auto simp: upper_char_def is_lower_ascii_def split: if_splits)
  have "code (CHR 0x1F) = 31" by (simp add: code_def)
  moreover have "code (char_of (code c - 32)) = code c - 32" using code_less [of c] by simp
  ultimately show False using eq ge by simp
qed

lemma normalise_no_unit_separator: "normalise i = Inr n \<Longrightarrow> CHR 0x1F \<notin> set n"
proof -
  assume "normalise i = Inr n"
  then have n: "n = concat (map upper_char (filter (\<lambda>c. \<not> is_separator c) i))"
    by (auto simp: normalise_def py_upper_def Let_def split: if_splits)
  have sep: "is_separator (CHR 0x1F)" by (simp add: is_separator_def is_space_def code_def)
  have clean: "CHR 0x1F \<notin> set (upper_char c)" if "\<not> is_separator c" for c
  proof (rule upper_char_no_unit_separator, rule notI)
    assume c: "c = CHR 0x1F"
    show False using that sep unfolding c by (rule notE)
  qed
  show ?thesis
  proof
    assume "CHR 0x1F \<in> set n"
    then obtain c where "c \<in> set (filter (\<lambda>c. \<not> is_separator c) i)" "CHR 0x1F \<in> set (upper_char c)"
      unfolding n set_concat set_map by (elim UN_E imageE) (simp only:)
    with clean show False unfolding set_filter by (elim CollectE conjE) (rule notE)
  qed
qed

lemma split_at_separator:
  "c \<notin> set a \<Longrightarrow> c \<notin> set b \<Longrightarrow> a @ c # x = b @ c # y \<longleftrightarrow> a = b \<and> x = y"
proof (induction a arbitrary: b)
  case Nil
  then show ?case by (cases b) auto
next
  case (Cons z a)
  then show ?case by (cases b) auto
qed

lemma digit_not_unit_separator: "all_digits s \<Longrightarrow> CHR 0x1F \<notin> set s"
  by (auto simp: all_digits_def list_all_iff is_digit_def code_def)

lemma show_int_no_unit_separator: "CHR 0x1F \<notin> set (show_int i)"
  using digit_not_unit_separator [OF all_digits_show_nat] by (auto simp: show_int_def)

lemma show_int_inject: "0 \<le> i \<Longrightarrow> 0 \<le> j \<Longrightarrow> show_int i = show_int j \<longleftrightarrow> i = j"
  by (auto simp: show_int_def)

lemma token_material_inject:
  assumes "0 \<le> v" and "0 \<le> w" and "CHR 0x1F \<notin> set c" and "CHR 0x1F \<notin> set d"
    and "CHR 0x1F \<notin> set f" and "CHR 0x1F \<notin> set g"
  shows "token_material v c f n = token_material w d g m \<longleftrightarrow> v = w \<and> c = d \<and> f = g \<and> n = m"
  using assms by (simp add: token_material_def unit_separator_def split_at_separator
      show_int_no_unit_separator show_int_inject)

text \<open>
  Under a collision-free keyed hash, two accepted identifiers get the same token exactly when
  key version, company, account family and normal form all agree: comparing tokens across
  companies reveals nothing, and separators, blanks and letter case do not hide a duplicate.
\<close>

theorem token_equal_iff_same_account:
  assumes inj: "\<And>k x y. hmac k x = hmac k y \<Longrightarrow> x = y"
    and a: "tokenize hmac i key v f c = Inr a" and b: "tokenize hmac j key w g d = Inr b"
    and sep: "CHR 0x1F \<notin> set c" "CHR 0x1F \<notin> set d" "CHR 0x1F \<notin> set f" "CHR 0x1F \<notin> set g"
  shows "token a = token b \<longleftrightarrow> v = w \<and> c = d \<and> f = g \<and> normalise i = normalise j"
proof -
  obtain n m where n: "normalise i = Inr n" "token a = hmac key (token_material v c f n)"
    and m: "normalise j = Inr m" "token b = hmac key (token_material w d g m)"
    and pos: "0 \<le> v" "0 \<le> w"
    using a b by (auto simp: tokenize_Inr)
  have "token a = token b \<longleftrightarrow> token_material v c f n = token_material w d g m"
    using inj n m by auto
  then show ?thesis using token_material_inject [OF pos sep] n m by simp
qed

definition sample_key :: string where "sample_key = replicate 32 (CHR ''k'')"

lemma sample_identifiers_accepted:
  "match_dollar IDENTIFIER (py_strip ''1234-5678'')" "match_dollar IDENTIFIER (py_strip ''1234 5678'')"
  "normalise ''1234-5678'' = Inr ''12345678''" "normalise ''1234 5678'' = Inr ''12345678''"
  by code_simp+

theorem token_equal_iff_same_account_witness:
  "\<exists>a b. tokenize (\<lambda>k x. x) ''1234-5678'' sample_key 1 ''bank_account'' ''c1'' = Inr a
       \<and> tokenize (\<lambda>k x. x) ''1234 5678'' sample_key 1 ''bank_account'' ''c2'' = Inr b
       \<and> token a \<noteq> token b"
proof -
  obtain a where a: "tokenize (\<lambda>k x. x) ''1234-5678'' sample_key 1 ''bank_account'' ''c1'' = Inr a"
    by (simp add: tokenize_Inr sample_identifiers_accepted MIN_KEY_LENGTH_def sample_key_def)
  obtain b where b: "tokenize (\<lambda>k x. x) ''1234 5678'' sample_key 1 ''bank_account'' ''c2'' = Inr b"
    by (simp add: tokenize_Inr sample_identifiers_accepted MIN_KEY_LENGTH_def sample_key_def)
  from token_equal_iff_same_account [OF _ a b] have "token a \<noteq> token b" by simp
  with a b show ?thesis by blast
qed

text \<open>What is shown of an identifier: at most four digits, and only for the declared families.\<close>

lemma length_tail4: "length (tail4 s) \<le> 4"
  by (simp add: tail4_def)

lemma all_digits_tail4_digits_of: "all_digits (tail4 (digits_of s))"
  by (auto simp: all_digits_def tail4_def digits_of_def list_all_iff dest: in_set_dropD)

text \<open>
  Of an identifier the record keeps at most its last four digits, and only in the families
  where they help to recognise the account; a message never shows more than those four either.
\<close>

theorem visible_tail_is_at_most_four_digits:
  "(tokenize hmac i key v f c = Inr a \<longrightarrow> last4 a = Some t \<longrightarrow>
      f \<in> set LAST4_FAMILIES \<and> length t \<le> 4 \<and> all_digits t)
   \<and> (redact i = Inr r \<longrightarrow> r = ''(sin cola visible)''
        \<or> (\<exists>t. r = ''...'' @ t \<and> length t \<le> 4 \<and> all_digits t))"
  using length_tail4 all_digits_tail4_digits_of
  by (auto simp: tokenize_Inr redact_def rbind_Inr_iff split: if_splits)

theorem visible_tail_is_at_most_four_digits_witness:
  "redact ''ES12 3456'' = Inr ''...3456'' \<and> (\<exists>t. ''...3456'' = ''...'' @ t \<and> length t \<le> 4 \<and> all_digits t)"
proof -
  have "redact ''ES12 3456'' = Inr ''...3456''" by code_simp
  moreover from visible_tail_is_at_most_four_digits [THEN conjunct2, THEN mp, OF this]
  have "\<exists>t. ''...3456'' = ''...'' @ t \<and> length t \<le> 4 \<and> all_digits t" by simp
  ultimately show ?thesis by blast
qed

end
