(* ===== verification/Calendar.thy ===== *)
theory Calendar
  imports PyValue
begin

text \<open>
  The part of \<open>datetime.date\<close> the repository uses: valid dates from 0001-01-01 to 9999-12-31, their
  order, \<open>date + timedelta(days=n)\<close> with its \<open>OverflowError\<close>, the difference of two dates in days, and
  \<open>isoformat\<close>. Adding days walks the calendar one day at a time; the lemmas relate the walk to the
  proleptic Gregorian ordinal, so that client proofs are about integers.
\<close>

section \<open>Dates\<close>

datatype date = Date (d_year: nat) (d_month: nat) (d_day: nat)

fun date_key :: "date \<Rightarrow> nat \<times> nat \<times> nat" where
  "date_key (Date y m d) = (y, m, d)"

lemma date_key_inject: "date_key a = date_key b \<longleftrightarrow> a = b"
  by (cases a; cases b) simp

instantiation date :: linorder
begin
definition less_eq_date :: "date \<Rightarrow> date \<Rightarrow> bool" where "less_eq_date a b = (date_key a \<le> date_key b)"
definition less_date :: "date \<Rightarrow> date \<Rightarrow> bool" where "less_date a b = (date_key a < date_key b)"
instance
  by standard (auto simp: less_eq_date_def less_date_def less_le date_key_inject dest: order_antisym)
end

lemma date_less_iff:
  "Date y m d < Date z k e \<longleftrightarrow> y < z \<or> (y = z \<and> (m < k \<or> (m = k \<and> d < e)))"
  by (auto simp: less_date_def)

definition is_leap :: "nat \<Rightarrow> bool" where
  "is_leap y = (y mod 4 = 0 \<and> (y mod 100 \<noteq> 0 \<or> y mod 400 = 0))"

text \<open>\<open>calendar.monthrange(y, m)[1]\<close>\<close>

definition days_in_month :: "nat \<Rightarrow> nat \<Rightarrow> nat" where
  "days_in_month y m =
     (if m = 2 then (if is_leap y then 29 else 28)
      else if m = 4 \<or> m = 6 \<or> m = 9 \<or> m = 11 then 30 else 31)"

fun valid_date :: "date \<Rightarrow> bool" where
  "valid_date (Date y m d) \<longleftrightarrow> 1 \<le> y \<and> y \<le> 9999 \<and> 1 \<le> m \<and> m \<le> 12 \<and> 1 \<le> d \<and> d \<le> days_in_month y m"

fun next_day :: "date \<Rightarrow> date option" where
  "next_day (Date y m d) =
     (if d < days_in_month y m then Some (Date y m (d + 1))
      else if m < 12 then Some (Date y (m + 1) 1)
      else if y < 9999 then Some (Date (y + 1) 1 1) else None)"

fun prev_day :: "date \<Rightarrow> date option" where
  "prev_day (Date y m d) =
     (if 1 < d then Some (Date y m (d - 1))
      else if 1 < m then Some (Date y (m - 1) (days_in_month y (m - 1)))
      else if 1 < y then Some (Date (y - 1) 12 31) else None)"

primrec repeat_option :: "nat \<Rightarrow> ('a \<Rightarrow> 'a option) \<Rightarrow> 'a \<Rightarrow> 'a option" where
  "repeat_option 0 f x = Some x"
| "repeat_option (Suc n) f x = (case f x of None \<Rightarrow> None | Some y \<Rightarrow> repeat_option n f y)"

lemma repeat_option_numeral [simp]:
  "repeat_option (numeral k) f x = (case f x of None \<Rightarrow> None | Some y \<Rightarrow> repeat_option (pred_numeral k) f y)"
  by (simp add: numeral_eq_Suc)

definition date_plus :: "date \<Rightarrow> int \<Rightarrow> (exn, date) result" where
  "date_plus d n =
     of_option OverflowError
       (if 0 \<le> n then repeat_option (nat n) next_day d else repeat_option (nat (- n)) prev_day d)"

fun days_before_year :: "nat \<Rightarrow> int" where
  "days_before_year y = (let p = int y - 1 in p * 365 + p div 4 - p div 100 + p div 400)"

primrec days_before_month :: "nat \<Rightarrow> nat \<Rightarrow> int" where
  "days_before_month y 0 = 0"
| "days_before_month y (Suc m) = (if m = 0 then 0 else days_before_month y m + int (days_in_month y m))"

fun ordinal :: "date \<Rightarrow> int" where
  "ordinal (Date y m d) = days_before_year y + days_before_month y m + int d"

text \<open>\<open>(a - b).days\<close>\<close>

definition date_diff :: "date \<Rightarrow> date \<Rightarrow> int" where "date_diff a b = ordinal a - ordinal b"

definition pad :: "nat \<Rightarrow> nat \<Rightarrow> string" where
  "pad w n = replicate (w - length (show_nat n)) (CHR ''0'') @ show_nat n"

fun isoformat :: "date \<Rightarrow> string" where
  "isoformat (Date y m d) = pad 4 y @ ''-'' @ pad 2 m @ ''-'' @ pad 2 d"

section \<open>The ordinal of a date\<close>

declare days_before_year.simps [simp del]

lemma div_step: "0 < (k::int) \<Longrightarrow> (p + 1) div k = p div k + (if (p + 1) mod k = 0 then 1 else 0)"
proof -
  assume k: "0 < k"
  have r: "0 \<le> p mod k" "p mod k < k" using k by simp_all
  have p: "p + 1 = k * (p div k) + (p mod k + 1)" by simp
  show ?thesis
  proof (cases "p mod k + 1 = k")
    case True
    then have "p + 1 = k * (p div k + 1)" using p by (simp add: algebra_simps)
    then show ?thesis using k by simp
  next
    case False
    then have lt: "p mod k + 1 < k" using r by simp
    have "(p + 1) div k = p div k"
      by (rule int_div_pos_eq [of _ _ _ "p mod k + 1"]) (use p lt r in simp_all)
    moreover have "(p + 1) mod k = p mod k + 1"
      by (rule int_mod_pos_eq [of _ _ "p div k"]) (use p lt r in simp_all)
    ultimately show ?thesis using r by simp
  qed
qed

lemma leap_count:
  "\<lbrakk>a' = a + (if A then 1 else 0); b' = b + (if B then 1 else 0); c' = c + (if C then 1 else 0);
    C \<longrightarrow> B; B \<longrightarrow> A\<rbrakk>
   \<Longrightarrow> (p + 1) * 365 + a' - b' + c' = (p * 365 + a - b + c :: int) + (if A \<and> (\<not> B \<or> C) then 366 else 365)"
  by (cases A; cases B; cases C) simp_all

lemma days_before_month_numeral [simp]:
  "days_before_month y (numeral k) =
     (if pred_numeral k = 0 then 0
      else days_before_month y (pred_numeral k) + int (days_in_month y (pred_numeral k)))"
  by (simp add: numeral_eq_Suc)

lemma days_before_month_12: "days_before_month y 12 = (if is_leap y then 335 else 334)"
  by (simp add: days_in_month_def)

lemma days_before_year_Suc:
  "1 \<le> y \<Longrightarrow> days_before_year (y + 1) = days_before_year y + (if is_leap y then 366 else 365)"
proof -
  assume "1 \<le> y"
  define p where "p = int y - 1"
  have y: "int y = p + 1" by (simp add: p_def)
  have m: "(p + 1) mod 4 = int (y mod 4)" "(p + 1) mod 100 = int (y mod 100)" "(p + 1) mod 400 = int (y mod 400)"
    unfolding y [symmetric] by (simp_all add: zmod_int)
  have imp: "y mod 400 = 0 \<longrightarrow> y mod 100 = 0" "y mod 100 = 0 \<longrightarrow> y mod 4 = 0"
    using dvd_trans [of 100 400 y] dvd_trans [of 4 100 y] by (simp_all add: dvd_eq_mod_eq_0)
  have e1: "days_before_year (y + 1) = (p + 1) * 365 + (p + 1) div 4 - (p + 1) div 100 + (p + 1) div 400"
    using y by (simp add: days_before_year.simps Let_def add.commute)
  have e2: "days_before_year y = p * 365 + p div 4 - p div 100 + p div 400"
    using y by (simp add: days_before_year.simps Let_def)
  show ?thesis
    unfolding e1 e2 is_leap_def
    by (rule leap_count [OF div_step [of 4 p, unfolded m] div_step [of 100 p, unfolded m] div_step [of 400 p, unfolded m],
          unfolded of_nat_eq_0_iff]) (use imp in simp_all)
qed

lemma days_before_year_mono: "1 \<le> y \<Longrightarrow> y \<le> z \<Longrightarrow> days_before_year y \<le> days_before_year z"
proof (induction z)
  case (Suc z)
  show ?case
  proof (cases "y \<le> z")
    case True
    then have "days_before_year y \<le> days_before_year z" "1 \<le> z" using Suc by simp_all
    then show ?thesis using days_before_year_Suc [of z] by (simp split: if_splits)
  next
    case False
    then have "y = Suc z" using Suc.prems by simp
    then show ?thesis by simp
  qed
qed simp

lemma days_in_month_pos: "1 \<le> days_in_month y m"
  by (simp add: days_in_month_def)

lemma days_before_month_mono: "m \<le> k \<Longrightarrow> days_before_month y m \<le> days_before_month y k"
proof (induction k)
  case (Suc k)
  then show ?case by (cases "m = Suc k") (auto intro: order_trans)
qed simp

lemma month_within_year:
  "1 \<le> m \<Longrightarrow> m \<le> 12 \<Longrightarrow> days_before_month y m + int (days_in_month y m) \<le> (if is_leap y then 366 else 365)"
proof -
  assume m: "1 \<le> m" "m \<le> 12"
  have "days_before_month y m + int (days_in_month y m) = days_before_month y (Suc m)" using m by simp
  also have "\<dots> \<le> days_before_month y 13" by (rule days_before_month_mono) (use m in simp)
  also have "\<dots> = (if is_leap y then 366 else 365)"
    by (simp add: days_in_month_def)
  finally show ?thesis .
qed

lemma ordinal_strict: "valid_date a \<Longrightarrow> valid_date b \<Longrightarrow> a < b \<Longrightarrow> ordinal a < ordinal b"
proof -
  assume v: "valid_date a" "valid_date b" and ab: "a < b"
  obtain y m d where a: "a = Date y m d" by (cases a)
  obtain z k e where b: "b = Date z k e" by (cases b)
  have nb: "0 \<le> days_before_month z k" using days_before_month_mono [of 0 k z] by simp
  consider (year) "y < z" | (month) "y = z" "m < k" | (day) "y = z" "m = k" "d < e"
    using ab by (auto simp: a b date_less_iff)
  then show ?thesis
  proof cases
    case year
    have "days_before_year (y + 1) \<le> days_before_year z" using year v a by (intro days_before_year_mono) auto
    then show ?thesis
      using v days_before_year_Suc [of y] month_within_year [of m y] nb by (auto simp: a b split: if_splits)
  next
    case month
    have "days_before_month y (Suc m) \<le> days_before_month y k" using month by (intro days_before_month_mono) simp
    then show ?thesis using v month by (auto simp: a b)
  next
    case day
    then show ?thesis by (simp add: a b)
  qed
qed

lemma ordinal_less_iff: "valid_date a \<Longrightarrow> valid_date b \<Longrightarrow> ordinal a < ordinal b \<longleftrightarrow> a < b"
  by (metis linorder_less_linear less_asym' ordinal_strict)

lemma ordinal_le_iff: "valid_date a \<Longrightarrow> valid_date b \<Longrightarrow> ordinal a \<le> ordinal b \<longleftrightarrow> a \<le> b"
  using ordinal_less_iff [of b a] by (simp add: not_less [symmetric])

lemma ordinal_inject: "valid_date a \<Longrightarrow> valid_date b \<Longrightarrow> ordinal a = ordinal b \<longleftrightarrow> a = b"
  by (metis linorder_less_linear less_irrefl ordinal_strict)

definition max_date :: date where "max_date = Date 9999 12 31"

lemma ordinal_max_date: "ordinal max_date = 3652059"
  by (simp add: max_date_def days_before_year.simps days_before_month_12 is_leap_def del: days_before_month_numeral)

section \<open>Walking the calendar\<close>

lemma next_day_valid:
  "valid_date d \<Longrightarrow> next_day d = Some e \<Longrightarrow> valid_date e \<and> ordinal e = ordinal d + 1"
proof (cases d)
  case (Date y m k)
  assume v: "valid_date d" and n: "next_day d = Some e"
  have end_of_year: "days_before_month y 12 + int (days_in_month y 12) = (if is_leap y then 366 else 365)"
    by (simp add: days_before_month_12 days_in_month_def del: days_before_month_numeral)
  show ?thesis
    using v n days_in_month_pos days_before_year_Suc [of y] end_of_year
    by (auto simp: Date le_antisym split: if_splits)
qed

lemma next_day_None: "valid_date d \<Longrightarrow> next_day d = None \<Longrightarrow> d = max_date"
  by (cases d) (auto simp: max_date_def days_in_month_def split: if_splits)

lemma prev_day_valid:
  "valid_date d \<Longrightarrow> prev_day d = Some e \<Longrightarrow> valid_date e \<and> ordinal e = ordinal d - 1"
proof (cases d)
  case (Date y m k)
  assume v: "valid_date d" and p: "prev_day d = Some e"
  consider (day) "1 < k" "e = Date y m (k - 1)" | (month) "k = 1" "1 < m" "e = Date y (m - 1) (days_in_month y (m - 1))"
    | (year) "k = 1" "m = 1" "1 < y" "e = Date (y - 1) 12 31"
    using v p by (auto simp: Date split: if_splits)
  then show ?thesis
  proof cases
    case day
    then show ?thesis using v by (auto simp: Date)
  next
    case month
    then obtain j where "m = Suc j" "0 < j" by (cases m) auto
    then show ?thesis using month v days_in_month_pos [of y j] by (auto simp: Date)
  next
    case year
    then obtain x where x: "y = x + 1" "1 \<le> x" by (metis Suc_eq_plus1 less_eq_Suc_le less_imp_Suc_add add.commute One_nat_def le_add1 plus_1_eq_Suc)
    have "days_before_month x 12 + 31 = (if is_leap x then 366 else 365)"
      by (simp add: days_before_month_12 del: days_before_month_numeral)
    then show ?thesis using year v days_before_year_Suc [OF x(2)] x by (auto simp: Date days_in_month_def)
  qed
qed

lemma prev_day_None: "valid_date d \<Longrightarrow> prev_day d = None \<Longrightarrow> ordinal d = 1"
  by (cases d) (auto simp: days_before_year.simps split: if_splits)

lemma repeat_next_day:
  "valid_date d \<Longrightarrow> repeat_option n next_day d = Some e \<Longrightarrow> valid_date e \<and> ordinal e = ordinal d + int n"
proof (induction n arbitrary: d)
  case (Suc n)
  then obtain c where c: "next_day d = Some c" "repeat_option n next_day c = Some e"
    by (auto split: option.splits)
  then show ?case using Suc.IH next_day_valid [OF Suc.prems(1) c(1)] by force
qed simp

lemma repeat_prev_day:
  "valid_date d \<Longrightarrow> repeat_option n prev_day d = Some e \<Longrightarrow> valid_date e \<and> ordinal e = ordinal d - int n"
proof (induction n arbitrary: d)
  case (Suc n)
  then obtain c where c: "prev_day d = Some c" "repeat_option n prev_day c = Some e"
    by (auto split: option.splits)
  then show ?case using Suc.IH prev_day_valid [OF Suc.prems(1) c(1)] by force
qed simp

lemma ordinal_bounds: "valid_date d \<Longrightarrow> 1 \<le> ordinal d \<and> ordinal d \<le> ordinal max_date"
proof -
  assume v: "valid_date d"
  obtain y m k where d: "d = Date y m k" by (cases d)
  have "days_before_year 1 \<le> days_before_year y" using v by (intro days_before_year_mono) (auto simp: d)
  moreover have "0 \<le> days_before_month y m" using days_before_month_mono [of 0 m y] by simp
  ultimately have "1 \<le> ordinal d" using v by (auto simp: d days_before_year.simps)
  moreover have "d \<le> max_date"
    using v by (auto simp: d max_date_def not_less [symmetric] date_less_iff days_in_month_def split: if_splits)
  moreover have "valid_date max_date" by (simp add: max_date_def days_in_month_def)
  ultimately show ?thesis using ordinal_le_iff v by blast
qed

lemma repeat_next_day_None:
  "valid_date d \<Longrightarrow> repeat_option n next_day d = None \<Longrightarrow> ordinal max_date < ordinal d + int n"
proof (induction n arbitrary: d)
  case (Suc n)
  show ?case
  proof (cases "next_day d")
    case None
    then have "d = max_date" using next_day_None Suc.prems by blast
    then show ?thesis by simp
  next
    case (Some c)
    then show ?thesis using Suc.IH [of c] Suc.prems next_day_valid [OF Suc.prems(1) Some] by simp
  qed
qed simp

lemma repeat_prev_day_None:
  "valid_date d \<Longrightarrow> repeat_option n prev_day d = None \<Longrightarrow> ordinal d - int n < 1"
proof (induction n arbitrary: d)
  case (Suc n)
  show ?case
  proof (cases "prev_day d")
    case None
    then show ?thesis using prev_day_None Suc.prems by simp
  next
    case (Some c)
    then show ?thesis using Suc.IH [of c] Suc.prems prev_day_valid [OF Suc.prems(1) Some] by simp
  qed
qed simp

text \<open>Adding days, in terms of ordinals.\<close>

lemma date_plus_Inr:
  "valid_date d \<Longrightarrow> date_plus d n = Inr e \<longleftrightarrow> valid_date e \<and> ordinal e = ordinal d + n"
proof
  assume v: "valid_date d" and "date_plus d n = Inr e"
  then show "valid_date e \<and> ordinal e = ordinal d + n"
    using repeat_next_day [OF v] repeat_prev_day [OF v]
    by (fastforce simp: date_plus_def of_option_def split: if_splits option.splits)
next
  assume v: "valid_date d" and e: "valid_date e \<and> ordinal e = ordinal d + n"
  have b: "ordinal e \<le> ordinal max_date" "1 \<le> ordinal e" using e ordinal_bounds by blast+
  show "date_plus d n = Inr e"
  proof (cases "0 \<le> n")
    case True
    obtain c where c: "repeat_option (nat n) next_day d = Some c"
      using repeat_next_day_None [OF v, of "nat n"] b e True by (cases "repeat_option (nat n) next_day d") auto
    then have "c = e" using repeat_next_day [OF v c] e True ordinal_inject by force
    then show ?thesis using c True by (simp add: date_plus_def of_option_def)
  next
    case False
    obtain c where c: "repeat_option (nat (- n)) prev_day d = Some c"
      using repeat_prev_day_None [OF v, of "nat (- n)"] b e False
      by (cases "repeat_option (nat (- n)) prev_day d") auto
    then have "c = e" using repeat_prev_day [OF v c] e False ordinal_inject by force
    then show ?thesis using c False by (simp add: date_plus_def of_option_def)
  qed
qed

lemma date_plus_Inl:
  "valid_date d \<Longrightarrow> date_plus d n = Inl x \<Longrightarrow>
     x = OverflowError \<and> (ordinal d + n < 1 \<or> ordinal max_date < ordinal d + n)"
  using repeat_next_day_None [of d "nat n"] repeat_prev_day_None [of d "nat (- n)"]
  by (auto simp: date_plus_def of_option_def split: if_splits option.splits)

lemma date_plus_total:
  "valid_date d \<Longrightarrow> 1 \<le> ordinal d + n \<Longrightarrow> ordinal d + n \<le> ordinal max_date \<Longrightarrow>
     \<exists>e. date_plus d n = Inr e \<and> valid_date e \<and> ordinal e = ordinal d + n"
  using date_plus_Inl [of d n] date_plus_Inr [of d n] by (cases "date_plus d n") auto

end
