(* ===== verification/Cycles.thy ===== *)
theory Cycles
  imports Calendar
begin

text \<open>
  \<open>fincilia_contracts/cycles.py\<close>: expected documents as periods on a calendar. The date of today is
  an argument everywhere, as in the code. The lemmas show that the periods tile the range they are
  generated for, when the loop stops at its cap, and what lateness means.
\<close>

section \<open>The module\<close>

definition PERIODICITIES :: "string list" where
  "PERIODICITIES = [''monthly'', ''fortnightly'', ''weekly'', ''custom'']"

definition MAX_PERIODS :: nat where "MAX_PERIODS = 120"

record period =
  period_start :: date
  period_end :: date
  due_on :: date
  late_after :: date

definition state_on :: "period \<Rightarrow> date \<Rightarrow> bool \<Rightarrow> string" where
  "state_on p today satisfied =
     (if satisfied then ''satisfied'' else if late_after p < today then ''late'' else ''pending'')"

definition as_dict :: "period \<Rightarrow> (string \<times> string) list" where
  "as_dict p = [(''period_start'', isoformat (period_start p)), (''period_end'', isoformat (period_end p)),
                (''due_on'', isoformat (due_on p)), (''late_after'', isoformat (late_after p))]"

fun end_of_month :: "date \<Rightarrow> date" where
  "end_of_month (Date y m d) = Date y m (days_in_month y m)"

text \<open>\<open>int(custom_days or 1)\<close>\<close>

definition custom_step :: "int option \<Rightarrow> int" where
  "custom_step custom_days = (case custom_days of None \<Rightarrow> 1 | Some n \<Rightarrow> if n = 0 then 1 else n)"

definition next_start :: "date \<Rightarrow> string \<Rightarrow> int option \<Rightarrow> (exn, date) result" where
  "next_start start periodicity custom_days =
     (if periodicity = ''monthly'' then date_plus (end_of_month start) 1
      else if periodicity = ''fortnightly'' then date_plus start 15
      else if periodicity = ''weekly'' then date_plus start 7
      else date_plus start (custom_step custom_days))"

definition period_end_of :: "date \<Rightarrow> string \<Rightarrow> int option \<Rightarrow> (exn, date) result" where
  "period_end_of start periodicity custom_days =
     rbind (next_start start periodicity custom_days) (\<lambda>s. date_plus s (- 1))"

definition validate_cycle :: "string \<Rightarrow> int option \<Rightarrow> int \<Rightarrow> int \<Rightarrow> string list" where
  "validate_cycle periodicity custom_days due_day_offset grace_days =
     (if periodicity \<notin> set PERIODICITIES then [py_repr (PStr periodicity) @ '' is not a declared periodicity''] else [])
   @ (if (periodicity = ''custom'') \<noteq> (custom_days \<noteq> None)
      then [''custom needs a day count, and a named periodicity refuses one''] else [])
   @ (case custom_days of None \<Rightarrow> []
      | Some n \<Rightarrow> if \<not> (1 \<le> n \<and> n \<le> 366) then [''a custom period is between 1 and 366 days''] else [])
   @ (if \<not> (0 \<le> due_day_offset \<and> due_day_offset \<le> 120)
      then [''the due offset is between 0 and 120 days after the period''] else [])
   @ (if \<not> (0 \<le> grace_days \<and> grace_days \<le> 120)
      then [''the grace period is between 0 and 120 days''] else [])"

text \<open>One turn of the loop of \<open>periods_between\<close>: the period that starts at \<open>start\<close>.\<close>

definition period_at :: "date \<Rightarrow> string \<Rightarrow> int option \<Rightarrow> int \<Rightarrow> int \<Rightarrow> (exn, period) result" where
  "period_at start periodicity custom_days due_day_offset grace_days =
     rbind (period_end_of start periodicity custom_days) (\<lambda>e.
     rbind (date_plus e due_day_offset) (\<lambda>due.
     rbind (date_plus due grace_days) (\<lambda>late.
       Inr \<lparr>period_start = start, period_end = e, due_on = due, late_after = late\<rparr>)))"

text \<open>The loop: the first argument is \<open>MAX_PERIODS - len(periods)\<close>.\<close>

primrec periods_loop :: "nat \<Rightarrow> date \<Rightarrow> date \<Rightarrow> string \<Rightarrow> int option \<Rightarrow> int \<Rightarrow> int \<Rightarrow> (exn, period list) result" where
  "periods_loop 0 start until periodicity custom_days off grace = Inr []"
| "periods_loop (Suc n) start until periodicity custom_days off grace =
     (if start \<le> until
      then rbind (period_at start periodicity custom_days off grace) (\<lambda>p.
           rbind (next_start start periodicity custom_days) (\<lambda>s.
           rbind (periods_loop n s until periodicity custom_days off grace) (\<lambda>ps. Inr (p # ps))))
      else Inr [])"

lemma periods_loop_numeral:
  "periods_loop (numeral k) start until periodicity custom_days off grace =
     (if start \<le> until
      then rbind (period_at start periodicity custom_days off grace) (\<lambda>p.
           rbind (next_start start periodicity custom_days) (\<lambda>s.
           rbind (periods_loop (pred_numeral k) s until periodicity custom_days off grace) (\<lambda>ps. Inr (p # ps))))
      else Inr [])"
  by (simp add: numeral_eq_Suc)

definition periods_between :: "date \<Rightarrow> date \<Rightarrow> string \<Rightarrow> int option \<Rightarrow> int \<Rightarrow> int \<Rightarrow> (exn, period list) result" where
  "periods_between anchor until periodicity custom_days due_day_offset grace_days =
     (let problems = validate_cycle periodicity custom_days due_day_offset grace_days in
      if problems \<noteq> [] then Inl (CycleError (py_join ''; '' problems))
      else if until < anchor then Inr []
      else periods_loop MAX_PERIODS anchor until periodicity custom_days due_day_offset grace_days)"

definition next_due :: "date \<Rightarrow> date \<Rightarrow> string \<Rightarrow> int option \<Rightarrow> int \<Rightarrow> int \<Rightarrow> (exn, period option) result" where
  "next_due anchor today periodicity custom_days due_day_offset grace_days =
     rbind (date_plus today 366) (\<lambda>horizon.
     rbind (periods_between anchor horizon periodicity custom_days due_day_offset grace_days) (\<lambda>ps.
       Inr (find (\<lambda>p. today \<le> due_on p) ps)))"

definition days_late :: "period \<Rightarrow> date \<Rightarrow> int" where
  "days_late p today = max 0 (date_diff today (late_after p))"

section \<open>The calendar of a cycle\<close>

text \<open>
  What a periodicity promises: from every day the next start is later, at most \<open>stride\<close> days away,
  and only the end of the supported calendar stops it.
\<close>

locale recurring =
  fixes periodicity :: string and custom_days :: "int option" and stride :: int
  assumes forward: "valid_date s \<Longrightarrow> next_start s periodicity custom_days = Inr t \<Longrightarrow>
      valid_date t \<and> ordinal s < ordinal t \<and> ordinal t \<le> ordinal s + stride"
    and available: "valid_date s \<Longrightarrow> ordinal s + stride \<le> ordinal max_date \<Longrightarrow>
      \<exists>t. next_start s periodicity custom_days = Inr t"
begin

lemma period_at_facts:
  assumes v: "valid_date s" and p: "period_at s periodicity custom_days off grace = Inr p"
  obtains t where "next_start s periodicity custom_days = Inr t" "valid_date t" "period_start p = s"
    "valid_date (period_end p)" "ordinal (period_end p) = ordinal t - 1" "ordinal s \<le> ordinal (period_end p)"
    "ordinal (period_end p) < ordinal s + stride"
    "valid_date (due_on p)" "ordinal (due_on p) = ordinal (period_end p) + off"
    "valid_date (late_after p)" "ordinal (late_after p) = ordinal (due_on p) + grace"
proof -
  from p obtain t e due late where t: "next_start s periodicity custom_days = Inr t"
    and e: "date_plus t (- 1) = Inr e" and due: "date_plus e off = Inr due"
    and late: "date_plus due grace = Inr late"
    and pp: "p = \<lparr>period_start = s, period_end = e, due_on = due, late_after = late\<rparr>"
    by (auto simp: period_at_def period_end_of_def rbind_Inr_iff)
  have tv: "valid_date t" "ordinal s < ordinal t" "ordinal t \<le> ordinal s + stride" using forward [OF v t] by simp_all
  have ev: "valid_date e" "ordinal e = ordinal t - 1" using e date_plus_Inr [OF tv(1)] by auto
  have dv: "valid_date due" "ordinal due = ordinal e + off" using due date_plus_Inr [OF ev(1)] by auto
  have lv: "valid_date late" "ordinal late = ordinal due + grace" using late date_plus_Inr [OF dv(1)] by auto
  show ?thesis using that [OF t tv(1)] tv ev dv lv by (simp add: pp)
qed

lemma loop_members:
  "\<lbrakk>valid_date s; periods_loop n s until periodicity custom_days off grace = Inr ps; p \<in> set ps\<rbrakk> \<Longrightarrow>
     valid_date (period_start p) \<and> period_start p \<le> until \<and> ordinal s \<le> ordinal (period_start p)
     \<and> valid_date (period_end p) \<and> ordinal (period_start p) \<le> ordinal (period_end p)
     \<and> ordinal (period_end p) < ordinal s + int n * stride
     \<and> valid_date (due_on p) \<and> ordinal (due_on p) = ordinal (period_end p) + off
     \<and> valid_date (late_after p) \<and> ordinal (late_after p) = ordinal (due_on p) + grace"
proof (induction n arbitrary: s ps)
  case (Suc n)
  from Suc.prems obtain q t qs where q: "period_at s periodicity custom_days off grace = Inr q"
    and t: "next_start s periodicity custom_days = Inr t"
    and qs: "periods_loop n t until periodicity custom_days off grace = Inr qs"
    and ps: "ps = q # qs" and su: "s \<le> until"
    by (auto simp: rbind_Inr_iff split: if_splits)
  have tv: "valid_date t" "ordinal s < ordinal t" "ordinal t \<le> ordinal s + stride"
    using forward [OF Suc.prems(1) t] by simp_all
  have nn: "0 \<le> int n * stride" using tv by (intro mult_nonneg_nonneg) auto
  have wide: "x < ordinal s + stride \<Longrightarrow> x < ordinal s + int (Suc n) * stride" for x
    unfolding of_nat_Suc distrib_right using nn by linarith
  from Suc.prems(3) ps consider "p = q" | "p \<in> set qs" by auto
  then show ?case
  proof cases
    case 1
    show ?thesis
      by (rule period_at_facts [OF Suc.prems(1) q])
        (use 1 su wide Suc.prems(1) in \<open>simp del: of_nat_Suc\<close>)
  next
    case 2
    then show ?thesis using Suc.IH [OF tv(1) qs] tv by (auto simp: algebra_simps)
  qed
qed simp

lemma loop_sorted:
  "\<lbrakk>valid_date s; periods_loop n s until periodicity custom_days off grace = Inr ps\<rbrakk> \<Longrightarrow>
     sorted_wrt (\<lambda>p q. ordinal (period_end p) < ordinal (period_start q)) ps"
proof (induction n arbitrary: s ps)
  case (Suc n)
  show ?case
  proof (cases "s \<le> until")
    case True
    with Suc.prems obtain q t qs where q: "period_at s periodicity custom_days off grace = Inr q"
      and t: "next_start s periodicity custom_days = Inr t"
      and qs: "periods_loop n t until periodicity custom_days off grace = Inr qs" and ps: "ps = q # qs"
      by (auto simp: rbind_Inr_iff)
    have tv: "valid_date t" using forward [OF Suc.prems(1) t] by simp
    have "ordinal (period_end q) = ordinal t - 1"
      by (rule period_at_facts [OF Suc.prems(1) q]) (use t in simp)
    then show ?thesis using Suc.IH [OF tv qs] loop_members [OF tv qs] by (force simp: ps)
  qed (use Suc.prems in simp)
qed simp

lemma loop_covers:
  "\<lbrakk>valid_date s; valid_date until; periods_loop n s until periodicity custom_days off grace = Inr ps;
    length ps < n; ordinal s \<le> x; x \<le> ordinal until\<rbrakk> \<Longrightarrow>
     \<exists>p \<in> set ps. ordinal (period_start p) \<le> x \<and> x \<le> ordinal (period_end p)"
proof (induction n arbitrary: s ps)
  case (Suc n)
  have "s \<le> until" using Suc.prems ordinal_le_iff by (meson order_trans)
  with Suc.prems obtain q t qs where q: "period_at s periodicity custom_days off grace = Inr q"
    and t: "next_start s periodicity custom_days = Inr t"
    and qs: "periods_loop n t until periodicity custom_days off grace = Inr qs" and ps: "ps = q # qs"
    by (auto simp: rbind_Inr_iff)
  have tv: "valid_date t" using forward [OF Suc.prems(1) t] by simp
  have e: "ordinal (period_end q) = ordinal t - 1" "period_start q = s"
    by (rule period_at_facts [OF Suc.prems(1) q], use t in simp)+
  show ?case
  proof (cases "x < ordinal t")
    case True
    then show ?thesis using e Suc.prems by (auto simp: ps)
  next
    case False
    then show ?thesis using Suc.IH [OF tv Suc.prems(2) qs] Suc.prems by (auto simp: ps)
  qed
qed simp

lemma length_loop:
  "periods_loop n s until periodicity custom_days off grace = Inr ps \<Longrightarrow> length ps \<le> n"
  by (induction n arbitrary: s ps) (auto simp: rbind_Inr_iff split: if_splits)

lemma loop_total:
  "\<lbrakk>valid_date s; valid_date until; 0 \<le> off; 0 \<le> grace;
    ordinal until + stride + off + grace \<le> ordinal max_date\<rbrakk> \<Longrightarrow>
     \<exists>ps. periods_loop n s until periodicity custom_days off grace = Inr ps"
proof (induction n arbitrary: s)
  case (Suc n)
  show ?case
  proof (cases "s \<le> until")
    case True
    then have su: "ordinal s \<le> ordinal until" using Suc.prems ordinal_le_iff by blast
    obtain t where t: "next_start s periodicity custom_days = Inr t"
      using available [OF Suc.prems(1)] su Suc.prems by auto
    have tv: "valid_date t" "ordinal s < ordinal t" "ordinal t \<le> ordinal s + stride"
      using forward [OF Suc.prems(1) t] by simp_all
    have "1 \<le> ordinal s" using ordinal_bounds Suc.prems(1) by blast
    then obtain e where e: "date_plus t (- 1) = Inr e" "valid_date e" "ordinal e = ordinal t - 1"
      using date_plus_total [OF tv(1), of "- 1"] tv su Suc.prems by auto
    obtain due where due: "date_plus e off = Inr due" "valid_date due" "ordinal due = ordinal e + off"
      using date_plus_total [OF e(2), of off] e tv su Suc.prems \<open>1 \<le> ordinal s\<close> by auto
    obtain late where late: "date_plus due grace = Inr late"
      using date_plus_total [OF due(2), of grace] due e tv su Suc.prems \<open>1 \<le> ordinal s\<close> by auto
    obtain ps where "periods_loop n t until periodicity custom_days off grace = Inr ps"
      using Suc.IH [OF tv(1) Suc.prems(2-5)] by blast
    then show ?thesis using True t e due late by (simp add: period_at_def period_end_of_def)
  qed simp
qed simp

end

text \<open>The code's periodicities keep the promise.\<close>

lemma valid_end_of_month:
  "valid_date d \<Longrightarrow> valid_date (end_of_month d) \<and> ordinal d \<le> ordinal (end_of_month d)
     \<and> ordinal (end_of_month d) < ordinal d + 31"
  using days_in_month_pos by (cases d) (auto simp: days_in_month_def split: if_splits)

interpretation monthly: recurring "''monthly''" None 31
proof
  fix s t assume v: "valid_date s" and t: "next_start s ''monthly'' None = Inr t"
  then show "valid_date t \<and> ordinal s < ordinal t \<and> ordinal t \<le> ordinal s + 31"
    using valid_end_of_month [OF v] by (auto simp: next_start_def date_plus_Inr)
next
  fix s assume v: "valid_date s" and "ordinal s + 31 \<le> ordinal max_date"
  then show "\<exists>t. next_start s ''monthly'' None = Inr t"
    using valid_end_of_month [OF v] date_plus_total [of "end_of_month s" 1] ordinal_bounds [OF v]
    by (auto simp: next_start_def)
qed

interpretation fortnightly: recurring "''fortnightly''" None 15
  by unfold_locales (use date_plus_total ordinal_bounds in \<open>force simp: next_start_def date_plus_Inr\<close>)+

interpretation weekly: recurring "''weekly''" None 7
  by unfold_locales (use date_plus_total ordinal_bounds in \<open>force simp: next_start_def date_plus_Inr\<close>)+

lemma custom_recurring: "1 \<le> n \<Longrightarrow> n \<le> 366 \<Longrightarrow> recurring ''custom'' (Some n) 366"
proof
  fix s t assume n: "1 \<le> n" "n \<le> 366" and v: "valid_date s" and t: "next_start s ''custom'' (Some n) = Inr t"
  then show "valid_date t \<and> ordinal s < ordinal t \<and> ordinal t \<le> ordinal s + 366"
    by (auto simp: next_start_def custom_step_def date_plus_Inr)
next
  fix s assume n: "1 \<le> n" "n \<le> 366" and v: "valid_date s" and "ordinal s + 366 \<le> ordinal max_date"
  then show "\<exists>t. next_start s ''custom'' (Some n) = Inr t"
    using date_plus_total [OF v, of n] ordinal_bounds [OF v] by (auto simp: next_start_def custom_step_def)
qed

lemma validate_cycle_ok:
  "validate_cycle periodicity custom_days off grace = [] \<longleftrightarrow>
     ((periodicity \<in> {''monthly'', ''fortnightly'', ''weekly''} \<and> custom_days = None)
      \<or> (periodicity = ''custom'' \<and> (\<exists>n. custom_days = Some n \<and> 1 \<le> n \<and> n \<le> 366)))
     \<and> 0 \<le> off \<and> off \<le> 120 \<and> 0 \<le> grace \<and> grace \<le> 120"
  by (auto simp: validate_cycle_def PERIODICITIES_def split: option.splits if_splits)

lemma validate_cycle_bounds:
  "validate_cycle periodicity custom_days off grace = [] \<Longrightarrow> 0 \<le> off" 
  "validate_cycle periodicity custom_days off grace = [] \<Longrightarrow> 0 \<le> grace"
  by (simp_all add: validate_cycle_ok)

lemma recurring_weaken:
  "recurring periodicity custom_days k \<Longrightarrow> k \<le> m \<Longrightarrow> recurring periodicity custom_days m"
  unfolding recurring_def by force

lemma valid_cycle_recurring:
  "validate_cycle periodicity custom_days off grace = [] \<Longrightarrow> recurring periodicity custom_days 366"
  using monthly.recurring_axioms fortnightly.recurring_axioms weekly.recurring_axioms custom_recurring
  by (auto simp: validate_cycle_ok intro: recurring_weaken)

lemma periods_between_Inr:
  "periods_between anchor until periodicity custom_days off grace = Inr ps \<longleftrightarrow>
     validate_cycle periodicity custom_days off grace = []
     \<and> (if until < anchor then ps = [] else periods_loop MAX_PERIODS anchor until periodicity custom_days off grace = Inr ps)"
  by (auto simp: periods_between_def Let_def)

lemma sorted_intervals_disjoint:
  fixes lo hi :: "'p \<Rightarrow> int"
  shows "\<lbrakk>sorted_wrt (\<lambda>p q. hi p < lo q) ps; p \<in> set ps; q \<in> set ps;
    lo p \<le> x; x \<le> hi p; lo q \<le> x; x \<le> hi q\<rbrakk> \<Longrightarrow> p = q"
  by (induction ps) fastforce+

section \<open>Properties\<close>

text \<open>
  The generated periods tile the requested range: each runs from its start to its end and is
  due and late only afterwards, they do not overlap and come in order, at most 120 are produced,
  and below that cap every day from the anchor to the limit lies in exactly one of them.
\<close>

theorem periods_tile_the_range:
  assumes a: "valid_date anchor" and u: "valid_date until"
    and ps: "periods_between anchor until periodicity custom_days off grace = Inr ps"
  shows "length ps \<le> 120
    \<and> (\<forall>p \<in> set ps. anchor \<le> period_start p \<and> period_start p \<le> until \<and> period_start p \<le> period_end p
          \<and> date_diff (due_on p) (period_end p) = off \<and> date_diff (late_after p) (due_on p) = grace)
    \<and> sorted_wrt (\<lambda>p q. period_end p < period_start q) ps
    \<and> (\<forall>d. length ps < 120 \<and> valid_date d \<and> anchor \<le> d \<and> d \<le> until \<longrightarrow>
          (\<exists>!p. p \<in> set ps \<and> period_start p \<le> d \<and> d \<le> period_end p))"
proof (cases "until < anchor")
  case True
  then show ?thesis using ps by (auto simp: periods_between_Inr)
next
  case False
  have ok: "validate_cycle periodicity custom_days off grace = []"
    and loop: "periods_loop 120 anchor until periodicity custom_days off grace = Inr ps"
    using ps False by (auto simp: periods_between_Inr MAX_PERIODS_def)
  have rec: "recurring periodicity custom_days 366" using valid_cycle_recurring [OF ok] .
  note members = recurring.loop_members [OF rec a loop]
  have sorted: "sorted_wrt (\<lambda>p q. ordinal (period_end p) < ordinal (period_start q)) ps"
    by (rule recurring.loop_sorted [OF rec a loop])
  have len: "length ps \<le> 120" by (rule recurring.length_loop [OF rec loop])
  have le: "x \<le> y \<longleftrightarrow> ordinal x \<le> ordinal y" if "valid_date x" "valid_date y" for x y
    using ordinal_le_iff that by simp
  have range: "anchor \<le> period_start p \<and> period_start p \<le> until \<and> period_start p \<le> period_end p
      \<and> date_diff (due_on p) (period_end p) = off \<and> date_diff (late_after p) (due_on p) = grace"
    if "p \<in> set ps" for p
    using members [OF that] a by (simp add: le date_diff_def)
  have order: "sorted_wrt (\<lambda>p q. period_end p < period_start q) ps"
    by (rule sorted_wrt_mono_rel [OF _ sorted]) (use members ordinal_less_iff in blast)
  have "\<exists>!p. p \<in> set ps \<and> period_start p \<le> d \<and> d \<le> period_end p"
    if d: "length ps < 120" "valid_date d" "anchor \<le> d" "d \<le> until" for d
  proof -
    have iff: "period_start p \<le> d \<and> d \<le> period_end p \<longleftrightarrow>
        ordinal (period_start p) \<le> ordinal d \<and> ordinal d \<le> ordinal (period_end p)" if "p \<in> set ps" for p
      using members [OF that] d by (simp add: le)
    obtain p where p: "p \<in> set ps" "ordinal (period_start p) \<le> ordinal d" "ordinal d \<le> ordinal (period_end p)"
      using recurring.loop_covers [OF rec a u loop d(1)] d a u by (auto simp: le)
    show ?thesis
    proof (rule ex1I [of _ p])
      show "p \<in> set ps \<and> period_start p \<le> d \<and> d \<le> period_end p" using p iff by blast
      fix q assume "q \<in> set ps \<and> period_start q \<le> d \<and> d \<le> period_end q"
      then show "q = p" using sorted_intervals_disjoint [OF sorted _ p(1) _ _ p(2,3)] iff by blast
    qed
  qed
  then show ?thesis using len range order by blast
qed

lemma monthly_sample:
  "periods_between (Date 2024 1 15) (Date 2024 3 1) ''monthly'' None 5 3 =
     Inr [\<lparr>period_start = Date 2024 1 15, period_end = Date 2024 1 31, due_on = Date 2024 2 5, late_after = Date 2024 2 8\<rparr>,
          \<lparr>period_start = Date 2024 2 1, period_end = Date 2024 2 29, due_on = Date 2024 3 5, late_after = Date 2024 3 8\<rparr>,
          \<lparr>period_start = Date 2024 3 1, period_end = Date 2024 3 31, due_on = Date 2024 4 5, late_after = Date 2024 4 8\<rparr>]"
  by (simp add: periods_loop_numeral periods_between_def validate_cycle_def PERIODICITIES_def MAX_PERIODS_def date_less_iff not_less [symmetric]
      period_at_def period_end_of_def next_start_def date_plus_def days_in_month_def is_leap_def of_option_def
      cong: rbind_weak_cong)

theorem periods_tile_the_range_witness:
  "\<exists>ps. periods_between (Date 2024 1 15) (Date 2024 3 1) ''monthly'' None 5 3 = Inr ps \<and> length ps = 3
     \<and> (\<exists>!p. p \<in> set ps \<and> period_start p \<le> Date 2024 2 29 \<and> Date 2024 2 29 \<le> period_end p)"
proof -
  have v: "valid_date (Date 2024 1 15)" "valid_date (Date 2024 3 1)" "valid_date (Date 2024 2 29)"
    "Date 2024 1 15 \<le> Date 2024 2 29" "Date 2024 2 29 \<le> Date 2024 3 1" by code_simp+
  obtain ps where ps: "periods_between (Date 2024 1 15) (Date 2024 3 1) ''monthly'' None 5 3 = Inr ps" "length ps = 3"
    using monthly_sample by auto
  have "\<exists>!p. p \<in> set ps \<and> period_start p \<le> Date 2024 2 29 \<and> Date 2024 2 29 \<le> period_end p"
    using periods_tile_the_range [OF v(1,2) ps(1)] v ps(2) by auto
  with ps show ?thesis by blast
qed

text \<open>
  Generating the periods cannot fail on an accepted cycle, unless the calendar itself ends: the
  only errors are a \<open>CycleError\<close> that lists the broken rules and, near the year 9999, an
  \<open>OverflowError\<close>.
\<close>

theorem periods_between_outcome:
  assumes a: "valid_date anchor" and u: "valid_date until" and far: "until \<le> Date 9997 12 31"
  shows "((\<exists>ps. periods_between anchor until periodicity custom_days off grace = Inr ps) \<longleftrightarrow>
           validate_cycle periodicity custom_days off grace = [])
     \<and> (\<forall>e. periods_between anchor until periodicity custom_days off grace = Inl e \<longrightarrow>
           e = CycleError (py_join ''; '' (validate_cycle periodicity custom_days off grace)))"
proof -
  have "validate_cycle periodicity custom_days off grace = [] \<Longrightarrow>
      \<exists>ps. periods_between anchor until periodicity custom_days off grace = Inr ps"
  proof -
    assume ok: "validate_cycle periodicity custom_days off grace = []"
    have "valid_date (Date 9997 12 31)" "ordinal (Date 9997 12 31) = 3651329"
      by (simp_all add: days_in_month_def days_before_year.simps days_before_month_12 is_leap_def
          del: days_before_month_numeral)
    then have "ordinal until \<le> 3651329" using far ordinal_le_iff [OF u] by metis
    then have "ordinal until + 366 + off + grace \<le> ordinal max_date"
      using ok by (simp add: ordinal_max_date validate_cycle_ok)
    then obtain ps where "periods_loop MAX_PERIODS anchor until periodicity custom_days off grace = Inr ps"
      using recurring.loop_total [OF valid_cycle_recurring [OF ok] a u] validate_cycle_bounds [OF ok] by blast
    then show ?thesis using ok by (auto simp: periods_between_Inr)
  qed
  then have run: "validate_cycle periodicity custom_days off grace = [] \<longleftrightarrow>
      (\<exists>ps. periods_between anchor until periodicity custom_days off grace = Inr ps)"
    by (blast dest: periods_between_Inr [THEN iffD1])
  show ?thesis
  proof (cases "validate_cycle periodicity custom_days off grace = []")
    case True
    then show ?thesis using run by auto
  next
    case False
    then show ?thesis by (simp add: periods_between_def)
  qed
qed

theorem periods_between_outcome_witness:
  "(\<exists>ps. periods_between (Date 2024 1 15) (Date 2024 3 1) ''custom'' (Some 10) 5 3 = Inr ps)
   \<and> \<not> (\<exists>ps. periods_between (Date 2024 1 15) (Date 2024 3 1) ''custom'' None 5 3 = Inr ps)"
proof -
  have v: "valid_date (Date 2024 1 15)" "valid_date (Date 2024 3 1)" "Date 2024 3 1 \<le> Date 9997 12 31"
    by (simp_all add: not_less [symmetric] date_less_iff days_in_month_def)
  note out = periods_between_outcome [OF v, THEN conjunct1]
  show ?thesis unfolding out by (simp add: validate_cycle_def PERIODICITIES_def)
qed

text \<open>
  When today is past the anchor of an accepted cycle and below the 120-period cap of the
  generated calendar, \<open>next_due\<close> finds a deadline, and it is the earliest one that has not passed.
\<close>

theorem next_due_is_the_first_open_deadline:
  assumes a: "valid_date anchor" and t: "valid_date today" and past: "anchor \<le> today"
    and run: "next_due anchor today periodicity custom_days off grace = Inr r"
    and h: "date_plus today 366 = Inr horizon"
    and ps: "periods_between anchor horizon periodicity custom_days off grace = Inr ps"
    and cap: "length ps < 120"
  shows "\<exists>p. r = Some p \<and> p \<in> set ps \<and> today \<le> due_on p
           \<and> (\<forall>q \<in> set ps. today \<le> due_on q \<longrightarrow> due_on p \<le> due_on q)"
proof -
  have hv: "valid_date horizon" "ordinal horizon = ordinal today + 366" using h date_plus_Inr [OF t] by auto
  have th: "anchor \<le> horizon"
    using hv past ordinal_le_iff [OF a t] ordinal_le_iff [OF a hv(1)] by simp
  have ok: "validate_cycle periodicity custom_days off grace = []"
    and loop: "periods_loop 120 anchor horizon periodicity custom_days off grace = Inr ps"
    using ps leD [OF th] unfolding periods_between_Inr MAX_PERIODS_def by simp_all
  have rec: "recurring periodicity custom_days 366" using valid_cycle_recurring [OF ok] .
  note members = recurring.loop_members [OF rec a loop]
  have r: "r = find (\<lambda>p. today \<le> due_on p) ps" using run h ps by (simp add: next_due_def)
  obtain c where c: "c \<in> set ps" "ordinal today \<le> ordinal (period_end c)"
    using recurring.loop_covers [OF rec a hv(1) loop cap, of "ordinal today"] past hv ordinal_le_iff [OF a t] by auto
  then have "today \<le> due_on c"
    using members [OF c(1)] validate_cycle_bounds [OF ok] ordinal_le_iff [OF t] by fastforce
  then obtain p where p: "r = Some p" using c(1) unfolding r by (cases r) (auto simp: find_None_iff r)
  from this [unfolded r] obtain i where i: "i < length ps" "today \<le> due_on p" "p = ps ! i"
    "\<And>j. j < i \<Longrightarrow> \<not> today \<le> due_on (ps ! j)"
    by (auto simp: find_Some_iff)
  have "due_on p \<le> due_on q" if q: "q \<in> set ps" "today \<le> due_on q" for q
  proof -
    obtain j where j: "j < length ps" "q = ps ! j" using q(1) by (auto simp: in_set_conv_nth)
    have "i \<le> j" using i(4) [of j] j q(2) by force
    show ?thesis
    proof (cases "i = j")
      case True
      then show ?thesis using i j by simp
    next
      case False
      then have "ordinal (period_end p) < ordinal (period_start q)"
        using sorted_wrt_nth_less [OF recurring.loop_sorted [OF rec a loop], of i j] i j \<open>i \<le> j\<close> by simp
      moreover have "p \<in> set ps" using i by simp
      ultimately show ?thesis
        using members [of p] members [of q] q(1) ordinal_le_iff [of "due_on p" "due_on q"] by simp
    qed
  qed
  then show ?thesis using p i by auto
qed

lemma due_sample:
  "date_plus (Date 2024 3 5) 366 = Inr (Date 2025 3 6)"
  by (rule date_plus_Inr [THEN iffD2])
    (simp_all add: days_in_month_def is_leap_def days_before_year.simps)

lemma custom_sample:
  "periods_between (Date 2024 2 15) (Date 2025 3 6) ''custom'' (Some 300) 5 3 =
     Inr [\<lparr>period_start = Date 2024 2 15, period_end = Date 2024 12 10, due_on = Date 2024 12 15, late_after = Date 2024 12 18\<rparr>,
          \<lparr>period_start = Date 2024 12 11, period_end = Date 2025 10 6, due_on = Date 2025 10 11, late_after = Date 2025 10 14\<rparr>]"
proof -
  have step: "next_start (Date 2024 2 15) ''custom'' (Some 300) = Inr (Date 2024 12 11)"
    "next_start (Date 2024 12 11) ''custom'' (Some 300) = Inr (Date 2025 10 7)"
    by (simp_all add: next_start_def custom_step_def date_plus_Inr days_in_month_def is_leap_def days_before_year.simps)
  show ?thesis
    by (simp add: periods_between_def validate_cycle_def PERIODICITIES_def MAX_PERIODS_def periods_loop_numeral
        period_at_def period_end_of_def step date_less_iff not_less [symmetric] date_plus_def days_in_month_def of_option_def
        cong: rbind_weak_cong)
qed

theorem next_due_is_the_first_open_deadline_witness:
  "\<exists>p. next_due (Date 2024 2 15) (Date 2024 3 5) ''custom'' (Some 300) 5 3 = Inr (Some p)
     \<and> Date 2024 3 5 \<le> due_on p"
proof -
  let ?a = "Date 2024 2 15" and ?t = "Date 2024 3 5"
  have v: "valid_date ?a" "valid_date ?t" "?a \<le> ?t"
    by (simp_all add: not_less [symmetric] date_less_iff days_in_month_def)
  obtain r where r: "next_due ?a ?t ''custom'' (Some 300) 5 3 = Inr r"
    by (simp add: next_due_def due_sample custom_sample)
  from next_due_is_the_first_open_deadline [OF v r due_sample custom_sample]
  show ?thesis using r by auto
qed

text \<open>
  A weekly cycle older than its cap has no deadline any more: once today is past the due date
  of the 120th period, about 28 months after the anchor, \<open>next_due\<close> answers that there is none,
  although the cycle goes on every week.
\<close>

theorem next_due_forgets_long_cycles:
  assumes a: "valid_date anchor" and t: "valid_date today"
    and off: "0 \<le> off" "off \<le> 120" and grace: "0 \<le> grace" "grace \<le> 120"
    and old: "ordinal anchor + 840 + off \<le> ordinal today" and far: "today \<le> Date 9996 12 31"
  shows "next_due anchor today ''weekly'' None off grace = Inr None"
proof -
  have "valid_date (Date 9996 12 31)" "ordinal (Date 9996 12 31) = 3650964"
    by (simp_all add: days_in_month_def days_before_year.simps days_before_month_12 is_leap_def
        del: days_before_month_numeral)
  then have "ordinal today \<le> 3650964" using far ordinal_le_iff [OF t] by metis
  then obtain horizon where h: "date_plus today 366 = Inr horizon" "valid_date horizon"
    "ordinal horizon = ordinal today + 366" "ordinal horizon \<le> 3651330"
    using date_plus_total [OF t, of 366] ordinal_bounds [OF t] by (auto simp: ordinal_max_date)
  have ok: "validate_cycle ''weekly'' None off grace = []" using off grace by (simp add: validate_cycle_ok)
  obtain ps where loop: "periods_loop 120 anchor horizon ''weekly'' None off grace = Inr ps"
    using weekly.loop_total [OF a h(2) off(1) grace(1), of 120] h off grace by (auto simp: ordinal_max_date)
  have "\<not> horizon < anchor" using ordinal_le_iff [OF a h(2)] h old off by (simp add: not_less)
  then have ps: "periods_between anchor horizon ''weekly'' None off grace = Inr ps"
    using ok loop by (simp only: periods_between_Inr MAX_PERIODS_def if_False simp_thms)
  have "\<not> today \<le> due_on p" if "p \<in> set ps" for p
    using weekly.loop_members [OF a loop that] old ordinal_le_iff [OF t, of "due_on p"] by simp
  then have "find (\<lambda>p. today \<le> due_on p) ps = None" by (auto simp: find_None_iff)
  then show ?thesis using h(1) ps by (simp add: next_due_def)
qed

theorem next_due_forgets_long_cycles_witness:
  "next_due (Date 2020 3 2) (Date 2023 3 2) ''weekly'' None 5 3 = Inr None"
  by (rule next_due_forgets_long_cycles)
    (simp_all add: not_less [symmetric] date_less_iff days_in_month_def days_before_year.simps is_leap_def)

text \<open>
  Lateness is counted from the end of the grace period: a document that has not arrived is
  reported late exactly on the days for which the delay is positive, and one that has arrived is
  never late.
\<close>

theorem late_iff_positive_delay:
  assumes "valid_date today" and "valid_date (late_after p)"
  shows "(state_on p today False = ''late'' \<longleftrightarrow> 0 < days_late p today)
     \<and> (0 < days_late p today \<longrightarrow> date_plus (late_after p) (days_late p today) = Inr today)
     \<and> state_on p today True = ''satisfied''"
  using assms ordinal_less_iff [of "late_after p" today]
  by (auto simp: state_on_def days_late_def date_diff_def date_plus_Inr)

theorem late_iff_positive_delay_witness:
  "\<exists>p. late_after p = Date 2024 2 28 \<and> days_late p (Date 2024 3 2) = 3 \<and> state_on p (Date 2024 3 2) False = ''late''"
proof -
  let ?p = "\<lparr>period_start = Date 2024 2 2, period_end = Date 2024 2 20, due_on = Date 2024 2 25, late_after = Date 2024 2 28\<rparr>"
  have v: "valid_date (Date 2024 3 2)" "valid_date (late_after ?p)" "days_late ?p (Date 2024 3 2) = 3"
    by (simp_all add: days_in_month_def days_late_def date_diff_def is_leap_def days_before_year.simps)
  from late_iff_positive_delay [OF v(1,2)] v(3) have "state_on ?p (Date 2024 3 2) False = ''late''" by simp
  with v(3) show ?thesis by (intro exI [of _ ?p]) simp
qed

end
