(* ===== verification/ColumnMapping.thy ===== *)
theory ColumnMapping
  imports Money Calendar
begin

text \<open>
  \<open>fincilia_contracts/mapping.py\<close>: a column mapping turns the rows of a tabular file into canonical
  movements. The profile dictionary is the record \<open>profile\<close> of the entries the code reads. The
  lemmas show that amounts and dates are read only in the declared convention and without changing
  a digit, that a validated mapping cannot crash on a row, and that every row is either published
  or rejected with its reason.
\<close>

section \<open>The mapping\<close>

definition CANONICAL_FIELDS :: "string list" where
  "CANONICAL_FIELDS = [''occurred_on'', ''description'', ''reference'', ''amount'', ''debit'', ''credit'',
     ''direction'', ''currency'']"

definition REQUIRED_FIELDS :: "string list" where "REQUIRED_FIELDS = [''occurred_on'', ''description'']"
definition DATE_FORMATS :: "string list" where "DATE_FORMATS = [''iso'', ''dmy'', ''mdy'']"
definition DECIMAL_FORMATS :: "string list" where "DECIMAL_FORMATS = [''dot'', ''comma'']"

definition DIRECTION_MODES :: "string list" where
  "DIRECTION_MODES = [''debit_credit_columns'', ''signed_amount'', ''explicit_direction'']"

definition DIRECTIONS :: "string list" where "DIRECTIONS = [''inflow'', ''outflow'']"

definition INFLOW_WORDS :: "string list" where
  "INFLOW_WORDS = [''inflow'', ''credito'', ''cr'' @ [CHR 0xE9] @ ''dito'', ''credit'', ''abono'', ''entrada'', ''haber'']"

definition OUTFLOW_WORDS :: "string list" where
  "OUTFLOW_WORDS = [''outflow'', ''debito'', ''d'' @ [CHR 0xE9] @ ''bito'', ''debit'', ''cargo'', ''salida'', ''debe'']"

definition ISO_DATE :: rx where
  "ISO_DATE = RSeq (rtimes 4 rdigit) (RSeq (rlit (CHR ''-'')) (RSeq (rtimes 2 rdigit)
     (RSeq (rlit (CHR ''-'')) (rtimes 2 rdigit))))"

definition slash_sep :: rx where "slash_sep = RCls (\<lambda>c. c = CHR ''/'' \<or> c = CHR ''-'')"

definition SLASH_DATE :: rx where
  "SLASH_DATE = RSeq (rrange 1 2 rdigit) (RSeq slash_sep (RSeq (rrange 1 2 rdigit)
     (RSeq slash_sep (rrange 2 4 rdigit))))"

text \<open>\<open>^[+-]?\d{1,3}(?:G\d{3})+(?:P\d+)?$\<close> for a group separator \<open>G\<close> and a decimal point \<open>P\<close>.\<close>

definition thousands :: "char \<Rightarrow> char \<Rightarrow> rx" where
  "thousands g p = RSeq rsign (RSeq (rrange 1 3 rdigit) (RSeq (rplus (RSeq (rlit g) (rtimes 3 rdigit)))
     (ropt (RSeq (rlit p) (rplus rdigit)))))"

definition THOUSANDS_DOT :: rx where "THOUSANDS_DOT = thousands (CHR ''.'') (CHR '','')"
definition THOUSANDS_COMMA :: rx where "THOUSANDS_COMMA = thousands (CHR '','') (CHR ''.'')"

text \<open>\<open>[+-]?\d+(?:\.\d+)?\<close>\<close>

definition PLAIN_NUMBER :: rx where
  "PLAIN_NUMBER = RSeq rsign (RSeq (rplus rdigit) (ropt (RSeq (rlit (CHR ''.'')) (rplus rdigit))))"

definition MAX_DESCRIPTION :: nat where "MAX_DESCRIPTION = 500"
definition MAX_REFERENCE :: nat where "MAX_REFERENCE = 120"

definition DAYS_IN_MONTH :: "nat list" where
  "DAYS_IN_MONTH = [31, 29, 31, 30, 31, 30, 31, 31, 30, 31, 30, 31]"

record column_mapping =
  columns :: "(string \<times> int) list"
  date_format :: string
  decimal_format :: string
  mapping_currency :: string
  direction_mode :: string
  header_row :: int
  first_data_row :: int
  last_data_row :: "int option"

definition column_of :: "column_mapping \<Rightarrow> string \<Rightarrow> int option" where
  "column_of m name = map_of (columns m) name"

record movement =
  row_number :: int
  occurred_on :: string
  description :: string
  reference :: string
  amount :: decimal
  currency :: string
  direction :: string
  source_column :: "(string \<times> int) list"

datatype rejection = Rejection (rejected_row: int) (rejected_code: string) (rejected_detail: string)

record mapping_result =
  movements :: "movement list"
  rejections :: "rejection list"

definition publishable :: "mapping_result \<Rightarrow> bool" where
  "publishable r = (movements r \<noteq> [])"

text \<open>\<open>as_dict\<close> of a movement: money leaves the program as fixed-point text.\<close>

definition movement_as_dict :: "movement \<Rightarrow> pydict" where
  "movement_as_dict v =
     [(''row_number'', PInt (row_number v)), (''occurred_on'', PStr (occurred_on v)),
      (''description'', PStr (description v)), (''reference'', PStr (reference v)),
      (''amount'', PStr (dec_format12 (amount v))), (''currency'', PStr (currency v)),
      (''direction'', PStr (direction v)),
      (''source_column'', PDict (map (\<lambda>(k, i). (k, PInt i)) (source_column v)))]"

fun rejection_as_dict :: "rejection \<Rightarrow> pydict" where
  "rejection_as_dict (Rejection n c d) = [(''row_number'', PInt n), (''code'', PStr c), (''detail'', PStr d)]"

definition mapping_result_as_dict :: "mapping_result \<Rightarrow> pydict" where
  "mapping_result_as_dict r =
     [(''movements'', PList (map (\<lambda>v. PDict (movement_as_dict v)) (movements r))),
      (''rejections'', PList (map (\<lambda>v. PDict (rejection_as_dict v)) (rejections r))),
      (''accepted'', PInt (int (length (movements r)))), (''rejected'', PInt (int (length (rejections r))))]"

section \<open>Validation against the vocabulary and a profile\<close>

record profile_column =
  pc_index :: int
  pc_header :: pyval
  pc_type :: pyval
  pc_ambiguous :: bool

record profile_shape =
  profile_columns :: "profile_column list"
  profile_column_count :: "int option"

definition validate_direction :: "column_mapping \<Rightarrow> finding list" where
  "validate_direction m =
     (if direction_mode m = ''debit_credit_columns'' then
        (if column_of m ''debit'' = None \<or> column_of m ''credit'' = None
         then [Finding ''MAP-DIRECTION-COLUMNS'' ''direction_mode'' ''this mode needs both a debit and a credit column''] else [])
      @ (if column_of m ''debit'' = column_of m ''credit''
         then [Finding ''MAP-DIRECTION-COLUMNS'' ''direction_mode'' ''debit and credit cannot be the same column''] else [])
      else if direction_mode m = ''signed_amount'' then
        (if column_of m ''amount'' = None
         then [Finding ''MAP-DIRECTION-COLUMNS'' ''amount'' ''this mode needs a single amount column''] else [])
      else if direction_mode m = ''explicit_direction'' then
        (if column_of m ''amount'' = None \<or> column_of m ''direction'' = None
         then [Finding ''MAP-DIRECTION-COLUMNS'' ''direction_mode'' ''this mode needs an amount column and a direction column''] else [])
      else [])"

text \<open>\<open>by_index\<close>: of two profile columns with the same index the later one stays.\<close>

definition by_index :: "profile_shape \<Rightarrow> int \<Rightarrow> profile_column option" where
  "by_index p i = map_of (rev (map (\<lambda>c. (pc_index c, c)) (profile_columns p))) i"

definition profile_finding :: "profile_shape \<Rightarrow> string \<times> int \<Rightarrow> finding list" where
  "profile_finding p ni = (case ni of (name, i) \<Rightarrow>
     (case by_index p i of
        None \<Rightarrow> [Finding ''MAP-COLUMN-ABSENT'' name (''column '' @ show_int i @ '' is not in the profile'')]
      | Some c \<Rightarrow>
          if pc_ambiguous c
          then [Finding ''MAP-AMBIGUOUS-COLUMN'' (name @ '' -> '' @ py_str (pc_header c))
                 (''the profile could not decide between readings of '' @ py_str (pc_type c) @ ''; a person has to choose'')]
          else []))"

definition validate_against_profile :: "column_mapping \<Rightarrow> profile_shape \<Rightarrow> finding list" where
  "validate_against_profile m p =
     concat (map (profile_finding p) (sort (columns m)))
   @ (case profile_column_count p of None \<Rightarrow> []
      | Some declared \<Rightarrow>
          if columns m \<noteq> [] \<and> declared \<le> Max (set (map snd (columns m)))
          then [Finding ''MAP-SCHEMA-DRIFT'' ''columns''
                 (''the mapping points past column '' @ show_int (declared - 1)
                   @ ''; the file no longer has the shape this mapping was written for'')]
          else [])"

definition validate_mapping :: "column_mapping \<Rightarrow> profile_shape option \<Rightarrow> finding list" where
  "validate_mapping m profile =
     (if date_format m \<notin> set DATE_FORMATS
      then [Finding ''MAP-DATE-FORMAT'' ''date_format'' (repr_str (date_format m) @ '' is not a declared format'')] else [])
   @ (if decimal_format m \<notin> set DECIMAL_FORMATS
      then [Finding ''MAP-DECIMAL-FORMAT'' ''decimal_format'' (repr_str (decimal_format m) @ '' is not a declared format'')] else [])
   @ (if direction_mode m \<notin> set DIRECTION_MODES
      then [Finding ''MAP-DIRECTION-MODE'' ''direction_mode'' (repr_str (direction_mode m) @ '' is not a declared mode'')] else [])
   @ (case parse_currency (PStr (mapping_currency m)) ''currency_code'' of
        Inl e \<Rightarrow> [Finding ''MAP-CURRENCY'' ''currency'' ''an explicit supported currency is required'']
      | Inr c \<Rightarrow> [])
   @ map (\<lambda>name. Finding ''MAP-MISSING-COLUMN'' name ''this canonical field has no source column'')
       (filter (\<lambda>name. column_of m name = None) REQUIRED_FIELDS)
   @ (let unknown = sorted_set (filter (\<lambda>k. k \<notin> set CANONICAL_FIELDS) (map fst (columns m))) in
      if unknown \<noteq> [] then [Finding ''MAP-UNKNOWN-FIELD'' (py_join '', '' unknown) ''not a canonical field''] else [])
   @ (if \<exists>i \<in> set (map snd (columns m)). i < 0
      then [Finding ''MAP-COLUMN-INDEX'' ''columns'' ''a column index is never negative''] else [])
   @ (if header_row m < 1 then [Finding ''MAP-ROW-RANGE'' ''header_row'' ''the header row is 1-based''] else [])
   @ (if first_data_row m \<le> header_row m
      then [Finding ''MAP-ROW-RANGE'' ''first_data_row'' ''the first data row must come after the header row''] else [])
   @ (case last_data_row m of None \<Rightarrow> []
      | Some l \<Rightarrow> if l < first_data_row m
          then [Finding ''MAP-ROW-RANGE'' ''last_data_row'' ''the last data row cannot precede the first data row''] else [])
   @ validate_direction m
   @ (case profile of None \<Rightarrow> [] | Some p \<Rightarrow> validate_against_profile m p)"

section \<open>Reading values\<close>

definition iso :: "nat \<Rightarrow> nat \<Rightarrow> nat \<Rightarrow> (exn, string) result" where
  "iso year month dy =
     (if \<not> (1 \<le> month \<and> month \<le> 12) then Inl (MappingError ''month out of range'')
      else let limit = (if month = 2 \<and> \<not> (year mod 4 = 0 \<and> (year mod 100 \<noteq> 0 \<or> year mod 400 = 0))
                        then 28 else DAYS_IN_MONTH ! (month - 1)) in
      if \<not> (1 \<le> dy \<and> dy \<le> limit) then Inl (MappingError ''day out of range for that month'')
      else if \<not> (1900 \<le> year \<and> year \<le> 2999) then Inl (MappingError ''year out of range'')
      else Inr (pad 4 year @ ''-'' @ pad 2 month @ ''-'' @ pad 2 dy))"

text \<open>The groups of a slash date: runs of digits, each followed by one separator.\<close>

definition slash_groups :: "string \<Rightarrow> string \<times> string \<times> string" where
  "slash_groups t =
     (let a = takeWhile is_digit t; r = drop (length a + 1) t;
          b = takeWhile is_digit r; q = drop (length b + 1) r
      in (a, b, takeWhile is_digit q))"

definition parse_date :: "string \<Rightarrow> string \<Rightarrow> (exn, string) result" where
  "parse_date v fmt =
     (let t = py_strip v in
      if t = [] then Inl (MappingError ''a movement always has a date'')
      else if match_dollar ISO_DATE t then
        (if fmt \<noteq> ''iso'' then Inl (MappingError (''the value is ISO but the mapping declares '' @ fmt))
         else iso (digits_val (take 4 t)) (digits_val (take 2 (drop 5 t))) (digits_val (take 2 (drop 8 t))))
      else if \<not> match_dollar SLASH_DATE t
        then Inl (MappingError ''the value is not a date in any recognised shape'')
      else case slash_groups t of (a, b, y) \<Rightarrow>
        if length y = 2 then Inl (MappingError ''a two-digit year is ambiguous and is never completed'')
        else if fmt = ''iso'' then Inl (MappingError ''the mapping declares ISO but the value is not ISO'')
        else if fmt = ''dmy'' then iso (digits_val y) (digits_val b) (digits_val a)
        else iso (digits_val y) (digits_val a) (digits_val b))"

definition amount_text :: "string \<Rightarrow> string" where
  "amount_text v = remove_char (CHR 0xA0) (remove_char (CHR '' '') (py_strip v))"

text \<open>One separator convention: \<open>g\<close> groups thousands, \<open>p\<close> is the decimal point.\<close>

definition ungroup :: "char \<Rightarrow> char \<Rightarrow> string \<Rightarrow> string \<Rightarrow> (exn, string) result" where
  "ungroup g p complaint t =
     rbind (if g \<in> set t
            then if \<not> match_dollar (thousands g p) t
                 then Inl (MappingError ''the thousands separators do not group in threes'')
                 else Inr (remove_char g t)
            else Inr t)
       (\<lambda>t. if 1 < length (filter (\<lambda>c. c = p) t) then Inl (MappingError complaint) else Inr t)"

definition normalise_amount :: "string \<Rightarrow> string \<Rightarrow> (exn, string) result" where
  "normalise_amount v fmt =
     (let t = amount_text v in
      if t = [] then Inl (MappingError ''an empty cell is not an amount'')
      else rbind (if fmt = ''dot'' then ungroup (CHR '','') (CHR ''.'') ''more than one decimal point'' t
                  else map_sum id (replace_char (CHR '','') (CHR ''.''))
                         (ungroup (CHR ''.'') (CHR '','') ''more than one decimal comma'' t))
             (\<lambda>t. if \<not> rx_match PLAIN_NUMBER t
                  then Inl (MappingError ''the value is not a number in the declared format'') else Inr t))"

definition parse_direction :: "string \<Rightarrow> (exn, string) result" where
  "parse_direction v =
     (let word = py_lower (py_strip v) in
      if word \<in> set INFLOW_WORDS then Inr ''inflow''
      else if word \<in> set OUTFLOW_WORDS then Inr ''outflow''
      else Inl (MappingError ''the direction column does not say inflow or outflow''))"

section \<open>Applying a mapping\<close>

text \<open>\<open>row[index]\<close>, with Python's reading of a negative index.\<close>

definition cell :: "string list \<Rightarrow> int option \<Rightarrow> (exn, string) result" where
  "cell row index = (case index of None \<Rightarrow> Inr ''''
     | Some i \<Rightarrow> if int (length row) \<le> i then Inr ''''
         else if 0 \<le> i then Inr (row ! nat i)
         else if - i \<le> int (length row) then Inr (row ! nat (int (length row) + i))
         else Inl IndexError)"

definition money_cell :: "string \<Rightarrow> string \<Rightarrow> (exn, decimal) result" where
  "money_cell raw fmt = rbind (normalise_amount raw fmt) (\<lambda>t. parse_money (PStr t) ''amount'')"

definition amount_and_direction :: "column_mapping \<Rightarrow> string list \<Rightarrow> (exn, decimal \<times> string) result" where
  "amount_and_direction m row =
     (if direction_mode m = ''debit_credit_columns'' then
        rbind (map_sum id py_strip (cell row (column_of m ''debit''))) (\<lambda>debit.
        rbind (map_sum id py_strip (cell row (column_of m ''credit''))) (\<lambda>credit.
          if debit \<noteq> [] \<and> credit \<noteq> [] then Inl (MappingError ''a row cannot be both a debit and a credit'')
          else if debit = [] \<and> credit = [] then Inl (MappingError ''the row has neither a debit nor a credit'')
          else rbind (money_cell (if debit \<noteq> [] then debit else credit) (decimal_format m)) (\<lambda>a.
            if dec_lt0 a then Inl (MappingError ''a debit or credit column carries no sign'')
            else Inr (a, if debit \<noteq> [] then ''outflow'' else ''inflow''))))
      else
        rbind (map_sum id py_strip (cell row (column_of m ''amount''))) (\<lambda>raw.
        rbind (money_cell raw (decimal_format m)) (\<lambda>a.
          if direction_mode m = ''signed_amount''
          then Inr (dec_abs a, if dec_lt0 a then ''outflow'' else ''inflow'')
          else rbind (rbind (cell row (column_of m ''direction'')) parse_direction) (\<lambda>d.
            if dec_lt0 a then Inl (MappingError ''an explicit direction and a signed amount contradict'')
            else Inr (a, d)))))"

definition apply_row :: "column_mapping \<Rightarrow> string list \<Rightarrow> int \<Rightarrow> (exn, movement) result" where
  "apply_row m row n =
     rbind (rbind (cell row (column_of m ''occurred_on'')) (\<lambda>v. parse_date v (date_format m))) (\<lambda>when.
     rbind (cell row (column_of m ''description'')) (\<lambda>d.
       let text = take MAX_DESCRIPTION (py_strip d) in
       if text = [] then Inl (MappingError ''a movement always has a description'')
       else rbind (cell row (column_of m ''reference'')) (\<lambda>r.
         rbind (amount_and_direction m row) (\<lambda>(a, dir).
           if dec_eq a ZERO then Inl (MappingError ''a movement of zero is not a movement'')
           else rbind (parse_currency (PStr (mapping_currency m)) ''currency_code'') (\<lambda>cur.
             Inr \<lparr>row_number = n, occurred_on = when, description = text,
                  reference = take MAX_REFERENCE (py_strip r), amount = a, currency = cur,
                  direction = dir, source_column = sort (columns m)\<rparr>)))))"

fun rejection_of :: "int \<Rightarrow> exn \<Rightarrow> rejection" where
  "rejection_of n (MappingError s) = Rejection n ''row_not_mappable'' s"
| "rejection_of n (MoneyError s) = Rejection n ''row_not_mappable'' s"
| "rejection_of n e = Rejection n ''row_error'' (exn_name e)"

text \<open>The loop over the rows; it breaks after \<open>last_data_row\<close>.\<close>

fun apply_rows :: "column_mapping \<Rightarrow> int \<Rightarrow> string list list \<Rightarrow> mapping_result" where
  "apply_rows m n [] = \<lparr>movements = [], rejections = []\<rparr>"
| "apply_rows m n (row # rows) =
     (if (case last_data_row m of None \<Rightarrow> False | Some l \<Rightarrow> l < n) then \<lparr>movements = [], rejections = []\<rparr>
      else let r = apply_rows m (n + 1) rows in
        case apply_row m row n of
          Inr v \<Rightarrow> r\<lparr>movements := v # movements r\<rparr>
        | Inl e \<Rightarrow> r\<lparr>rejections := rejection_of n e # rejections r\<rparr>)"

definition apply_mapping :: "column_mapping \<Rightarrow> string list list \<Rightarrow> int option \<Rightarrow> (exn, mapping_result) result" where
  "apply_mapping m rows first_row_number =
     (let findings = validate_mapping m None in
      if findings \<noteq> []
      then Inl (MappingError (''the mapping is not publishable: ''
             @ py_join '', '' (map (\<lambda>f. f_code f @ '' '' @ f_location f) findings)))
      else Inr (apply_rows m (case first_row_number of None \<Rightarrow> first_data_row m | Some n \<Rightarrow> n) rows))"

section \<open>Dates\<close>

lemma days_table:
  "1 \<le> m \<Longrightarrow> m \<le> 12 \<Longrightarrow> DAYS_IN_MONTH ! (m - 1) =
     (if m = 2 then 29 else if m = 4 \<or> m = 6 \<or> m = 9 \<or> m = 11 then 30 else 31)"
proof -
  assume "1 \<le> m" "m \<le> 12"
  then have "m \<in> set [1..<13]" by simp
  also have "[1..<13] = [1,2,3,4,5,6,7,8,9,10,11,12::nat]" by (simp add: upt_rec)
  finally show ?thesis by (auto simp: DAYS_IN_MONTH_def)
qed

lemma iso_Inr:
  "iso y m d = Inr s \<longleftrightarrow> valid_date (Date y m d) \<and> 1900 \<le> y \<and> y \<le> 2999 \<and> s = isoformat (Date y m d)"
  using days_table [of m]
  by (auto simp: iso_def Let_def days_in_month_def is_leap_def split: if_splits)

lemma pad_as_pad_left: "pad w n = pad_left w (show_nat n)"
  by (simp add: pad_def pad_left_def)

lemma pad_facts:
  assumes "n < 10 ^ w" and "0 < w"
  shows "all_digits (pad w n)" and "length (pad w n) = w" and "digits_val (pad w n) = n"
  using assms by (simp_all add: pad_as_pad_left all_digits_pad_left digits_val_pad_left length_pad_left length_show_nat)

lemma in_lang_rlit_Seq: "in_lang u (RSeq (rlit c) r) \<longleftrightarrow> (\<exists>v. u = c # v \<and> in_lang v r)"
  by (cases u) (auto simp: rlit_def)

lemma in_lang_ISO_DATE:
  "in_lang t ISO_DATE \<longleftrightarrow> (\<exists>a b c. t = a @ CHR ''-'' # b @ CHR ''-'' # c \<and> all_digits a \<and> length a = 4
     \<and> all_digits b \<and> length b = 2 \<and> all_digits c \<and> length c = 2)"
  unfolding ISO_DATE_def in_lang_simps(4) [where r = "rtimes _ _"] in_lang_rlit_Seq in_lang_rtimes_digit
  by blast

lemma in_lang_slash_sep_Seq:
  "in_lang u (RSeq slash_sep r) \<longleftrightarrow> (\<exists>s v. u = s # v \<and> (s = CHR ''/'' \<or> s = CHR ''-'') \<and> in_lang v r)"
  by (cases u) (auto simp: slash_sep_def)

lemma in_lang_SLASH_DATE:
  "in_lang t SLASH_DATE \<longleftrightarrow> (\<exists>a s b z c. t = a @ s # b @ z # c
     \<and> all_digits a \<and> 1 \<le> length a \<and> length a \<le> 2 \<and> (s = CHR ''/'' \<or> s = CHR ''-'')
     \<and> all_digits b \<and> 1 \<le> length b \<and> length b \<le> 2 \<and> (z = CHR ''/'' \<or> z = CHR ''-'')
     \<and> all_digits c \<and> 2 \<le> length c \<and> length c \<le> 4)"
proof -
  have r: "in_lang u (rrange 1 2 rdigit) \<longleftrightarrow> all_digits u \<and> 1 \<le> length u \<and> length u \<le> 2" for u
    by (rule in_lang_rrange_digit) simp
  have q: "in_lang u (rrange 2 4 rdigit) \<longleftrightarrow> all_digits u \<and> 2 \<le> length u \<and> length u \<le> 4" for u
    by (rule in_lang_rrange_digit) simp
  have seq: "in_lang u (RSeq (rrange 1 2 rdigit) x) \<longleftrightarrow>
      (\<exists>a v. u = a @ v \<and> all_digits a \<and> 1 \<le> length a \<and> length a \<le> 2 \<and> in_lang v x)" for u x
    unfolding in_lang_simps(4) r by blast
  show ?thesis
  proof
    assume "in_lang t SLASH_DATE"
    then obtain a v where 1: "t = a @ v" "all_digits a" "1 \<le> length a" "length a \<le> 2"
      and "in_lang v (RSeq slash_sep (RSeq (rrange 1 2 rdigit) (RSeq slash_sep (rrange 2 4 rdigit))))"
      unfolding SLASH_DATE_def seq by blast
    then obtain s b w where 2: "v = s # b @ w" "s = CHR ''/'' \<or> s = CHR ''-''" "all_digits b" "1 \<le> length b" "length b \<le> 2"
      and "in_lang w (RSeq slash_sep (rrange 2 4 rdigit))"
      unfolding in_lang_slash_sep_Seq seq by blast
    then obtain z c where 3: "w = z # c" "z = CHR ''/'' \<or> z = CHR ''-''" "all_digits c \<and> 2 \<le> length c \<and> length c \<le> 4"
      unfolding in_lang_slash_sep_Seq q by blast
    show "\<exists>a s b z c. t = a @ s # b @ z # c
     \<and> all_digits a \<and> 1 \<le> length a \<and> length a \<le> 2 \<and> (s = CHR ''/'' \<or> s = CHR ''-'')
     \<and> all_digits b \<and> 1 \<le> length b \<and> length b \<le> 2 \<and> (z = CHR ''/'' \<or> z = CHR ''-'')
     \<and> all_digits c \<and> 2 \<le> length c \<and> length c \<le> 4"
      by (rule exI [of _ a], rule exI [of _ s], rule exI [of _ b], rule exI [of _ z], rule exI [of _ c])
        (use 1 2 3 in simp)
  next
    assume "\<exists>a s b z c. t = a @ s # b @ z # c
     \<and> all_digits a \<and> 1 \<le> length a \<and> length a \<le> 2 \<and> (s = CHR ''/'' \<or> s = CHR ''-'')
     \<and> all_digits b \<and> 1 \<le> length b \<and> length b \<le> 2 \<and> (z = CHR ''/'' \<or> z = CHR ''-'')
     \<and> all_digits c \<and> 2 \<le> length c \<and> length c \<le> 4"
    then obtain a s b z c where t: "t = a @ s # b @ z # c"
      and a: "all_digits a" "1 \<le> length a" "length a \<le> 2" and s: "s = CHR ''/'' \<or> s = CHR ''-''"
      and b: "all_digits b" "1 \<le> length b" "length b \<le> 2" and z: "z = CHR ''/'' \<or> z = CHR ''-''"
      and c: "all_digits c \<and> 2 \<le> length c \<and> length c \<le> 4"
      by blast
    have "in_lang (z # c) (RSeq slash_sep (rrange 2 4 rdigit))"
      unfolding in_lang_slash_sep_Seq using z q c by blast
    then have "in_lang (b @ z # c) (RSeq (rrange 1 2 rdigit) (RSeq slash_sep (rrange 2 4 rdigit)))"
      unfolding seq using b by blast
    then have "in_lang (s # b @ z # c) (RSeq slash_sep (RSeq (rrange 1 2 rdigit) (RSeq slash_sep (rrange 2 4 rdigit))))"
      unfolding in_lang_slash_sep_Seq using s by blast
    then show "in_lang t SLASH_DATE"
      unfolding SLASH_DATE_def seq using a t by blast
  qed
qed

lemma not_nl_of_digits: "all_digits c \<Longrightarrow> c \<noteq> [] \<Longrightarrow> last c \<noteq> chr_nl \<and> \<not> is_space (last c)"
proof -
  assume "all_digits c" "c \<noteq> []"
  then have "is_digit (last c)" by (simp add: all_digits_def list_all_iff)
  then show ?thesis using not_space_digit by (auto simp: is_digit_def code_def)
qed

lemma digits_no_sep: "all_digits a \<Longrightarrow> takeWhile is_digit (a @ c # r) = (if is_digit c then a @ c # takeWhile is_digit r else a)"
  by (auto simp: all_digits_def list_all_iff takeWhile_append2)

lemma seps_not_digit [simp]: "\<not> is_digit (CHR ''/'')" "\<not> is_digit (CHR ''-'')"
  by (simp_all add: is_digit_def code_def)

lemma slash_groups_of:
  assumes "all_digits a" "all_digits b" "all_digits c" "\<not> is_digit s" "\<not> is_digit z"
  shows "slash_groups (a @ s # b @ z # c) = (a, b, c)"
proof -
  have "takeWhile is_digit c = c" using assms(3) by (simp add: all_digits_def list_all_iff takeWhile_eq_all_conv)
  then show ?thesis using assms by (simp add: slash_groups_def digits_no_sep Let_def)
qed

text \<open>The two texts of a date: \<open>YYYY-MM-DD\<close> and two numbers and a year between slashes.\<close>

definition slash_text :: "nat \<Rightarrow> nat \<Rightarrow> nat \<Rightarrow> string" where
  "slash_text a b y = pad 2 a @ ''/'' @ pad 2 b @ ''/'' @ pad 4 y"

lemma parse_iso_text:
  assumes "y < 10 ^ 4" "m < 10 ^ 2" "d < 10 ^ 2"
  shows "parse_date (isoformat (Date y m d)) fmt =
    (if fmt = ''iso'' then iso y m d else Inl (MappingError (''the value is ISO but the mapping declares '' @ fmt)))"
proof -
  let ?t = "isoformat (Date y m d)"
  note facts = pad_facts [OF assms(1) zero_less_numeral] pad_facts [OF assms(2) zero_less_numeral]
    pad_facts [OF assms(3) zero_less_numeral]
  have t: "?t = pad 4 y @ CHR ''-'' # pad 2 m @ CHR ''-'' # pad 2 d" by simp
  have l: "in_lang ?t ISO_DATE" unfolding in_lang_ISO_DATE t using facts by auto
  have ne: "pad 4 y \<noteq> []" "pad 2 d \<noteq> []" using facts by (metis list.size(3) zero_neq_numeral)+
  have last: "last ?t = last (pad 2 d)" "hd ?t = hd (pad 4 y)" using ne by (simp_all add: t)
  have "\<not> is_space (hd (pad 4 y))"
    using facts ne not_space_digit by (auto simp: all_digits_def list_all_iff)
  then have strip: "py_strip ?t = ?t"
    using last not_nl_of_digits [of "pad 2 d"] facts ne by (intro py_strip_id) simp
  have m: "match_dollar ISO_DATE ?t"
    using l by (simp add: match_dollar_def rx_match_in_lang)
  have "take 4 ?t = pad 4 y" "take 2 (drop 5 ?t) = pad 2 m" "take 2 (drop 8 ?t) = pad 2 d"
    using facts by (simp_all add: t del: isoformat.simps)
  then show ?thesis
    unfolding parse_date_def Let_def strip using m facts ne by (simp add: t del: isoformat.simps)
qed

lemma slash_not_iso:
  "in_lang t ISO_DATE \<Longrightarrow> length a = 2 \<Longrightarrow> t \<noteq> a @ CHR ''/'' # r"
proof
  assume "in_lang t ISO_DATE" "length a = 2" and t: "t = a @ CHR ''/'' # r"
  then obtain y u where "t = y @ u" "all_digits y" "length y = 4" unfolding in_lang_ISO_DATE by blast
  then have "is_digit (t ! 2)" by (simp add: nth_append all_digits_def list_all_length)
  then show False using t \<open>length a = 2\<close> by (simp add: nth_append)
qed

lemma parse_slash_text:
  assumes "a < 10 ^ 2" "b < 10 ^ 2" "y < 10 ^ 4"
  shows "parse_date (slash_text a b y) fmt =
    (if fmt = ''iso'' then Inl (MappingError ''the mapping declares ISO but the value is not ISO'')
     else if fmt = ''dmy'' then iso y b a else iso y a b)"
proof -
  let ?t = "slash_text a b y"
  note facts = pad_facts [OF assms(1) zero_less_numeral] pad_facts [OF assms(2) zero_less_numeral]
    pad_facts [OF assms(3) zero_less_numeral]
  have t: "?t = pad 2 a @ CHR ''/'' # pad 2 b @ CHR ''/'' # pad 4 y" by (simp add: slash_text_def)
  have l: "in_lang ?t SLASH_DATE" unfolding in_lang_SLASH_DATE
    by (rule exI [of _ "pad 2 a"], rule exI [of _ "CHR ''/''"], rule exI [of _ "pad 2 b"],
        rule exI [of _ "CHR ''/''"], rule exI [of _ "pad 4 y"]) (use facts t in simp)
  have ne: "pad 2 a \<noteq> []" "pad 4 y \<noteq> []" using facts by (metis list.size(3) zero_neq_numeral)+
  have ends: "last ?t = last (pad 4 y)" "hd ?t = hd (pad 2 a)" using ne by (simp_all add: t)
  have "\<not> is_space (hd (pad 2 a))"
    using facts ne not_space_digit by (auto simp: all_digits_def list_all_iff)
  then have strip: "py_strip ?t = ?t"
    using ends not_nl_of_digits [of "pad 4 y"] facts ne by (intro py_strip_id) simp
  have nl: "last ?t \<noteq> chr_nl" using ends not_nl_of_digits [of "pad 4 y"] facts ne by simp
  have "\<not> in_lang ?t ISO_DATE" using slash_not_iso facts t by blast
  then have m: "\<not> match_dollar ISO_DATE ?t" "match_dollar SLASH_DATE ?t"
    using nl l by (simp_all add: match_dollar_no_nl rx_match_in_lang)
  have g: "slash_groups ?t = (pad 2 a, pad 2 b, pad 4 y)"
    unfolding t using facts by (intro slash_groups_of) simp_all
  have "?t \<noteq> []" by (simp add: t)
  then show ?thesis
    unfolding parse_date_def Let_def strip using m g facts by simp
qed

lemma iso_date_bounds:
  "valid_date (Date y m d) \<Longrightarrow> y < 10 ^ 4 \<and> m < 10 ^ 2 \<and> d < 10 ^ 2"
  by (auto simp: days_in_month_def split: if_splits)

text \<open>
  A date is read only in the convention the mapping declares, and then exactly: the ISO text of
  a calendar date from 1900 to 2999 reads back as itself and is refused under the other formats,
  while 'a/b/year' is day a of month b under \<open>dmy\<close> and day b of month a under \<open>mdy\<close>, and an error
  when that is not a day of the calendar.
\<close>

theorem dates_follow_the_declared_format:
  assumes v: "valid_date (Date y m d)" and y: "1900 \<le> y" "y \<le> 2999"
  shows "parse_date (isoformat (Date y m d)) ''iso'' = Inr (isoformat (Date y m d))
    \<and> (\<forall>fmt. fmt \<noteq> ''iso'' \<longrightarrow> \<not> is_ok (parse_date (isoformat (Date y m d)) fmt))
    \<and> parse_date (slash_text d m y) ''dmy'' = Inr (isoformat (Date y m d))
    \<and> parse_date (slash_text m d y) ''mdy'' = Inr (isoformat (Date y m d))
    \<and> \<not> is_ok (parse_date (slash_text d m y) ''iso'')
    \<and> is_ok (parse_date (slash_text d m y) ''mdy'') = valid_date (Date y d m)"
proof -
  have b: "y < 10 ^ 4" "m < 10 ^ 2" "d < 10 ^ 2" using iso_date_bounds [OF v] by simp_all
  have ok: "iso y m d = Inr (isoformat (Date y m d))" using v y by (simp only: iso_Inr)
  have sw: "is_ok (iso y d m) = valid_date (Date y d m)" unfolding is_ok_iff iso_Inr using y by blast
  show ?thesis
    using ok sw by (simp add: parse_iso_text [OF b] parse_slash_text [OF b(2,3,1)] parse_slash_text [OF b(3,2,1)]
        del: isoformat.simps valid_date.simps)
qed

theorem dates_follow_the_declared_format_witness:
  "parse_date (slash_text 4 3 2026) ''dmy'' = Inr (isoformat (Date 2026 3 4))
   \<and> is_ok (parse_date (slash_text 4 3 2026) ''mdy'') = valid_date (Date 2026 4 3)"
  using dates_follow_the_declared_format [of 2026 3 4] by (simp add: days_in_month_def)

text \<open>
  C39. Whatever cell is given, a date that comes out of \<open>parse_date\<close> is a day of the Gregorian
  calendar between 1900 and 2999, written in ISO: the table of month lengths agrees with the calendar.
\<close>

theorem parsed_dates_are_calendar_dates:
  "parse_date v fmt = Inr s \<longrightarrow>
     (\<exists>y m d. valid_date (Date y m d) \<and> 1900 \<le> y \<and> y \<le> 2999 \<and> s = isoformat (Date y m d))"
  by (auto simp: parse_date_def Let_def iso_Inr split: if_splits prod.splits simp del: isoformat.simps valid_date.simps)

theorem parsed_dates_are_calendar_dates_witness:
  "\<exists>y m d. parse_date (slash_text 29 2 2024) ''dmy'' = Inr (isoformat (Date y m d)) \<and> valid_date (Date y m d)"
proof -
  have "valid_date (Date 2024 2 29)" by (simp add: days_in_month_def is_leap_def)
  then have "iso 2024 2 29 = Inr (isoformat (Date 2024 2 29))" by (subst iso_Inr) simp
  then have "parse_date (slash_text 29 2 2024) ''dmy'' = Inr (isoformat (Date 2024 2 29))"
    by (subst parse_slash_text) simp_all
  from parsed_dates_are_calendar_dates [THEN mp, OF this] this show ?thesis by auto
qed

section \<open>Amounts\<close>

definition group_rx :: "char \<Rightarrow> rx" where "group_rx g = RSeq (rlit g) (rtimes 3 rdigit)"

definition threes :: "string list \<Rightarrow> bool" where
  "threes gs = (\<forall>x \<in> set gs. all_digits x \<and> length x = 3)"

lemma threes_simps [simp]: "threes []" "threes (x # gs) \<longleftrightarrow> all_digits x \<and> length x = 3 \<and> threes gs"
  by (auto simp: threes_def)

lemma in_lang_group: "in_lang u (group_rx g) \<longleftrightarrow> (\<exists>x. u = g # x \<and> all_digits x \<and> length x = 3)"
  by (auto simp: group_rx_def in_lang_rlit_Seq in_lang_rtimes_digit)

lemma in_lang_groups_star:
  "in_lang u (RStar (group_rx g)) \<longleftrightarrow> (\<exists>gs. threes gs \<and> u = concat (map (Cons g) gs))"
proof
  have "in_lang u q \<Longrightarrow> q = RStar (group_rx g) \<Longrightarrow> \<exists>gs. threes gs \<and> u = concat (map (Cons g) gs)" for q
  proof (induction rule: in_lang.induct)
    case (star0 r)
    then show ?case by (intro exI [of _ "[]"]) simp
  next
    case (star1 u r v)
    then obtain x gs where "u = g # x" "all_digits x" "length x = 3" "threes gs" "v = concat (map (Cons g) gs)"
      by (auto simp: in_lang_group)
    then show ?case by (intro exI [of _ "x # gs"]) simp
  qed simp_all
  then show "in_lang u (RStar (group_rx g)) \<Longrightarrow> \<exists>gs. threes gs \<and> u = concat (map (Cons g) gs)" by blast
next
  assume "\<exists>gs. threes gs \<and> u = concat (map (Cons g) gs)"
  then obtain gs where "threes gs" "u = concat (map (Cons g) gs)" by blast
  then show "in_lang u (RStar (group_rx g))"
  proof (induction gs arbitrary: u)
    case Nil
    then show ?case by (simp add: in_lang.star0)
  next
    case (Cons x gs)
    then have "in_lang (g # x) (group_rx g)" "in_lang (concat (map ((#) g) gs)) (RStar (group_rx g))"
      by (auto simp: in_lang_group)
    then show ?case using in_lang.star1 Cons.prems by fastforce
  qed
qed

text \<open>The shape of an amount: a sign, digits, groups of three behind \<open>g\<close>, a fraction behind \<open>p\<close>.\<close>

definition point_text :: "char \<Rightarrow> string \<Rightarrow> string" where
  "point_text p f = (if f = [] then [] else p # f)"

definition grouped :: "char \<Rightarrow> char \<Rightarrow> string \<Rightarrow> string \<Rightarrow> string list \<Rightarrow> string \<Rightarrow> string" where
  "grouped g p sg h gs f = sg @ h @ concat (map (Cons g) gs) @ point_text p f"

definition amount_parts :: "string \<Rightarrow> string \<Rightarrow> string list \<Rightarrow> string \<Rightarrow> bool" where
  "amount_parts sg h gs f =
     (sg \<in> {[], ''+'', ''-''} \<and> all_digits h \<and> h \<noteq> [] \<and> threes gs \<and> (gs \<noteq> [] \<longrightarrow> length h \<le> 3) \<and> all_digits f)"

lemma in_lang_point: "in_lang u (ropt (RSeq (rlit p) (rplus rdigit))) \<longleftrightarrow> (\<exists>f. u = point_text p f \<and> all_digits f)"
proof -
  have "in_lang u (ropt (RSeq (rlit p) (rplus rdigit))) \<longleftrightarrow> u = [] \<or> (\<exists>f. u = p # f \<and> f \<noteq> [] \<and> all_digits f)"
    by (auto simp: in_lang_ropt in_lang_rlit_Seq in_lang_digits_plus)
  also have "\<dots> \<longleftrightarrow> (\<exists>f. u = point_text p f \<and> all_digits f)"
    by (auto simp: point_text_def all_digits_def intro: exI [of _ "[]"] split: if_splits)
  finally show ?thesis .
qed

lemma in_lang_thousands:
  "in_lang t (thousands g p) \<longleftrightarrow> (\<exists>sg h gs f. t = grouped g p sg h gs f \<and> amount_parts sg h gs f \<and> gs \<noteq> [])"
proof
  assume "in_lang t (thousands g p)"
  then obtain sg u where 1: "t = sg @ u" "in_lang sg rsign"
    and "in_lang u (RSeq (rrange 1 3 rdigit) (RSeq (rplus (group_rx g)) (ropt (RSeq (rlit p) (rplus rdigit)))))"
    unfolding thousands_def group_rx_def [symmetric] in_lang_simps(4) [where r = rsign] by blast
  then obtain h v w where 2: "u = h @ v @ w" "in_lang h (rrange 1 3 rdigit)" "in_lang v (rplus (group_rx g))"
    "in_lang w (ropt (RSeq (rlit p) (rplus rdigit)))"
    unfolding in_lang_simps(4) by blast
  obtain x y where xy: "v = x @ y" "in_lang x (group_rx g)" "in_lang y (RStar (group_rx g))"
    using 2 unfolding rplus_def in_lang_simps(4) by blast
  then obtain k gs where "x = g # k" "all_digits k" "length k = 3" "threes gs" "y = concat (map (Cons g) gs)"
    unfolding in_lang_group in_lang_groups_star by blast
  moreover obtain f where "w = point_text p f" "all_digits f" using 2 unfolding in_lang_point by blast
  moreover have "all_digits h" "1 \<le> length h" "length h \<le> 3"
    using 2 in_lang_rrange_digit [of 1 3 h] by simp_all
  ultimately have "t = grouped g p sg h (k # gs) f \<and> amount_parts sg h (k # gs) f"
    using 1 2 xy by (auto simp: grouped_def amount_parts_def in_lang_rsign)
  then show "\<exists>sg h gs f. t = grouped g p sg h gs f \<and> amount_parts sg h gs f \<and> gs \<noteq> []" by blast
next
  assume "\<exists>sg h gs f. t = grouped g p sg h gs f \<and> amount_parts sg h gs f \<and> gs \<noteq> []"
  then obtain sg h gs f where t: "t = grouped g p sg h gs f" and a: "amount_parts sg h gs f" and ne: "gs \<noteq> []" by blast
  then obtain k ks where gs: "gs = k # ks" by (cases gs) auto
  have "in_lang sg rsign" using a by (auto simp: amount_parts_def in_lang_rsign)
  moreover have "in_lang h (rrange 1 3 rdigit)"
    using a ne by (subst in_lang_rrange_digit) (auto simp: amount_parts_def Suc_le_eq)
  moreover have "in_lang (g # k) (group_rx g)" using a gs by (auto simp: amount_parts_def in_lang_group)
  moreover have "in_lang (concat (map (Cons g) ks)) (RStar (group_rx g))"
    using a gs in_lang_groups_star by (auto simp: amount_parts_def)
  moreover have "in_lang (point_text p f) (ropt (RSeq (rlit p) (rplus rdigit)))"
    using a in_lang_point by (auto simp: amount_parts_def)
  ultimately have "in_lang (sg @ h @ ((g # k) @ concat (map (Cons g) ks)) @ point_text p f)
      (RSeq rsign (RSeq (rrange 1 3 rdigit) (RSeq (RSeq (group_rx g) (RStar (group_rx g)))
        (ropt (RSeq (rlit p) (rplus rdigit))))))"
    by (intro in_lang.seq)
  then show "in_lang t (thousands g p)"
    by (simp add: t gs grouped_def thousands_def rplus_def group_rx_def [symmetric])
qed

lemma in_lang_PLAIN_NUMBER:
  "in_lang t PLAIN_NUMBER \<longleftrightarrow>
     (\<exists>sg h f. t = sg @ h @ point_text (CHR ''.'') f \<and> sg \<in> {[], ''+'', ''-''} \<and> all_digits h \<and> h \<noteq> [] \<and> all_digits f)"
  unfolding PLAIN_NUMBER_def in_lang_simps(4) [where r = rsign] in_lang_simps(4) [where r = "rplus rdigit"]
    in_lang_point in_lang_digits_plus in_lang_rsign
  by blast

definition plain :: "char \<Rightarrow> string \<Rightarrow> bool" where
  "plain p t \<longleftrightarrow> (\<exists>sg h f. t = sg @ h @ point_text p f \<and> sg \<in> {[], ''+'', ''-''} \<and> all_digits h \<and> h \<noteq> [] \<and> all_digits f)"

text \<open>A pair of separators the format distinguishes: neither is a digit or a sign.\<close>

definition mark :: "char \<Rightarrow> bool" where "mark c = (\<not> is_digit c \<and> c \<noteq> CHR ''+'' \<and> c \<noteq> CHR ''-'')"

lemma marks [simp]: "mark (CHR ''.'')" "mark (CHR '','')"
  by (simp_all add: mark_def is_digit_def code_def)

lemma filter_digits: "all_digits x \<Longrightarrow> \<not> is_digit c \<Longrightarrow> filter (\<lambda>a. a \<noteq> c) x = x \<and> filter (\<lambda>a. a = c) x = []"
  by (induction x) (auto simp: all_digits_def)

lemma digits_not_mark: "all_digits x \<Longrightarrow> mark c \<Longrightarrow> c \<notin> set x"
  by (auto simp: all_digits_def list_all_iff mark_def)

lemma all_digits_concat: "threes gs \<Longrightarrow> all_digits (concat gs)"
  by (induction gs) (auto simp: all_digits_def)

lemma ungroup_groups:
  "threes gs \<Longrightarrow> mark g \<Longrightarrow> mark p \<Longrightarrow> p \<noteq> g \<Longrightarrow>
     remove_char g (concat (map (Cons g) gs)) = concat gs \<and> filter (\<lambda>c. c = p) (concat (map (Cons g) gs)) = []"
  by (induction gs) (auto simp: remove_char_def mark_def filter_digits)

lemma amount_parts_marks:
  assumes a: "amount_parts sg h gs f" and g: "mark g" and p: "mark p" and ne: "p \<noteq> g"
  shows "remove_char g (grouped g p sg h gs f) = sg @ h @ concat gs @ point_text p f"
    and "length (filter (\<lambda>c. c = p) (sg @ h @ concat gs @ point_text p f)) \<le> 1"
    and "g \<in> set (grouped g p sg h gs f) \<longleftrightarrow> gs \<noteq> []"
    and "g \<notin> set (sg @ h @ concat gs @ point_text p f)"
proof -
  have digs: "all_digits h" "all_digits f" "all_digits (concat gs)" "threes gs"
    using a all_digits_concat by (auto simp: amount_parts_def)
  have sg: "filter (\<lambda>c. c \<noteq> g) sg = sg" "filter (\<lambda>c. c = p) sg = []" "g \<notin> set sg"
    using a g p by (auto simp: amount_parts_def mark_def)
  have nd: "\<not> is_digit g" "\<not> is_digit p" using g p by (simp_all add: mark_def)
  have pt: "filter (\<lambda>c. c \<noteq> g) (point_text p f) = point_text p f" "length (filter (\<lambda>c. c = p) (point_text p f)) \<le> 1"
    "g \<notin> set (point_text p f)"
    using digs(2) nd ne digits_not_mark [OF digs(2) g] by (auto simp: point_text_def filter_digits)
  show "remove_char g (grouped g p sg h gs f) = sg @ h @ concat gs @ point_text p f"
    using sg pt digs nd ungroup_groups [OF digs(4) g p ne] filter_digits [OF digs(1) nd(1)]
    by (simp add: remove_char_def grouped_def)
  show "length (filter (\<lambda>c. c = p) (sg @ h @ concat gs @ point_text p f)) \<le> 1"
    using sg pt filter_digits [OF digs(1) nd(2)] filter_digits [OF digs(3) nd(2)] by simp
  have "g \<notin> set h" "g \<notin> set (concat gs)" using digits_not_mark digs g by blast+
  then show "g \<notin> set (sg @ h @ concat gs @ point_text p f)" using sg pt by simp
  then show "g \<in> set (grouped g p sg h gs f) \<longleftrightarrow> gs \<noteq> []"
    by (cases gs) (auto simp: grouped_def)
qed

lemma ungroup_plain:
  assumes g: "mark g" and p: "mark p" and ne: "p \<noteq> g" and nl: "t = [] \<or> last t \<noteq> chr_nl"
  shows "ungroup g p msg t = Inr u \<and> plain p u \<longleftrightarrow>
    (\<exists>sg h gs f. t = grouped g p sg h gs f \<and> amount_parts sg h gs f \<and> u = sg @ h @ concat gs @ point_text p f)"
proof
  assume "ungroup g p msg t = Inr u \<and> plain p u"
  then have r: "ungroup g p msg t = Inr u" and "plain p u" by simp_all
  show "\<exists>sg h gs f. t = grouped g p sg h gs f \<and> amount_parts sg h gs f \<and> u = sg @ h @ concat gs @ point_text p f"
  proof (cases "g \<in> set t")
    case True
    then have "in_lang t (thousands g p)" and u: "u = remove_char g t"
      using r nl by (auto simp: ungroup_def match_dollar_no_nl rx_match_in_lang rbind_Inr_iff split: if_splits)
    then obtain sg h gs f where "t = grouped g p sg h gs f" "amount_parts sg h gs f"
      unfolding in_lang_thousands by blast
    then show ?thesis using u amount_parts_marks(1) [OF _ g p ne] by blast
  next
    case False
    then have "u = t" using r by (simp add: ungroup_def split: if_splits)
    moreover obtain sg h f where "u = sg @ h @ point_text p f" "sg \<in> {[], ''+'', ''-''}" "all_digits h" "h \<noteq> []" "all_digits f"
      using \<open>plain p u\<close> unfolding plain_def by blast
    ultimately show ?thesis
      by (intro exI [of _ sg] exI [of _ h] exI [of _ "[]"] exI [of _ f]) (simp add: grouped_def amount_parts_def)
  qed
next
  assume "\<exists>sg h gs f. t = grouped g p sg h gs f \<and> amount_parts sg h gs f \<and> u = sg @ h @ concat gs @ point_text p f"
  then obtain sg h gs f where t: "t = grouped g p sg h gs f" and a: "amount_parts sg h gs f"
    and u: "u = sg @ h @ concat gs @ point_text p f" by blast
  note m = amount_parts_marks [OF a g p ne]
  have "plain p u" unfolding plain_def
    by (rule exI [of _ sg], rule exI [of _ "h @ concat gs"], rule exI [of _ f])
      (use a u all_digits_concat in \<open>auto simp: amount_parts_def all_digits_def\<close>)
  moreover have "ungroup g p msg t = Inr u"
  proof (cases "gs = []")
    case True
    then have "u = t" by (simp add: u t grouped_def)
    then show ?thesis using m(2,3) True unfolding ungroup_def t [symmetric] u [symmetric] by simp
  next
    case False
    then have "in_lang t (thousands g p)" using t a in_lang_thousands by blast
    then have "match_dollar (thousands g p) t" using nl by (simp add: match_dollar_no_nl rx_match_in_lang)
    then show ?thesis using m(1,2,3) False unfolding ungroup_def t [symmetric] u [symmetric] by simp
  qed
  ultimately show "ungroup g p msg t = Inr u \<and> plain p u" by blast
qed

lemma ungroup_no_group_mark: "ungroup g p msg t = Inr u \<Longrightarrow> g \<notin> set u"
  by (auto simp: ungroup_def remove_char_def split: if_splits)

lemma point_text_dot: "point_text (CHR ''.'') f = fraction_text f"
  by (simp add: point_text_def fraction_text_def)

lemma replace_digits: "all_digits x \<Longrightarrow> mark c \<Longrightarrow> replace_char c d x = x"
  by (induction x) (auto simp: replace_char_def all_digits_def mark_def)

lemma replace_plain:
  assumes "sg \<in> {[], ''+'', ''-''}" "all_digits h" "all_digits f" "mark c"
  shows "replace_char c d (sg @ h @ point_text c f) = sg @ h @ point_text d f"
proof -
  have "replace_char c d sg = sg" using assms by (auto simp: replace_char_def mark_def)
  then show ?thesis using replace_digits [OF assms(2,4)] replace_digits [OF assms(3,4)]
    by (simp add: replace_char_def point_text_def)
qed

lemma plain_replace:
  assumes "CHR ''.'' \<notin> set u"
  shows "plain (CHR ''.'') (replace_char (CHR '','') (CHR ''.'') u) \<longleftrightarrow> plain (CHR '','') u"
proof
  assume "plain (CHR '','') u"
  then show "plain (CHR ''.'') (replace_char (CHR '','') (CHR ''.'') u)"
    unfolding plain_def using replace_plain [where c = "CHR '',''"] marks(2) by blast
next
  have undo: "replace_char (CHR ''.'') (CHR '','') (replace_char (CHR '','') (CHR ''.'') u) = u"
    using assms by (induction u) (auto simp: replace_char_def)
  assume "plain (CHR ''.'') (replace_char (CHR '','') (CHR ''.'') u)"
  then have "plain (CHR '','') (replace_char (CHR ''.'') (CHR '','') (replace_char (CHR '','') (CHR ''.'') u))"
    unfolding plain_def using replace_plain [where c = "CHR ''.''"] marks(1) by (elim exE conjE) metis
  then show "plain (CHR '','') u" by (simp only: undo)
qed

lemma match_plain: "rx_match PLAIN_NUMBER u \<longleftrightarrow> plain (CHR ''.'') u"
  by (simp add: rx_match_in_lang in_lang_PLAIN_NUMBER plain_def)

lemma amount_text_last: "amount_text v = [] \<or> last (amount_text v) \<noteq> chr_nl"
proof (cases "py_strip v = []")
  case True
  then show ?thesis by (simp add: amount_text_def remove_char_def)
next
  case False
  define s where "s = py_strip v"
  have l: "\<not> is_space (last s)" "s \<noteq> []" using py_strip_ends(2) [OF False] False by (simp_all add: s_def)
  then obtain i x where s: "s = i @ [x]" "\<not> is_space x" by (metis append_butlast_last_id)
  then have "x \<noteq> CHR '' ''" "x \<noteq> CHR 0xA0" "x \<noteq> chr_nl" by (auto simp: is_space_def code_def)
  then have "last (amount_text v) = x"
    unfolding amount_text_def s_def [symmetric] remove_char_def s by simp
  then show ?thesis using \<open>x \<noteq> chr_nl\<close> by simp
qed

text \<open>The separators of a format: the one that groups thousands and the decimal point.\<close>

definition separators :: "string \<Rightarrow> char \<times> char" where
  "separators fmt = (if fmt = ''dot'' then (CHR '','', CHR ''.'') else (CHR ''.'', CHR '',''))"

lemma normalise_amount_shape:
  assumes "separators fmt = (g, p)"
  shows "normalise_amount v fmt = Inr s \<longleftrightarrow>
    (\<exists>sg h gs f. amount_text v = grouped g p sg h gs f \<and> amount_parts sg h gs f
       \<and> s = sg @ h @ concat gs @ fraction_text f)"
proof -
  let ?t = "amount_text v"
  have ne: "amount_parts sg h gs f \<Longrightarrow> grouped g p sg h gs f \<noteq> []" for sg h gs f
    by (simp add: amount_parts_def grouped_def)
  note nl = amount_text_last [of v]
  show ?thesis
  proof (cases "fmt = ''dot''")
    case True
    then have gp: "g = CHR '',''" "p = CHR ''.''" using assms by (simp_all add: separators_def)
    have "normalise_amount v fmt = Inr s \<longleftrightarrow>
        ?t \<noteq> [] \<and> ungroup (CHR '','') (CHR ''.'') ''more than one decimal point'' ?t = Inr s \<and> plain (CHR ''.'') s"
      using True by (auto simp: normalise_amount_def Let_def rbind_Inr_iff match_plain)
    then show ?thesis
      using ungroup_plain [of "CHR '',''" "CHR ''.''" ?t "''more than one decimal point''" s] nl ne
      by (simp add: gp point_text_dot) metis
  next
    case False
    then have gp: "g = CHR ''.''" "p = CHR '',''" using assms by (simp_all add: separators_def)
    let ?u = "ungroup (CHR ''.'') (CHR '','') ''more than one decimal comma'' ?t"
    have "normalise_amount v fmt = Inr s \<longleftrightarrow>
        ?t \<noteq> [] \<and> (\<exists>u. ?u = Inr u \<and> s = replace_char (CHR '','') (CHR ''.'') u \<and> plain (CHR ''.'') s)"
      using False by (cases ?u) (auto simp: normalise_amount_def Let_def match_plain)
    also have "\<dots> \<longleftrightarrow> ?t \<noteq> [] \<and> (\<exists>u. (?u = Inr u \<and> plain (CHR '','') u) \<and> s = replace_char (CHR '','') (CHR ''.'') u)"
      using plain_replace ungroup_no_group_mark [of "CHR ''.''" "CHR '',''"] by blast
    also have "\<dots> \<longleftrightarrow> (\<exists>sg h gs f. ?t = grouped g p sg h gs f \<and> amount_parts sg h gs f
       \<and> s = replace_char (CHR '','') (CHR ''.'') (sg @ h @ concat gs @ point_text p f))"
      using ungroup_plain [of "CHR ''.''" "CHR '',''" ?t "''more than one decimal comma''"] nl ne
      by (simp add: gp) metis
    also have "\<dots> \<longleftrightarrow> (\<exists>sg h gs f. ?t = grouped g p sg h gs f \<and> amount_parts sg h gs f
       \<and> s = sg @ h @ concat gs @ fraction_text f)"
    proof -
      have "replace_char (CHR '','') (CHR ''.'') (sg @ h @ concat gs @ point_text p f) = sg @ h @ concat gs @ fraction_text f"
        if "amount_parts sg h gs f" for sg h gs f
        using replace_plain [of sg "h @ concat gs" f "CHR '',''" "CHR ''.''"] that all_digits_concat
        by (auto simp: amount_parts_def all_digits_def gp point_text_dot)
      then show ?thesis by metis
    qed
    finally show ?thesis .
  qed
qed

text \<open>The number a cell denotes, read off its parts, is the money that is published.\<close>

lemma money_cell_value:
  assumes sep: "separators fmt = (g, p)"
  shows "money_cell v fmt = Inr d \<longleftrightarrow>
    (\<exists>sg h gs f. amount_text v = grouped g p sg h gs f \<and> amount_parts sg h gs f \<and> length f \<le> 12
       \<and> (let u = digits_val (h @ concat gs @ f) * 10 ^ (12 - length f) in
           u < 10 ^ 28 \<and> d = Fin (sg = ''-'') u (-12)))"
proof -
  have read: "parse_money (PStr (sg @ h @ concat gs @ fraction_text f)) ''amount'' = Inr d \<longleftrightarrow>
      length f \<le> 12 \<and> (let u = digits_val (h @ concat gs @ f) * 10 ^ (12 - length f) in
        u < 10 ^ 28 \<and> d = Fin (sg = ''-'') u (-12))" if a: "amount_parts sg h gs f" for sg h gs f
  proof -
    have digs: "all_digits (h @ concat gs)" "h @ concat gs \<noteq> []" "all_digits f" "sg \<in> {[], ''+'', ''-''}"
      using a all_digits_concat by (auto simp: amount_parts_def all_digits_def)
    note r = decimal_of_plain [OF digs refl]
    have n: "nat (12 - int (length f)) = 12 - length f" by simp
    show ?thesis
      using r by (auto simp: parse_money_reading check_money_ok Let_def n [simplified] algebra_simps)
  qed
  show ?thesis
    unfolding money_cell_def rbind_Inr_iff normalise_amount_shape [OF sep] using read by metis
qed

text \<open>
  An amount cell is published exactly when it is, blanks apart, an optional sign, digits that
  are either ungrouped or grouped in threes by the declared separator, and at most twelve decimals
  behind the declared point; what is published is then the number those digits denote, with no
  rounding, as long as it is below 10^16.
\<close>

theorem amounts_follow_the_declared_format:
  assumes "separators fmt = (g, p)"
  shows "money_cell v fmt = Inr d \<longleftrightarrow>
    (\<exists>sg h gs f. amount_text v = grouped g p sg h gs f \<and> amount_parts sg h gs f \<and> length f \<le> 12
       \<and> digits_val (h @ concat gs @ f) * 10 ^ (12 - length f) < 10 ^ 28
       \<and> d = Fin (sg = ''-'') (digits_val (h @ concat gs @ f) * 10 ^ (12 - length f)) (-12))"
  using money_cell_value [OF assms, of v d] by (simp only: Let_def)

theorem amounts_follow_the_declared_format_witness:
  "money_cell ''1.234'' ''comma'' = Inr (Fin False 1234000000000000 (-12))
   \<and> money_cell ''1.234'' ''dot'' = Inr (Fin False 1234000000000 (-12))"
proof -
  have t: "amount_text ''1.234'' = ''1.234''" by code_simp
  have digits: "all_digits ''1''" "all_digits ''234''" by (simp_all add: all_digits_def is_digit_def code_def)
  have v: "digits_val ''1234'' = 1234"
    by (simp add: digits_val_def digit_val_def code_def)
  have "money_cell ''1.234'' ''comma'' = Inr (Fin False (1234 * 10 ^ 12) (-12))"
    by (rule amounts_follow_the_declared_format [where g = "CHR ''.''" and p = "CHR '',''", THEN iffD2])
      (simp add: separators_def, rule exI [of _ "[]"], rule exI [of _ "''1''"], rule exI [of _ "[''234'']"], rule exI [of _ "[]"],
        use digits v t in \<open>simp add: grouped_def amount_parts_def point_text_def all_digits_def\<close>)
  moreover have "money_cell ''1.234'' ''dot'' = Inr (Fin False (1234 * 10 ^ 9) (-12))"
    by (rule amounts_follow_the_declared_format [where g = "CHR '',''" and p = "CHR ''.''", THEN iffD2])
      (simp add: separators_def, rule exI [of _ "[]"], rule exI [of _ "''1''"], rule exI [of _ "[]"], rule exI [of _ "''234''"],
        use digits v t in \<open>simp add: grouped_def amount_parts_def point_text_def\<close>)
  ultimately show ?thesis by simp
qed

section \<open>Rows\<close>

lemma validated:
  assumes "validate_mapping m None = []"
  shows "date_format m \<in> set DATE_FORMATS" "decimal_format m \<in> set DECIMAL_FORMATS"
    "direction_mode m \<in> set DIRECTION_MODES" "\<exists>c. parse_currency (PStr (mapping_currency m)) ''currency_code'' = Inr c"
    "\<forall>i \<in> snd ` set (columns m). 0 \<le> i" "validate_direction m = []"
  using assms by (auto simp: validate_mapping_def split: if_splits sum.splits)

lemma column_of_nonneg: "validate_mapping m None = [] \<Longrightarrow> column_of m name = Some i \<Longrightarrow> 0 \<le> i"
  using validated(5) [of m] by (force simp: column_of_def dest: map_of_SomeD)

lemma cell_total: "validate_mapping m None = [] \<Longrightarrow> \<exists>s. cell row (column_of m name) = Inr s"
  using column_of_nonneg [of m name] by (auto simp: cell_def split: option.splits)

lemma parse_currency_supported:
  "parse_currency v field = Inr c \<Longrightarrow> c \<in> set SUPPORTED_CURRENCIES"
  by (auto simp: parse_currency_def Let_def split: pyval.splits if_splits)

lemma dec_abs_money: "is_money d \<Longrightarrow> dec_abs d = Fin False (nat \<bar>units d\<bar>) (-12)"
proof -
  assume "is_money d"
  then obtain s c where d: "d = Fin s c (-12)" "c < 10 ^ 28" by (rule is_money_cases)
  then have "num_digits c \<le> 28" by (subst num_digits_le) simp_all
  then show ?thesis by (simp add: d dec_round_def dec_prec_def signed_def)
qed

lemma money_sign: "is_money d \<Longrightarrow> dec_lt0 d \<longleftrightarrow> units d < 0" "is_money d \<Longrightarrow> dec_eq d ZERO \<longleftrightarrow> units d = 0"
  using is_exact_zero_money [of d] by (cases d; auto simp: signed_def is_exact_zero_def)+

lemma money_cell_is_money: "money_cell v fmt = Inr d \<Longrightarrow> is_money d"
  by (auto simp: money_cell_def rbind_Inr_iff dest: parse_money_is_money)

text \<open>What the amount and direction of a row are, mode by mode.\<close>

definition signed_units :: "decimal \<Rightarrow> string \<Rightarrow> int" where
  "signed_units a dir = (if dir = ''inflow'' then units a else - units a)"

lemma parse_direction_DIRECTIONS: "parse_direction v = Inr d \<Longrightarrow> d \<in> set DIRECTIONS"
  by (auto simp: parse_direction_def DIRECTIONS_def Let_def split: if_splits)

lemma amount_and_direction_facts:
  assumes "amount_and_direction m row = Inr (a, dir)"
  shows "is_money a" and "0 \<le> units a" and "dir \<in> set DIRECTIONS"
proof -
  have "is_money a \<and> 0 \<le> units a \<and> dir \<in> set DIRECTIONS"
    using assms
    by (auto simp: amount_and_direction_def rbind_Inr_iff money_sign DIRECTIONS_def dec_abs_money signed_def
        dest!: money_cell_is_money parse_direction_DIRECTIONS split: if_splits)
      (use units_bound in \<open>force simp: nat_less_iff le_nat_iff\<close>)+
  then show "is_money a" and "0 \<le> units a" and "dir \<in> set DIRECTIONS" by blast+
qed

lemma apply_row_Inr:
  assumes "apply_row m row n = Inr v"
  obtains c d r where "cell row (column_of m ''occurred_on'') = Inr c" "parse_date c (date_format m) = Inr (occurred_on v)"
    "cell row (column_of m ''description'') = Inr d" "description v = take MAX_DESCRIPTION (py_strip d)" "description v \<noteq> []"
    "cell row (column_of m ''reference'') = Inr r" "reference v = take MAX_REFERENCE (py_strip r)"
    "amount_and_direction m row = Inr (amount v, direction v)" "\<not> dec_eq (amount v) ZERO"
    "parse_currency (PStr (mapping_currency m)) ''currency_code'' = Inr (currency v)"
    "row_number v = n" "source_column v = sort (columns m)"
  using assms by (auto simp: apply_row_def Let_def rbind_Inr_iff split: if_splits prod.splits)

text \<open>
  A published movement is well formed whatever the row was: its amount is an exact, strictly
  positive money value, its direction and currency are declared ones, its date is a day of the
  calendar and its description is not blank and fits its column.
\<close>

theorem published_movements_are_well_formed:
  assumes "apply_row m row n = Inr v"
  shows "row_number v = n \<and> is_money (amount v) \<and> 0 < units (amount v)
    \<and> direction v \<in> set DIRECTIONS \<and> currency v \<in> set SUPPORTED_CURRENCIES
    \<and> description v \<noteq> [] \<and> length (description v) \<le> 500 \<and> length (reference v) \<le> 120
    \<and> (\<exists>y k d. valid_date (Date y k d) \<and> occurred_on v = isoformat (Date y k d))"
proof -
  have date: "parse_date c f = Inr s \<Longrightarrow> \<exists>y k d. valid_date (Date y k d) \<and> s = isoformat (Date y k d)" for c f s
    by (auto simp: parse_date_def Let_def iso_Inr split: if_splits prod.splits simp del: isoformat.simps valid_date.simps)
  show ?thesis
    using assms
  proof (rule apply_row_Inr)
    fix c d r
    assume "parse_date c (date_format m) = Inr (occurred_on v)"
      and "description v = take MAX_DESCRIPTION (py_strip d)" "description v \<noteq> []"
      and "reference v = take MAX_REFERENCE (py_strip r)" "row_number v = n"
      and a: "amount_and_direction m row = Inr (amount v, direction v)" "\<not> dec_eq (amount v) ZERO"
      and "parse_currency (PStr (mapping_currency m)) ''currency_code'' = Inr (currency v)"
    then show ?thesis
      using date amount_and_direction_facts [OF a(1)] money_sign(2) parse_currency_supported
      by (simp add: MAX_DESCRIPTION_def MAX_REFERENCE_def order_less_le)
  qed
qed

definition sample_mapping :: column_mapping where
  "sample_mapping = \<lparr>columns = [(''occurred_on'', 0), (''description'', 1), (''amount'', 2)], date_format = ''dmy'',
     decimal_format = ''comma'', mapping_currency = ''COP'', direction_mode = ''signed_amount'',
     header_row = 1, first_data_row = 2, last_data_row = None\<rparr>"

lemma sample_amount: "money_cell ''-12,5'' ''comma'' = Inr (Fin True (125 * 10 ^ 11) (-12))"
proof (rule money_cell_value [where g = "CHR ''.''" and p = "CHR '',''", THEN iffD2])
  have "amount_text ''-12,5'' = ''-12,5''" by code_simp
  moreover have "all_digits ''12''" "all_digits ''5''" "digits_val ''125'' = 125"
    by (simp_all add: all_digits_def is_digit_def code_def digits_val_def digit_val_def)
  ultimately show "\<exists>sg h gs f. amount_text ''-12,5'' = grouped (CHR ''.'') (CHR '','') sg h gs f \<and> amount_parts sg h gs f
     \<and> length f \<le> 12 \<and> (let u = digits_val (h @ concat gs @ f) * 10 ^ (12 - length f) in
         u < 10 ^ 28 \<and> Fin True (125 * 10 ^ 11) (- 12) = Fin (sg = ''-'') u (-12))"
    by (intro exI [of _ "''-''"] exI [of _ "''12''"] exI [of _ "[]"] exI [of _ "''5''"])
      (simp add: grouped_def amount_parts_def point_text_def Let_def)
qed (simp add: separators_def)

lemma sample_row:
  "apply_row sample_mapping [slash_text 5 3 2024, '' Pago '', ''-12,5''] 2 = Inr
     \<lparr>row_number = 2, occurred_on = isoformat (Date 2024 3 5), description = ''Pago'', reference = [],
      amount = Fin False (125 * 10 ^ 11) (-12), currency = ''COP'', direction = ''outflow'',
      source_column = [(''amount'', 2), (''description'', 1), (''occurred_on'', 0)]\<rparr>"
proof -
  have "iso 2024 3 5 = Inr (isoformat (Date 2024 3 5))" by (subst iso_Inr) (simp add: days_in_month_def)
  then have date: "parse_date (slash_text 5 3 2024) ''dmy'' = Inr (isoformat (Date 2024 3 5))"
    by (subst parse_slash_text) simp_all
  have strip: "py_strip ''-12,5'' = ''-12,5''" "py_strip '' Pago '' = ''Pago''" by code_simp+
  have "dec_abs (Fin True (125 * 10 ^ 11) (-12)) = Fin False (125 * 10 ^ 11) (-12)"
    by (subst dec_abs_money) (simp_all add: signed_def)
  moreover have "parse_currency (PStr ''COP'') ''currency_code'' = Inr ''COP''" by code_simp
  moreover have "sort [(''occurred_on'', 0), (''description'', 1), (''amount'', 2)] =
      [(''amount'', 2::int), (''description'', 1), (''occurred_on'', 0)]" by code_simp
  ultimately show ?thesis
    using date strip sample_amount
    by (simp add: apply_row_def sample_mapping_def column_of_def cell_def amount_and_direction_def MAX_DESCRIPTION_def
        MAX_REFERENCE_def ZERO_def dec_align_def signed_def del: isoformat.simps)
qed

theorem published_movements_are_well_formed_witness:
  "\<exists>v. apply_row sample_mapping [slash_text 5 3 2024, '' Pago '', ''-12,5''] 2 = Inr v \<and> 0 < units (amount v)
     \<and> direction v \<in> set DIRECTIONS"
  using published_movements_are_well_formed [OF sample_row] sample_row by blast

text \<open>Which errors a row can end in: the reasons of the mapping and of money, or the context overflow.\<close>

fun row_reason :: "exn \<Rightarrow> bool" where
  "row_reason (MappingError s) = True"
| "row_reason (MoneyError s) = True"
| "row_reason InvalidOperation = True"
| "row_reason _ = False"

lemma iso_reason: "iso y k d = Inl e \<Longrightarrow> row_reason e"
  by (auto simp: iso_def Let_def split: if_splits)

lemma parse_date_reason: "parse_date v f = Inl e \<Longrightarrow> row_reason e"
  by (auto simp: parse_date_def Let_def iso_reason split: if_splits prod.splits)

lemma ungroup_reason: "ungroup g p c t = Inl e \<Longrightarrow> row_reason e"
  by (auto simp: ungroup_def split: if_splits)

lemma normalise_amount_reason: "normalise_amount v f = Inl e \<Longrightarrow> row_reason e"
proof -
  have comma: "map_sum id f (ungroup g p c t) = Inl e \<Longrightarrow> row_reason e" for f :: "string \<Rightarrow> string" and g p c t
    by (cases "ungroup g p c t") (auto dest: ungroup_reason)
  assume "normalise_amount v f = Inl e"
  then show ?thesis
    by (auto simp: normalise_amount_def Let_def rbind_Inl_iff dest: ungroup_reason comma split: if_splits)
qed

lemma parse_money_reason: "parse_money (PStr t) field = Inl e \<Longrightarrow> row_reason e"
proof -
  have check: "check_money v field d = Inl e \<Longrightarrow> row_reason e" for v d
    by (cases d) (auto simp: check_money_Fin quantize_money_def split: if_splits option.splits
        simp del: check_money.simps(1) simp: of_option_def)
  assume "parse_money (PStr t) field = Inl e"
  then show ?thesis using check by (auto simp: parse_money_def split: option.splits)
qed

lemma money_cell_reason: "money_cell v f = Inl e \<Longrightarrow> row_reason e"
  by (auto simp: money_cell_def rbind_Inl_iff dest: normalise_amount_reason parse_money_reason)

lemma parse_direction_reason: "parse_direction v = Inl e \<Longrightarrow> row_reason e"
  by (auto simp: parse_direction_def Let_def split: if_splits)

lemma amount_and_direction_reason:
  assumes ok: "validate_mapping m None = []" and e: "amount_and_direction m row = Inl e"
  shows "row_reason e"
proof -
  obtain d c a w where cells: "cell row (column_of m ''debit'') = Inr d" "cell row (column_of m ''credit'') = Inr c"
    "cell row (column_of m ''amount'') = Inr a" "cell row (column_of m ''direction'') = Inr w"
    using cell_total [OF ok] by metis
  show ?thesis
    using e by (auto simp: amount_and_direction_def rbind_Inl_iff cells
        dest: money_cell_reason parse_direction_reason split: if_splits)
qed

lemma apply_row_reason:
  assumes ok: "validate_mapping m None = []" and e: "apply_row m row n = Inl e"
  shows "row_reason e"
proof -
  obtain o' d r where cells: "cell row (column_of m ''occurred_on'') = Inr o'"
    "cell row (column_of m ''description'') = Inr d" "cell row (column_of m ''reference'') = Inr r"
    using cell_total [OF ok] by metis
  obtain cur where "parse_currency (PStr (mapping_currency m)) ''currency_code'' = Inr cur"
    using validated(4) [OF ok] by blast
  then show ?thesis
    using e by (auto simp: apply_row_def rbind_Inl_iff cells Let_def
        dest: parse_date_reason amount_and_direction_reason [OF ok] split: if_splits)
qed

section \<open>Files\<close>

text \<open>How many of the rows from number \<open>n\<close> on the mapping covers.\<close>

definition rows_in_range :: "column_mapping \<Rightarrow> int \<Rightarrow> nat \<Rightarrow> nat" where
  "rows_in_range m n k = (case last_data_row m of None \<Rightarrow> k | Some l \<Rightarrow> min k (nat (l - n + 1)))"

lemma rows_in_range_Suc:
  "rows_in_range m n (Suc k) =
     (if (case last_data_row m of None \<Rightarrow> False | Some l \<Rightarrow> l < n) then 0 else Suc (rows_in_range m (n + 1) k))"
  by (auto simp: rows_in_range_def nat_eq_iff split: option.splits)

lemma map_rows_Cons:
  "map (\<lambda>i. F ((row # rows) ! i) (n + int i)) [0..<Suc k] = F row n # map (\<lambda>i. F (rows ! i) (n + 1 + int i)) [0..<k]"
  by (simp add: upt_conv_Cons map_Suc_upt [symmetric] algebra_simps del: upt_Suc)

lemma apply_rows_movements:
  "movements (apply_rows m n rows) =
     concat (map (\<lambda>i. case apply_row m (rows ! i) (n + int i) of Inr v \<Rightarrow> [v] | Inl e \<Rightarrow> [])
       [0..<rows_in_range m n (length rows)])"
proof (induction rows arbitrary: n)
  case Nil
  then show ?case by (simp add: rows_in_range_def split: option.splits)
next
  case (Cons row rows)
  show ?case
  proof (cases "case last_data_row m of None \<Rightarrow> False | Some l \<Rightarrow> l < n")
    case True
    then show ?thesis by (simp add: rows_in_range_Suc)
  next
    case False
    show ?thesis
      using False Cons.IH [of "n + 1"]
        map_rows_Cons [of "\<lambda>r k. case apply_row m r k of Inr v \<Rightarrow> [v] | Inl e \<Rightarrow> []" row rows n]
      by (simp add: rows_in_range_Suc Let_def split: sum.splits del: upt_Suc)
  qed
qed

lemma apply_rows_rejections:
  "rejections (apply_rows m n rows) =
     concat (map (\<lambda>i. case apply_row m (rows ! i) (n + int i) of Inr v \<Rightarrow> [] | Inl e \<Rightarrow> [rejection_of (n + int i) e])
       [0..<rows_in_range m n (length rows)])"
proof (induction rows arbitrary: n)
  case Nil
  then show ?case by (simp add: rows_in_range_def split: option.splits)
next
  case (Cons row rows)
  show ?case
  proof (cases "case last_data_row m of None \<Rightarrow> False | Some l \<Rightarrow> l < n")
    case True
    then show ?thesis by (simp add: rows_in_range_Suc)
  next
    case False
    show ?thesis
      using False Cons.IH [of "n + 1"]
        map_rows_Cons [of "\<lambda>r k. case apply_row m r k of Inr v \<Rightarrow> [] | Inl e \<Rightarrow> [rejection_of k e]" row rows n]
      by (simp add: rows_in_range_Suc Let_def split: sum.splits del: upt_Suc)
  qed
qed

lemma partition_rows:
  fixes f :: "nat \<Rightarrow> (exn, movement) result"
  assumes "\<And>i v. f i = Inr v \<Longrightarrow> row_number v = num i" and "\<And>i e. f i = Inl e \<Longrightarrow> rejected_row (rej i e) = num i"
  shows "map row_number (concat (map (\<lambda>i. case f i of Inr v \<Rightarrow> [v] | Inl e \<Rightarrow> []) xs)) = map num (filter (\<lambda>i. is_ok (f i)) xs)"
    and "map rejected_row (concat (map (\<lambda>i. case f i of Inr v \<Rightarrow> [] | Inl e \<Rightarrow> [rej i e]) xs)) = map num (filter (\<lambda>i. \<not> is_ok (f i)) xs)"
  by (induction xs) (use assms in \<open>auto split: sum.splits simp: is_ok_def\<close>)

lemma rejected_row_rejection_of [simp]: "rejected_row (rejection_of n e) = n"
  by (cases e) simp_all

lemma apply_mapping_Inr:
  "apply_mapping m rows first = Inr r \<longleftrightarrow> validate_mapping m None = []
     \<and> r = apply_rows m (case first of None \<Rightarrow> first_data_row m | Some n \<Rightarrow> n) rows"
  by (auto simp: apply_mapping_def Let_def)

text \<open>
  C37. No row is lost and none is counted twice: a file that is applied splits the rows of the
  declared range, in order and with their file numbers, into those that are published and those
  that are rejected. A row of a validated mapping is rejected for a stated reason, or because its
  amount does not fit the decimal context; it never fails otherwise.
\<close>

theorem every_row_is_published_or_rejected:
  assumes r: "apply_mapping m rows first = Inr r"
    and start: "start = (case first of None \<Rightarrow> first_data_row m | Some n \<Rightarrow> n)"
    and k: "k = rows_in_range m start (length rows)"
  shows "map row_number (movements r) =
        map (\<lambda>i. start + int i) (filter (\<lambda>i. is_ok (apply_row m (rows ! i) (start + int i))) [0..<k])
    \<and> map rejected_row (rejections r) =
        map (\<lambda>i. start + int i) (filter (\<lambda>i. \<not> is_ok (apply_row m (rows ! i) (start + int i))) [0..<k])
    \<and> length (movements r) + length (rejections r) = k
    \<and> (\<forall>j \<in> set (rejections r). rejected_code j = ''row_not_mappable'' \<or> rejected_detail j = ''InvalidOperation'')"
proof -
  have ok: "validate_mapping m None = []" and rr: "r = apply_rows m start rows"
    using r start by (simp_all add: apply_mapping_Inr)
  let ?f = "\<lambda>i. apply_row m (rows ! i) (start + int i)"
  have num: "?f i = Inr v \<Longrightarrow> row_number v = start + int i" for i v by (rule apply_row_Inr)
  note part = partition_rows [of ?f "\<lambda>i. start + int i" "\<lambda>i. rejection_of (start + int i)", OF num rejected_row_rejection_of]
  have mv: "map row_number (movements r) = map (\<lambda>i. start + int i) (filter (\<lambda>i. is_ok (?f i)) [0..<k])"
    unfolding rr apply_rows_movements k [symmetric] by (rule part(1))
  have rj: "map rejected_row (rejections r) = map (\<lambda>i. start + int i) (filter (\<lambda>i. \<not> is_ok (?f i)) [0..<k])"
    unfolding rr apply_rows_rejections k [symmetric] by (rule part(2))
  have "length (movements r) + length (rejections r) = k"
    using arg_cong [OF mv, of length] arg_cong [OF rj, of length] sum_length_filter_compl [of "\<lambda>i. is_ok (?f i)" "[0..<k]"]
    by simp
  moreover have "rejected_code j = ''row_not_mappable'' \<or> rejected_detail j = ''InvalidOperation''"
    if j: "j \<in> set (rejections r)" for j
  proof -
    obtain i where "j \<in> set (case ?f i of Inr v \<Rightarrow> [] | Inl e \<Rightarrow> [rejection_of (start + int i) e])"
      using j unfolding rr apply_rows_rejections by auto
    then obtain e where e: "?f i = Inl e" "j = rejection_of (start + int i) e" by (cases "?f i") auto
    from apply_row_reason [OF ok e(1)] show ?thesis by (cases e) (simp_all add: e(2))
  qed
  ultimately show ?thesis using mv rj by blast
qed

lemma sample_mapping_valid: "validate_mapping sample_mapping None = []"
  by code_simp

theorem every_row_is_published_or_rejected_witness:
  "\<exists>r. apply_mapping sample_mapping [[slash_text 5 3 2024, '' Pago '', ''-12,5''], []] None = Inr r
     \<and> length (movements r) + length (rejections r) = 2"
proof -
  let ?rows = "[[slash_text 5 3 2024, '' Pago '', ''-12,5''], []]"
  obtain r where r: "apply_mapping sample_mapping ?rows None = Inr r"
    by (simp add: apply_mapping_def sample_mapping_valid)
  from every_row_is_published_or_rejected [OF r refl refl] r show ?thesis
    by (auto simp: rows_in_range_def sample_mapping_def)
qed

text \<open>
  The direction of a movement is the one the mapping declares, never a guess: with two columns it
  is the column that holds the amount, with a signed column the sign becomes the direction and the
  signed total of the file is kept, with an explicit column the word decides and a sign is refused.
\<close>

theorem direction_follows_the_declared_mode:
  assumes v: "apply_row m row n = Inr v" and ok: "validate_mapping m None = []"
    and cells: "cell row (column_of m ''debit'') = Inr debit" "cell row (column_of m ''credit'') = Inr credit"
      "cell row (column_of m ''amount'') = Inr raw" "cell row (column_of m ''direction'') = Inr word"
  shows "if direction_mode m = ''debit_credit_columns''
    then (py_strip debit = []) \<noteq> (py_strip credit = [])
      \<and> money_cell (if py_strip debit = [] then py_strip credit else py_strip debit) (decimal_format m) = Inr (amount v)
      \<and> (direction v = ''outflow'' \<longleftrightarrow> py_strip debit \<noteq> [])
    else if direction_mode m = ''signed_amount''
    then (\<exists>a. money_cell (py_strip raw) (decimal_format m) = Inr a \<and> signed_units (amount v) (direction v) = units a)
    else money_cell (py_strip raw) (decimal_format m) = Inr (amount v) \<and> parse_direction word = Inr (direction v)"
proof -
  have a: "amount_and_direction m row = Inr (amount v, direction v)" using v by (rule apply_row_Inr)
  have sg: "dec_lt0 x \<Longrightarrow> signed_units (dec_abs x) ''outflow'' = units x"
    "\<not> dec_lt0 x \<Longrightarrow> signed_units (dec_abs x) ''inflow'' = units x"
    if "money_cell t f = Inr x" for t f x
    using money_cell_is_money [OF that] by (simp_all add: signed_units_def dec_abs_money money_sign signed_def)
  show ?thesis
    using a by (auto simp: amount_and_direction_def rbind_Inr_iff cells split: if_splits) (metis sg)+
qed

theorem direction_follows_the_declared_mode_witness:
  "\<exists>v a. apply_row sample_mapping [slash_text 5 3 2024, '' Pago '', ''-12,5''] 2 = Inr v
     \<and> money_cell (py_strip ''-12,5'') ''comma'' = Inr a \<and> signed_units (amount v) (direction v) = units a"
proof -
  have cells: "cell [slash_text 5 3 2024, '' Pago '', ''-12,5''] (column_of sample_mapping ''debit'') = Inr []"
    "cell [slash_text 5 3 2024, '' Pago '', ''-12,5''] (column_of sample_mapping ''credit'') = Inr []"
    "cell [slash_text 5 3 2024, '' Pago '', ''-12,5''] (column_of sample_mapping ''amount'') = Inr ''-12,5''"
    "cell [slash_text 5 3 2024, '' Pago '', ''-12,5''] (column_of sample_mapping ''direction'') = Inr []"
    by (simp_all add: cell_def column_of_def sample_mapping_def)
  have mode: "direction_mode sample_mapping = ''signed_amount''" "decimal_format sample_mapping = ''comma''"
    by (simp_all add: sample_mapping_def)
  from direction_follows_the_declared_mode [OF sample_row sample_mapping_valid cells] mode sample_row
  show ?thesis by auto
qed

end
