(* ===== verification/CellRef.thy ===== *)
theory CellRef
  imports PyValue
begin

text \<open>
  The coordinate part of \<open>fincilia_contracts/spreadsheet.py\<close>: column letters, A1 references and
  their reading. The lemmas show that writing and reading a reference are inverse.
\<close>

section \<open>The module\<close>

definition MAX_XLSX_COLUMNS :: nat where "MAX_XLSX_COLUMNS = 512"

text \<open>The loop of \<open>column_letters\<close>; its state is \<open>current\<close> and the letters so far.\<close>

function letters_loop :: "nat \<Rightarrow> string \<Rightarrow> string" where
  "letters_loop current letters =
     (if current = 0 then letters
      else letters_loop ((current - 1) div 26) (char_of (65 + (current - 1) mod 26) # letters))"
  by pat_completeness auto
termination by (relation "measure fst") auto

declare letters_loop.simps [simp del]

definition column_letters :: "int \<Rightarrow> (exn, string) result" where
  "column_letters n =
     (if \<not> (1 \<le> n \<and> n \<le> 16384) then Inl (SpreadsheetError ''a spreadsheet column is outside XLSX bounds'')
      else Inr (letters_loop (nat n) []))"

definition cell_a1 :: "int \<Rightarrow> int \<Rightarrow> (exn, string) result" where
  "cell_a1 row_number column_number =
     (if row_number < 1 then Inl (SpreadsheetError ''a spreadsheet row is 1-based'')
      else rbind (column_letters column_number) (\<lambda>l. Inr (l @ show_int row_number)))"

text \<open>\<open>^([A-Z]{1,3})([1-9][0-9]*)$\<close>, matched in full; \<open>int\<close> refuses more than 4300 digits.\<close>

definition CELL_REF :: rx where
  "CELL_REF = RSeq (rrange 1 3 (RCls is_upper_ascii))
     (RSeq (RCls (\<lambda>c. is_digit c \<and> c \<noteq> CHR ''0'')) (RStar rdigit))"

definition letters_val :: "string \<Rightarrow> nat" where
  "letters_val s = foldl (\<lambda>a c. a * 26 + (code c - 64)) 0 s"

definition column_number :: "string \<Rightarrow> (exn, nat \<times> nat) result" where
  "column_number ref =
     (if \<not> rx_match CELL_REF ref then Inl (SpreadsheetError ''a worksheet cell has an invalid A1 reference'')
      else let c = letters_val (takeWhile is_upper_ascii ref); r = digits_val (dropWhile is_upper_ascii ref) in
        if 4300 < length (dropWhile is_upper_ascii ref)
        then Inl (ValueError ''Exceeds the limit (4300 digits) for integer string conversion'')
        else if MAX_XLSX_COLUMNS < c then Inl (SpreadsheetError ''a worksheet exceeds the supported column ceiling'')
        else if 1048576 < r then Inl (SpreadsheetError ''a worksheet row is outside XLSX bounds'')
        else Inr (c, r))"

section \<open>Letters\<close>

lemma letters_loop_append: "letters_loop n acc = letters_loop n [] @ acc"
proof (induction n arbitrary: acc rule: less_induct)
  case (less n)
  show ?case
  proof (cases "n = 0")
    case True
    then show ?thesis by (simp add: letters_loop.simps)
  next
    case False
    then have "(n - 1) div 26 < n" by simp
    then show ?thesis
      using False less.IH [of "(n - 1) div 26" "char_of (65 + (n - 1) mod 26) # acc"]
        less.IH [of "(n - 1) div 26" "[char_of (65 + (n - 1) mod 26)]"]
      by (simp add: letters_loop.simps [of n])
  qed
qed

lemma letters_loop_pos:
  "0 < n \<Longrightarrow> letters_loop n [] = letters_loop ((n - 1) div 26) [] @ [char_of (65 + (n - 1) mod 26)]"
  using letters_loop_append [of "(n - 1) div 26" "[char_of (65 + (n - 1) mod 26)]"]
  by (simp add: letters_loop.simps [of n])

lemma letters_loop_0 [simp]: "letters_loop 0 acc = acc"
  by (simp add: letters_loop.simps)

lemma letters_val_snoc: "letters_val (s @ [c]) = letters_val s * 26 + (code c - 64)"
  by (simp add: letters_val_def)

lemma code_letter: "code (char_of (65 + k mod 26)) = 65 + k mod 26"
proof -
  have "k mod 26 < 26" by simp
  then have "65 + k mod 26 < 256" by linarith
  then show ?thesis by (rule code_char_of)
qed

lemma letters_val_letters_loop: "letters_val (letters_loop n []) = n"
proof (induction n rule: less_induct)
  case (less n)
  show ?case
  proof (cases "n = 0")
    case True
    then show ?thesis by (simp add: letters_val_def)
  next
    case False
    then have "letters_val (letters_loop ((n - 1) div 26) []) = (n - 1) div 26" using less.IH by simp
    moreover have "code (char_of (65 + (n - 1) mod 26)) - 64 = (n - 1) mod 26 + 1"
      by (simp add: code_letter)
    ultimately show ?thesis
      using False letters_loop_pos [of n] div_mult_mod_eq [of "n - 1" 26] by (simp add: letters_val_snoc)
  qed
qed

lemma upper_letters_loop: "list_all is_upper_ascii (letters_loop n [])"
proof (induction n rule: less_induct)
  case (less n)
  show ?case
  proof (cases "n = 0")
    case False
    have "(n - 1) mod 26 < 26" by simp
    then have "is_upper_ascii (char_of (65 + (n - 1) mod 26))" unfolding is_upper_ascii_def code_letter by simp
    then show ?thesis using False less.IH [of "(n - 1) div 26"] letters_loop_pos [of n] by simp
  qed simp
qed

lemma letters_loop_letters_val:
  "list_all is_upper_ascii s \<Longrightarrow> letters_loop (letters_val s) [] = s"
proof (induction s rule: rev_induct)
  case Nil
  then show ?case by (simp add: letters_val_def)
next
  case (snoc c s)
  then have c: "65 \<le> code c" "code c \<le> 90" and s: "letters_loop (letters_val s) [] = s"
    by (simp_all add: is_upper_ascii_def)
  define v where "v = letters_val s * 26 + (code c - 64)"
  have v: "0 < v" "v - 1 = letters_val s * 26 + (code c - 65)" using c by (simp_all add: v_def)
  have "code c - 65 < 26" using c by simp
  then have d: "(v - 1) div 26 = letters_val s" "(v - 1) mod 26 = code c - 65" unfolding v(2) by simp_all
  have "char_of (65 + (code c - 65)) = c" using c by (simp add: code_def)
  then have "letters_loop v [] = s @ [c]" using letters_loop_pos [OF v(1)] s by (simp only: d)
  then show ?case by (simp add: letters_val_snoc v_def)
qed

lemma length_letters_loop: "0 < n \<Longrightarrow> n \<le> 16384 \<Longrightarrow> 1 \<le> length (letters_loop n []) \<and> length (letters_loop n []) \<le> 3"
proof -
  assume n: "0 < n" "n \<le> 16384"
  define a where "a = (n - 1) div 26"
  define b where "b = (a - 1) div 26"
  have a: "a \<le> 630" using n by (simp add: a_def)
  have b: "b \<le> 24" using a by (simp add: b_def)
  have "length (letters_loop b []) \<le> 1" using b letters_loop_pos [of b] by (cases "b = 0") simp_all
  then have "length (letters_loop a []) \<le> 2" using letters_loop_pos [of a] by (cases "a = 0") (simp_all add: b_def)
  then show ?thesis using letters_loop_pos [OF n(1)] by (simp add: a_def)
qed

section \<open>References\<close>

lemma in_lang_CELL_REF:
  "in_lang t CELL_REF \<longleftrightarrow> (\<exists>l c r. t = l @ c # r \<and> list_all is_upper_ascii l \<and> 1 \<le> length l \<and> length l \<le> 3
     \<and> is_digit c \<and> c \<noteq> CHR ''0'' \<and> all_digits r)"
proof -
  have l: "in_lang l (rrange 1 3 (RCls is_upper_ascii)) \<longleftrightarrow> list_all is_upper_ascii l \<and> 1 \<le> length l \<and> length l \<le> 3" for l
    by (rule in_lang_class_range) simp
  have r: "in_lang u (RSeq (RCls (\<lambda>c. is_digit c \<and> c \<noteq> CHR ''0'')) (RStar rdigit)) \<longleftrightarrow>
      (\<exists>c r. u = c # r \<and> is_digit c \<and> c \<noteq> CHR ''0'' \<and> all_digits r)" for u
    by (cases u) (auto simp: in_lang_digits_star)
  show ?thesis
    unfolding CELL_REF_def in_lang_simps(4) [where r = "rrange _ _ _"] l r by blast
qed

lemma upper_not_digit: "is_digit c \<Longrightarrow> \<not> is_upper_ascii c"
  by (simp add: is_digit_def is_upper_ascii_def)

lemma split_ref:
  assumes "list_all is_upper_ascii l" "is_digit c"
  shows "takeWhile is_upper_ascii (l @ c # r) = l" "dropWhile is_upper_ascii (l @ c # r) = c # r"
  using assms upper_not_digit by (auto simp: list_all_iff takeWhile_append2 dropWhile_append2)

lemma column_number_Inr:
  "column_number ref = Inr (c, r) \<longleftrightarrow>
     (\<exists>l d ds. ref = l @ d # ds \<and> list_all is_upper_ascii l \<and> 1 \<le> length l \<and> length l \<le> 3
        \<and> is_digit d \<and> d \<noteq> CHR ''0'' \<and> all_digits ds \<and> length ds < 4300
        \<and> c = letters_val l \<and> r = digits_val (d # ds) \<and> c \<le> 512 \<and> r \<le> 1048576)"
proof
  assume a: "column_number ref = Inr (c, r)"
  then have "in_lang ref CELL_REF" by (auto simp: column_number_def rx_match_in_lang split: if_splits)
  then obtain l d ds where ref: "ref = l @ d # ds" and l: "list_all is_upper_ascii l" "1 \<le> length l" "length l \<le> 3"
    and d: "is_digit d" "d \<noteq> CHR ''0''" "all_digits ds"
    unfolding in_lang_CELL_REF by blast
  note sp = split_ref [OF l(1) d(1), of ds]
  have "c = letters_val l" "r = digits_val (d # ds)" "c \<le> 512" "r \<le> 1048576" "length ds < 4300"
    using a by (auto simp: column_number_def Let_def ref sp MAX_XLSX_COLUMNS_def split: if_splits)
  then show "\<exists>l d ds. ref = l @ d # ds \<and> list_all is_upper_ascii l \<and> 1 \<le> length l \<and> length l \<le> 3
        \<and> is_digit d \<and> d \<noteq> CHR ''0'' \<and> all_digits ds \<and> length ds < 4300
        \<and> c = letters_val l \<and> r = digits_val (d # ds) \<and> c \<le> 512 \<and> r \<le> 1048576"
    using ref l d by blast
next
  assume "\<exists>l d ds. ref = l @ d # ds \<and> list_all is_upper_ascii l \<and> 1 \<le> length l \<and> length l \<le> 3
        \<and> is_digit d \<and> d \<noteq> CHR ''0'' \<and> all_digits ds \<and> length ds < 4300
        \<and> c = letters_val l \<and> r = digits_val (d # ds) \<and> c \<le> 512 \<and> r \<le> 1048576"
  then obtain l d ds where ref: "ref = l @ d # ds" and l: "list_all is_upper_ascii l" "1 \<le> length l" "length l \<le> 3"
    and d: "is_digit d" "d \<noteq> CHR ''0''" "all_digits ds" "length ds < 4300"
    and cr: "c = letters_val l" "r = digits_val (d # ds)" "c \<le> 512" "r \<le> 1048576" by blast
  have m: "rx_match CELL_REF ref" unfolding rx_match_in_lang in_lang_CELL_REF using ref l d by blast
  show "column_number ref = Inr (c, r)"
    using m cr d(4) split_ref [OF l(1) d(1), of ds] by (simp add: column_number_def Let_def ref MAX_XLSX_COLUMNS_def)
qed

lemma show_nat_leading: "0 < n \<Longrightarrow> \<exists>d ds. show_nat n = d # ds \<and> is_digit d \<and> d \<noteq> CHR ''0'' \<and> all_digits ds"
proof (induction n rule: show_nat.induct)
  case (1 n)
  show ?case
  proof (cases "n < 10")
    case True
    then have "code (digit_char n) = 48 + n" by (simp add: digit_char_def)
    then have "digit_char n \<noteq> CHR ''0''" using 1(2) by (auto simp: code_def)
    then show ?thesis using True digit_char_facts [of n] by (simp add: show_nat.simps [of n] all_digits_def)
  next
    case False
    then obtain d ds where "show_nat (n div 10) = d # ds" "is_digit d" "d \<noteq> CHR ''0''" "all_digits ds"
      using 1 by fastforce
    then show ?thesis using False digit_char_facts [of "n mod 10"] by (simp add: show_nat.simps [of n] all_digits_def)
  qed
qed

lemma digit_char_digit_val: "is_digit c \<Longrightarrow> digit_char (digit_val c) = c"
  by (simp add: digit_char_def digit_val_def is_digit_def) (simp add: code_def)

lemma digits_val_leading: "d \<noteq> CHR ''0'' \<Longrightarrow> is_digit d \<Longrightarrow> all_digits ds \<Longrightarrow> show_nat (digits_val (d # ds)) = d # ds"
proof (induction ds rule: rev_induct)
  case Nil
  have "digit_char (digit_val d) = d" using Nil by (simp add: digit_char_digit_val)
  moreover have "digit_val d < 10" using Nil by (simp add: is_digit_def digit_val_def less_diff_conv2)
  ultimately show ?case by (simp add: show_nat.simps)
next
  case (snoc x xs)
  have x: "is_digit x" "all_digits xs" using snoc.prems by (simp_all add: all_digits_def)
  have IH: "show_nat (digits_val (d # xs)) = d # xs" using snoc x by simp
  have xv: "digit_val x < 10" using x by (simp add: is_digit_def digit_val_def less_diff_conv2)
  have val: "digits_val (d # xs @ [x]) = digits_val (d # xs) * 10 + digit_val x"
    using digits_val_append [of "d # xs" "[x]"] by simp
  have "digit_val d \<noteq> 0"
    using digit_char_digit_val [of d] digit_char_numerals(1) snoc.prems by metis
  then have "0 < digits_val (d # xs)" by (simp add: digits_val_Cons)
  moreover have "digit_char (digit_val x) = x" using x by (simp add: digit_char_digit_val)
  ultimately show ?case using xv IH by (simp add: val show_nat.simps [of "digits_val (d # xs) * 10 + digit_val x"])
qed

text \<open>
  A1 references and coordinates are the same thing inside the supported sheet: the reference
  written for a row and a column is read back as exactly that row and column, and a reference that
  is accepted is the one that would be written for what it is read as.
\<close>

theorem cell_reference_roundtrip:
  assumes "1 \<le> r" "r \<le> 1048576" "1 \<le> c" "c \<le> 512"
  shows "column_number ref = Inr (c, r) \<longleftrightarrow> cell_a1 (int r) (int c) = Inr ref"
proof -
  have a1: "cell_a1 (int r) (int c) = Inr (letters_loop c [] @ show_nat r)"
    using assms by (simp add: cell_a1_def column_letters_def show_int_def)
  show ?thesis
  proof
    assume "column_number ref = Inr (c, r)"
    then obtain l d ds where "ref = l @ d # ds" "list_all is_upper_ascii l" "is_digit d" "d \<noteq> CHR ''0''" "all_digits ds"
      "c = letters_val l" "r = digits_val (d # ds)"
      unfolding column_number_Inr by blast
    then show "cell_a1 (int r) (int c) = Inr ref"
      using a1 letters_loop_letters_val digits_val_leading by simp
  next
    assume "cell_a1 (int r) (int c) = Inr ref"
    then have ref: "ref = letters_loop c [] @ show_nat r" using a1 by simp
    obtain d ds where s: "show_nat r = d # ds" "is_digit d" "d \<noteq> CHR ''0''" "all_digits ds"
      using show_nat_leading [of r] assms by auto
    have "length (show_nat r) \<le> 7" using assms by (subst length_show_nat) simp_all
    then have "length ds < 4300" using s by simp
    moreover have "r = digits_val (d # ds)" using digits_val_show_nat [of r] s by simp
    ultimately show "column_number ref = Inr (c, r)"
      unfolding column_number_Inr using ref s assms upper_letters_loop [of c] length_letters_loop [of c]
      by (intro exI [of _ "letters_loop c []"] exI [of _ d] exI [of _ ds]) (simp add: letters_val_letters_loop)
  qed
qed

theorem cell_reference_roundtrip_witness:
  "\<exists>ref. cell_a1 12 28 = Inr ref \<and> column_number ref = Inr (28, 12)"
proof -
  obtain ref where ref: "cell_a1 (int 12) (int 28) = Inr ref" by (simp add: cell_a1_def column_letters_def)
  from cell_reference_roundtrip [of 12 28 ref] ref have "column_number ref = Inr (28, 12)" by simp
  with ref show ?thesis by auto
qed

end
