(* ===== verification/Lineage.thy ===== *)
theory Lineage
  imports ColumnMapping Release CellRef
begin

text \<open>
  \<open>fincilia_contracts/lineage.py\<close>: the six-stage transformation plan of a mapping, its validation and
  the reconstruction of the path of one published field with its row overrides. SHA-256 is the
  argument \<open>sha\<close>. The lemmas show that a built plan passes its own validation and that the loop
  which inserts overrides into the path leaves the stages in order, each override right behind the
  stage it alters.
\<close>

section \<open>Stages and overrides\<close>

definition STAGES :: "string list" where
  "STAGES = [''artifact_version'', ''raw_locator'', ''extracted_field'', ''transformed_value'',
     ''source_record_field'', ''financial_fact_field'']"

definition FIELD_TYPES :: "(string \<times> string) list" where
  "FIELD_TYPES =
    [(''occurred_on'', ''local_date''), (''description'', ''text''), (''reference'', ''text''),
     (''amount'', ''money_decimal''), (''direction'', ''enum:direction''), (''currency'', ''currency_code''),
     (''debit'', ''money_decimal''), (''credit'', ''money_decimal'')]"

definition PARSER_VERSION :: string where "PARSER_VERSION = ''csv-extractor-0.1.0''"
definition RULE_VERSION :: string where "RULE_VERSION = ''column-mapping-0.1.0''"

definition OVERRIDE_KINDS :: "string list" where
  "OVERRIDE_KINDS = [''manual_correction'', ''overlay_applied'', ''exceptional_parse'', ''sign_resolution'',
     ''substituted_value'', ''rejected_value'', ''row_rule'']"

definition CRITICAL_OVERRIDE_FIELDS :: "string list" where
  "CRITICAL_OVERRIDE_FIELDS = [''amount'', ''currency'', ''direction'', ''financial_account_identifier'',
     ''tax_identity'', ''accounting_date'', ''posting_date'', ''value_date'']"

record transform_step =
  canonical_field :: string
  step_ordinal :: int
  stage :: string
  operation :: string
  input_type :: string
  output_type :: string
  transform_ref :: "string option"
  configuration_digest :: string
  parser_version :: string
  rule_version :: string
  step_column :: "int option"

definition opt_str :: "string option \<Rightarrow> pyval" where
  "opt_str s = (case s of None \<Rightarrow> PNone | Some t \<Rightarrow> PStr t)"

definition opt_int :: "int option \<Rightarrow> pyval" where
  "opt_int i = (case i of None \<Rightarrow> PNone | Some n \<Rightarrow> PInt n)"

definition step_as_dict :: "transform_step \<Rightarrow> pydict" where
  "step_as_dict s =
    [(''canonical_field'', PStr (canonical_field s)), (''step_ordinal'', PInt (step_ordinal s)),
     (''stage'', PStr (stage s)), (''operation'', PStr (operation s)),
     (''input_semantic_type'', PStr (input_type s)), (''output_semantic_type'', PStr (output_type s)),
     (''transform_ref'', opt_str (transform_ref s)), (''configuration_digest'', PStr (configuration_digest s)),
     (''parser_version'', PStr (parser_version s)), (''rule_version'', PStr (rule_version s)),
     (''source_column'', opt_int (step_column s))]"

record row_override =
  override_id :: string
  ov_field :: string
  override_kind :: string
  base_step_ordinal :: int
  original_value_digest :: string
  resulting_value_digest :: string
  ov_rule_version :: string
  reason_code :: string
  created_by :: string
  approved_by :: "string option"
  ov_engine_release_id :: string
  ov_schema_version :: string

definition critical :: "row_override \<Rightarrow> bool" where
  "critical v = (ov_field v \<in> set CRITICAL_OVERRIDE_FIELDS)"

definition approved :: "row_override \<Rightarrow> bool" where
  "approved v = (case approved_by v of None \<Rightarrow> False | Some a \<Rightarrow> a \<noteq> [] \<and> a \<noteq> created_by v)"

definition override_as_dict :: "row_override \<Rightarrow> pydict" where
  "override_as_dict v =
    [(''override_id'', PStr (override_id v)), (''canonical_field'', PStr (ov_field v)),
     (''override_kind'', PStr (override_kind v)), (''base_step_ordinal'', PInt (base_step_ordinal v)),
     (''original_value_digest'', PStr (original_value_digest v)),
     (''resulting_value_digest'', PStr (resulting_value_digest v)),
     (''rule_version'', PStr (ov_rule_version v)), (''reason_code'', PStr (reason_code v)),
     (''created_by'', PStr (created_by v)), (''approved_by'', opt_str (approved_by v)),
     (''engine_release_id'', PStr (ov_engine_release_id v)),
     (''canonical_schema_version'', PStr (ov_schema_version v))]"

text \<open>The problems of one override, then of all of them.\<close>

definition problems_of :: "row_override \<Rightarrow> string list" where
  "problems_of v = (let where' = ov_field v @ ''/'' @ override_id v in
     (if override_kind v \<notin> set OVERRIDE_KINDS
      then [where' @ '': '' @ repr_str (override_kind v) @ '' is not an override kind the contract knows''] else [])
   @ (if \<not> (1 \<le> base_step_ordinal v \<and> base_step_ordinal v \<le> int (length STAGES))
      then [where' @ '': base step '' @ show_int (base_step_ordinal v) @ '' is outside the six stages''] else [])
   @ (if reason_code v = []
      then [where' @ '': an override without a reason code says what happened but not why''] else [])
   @ (if critical v \<and> \<not> approved v
      then (if approved_by v = Some (created_by v)
            then [where' @ '': the subject who wrote this override cannot be the one who approved it'']
            else [where' @ '': a critical field carries an unapproved override''])
      else []))"

definition override_problems :: "row_override list \<Rightarrow> string list" where
  "override_problems overrides = concat (map problems_of overrides)"

section \<open>The plan\<close>

definition transform_of :: "string \<Rightarrow> column_mapping \<Rightarrow> string" where
  "transform_of f m =
     (if f = ''occurred_on'' then ''parse_date:'' @ date_format m
      else if f \<in> {''amount'', ''debit'', ''credit''} then ''normalise_amount:'' @ decimal_format m
      else if f = ''direction'' then ''resolve_direction:'' @ direction_mode m
      else if f = ''currency'' then ''declared_currency:'' @ mapping_currency m
      else if f = ''reference'' then ''normalise_reference''
      else ''verbatim'')"

definition configuration_of :: "column_mapping \<Rightarrow> string \<Rightarrow> string \<Rightarrow> string \<Rightarrow> int \<Rightarrow> pydict" where
  "configuration_of m engine delimiter f column =
    [(''column'', PInt column), (''date_format'', PStr (date_format m)), (''decimal_format'', PStr (decimal_format m)),
     (''direction_mode'', PStr (direction_mode m)), (''currency'', PStr (mapping_currency m)),
     (''delimiter'', PStr delimiter), (''engine_release_key'', PStr engine), (''field'', PStr f)]"

text \<open>Input type, output type, operation and reference of the six stages.\<close>

definition stage_chain :: "string \<Rightarrow> string \<Rightarrow> string \<Rightarrow> string \<Rightarrow> string \<Rightarrow> (string \<times> string \<times> string \<times> string) list" where
  "stage_chain engine delimiter f final_type transform =
    [(''bytes'', ''artifact_reference'', ''included_in_snapshot'', ''seal:'' @ engine),
     (''artifact_reference'', ''cell_coordinate'', ''derived_from'', ''locate:tabular_delimited:'' @ delimiter),
     (''cell_coordinate'', ''cell_text'', ''derived_from'', ''extract:csv:'' @ delimiter),
     (''cell_text'', final_type, ''derived_from'', transform),
     (final_type, final_type, ''derived_from'', ''canonicalise:'' @ f),
     (final_type, final_type, ''derived_from'', ''publish:'' @ f)]"

definition field_steps :: "(string \<Rightarrow> string) \<Rightarrow> column_mapping \<Rightarrow> string \<Rightarrow> string \<Rightarrow> string list \<Rightarrow> string \<times> int
    \<Rightarrow> (exn, transform_step list) result" where
  "field_steps sha m engine delimiter decided fc = (case fc of (f, column) \<Rightarrow>
     let final_type = (case map_of FIELD_TYPES f of Some t \<Rightarrow> t | None \<Rightarrow> ''text'');
         transform = transform_of f m @ (if f \<in> set decided then ''#decided'' else [])
     in rbind (digest_of sha (PDict (configuration_of m engine delimiter f column))) (\<lambda>configuration.
       Inr (map (\<lambda>(n, (incoming, outgoing, op, ref)).
         \<lparr>canonical_field = f, step_ordinal = int n, stage = STAGES ! (n - 1), operation = op,
          input_type = incoming, output_type = outgoing, transform_ref = Some ref,
          configuration_digest = configuration, parser_version = PARSER_VERSION,
          rule_version = RULE_VERSION, step_column = Some column\<rparr>)
         (enumerate_from 1 (stage_chain engine delimiter f final_type transform)))))"

definition build_plan :: "(string \<Rightarrow> string) \<Rightarrow> column_mapping \<Rightarrow> string \<Rightarrow> string \<Rightarrow> string list
    \<Rightarrow> (exn, transform_step list) result" where
  "build_plan sha m engine delimiter decided =
     (if columns m = [] then Inl (LineageError ''a mapping with no columns produces no lineage'')
      else rbind (map_result (field_steps sha m engine delimiter decided) (sort (columns m)))
        (\<lambda>steps. Inr (concat steps)))"

definition plan_digest :: "(string \<Rightarrow> string) \<Rightarrow> transform_step list \<Rightarrow> (exn, string) result" where
  "plan_digest sha steps = digest_of sha (PList (map (\<lambda>s. PDict (step_as_dict s)) steps))"

text \<open>\<open>sorted(..., key=step_ordinal)\<close> of the steps of one field; the sort is stable.\<close>

definition chain_of :: "transform_step list \<Rightarrow> string \<Rightarrow> transform_step list" where
  "chain_of steps f = sort_key step_ordinal (filter (\<lambda>s. canonical_field s = f) steps)"

definition chain_problems :: "string \<Rightarrow> transform_step list \<Rightarrow> string list" where
  "chain_problems f chain =
     (if length chain \<noteq> length STAGES
      then [f @ '': '' @ show_nat (length chain) @ '' of '' @ show_nat (length STAGES)
              @ '' stages; a published field with a missing stage cannot be audited'']
      else (if map stage chain \<noteq> STAGES then [f @ '': stages out of contract order''] else [])
         @ concat (map (\<lambda>(p, q). if output_type p \<noteq> input_type q
              then [f @ '': '' @ stage p @ '' emits '' @ output_type p @ '' and '' @ stage q @ '' expects '' @ input_type q]
              else []) (zip chain (tl chain)))
         @ concat (map (\<lambda>s. if operation s \<in> {''derived_from'', ''redacted_from''}
                \<and> (transform_ref s = None \<or> transform_ref s = Some [])
              then [f @ '': '' @ stage s @ '' claims the value flowed without naming the transformation'']
              else []) chain))"

definition validate_plan :: "transform_step list \<Rightarrow> string list \<Rightarrow> string list" where
  "validate_plan steps published =
     concat (map (\<lambda>f. chain_problems f (chain_of steps f)) (sorted_set published))
   @ (let extra = sorted_set (filter (\<lambda>f. f \<notin> set published) (map canonical_field steps)) in
      if extra \<noteq> [] then [''the plan carries stages for unpublished fields: '' @ repr_str_list extra] else [])"

section \<open>The path of one field\<close>

text \<open>An entry of the path: the step, the identity of its row and the override recorded on it.\<close>

record path_entry =
  entry_step :: transform_step
  entry_identity :: pydict
  entry_override :: "row_override option"

text \<open>\<open>d[key] = value\<close>: an existing key keeps its place.\<close>

fun dict_set :: "pydict \<Rightarrow> string \<Rightarrow> pyval \<Rightarrow> pydict" where
  "dict_set [] k v = [(k, v)]"
| "dict_set ((k', w) # d) k v = (if k' = k then (k, v) # d else (k', w) # dict_set d k v)"

text \<open>
  \<open>int(value)\<close> of a JSON value: single underscores may stand between digits, and a float is cut off towards zero. A float
  whose text has an exponent, so one of \<open>10 ^ 16\<close> or more or close to zero, is not a row number and not modelled.
\<close>

definition int_digits :: "string \<Rightarrow> nat option" where
  "int_digits ds = (if list_all (\<lambda>g. g \<noteq> [] \<and> all_digits g) (split_char (CHR ''_'') ds)
     then Some (digits_val (concat (split_char (CHR ''_'') ds))) else None)"

fun py_int :: "pyval \<Rightarrow> (exn, int) result" where
  "py_int (PInt i) = Inr i"
| "py_int (PBool b) = Inr (if b then 1 else 0)"
| "py_int (PStr s) = (let (neg, ds) = split_sign (py_strip s) in
     case int_digits ds of Some n \<Rightarrow> Inr (if neg then - int n else int n)
     | None \<Rightarrow> Inl (ValueError (''invalid literal for int() with base 10: '' @ repr_str s)))"
| "py_int (PFloat t) = (let (neg, ds) = split_sign t; whole = takeWhile (\<lambda>c. c \<noteq> CHR ''.'') ds in
     if ds = ''inf'' then Inl OverflowError
     else if ds = ''nan'' then Inl (ValueError ''cannot convert float NaN to integer'')
     else if whole \<noteq> [] \<and> all_digits whole \<and> CHR ''e'' \<notin> set ds then Inr (if neg then - int (digits_val whole) else int (digits_val whole))
     else Inl TypeError)"
| "py_int v = Inl TypeError"

text \<open>The cell of the row: the locator, the column and, in a spreadsheet, the A1 reference.\<close>

definition locate_cell :: "pydict \<Rightarrow> int option \<Rightarrow> (exn, pydict) result" where
  "locate_cell locator column = (case column of None \<Rightarrow> Inr locator
     | Some c \<Rightarrow>
         let d = dict_set locator ''field_ordinal'' (PInt c) in
         if dict_get locator ''locator_kind'' = PStr ''spreadsheet''
         then (case map_of locator ''row_number'' of None \<Rightarrow> Inl (KeyError ''row_number'')
              | Some r \<Rightarrow> rbind (py_int r) (\<lambda>n. rbind (cell_a1 n (c + 1)) (\<lambda>a.
                  Inr (dict_set (dict_set d ''column_number'' (PInt (c + 1))) ''cell_a1'' (PStr a)))))
         else Inr d)"

record row_identity =
  raw_record_id :: string
  source_record_id :: string
  movement_id :: string
  value_digest :: "string option"

definition identity_of :: "string \<Rightarrow> pydict \<Rightarrow> pydict \<Rightarrow> int option \<Rightarrow> row_identity \<Rightarrow> (string \<times> pydict) list" where
  "identity_of f locator located column r =
    [(''artifact_version'', [(''artifact_sha256'', dict_get locator ''artifact_sha256'')]),
     (''raw_locator'', [(''raw_record_id'', PStr (raw_record_id r)), (''cell'', PDict located)]),
     (''extracted_field'', [(''raw_record_id'', PStr (raw_record_id r)), (''field_ordinal'', opt_int column)]),
     (''transformed_value'', [(''raw_record_id'', PStr (raw_record_id r)), (''canonical_field'', PStr f)]),
     (''source_record_field'', [(''source_record_id'', PStr (source_record_id r)), (''canonical_field'', PStr f)]),
     (''financial_fact_field'', [(''movement_id'', PStr (movement_id r)), (''canonical_field'', PStr f),
        (''value_digest'', opt_str (value_digest r))])]"

definition override_entry :: "string \<Rightarrow> path_entry \<Rightarrow> row_override \<Rightarrow> path_entry" where
  "override_entry f base v =
     \<lparr>entry_step = \<lparr>canonical_field = f, step_ordinal = base_step_ordinal v,
        stage = stage (entry_step base) @ '':override'', operation = ''overridden_by'',
        input_type = output_type (entry_step base), output_type = output_type (entry_step base),
        transform_ref = Some (override_kind v @ '':'' @ reason_code v),
        configuration_digest = original_value_digest v, parser_version = parser_version (entry_step base),
        rule_version = ov_rule_version v, step_column = step_column (entry_step base)\<rparr>,
      entry_identity = [(''override_id'', PStr (override_id v)),
        (''original_value_digest'', PStr (original_value_digest v)),
        (''resulting_value_digest'', PStr (resulting_value_digest v)), (''approved_by'', opt_str (approved_by v))],
      entry_override = Some v\<rparr>"

text \<open>\<open>path.insert(i, e)\<close> for \<open>0 \<le> i\<close>: past the end it appends.\<close>

definition insert_at :: "nat \<Rightarrow> 'a \<Rightarrow> 'a list \<Rightarrow> 'a list" where
  "insert_at i e xs = take i xs @ e # drop i xs"

text \<open>One turn of the loop over \<open>reversed(mine)\<close>; \<open>n\<close> is \<open>len(chain)\<close>.\<close>

definition insert_override :: "string \<Rightarrow> nat \<Rightarrow> row_override \<Rightarrow> path_entry list \<Rightarrow> (exn, path_entry list) result" where
  "insert_override f n v path =
     (if \<not> (1 \<le> base_step_ordinal v \<and> base_step_ordinal v \<le> int n)
      then Inl (LineageError (f @ '': the override points at stage '' @ show_int (base_step_ordinal v)
             @ '', which this plan does not have''))
      else let k = nat (base_step_ordinal v); base = (path ! (k - 1))\<lparr>entry_override := Some v\<rparr>
        in Inr (insert_at k (override_entry f base v) (path[k - 1 := base])))"

fun insert_overrides :: "string \<Rightarrow> nat \<Rightarrow> row_override list \<Rightarrow> path_entry list \<Rightarrow> (exn, path_entry list) result" where
  "insert_overrides f n [] path = Inr path"
| "insert_overrides f n (v # vs) path = rbind (insert_override f n v path) (insert_overrides f n vs)"

definition base_path :: "(string \<times> pydict) list \<Rightarrow> transform_step list \<Rightarrow> (exn, path_entry list) result" where
  "base_path identity chain =
     map_result (\<lambda>s. case map_of identity (stage s) of None \<Rightarrow> Inl (KeyError (stage s))
       | Some i \<Rightarrow> Inr \<lparr>entry_step = s, entry_identity = i, entry_override = None\<rparr>) chain"

definition reconstruct :: "transform_step list \<Rightarrow> string \<Rightarrow> pydict \<Rightarrow> row_identity \<Rightarrow> row_override list
    \<Rightarrow> (exn, path_entry list) result" where
  "reconstruct steps f locator r overrides =
     (let chain = chain_of steps f in
      if length chain \<noteq> length STAGES
      then Inl (LineageError (''the plan has '' @ show_nat (length chain) @ '' of '' @ show_nat (length STAGES)
             @ '' stages for '' @ f))
      else if locator = [] then Inl (LineageError (''no origin locator for '' @ f))
      else let column = step_column (hd chain) in
        rbind (locate_cell locator column) (\<lambda>located.
          if value_digest r = None
          then Inl (LineageError (''no value digest for '' @ f
                 @ ''; a published field without one cannot prove what was published''))
          else rbind (base_path (identity_of f locator located column r) chain) (\<lambda>path.
            insert_overrides f (length chain)
              (rev (sort_key base_step_ordinal (filter (\<lambda>v. ov_field v = f) overrides))) path)))"

text \<open>What the loop is meant to produce: every stage, then the overrides that name it, in the order given.\<close>

definition with_overrides :: "string \<Rightarrow> row_override list \<Rightarrow> nat \<times> path_entry \<Rightarrow> path_entry list" where
  "with_overrides f overrides ke = (case ke of (k, e) \<Rightarrow>
     (let mine = filter (\<lambda>v. ov_field v = f \<and> base_step_ordinal v = int k) overrides in
      e\<lparr>entry_override := (if mine = [] then entry_override e else Some (hd mine))\<rparr>
        # map (override_entry f e) mine))"

definition interleaved :: "string \<Rightarrow> row_override list \<Rightarrow> path_entry list \<Rightarrow> path_entry list" where
  "interleaved f overrides path = concat (map (with_overrides f overrides) (enumerate_from 1 path))"

section \<open>Inserting the overrides\<close>

definition weave1 :: "string \<Rightarrow> (nat \<Rightarrow> row_override list) \<Rightarrow> nat \<times> path_entry \<Rightarrow> path_entry list" where
  "weave1 f G ke = (case ke of (k, e) \<Rightarrow>
     e\<lparr>entry_override := (if G k = [] then entry_override e else Some (hd (G k)))\<rparr> # map (override_entry f e) (G k))"

definition weave :: "string \<Rightarrow> (nat \<Rightarrow> row_override list) \<Rightarrow> nat \<Rightarrow> path_entry list \<Rightarrow> path_entry list" where
  "weave f G i path = concat (map (weave1 f G) (enumerate_from i path))"

lemma fst_enumerate_from: "(k, e) \<in> set (enumerate_from i xs) \<Longrightarrow> i \<le> k \<and> k < i + length xs"
  by (induction xs arbitrary: i) fastforce+

lemma weave_simps [simp]:
  "weave f G i [] = []"
  "weave f G i (e # path) = weave1 f G (i, e) @ weave f G (Suc i) path"
  by (simp_all add: weave_def)

lemma weave_append: "weave f G i (xs @ ys) = weave f G i xs @ weave f G (i + length xs) ys"
  by (simp add: weave_def enumerate_from_append)

lemma weave_cong: "(\<And>k. i \<le> k \<Longrightarrow> k < i + length path \<Longrightarrow> G k = H k) \<Longrightarrow> weave f G i path = weave f H i path"
  by (induction path arbitrary: i) (auto simp: weave1_def)

lemma weave_none: "(\<And>k. i \<le> k \<Longrightarrow> k < i + length path \<Longrightarrow> G k = []) \<Longrightarrow> weave f G i path = path"
proof (induction path arbitrary: i)
  case (Cons e path)
  have "G i = []" using Cons.prems [of i] by simp
  then have "weave1 f G (i, e) = [e]" by (simp add: weave1_def)
  moreover have "weave f G (Suc i) path = path" by (rule Cons.IH) (use Cons.prems in simp)
  ultimately show ?case by simp
qed simp

lemma override_entry_update [simp]: "override_entry f (e\<lparr>entry_override := w\<rparr>) v = override_entry f e v"
  by (simp add: override_entry_def)

text \<open>Going down the stages, one insertion adds its override in front of those of its stage.\<close>

lemma insert_override_weave:
  assumes k: "base_step_ordinal v = int k" "1 \<le> k" "k \<le> length path" and low: "\<And>j. j < k \<Longrightarrow> G j = []"
  shows "insert_override f (length path) v (weave f G 1 path) = Inr (weave f (G(k := v # G k)) 1 path)"
proof -
  define xs where "xs = take (k - 1) path"
  define e where "e = path ! (k - 1)"
  define ys where "ys = drop k path"
  have path: "path = xs @ e # ys"
    unfolding xs_def e_def ys_def using id_take_nth_drop [of "k - 1" path] k by simp
  have len: "length xs = k - 1" using k by (simp add: xs_def)
  have head: "weave f G 1 xs = xs" "weave f (G(k := v # G k)) 1 xs = xs"
    by (rule weave_none, use low len k in simp)+
  have rest: "weave f (G(k := v # G k)) (Suc k) ys = weave f G (Suc k) ys"
    by (rule weave_cong) simp
  have at: "1 + length xs = k" using len k by simp
  have w: "weave f H 1 path = weave f H 1 xs @ weave1 f H (k, e) @ weave f H (Suc k) ys" for H
    unfolding path weave_append at by simp
  let ?e = "e\<lparr>entry_override := (if G k = [] then entry_override e else Some (hd (G k)))\<rparr>"
  have old: "weave f G 1 path = xs @ ?e # map (override_entry f e) (G k) @ weave f G (Suc k) ys"
    unfolding w head by (simp add: weave1_def)
  have new: "weave f (G(k := v # G k)) 1 path =
      xs @ e\<lparr>entry_override := Some v\<rparr> # override_entry f e v # map (override_entry f e) (G k) @ weave f G (Suc k) ys"
    unfolding w head rest by (simp add: weave1_def)
  have nth: "weave f G 1 path ! (k - 1) = ?e" unfolding old by (simp add: nth_append len)
  have upd: "(weave f G 1 path)[k - 1 := x] = xs @ x # map (override_entry f e) (G k) @ weave f G (Suc k) ys" for x
    unfolding old by (simp add: list_update_append len)
  have ins: "insert_at k y (xs @ x # zs) = xs @ x # y # zs" for x y zs
  proof -
    have "k = Suc (length xs)" using at by simp
    then show ?thesis by (simp add: insert_at_def)
  qed
  show ?thesis
    unfolding insert_override_def Let_def k(1) nat_int nth upd ins new using k by simp
qed

text \<open>The stages in \<open>G\<close> that are at or above every override still to come.\<close>

lemma insert_overrides_weave:
  assumes "sorted (map base_step_ordinal (rev vs))" and "\<forall>v \<in> set vs. 1 \<le> base_step_ordinal v \<and> base_step_ordinal v \<le> int (length path)"
    and "\<And>j v. v \<in> set vs \<Longrightarrow> int j < base_step_ordinal v \<Longrightarrow> G j = []"
  shows "insert_overrides f (length path) vs (weave f G 1 path) =
    Inr (weave f (\<lambda>k. filter (\<lambda>v. base_step_ordinal v = int k) (rev vs) @ G k) 1 path)"
  using assms
proof (induction vs arbitrary: G)
  case Nil
  then show ?case by simp
next
  case (Cons v vs)
  have "1 \<le> base_step_ordinal v" "base_step_ordinal v \<le> int (length path)" using Cons.prems(2) by simp_all
  then obtain k where k: "base_step_ordinal v = int k" "1 \<le> k" "k \<le> length path"
    using that [of "nat (base_step_ordinal v)"] by auto
  have low: "G j = []" if "j < k" for j using Cons.prems(3) [of v j] k that by simp
  have step: "insert_override f (length path) v (weave f G 1 path) = Inr (weave f (G(k := v # G k)) 1 path)"
    by (rule insert_override_weave) (use k low in auto)
  have below: "base_step_ordinal w \<le> base_step_ordinal v" if "w \<in> set vs" for w
    using Cons.prems(1) that by (auto simp: sorted_append)
  have "insert_overrides f (length path) vs (weave f (G(k := v # G k)) 1 path) =
      Inr (weave f (\<lambda>j. filter (\<lambda>v. base_step_ordinal v = int j) (rev vs) @ (G(k := v # G k)) j) 1 path)"
  proof (rule Cons.IH)
    show "sorted (map base_step_ordinal (rev vs))" using Cons.prems(1) by (simp add: sorted_append)
    show "\<forall>v\<in>set vs. 1 \<le> base_step_ordinal v \<and> base_step_ordinal v \<le> int (length path)" using Cons.prems(2) by simp
    fix j w assume w: "w \<in> set vs" "int j < base_step_ordinal w"
    then have "j < k" using below k by fastforce
    then show "(G(k := v # G k)) j = []" using low by simp
  qed
  also have "(\<lambda>j. filter (\<lambda>v. base_step_ordinal v = int j) (rev vs) @ (G(k := v # G k)) j) =
      (\<lambda>j. filter (\<lambda>v. base_step_ordinal v = int j) (rev (v # vs)) @ G j)"
    using k by (auto simp: fun_eq_iff)
  finally show ?case by (simp only: insert_overrides.simps step rbind_simps)
qed

lemma interleaved_weave:
  "interleaved f overrides path = weave f (\<lambda>k. filter (\<lambda>v. ov_field v = f \<and> base_step_ordinal v = int k) overrides) 1 path"
proof -
  have "with_overrides f overrides = weave1 f (\<lambda>k. filter (\<lambda>v. ov_field v = f \<and> base_step_ordinal v = int k) overrides)"
    by (auto simp: fun_eq_iff with_overrides_def weave1_def Let_def)
  then show ?thesis by (simp add: interleaved_def weave_def)
qed

lemma insert_overrides_interleaved:
  assumes "\<forall>v \<in> set overrides. ov_field v = f \<longrightarrow> 1 \<le> base_step_ordinal v \<and> base_step_ordinal v \<le> int (length path)"
  shows "insert_overrides f (length path) (rev (sort_key base_step_ordinal (filter (\<lambda>v. ov_field v = f) overrides))) path
    = Inr (interleaved f overrides path)"
proof -
  let ?m = "sort_key base_step_ordinal (filter (\<lambda>v. ov_field v = f) overrides)"
  have "insert_overrides f (length path) (rev ?m) (weave f (\<lambda>k. []) 1 path) =
      Inr (weave f (\<lambda>k. filter (\<lambda>v. base_step_ordinal v = int k) (rev (rev ?m)) @ []) 1 path)"
    by (rule insert_overrides_weave) (use assms in auto)
  moreover have "weave f (\<lambda>k. []) 1 path = path" by (rule weave_none) simp
  moreover have "filter (\<lambda>v. base_step_ordinal v = int k) ?m = filter (\<lambda>v. ov_field v = f \<and> base_step_ordinal v = int k) overrides" for k
    by (simp add: sort_key_stable conj_commute)
  ultimately show ?thesis by (simp add: interleaved_weave)
qed

lemma insert_overrides_out_of_range:
  "\<exists>v \<in> set vs. \<not> (1 \<le> base_step_ordinal v \<and> base_step_ordinal v \<le> int n) \<Longrightarrow>
     \<exists>e. insert_overrides f n vs path = Inl (LineageError e)"
  by (induction vs arbitrary: path) (auto simp: insert_override_def Let_def)

lemma length_base_path: "base_path identity chain = Inr path \<Longrightarrow> length path = length chain"
  by (simp add: base_path_def map_result_Inr)

lemma base_path_nth:
  "base_path identity chain = Inr path \<Longrightarrow> i < length chain \<Longrightarrow>
     map_of identity (stage (chain ! i)) = Some (entry_identity (path ! i))
     \<and> entry_step (path ! i) = chain ! i \<and> entry_override (path ! i) = None"
proof -
  assume "base_path identity chain = Inr path" "i < length chain"
  then have "(case map_of identity (stage (chain ! i)) of None \<Rightarrow> Inl (KeyError (stage (chain ! i)))
       | Some d \<Rightarrow> Inr \<lparr>entry_step = chain ! i, entry_identity = d, entry_override = None\<rparr>) = Inr (path ! i)"
    by (simp add: base_path_def map_result_Inr)
  then have "Inr (path ! i) = (case map_of identity (stage (chain ! i)) of None \<Rightarrow> Inl (KeyError (stage (chain ! i)))
       | Some d \<Rightarrow> Inr \<lparr>entry_step = chain ! i, entry_identity = d, entry_override = None\<rparr>)" by (rule sym)
  then show ?thesis by (auto split: option.splits)
qed

text \<open>
  C34. The reconstructed path of a field is its six stages in the order of the plan, each with the
  identity of its row, and every override of that field stands right behind the stage it names, in the
  order the overrides were given; the loop that inserts them from the last stage down never displaces
  a stage or another override. An override that names no stage, a missing digest or a missing stage
  gives an error and no path.
\<close>

theorem reconstruct_interleaves_overrides:
  "reconstruct steps f locator r overrides = Inr path \<longleftrightarrow>
     length (chain_of steps f) = 6 \<and> locator \<noteq> [] \<and> value_digest r \<noteq> None
     \<and> (\<forall>v \<in> set overrides. ov_field v = f \<longrightarrow> 1 \<le> base_step_ordinal v \<and> base_step_ordinal v \<le> 6)
     \<and> (\<exists>located stages. locate_cell locator (step_column (hd (chain_of steps f))) = Inr located
          \<and> base_path (identity_of f locator located (step_column (hd (chain_of steps f))) r) (chain_of steps f) = Inr stages
          \<and> path = interleaved f overrides stages)"
  (is "?l \<longleftrightarrow> ?r")
proof -
  let ?c = "chain_of steps f" and ?m = "rev (sort_key base_step_ordinal (filter (\<lambda>v. ov_field v = f) overrides))"
  have run: "?l \<longleftrightarrow> length ?c = 6 \<and> locator \<noteq> [] \<and> value_digest r \<noteq> None \<and>
      (\<exists>located stages. locate_cell locator (step_column (hd ?c)) = Inr located
         \<and> base_path (identity_of f locator located (step_column (hd ?c)) r) ?c = Inr stages
         \<and> insert_overrides f (length ?c) ?m stages = Inr path)"
    by (auto simp: reconstruct_def Let_def rbind_Inr_iff STAGES_def split: if_splits)
  show ?thesis
  proof
    assume ?l
    then obtain located stages where a: "length ?c = 6" "locator \<noteq> []" "value_digest r \<noteq> None"
      and l: "locate_cell locator (step_column (hd ?c)) = Inr located"
      and b: "base_path (identity_of f locator located (step_column (hd ?c)) r) ?c = Inr stages"
      and i: "insert_overrides f (length ?c) ?m stages = Inr path"
      unfolding run by blast
    have ok: "\<forall>v \<in> set overrides. ov_field v = f \<longrightarrow> 1 \<le> base_step_ordinal v \<and> base_step_ordinal v \<le> int (length ?c)"
      using insert_overrides_out_of_range [of ?m "length ?c" f stages] i by auto
    then have "path = interleaved f overrides stages"
      using insert_overrides_interleaved [of overrides f stages] i length_base_path [OF b] by simp
    then show ?r using a l b ok by auto
  next
    assume ?r
    then obtain located stages where a: "length ?c = 6" "locator \<noteq> []" "value_digest r \<noteq> None"
      and ok: "\<forall>v \<in> set overrides. ov_field v = f \<longrightarrow> 1 \<le> base_step_ordinal v \<and> base_step_ordinal v \<le> 6"
      and l: "locate_cell locator (step_column (hd ?c)) = Inr located"
      and b: "base_path (identity_of f locator located (step_column (hd ?c)) r) ?c = Inr stages"
      and p: "path = interleaved f overrides stages" by blast
    have "insert_overrides f (length ?c) ?m stages = Inr path"
      using insert_overrides_interleaved [of overrides f stages] ok length_base_path [OF b] a p by simp
    then show ?l unfolding run using a l b by blast
  qed
qed

section \<open>Built plans are complete\<close>

lemma field_steps_block:
  assumes "field_steps sha m engine delimiter decided (f, c) = Inr b"
  shows "length b = 6" and "\<forall>s \<in> set b. canonical_field s = f" and "map step_ordinal b = [1, 2, 3, 4, 5, 6]"
    and "map stage b = STAGES" and "chain_problems f b = []"
proof -
  define t where "t = (case map_of FIELD_TYPES f of Some t \<Rightarrow> t | None \<Rightarrow> ''text'')"
  define x where "x = transform_of f m @ (if f \<in> set decided then ''#decided'' else [])"
  have x: "x \<noteq> []" by (simp add: x_def transform_of_def)
  obtain k where b: "b = map (\<lambda>(n, (incoming, outgoing, op, ref)).
         \<lparr>canonical_field = f, step_ordinal = int n, stage = STAGES ! (n - 1), operation = op,
          input_type = incoming, output_type = outgoing, transform_ref = Some ref,
          configuration_digest = k, parser_version = PARSER_VERSION,
          rule_version = RULE_VERSION, step_column = Some c\<rparr>)
         (enumerate_from 1 (stage_chain engine delimiter f t x))"
    using assms by (auto simp: field_steps_def rbind_Inr_iff Let_def t_def x_def)
  show "length b = 6" and fields: "\<forall>s \<in> set b. canonical_field s = f"
    by (auto simp: b stage_chain_def)
  show "map step_ordinal b = [1, 2, 3, 4, 5, 6]" and "map stage b = STAGES"
    by (simp_all add: b stage_chain_def STAGES_def)
  then show "chain_problems f b = []"
    using x by (simp add: chain_problems_def b stage_chain_def) (simp add: STAGES_def)
qed

lemma filter_blocks:
  assumes "map_result (field_steps sha m engine delimiter decided) cols = Inr bs" and "distinct (map fst cols)"
  shows "(f \<in> fst ` set cols \<longrightarrow>
      (\<exists>c. (f, c) \<in> set cols \<and> field_steps sha m engine delimiter decided (f, c) = Inr (filter (\<lambda>s. canonical_field s = f) (concat bs))))
    \<and> (f \<notin> fst ` set cols \<longrightarrow> filter (\<lambda>s. canonical_field s = f) (concat bs) = [])"
  using assms
proof (induction cols arbitrary: bs)
  case (Cons gc cols)
  obtain g c where gc: "gc = (g, c)" by (cases gc)
  obtain b bs' where b: "field_steps sha m engine delimiter decided (g, c) = Inr b"
    and bs': "map_result (field_steps sha m engine delimiter decided) cols = Inr bs'" and bs: "bs = b # bs'"
    using Cons.prems(1) by (auto simp: rbind_Inr_iff gc)
  have IH: "(f \<in> fst ` set cols \<longrightarrow>
      (\<exists>c. (f, c) \<in> set cols \<and> field_steps sha m engine delimiter decided (f, c) = Inr (filter (\<lambda>s. canonical_field s = f) (concat bs'))))
    \<and> (f \<notin> fst ` set cols \<longrightarrow> filter (\<lambda>s. canonical_field s = f) (concat bs') = [])"
    by (rule Cons.IH [OF bs']) (use Cons.prems in simp)
  have block: "filter (\<lambda>s. canonical_field s = f) b = (if f = g then b else [])"
    using field_steps_block(2) [OF b] by (auto intro: filter_True filter_False)
  show ?case
  proof (cases "f = g")
    case True
    then have "f \<notin> fst ` set cols" using Cons.prems(2) by (simp add: gc)
    then show ?thesis using IH b block True by (auto simp: gc bs)
  next
    case False
    then show ?thesis using IH block by (simp add: gc bs)
  qed
qed simp

lemma set_canonical_fields:
  "map_result (field_steps sha m engine delimiter decided) cols = Inr bs \<Longrightarrow>
     canonical_field ` set (concat bs) = fst ` set cols"
proof (induction cols arbitrary: bs)
  case (Cons gc cols)
  obtain g c where gc: "gc = (g, c)" by (cases gc)
  obtain b bs' where b: "field_steps sha m engine delimiter decided (g, c) = Inr b"
    and bs': "map_result (field_steps sha m engine delimiter decided) cols = Inr bs'" and bs: "bs = b # bs'"
    using Cons.prems by (auto simp: rbind_Inr_iff gc)
  have "b \<noteq> []" using field_steps_block(1) [OF b] by auto
  then have "canonical_field ` set b = {g}" using field_steps_block(2) [OF b] by (cases b) auto
  then show ?case using Cons.IH [OF bs'] by (simp add: gc bs image_Un)
qed simp

lemma build_plan_chain:
  assumes "build_plan sha m engine delimiter decided = Inr steps" and "distinct (map fst (columns m))"
  shows "f \<in> fst ` set (columns m) \<Longrightarrow> \<exists>c. field_steps sha m engine delimiter decided (f, c) = Inr (chain_of steps f)"
    and "f \<notin> fst ` set (columns m) \<Longrightarrow> chain_of steps f = []"
    and "set (map canonical_field steps) = fst ` set (columns m)"
proof -
  obtain bs where bs: "map_result (field_steps sha m engine delimiter decided) (sort (columns m)) = Inr bs"
    and steps: "steps = concat bs"
    using assms(1) by (auto simp: build_plan_def rbind_Inr_iff split: if_splits)
  have "distinct (columns m)" "inj_on fst (set (columns m))" using assms(2) by (simp_all add: distinct_map)
  then have d: "distinct (map fst (sort (columns m)))" by (simp add: distinct_map)
  have sorted: "sort_key step_ordinal b = b" if "field_steps sha m engine delimiter decided (g, c) = Inr b" for g c b
    using field_steps_block(3) [OF that] by (intro sort_key_id_if_sorted) simp
  note blocks = filter_blocks [OF bs d, of f, unfolded set_sort]
  show "\<exists>c. field_steps sha m engine delimiter decided (f, c) = Inr (chain_of steps f)" if "f \<in> fst ` set (columns m)"
    using blocks that sorted unfolding chain_of_def steps by metis
  show "chain_of steps f = []" if "f \<notin> fst ` set (columns m)"
    using blocks that unfolding chain_of_def steps by simp
  show "set (map canonical_field steps) = fst ` set (columns m)"
    using set_canonical_fields [OF bs] by (simp add: steps)
qed

text \<open>
  C36. A plan built from a mapping passes the validation of lineage for a set of published fields exactly
  when these are the mapped fields: every mapped field has its six stages in order with matching types
  and named transformations, and a field that is published without being mapped, or mapped without
  being published, blocks the publication.
\<close>

theorem built_plan_is_complete:
  assumes b: "build_plan sha m engine delimiter decided = Inr steps" and d: "distinct (map fst (columns m))"
  shows "validate_plan steps published = [] \<longleftrightarrow> set published = fst ` set (columns m)"
proof -
  have chain: "chain_problems f (chain_of steps f) = [] \<longleftrightarrow> f \<in> fst ` set (columns m)" for f
  proof (cases "f \<in> fst ` set (columns m)")
    case True
    then obtain c where "field_steps sha m engine delimiter decided (f, c) = Inr (chain_of steps f)"
      using build_plan_chain(1) [OF b d] by blast
    from field_steps_block(5) [OF this] show ?thesis using True by simp
  next
    case False
    then show ?thesis using build_plan_chain(2) [OF b d] by (simp add: chain_problems_def STAGES_def)
  qed
  have "validate_plan steps published = [] \<longleftrightarrow>
      (\<forall>f \<in> set published. chain_problems f (chain_of steps f) = []) \<and> set (map canonical_field steps) \<subseteq> set published"
    by (auto simp: validate_plan_def Let_def filter_empty_conv)
  then show ?thesis unfolding chain build_plan_chain(3) [OF b d] by blast
qed

lemma sample_plan_exists:
  "\<exists>steps. build_plan (\<lambda>x. x) sample_mapping ''r1'' '','' [] = Inr steps"
proof -
  have "sort [(''occurred_on'', 0), (''description'', 1), (''amount'', 2)] =
      [(''amount'', 2::int), (''description'', 1), (''occurred_on'', 0)]" by code_simp
  moreover have "\<exists>t. digest_of (\<lambda>x. x) (PDict (configuration_of sample_mapping ''r1'' '','' f c)) = Inr t" for f c
    by (simp add: digest_of_def canonical_json_def configuration_of_def sort_key_def)
  ultimately show ?thesis
    by (simp add: build_plan_def sample_mapping_def field_steps_def rbind_Inr_iff) (metis Inr_not_Inl sum.exhaust rbind_simps)
qed

theorem built_plan_is_complete_witness:
  "\<exists>steps. build_plan (\<lambda>x. x) sample_mapping ''r1'' '','' [] = Inr steps
     \<and> validate_plan steps [''amount'', ''occurred_on'', ''description''] = []
     \<and> validate_plan steps [''amount''] \<noteq> []"
proof -
  obtain steps where b: "build_plan (\<lambda>x. x) sample_mapping ''r1'' '','' [] = Inr steps"
    using sample_plan_exists by blast
  have d: "distinct (map fst (columns sample_mapping))"
    and f: "fst ` set (columns sample_mapping) = {''occurred_on'', ''description'', ''amount''}"
    by (simp_all add: sample_mapping_def)
  show ?thesis using b built_plan_is_complete [OF b d, unfolded f] by auto
qed

text \<open>A path with two overrides on one stage.\<close>

definition sample_step :: "nat \<Rightarrow> transform_step" where
  "sample_step n = \<lparr>canonical_field = ''amount'', step_ordinal = int n, stage = STAGES ! (n - 1), operation = ''derived_from'',
     input_type = ''text'', output_type = ''text'', transform_ref = Some ''t'', configuration_digest = ''d'',
     parser_version = ''p'', rule_version = ''r'', step_column = None\<rparr>"

definition sample_override :: "string \<Rightarrow> row_override" where
  "sample_override i = \<lparr>override_id = i, ov_field = ''amount'', override_kind = ''manual_correction'',
     base_step_ordinal = 4, original_value_digest = ''o'', resulting_value_digest = ''n'', ov_rule_version = ''r'',
     reason_code = ''typo'', created_by = ''ana'', approved_by = Some ''luis'', ov_engine_release_id = ''e'', ov_schema_version = ''s''\<rparr>"

definition sample_row_identity :: row_identity where
  "sample_row_identity = \<lparr>raw_record_id = ''raw'', source_record_id = ''src'', movement_id = ''mv'', value_digest = Some ''v''\<rparr>"

lemma sample_chain: "chain_of (map sample_step [1, 2, 3, 4, 5, 6]) ''amount'' = map sample_step [1, 2, 3, 4, 5, 6]"
  unfolding chain_of_def by (subst sort_key_id_if_sorted) (simp_all add: sample_step_def)

theorem reconstruct_interleaves_overrides_witness:
  "\<exists>path. reconstruct (map sample_step [1, 2, 3, 4, 5, 6]) ''amount'' [(''artifact_sha256'', PStr ''h'')] sample_row_identity
       [sample_override ''a'', sample_override ''b''] = Inr path
     \<and> map (\<lambda>e. stage (entry_step e)) path = take 4 STAGES
         @ [''transformed_value:override'', ''transformed_value:override''] @ drop 4 STAGES
     \<and> map (\<lambda>e. map_option override_id (entry_override e)) path =
         [None, None, None, Some ''a'', Some ''a'', Some ''b'', None, None]"
proof -
  let ?steps = "map sample_step [1, 2, 3, 4, 5, 6]" and ?l = "[(''artifact_sha256'', PStr ''h'')]"
  let ?id = "identity_of ''amount'' ?l ?l None sample_row_identity"
  define J where "J n = the (map_of ?id (stage (sample_step n)))" for n
  define stages where "stages = map (\<lambda>n. \<lparr>entry_step = sample_step n,
    entry_identity = J n, entry_override = None\<rparr>) [1, 2, 3, 4, 5, 6]"
  have c: "step_column (hd (chain_of ?steps ''amount'')) = None" unfolding sample_chain by (simp add: sample_step_def)
  have b: "base_path ?id (chain_of ?steps ''amount'') = Inr stages"
    unfolding sample_chain by (simp add: base_path_def stages_def J_def sample_step_def STAGES_def identity_of_def)
  have len: "length (chain_of ?steps ''amount'') = 6" unfolding sample_chain by simp
  let ?path = "interleaved ''amount'' [sample_override ''a'', sample_override ''b''] stages"
  have r1: "reconstruct ?steps ''amount'' ?l sample_row_identity [sample_override ''a'', sample_override ''b''] = Inr ?path"
    by (rule reconstruct_interleaves_overrides [THEN iffD2])
      (use b c len in \<open>simp add: locate_cell_def sample_override_def sample_row_identity_def\<close>)
  have ov: "base_step_ordinal (sample_override i) = 4" "ov_field (sample_override i) = ''amount''"
    "override_id (sample_override i) = i" for i
    by (simp_all add: sample_override_def)
  have st: "stage (sample_step n) = STAGES ! (n - 1)" for n by (simp add: sample_step_def)
  have wo: "with_overrides ''amount'' [sample_override ''a'', sample_override ''b''] (k, e) =
      (if k = 4 then [e\<lparr>entry_override := Some (sample_override ''a'')\<rparr>,
         override_entry ''amount'' e (sample_override ''a''), override_entry ''amount'' e (sample_override ''b'')]
       else [e\<lparr>entry_override := entry_override e\<rparr>])" for k e
    by (simp add: with_overrides_def ov)
  have path: "?path = [e\<lparr>entry_override := None\<rparr>. e \<leftarrow> take 3 stages] @
      [(stages ! 3)\<lparr>entry_override := Some (sample_override ''a'')\<rparr>,
       override_entry ''amount'' (stages ! 3) (sample_override ''a''), override_entry ''amount'' (stages ! 3) (sample_override ''b'')]
      @ drop 4 stages"
    by (simp add: interleaved_def wo stages_def)
  have r2: "map (\<lambda>e. stage (entry_step e)) ?path = take 4 STAGES
      @ [''transformed_value:override'', ''transformed_value:override''] @ drop 4 STAGES"
    unfolding path by (simp add: stages_def st override_entry_def) (simp add: STAGES_def)
  have r3: "map (\<lambda>e. map_option override_id (entry_override e)) ?path =
      [None, None, None, Some ''a'', Some ''a'', Some ''b'', None, None]"
    unfolding path by (simp add: stages_def ov override_entry_def)
  show ?thesis by (rule exI [of _ ?path]) (intro conjI r1 r2 r3)
qed

text \<open>
  No override on a critical field passes without review: if a set of overrides raises no problem,
  each one on an amount, a currency, a direction or another critical field was approved by somebody
  other than its author, and each one has a known kind, a reason and one of the six stages.
\<close>

theorem accepted_overrides_are_reviewed:
  "override_problems overrides = [] \<longleftrightarrow>
     (\<forall>v \<in> set overrides. override_kind v \<in> set OVERRIDE_KINDS \<and> reason_code v \<noteq> []
        \<and> 1 \<le> base_step_ordinal v \<and> base_step_ordinal v \<le> 6
        \<and> (ov_field v \<in> set CRITICAL_OVERRIDE_FIELDS \<longrightarrow>
             (\<exists>a. approved_by v = Some a \<and> a \<noteq> [] \<and> a \<noteq> created_by v)))"
proof -
  have "problems_of v = [] \<longleftrightarrow> override_kind v \<in> set OVERRIDE_KINDS \<and> reason_code v \<noteq> []
        \<and> 1 \<le> base_step_ordinal v \<and> base_step_ordinal v \<le> 6
        \<and> (ov_field v \<in> set CRITICAL_OVERRIDE_FIELDS \<longrightarrow>
             (\<exists>a. approved_by v = Some a \<and> a \<noteq> [] \<and> a \<noteq> created_by v))" for v
    by (auto simp: problems_of_def Let_def critical_def approved_def STAGES_def split: option.splits)
  then show ?thesis by (simp add: override_problems_def)
qed

theorem accepted_overrides_are_reviewed_witness:
  "override_problems [sample_override ''a''] = []
   \<and> override_problems [(sample_override ''a'')\<lparr>approved_by := Some ''ana''\<rparr>] \<noteq> []"
  unfolding accepted_overrides_are_reviewed
  by (simp add: sample_override_def OVERRIDE_KINDS_def CRITICAL_OVERRIDE_FIELDS_def)

end
