(* ===== verification/Completeness.thy ===== *)
theory Completeness
  imports Money Calendar
begin

text \<open>
  \<open>tools/completeness_engine/engine.py\<close>: the executable specification of completeness and balance
  reconciliation. JSON objects are \<open>pydict\<close> values of the shape the contract declares, and identifiers are compared
  as the JSON values they are. The lemmas give the declarative reading of each verdict: when an
  assessment is verified, when a statement balances and when a period may close.
\<close>

section \<open>Reading a document\<close>

text \<open>
  The theorems describe the code for documents of the declared shape: where a list or an object is declared and
  something else stands, \<open>engine.py\<close> raises an exception out of its loop or its \<open>get\<close>, and the model reads nothing.
\<close>

definition items_of :: "pydict \<Rightarrow> string \<Rightarrow> pyval list" where
  "items_of d k = (case dict_get d k of PList xs \<Rightarrow> xs | _ \<Rightarrow> [])"

definition as_object :: "pyval \<Rightarrow> pydict" where
  "as_object v = (case v of PDict d \<Rightarrow> d | _ \<Rightarrow> [])"

definition objects_of :: "pydict \<Rightarrow> string \<Rightarrow> pydict list" where
  "objects_of d k = map as_object (items_of d k)"

definition str_of :: "pydict \<Rightarrow> string \<Rightarrow> string" where
  "str_of d k = py_str (dict_get d k)"

text \<open>\<open>str(d.get(k, ""))\<close>\<close>

definition str_or_empty :: "pydict \<Rightarrow> string \<Rightarrow> string" where
  "str_or_empty d k = py_str (dict_get_default d k (PStr []))"

text \<open>\<open>date.fromisoformat\<close>: calendar and week dates, in the basic and the extended form.\<close>

definition fixed_digits :: "nat \<Rightarrow> string \<Rightarrow> nat option" where
  "fixed_digits n s = (if length s = n \<and> all_digits s then Some (digits_val s) else None)"

definition week_date :: "nat \<Rightarrow> nat \<Rightarrow> nat \<Rightarrow> date option" where
  "week_date y w d =
     (let first = ordinal (Date y 1 1); weekday = (first + 6) mod 7;
          monday = first - weekday + (if weekday > 3 then 7 else 0);
          long = (weekday = 3 \<or> (weekday = 2 \<and> is_leap y)) in
      if 1 \<le> y \<and> 1 \<le> w \<and> (w \<le> 52 \<or> (w = 53 \<and> long)) \<and> 1 \<le> d \<and> d \<le> 7
      then (case date_plus (Date 1 1 1) (monday + (int w - 1) * 7 + (int d - 1) - 1) of
              Inr r \<Rightarrow> Some r | Inl e \<Rightarrow> None)
      else None)"

definition month_date :: "nat \<Rightarrow> nat \<Rightarrow> nat \<Rightarrow> date option" where
  "month_date y m d = (if valid_date (Date y m d) then Some (Date y m d) else None)"

definition fromisoformat :: "string \<Rightarrow> date option" where
  "fromisoformat s =
     (let sep = (4 < length s \<and> s ! 4 = CHR ''-''); rest = drop (if sep then 5 else 4) s in
      if length s \<notin> {7, 8, 10} then None
      else case fixed_digits 4 (take 4 s) of None \<Rightarrow> None
      | Some y \<Rightarrow>
        if rest \<noteq> [] \<and> hd rest = CHR ''W'' then
          (case fixed_digits 2 (take 2 (tl rest)) of None \<Rightarrow> None
           | Some w \<Rightarrow> let q = drop 3 rest in
               if q = [] then week_date y w 1
               else if (hd q = CHR ''-'') \<noteq> sep then None
               else (case fixed_digits 1 (if sep then tl q else q) of None \<Rightarrow> None | Some d \<Rightarrow> week_date y w d))
        else
          (case fixed_digits 2 (take 2 rest) of None \<Rightarrow> None
           | Some m \<Rightarrow> let q = drop 2 rest in
               if (q \<noteq> [] \<and> hd q = CHR ''-'') \<noteq> sep then None
               else (case fixed_digits 2 (if sep then tl q else q) of None \<Rightarrow> None | Some d \<Rightarrow> month_date y m d)))"

section \<open>Money\<close>

fun ec_check :: "pyval \<Rightarrow> string \<Rightarrow> decimal \<Rightarrow> (exn, decimal) result" where
  "ec_check v loc (Fin s c e) =
     (if - e > int MONEY_SCALE
      then Inl (MoneyError (loc @ '': money carries more than '' @ show_nat MONEY_SCALE @ '' decimal places''))
      else of_option InvalidOperation (dec_quantize (- int MONEY_SCALE) (Fin s c e)))"
| "ec_check v loc d = Inl (MoneyError (loc @ '': money must be finite; got '' @ py_repr v))"

definition ec_parse_money :: "pyval \<Rightarrow> string \<Rightarrow> (exn, decimal) result" where
  "ec_parse_money v loc = (case v of
       PBool b \<Rightarrow> Inl (MoneyError (loc @ '': money must not be a float; got '' @ py_repr v))
     | PFloat t \<Rightarrow> Inl (MoneyError (loc @ '': money must not be a float; got '' @ py_repr v))
     | PDec d \<Rightarrow> ec_check v loc d
     | PInt i \<Rightarrow> ec_check v loc (Fin (i < 0) (nat \<bar>i\<bar>) 0)
     | PStr s \<Rightarrow> (case decimal_of_string (py_strip s) of
          None \<Rightarrow> Inl (MoneyError (loc @ '': '' @ py_repr v @ '' is not an exact decimal''))
        | Some d \<Rightarrow> ec_check v loc d)
     | _ \<Rightarrow> Inl (MoneyError (loc @ '': unsupported money type '' @ type_name v)))"

definition ec_is_exact_zero :: "decimal \<Rightarrow> bool" where
  "ec_is_exact_zero d = dec_eq d ZERO"

definition ec_format_money :: "decimal \<Rightarrow> string" where
  "ec_format_money d = dec_format12 d"

section \<open>The state of completeness\<close>

definition CONTROL_OUTCOMES :: "string list" where
  "CONTROL_OUTCOMES = [''match'', ''mismatch'', ''unknown'', ''not_applicable'']"

record assessment_outcome =
  ao_state :: string
  ao_reasons :: "string list"
  ao_findings :: "finding list"
  ao_evaluated :: nat
  ao_required :: nat

definition finding_as_dict :: "finding \<Rightarrow> pyval" where
  "finding_as_dict f = PDict [(''code'', PStr (f_code f)), (''location'', PStr (f_location f)), (''message'', PStr (f_message f))]"

definition assessment_as_dict :: "assessment_outcome \<Rightarrow> pydict" where
  "assessment_as_dict a =
    [(''state'', PStr (ao_state a)), (''reasons'', PList (map PStr (sort (ao_reasons a)))),
     (''findings'', PList (map finding_as_dict (sort (ao_findings a)))),
     (''evaluated_controls'', PInt (int (ao_evaluated a))), (''required_controls'', PInt (int (ao_required a)))]"

record control_scan =
  sc_findings :: "finding list"
  sc_reasons :: "string list"
  sc_seen :: "string list"
  sc_mismatch :: bool
  sc_unknown :: bool
  sc_required :: nat
  sc_evaluated :: nat

text \<open>\<open>predeclared\<close>: of two declarations for one control type the later one stays.\<close>

definition predeclared :: "pydict \<Rightarrow> string \<Rightarrow> pydict option" where
  "predeclared expectation t =
     map_of (rev (map (\<lambda>d. (str_of d ''control_type'', d)) (objects_of expectation ''not_applicable_controls''))) t"

definition declares :: "pydict option \<Rightarrow> bool" where
  "declares d = (case d of None \<Rightarrow> False
     | Some e \<Rightarrow> truthy (dict_get e ''reason'') \<and> truthy (dict_get e ''expectation_version''))"

definition index_location :: "string \<Rightarrow> nat \<Rightarrow> string" where
  "index_location what i = what @ ''['' @ show_nat i @ '']''"

definition scan_control :: "pydict \<Rightarrow> control_scan \<Rightarrow> nat \<times> pydict \<Rightarrow> control_scan" where
  "scan_control expectation s ic = (case ic of (i, control) \<Rightarrow>
     let location = index_location ''controls'' i; t = str_or_empty control ''control_type'' in
     if t = [] then s\<lparr>sc_findings := sc_findings s @ [Finding ''CMP-CONTROL-TYPE'' location ''a control result must name its control type''],
                     sc_unknown := True\<rparr>
     else let s = s\<lparr>sc_seen := t # sc_seen s\<rparr>; out = str_or_empty control ''outcome'' in
     if out \<notin> set CONTROL_OUTCOMES
     then s\<lparr>sc_findings := sc_findings s @ [Finding ''CMP-CONTROL-OUTCOME'' location (''unknown outcome '' @ repr_str out)],
            sc_unknown := True\<rparr>
     else let required = truthy (dict_get_default control ''required'' (PBool False)) in
     if out = ''not_applicable'' then
       (if declares (predeclared expectation t) then s
        else let s = s\<lparr>sc_findings := sc_findings s @ [Finding ''CMP-NOT-APPLICABLE'' location
                (t @ '' is reported not_applicable without a versioned expectation declaring it, with a reason'')]\<rparr> in
          if required then s\<lparr>sc_unknown := True, sc_reasons := sc_reasons s @ [t @ '':not_applicable_without_declaration'']\<rparr> else s)
     else if \<not> required then s
     else let s = s\<lparr>sc_required := Suc (sc_required s), sc_evaluated := Suc (sc_evaluated s)\<rparr> in
       if out = ''mismatch'' then s\<lparr>sc_mismatch := True, sc_reasons := sc_reasons s @ [t @ '':mismatch'']\<rparr>
       else if out = ''unknown'' then s\<lparr>sc_unknown := True, sc_reasons := sc_reasons s @ [t @ '':unknown'']\<rparr>
       else s)"

definition scan_missing :: "pydict \<Rightarrow> control_scan \<Rightarrow> string \<Rightarrow> control_scan" where
  "scan_missing expectation s t =
     (if declares (predeclared expectation t) then s
      else s\<lparr>sc_required := Suc (sc_required s), sc_unknown := True, sc_reasons := sc_reasons s @ [t @ '':absent''],
             sc_findings := sc_findings s @ [Finding ''CMP-CONTROL-MISSING'' (''required_control_types['' @ t @ '']'')
               (t @ '' is required by the expectation and no result reports it; an unevaluated control is unknown, never a silent pass'')]\<rparr>)"

definition empty_scan :: control_scan where
  "empty_scan = \<lparr>sc_findings = [], sc_reasons = [], sc_seen = [], sc_mismatch = False, sc_unknown = False,
     sc_required = 0, sc_evaluated = 0\<rparr>"

definition expected_required :: "pydict \<Rightarrow> string list" where
  "expected_required expectation = map py_str (items_of expectation ''required_control_types'')"

definition derive_assessment_state :: "pydict list \<Rightarrow> pydict \<Rightarrow> assessment_outcome" where
  "derive_assessment_state controls expectation =
     (let s = foldl (scan_control expectation) empty_scan (enumerate_from 0 controls);
          missing = sorted_set (filter (\<lambda>t. t \<notin> set (sc_seen s)) (expected_required expectation));
          s = foldl (scan_missing expectation) s missing
      in \<lparr>ao_state = (if sc_mismatch s then ''mismatch'' else if sc_unknown s then ''unknown'' else ''verified''),
          ao_reasons = sc_reasons s, ao_findings = sc_findings s,
          ao_evaluated = sc_evaluated s, ao_required = sc_required s\<rparr>)"

section \<open>Accepted exceptions\<close>

definition EXCEPTION_BASE_STATES :: "string list" where
  "EXCEPTION_BASE_STATES = [''mismatch'', ''unknown'']"

definition EXCEPTION_FIELDS :: "string list" where
  "EXCEPTION_FIELDS = [''scope'', ''reason'', ''owner_subject_id'', ''approved_by'', ''approved_at'',
     ''materiality_policy_id'', ''valid_from'', ''expires_at'', ''allowed_actions'', ''evidence_refs'', ''audit_event_id'']"

definition expiry_findings :: "string \<Rightarrow> pyval \<Rightarrow> date \<Rightarrow> finding list" where
  "expiry_findings location expires as_of =
     (if \<not> truthy expires then []
      else case fromisoformat (py_str expires) of
        None \<Rightarrow> [Finding ''EXC-EXPIRY'' (location @ ''.expires_at'') (py_repr expires @ '' is not an ISO date'')]
      | Some expiry \<Rightarrow>
          if expiry \<le> as_of
          then [Finding ''EXC-EXPIRED'' (location @ ''.expires_at'') (''the exception expired on '' @ isoformat expiry
                  @ ''; an expired exception never authorises a new close'')]
          else [])"

definition validate_accepted_exception :: "pydict \<Rightarrow> string \<Rightarrow> date \<Rightarrow> finding list" where
  "validate_accepted_exception ex base_state as_of =
     (let location = ''exception['' @ py_str (dict_get_default ex ''scope'' (PStr ''?'')) @ '']'';
          owner = dict_get ex ''owner_subject_id''; approver = dict_get ex ''approved_by'' in
      sorted_set (
        (if base_state \<notin> set EXCEPTION_BASE_STATES
         then [Finding ''EXC-BASE-STATE'' location (''an exception only applies over '' @ repr_str_list EXCEPTION_BASE_STATES
                 @ ''; base state is '' @ repr_str base_state)] else [])
      @ map (\<lambda>k. Finding ''EXC-REQUIRED-FIELD'' (location @ ''.'' @ k) (''an accepted exception needs '' @ k))
          (filter (\<lambda>k. \<not> truthy (dict_get ex k)) EXCEPTION_FIELDS)
      @ (if truthy owner \<and> truthy approver \<and> owner = approver
         then [Finding ''EXC-INDEPENDENT-APPROVER'' (location @ ''.approved_by'')
           ''the owner of an exception cannot approve it; that is the whole point of an independent approver''] else [])
      @ expiry_findings location (dict_get ex ''expires_at'') as_of
      @ (if ''auto_match'' \<in> set (map py_str (items_of ex ''allowed_actions''))
         then [Finding ''EXC-AUTO-MATCH'' (location @ ''.allowed_actions'') ''an accepted exception never enables auto-match''] else [])
      @ (if truthy (dict_get ex ''changes_base_state'')
         then [Finding ''EXC-BASE-STATE'' (location @ ''.changes_base_state'')
           ''the base state is preserved; an exception discloses a problem, it does not erase it''] else [])
      @ (if \<not> truthy (dict_get_default ex ''disclosed_in_snapshot'' (PBool False))
         then [Finding ''EXC-DISCLOSURE'' (location @ ''.disclosed_in_snapshot'')
           ''an accepted exception must be disclosed in the snapshot and the report''] else [])))"

section \<open>Statements\<close>

definition RECONCILING_ITEM_STATES :: "string list" where
  "RECONCILING_ITEM_STATES = [''proposed'', ''confirmed'', ''rejected'', ''reversed'']"

definition ADJUSTMENT_SIDES :: "string list" where
  "ADJUSTMENT_SIDES = [''add_to_bank'', ''deduct_from_bank'']"

record statement_outcome =
  so_state :: string
  adjusted_bank_balance :: decimal
  unexplained_difference :: decimal
  confirmed_additions :: decimal
  confirmed_deductions :: decimal
  counted_item_ids :: "string list"
  ignored_item_ids :: "string list"
  so_findings :: "finding list"

definition statement_as_dict :: "statement_outcome \<Rightarrow> pydict" where
  "statement_as_dict s =
    [(''state'', PStr (so_state s)), (''adjusted_bank_balance'', PStr (ec_format_money (adjusted_bank_balance s))),
     (''unexplained_difference'', PStr (ec_format_money (unexplained_difference s))),
     (''confirmed_additions_to_bank'', PStr (ec_format_money (confirmed_additions s))),
     (''confirmed_deductions_from_bank'', PStr (ec_format_money (confirmed_deductions s))),
     (''counted_item_ids'', PList (map PStr (sort (counted_item_ids s)))),
     (''ignored_item_ids'', PList (map PStr (sort (ignored_item_ids s)))),
     (''findings'', PList (map finding_as_dict (sort (so_findings s))))]"

text \<open>\<open>except MoneyError\<close>: any other exception goes on.\<close>

definition catch_money :: "(exn, 'a) result \<Rightarrow> (string \<Rightarrow> (exn, 'b) result) \<Rightarrow> ('a \<Rightarrow> (exn, 'b) result) \<Rightarrow> (exn, 'b) result" where
  "catch_money r handler body = (case r of Inl (MoneyError s) \<Rightarrow> handler s | Inl e \<Rightarrow> Inl e | Inr x \<Rightarrow> body x)"

definition confirmed_findings :: "pydict \<Rightarrow> string \<Rightarrow> finding list" where
  "confirmed_findings item location =
     map (\<lambda>k. Finding ''BAL-CONFIRMED-EVIDENCE'' (location @ ''.'' @ k) (''a confirmed item needs '' @ k))
       (filter (\<lambda>k. \<not> truthy (dict_get item k)) [''approved_by'', ''approved_at'', ''sod_check'', ''evidence_refs''])
   @ (if truthy (dict_get item ''prepared_by'') \<and> truthy (dict_get item ''approved_by'')
         \<and> dict_get item ''prepared_by'' = dict_get item ''approved_by''
      then [Finding ''BAL-SOD'' (location @ ''.approved_by'') ''whoever prepared a reconciling item cannot approve it''] else [])"

definition validate_reconciling_item :: "pydict \<Rightarrow> pydict \<Rightarrow> string \<Rightarrow> (exn, finding list) result" where
  "validate_reconciling_item item st location =
     (let side = str_or_empty item ''adjustment_side''; state = str_or_empty item ''state'';
          scope = (if str_or_empty item ''company_id'' \<noteq> str_or_empty st ''company_id''
             then [Finding ''BAL-COMPANY-SCOPE'' location ''a reconciling item from another company never enters this statement''] else [])
           @ (if str_or_empty item ''statement_id'' \<noteq> str_or_empty st ''statement_id''
             then [Finding ''BAL-STATEMENT-SCOPE'' location ''the item belongs to another statement''] else [])
           @ (if str_or_empty item ''currency_code'' \<noteq> str_or_empty st ''currency_code''
             then [Finding ''BAL-CURRENCY'' location ''a statement is single-currency; mixing currencies would add numbers that are not comparable''] else [])
           @ (if side \<notin> set ADJUSTMENT_SIDES
             then [Finding ''BAL-ADJUSTMENT-SIDE'' location (''unknown adjustment side '' @ repr_str side)] else [])
           @ (if state \<notin> set RECONCILING_ITEM_STATES
             then [Finding ''BAL-ITEM-STATE'' location (''unknown reconciling item state '' @ repr_str state)] else []);
          confirmed = (if state = ''confirmed'' then confirmed_findings item location else [])
      in catch_money (ec_parse_money (dict_get item ''amount'') location)
          (\<lambda>s. Inr (scope @ [Finding ''BAL-MONEY'' location s] @ confirmed))
          (\<lambda>a. Inr (scope @ (if dec_lt0 a \<or> dec_eq a ZERO
               then [Finding ''BAL-AMOUNT-POSITIVE'' location ''a reconciling item amount is positive; the side carries the direction'']
               else []) @ confirmed)))"

record statement_scan =
  ss_additions :: decimal
  ss_deductions :: decimal
  ss_counted :: "string list"
  ss_ignored :: "string list"
  ss_findings :: "finding list"

definition item_identifier :: "nat \<times> pydict \<Rightarrow> string" where
  "item_identifier it = py_str (dict_get_default (snd it) ''item_id'' (PInt (int (fst it))))"

definition item_location :: "nat \<times> pydict \<Rightarrow> string" where
  "item_location it = ''items['' @ item_identifier it @ '']''"

text \<open>One turn of the loop over the items.\<close>

definition scan_item :: "pydict \<Rightarrow> statement_scan \<Rightarrow> nat \<times> pydict \<Rightarrow> (exn, statement_scan) result" where
  "scan_item st s it = (case it of (i, item) \<Rightarrow>
     let identifier = item_identifier (i, item); location = item_location (i, item) in
     rbind (validate_reconciling_item item st location) (\<lambda>fs.
       let s = s\<lparr>ss_findings := ss_findings s @ fs\<rparr> in
       if str_of item ''state'' \<noteq> ''confirmed'' \<or> fs \<noteq> [] then Inr (s\<lparr>ss_ignored := ss_ignored s @ [identifier]\<rparr>)
       else rbind (ec_parse_money (dict_get item ''amount'') location) (\<lambda>a.
         if str_of item ''adjustment_side'' = ''add_to_bank''
         then rbind (of_option InvalidOperation (dec_add (ss_additions s) a)) (\<lambda>t.
           Inr (s\<lparr>ss_additions := t, ss_counted := ss_counted s @ [identifier]\<rparr>))
         else rbind (of_option InvalidOperation (dec_add (ss_deductions s) a)) (\<lambda>t.
           Inr (s\<lparr>ss_deductions := t, ss_counted := ss_counted s @ [identifier]\<rparr>)))))"

fun scan_items :: "pydict \<Rightarrow> statement_scan \<Rightarrow> (nat \<times> pydict) list \<Rightarrow> (exn, statement_scan) result" where
  "scan_items st s [] = Inr s"
| "scan_items st s (it # its) = rbind (scan_item st s it) (\<lambda>t. scan_items st t its)"

definition empty_statement_scan :: statement_scan where
  "empty_statement_scan = \<lparr>ss_additions = ZERO, ss_deductions = ZERO, ss_counted = [], ss_ignored = [], ss_findings = []\<rparr>"

definition ec_quantize :: "decimal \<Rightarrow> (exn, decimal) result" where
  "ec_quantize d = of_option InvalidOperation (dec_quantize (- int MONEY_SCALE) d)"

text \<open>\<open>(bank_closing + additions - deductions).quantize(...)\<close> and the difference to the books.\<close>

definition adjusted_balance :: "decimal \<Rightarrow> decimal \<Rightarrow> decimal \<Rightarrow> (exn, decimal) result" where
  "adjusted_balance bank additions deductions =
     rbind (of_option InvalidOperation (dec_add bank additions)) (\<lambda>t.
     rbind (of_option InvalidOperation (dec_sub t deductions)) ec_quantize)"

definition close_statement :: "decimal \<Rightarrow> decimal \<Rightarrow> statement_scan \<Rightarrow> (exn, statement_outcome) result" where
  "close_statement bank books s =
     rbind (adjusted_balance bank (ss_additions s) (ss_deductions s)) (\<lambda>adjusted.
     rbind (rbind (of_option InvalidOperation (dec_sub adjusted books)) ec_quantize) (\<lambda>unexplained.
       Inr \<lparr>so_state = (if ss_findings s \<noteq> [] then ''review_required''
              else if ec_is_exact_zero unexplained then ''balanced'' else ''review_required''),
            adjusted_bank_balance = adjusted, unexplained_difference = unexplained,
            confirmed_additions = ss_additions s, confirmed_deductions = ss_deductions s,
            counted_item_ids = ss_counted s, ignored_item_ids = ss_ignored s, so_findings = ss_findings s\<rparr>))"

definition unreadable_statement :: "string \<Rightarrow> statement_outcome" where
  "unreadable_statement msg = \<lparr>so_state = ''review_required'', adjusted_bank_balance = ZERO, unexplained_difference = ZERO,
     confirmed_additions = ZERO, confirmed_deductions = ZERO, counted_item_ids = [], ignored_item_ids = [],
     so_findings = [Finding ''BAL-MONEY'' ''statement'' msg]\<rparr>"

definition compute_statement :: "pydict \<Rightarrow> pydict list \<Rightarrow> (exn, statement_outcome) result" where
  "compute_statement st items =
     catch_money (rbind (ec_parse_money (dict_get st ''bank_closing_balance'') ''bank_closing_balance'') (\<lambda>bank.
         rbind (ec_parse_money (dict_get st ''books_closing_balance'') ''books_closing_balance'') (\<lambda>books. Inr (bank, books))))
       (\<lambda>msg. Inr (unreadable_statement msg))
       (\<lambda>(bank, books). rbind (scan_items st empty_statement_scan (enumerate_from 0 items)) (close_statement bank books))"

definition apply_statement_exception :: "statement_outcome \<Rightarrow> pydict option \<Rightarrow> date \<Rightarrow> statement_outcome" where
  "apply_statement_exception out ex as_of =
     (if ec_is_exact_zero (unexplained_difference out) \<and> so_findings out = [] then out
      else case ex of
        None \<Rightarrow> out\<lparr>so_state := ''review_required'', so_findings := so_findings out @ [Finding ''BAL-UNEXPLAINED'' ''statement''
             (''unexplained difference '' @ ec_format_money (unexplained_difference out)
               @ '' without an accepted exception; a statement is never labelled balanced with a difference'')]\<rparr>
      | Some e \<Rightarrow>
          let problems = validate_accepted_exception e ''mismatch'' as_of in
          if problems \<noteq> [] then out\<lparr>so_state := ''review_required'', so_findings := so_findings out @ problems\<rparr>
          else out\<lparr>so_state := ''exception_accepted''\<rparr>)"

section \<open>The close gate\<close>

record close_outcome =
  co_ready :: bool
  co_state :: string
  co_unmet :: "string list"
  co_findings :: "finding list"

definition close_as_dict :: "close_outcome \<Rightarrow> pydict" where
  "close_as_dict c =
    [(''ready'', PBool (co_ready c)), (''state'', PStr (co_state c)),
     (''unmet_conditions'', PList (map PStr (sort (co_unmet c)))),
     (''findings'', PList (map finding_as_dict (sort (co_findings c))))]"

text \<open>Every check gives the conditions it leaves unmet and its findings; the gate collects them in order.\<close>

type_synonym unmet = "string list \<times> finding list"

definition no_unmet :: unmet where "no_unmet = ([], [])"
definition one_unmet :: "string \<Rightarrow> finding \<Rightarrow> unmet" where "one_unmet c f = ([c], [f])"
definition join_unmet :: "unmet list \<Rightarrow> unmet" where
  "join_unmet us = (concat (map fst us), concat (map snd us))"

definition check_sources :: "pydict \<Rightarrow> unmet" where
  "check_sources period =
     (let missing = sorted_set (filter (\<lambda>s. s \<notin> set (map (\<lambda>a. str_of a ''data_source_id'') (objects_of period ''assessments'')))
            (map py_str (items_of period ''expected_source_ids''))) in
      if missing \<noteq> [] then one_unmet ''every_expected_source_has_assessment''
        (Finding ''CLOSE-SOURCE-COVERAGE'' ''expected_source_ids'' (''no assessment for '' @ repr_str_list missing))
      else no_unmet)"

definition exception_for :: "pydict \<Rightarrow> string \<Rightarrow> pydict option" where
  "exception_for period scope =
     map_of (rev (map (\<lambda>e. (str_of e ''scope'', e)) (objects_of period ''accepted_exceptions''))) scope"

definition check_assessment :: "pydict \<Rightarrow> date \<Rightarrow> nat \<times> pydict \<Rightarrow> unmet" where
  "check_assessment period as_of ia = (case ia of (i, a) \<Rightarrow>
     let state = str_of a ''state''; scope = str_of a ''data_source_id'' in
     if state = ''mismatch'' \<or> state = ''unknown'' then
       (case exception_for period scope of
          None \<Rightarrow> one_unmet ''no_unhandled_mismatch_or_unknown''
            (Finding ''CLOSE-UNHANDLED'' (index_location ''assessments'' i) (scope @ '' is '' @ state @ '' and no accepted exception covers it''))
        | Some e \<Rightarrow> let problems = validate_accepted_exception e state as_of in
            if problems \<noteq> [] then ([''no_unhandled_mismatch_or_unknown''], problems) else no_unmet)
     else no_unmet)"

definition account_key :: "pydict \<Rightarrow> string \<times> string" where
  "account_key d = (str_of d ''financial_account_id'', str_of d ''currency_code'')"

definition repr_pairs :: "(string \<times> string) list \<Rightarrow> string" where
  "repr_pairs ps = ''['' @ py_join '', '' (map (\<lambda>(a, b). ''('' @ repr_str a @ '', '' @ repr_str b @ '')'') ps) @ '']''"

definition check_accounts :: "pydict \<Rightarrow> unmet" where
  "check_accounts period =
     (let missing = sorted_set (filter (\<lambda>k. k \<notin> set (map account_key (objects_of period ''statements'')))
            (map account_key (objects_of period ''required_accounts''))) in
      if missing \<noteq> [] then one_unmet ''statement_for_every_required_account_and_currency''
        (Finding ''CLOSE-STATEMENT-COVERAGE'' ''required_accounts'' (''no statement for '' @ repr_pairs missing))
      else no_unmet)"

definition check_statement :: "nat \<times> pydict \<Rightarrow> (exn, unmet) result" where
  "check_statement ist = (case ist of (i, st) \<Rightarrow>
     let state = str_of st ''state''; location = index_location ''statements'' i;
         label = (if state \<noteq> ''balanced'' \<and> state \<noteq> ''exception_accepted''
           then one_unmet ''every_statement_balanced_or_explicit_exception_accepted''
             (Finding ''CLOSE-STATEMENT-STATE'' location (''statement state is '' @ repr_str state)) else no_unmet) in
     catch_money (ec_parse_money (dict_get_default st ''unexplained_difference'' (PStr ''0'')) location)
       (\<lambda>msg. Inr (join_unmet [label, one_unmet ''no_hidden_unexplained_difference'' (Finding ''CLOSE-MONEY'' location msg)]))
       (\<lambda>v. Inr (join_unmet [label,
          if \<not> ec_is_exact_zero v \<and> state \<noteq> ''exception_accepted''
          then one_unmet ''no_hidden_unexplained_difference'' (Finding ''CLOSE-HIDDEN-DIFFERENCE'' location
            (''unexplained difference '' @ ec_format_money v @ '' outside an accepted exception'')) else no_unmet,
          if state = ''balanced'' \<and> \<not> ec_is_exact_zero v
          then one_unmet ''every_statement_balanced_or_explicit_exception_accepted'' (Finding ''CLOSE-BALANCED-LABEL'' location
            ''a statement labelled balanced must have an exact zero difference'') else no_unmet])))"

definition check_item :: "nat \<times> pydict \<Rightarrow> unmet" where
  "check_item ii = (case ii of (i, item) \<Rightarrow>
     if \<not> truthy (dict_get item ''evidence_refs'') \<or> \<not> truthy (dict_get item ''sod_check'')
     then one_unmet ''confirmed_items_have_evidence_and_sod'' (Finding ''CLOSE-ITEM-EVIDENCE'' (index_location ''confirmed_items'' i)
       ''a confirmed item needs evidence and a SoD check'') else no_unmet)"

definition check_published :: "nat \<times> pydict \<Rightarrow> unmet" where
  "check_published ip = (case ip of (i, p) \<Rightarrow>
     if \<not> truthy (dict_get p ''lineage_ref'')
     then one_unmet ''all_published_fields_and_decisions_have_lineage'' (Finding ''CLOSE-LINEAGE'' (index_location ''published_fields'' i)
       ''a published field must carry lineage to evidence'') else no_unmet)"

definition check_version :: "pydict \<Rightarrow> string \<Rightarrow> unmet" where
  "check_version versions k =
     (let v = py_lower (py_strip (str_or_empty versions k)) in
      if v = [] \<or> v \<in> {''latest'', ''main'', ''head'', ''stable'', ''current''}
      then one_unmet ''engine_schema_reference_and_rule_versions_fixed'' (Finding ''CLOSE-VERSION'' (''fixed_versions.'' @ k)
        (k @ '' must be fixed to an exact version; got '' @ py_repr (dict_get versions k))) else no_unmet)"

definition check_authorization :: "pydict \<Rightarrow> unmet" where
  "check_authorization period =
     (if \<not> truthy (dict_get_default period ''authorization_revalidated_before_snapshot'' (PBool False))
      then one_unmet ''authorization_revalidated_before_snapshot'' (Finding ''CLOSE-AUTHORIZATION''
        ''authorization_revalidated_before_snapshot'' ''authorization is revalidated server-side before the snapshot'') else no_unmet)"

definition check_matching :: "pydict \<Rightarrow> unmet" where
  "check_matching period =
     (if truthy (dict_get period ''matching_coverage_offered_as_completeness'')
      then one_unmet ''no_unhandled_mismatch_or_unknown'' (Finding ''CLOSE-MATCHING-NOT-COMPLETENESS'' ''matching_coverage''
        ''match coverage answers a different question than completeness; it never substitutes an assessment'') else no_unmet)"

definition fixed_versions :: "pydict \<Rightarrow> pydict" where
  "fixed_versions period = as_object (dict_get period ''fixed_versions'')"

definition close_checks :: "pydict \<Rightarrow> date \<Rightarrow> unmet list \<Rightarrow> unmet" where
  "close_checks period as_of statement_checks = join_unmet
     ([check_sources period]
    @ map (check_assessment period as_of) (enumerate_from 0 (objects_of period ''assessments''))
    @ [check_accounts period] @ statement_checks
    @ map check_item (enumerate_from 0 (objects_of period ''confirmed_items''))
    @ map check_published (enumerate_from 0 (objects_of period ''published_fields''))
    @ map (check_version (fixed_versions period)) [''engine_release_id'', ''canonical_schema_version'', ''rule_version'']
    @ [check_authorization period, check_matching period])"

definition evaluate_close_readiness :: "pydict \<Rightarrow> date \<Rightarrow> (exn, close_outcome) result" where
  "evaluate_close_readiness period as_of =
     rbind (map_result check_statement (enumerate_from 0 (objects_of period ''statements''))) (\<lambda>sts.
       case close_checks period as_of sts of (unmet, findings) \<Rightarrow>
         Inr (if unmet \<noteq> []
              then \<lparr>co_ready = False, co_state = ''not_ready'', co_unmet = sorted_set unmet, co_findings = sorted_set findings\<rparr>
              else \<lparr>co_ready = True,
                    co_state = (if items_of period ''accepted_exceptions'' \<noteq> [] then ''closed_with_disclosed_exception'' else ''ready''),
                    co_unmet = [], co_findings = []\<rparr>))"

section \<open>The verdict on completeness\<close>

definition control_type :: "pydict \<Rightarrow> string" where "control_type c = str_or_empty c ''control_type''"
definition control_result :: "pydict \<Rightarrow> string" where "control_result c = str_or_empty c ''outcome''"
definition control_required :: "pydict \<Rightarrow> bool" where
  "control_required c = truthy (dict_get_default c ''required'' (PBool False))"

text \<open>A control that shows a mismatch, and one that leaves the question open.\<close>

definition shows_mismatch :: "pydict \<Rightarrow> bool" where
  "shows_mismatch c = (control_type c \<noteq> [] \<and> control_result c = ''mismatch'' \<and> control_required c)"

definition leaves_open :: "pydict \<Rightarrow> pydict \<Rightarrow> bool" where
  "leaves_open expectation c =
     (control_type c = [] \<or> control_result c \<notin> set CONTROL_OUTCOMES
      \<or> (control_required c \<and> (control_result c = ''unknown''
           \<or> (control_result c = ''not_applicable'' \<and> \<not> declares (predeclared expectation (control_type c))))))"

lemma scan_control_step:
  "sc_mismatch (scan_control ex s (i, c)) = (sc_mismatch s \<or> shows_mismatch c)"
  "sc_unknown (scan_control ex s (i, c)) = (sc_unknown s \<or> leaves_open ex c)"
  "set (sc_seen (scan_control ex s (i, c))) = set (sc_seen s) \<union> ({control_type c} - {[]})"
  by (auto simp: scan_control_def Let_def shows_mismatch_def leaves_open_def control_type_def control_result_def
      control_required_def CONTROL_OUTCOMES_def)

lemma scan_controls:
  "sc_mismatch (foldl (scan_control ex) s (enumerate_from i cs)) = (sc_mismatch s \<or> (\<exists>c \<in> set cs. shows_mismatch c))"
  "sc_unknown (foldl (scan_control ex) s (enumerate_from i cs)) = (sc_unknown s \<or> (\<exists>c \<in> set cs. leaves_open ex c))"
  "set (sc_seen (foldl (scan_control ex) s (enumerate_from i cs))) = set (sc_seen s) \<union> (control_type ` set cs - {[]})"
  by (induction cs arbitrary: s i) (auto simp: scan_control_step)

lemma scan_missing_all:
  "sc_mismatch (foldl (scan_missing ex) s ts) = sc_mismatch s"
  "sc_unknown (foldl (scan_missing ex) s ts) = (sc_unknown s \<or> (\<exists>t \<in> set ts. \<not> declares (predeclared ex t)))"
  by (induction ts arbitrary: s) (auto simp: scan_missing_def)

text \<open>
  C35. The verdict on completeness is the contract's precedence: \<open>mismatch\<close> when some required control
  shows one, otherwise \<open>unknown\<close> when any result is unreadable, any required control is unknown or
  inapplicable without a versioned declaration, or a required type has no result and no declaration,
  and \<open>verified\<close> only when none of that holds; the order of the results does not matter.
\<close>

theorem assessment_precedence:
  "ao_state (derive_assessment_state controls expectation) =
    (if \<exists>c \<in> set controls. shows_mismatch c then ''mismatch''
     else if (\<exists>c \<in> set controls. leaves_open expectation c)
       \<or> (\<exists>t \<in> set (expected_required expectation). t \<notin> control_type ` set controls - {[]}
            \<and> \<not> declares (predeclared expectation t)) then ''unknown''
     else ''verified'')"
proof -
  let ?s = "foldl (scan_control expectation) empty_scan (enumerate_from 0 controls)"
  have "sc_mismatch ?s = (\<exists>c \<in> set controls. shows_mismatch c)"
    "sc_unknown ?s = (\<exists>c \<in> set controls. leaves_open expectation c)"
    "set (sc_seen ?s) = control_type ` set controls - {[]}"
    by (simp_all add: scan_controls empty_scan_def)
  then show ?thesis
    by (auto simp: derive_assessment_state_def Let_def scan_missing_all)
qed

theorem assessment_precedence_witness:
  "ao_state (derive_assessment_state [[(''control_type'', PStr ''totals''), (''outcome'', PStr ''match''), (''required'', PBool True)]]
     [(''required_control_types'', PList [PStr ''totals'', PStr ''sequence''])]) = ''unknown''"
  unfolding assessment_precedence
  by (simp add: shows_mismatch_def leaves_open_def control_type_def control_result_def control_required_def str_or_empty_def
      dict_get_default_def CONTROL_OUTCOMES_def expected_required_def items_of_def dict_get_def declares_def predeclared_def objects_of_def)

text \<open>
  Whether a control is required is read from the result, not from the expectation: a type that the
  expectation requires is verified although its only result says \<open>mismatch\<close>, or \<open>unknown\<close>, as soon as
  that result does not call itself required.
\<close>

theorem expected_mismatch_can_be_verified:
  assumes "out \<in> {''mismatch'', ''unknown''}" and "t \<noteq> []"
  shows "ao_state (derive_assessment_state [[(''control_type'', PStr t), (''outcome'', PStr out)]]
     [(''required_control_types'', PList [PStr t])]) = ''verified''"
proof -
  let ?c = "[(''control_type'', PStr t), (''outcome'', PStr out)]" and ?e = "[(''required_control_types'', PList [PStr t])]"
  have "derive_assessment_state [?c] ?e = \<lparr>ao_state = ''verified'', ao_reasons = [], ao_findings = [], ao_evaluated = 0, ao_required = 0\<rparr>"
    using assms by (auto simp: derive_assessment_state_def scan_control_def str_or_empty_def dict_get_default_def
        CONTROL_OUTCOMES_def expected_required_def items_of_def dict_get_def empty_scan_def)
  then show ?thesis by simp
qed

theorem expected_mismatch_can_be_verified_witness:
  "ao_state (derive_assessment_state [[(''control_type'', PStr ''totals''), (''outcome'', PStr ''mismatch'')]]
     [(''required_control_types'', PList [PStr ''totals''])]) = ''verified''"
  by (rule expected_mismatch_can_be_verified) simp_all

section \<open>The two readers of money\<close>

text \<open>The engine reads money as the product does; the 38-digit check of the product never decides.\<close>

lemma ec_check_check: "ec_check v loc d = check_money v loc d"
proof (cases d)
  case (Fin s c e)
  then show ?thesis
    by (simp add: check_money_Fin quantize_money_def MONEY_SCALE_def show_nat.simps del: check_money.simps)
qed simp_all

lemma ec_parse_money_parse: "ec_parse_money v loc = parse_money v loc"
  by (auto simp: ec_parse_money_def parse_money_def ec_check_check split: pyval.splits option.splits)

lemma ec_parse_money_is_money: "ec_parse_money v loc = Inr d \<Longrightarrow> is_money d"
  by (simp add: ec_parse_money_parse parse_money_is_money)

lemma parse_money_location: "ec_parse_money v loc = Inr d \<Longrightarrow> ec_parse_money v loc' = Inr d"
  by (auto simp: ec_parse_money_parse parse_money_reading check_money_ok)

lemma ec_quantize_money: "is_money d \<Longrightarrow> ec_quantize d = Inr d"
proof -
  assume "is_money d"
  then obtain s c where d: "d = Fin s c (-12)" "c < 10 ^ 28" by (rule is_money_cases)
  then have "quantize_money d = Inr d" by (simp add: quantize_money_Fin)
  then show ?thesis by (simp add: ec_quantize_def quantize_money_def)
qed

interpretation engine: exact_addition "\<lambda>a b. of_option InvalidOperation (dec_add a b)"
proof
  fix a b assume "is_money a" "is_money b" "\<bar>units a + units b\<bar> < 10 ^ 28"
  then show "\<exists>d. of_option InvalidOperation (dec_add a b) = Inr d \<and> is_money d \<and> units d = units a + units b"
    using dec_add_exact [of a b] by auto
qed

section \<open>Statements balance exactly\<close>

text \<open>An item counts when it is confirmed and valid; its amount is then a positive money value.\<close>

definition counts :: "pydict \<Rightarrow> nat \<times> pydict \<Rightarrow> bool" where
  "counts st it = (str_of (snd it) ''state'' = ''confirmed''
     \<and> validate_reconciling_item (snd it) st (item_location it) = Inr [])"

definition item_amount :: "pydict \<Rightarrow> decimal" where
  "item_amount item = (case ec_parse_money (dict_get item ''amount'') [] of Inr a \<Rightarrow> a | Inl e \<Rightarrow> ZERO)"

definition adds_to_bank :: "pydict \<Rightarrow> bool" where
  "adds_to_bank item = (str_of item ''adjustment_side'' = ''add_to_bank'')"

definition counted_amounts :: "pydict \<Rightarrow> bool \<Rightarrow> (nat \<times> pydict) list \<Rightarrow> decimal list" where
  "counted_amounts st side its = map (\<lambda>it. item_amount (snd it)) (filter (\<lambda>it. counts st it \<and> adds_to_bank (snd it) = side) its)"

lemma counted_item_money:
  assumes "counts st it"
  shows "ec_parse_money (dict_get (snd it) ''amount'') loc = Inr (item_amount (snd it))"
    and "is_money (item_amount (snd it))" and "0 < units (item_amount (snd it))"
proof -
  obtain a where a: "ec_parse_money (dict_get (snd it) ''amount'') (item_location it) = Inr a" and pos: "\<not> dec_lt0 a \<and> \<not> dec_eq a ZERO"
    using assms by (auto simp: counts_def validate_reconciling_item_def Let_def catch_money_def split: sum.splits exn.splits if_splits)
  have e: "item_amount (snd it) = a" using parse_money_location [OF a, of "[]"] by (simp add: item_amount_def)
  show "ec_parse_money (dict_get (snd it) ''amount'') loc = Inr (item_amount (snd it))"
    using parse_money_location [OF a] e by simp
  show m: "is_money (item_amount (snd it))" using ec_parse_money_is_money [OF a] e by simp
  have "units a \<noteq> 0" "\<not> units a < 0"
    using pos m e by (cases a; auto simp: signed_def ZERO_def dec_align_def)+
  then show "0 < units (item_amount (snd it))" using e by simp
qed

text \<open>What one run of the loop leaves: the totals of the counted items, side by side.\<close>

lemma scan_item_totals:
  assumes "scan_item st s it = Inr t"
  shows "run_total (\<lambda>a b. of_option InvalidOperation (dec_add a b)) (ss_additions s) (counted_amounts st True [it]) = Inr (ss_additions t)"
    and "run_total (\<lambda>a b. of_option InvalidOperation (dec_add a b)) (ss_deductions s) (counted_amounts st False [it]) = Inr (ss_deductions t)"
proof -
  obtain i item where it: "it = (i, item)" by (cases it)
  obtain fs where fs: "validate_reconciling_item item st (item_location (i, item)) = Inr fs"
    using assms by (auto simp: scan_item_def it rbind_Inr_iff Let_def)
  have both: "run_total (\<lambda>a b. of_option InvalidOperation (dec_add a b)) (ss_additions s) (counted_amounts st True [it]) = Inr (ss_additions t)
    \<and> run_total (\<lambda>a b. of_option InvalidOperation (dec_add a b)) (ss_deductions s) (counted_amounts st False [it]) = Inr (ss_deductions t)"
  proof (cases "counts st it")
    case True
    then have c: "str_of item ''state'' = ''confirmed''" "fs = []" using fs by (simp_all add: counts_def it)
    have a: "ec_parse_money (dict_get item ''amount'') loc = Inr (item_amount item)" for loc
      using counted_item_money(1) [OF True] by (simp add: it)
    show ?thesis
      using assms True fs c a
      by (auto simp: scan_item_def it Let_def rbind_Inr_iff counted_amounts_def adds_to_bank_def split: if_splits)
  next
    case False
    then have "str_of item ''state'' \<noteq> ''confirmed'' \<or> fs \<noteq> []" using fs by (auto simp: counts_def it)
    then show ?thesis
      using assms False fs by (auto simp: scan_item_def it Let_def counted_amounts_def)
  qed
  then show "run_total (\<lambda>a b. of_option InvalidOperation (dec_add a b)) (ss_additions s) (counted_amounts st True [it]) = Inr (ss_additions t)"
    and "run_total (\<lambda>a b. of_option InvalidOperation (dec_add a b)) (ss_deductions s) (counted_amounts st False [it]) = Inr (ss_deductions t)"
    by blast+
qed

lemma run_total_append: "run_total plus_of a (bs @ cs) = rbind (run_total plus_of a bs) (\<lambda>c. run_total plus_of c cs)"
proof (induction bs arbitrary: a)
  case (Cons b bs)
  then show ?case by (cases "plus_of a b") simp_all
qed simp

lemma counted_amounts_Cons: "counted_amounts st side (it # its) = counted_amounts st side [it] @ counted_amounts st side its"
  by (simp add: counted_amounts_def)

lemma scan_items_totals:
  "scan_items st s its = Inr t \<Longrightarrow>
     run_total (\<lambda>a b. of_option InvalidOperation (dec_add a b)) (ss_additions s) (counted_amounts st True its) = Inr (ss_additions t)
     \<and> run_total (\<lambda>a b. of_option InvalidOperation (dec_add a b)) (ss_deductions s) (counted_amounts st False its) = Inr (ss_deductions t)"
proof (induction its arbitrary: s)
  case Nil
  then show ?case by (simp add: counted_amounts_def)
next
  case (Cons it its)
  then obtain u where u: "scan_item st s it = Inr u" "scan_items st u its = Inr t" by (auto simp: rbind_Inr_iff)
  show ?case
    unfolding counted_amounts_Cons [of st _ it its] run_total_append
    using scan_item_totals [OF u(1)] Cons.IH [OF u(2)] by simp
qed

definition counted_total :: "pydict \<Rightarrow> bool \<Rightarrow> pydict list \<Rightarrow> int" where
  "counted_total st side items = sum_list (map units (counted_amounts st side (enumerate_from 0 items)))"

lemma counted_amounts_money: "d \<in> set (counted_amounts st side its) \<Longrightarrow> is_money d \<and> 0 < units d"
  using counted_item_money(2,3) by (auto simp: counted_amounts_def)

lemma counted_total_nonneg: "0 \<le> counted_total st side items"
  unfolding counted_total_def using counted_amounts_money by (intro sum_list_nonneg) (auto intro: less_imp_le)

lemma compute_statement_run:
  assumes "compute_statement st items = Inr out"
    and "ec_parse_money (dict_get st ''bank_closing_balance'') ''bank_closing_balance'' = Inr bank"
    and "ec_parse_money (dict_get st ''books_closing_balance'') ''books_closing_balance'' = Inr books"
  obtains s where "scan_items st empty_statement_scan (enumerate_from 0 items) = Inr s" "close_statement bank books s = Inr out"
  using assms by (auto simp: compute_statement_def catch_money_def rbind_Inr_iff)

text \<open>
  C32. A statement is labelled balanced exactly when the bank balance, plus the confirmed valid
  additions, minus the confirmed valid deductions, equals the book balance to the last of its twelve
  decimals, and no item raised a finding; items that are only proposed, rejected or invalid change
  nothing. This holds while the four totals together stay below 10^16.
\<close>

theorem statement_balances_exactly:
  assumes out: "compute_statement st items = Inr out"
    and bank: "ec_parse_money (dict_get st ''bank_closing_balance'') ''bank_closing_balance'' = Inr bank"
    and books: "ec_parse_money (dict_get st ''books_closing_balance'') ''books_closing_balance'' = Inr books"
    and range: "\<bar>units bank\<bar> + counted_total st True items + counted_total st False items + \<bar>units books\<bar> < 10 ^ 28"
  shows "units (unexplained_difference out) =
      units bank + counted_total st True items - counted_total st False items - units books
    \<and> (so_state out = ''balanced'' \<longleftrightarrow> so_findings out = []
        \<and> units bank + counted_total st True items = units books + counted_total st False items)"
proof -
  let ?A = "counted_total st True items" and ?D = "counted_total st False items"
  obtain s where s: "scan_items st empty_statement_scan (enumerate_from 0 items) = Inr s"
    and c: "close_statement bank books s = Inr out"
    using compute_statement_run [OF out bank books] .
  have m: "is_money bank" "is_money books" using ec_parse_money_is_money bank books by blast+
  have nn: "0 \<le> ?A" "0 \<le> ?D" by (rule counted_total_nonneg)+
  have total: "is_money (ss_additions s) \<and> units (ss_additions s) = ?A" "is_money (ss_deductions s) \<and> units (ss_deductions s) = ?D"
    using scan_items_totals [OF s] range nn
      engine.run_total_exact [of ZERO "counted_amounts st True (enumerate_from 0 items)"]
      engine.run_total_exact [of ZERO "counted_amounts st False (enumerate_from 0 items)"]
      counted_amounts_money
    by (force simp: empty_statement_scan_def counted_total_def less_imp_le)+
  have "\<bar>units bank + units (ss_additions s)\<bar> < 10 ^ 28" using total range nn by linarith
  then obtain t where t: "dec_add bank (ss_additions s) = Some t" "is_money t" "units t = units bank + ?A"
    using dec_add_exact [OF m(1), of "ss_additions s"] total by auto
  have "\<bar>units t - units (ss_deductions s)\<bar> < 10 ^ 28" using total t range nn by linarith
  then obtain a where a: "dec_sub t (ss_deductions s) = Some a" "is_money a" "units a = units bank + ?A - ?D"
    using dec_sub_exact [OF t(2), of "ss_deductions s"] total t by auto
  have "\<bar>units a - units books\<bar> < 10 ^ 28" using a range nn by linarith
  then obtain u where u: "dec_sub a books = Some u" "is_money u" "units u = units bank + ?A - ?D - units books"
    using dec_sub_exact [OF a(2) m(2)] a by auto
  have o: "out = \<lparr>so_state = (if ss_findings s \<noteq> [] then ''review_required''
              else if ec_is_exact_zero u then ''balanced'' else ''review_required''),
            adjusted_bank_balance = a, unexplained_difference = u,
            confirmed_additions = ss_additions s, confirmed_deductions = ss_deductions s,
            counted_item_ids = ss_counted s, ignored_item_ids = ss_ignored s, so_findings = ss_findings s\<rparr>"
    using c by (simp add: close_statement_def adjusted_balance_def t a u ec_quantize_money)
  have "ec_is_exact_zero u \<longleftrightarrow> units u = 0"
    using is_exact_zero_money [OF u(2)] by (simp add: ec_is_exact_zero_def is_exact_zero_def)
  then show ?thesis using u(3) by (auto simp: o)
qed

definition sample_item :: "string \<Rightarrow> decimal \<Rightarrow> pydict" where
  "sample_item side a = [(''adjustment_side'', PStr side), (''state'', PStr ''confirmed''), (''amount'', PDec a),
     (''approved_by'', PStr ''luis''), (''approved_at'', PStr ''t''), (''sod_check'', PBool True), (''evidence_refs'', PStr ''e'')]"

lemma sample_item_valid:
  assumes "side \<in> set ADJUSTMENT_SIDES" and "0 < c" and "c < 10 ^ 28"
  shows "validate_reconciling_item (sample_item side (Fin False c (-12))) [(''bank_closing_balance'', x), (''books_closing_balance'', y)] loc = Inr []"
    and "ec_parse_money (PDec (Fin False c (-12))) loc = Inr (Fin False c (-12))"
proof -
  show p: "ec_parse_money (PDec (Fin False c (-12))) loc = Inr (Fin False c (-12))" for loc
    using assms by (simp add: ec_parse_money_def ec_check_check check_money_Fin quantize_money_Fin del: check_money.simps)
  show "validate_reconciling_item (sample_item side (Fin False c (-12))) [(''bank_closing_balance'', x), (''books_closing_balance'', y)] loc = Inr []"
    using assms p by (auto simp: validate_reconciling_item_def Let_def catch_money_def sample_item_def dict_get_def str_or_empty_def
        dict_get_default_def confirmed_findings_def RECONCILING_ITEM_STATES_def ZERO_def dec_align_def signed_def)
qed

definition sample_statement :: "nat \<Rightarrow> nat \<Rightarrow> pydict" where
  "sample_statement bank books =
     [(''bank_closing_balance'', PDec (Fin False bank (-12))), (''books_closing_balance'', PDec (Fin False books (-12)))]"

lemma sample_counts:
  assumes "side \<in> set ADJUSTMENT_SIDES" and "0 < c" and "c < 10 ^ 28"
  shows "counts (sample_statement x y) (i, sample_item side (Fin False c (-12)))"
    and "item_amount (sample_item side (Fin False c (-12))) = Fin False c (-12)"
    and "adds_to_bank (sample_item side (Fin False c (-12))) = (side = ''add_to_bank'')"
  using sample_item_valid [OF assms]
  by (simp_all add: counts_def sample_statement_def item_amount_def adds_to_bank_def str_of_def dict_get_def sample_item_def)

lemma sample_scan:
  assumes "side \<in> set ADJUSTMENT_SIDES" and "0 < c" and "c < 10 ^ 28"
  shows "scan_item (sample_statement x y) s (i, sample_item side (Fin False c (-12))) =
    (if side = ''add_to_bank''
     then rbind (of_option InvalidOperation (dec_add (ss_additions s) (Fin False c (-12)))) (\<lambda>t.
       Inr (s\<lparr>ss_additions := t, ss_counted := ss_counted s @ [show_nat i]\<rparr>))
     else rbind (of_option InvalidOperation (dec_add (ss_deductions s) (Fin False c (-12)))) (\<lambda>t.
       Inr (s\<lparr>ss_deductions := t, ss_counted := ss_counted s @ [show_nat i]\<rparr>)))"
proof -
  have "str_of (sample_item side (Fin False c (-12))) ''state'' = ''confirmed''"
    "dict_get (sample_item side (Fin False c (-12))) ''amount'' = PDec (Fin False c (-12))"
    "str_of (sample_item side (Fin False c (-12))) ''adjustment_side'' = side"
    and id: "item_identifier (i, sample_item sd (Fin False c (-12))) = show_nat i" for sd
    by (simp_all add: str_of_def dict_get_def sample_item_def item_identifier_def dict_get_default_def show_int_def)
  then show ?thesis
    using sample_item_valid [OF assms]
    by (simp add: scan_item_def Let_def sample_statement_def id)
qed

theorem statement_balances_exactly_witness:
  "\<exists>out. compute_statement (sample_statement 5000000000000 7000000000000)
       [sample_item ''add_to_bank'' (Fin False 3000000000000 (-12)), sample_item ''deduct_from_bank'' (Fin False 1000000000000 (-12))] = Inr out
     \<and> so_state out = ''balanced''"
proof -
  let ?st = "sample_statement 5000000000000 7000000000000"
  let ?items = "[sample_item ''add_to_bank'' (Fin False 3000000000000 (-12)), sample_item ''deduct_from_bank'' (Fin False 1000000000000 (-12))]"
  have bank: "ec_parse_money (dict_get ?st ''bank_closing_balance'') ''bank_closing_balance'' = Inr (Fin False 5000000000000 (-12))"
    and books: "ec_parse_money (dict_get ?st ''books_closing_balance'') ''books_closing_balance'' = Inr (Fin False 7000000000000 (-12))"
    using sample_item_valid(2) [of "''add_to_bank''"] by (simp_all add: dict_get_def sample_statement_def ADJUSTMENT_SIDES_def)
  have sides: "''add_to_bank'' \<in> set ADJUSTMENT_SIDES" "''deduct_from_bank'' \<in> set ADJUSTMENT_SIDES"
    by (simp_all add: ADJUSTMENT_SIDES_def)
  have totals: "counted_total ?st True ?items = 3000000000000" "counted_total ?st False ?items = 1000000000000"
    by (simp_all add: counted_total_def counted_amounts_def sample_counts sides signed_def)
  obtain out where out: "compute_statement ?st ?items = Inr out" and f: "so_findings out = []"
  proof -
    have "dec_add ZERO (Fin False 3000000000000 (-12)) = Some (Fin False 3000000000000 (-12))"
      "dec_add ZERO (Fin False 1000000000000 (-12)) = Some (Fin False 1000000000000 (-12))"
      "dec_add (Fin False 5000000000000 (-12)) (Fin False 3000000000000 (-12)) = Some (Fin False 8000000000000 (-12))"
      "dec_sub (Fin False 8000000000000 (-12)) (Fin False 1000000000000 (-12)) = Some (Fin False 7000000000000 (-12))"
      "dec_sub (Fin False 7000000000000 (-12)) (Fin False 7000000000000 (-12)) = Some (Fin False 0 (-12))"
      by (simp_all add: ZERO_def dec_align_def signed_def dec_round_def num_digits_def show_nat.simps dec_prec_def dec_sub_def)
    then show ?thesis using that
      by (simp add: compute_statement_def catch_money_def bank books sample_scan sides empty_statement_scan_def
          close_statement_def adjusted_balance_def ec_quantize_money)
  qed
  from statement_balances_exactly [OF out bank books] f totals have "so_state out = ''balanced''"
    by (simp add: signed_def)
  with out show ?thesis by blast
qed

text \<open>
  Beyond 10^16 the running totals are rounded: with two confirmed additions and one confirmed
  deduction, each a valid amount, the statement is labelled balanced although its exact
  difference is one unit in the twelfth decimal.
\<close>

theorem large_totals_balance_by_rounding:
  "\<exists>st items out bank books. compute_statement st items = Inr out \<and> so_state out = ''balanced''
     \<and> ec_parse_money (dict_get st ''bank_closing_balance'') [] = Inr bank
     \<and> ec_parse_money (dict_get st ''books_closing_balance'') [] = Inr books
     \<and> units bank + counted_total st True items - counted_total st False items - units books = 1"
proof -
  let ?n = "9999999999999999000000000000 :: nat"
  let ?st = "sample_statement 0 ?n"
  let ?items = "[sample_item ''add_to_bank'' (Fin False (?n + 1) (-12)), sample_item ''add_to_bank'' (Fin False ?n (-12)),
     sample_item ''deduct_from_bank'' (Fin False ?n (-12))]"
  have sides: "''add_to_bank'' \<in> set ADJUSTMENT_SIDES" "''deduct_from_bank'' \<in> set ADJUSTMENT_SIDES"
    by (simp_all add: ADJUSTMENT_SIDES_def)
  have bank: "ec_parse_money (dict_get ?st ''bank_closing_balance'') loc = Inr ZERO" for loc
    by (simp add: dict_get_def sample_statement_def ec_parse_money_def ec_check_check check_money_Fin quantize_money_Fin ZERO_def
        del: check_money.simps)
  have books: "ec_parse_money (dict_get ?st ''books_closing_balance'') loc = Inr (Fin False ?n (-12))" for loc
    using sample_item_valid(2) [OF sides(1), of ?n] by (simp add: dict_get_def sample_statement_def)
  have totals: "counted_total ?st True ?items = int ?n + int ?n + 1" "counted_total ?st False ?items = int ?n"
    by (simp_all add: counted_total_def counted_amounts_def sample_counts sides signed_def)
  have digits: "num_digits 19999999999999998000000000001 = 29" "num_digits 9999999999999999000000000001 = 28" "num_digits ?n = 28"
    "num_digits 19999999999999998000000000000 = 29"
    by (simp_all add: num_digits_def show_nat.simps)
  have "dec_add ZERO (Fin False (?n + 1) (-12)) = Some (Fin False (?n + 1) (-12))"
    "dec_add (Fin False (?n + 1) (-12)) (Fin False ?n (-12)) = Some (Fin False 1999999999999999800000000000 (-11))"
    "dec_add ZERO (Fin False ?n (-12)) = Some (Fin False ?n (-12))"
    "dec_add ZERO (Fin False 1999999999999999800000000000 (-11)) = Some (Fin False 1999999999999999800000000000 (-11))"
    "dec_sub (Fin False 1999999999999999800000000000 (-11)) (Fin False ?n (-12)) = Some (Fin False ?n (-12))"
    "dec_sub (Fin False ?n (-12)) (Fin False ?n (-12)) = Some (Fin False 0 (-12))"
    by (simp_all add: ZERO_def dec_align_def signed_def dec_round_def digits dec_prec_def dec_sub_def half_even_def)
  moreover have "dec_eq (Fin False 0 (-12)) ZERO" by (simp add: ZERO_def dec_align_def)
  ultimately have "\<exists>out. compute_statement ?st ?items = Inr out \<and> so_state out = ''balanced''"
    by (simp add: compute_statement_def catch_money_def bank books sample_scan sides empty_statement_scan_def
        close_statement_def adjusted_balance_def ec_quantize_money ec_is_exact_zero_def)
  then have "\<exists>out. compute_statement ?st ?items = Inr out \<and> so_state out = ''balanced''" .
  moreover have "units ZERO + counted_total ?st True ?items - counted_total ?st False ?items - units (Fin False ?n (-12)) = 1"
    unfolding totals by (simp add: signed_def)
  ultimately show ?thesis using bank books by blast
qed

section \<open>Exceptions and the close gate\<close>

text \<open>The conditions of an accepted exception, and the nine conditions of a close, as predicates.\<close>

definition exception_valid :: "pydict \<Rightarrow> string \<Rightarrow> date \<Rightarrow> bool" where
  "exception_valid e state as_of =
     (state \<in> set EXCEPTION_BASE_STATES \<and> (\<forall>k \<in> set EXCEPTION_FIELDS. truthy (dict_get e k))
      \<and> dict_get e ''owner_subject_id'' \<noteq> dict_get e ''approved_by''
      \<and> (\<exists>d. fromisoformat (py_str (dict_get e ''expires_at'')) = Some d \<and> as_of < d)
      \<and> ''auto_match'' \<notin> set (map py_str (items_of e ''allowed_actions''))
      \<and> \<not> truthy (dict_get e ''changes_base_state'')
      \<and> truthy (dict_get_default e ''disclosed_in_snapshot'' (PBool False)))"

lemma validate_accepted_exception_Nil:
  "validate_accepted_exception e state as_of = [] \<longleftrightarrow> exception_valid e state as_of"
proof -
  have "truthy (dict_get e ''expires_at'') \<Longrightarrow> expiry_findings l (dict_get e ''expires_at'') as_of = [] \<longleftrightarrow>
      (\<exists>d. fromisoformat (py_str (dict_get e ''expires_at'')) = Some d \<and> as_of < d)" for l
    by (auto simp: expiry_findings_def not_le split: option.splits)
  then show ?thesis
    unfolding validate_accepted_exception_def exception_valid_def Let_def sorted_set_Nil append_is_Nil_conv
    by (auto simp: filter_empty_conv EXCEPTION_FIELDS_def)
qed

definition statement_settled :: "pydict \<Rightarrow> bool" where
  "statement_settled st =
     (case ec_parse_money (dict_get_default st ''unexplained_difference'' (PStr ''0'')) [] of
        Inl e \<Rightarrow> False
      | Inr v \<Rightarrow> (str_of st ''state'' = ''balanced'' \<and> ec_is_exact_zero v) \<or> str_of st ''state'' = ''exception_accepted'')"

definition closable :: "pydict \<Rightarrow> date \<Rightarrow> bool" where
  "closable period as_of =
     (set (map py_str (items_of period ''expected_source_ids''))
        \<subseteq> set (map (\<lambda>a. str_of a ''data_source_id'') (objects_of period ''assessments''))
      \<and> (\<forall>a \<in> set (objects_of period ''assessments''). str_of a ''state'' \<in> {''mismatch'', ''unknown''} \<longrightarrow>
           (\<exists>e. exception_for period (str_of a ''data_source_id'') = Some e \<and> exception_valid e (str_of a ''state'') as_of))
      \<and> set (map account_key (objects_of period ''required_accounts'')) \<subseteq> set (map account_key (objects_of period ''statements''))
      \<and> (\<forall>st \<in> set (objects_of period ''statements''). statement_settled st)
      \<and> (\<forall>i \<in> set (objects_of period ''confirmed_items''). truthy (dict_get i ''evidence_refs'') \<and> truthy (dict_get i ''sod_check''))
      \<and> (\<forall>p \<in> set (objects_of period ''published_fields''). truthy (dict_get p ''lineage_ref''))
      \<and> (\<forall>k \<in> {''engine_release_id'', ''canonical_schema_version'', ''rule_version''}.
           py_lower (py_strip (str_or_empty (fixed_versions period) k)) \<notin> {[], ''latest'', ''main'', ''head'', ''stable'', ''current''})
      \<and> truthy (dict_get_default period ''authorization_revalidated_before_snapshot'' (PBool False))
      \<and> \<not> truthy (dict_get period ''matching_coverage_offered_as_completeness''))"

lemma set_enumerate_from: "snd ` set (enumerate_from i xs) = set xs"
  by (induction xs arbitrary: i) auto

lemma all_enumerate_from: "(\<And>i x. P (i, x) = Q x) \<Longrightarrow> (\<forall>ix \<in> set (enumerate_from n xs). P ix) = (\<forall>x \<in> set xs. Q x)"
  by (induction xs arbitrary: n) auto

lemma fst_join_Nil: "fst (join_unmet us) = [] \<longleftrightarrow> (\<forall>u \<in> set us. fst u = [])"
  by (simp add: join_unmet_def)

lemma fst_unmet [simp]: "fst no_unmet = []" "fst (one_unmet c f) = [c]"
  by (simp_all add: no_unmet_def one_unmet_def)

lemma parse_money_error_location:
  "ec_parse_money v l = Inl (MoneyError s) \<Longrightarrow> \<exists>t. ec_parse_money v l' = Inl (MoneyError t)"
  by (auto simp: ec_parse_money_def split: pyval.splits option.splits; rename_tac d; case_tac d; auto simp: of_option_def split: if_splits option.splits)

lemma check_statement_settled:
  "check_statement (i, st) = Inr u \<Longrightarrow> fst u = [] \<longleftrightarrow> statement_settled st"
proof -
  assume a: "check_statement (i, st) = Inr u"
  let ?v = "dict_get_default st ''unexplained_difference'' (PStr ''0'')" and ?l = "index_location ''statements'' i"
  show ?thesis
  proof (cases "ec_parse_money ?v ?l")
    case (Inl e)
    with a obtain s where e: "e = MoneyError s" by (cases e) (auto simp: check_statement_def Let_def catch_money_def)
    obtain t where "ec_parse_money ?v [] = Inl (MoneyError t)" using parse_money_error_location Inl e by blast
    then show ?thesis using a Inl e
      by (auto simp: check_statement_def Let_def catch_money_def statement_settled_def fst_join_Nil)
  next
    case (Inr d)
    then show ?thesis using a parse_money_location [OF Inr, of "[]"]
      by (auto simp: check_statement_def Let_def catch_money_def statement_settled_def fst_join_Nil split: if_splits)
  qed
qed

lemma check_statements_settled:
  "map_result check_statement (enumerate_from i sts) = Inr us \<Longrightarrow>
     (\<forall>u \<in> set us. fst u = []) = (\<forall>st \<in> set sts. statement_settled st)"
proof (induction sts arbitrary: i us)
  case (Cons st sts)
  then obtain v vs where v: "check_statement (i, st) = Inr v" "map_result check_statement (enumerate_from (Suc i) sts) = Inr vs"
    "us = v # vs" by (auto simp: rbind_Inr_iff)
  then show ?case using check_statement_settled [OF v(1)] Cons.IH [OF v(2)] by simp
qed simp

lemma sorted_set_subset: "sorted_set (filter (\<lambda>x. x \<notin> S) xs) = [] \<longleftrightarrow> set xs \<subseteq> S"
  by (auto simp: filter_empty_conv)

lemma check_assessment_Nil:
  "fst (check_assessment period as_of (i, a)) = [] \<longleftrightarrow>
     (str_of a ''state'' \<in> {''mismatch'', ''unknown''} \<longrightarrow>
        (\<exists>e. exception_for period (str_of a ''data_source_id'') = Some e \<and> exception_valid e (str_of a ''state'') as_of))"
  by (auto simp: check_assessment_def Let_def validate_accepted_exception_Nil split: option.splits)

lemma close_checks_Nil:
  assumes us: "map_result check_statement (enumerate_from 0 (objects_of period ''statements'')) = Inr us"
  shows "fst (close_checks period as_of us) = [] \<longleftrightarrow> closable period as_of"
proof -
  have sources: "fst (check_sources period) = [] \<longleftrightarrow> set (map py_str (items_of period ''expected_source_ids''))
        \<subseteq> set (map (\<lambda>a. str_of a ''data_source_id'') (objects_of period ''assessments''))"
    unfolding check_sources_def Let_def by (subst sorted_set_subset [symmetric]) simp
  have accounts: "fst (check_accounts period) = [] \<longleftrightarrow>
      set (map account_key (objects_of period ''required_accounts'')) \<subseteq> set (map account_key (objects_of period ''statements''))"
    unfolding check_accounts_def Let_def by (subst sorted_set_subset [symmetric]) simp
  have assessments: "(\<forall>u \<in> set (map (check_assessment period as_of) (enumerate_from 0 (objects_of period ''assessments''))). fst u = []) \<longleftrightarrow>
      (\<forall>a \<in> set (objects_of period ''assessments''). str_of a ''state'' \<in> {''mismatch'', ''unknown''} \<longrightarrow>
        (\<exists>e. exception_for period (str_of a ''data_source_id'') = Some e \<and> exception_valid e (str_of a ''state'') as_of))"
    unfolding set_map ball_simps by (rule all_enumerate_from) (rule check_assessment_Nil)
  have items: "(\<forall>u \<in> set (map check_item (enumerate_from 0 (objects_of period ''confirmed_items''))). fst u = []) \<longleftrightarrow>
      (\<forall>i \<in> set (objects_of period ''confirmed_items''). truthy (dict_get i ''evidence_refs'') \<and> truthy (dict_get i ''sod_check''))"
    unfolding set_map ball_simps by (rule all_enumerate_from) (simp add: check_item_def)
  have published: "(\<forall>u \<in> set (map check_published (enumerate_from 0 (objects_of period ''published_fields''))). fst u = []) \<longleftrightarrow>
      (\<forall>p \<in> set (objects_of period ''published_fields''). truthy (dict_get p ''lineage_ref''))"
    unfolding set_map ball_simps by (rule all_enumerate_from) (simp add: check_published_def)
  have versions: "(\<forall>u \<in> set (map (check_version (fixed_versions period)) [''engine_release_id'', ''canonical_schema_version'', ''rule_version'']). fst u = []) \<longleftrightarrow>
      (\<forall>k \<in> {''engine_release_id'', ''canonical_schema_version'', ''rule_version''}.
         py_lower (py_strip (str_or_empty (fixed_versions period) k)) \<notin> {[], ''latest'', ''main'', ''head'', ''stable'', ''current''})"
    by (auto simp: check_version_def Let_def)
  have rest: "fst (check_authorization period) = [] \<longleftrightarrow> truthy (dict_get_default period ''authorization_revalidated_before_snapshot'' (PBool False))"
    "fst (check_matching period) = [] \<longleftrightarrow> \<not> truthy (dict_get period ''matching_coverage_offered_as_completeness'')"
    by (simp_all add: check_authorization_def check_matching_def)
  show ?thesis
    unfolding close_checks_def fst_join_Nil set_append ball_Un assessments items published versions
      check_statements_settled [OF us] closable_def
    by (simp only: list.set ball_simps sources accounts rest conj_assoc simp_thms)
qed

text \<open>
  C33. The close gate is conjunctive and closed by default: a period is ready exactly when every expected
  source is assessed, every mismatch or unknown is covered by a valid, unexpired, independently approved
  exception, every required account has a statement, every statement is balanced to exact zero or under
  an accepted exception, confirmed items carry evidence, published fields lineage, versions are fixed,
  authorization was revalidated, and matching coverage is not offered in place of all that.
\<close>

theorem period_closes_exactly_when_closable:
  assumes "evaluate_close_readiness period as_of = Inr out"
  shows "co_ready out = closable period as_of
    \<and> (co_state out = ''not_ready'' \<longleftrightarrow> \<not> closable period as_of) \<and> (co_unmet out = [] \<longleftrightarrow> closable period as_of)"
proof -
  obtain us where us: "map_result check_statement (enumerate_from 0 (objects_of period ''statements'')) = Inr us"
    using assms by (auto simp: evaluate_close_readiness_def rbind_Inr_iff)
  show ?thesis
    using assms close_checks_Nil [OF us, of as_of]
    by (auto simp: evaluate_close_readiness_def us split: prod.splits if_splits)
qed

definition sample_period :: pydict where
  "sample_period = [(''fixed_versions'', PDict [(''engine_release_id'', PStr ''e1''), (''canonical_schema_version'', PStr ''0.1.0''),
     (''rule_version'', PStr ''r1'')]), (''authorization_revalidated_before_snapshot'', PBool True)]"

theorem period_closes_exactly_when_closable_witness:
  "\<exists>out. evaluate_close_readiness sample_period (Date 2026 1 31) = Inr out \<and> co_ready out"
proof -
  have lower: "py_lower (py_strip ''e1'') = ''e1''" "py_lower (py_strip ''0.1.0'') = ''0.1.0''" "py_lower (py_strip ''r1'') = ''r1''"
    by code_simp+
  obtain out where out: "evaluate_close_readiness sample_period (Date 2026 1 31) = Inr out"
    by (simp add: evaluate_close_readiness_def sample_period_def objects_of_def items_of_def dict_get_def case_prod_beta)
  have "closable sample_period (Date 2026 1 31)"
    by (simp add: closable_def sample_period_def objects_of_def items_of_def dict_get_def fixed_versions_def as_object_def
        str_or_empty_def dict_get_default_def lower)
  with period_closes_exactly_when_closable [OF out] out show ?thesis by blast
qed

end
