(* ===== verification/Dedupe.thy ===== *)
theory Dedupe
  imports Release
begin

text \<open>
  \<open>tools/dedupe_engine/engine.py\<close>: identity, idempotency and deduplication. HMAC-SHA256 is the
  argument \<open>hmac\<close> and the Unicode normalisation \<open>NFKC\<close> with case folding, whose tables leave the Latin-1
  block, is the argument \<open>nfkc\<close>. The inbox is a state machine with a step relation. The lemmas show
  what counts as a redelivery, a conflict, a candidate and a valid decision, and what the inbox can
  reach.
\<close>

section \<open>Vocabulary\<close>

definition FORBIDDEN_HARD_UNIQUE_FIELDS :: "string list" where
  "FORBIDDEN_HARD_UNIQUE_FIELDS = [''posting_date'', ''occurrence_date'', ''value_date'', ''accounting_date'',
     ''amount'', ''direction'', ''reference'', ''counterparty'', ''description'']"

definition IDENTITY_FIELDS :: "string list" where
  "IDENTITY_FIELDS = [''content_sha256'', ''provider_event_id'', ''artifact_version_id'', ''id'']"

definition CANDIDATE_STATES :: "string list" where
  "CANDIDATE_STATES = [''open'', ''confirmed_same_event'', ''confirmed_distinct'', ''dismissed'', ''superseded'']"

definition INBOX_STATES :: "string list" where
  "INBOX_STATES = [''received'', ''processing'', ''succeeded'', ''retryable_failed'', ''terminal_failed'', ''conflict'']"

definition INBOX_TERMINAL :: "string list" where
  "INBOX_TERMINAL = [''succeeded'', ''terminal_failed'', ''conflict'']"

definition RETRY_OWNER :: string where "RETRY_OWNER = ''platform_durable_workflow''"

record resolution =
  action :: string
  reason :: string
  rs_findings :: "finding list"
  security_signal :: bool

definition resolve_as :: "string \<Rightarrow> string \<Rightarrow> resolution" where
  "resolve_as a r = \<lparr>action = a, reason = r, rs_findings = [], security_signal = False\<rparr>"

definition finding_dict :: "finding \<Rightarrow> pyval" where
  "finding_dict f = PDict [(''code'', PStr (f_code f)), (''location'', PStr (f_location f)), (''message'', PStr (f_message f))]"

definition resolution_as_dict :: "resolution \<Rightarrow> pydict" where
  "resolution_as_dict r = [(''action'', PStr (action r)), (''reason'', PStr (reason r)),
     (''security_signal'', PBool (security_signal r)), (''findings'', PList (map finding_dict (sort (rs_findings r))))]"

section \<open>Normalisation\<close>

text \<open>\<open>text.split()\<close>: the runs without white space.\<close>

function py_words :: "string \<Rightarrow> string list" where
  "py_words [] = []"
| "py_words (c # s) =
     (if is_space c then py_words s
      else (c # takeWhile (\<lambda>x. \<not> is_space x) s) # py_words (dropWhile (\<lambda>x. \<not> is_space x) s))"
  by pat_completeness auto
termination
  by (relation "measure length") (auto intro: le_less_trans [OF length_dropWhile_le])

definition normalise_text :: "(string \<Rightarrow> string) \<Rightarrow> pyval \<Rightarrow> string \<Rightarrow> (exn, string) result" where
  "normalise_text nfkc v locale_version =
     (if locale_version = [] then Inl (IdentityError ''normalisation requires an explicit locale version'')
      else Inr (py_join '' '' (py_words (py_strip (nfkc (py_str v))))))"

text \<open>\<open>format(d, "f")\<close>: fixed point with the places the number has.\<close>

fun dec_format_f :: "decimal \<Rightarrow> string" where
  "dec_format_f (Fin s c e) =
     (if s then ''-'' else []) @
     (if 0 \<le> e then show_nat (c * 10 ^ nat e)
      else show_nat (c div 10 ^ nat (- e)) @ ''.'' @ pad_left (nat (- e)) (show_nat (c mod 10 ^ nat (- e))))"
| "dec_format_f d = dec_str d"

definition prepare_feature :: "(string \<Rightarrow> string) \<Rightarrow> string \<Rightarrow> string \<times> pyval \<Rightarrow> (exn, string \<times> pyval) result" where
  "prepare_feature nfkc locale_version kv = (case kv of (k, v) \<Rightarrow>
     (case v of PDec d \<Rightarrow> Inr (k, PStr (dec_format_f d))
      | PFloat t \<Rightarrow> Inl (IdentityError (k @ '': a float never enters a fingerprint''))
      | _ \<Rightarrow> rbind (normalise_text nfkc v locale_version) (\<lambda>t. Inr (k, PStr t))))"

definition canonical_features :: "(string \<Rightarrow> string) \<Rightarrow> pydict \<Rightarrow> string \<Rightarrow> (exn, string) result" where
  "canonical_features nfkc features locale_version =
     rbind (map_result (prepare_feature nfkc locale_version) (sort_key fst features)) canonical_json"

section \<open>Hard identity\<close>

definition is_hex :: "char \<Rightarrow> bool" where
  "is_hex c = (c \<in> set ''0123456789abcdef'')"

definition artifact_identity :: "pyval \<Rightarrow> pyval \<Rightarrow> pyval \<Rightarrow> (exn, string) result" where
  "artifact_identity company source sha =
     (if \<not> truthy company \<or> \<not> truthy source
      then Inl (IdentityError ''artifact identity is company and source scoped'')
      else let digest = py_lower (py_strip (py_str sha)) in
        if length digest \<noteq> 64 \<or> \<not> list_all is_hex digest
        then Inl (IdentityError (''content_sha256 is not a sha256 digest: '' @ py_repr sha))
        else Inr (py_str company @ ''|'' @ py_str source @ ''|'' @ digest))"

text \<open>\<open>d[key]\<close>\<close>

definition dict_item :: "pydict \<Rightarrow> string \<Rightarrow> (exn, pyval) result" where
  "dict_item d k = of_option (KeyError k) (map_of d k)"

definition identity_of_artifact :: "pydict \<Rightarrow> (exn, string) result" where
  "identity_of_artifact d = rbind (dict_item d ''company_id'') (\<lambda>c. rbind (dict_item d ''data_source_id'') (\<lambda>s.
     rbind (dict_item d ''content_sha256'') (\<lambda>h. artifact_identity c s h)))"

definition resolve_artifact :: "pydict option \<Rightarrow> pydict \<Rightarrow> (exn, resolution) result" where
  "resolve_artifact existing incoming = rbind (identity_of_artifact incoming) (\<lambda>key.
     case existing of
       None \<Rightarrow> Inr (resolve_as ''create_new_artifact_version'' (''no artifact for '' @ key))
     | Some old \<Rightarrow> rbind (identity_of_artifact old) (\<lambda>existing_key.
         if existing_key \<noteq> key
         then Inr (resolve_as ''create_new_artifact_version'' ''the existing artifact has a different identity'')
         else if dict_get old ''raw_bytes_digest'' \<noteq> dict_get incoming ''raw_bytes_digest''
         then Inr \<lparr>action = ''conflict'', reason = ''same identity with different raw bytes'',
                rs_findings = [Finding ''IDM-IDENTITY-COLLISION'' key
                  ''the same artifact identity arrived with different bytes; this is a security signal, not something to resolve by guessing''],
                security_signal = True\<rparr>
         else Inr (resolve_as ''return_existing_artifact_version'' ''exact redelivery of bytes already stored'')))"

definition provider_event_identity :: "pyval \<Rightarrow> pyval \<Rightarrow> (exn, string) result" where
  "provider_event_identity connection event =
     (if \<not> truthy connection then Inl (IdentityError ''a provider event id is meaningless without its connection'')
      else if \<not> truthy event then Inl (IdentityError ''provider_event_id is required'')
      else Inr (py_str connection @ ''|'' @ py_str event))"

definition identity_of_event :: "pydict \<Rightarrow> (exn, string) result" where
  "identity_of_event d = rbind (dict_item d ''connection_id'') (\<lambda>c.
     rbind (dict_item d ''provider_event_id'') (\<lambda>p. provider_event_identity c p))"

definition resolve_provider_event :: "pydict option \<Rightarrow> pydict \<Rightarrow> (exn, resolution) result" where
  "resolve_provider_event existing incoming = rbind (identity_of_event incoming) (\<lambda>key.
     case existing of
       None \<Rightarrow> Inr (resolve_as ''accept_new_delivery'' (''no delivery for '' @ key))
     | Some old \<Rightarrow> rbind (identity_of_event old) (\<lambda>existing_key.
         if existing_key \<noteq> key then Inr (resolve_as ''accept_new_delivery'' ''different connection scope'')
         else if dict_get old ''payload_digest'' \<noteq> dict_get incoming ''payload_digest''
         then Inr \<lparr>action = ''conflict'', reason = ''same provider event id with a different payload'',
                rs_findings = [Finding ''IDM-PROVIDER-COLLISION'' key
                  ''the provider reused a record id with different content; the id is not proof of sameness''],
                security_signal = True\<rparr>
         else Inr (resolve_as ''return_existing_receipt'' ''exact redelivery'')))"

definition validate_hard_uniqueness :: "string list \<Rightarrow> string \<Rightarrow> finding list" where
  "validate_hard_uniqueness named location =
     (let business = sorted_set (filter (\<lambda>f. f \<in> set FORBIDDEN_HARD_UNIQUE_FIELDS) named) in
      sorted_set (
        (if business \<noteq> [] then [Finding ''IDM-BUSINESS-COMPOSITE'' location (repr_str_list business
            @ '' are business features; a hard unique constraint over them would reject a second legitimate identical transaction'')] else [])
      @ (if set named \<inter> set IDENTITY_FIELDS = {} then [Finding ''IDM-NO-IDENTITY'' location
            ''a hard unique constraint must rest on at least one stable identity field''] else [])
      @ (if ''company_id'' \<notin> set named then [Finding ''IDM-COMPANY-SCOPE'' location
            ''a hard unique constraint that is not company scoped can collide across companies''] else [])))"

section \<open>Candidates\<close>

definition require_version :: "string \<times> string \<Rightarrow> (exn, unit) result" where
  "require_version vn = (case vn of (version, name) \<Rightarrow>
     if version = [] then Inl (IdentityError (name @ '' is required; an unversioned fingerprint cannot be reproduced after a rotation''))
     else Inr ())"

definition candidate_fingerprint :: "(string \<Rightarrow> string \<Rightarrow> string) \<Rightarrow> (string \<Rightarrow> string) \<Rightarrow> pydict \<Rightarrow> string \<Rightarrow> string \<Rightarrow> string
    \<Rightarrow> string \<Rightarrow> (exn, string) result" where
  "candidate_fingerprint hmac nfkc features secret secret_version locale_version rule_version =
     (if secret = []
      then Inl (IdentityError ''a candidate fingerprint needs a key; a bare hash of business features is brute-forceable'')
      else rbind (map_result require_version [(secret_version, ''secret_version''), (locale_version, ''locale_version''),
            (rule_version, ''rule_version'')]) (\<lambda>_.
        rbind (canonical_features nfkc features locale_version) (\<lambda>text.
          Inr (hmac secret (py_join ''|'' [secret_version, locale_version, rule_version, text])))))"

definition fingerprint_usage_findings :: "string \<Rightarrow> string \<Rightarrow> finding list" where
  "fingerprint_usage_findings usage location =
     (if usage \<noteq> ''blocking_and_ranking_only''
      then [Finding ''IDM-FINGERPRINT-USAGE'' location (''fingerprint usage '' @ repr_str usage
        @ '': a fingerprint blocks and ranks candidates; it never decides identity and never becomes a unique constraint'')]
      else [])"

record candidate_outcome =
  raised :: bool
  ca_reason :: string
  automatic_effect :: string
  ca_findings :: "finding list"

definition candidate_as_dict :: "candidate_outcome \<Rightarrow> pydict" where
  "candidate_as_dict c = [(''raised'', PBool (raised c)), (''reason'', PStr (ca_reason c)),
     (''automatic_effect'', PStr (automatic_effect c)), (''findings'', PList (map finding_dict (sort (ca_findings c))))]"

definition rule_features :: "pydict \<Rightarrow> string list" where
  "rule_features rule = (case dict_get rule ''features'' of PList xs \<Rightarrow> map py_str xs | PStr s \<Rightarrow> map (\<lambda>c. [c]) s
     | PDict d \<Rightarrow> map fst d | _ \<Rightarrow> [])"

definition feature_text :: "pydict \<Rightarrow> string \<Rightarrow> string" where
  "feature_text d k = py_str (dict_get_default d k (PStr []))"

definition evaluate_candidate :: "pydict \<Rightarrow> pydict \<Rightarrow> pydict \<Rightarrow> candidate_outcome" where
  "evaluate_candidate left right rule =
     (let location = ''rule['' @ py_str (dict_get rule ''id'') @ '']'';
          findings = fingerprint_usage_findings (feature_text rule ''fingerprint_usage'') location in
      if dict_get left ''company_id'' \<noteq> dict_get right ''company_id''
      then \<lparr>raised = False, ca_reason = ''cross-company pair refused'', automatic_effect = ''none'',
            ca_findings = findings @ [Finding ''IDM-COMPANY-SCOPE'' location
              (''a dedupe candidate never crosses companies; comparing them would leak one company''
                @ [chr_apos] @ ''s data into another'' @ [chr_apos] @ ''s review queue'')]\<rparr>
      else if dict_get left ''movement_id'' = dict_get right ''movement_id''
      then \<lparr>raised = False, ca_reason = ''same movement compared with itself'', automatic_effect = ''none'', ca_findings = findings\<rparr>
      else let features = rule_features rule in
        if features = []
        then \<lparr>raised = False, ca_reason = ''rule declares no feature'', automatic_effect = ''none'',
              ca_findings = findings @ [Finding ''IDM-RULE-FEATURES'' location ''a candidate rule declares the features it compares'']\<rparr>
        else let differing = filter (\<lambda>k. feature_text left k \<noteq> feature_text right k) features in
          if differing \<noteq> []
          then \<lparr>raised = False, ca_reason = ''features differ: '' @ repr_str_list (sort differing), automatic_effect = ''none'', ca_findings = findings\<rparr>
          else \<lparr>raised = True,
                ca_reason = ''every declared feature matches; both observations are preserved until a human reviews them'',
                automatic_effect = ''none'', ca_findings = findings\<rparr>)"

definition order_pair :: "string \<Rightarrow> string \<Rightarrow> string \<times> string" where
  "order_pair a b = (if a \<le> b then (a, b) else (b, a))"

section \<open>Decisions\<close>

definition REQUIRED_DECISION_FIELDS :: "string list" where
  "REQUIRED_DECISION_FIELDS = [''company_id'', ''candidate_id'', ''left_movement_id'', ''right_movement_id'',
     ''decision'', ''reason_code'', ''evidence_refs'', ''decided_by'', ''decided_at'', ''rule_version'',
     ''engine_release_id'', ''audit_event_id'']"

definition missing_fields :: "pydict \<Rightarrow> string \<Rightarrow> finding list" where
  "missing_fields decision location = map (\<lambda>f. Finding ''IDM-DECISION-FIELD'' (location @ ''.'' @ f) (''a dedupe decision needs '' @ f))
     (filter (\<lambda>f. \<not> truthy (dict_get decision f)) REQUIRED_DECISION_FIELDS)"

definition stored_pair :: "pyval \<Rightarrow> pyval \<Rightarrow> pyval \<times> pyval" where
  "stored_pair left right = map_prod PStr PStr (order_pair (py_str left) (py_str right))"

definition reversal_findings :: "pydict \<Rightarrow> pydict option \<Rightarrow> string \<Rightarrow> finding list" where
  "reversal_findings decision prior location =
     (let reverses = dict_get decision ''reverses_decision_id'' in
      case prior of
        Some p \<Rightarrow>
          (if \<not> truthy reverses
           then [Finding ''IDM-REVERSAL-REFERENCE'' (location @ ''.reverses_decision_id'')
             ''a reversal is a new decision that names the one it reverses; editing the prior decision would erase the audit trail'']
           else if reverses \<noteq> dict_get p ''decision_id''
           then [Finding ''IDM-REVERSAL-REFERENCE'' (location @ ''.reverses_decision_id'')
             ''the reversal names a decision that is not the prior one''] else [])
        @ (if truthy (dict_get decision ''decided_by'') \<and> dict_get decision ''decided_by'' = dict_get p ''decided_by''
           then [Finding ''IDM-REVERSAL-SOD'' (location @ ''.decided_by'')
             ''whoever took the original decision does not get to reverse it alone''] else [])
      | None \<Rightarrow> (if truthy reverses then [Finding ''IDM-REVERSAL-REFERENCE'' (location @ ''.reverses_decision_id'')
             ''this decision reverses one that was not supplied''] else []))"

definition validate_decision :: "pydict \<Rightarrow> pydict option \<Rightarrow> finding list" where
  "validate_decision decision prior =
     (let location = ''decision['' @ py_str (dict_get_default decision ''candidate_id'' (PStr ''?'')) @ '']'';
          state = py_str (dict_get_default decision ''decision'' (PStr []));
          left = dict_get decision ''left_movement_id''; right = dict_get decision ''right_movement_id'' in
      sorted_set (missing_fields decision location
        @ (if state \<notin> set CANDIDATE_STATES then [Finding ''IDM-DECISION-STATE'' location (''unknown decision state '' @ repr_str state)] else [])
        @ (if truthy left \<and> truthy right \<and> (left, right) \<noteq> stored_pair left right
           then [Finding ''IDM-PAIR-ORDER'' location
             ''the pair is stored lower id first; otherwise the same pair would produce two different candidates depending on arrival order''] else [])
        @ (if truthy (dict_get decision ''physically_deletes_movement'')
           then [Finding ''IDM-NO-PHYSICAL-DELETE'' location
             ''a dedupe decision never physically deletes a movement; it records which of the two the company treats as authoritative''] else [])
        @ (if truthy (dict_get decision ''deletes_source_evidence'')
           then [Finding ''IDM-EVIDENCE-PRESERVED'' location ''source evidence survives the decision that superseded it''] else [])
        @ reversal_findings decision prior location))"

section \<open>Inbox and retries\<close>

definition INBOX_TRANSITIONS :: "((string \<times> string) \<times> string) list" where
  "INBOX_TRANSITIONS = [((''received'', ''claim''), ''processing''),
     ((''processing'', ''succeed''), ''succeeded''),
     ((''processing'', ''retryable_failure''), ''retryable_failed''),
     ((''processing'', ''terminal_failure''), ''terminal_failed''),
     ((''processing'', ''conflict''), ''conflict''),
     ((''retryable_failed'', ''claim''), ''processing'')]"

definition stale :: "int option \<Rightarrow> int option \<Rightarrow> bool" where
  "stale fencing latest = (case (fencing, latest) of (Some f, Some l) \<Rightarrow> f < l | _ \<Rightarrow> False)"

definition token_text :: "int option \<Rightarrow> string" where
  "token_text t = (case t of None \<Rightarrow> ''None'' | Some i \<Rightarrow> show_int i)"

definition inbox_transition :: "string \<Rightarrow> string \<Rightarrow> int option \<Rightarrow> int option \<Rightarrow> (exn, resolution) result" where
  "inbox_transition current event fencing latest =
     (if current \<notin> set INBOX_STATES then Inl (IdentityError (''unknown inbox state '' @ repr_str current))
      else if current \<in> set INBOX_TERMINAL then Inr (resolve_as ''ignore'' (current @ '' is terminal; nothing re-opens it''))
      else if stale fencing latest
      then Inr \<lparr>action = ''reject_stale_worker'',
             reason = ''fencing token '' @ token_text fencing @ '' is older than '' @ token_text latest,
             rs_findings = [Finding ''IDM-STALE-LEASE'' ''inbox''
               ''a worker whose lease expired does not get to write; its result is from a run someone else already replaced''],
             security_signal = False\<rparr>
      else case map_of INBOX_TRANSITIONS (current, event) of
        None \<Rightarrow> Inr (resolve_as ''reject'' (repr_str event @ '' is not allowed from '' @ repr_str current))
      | Some target \<Rightarrow> Inr (resolve_as target (current @ '' -> '' @ target)))"

definition retry_owners :: "(string \<times> bool) list \<Rightarrow> string list \<times> finding list" where
  "retry_owners layers =
     (let owners = sort (map fst (filter snd layers)) in
      (owners, sorted_set (case owners of
         [] \<Rightarrow> [Finding ''IDM-RETRY-OWNERLESS'' ''retry_policy'' ''nobody owns the retry; a failure would simply be lost'']
       | [owner] \<Rightarrow> (if owner \<noteq> RETRY_OWNER
           then [Finding ''IDM-RETRY-OWNER'' ''retry_policy'' (''the retry owner is '' @ repr_str owner @ ''; the contract fixes it at '' @ repr_str RETRY_OWNER)]
           else [])
       | _ \<Rightarrow> [Finding ''IDM-RETRY-LAYERS'' ''retry_policy'' (repr_str_list owners
           @ '' all schedule retries; a failure would be multiplied and no budget would mean anything'')])))"

definition raw_value_findings :: "string \<times> pyval \<Rightarrow> finding list" where
  "raw_value_findings kv = (case kv of (key, v) \<Rightarrow>
     (if key \<in> set [''amount'', ''reference'', ''counterparty'', ''description'', ''account_number'']
      then [Finding ''IDM-FINGERPRINT-PRIVACY'' (''log.'' @ key) (key @ '' is a raw business value and never reaches a log'')] else [])
   @ (if ends_with ''fingerprint'' key \<and> (case v of PStr s \<Rightarrow> length s = 64 | _ \<Rightarrow> False)
      then [Finding ''IDM-FINGERPRINT-PRIVACY'' (''log.'' @ key)
        ''a fingerprint is not an anonymisation; logging it in full re-identifies the features it was built from''] else []))"

definition redacts_raw_values :: "pydict \<Rightarrow> finding list" where
  "redacts_raw_values entry = sorted_set (concat (map raw_value_findings (sort_key fst entry)))"

section \<open>The inbox as a step relation\<close>

text \<open>
  An event arrives with the fencing token of its worker and the latest token handed out; an
  outcome that names a state is stored, any other outcome leaves the message as it is.
\<close>

type_synonym delivery = "string \<times> int option \<times> int option"

inductive inbox_step :: "string \<Rightarrow> delivery \<Rightarrow> string \<Rightarrow> bool" where
  "inbox_transition s e f l = Inr r \<Longrightarrow> action r \<in> set INBOX_STATES \<Longrightarrow> inbox_step s (e, f, l) (action r)"

inductive_cases inbox_stepE: "inbox_step s (e, f, l) t"

text \<open>What a message is for everybody else: waiting for a worker, with one, or settled for good.\<close>

datatype phase = Waiting | Working | Settled string

definition phase_of :: "string \<Rightarrow> phase" where
  "phase_of s = (if s \<in> set INBOX_TERMINAL then Settled s else if s = ''processing'' then Working else Waiting)"

inductive phase_step :: "phase \<Rightarrow> phase \<Rightarrow> bool" where
  take: "phase_step Waiting Working"
| give_up: "phase_step Working Waiting"
| settle: "s \<in> set INBOX_TERMINAL \<Longrightarrow> phase_step Working (Settled s)"

inductive_cases settled_stepE: "phase_step (Settled s) p"

lemma not_a_state: "''ignore'' \<notin> set INBOX_STATES" "''reject_stale_worker'' \<notin> set INBOX_STATES" "''reject'' \<notin> set INBOX_STATES"
  by (simp_all add: INBOX_STATES_def)

lemma action_resolve_as [simp]: "action (resolve_as a r) = a"
  by (simp add: resolve_as_def)

lemma inbox_step_iff:
  "inbox_step s (e, f, l) t \<longleftrightarrow> map_of INBOX_TRANSITIONS (s, e) = Some t \<and> \<not> stale f l"
proof
  assume "inbox_step s (e, f, l) t"
  then show "map_of INBOX_TRANSITIONS (s, e) = Some t \<and> \<not> stale f l"
    by (rule inbox_stepE)
      (auto simp: inbox_transition_def not_a_state split: if_splits option.splits)
next
  assume a: "map_of INBOX_TRANSITIONS (s, e) = Some t \<and> \<not> stale f l"
  then have "s \<in> set INBOX_STATES" "s \<notin> set INBOX_TERMINAL" "t \<in> set INBOX_STATES"
    by (auto simp: INBOX_TRANSITIONS_def INBOX_STATES_def INBOX_TERMINAL_def split: if_splits)
  with a show "inbox_step s (e, f, l) t"
    using inbox_step.intros [of s e f l "resolve_as t (s @ '' -> '' @ t)"]
    by (simp add: inbox_transition_def)
qed

lemma transition_cases:
  assumes "map_of INBOX_TRANSITIONS (s, e) = Some t"
  obtains "phase_of s = Waiting" "phase_of t = Working"
    | "phase_of s = Working" "phase_of t = Waiting"
    | "phase_of s = Working" "phase_of t = Settled t" "t \<in> set INBOX_TERMINAL"
  using assms by (auto simp: INBOX_TRANSITIONS_def phase_of_def INBOX_TERMINAL_def split: if_splits)

text \<open>C29. Every step of the inbox is a step of the abstract life of a message: waiting messages are taken
  by a worker, a worker gives up or settles, a settled message never moves again and is still the same;
  and no step is taken by a worker whose fencing token is older than the latest one.\<close>

theorem inbox_refines_phases:
  assumes "inbox_step s (e, f, l) t"
  shows "phase_step (phase_of s) (phase_of t) \<and> \<not> stale f l \<and> s \<notin> set INBOX_TERMINAL"
proof -
  have m: "map_of INBOX_TRANSITIONS (s, e) = Some t" and "\<not> stale f l"
    using assms by (simp_all add: inbox_step_iff)
  moreover from m have "phase_step (phase_of s) (phase_of t)"
    by (rule transition_cases) (auto intro: phase_step.intros)
  moreover from m have "s \<notin> set INBOX_TERMINAL"
    by (rule transition_cases) (auto simp: phase_of_def)
  ultimately show ?thesis by simp
qed

theorem inbox_refines_phases_witness:
  "phase_step (phase_of ''processing'') (phase_of ''succeeded'')"
proof -
  have "inbox_step ''processing'' (''succeed'', Some 3, Some 3) ''succeeded''"
    unfolding inbox_step_iff by (simp add: INBOX_TRANSITIONS_def stale_def)
  then show ?thesis by (rule inbox_refines_phases [THEN conjunct1])
qed

text \<open>Storing the outcomes of a list of deliveries in turn.\<close>

definition stored :: "string \<Rightarrow> delivery \<Rightarrow> string" where
  "stored s d = (case d of (e, f, l) \<Rightarrow>
     case inbox_transition s e f l of Inl _ \<Rightarrow> s
     | Inr r \<Rightarrow> if action r \<in> set INBOX_STATES then action r else s)"

definition deliver :: "string \<Rightarrow> delivery list \<Rightarrow> string" where
  "deliver s ds = foldl stored s ds"

lemma stored_step: "stored s d = s \<or> inbox_step s d (stored s d)"
  by (cases d) (auto simp: stored_def intro: inbox_step.intros split: sum.splits)

lemma deliver_append: "deliver s (as @ bs) = deliver (deliver s as) bs"
  by (simp add: deliver_def)

lemma deliver_terminal: "s \<in> set INBOX_TERMINAL \<Longrightarrow> deliver s ds = s"
proof (induction ds)
  case (Cons d ds)
  have "\<not> inbox_step s d (stored s d)"
    using Cons.prems by (cases d) (auto simp: inbox_step_iff elim!: transition_cases simp: phase_of_def)
  then show ?case using Cons stored_step [of s d] by (simp add: deliver_def)
qed (simp add: deliver_def)

lemma settled_split:
  assumes "deliver s ds \<in> set INBOX_TERMINAL" and "s \<notin> set INBOX_TERMINAL"
  shows "\<exists>pre d post. ds = pre @ d # post \<and> deliver s pre \<notin> set INBOX_TERMINAL
    \<and> inbox_step (deliver s pre) d (deliver s ds)"
  using assms
proof (induction ds rule: rev_induct)
  case Nil
  then show ?case by (simp add: deliver_def)
next
  case (snoc d ds)
  show ?case
  proof (cases "deliver s ds \<in> set INBOX_TERMINAL")
    case True
    then have same: "deliver s (ds @ [d]) = deliver s ds" by (simp add: deliver_append deliver_terminal)
    from snoc.IH [OF True snoc.prems(2)] obtain pre d' post where
      "ds = pre @ d' # post" "deliver s pre \<notin> set INBOX_TERMINAL" "inbox_step (deliver s pre) d' (deliver s ds)"
      by blast
    then show ?thesis unfolding same by (intro exI [of _ pre] exI [of _ d'] exI [of _ "post @ [d]"]) simp
  next
    case False
    have eq: "deliver s (ds @ [d]) = stored (deliver s ds) d" by (simp add: deliver_def)
    with False snoc.prems stored_step [of "deliver s ds" d]
    have "inbox_step (deliver s ds) d (deliver s (ds @ [d]))" by auto
    with False show ?thesis by (intro exI [of _ ds] exI [of _ d] exI [of _ "[]"]) simp
  qed
qed

text \<open>C28. Whatever events arrive for a received message, and with whatever fencing tokens: once it is
  settled, one delivery settled it, by a worker that held the message in processing and whose token was
  not stale, and nothing that arrived later changed the outcome.\<close>

theorem settled_once_by_a_live_worker:
  assumes "deliver ''received'' ds \<in> set INBOX_TERMINAL"
  shows "\<exists>pre e f l post. ds = pre @ (e, f, l) # post \<and> deliver ''received'' pre = ''processing'' \<and> \<not> stale f l
    \<and> (\<forall>later. deliver ''received'' (pre @ (e, f, l) # later) = deliver ''received'' ds)"
proof -
  obtain pre d post where ds: "ds = pre @ d # post" and step: "inbox_step (deliver ''received'' pre) d (deliver ''received'' ds)"
    using settled_split [OF assms] by (auto simp: INBOX_TERMINAL_def)
  obtain e f l where d: "d = (e, f, l)" by (cases d)
  have m: "map_of INBOX_TRANSITIONS (deliver ''received'' pre, e) = Some (deliver ''received'' ds)" and fresh: "\<not> stale f l"
    using step by (simp_all add: d inbox_step_iff)
  have proc: "deliver ''received'' pre = ''processing''"
    by (rule transition_cases [OF m]) (use assms in \<open>auto simp: phase_of_def split: if_splits\<close>)
  have "stored (deliver ''received'' pre) d = deliver ''received'' ds"
    using m fresh assms unfolding proc d stored_def inbox_transition_def
    by (auto simp: INBOX_STATES_def INBOX_TERMINAL_def)
  then have "deliver ''received'' (pre @ d # later) = deliver ''received'' ds" for later
    using assms deliver_terminal by (simp add: deliver_def)
  with ds proc fresh show ?thesis unfolding d by blast
qed

lemma stored_known:
  "stored ''received'' (''claim'', f, None) = ''processing''"
  "stored ''processing'' (''succeed'', f, None) = ''succeeded''"
  by (simp_all add: stored_def inbox_transition_def stale_def INBOX_STATES_def INBOX_TERMINAL_def
      INBOX_TRANSITIONS_def split: option.split)

theorem settled_once_by_a_live_worker_witness:
  "\<exists>pre e f l post. [(''claim'', Some 1, None), (''succeed'', Some 1, None), (''conflict'', Some 2, None)]
     = pre @ (e, f, l) # post \<and> deliver ''received'' pre = ''processing''"
proof -
  have "deliver ''received'' [(''claim'', Some 1, None), (''succeed'', Some 1, None), (''conflict'', Some 2, None)]
      \<in> set INBOX_TERMINAL" (is "deliver _ ?ds \<in> _")
    using deliver_terminal [of "''succeeded''" "[(''conflict'', Some 2, None)]"]
    by (simp add: deliver_def stored_known INBOX_TERMINAL_def)
  from settled_once_by_a_live_worker [OF this] show ?thesis by blast
qed

section \<open>Identity is not similarity\<close>

lemma split_bar: "c \<notin> set a \<Longrightarrow> c \<notin> set b \<Longrightarrow> a @ c # x = b @ c # y \<longleftrightarrow> a = b \<and> x = y"
proof (induction a arbitrary: b)
  case Nil
  then show ?case by (cases b) auto
next
  case (Cons z a)
  then show ?case by (cases b) auto
qed

definition content_digest :: "pyval \<Rightarrow> string" where
  "content_digest sha = py_lower (py_strip (py_str sha))"

definition is_digest :: "pyval \<Rightarrow> bool" where
  "is_digest sha = (length (content_digest sha) = 64 \<and> list_all is_hex (content_digest sha))"

definition artifact :: "string \<Rightarrow> string \<Rightarrow> pyval \<Rightarrow> pyval \<Rightarrow> pydict" where
  "artifact company source sha bytes = [(''company_id'', PStr company), (''data_source_id'', PStr source),
     (''content_sha256'', sha), (''raw_bytes_digest'', bytes)]"

text \<open>What an artifact needs to have an identity at all.\<close>

definition identified :: "string \<Rightarrow> string \<Rightarrow> pyval \<Rightarrow> bool" where
  "identified company source sha = (company \<noteq> [] \<and> source \<noteq> [] \<and> is_digest sha)"

lemma identity_cases:
  "identity_of_artifact (artifact c s h b) = (if identified c s h then Inr (c @ ''|'' @ s @ ''|'' @ content_digest h)
    else Inl (IdentityError (if c = [] \<or> s = [] then ''artifact identity is company and source scoped''
      else ''content_sha256 is not a sha256 digest: '' @ py_repr h)))"
  by (auto simp: identified_def identity_of_artifact_def artifact_def dict_item_def artifact_identity_def is_digest_def
      content_digest_def Let_def)

lemma same_identity_iff:
  assumes "identified c s h" "identified c' s' h'"
  shows "c @ ''|'' @ s @ ''|'' @ content_digest h = c' @ ''|'' @ s' @ ''|'' @ content_digest h'
    \<longleftrightarrow> c @ ''|'' @ s = c' @ ''|'' @ s' \<and> content_digest h = content_digest h'"
proof -
  have "length (content_digest h) = length (content_digest h')" using assms by (simp add: identified_def is_digest_def)
  then have "(c @ ''|'' @ s @ ''|'') @ content_digest h = (c' @ ''|'' @ s' @ ''|'') @ content_digest h'
      \<longleftrightarrow> c @ ''|'' @ s @ ''|'' = c' @ ''|'' @ s' @ ''|'' \<and> content_digest h = content_digest h'"
    by (intro append_eq_append_conv) simp
  moreover have "(c @ ''|'' @ s) @ ''|'' = (c' @ ''|'' @ s') @ ''|'' \<longleftrightarrow> c @ ''|'' @ s = c' @ ''|'' @ s'"
    by (rule append_same_eq)
  ultimately show ?thesis unfolding append_assoc by blast
qed

lemma same_company_iff:
  assumes "CHR ''|'' \<notin> set c \<union> set c'"
  shows "c @ ''|'' @ s = c' @ ''|'' @ s' \<longleftrightarrow> c = c' \<and> s = s'"
  using assms by (simp add: split_bar)

text \<open>C30. Two artifacts have the same identity when their digests agree and so do the texts that company, bar and
  source make; for companies without a bar in their names that is when company, source and digest agree. A delivery is answered with
  the stored version exactly when the identities and the raw bytes agree, raises a conflict with a security
  signal exactly when the identities agree and the bytes do not, and otherwise stores a new version, as the first
  delivery does. It fails exactly when one of the two has no identity: company or source empty, or no SHA-256 digest.\<close>

theorem artifact_resolution:
  "(case resolve_artifact (Some (artifact c' s' h' b')) (artifact c s h b) of
      Inl e \<Rightarrow> (\<exists>m. e = IdentityError m) \<and> \<not> (identified c s h \<and> identified c' s' h')
    | Inr r \<Rightarrow> identified c s h \<and> identified c' s' h'
      \<and> (let same = (c @ ''|'' @ s = c' @ ''|'' @ s' \<and> content_digest h = content_digest h') in
          (action r = ''return_existing_artifact_version'') = (same \<and> b = b')
        \<and> (action r = ''conflict'') = (same \<and> b \<noteq> b')
        \<and> (action r = ''create_new_artifact_version'') = (\<not> same)
        \<and> security_signal r = (action r = ''conflict'')
        \<and> (CHR ''|'' \<notin> set c \<union> set c' \<longrightarrow> same = ((c, s, content_digest h) = (c', s', content_digest h')))))
    \<and> (case resolve_artifact None (artifact c s h b) of
      Inl e \<Rightarrow> (\<exists>m. e = IdentityError m) \<and> \<not> identified c s h
    | Inr r \<Rightarrow> identified c s h \<and> action r = ''create_new_artifact_version'' \<and> \<not> security_signal r)"
proof (cases "identified c s h \<and> identified c' s' h'")
  case False
  then show ?thesis by (auto simp: resolve_artifact_def identity_cases resolve_as_def)
next
  case True
  have b: "dict_get (artifact x y z w) ''raw_bytes_digest'' = w" for x y z w
    by (simp add: artifact_def dict_get_def)
  have bar: "CHR ''|'' \<notin> set c \<union> set c' \<longrightarrow> (c @ ''|'' @ s = c' @ ''|'' @ s') = (c = c' \<and> s = s')"
    using same_company_iff [of c c' s s'] by blast
  have id: "identified c' s' h'" "identified c s h" using True by simp_all
  show ?thesis
  proof (cases "c @ ''|'' @ s = c' @ ''|'' @ s' \<and> content_digest h = content_digest h'")
    case same: True
    then have "c' @ ''|'' @ s' @ ''|'' @ content_digest h' = c @ ''|'' @ s @ ''|'' @ content_digest h"
      using same_identity_iff [OF id] by metis
    then show ?thesis using True bar same by (auto simp: resolve_artifact_def identity_cases b resolve_as_def)
  next
    case other: False
    then have "c' @ ''|'' @ s' @ ''|'' @ content_digest h' \<noteq> c @ ''|'' @ s @ ''|'' @ content_digest h"
      using same_identity_iff [OF id] by metis
    then show ?thesis using True bar other by (auto simp: resolve_artifact_def identity_cases b resolve_as_def)
  qed
qed

lemma is_digest_zeros: "is_digest (PStr (replicate 64 (CHR ''0'')))"
proof -
  have "content_digest (PStr (replicate 64 (CHR ''0''))) = replicate 64 (CHR ''0'')"
    by (simp add: content_digest_def py_strip_def py_lower_def lower_char_def is_space_def is_upper_ascii_def code_def)
  then show ?thesis by (simp add: is_digest_def list_all_iff is_hex_def)
qed

theorem artifact_resolution_witness:
  "\<exists>r. resolve_artifact (Some (artifact ''acme'' ''bank'' (PStr (replicate 64 (CHR ''0''))) (PStr ''x'')))
      (artifact ''acme'' ''bank'' (PStr (replicate 64 (CHR ''0''))) (PStr ''y'')) = Inr r
    \<and> action r = ''conflict'' \<and> security_signal r"
proof -
  define h where "h = PStr (replicate 64 (CHR ''0''))"
  have "identified ''acme'' ''bank'' h" using is_digest_zeros by (simp add: identified_def h_def)
  with artifact_resolution [where c = "''acme''" and s = "''bank''" and h = h and b = "PStr ''y''"
      and c' = "''acme''" and s' = "''bank''" and h' = h and b' = "PStr ''x''"]
  show ?thesis unfolding h_def [symmetric] by (auto simp: Let_def split: sum.splits)
qed

text \<open>With a bar in the name of a company the artifact of another one is taken for the same.\<close>

lemma bars_confuse_companies:
  "\<exists>r. resolve_artifact (Some (artifact ''acme|north'' ''bank'' (PStr (replicate 64 (CHR ''0''))) (PStr ''x'')))
      (artifact ''acme'' ''north|bank'' (PStr (replicate 64 (CHR ''0''))) (PStr ''x'')) = Inr r
    \<and> action r = ''return_existing_artifact_version''"
proof -
  let ?h = "PStr (replicate 64 (CHR ''0''))"
  have id: "identified ''acme|north'' ''bank'' ?h" "identified ''acme'' ''north|bank'' ?h"
    unfolding identified_def using is_digest_zeros by simp_all
  have raw: "dict_get (artifact x y z w) ''raw_bytes_digest'' = w" for x y z w by (simp add: artifact_def dict_get_def)
  show ?thesis unfolding resolve_artifact_def identity_cases if_P [OF id(1)] if_P [OF id(2)] raw by (simp add: identity_cases id resolve_as_def raw)
qed

text \<open>C31. A candidate is raised exactly when both movements belong to the same company, are different
  movements, and agree on every feature of a rule that declares at least one; the verdict does not depend on
  the order of the two, and whatever it is it has no automatic effect.\<close>

theorem candidate_raised_iff:
  "raised (evaluate_candidate l r rule) = (dict_get l ''company_id'' = dict_get r ''company_id''
      \<and> dict_get l ''movement_id'' \<noteq> dict_get r ''movement_id'' \<and> rule_features rule \<noteq> []
      \<and> map (feature_text l) (rule_features rule) = map (feature_text r) (rule_features rule))
    \<and> raised (evaluate_candidate l r rule) = raised (evaluate_candidate r l rule)
    \<and> automatic_effect (evaluate_candidate l r rule) = ''none''"
proof -
  have iff: "raised (evaluate_candidate l r rule) = (dict_get l ''company_id'' = dict_get r ''company_id''
      \<and> dict_get l ''movement_id'' \<noteq> dict_get r ''movement_id'' \<and> rule_features rule \<noteq> []
      \<and> map (feature_text l) (rule_features rule) = map (feature_text r) (rule_features rule))" for l r
    by (auto simp: evaluate_candidate_def Let_def filter_empty_conv)
  moreover have "automatic_effect (evaluate_candidate l r rule) = ''none''"
    by (simp add: evaluate_candidate_def Let_def)
  ultimately show ?thesis by (simp add: iff) metis
qed

section \<open>Decisions and retries\<close>

lemma order_pair_swap: "order_pair a b = order_pair b a"
  by (auto simp: order_pair_def)

text \<open>A reversal that passes names the decision it reverses and was taken by somebody else.\<close>

lemma accepted_reversal:
  assumes "validate_decision d (Some p) = []"
  shows "dict_get d ''reverses_decision_id'' = dict_get p ''decision_id''"
    and "dict_get d ''decided_by'' \<noteq> dict_get p ''decided_by''"
proof -
  have parts: "reversal_findings d (Some p) l = [] \<and> missing_fields d l = []" if "l = ''decision['' @ py_str (dict_get_default d ''candidate_id'' (PStr ''?'')) @ '']''" for l
    using assms that by (simp add: validate_decision_def Let_def)
  then have r: "reversal_findings d (Some p) l = []" and m: "missing_fields d l = []"
    if "l = ''decision['' @ py_str (dict_get_default d ''candidate_id'' (PStr ''?'')) @ '']''" for l
    using that by blast+
  show "dict_get d ''reverses_decision_id'' = dict_get p ''decision_id''"
    using r [OF refl] by (simp add: reversal_findings_def Let_def split: if_splits)
  have "truthy (dict_get d ''decided_by'')"
    using m [OF refl] by (auto simp: missing_fields_def REQUIRED_DECISION_FIELDS_def split: if_splits)
  with r [OF refl] show "dict_get d ''decided_by'' \<noteq> dict_get p ''decided_by''"
    by (simp add: reversal_findings_def Let_def split: if_splits)
qed

lemma retry_owners_clean:
  "snd (retry_owners layers) = [] \<longleftrightarrow> map fst (filter snd layers) = [RETRY_OWNER]"
proof -
  have s: "sort xs = [x] \<longleftrightarrow> xs = [x]" for xs :: "string list" and x
  proof
    assume "sort xs = [x]"
    then have "length (sort xs) = 1" "set (sort xs) = {x}" by simp_all
    then have "length xs = 1" "set xs = {x}" by simp_all
    then show "xs = [x]" by (cases xs) auto
  qed simp
  show ?thesis
    using s [of "map fst (filter snd layers)" RETRY_OWNER]
    by (auto simp: retry_owners_def Let_def split: list.splits)
qed

end
