(* ===== verification/PyText.thy ===== *)
theory PyText
  imports PyValue
begin

text \<open>
  Python text beyond ASCII: a \<open>utext\<close> is the list of its code points, a \<open>bytes\<close> object a char list (a
  char is a byte). White space, line splitting and the decimal digits follow Unicode 15, and the codecs
  \<open>utf-8\<close>, \<open>utf-8-sig\<close>, \<open>cp1252\<close> and \<open>latin-1\<close> are the strict ones. The lemmas show that decoding loses
  nothing and commutes with cutting a file into lines.
\<close>

type_synonym utext = "nat list"
type_synonym bytes = string

section \<open>Code points\<close>

definition u :: "string \<Rightarrow> utext" where
  "u s = map code s"

text \<open>\<open>str.isspace\<close> and the line boundaries of \<open>str.splitlines\<close>.\<close>

definition u_space :: "nat \<Rightarrow> bool" where
  "u_space c = ((9 \<le> c \<and> c \<le> 13) \<or> (28 \<le> c \<and> c \<le> 32) \<or> c = 0x85 \<or> c = 0xA0 \<or> c = 0x1680
     \<or> (0x2000 \<le> c \<and> c \<le> 0x200A) \<or> c = 0x2028 \<or> c = 0x2029 \<or> c = 0x202F \<or> c = 0x205F \<or> c = 0x3000)"

definition u_break :: "nat \<Rightarrow> bool" where
  "u_break c = ((10 \<le> c \<and> c \<le> 13) \<or> (28 \<le> c \<and> c \<le> 30) \<or> c = 0x85 \<or> c = 0x2028 \<or> c = 0x2029)"

definition u_strip :: "utext \<Rightarrow> utext" where
  "u_strip s = rev (dropWhile u_space (rev (dropWhile u_space s)))"

fun splitlines :: "utext \<Rightarrow> utext list" where
  "splitlines [] = []"
| "splitlines (c # s) =
     (if u_break c then (if c = 13 \<and> s \<noteq> [] \<and> hd s = 10 then splitlines s else [] # splitlines s)
      else case splitlines s of [] \<Rightarrow> [[c]] | l # ls \<Rightarrow> (c # l) # ls)"

text \<open>Cutting after every element that ends a line, the element included.\<close>

fun cut_after :: "('a \<Rightarrow> 'a list \<Rightarrow> bool) \<Rightarrow> 'a list \<Rightarrow> 'a list list" where
  "cut_after stop [] = []"
| "cut_after stop (c # s) =
     (if stop c s then [c] # cut_after stop s
      else case cut_after stop s of [] \<Rightarrow> [[c]] | l # ls \<Rightarrow> (c # l) # ls)"

text \<open>Iterating \<open>io.StringIO(text, newline="")\<close>: lines end at LF, CR or CR LF, kept as they are.\<close>

definition universal_end :: "nat \<Rightarrow> utext \<Rightarrow> bool" where
  "universal_end c s = (c = 10 \<or> (c = 13 \<and> (s = [] \<or> hd s \<noteq> 10)))"

definition universal_lines :: "utext \<Rightarrow> utext list" where
  "universal_lines = cut_after universal_end"

text \<open>Cutting at LF only.\<close>

definition lines_at :: "'a \<Rightarrow> 'a list \<Rightarrow> 'a list list" where
  "lines_at nl = cut_after (\<lambda>c s. c = nl)"

section \<open>Decimal digits\<close>

text \<open>The zeros of the decimal digit rows of Unicode (\<open>\d\<close> and \<open>int\<close>).\<close>

definition digit_zeros :: "nat list" where
  "digit_zeros = [0x30, 0x660, 0x6F0, 0x7C0, 0x966, 0x9E6, 0xA66, 0xAE6, 0xB66, 0xBE6, 0xC66, 0xCE6, 0xD66, 0xDE6,
     0xE50, 0xED0, 0xF20, 0x1040, 0x1090, 0x17E0, 0x1810, 0x1946, 0x19D0, 0x1A80, 0x1A90, 0x1B50, 0x1BB0, 0x1C40,
     0x1C50, 0xA620, 0xA8D0, 0xA900, 0xA9D0, 0xA9F0, 0xAA50, 0xABF0, 0xFF10, 0x104A0, 0x10D30, 0x11066, 0x110F0,
     0x11136, 0x111D0, 0x112F0, 0x11450, 0x114D0, 0x11650, 0x116C0, 0x11730, 0x118E0, 0x11950, 0x11C50, 0x11D50,
     0x11DA0, 0x11F50, 0x16A60, 0x16AC0, 0x16B50, 0x1D7CE, 0x1D7D8, 0x1D7E2, 0x1D7EC, 0x1D7F6, 0x1E140, 0x1E2F0,
     0x1E4F0, 0x1E950, 0x1FBF0]"

definition digit_value :: "nat \<Rightarrow> nat option" where
  "digit_value c = (case List.find (\<lambda>z. z \<le> c \<and> c < z + 10) digit_zeros of
     None \<Rightarrow> None | Some z \<Rightarrow> Some (c - z))"

text \<open>
  The patterns of the program only ask whether a character is a digit or a given ASCII character; this
  maps a text to one over bytes that they cannot tell from it: digits to the ASCII digit of their value,
  everything else beyond ASCII to a letter.
\<close>

definition narrow_char :: "nat \<Rightarrow> char" where
  "narrow_char c = (case digit_value c of Some d \<Rightarrow> digit_char d
     | None \<Rightarrow> if c < 128 then char_of c else CHR ''x'')"

definition narrow :: "utext \<Rightarrow> string" where
  "narrow s = map narrow_char s"

section \<open>Codecs\<close>

definition is_cont :: "nat \<Rightarrow> bool" where
  "is_cont b = (0x80 \<le> b \<and> b \<le> 0xBF)"

text \<open>The first character of a UTF-8 byte sequence and how many continuation bytes it takes: neither
  overlong forms nor surrogates, nothing beyond U+10FFFF.\<close>

definition utf8_step :: "nat \<Rightarrow> nat list \<Rightarrow> (nat \<times> nat) option" where
  "utf8_step b bs =
     (if b < 0x80 then Some (b, 0)
      else if 0xC2 \<le> b \<and> b \<le> 0xDF then
        (case bs of c1 # _ \<Rightarrow> if is_cont c1 then Some ((b - 0xC0) * 64 + (c1 - 0x80), 1) else None | _ \<Rightarrow> None)
      else if 0xE0 \<le> b \<and> b \<le> 0xEF then
        (case bs of c1 # c2 # _ \<Rightarrow>
           if is_cont c1 \<and> is_cont c2 \<and> \<not> (b = 0xE0 \<and> c1 < 0xA0) \<and> \<not> (b = 0xED \<and> 0x9F < c1)
           then Some ((b - 0xE0) * 4096 + (c1 - 0x80) * 64 + (c2 - 0x80), 2) else None
         | _ \<Rightarrow> None)
      else if 0xF0 \<le> b \<and> b \<le> 0xF4 then
        (case bs of c1 # c2 # c3 # _ \<Rightarrow>
           if is_cont c1 \<and> is_cont c2 \<and> is_cont c3 \<and> \<not> (b = 0xF0 \<and> c1 < 0x90) \<and> \<not> (b = 0xF4 \<and> 0x8F < c1)
           then Some ((b - 0xF0) * 262144 + (c1 - 0x80) * 4096 + (c2 - 0x80) * 64 + (c3 - 0x80), 3) else None
         | _ \<Rightarrow> None)
      else None)"

fun utf8_decode :: "nat list \<Rightarrow> utext option" where
  "utf8_decode [] = Some []"
| "utf8_decode (b # bs) = (case utf8_step b bs of None \<Rightarrow> None
     | Some (c, k) \<Rightarrow> map_option ((#) c) (utf8_decode (drop k bs)))"

definition utf8_char :: "nat \<Rightarrow> nat list" where
  "utf8_char c =
     (if c < 0x80 then [c]
      else if c < 0x800 then [0xC0 + c div 64, 0x80 + c mod 64]
      else if c < 0x10000 then [0xE0 + c div 4096, 0x80 + c div 64 mod 64, 0x80 + c mod 64]
      else [0xF0 + c div 262144, 0x80 + c div 4096 mod 64, 0x80 + c div 64 mod 64, 0x80 + c mod 64])"

definition utf8_encode :: "utext \<Rightarrow> nat list" where
  "utf8_encode t = concat (map utf8_char t)"

text \<open>\<open>cp1252\<close>: the block 0x80 to 0x9F is a table, five of its bytes mean nothing.\<close>

definition cp1252_table :: "(nat \<times> nat) list" where
  "cp1252_table = [
     (0x80, 0x20AC), (0x82, 0x201A), (0x83, 0x0192), (0x84, 0x201E), (0x85, 0x2026), (0x86, 0x2020), (0x87, 0x2021),
     (0x88, 0x02C6), (0x89, 0x2030), (0x8A, 0x0160), (0x8B, 0x2039), (0x8C, 0x0152), (0x8E, 0x017D), (0x91, 0x2018),
     (0x92, 0x2019), (0x93, 0x201C), (0x94, 0x201D), (0x95, 0x2022), (0x96, 0x2013), (0x97, 0x2014), (0x98, 0x02DC),
     (0x99, 0x2122), (0x9A, 0x0161), (0x9B, 0x203A), (0x9C, 0x0153), (0x9E, 0x017E), (0x9F, 0x0178)]"

definition cp1252_point :: "nat \<Rightarrow> nat option" where
  "cp1252_point b = (if 0x80 \<le> b \<and> b < 0xA0 then map_of cp1252_table b else Some b)"

fun cp1252_decode :: "nat list \<Rightarrow> utext option" where
  "cp1252_decode [] = Some []"
| "cp1252_decode (b # bs) = (case cp1252_point b of None \<Rightarrow> None
     | Some c \<Rightarrow> map_option ((#) c) (cp1252_decode bs))"

definition cp1252_byte :: "nat \<Rightarrow> nat" where
  "cp1252_byte c = (case map_of (map prod.swap cp1252_table) c of Some b \<Rightarrow> b | None \<Rightarrow> c)"

definition cp1252_encode :: "utext \<Rightarrow> nat list" where
  "cp1252_encode t = map cp1252_byte t"

definition latin1_decode :: "nat list \<Rightarrow> utext option" where
  "latin1_decode bs = Some bs"

definition latin1_encode :: "utext \<Rightarrow> nat list" where
  "latin1_encode t = t"

section \<open>Facts about lines\<close>

lemma cut_after_Nil [simp]: "cut_after stop xs = [] \<longleftrightarrow> xs = []"
  by (cases xs) (auto split: list.splits)

lemma concat_cut_after [simp]: "concat (cut_after stop xs) = xs"
  by (induction xs) (auto split: list.splits)

lemma cut_after_nonempty: "l \<in> set (cut_after stop xs) \<Longrightarrow> l \<noteq> []"
  by (induction xs arbitrary: l) (auto split: list.splits if_splits)

lemma concat_lines_at [simp]: "concat (lines_at nl xs) = xs"
  by (simp add: lines_at_def)

lemma lines_at_Nil [simp]: "lines_at nl xs = [] \<longleftrightarrow> xs = []" "lines_at nl [] = []"
  by (simp_all add: lines_at_def)

lemma lines_at_nonempty: "l \<in> set (lines_at nl xs) \<Longrightarrow> l \<noteq> []"
  unfolding lines_at_def by (rule cut_after_nonempty)

lemma lines_at_line: "nl \<notin> set l \<Longrightarrow> lines_at nl (l @ nl # xs) = (l @ [nl]) # lines_at nl xs"
  by (induction l) (auto simp: lines_at_def)

lemma lines_at_last: "nl \<notin> set l \<Longrightarrow> l \<noteq> [] \<Longrightarrow> lines_at nl l = [l]"
proof (induction l)
  case (Cons c l)
  then show ?case by (cases "l = []") (auto simp: lines_at_def)
qed simp

lemma lines_at_append: "lines_at nl (xs @ nl # ys) = lines_at nl (xs @ [nl]) @ lines_at nl ys"
proof (induction xs)
  case (Cons c xs)
  then show ?case
    by (cases "lines_at nl (xs @ [nl])") (auto simp: lines_at_def split: list.splits)
qed (simp add: lines_at_def)

lemma lines_at_map: "(\<And>x. x \<in> set xs \<Longrightarrow> f x = f nl \<longleftrightarrow> x = nl) \<Longrightarrow> lines_at (f nl) (map f xs) = map (map f) (lines_at nl xs)"
  by (induction xs) (auto simp: lines_at_def split: list.splits)

text \<open>Either one line without a terminator, or a line, its terminator and the rest.\<close>

lemma first_line_cases:
  obtains "nl \<notin> set xs" | l rest where "xs = l @ nl # rest" "nl \<notin> set l"
  by (metis split_list_first)

lemma lines_at_shape:
  "l \<in> set (lines_at nl xs) \<Longrightarrow> nl \<notin> set (butlast l) \<and> (nl \<in> set l \<longrightarrow> last l = nl)"
proof (induction "length xs" arbitrary: xs rule: less_induct)
  case less
  show ?case
  proof (cases rule: first_line_cases [of nl xs])
    case 1
    with less.prems have "l = xs" by (cases "xs = []") (auto simp: lines_at_last)
    with 1 show ?thesis by (auto dest: in_set_butlastD)
  next
    case (2 k rest)
    with less.prems less.hyps [of rest] show ?thesis by (auto simp: lines_at_line)
  qed
qed

section \<open>Facts about codecs\<close>

text \<open>
  What the readers rely on: a codec decodes the parts around a line feed independently, keeps the line
  feeds where they are, and encoding gives the bytes back.
\<close>

locale line_codec =
  fixes dec :: "nat list \<Rightarrow> nat list option" and enc :: "nat list \<Rightarrow> nat list"
  assumes dec_Nil: "dec [] = Some []"
    and dec_cut: "dec (xs @ 10 # ys) = (case (dec xs, dec ys) of (Some s, Some t) \<Rightarrow> Some (s @ 10 # t) | _ \<Rightarrow> None)"
    and dec_no_nl: "10 \<notin> set xs \<Longrightarrow> dec xs = Some s \<Longrightarrow> 10 \<notin> set s"
    and enc_dec: "set xs \<subseteq> {0..<256} \<Longrightarrow> dec xs = Some s \<Longrightarrow> enc s = xs"
    and dec_Nil_iff: "dec xs = Some [] \<Longrightarrow> xs = []"
begin

lemma dec_snoc: "dec (xs @ [10]) = map_option (\<lambda>s. s @ [10]) (dec xs)"
  using dec_cut [of xs "[]"] by (simp add: dec_Nil split: option.splits)

text \<open>Cutting the decoded text into lines is decoding the lines of the bytes.\<close>

lemma dec_lines:
  "dec xs = Some s \<Longrightarrow> list_all2 (\<lambda>b l. dec b = Some l) (lines_at 10 xs) (lines_at 10 s)"
proof (induction "length xs" arbitrary: xs s rule: less_induct)
  case less
  show ?case
  proof (cases rule: first_line_cases [of 10 xs])
    case 1
    with less.prems have "10 \<notin> set s" using dec_no_nl by blast
    with 1 less.prems show ?thesis
      by (cases "xs = []"; cases "s = []") (auto simp: lines_at_last dec_Nil dest: dec_Nil_iff)
  next
    case (2 l rest)
    from less.prems obtain a t where at: "dec l = Some a" "dec rest = Some t" "s = a @ 10 # t"
      by (auto simp: 2 dec_cut split: option.splits)
    have "10 \<notin> set a" using dec_no_nl at(1) 2(2) by blast
    moreover have "list_all2 (\<lambda>b l. dec b = Some l) (lines_at 10 rest) (lines_at 10 t)"
      using less.hyps at(2) 2 by simp
    ultimately show ?thesis using at 2(2) by (simp add: 2 lines_at_line dec_snoc)
  qed
qed

lemma dec_lines_None:
  "dec xs = None \<longleftrightarrow> (\<exists>l \<in> set (lines_at 10 xs). dec l = None)"
proof (induction "length xs" arbitrary: xs rule: less_induct)
  case less
  show ?case
  proof (cases rule: first_line_cases [of 10 xs])
    case 1
    then show ?thesis by (cases "xs = []") (auto simp: lines_at_last dec_Nil)
  next
    case (2 l rest)
    with less.hyps [of rest] show ?thesis by (auto simp: lines_at_line dec_cut dec_snoc dec_Nil split: option.splits)
  qed
qed

end

lemma utf8_step_append: "utf8_step b bs = Some (c, k) \<Longrightarrow> k \<le> length bs \<and> utf8_step b (bs @ ys) = Some (c, k)"
  by (auto simp: utf8_step_def split: if_splits list.splits)

lemma utf8_step_stop:
  "utf8_step b (bs @ 10 # ys) = Some (c, k) \<Longrightarrow> k \<le> length bs \<and> utf8_step b bs = Some (c, k)"
  by (auto simp: utf8_step_def is_cont_def Cons_eq_append_conv append_eq_Cons_conv split: if_splits list.splits)

lemma utf8_step_10: "utf8_step b bs = Some (10, k) \<Longrightarrow> b = 10 \<and> k = 0"
  by (auto simp: utf8_step_def is_cont_def split: if_splits list.splits)

lemma base64_digits:
  assumes "y < 64" and "z < (64::nat)"
  shows "(x * 64 + z) div 64 = x" "(x * 64 + z) mod 64 = z"
    "(x * 4096 + y * 64 + z) div 64 = x * 64 + y" "(x * 4096 + y * 64 + z) mod 64 = z"
    "(x * 4096 + y * 64 + z) div 4096 = x"
proof -
  show "(x * 64 + z) div 64 = x" "(x * 64 + z) mod 64 = z" for x using assms(2) by simp_all
  note d = this
  have e: "x * 4096 + y * 64 + z = (x * 64 + y) * 64 + z" by simp
  show m: "(x * 4096 + y * 64 + z) div 64 = x * 64 + y" "(x * 4096 + y * 64 + z) mod 64 = z"
    unfolding e by (simp_all only: d)
  have "(x * 4096 + y * 64 + z) div 4096 = (x * 4096 + y * 64 + z) div 64 div 64"
    by (simp add: div_mult2_eq [symmetric])
  also have "\<dots> = (x * 64 + y) div 64" by (simp only: m)
  also have "\<dots> = x" using assms(1) by simp
  finally show "(x * 4096 + y * 64 + z) div 4096 = x" .
qed

lemma is_contE:
  assumes "is_cont b"
  obtains y where "b = 128 + y" and "y < 64"
proof
  show "b = 128 + (b - 128)" "b - 128 < 64" using assms by (auto simp: is_cont_def)
qed

lemma utf8_char2:
  assumes b: "0xC2 \<le> b" "b \<le> 0xDF" and "is_cont c1"
  shows "utf8_char ((b - 0xC0) * 64 + (c1 - 0x80)) = [b, c1]"
proof -
  obtain y where c1: "c1 = 128 + y" and y: "y < 64" using \<open>is_cont c1\<close> by (rule is_contE)
  obtain x where bx: "b = 0xC0 + x" and x: "2 \<le> x" "x < 32" using b by (intro that [of "b - 0xC0"]) simp_all
  have "\<not> x * 64 + y < 0x80" "x * 64 + y < 0x800" using x y by linarith+
  then show ?thesis using base64_digits [OF y y, of x] by (simp add: utf8_char_def bx c1)
qed

lemma utf8_char3:
  assumes b: "0xE0 \<le> b" "b \<le> 0xEF" and "is_cont c1" "is_cont c2" and low: "\<not> (b = 0xE0 \<and> c1 < 0xA0)"
  shows "utf8_char ((b - 0xE0) * 4096 + (c1 - 0x80) * 64 + (c2 - 0x80)) = [b, c1, c2]"
proof -
  obtain y where c1: "c1 = 128 + y" and y: "y < 64" using \<open>is_cont c1\<close> by (rule is_contE)
  obtain z where c2: "c2 = 128 + z" and z: "z < 64" using \<open>is_cont c2\<close> by (rule is_contE)
  obtain x where bx: "b = 0xE0 + x" and x: "x < 16" using b by (intro that [of "b - 0xE0"]) simp_all
  obtain n where n: "n = x * 4096 + y * 64 + z" by blast
  have "x = 0 \<longrightarrow> 32 \<le> y" using low by (auto simp: bx c1)
  then have "\<not> n < 0x800" "\<not> n < 0x80" unfolding n by (cases "x = 0"; linarith)+
  moreover have "n < 0x10000" using x y z unfolding n by linarith
  moreover have "n div 64 mod 64 = y" "n mod 64 = z" "n div 4096 = x"
    unfolding n base64_digits [OF y z] by (simp_all only: base64_digits [OF y y])
  moreover have "(b - 0xE0) * 4096 + (c1 - 0x80) * 64 + (c2 - 0x80) = n" by (simp add: bx c1 c2 n)
  ultimately show ?thesis by (simp only: utf8_char_def if_False if_True) (simp add: bx c1 c2)
qed

lemma utf8_char4:
  assumes b: "0xF0 \<le> b" "b \<le> 0xF4" and "is_cont c1" "is_cont c2" "is_cont c3" and low: "\<not> (b = 0xF0 \<and> c1 < 0x90)"
  shows "utf8_char ((b - 0xF0) * 262144 + (c1 - 0x80) * 4096 + (c2 - 0x80) * 64 + (c3 - 0x80)) = [b, c1, c2, c3]"
proof -
  obtain w where c1: "c1 = 128 + w" and w: "w < 64" using \<open>is_cont c1\<close> by (rule is_contE)
  obtain y where c2: "c2 = 128 + y" and y: "y < 64" using \<open>is_cont c2\<close> by (rule is_contE)
  obtain z where c3: "c3 = 128 + z" and z: "z < 64" using \<open>is_cont c3\<close> by (rule is_contE)
  obtain x where bx: "b = 0xF0 + x" and x: "x < 5" using b by (intro that [of "b - 0xF0"]) simp_all
  have "x = 0 \<longrightarrow> 16 \<le> w" using low by (auto simp: bx c1)
  obtain n where n: "n = (x * 64 + w) * 4096 + y * 64 + z" by blast
  have "16 \<le> x * 64 + w" using \<open>x = 0 \<longrightarrow> 16 \<le> w\<close> by (cases "x = 0") simp_all
  then have "16 * 4096 \<le> (x * 64 + w) * 4096" by (rule mult_le_mono1)
  then have "\<not> n < 0x10000" unfolding n by simp
  moreover from this have "\<not> n < 0x800" "\<not> n < 0x80" by linarith+
  moreover have "n div 64 mod 64 = y" "n mod 64 = z" and d: "n div 4096 = x * 64 + w"
    unfolding n base64_digits [OF y z] by (simp_all only: base64_digits [OF y y])
  moreover have "n div 4096 mod 64 = w" unfolding d by (simp only: base64_digits [OF w w])
  moreover have "n div 262144 = n div 4096 div 64" by (simp add: div_mult2_eq [symmetric])
  then have "n div 262144 = x" unfolding d by (simp only: base64_digits [OF w w])
  moreover have "(b - 0xF0) * 262144 + (c1 - 0x80) * 4096 + (c2 - 0x80) * 64 + (c3 - 0x80) = n"
    by (simp add: bx c1 c2 c3 n algebra_simps)
  ultimately show ?thesis by (simp only: utf8_char_def if_False if_True) (simp add: bx c1 c2 c3)
qed

lemma utf8_char1: "b < 0x80 \<Longrightarrow> utf8_char b = [b]"
  by (simp add: utf8_char_def)

lemma utf8_char_step:
  "utf8_step b bs = Some (c, k) \<Longrightarrow> utf8_char c = b # take k bs"
  unfolding utf8_step_def
  by (auto simp: utf8_char1 utf8_char2 utf8_char3 utf8_char4 not_less split: if_splits list.splits)

lemma utf8_encode_decode: "utf8_decode bs = Some t \<Longrightarrow> utf8_encode t = bs"
proof (induction bs arbitrary: t rule: utf8_decode.induct)
  case 1
  then show ?case by (simp add: utf8_encode_def)
next
  case (2 b bs)
  from "2.prems" obtain c k t' where s: "utf8_step b bs = Some (c, k)" "utf8_decode (drop k bs) = Some t'" "t = c # t'"
    by (auto split: option.splits)
  from "2.IH" [OF s(1) refl s(2)] have "utf8_encode t' = drop k bs" .
  then show ?case using utf8_char_step [OF s(1)] by (simp add: s(3) utf8_encode_def)
qed

lemma utf8_decode_cut:
  "utf8_decode (xs @ 10 # ys) = (case (utf8_decode xs, utf8_decode ys) of (Some s, Some t) \<Rightarrow> Some (s @ 10 # t) | _ \<Rightarrow> None)"
proof (induction xs rule: utf8_decode.induct)
  case 1
  show ?case by (simp add: utf8_step_def split: option.split)
next
  case (2 b bs)
  show ?case
  proof (cases "utf8_step b bs")
    case None
    then have "utf8_step b (bs @ 10 # ys) = None"
      using utf8_step_stop by (metis option.exhaust surj_pair option.simps(3))
    with None show ?thesis by simp
  next
    case (Some ck)
    obtain c k where ck: "ck = (c, k)" by fastforce
    have "k \<le> length bs" "utf8_step b (bs @ 10 # ys) = Some (c, k)" 
      using utf8_step_append Some ck by blast+
    with "2.IH" [OF Some ck [symmetric]] show ?thesis
      by (simp add: Some ck split: option.splits)
  qed
qed

lemma utf8_decode_no_nl: "10 \<notin> set bs \<Longrightarrow> utf8_decode bs = Some t \<Longrightarrow> 10 \<notin> set t"
proof (induction bs arbitrary: t rule: utf8_decode.induct)
  case (2 b bs)
  from "2.prems" obtain c k t' where s: "utf8_step b bs = Some (c, k)" "utf8_decode (drop k bs) = Some t'" "t = c # t'"
    by (auto split: option.splits)
  have "c \<noteq> 10" using s(1) utf8_step_10 "2.prems"(1) by auto
  moreover have "10 \<notin> set t'" using "2.IH" [OF s(1) refl _ s(2)] "2.prems"(1) by (auto dest: in_set_dropD)
  ultimately show ?case by (simp add: s(3))
qed simp

interpretation utf8: line_codec utf8_decode utf8_encode
proof
  show "xs = []" if "utf8_decode xs = Some []" for xs
    using utf8_encode_decode [OF that] by (simp add: utf8_encode_def)
qed (simp_all add: utf8_decode_cut utf8_decode_no_nl utf8_encode_decode)

lemma cp1252_decode_append:
  "cp1252_decode (xs @ ys) = (case (cp1252_decode xs, cp1252_decode ys) of (Some s, Some t) \<Rightarrow> Some (s @ t) | _ \<Rightarrow> None)"
  by (induction xs) (auto split: option.splits)

lemma map_of_swap: "distinct (map snd ps) \<Longrightarrow> map_of ps b = Some c \<Longrightarrow> map_of (map prod.swap ps) c = Some b"
  by (rule map_of_is_SomeI) (force simp: comp_def dest: map_of_SomeD)+

lemma cp1252_table_facts:
  "distinct (map snd cp1252_table)" "list_all (\<lambda>p. 255 < snd p) cp1252_table"
  by (simp_all add: cp1252_table_def)

lemma cp1252_point_byte:
  assumes "b < 256" "cp1252_point b = Some c"
  shows "cp1252_byte c = b \<and> (c = 10 \<longrightarrow> b = 10)"
proof (cases "0x80 \<le> b \<and> b < 0xA0")
  case True
  then have m: "map_of cp1252_table b = Some c" using assms(2) by (simp add: cp1252_point_def)
  then have "255 < c" using cp1252_table_facts(2) by (force simp: list_all_iff dest: map_of_SomeD)
  then show ?thesis using map_of_swap [OF cp1252_table_facts(1) m] by (simp add: cp1252_byte_def)
next
  case False
  then have c: "c = b" using assms(2) by (auto simp: cp1252_point_def split: if_splits)
  have "map_of (map prod.swap cp1252_table) b = None"
    using cp1252_table_facts(2) assms(1) by (auto simp: map_of_eq_None_iff list_all_iff)
  then show ?thesis by (simp add: cp1252_byte_def c)
qed

lemma cp1252_point_10: "cp1252_point b = Some 10 \<Longrightarrow> b = 10"
proof (cases "b < 256")
  case False
  then show "cp1252_point b = Some 10 \<Longrightarrow> b = 10" by (simp add: cp1252_point_def)
qed (use cp1252_point_byte in blast)

lemma length_cp1252_decode: "cp1252_decode bs = Some t \<Longrightarrow> length t = length bs"
  by (induction bs arbitrary: t) (auto split: option.splits)

interpretation cp1252: line_codec cp1252_decode cp1252_encode
proof
  show "cp1252_decode (xs @ 10 # ys) = (case (cp1252_decode xs, cp1252_decode ys) of (Some s, Some t) \<Rightarrow> Some (s @ 10 # t) | _ \<Rightarrow> None)" for xs ys
    unfolding cp1252_decode_append by (simp add: cp1252_point_def split: option.splits)
  show "10 \<notin> set s" if "10 \<notin> set xs" "cp1252_decode xs = Some s" for xs s
    using that by (induction xs arbitrary: s) (auto split: option.splits dest: cp1252_point_10)
  show "cp1252_encode s = xs" if "set xs \<subseteq> {0..<256}" "cp1252_decode xs = Some s" for xs s
    using that by (induction xs arbitrary: s) (auto simp: cp1252_encode_def cp1252_point_byte split: option.splits)
  show "xs = []" if "cp1252_decode xs = Some []" for xs
    using length_cp1252_decode [OF that] by simp
qed simp

interpretation latin1: line_codec latin1_decode latin1_encode
  by unfold_locales (auto simp: latin1_decode_def latin1_encode_def)

section \<open>Codecs by name\<close>

text \<open>The codecs of a text without a byte order mark, \<open>bytes.decode\<close> and \<open>len(str.encode)\<close>.\<close>

definition wire_decode :: "string \<Rightarrow> nat list \<Rightarrow> utext option" where
  "wire_decode codec = (if codec = ''utf-8'' then utf8_decode else if codec = ''cp1252'' then cp1252_decode else latin1_decode)"

definition wire_encode :: "string \<Rightarrow> utext \<Rightarrow> nat list" where
  "wire_encode codec = (if codec = ''utf-8'' then utf8_encode else if codec = ''cp1252'' then cp1252_encode else latin1_encode)"

interpretation wire: line_codec "wire_decode codec" "wire_encode codec" for codec
  unfolding wire_decode_def wire_encode_def
  using utf8.line_codec_axioms cp1252.line_codec_axioms latin1.line_codec_axioms by simp

definition byte_values :: "bytes \<Rightarrow> nat list" where
  "byte_values bs = map code bs"

lemma byte_values_range: "set (byte_values bs) \<subseteq> {0..<256}"
  using code_less by (auto simp: byte_values_def)

lemma byte_values_append [simp]: "byte_values (xs @ ys) = byte_values xs @ byte_values ys"
  by (simp add: byte_values_def)

lemma length_byte_values [simp]: "length (byte_values bs) = length bs"
  by (simp add: byte_values_def)

lemma length_wire_encode: "wire_decode codec (byte_values bs) = Some t \<Longrightarrow> length (wire_encode codec t) = length bs"
  using wire.enc_dec [OF byte_values_range] by (metis length_byte_values)

lemma lines_at_byte_values: "lines_at 10 (byte_values bs) = map byte_values (lines_at chr_nl bs)"
proof -
  have ten: "code chr_nl = 10" by (simp add: code_def)
  show ?thesis using lines_at_map [of bs code chr_nl] unfolding byte_values_def ten [symmetric] by simp
qed

section \<open>Lines put together again\<close>

definition wf_lines :: "'a \<Rightarrow> 'a list list \<Rightarrow> bool" where
  "wf_lines nl ls = ((\<forall>l \<in> set ls. l \<noteq> [] \<and> nl \<notin> set (butlast l)) \<and> (\<forall>l \<in> set (butlast ls). last l = nl))"

lemma wf_lines_Cons: "wf_lines nl (l # ls) \<longleftrightarrow> l \<noteq> [] \<and> nl \<notin> set (butlast l) \<and> (ls \<noteq> [] \<longrightarrow> last l = nl) \<and> wf_lines nl ls"
  by (cases ls) (auto simp: wf_lines_def)

lemma wf_lines_lines_at: "wf_lines nl (lines_at nl xs)"
proof (induction "length xs" arbitrary: xs rule: less_induct)
  case less
  show ?case
  proof (cases rule: first_line_cases [of nl xs])
    case 1
    then show ?thesis by (cases "xs = []") (auto simp: lines_at_last wf_lines_def dest: in_set_butlastD)
  next
    case (2 l rest)
    with less.hyps [of rest] show ?thesis by (auto simp: lines_at_line wf_lines_Cons)
  qed
qed

lemma lines_at_concat: "wf_lines nl ls \<Longrightarrow> lines_at nl (concat ls) = ls"
proof (induction ls)
  case (Cons l ls)
  then have l: "l \<noteq> []" "nl \<notin> set (butlast l)" and wf: "wf_lines nl ls" and closed: "ls \<noteq> [] \<longrightarrow> last l = nl"
    by (simp_all add: wf_lines_Cons)
  show ?case
  proof (cases "last l = nl")
    case True
    then obtain k where k: "l = k @ [nl]" using l(1) by (metis append_butlast_last_id)
    then show ?thesis using l(2) Cons.IH [OF wf] lines_at_line [of nl k "concat ls"] by simp
  next
    case False
    then have "ls = []" using closed by blast
    moreover have "nl \<notin> set l" using l False by (cases l rule: rev_cases) auto
    ultimately show ?thesis using l(1) by (simp add: lines_at_last)
  qed
qed simp

lemma wf_lines_append: "wf_lines nl (xs @ ys) \<Longrightarrow> wf_lines nl xs \<and> wf_lines nl ys"
  unfolding wf_lines_def by (auto simp: butlast_append dest: in_set_butlastD split: if_splits)

lemma wf_lines_part: "wf_lines nl ls \<Longrightarrow> wf_lines nl (take k (drop i ls))"
  using wf_lines_append [of nl "take i ls" "drop i ls"] wf_lines_append [of nl "take k (drop i ls)" "drop k (drop i ls)"]
  unfolding append_take_drop_id by blast

context line_codec
begin

lemma dec_concat:
  "list_all2 (\<lambda>b t. dec b = Some t) bs ts \<Longrightarrow> wf_lines 10 bs \<Longrightarrow> dec (concat bs) = Some (concat ts)"
proof (induction rule: list_all2_induct)
  case (Cons b bs t ts)
  then have wf: "wf_lines 10 bs" by (simp add: wf_lines_Cons)
  show ?case
  proof (cases "bs = []")
    case True
    with Cons show ?thesis by simp
  next
    case False
    then obtain x where b: "b = x @ [10]" using Cons.prems by (metis append_butlast_last_id wf_lines_Cons)
    from Cons.hyps(1) obtain s where s: "dec x = Some s" "t = s @ [10]" unfolding b dec_snoc by auto
    then show ?thesis using dec_cut [of x "concat bs"] Cons.IH [OF wf] by (simp add: b)
  qed
qed (simp add: dec_Nil)

end

lemma lines_at_split_char:
  "lines_at nl xs = map (\<lambda>p. p @ [nl]) (butlast (split_char nl xs)) @ (if last (split_char nl xs) \<noteq> [] then [last (split_char nl xs)] else [])"
proof (induction xs)
  case (Cons x xs)
  obtain p ps where p: "split_char nl xs = p # ps" by (cases "split_char nl xs") simp_all
  show ?case
    using Cons.IH by (auto simp: lines_at_def p split: list.splits)
qed simp

end
