(* ===== verification/CsvReader.thy ===== *)
theory CsvReader
  imports PyText
begin

text \<open>
  \<open>csv.reader\<close> of the standard library with the dialect the program uses (double quotes, doubled inside a
  quoted field, no escapes, not strict): its state machine over one line, and \<open>next(reader)\<close>, which pulls
  as many lines from its iterator as the record needs. The lemmas show that every record consumes at
  least one line and depends on no other, and that reading through a feeder is reading its texts.
\<close>

section \<open>The parser\<close>

datatype csv_state = START_RECORD | START_FIELD | IN_FIELD | IN_QUOTED_FIELD | QUOTE_IN_QUOTED_FIELD | EAT_CRNL

record csv_parser =
  st :: csv_state
  row_fields :: "utext list"
  field_chars :: utext

definition csv_reset :: csv_parser where
  "csv_reset = \<lparr>st = START_RECORD, row_fields = [], field_chars = []\<rparr>"

definition field_size_limit :: nat where "field_size_limit = 131072"

definition quote :: nat where "quote = 34"

definition save_field :: "csv_parser \<Rightarrow> csv_parser" where
  "save_field p = p\<lparr>row_fields := row_fields p @ [field_chars p], field_chars := []\<rparr>"

definition add_char :: "nat \<Rightarrow> csv_parser \<Rightarrow> (exn, csv_parser) result" where
  "add_char c p = (if field_size_limit \<le> length (field_chars p)
     then Inl (CsvError ''field larger than field limit (131072)'')
     else Inr (p\<lparr>field_chars := field_chars p @ [c]\<rparr>))"

definition is_crnl :: "nat \<Rightarrow> bool" where "is_crnl c = (c = 10 \<or> c = 13)"

definition start_field :: "nat \<Rightarrow> nat \<Rightarrow> csv_parser \<Rightarrow> (exn, csv_parser) result" where
  "start_field d c p =
     (if is_crnl c then Inr ((save_field p)\<lparr>st := EAT_CRNL\<rparr>)
      else if c = quote then Inr (p\<lparr>st := IN_QUOTED_FIELD\<rparr>)
      else if c = d then Inr ((save_field p)\<lparr>st := START_FIELD\<rparr>)
      else rbind (add_char c p) (\<lambda>p. Inr (p\<lparr>st := IN_FIELD\<rparr>)))"

definition csv_char :: "nat \<Rightarrow> nat \<Rightarrow> csv_parser \<Rightarrow> (exn, csv_parser) result" where
  "csv_char d c p = (case st p of
     START_RECORD \<Rightarrow> if is_crnl c then Inr (p\<lparr>st := EAT_CRNL\<rparr>) else start_field d c (p\<lparr>st := START_FIELD\<rparr>)
   | START_FIELD \<Rightarrow> start_field d c p
   | IN_FIELD \<Rightarrow>
       if is_crnl c then Inr ((save_field p)\<lparr>st := EAT_CRNL\<rparr>)
       else if c = d then Inr ((save_field p)\<lparr>st := START_FIELD\<rparr>) else add_char c p
   | IN_QUOTED_FIELD \<Rightarrow> if c = quote then Inr (p\<lparr>st := QUOTE_IN_QUOTED_FIELD\<rparr>) else add_char c p
   | QUOTE_IN_QUOTED_FIELD \<Rightarrow>
       if c = quote then rbind (add_char c p) (\<lambda>p. Inr (p\<lparr>st := IN_QUOTED_FIELD\<rparr>))
       else if c = d then Inr ((save_field p)\<lparr>st := START_FIELD\<rparr>)
       else if is_crnl c then Inr ((save_field p)\<lparr>st := EAT_CRNL\<rparr>)
       else rbind (add_char c p) (\<lambda>p. Inr (p\<lparr>st := IN_FIELD\<rparr>))
   | EAT_CRNL \<Rightarrow>
       if is_crnl c then Inr p
       else Inl (CsvError (''new-line character seen in unquoted field - do you need to open the file with newline=''
              @ [chr_apos, chr_apos, CHR ''?'']))
   )"

definition csv_eol :: "csv_parser \<Rightarrow> csv_parser" where
  "csv_eol p = (case st p of
     START_RECORD \<Rightarrow> p
   | START_FIELD \<Rightarrow> (save_field p)\<lparr>st := START_RECORD\<rparr>
   | IN_FIELD \<Rightarrow> (save_field p)\<lparr>st := START_RECORD\<rparr>
   | IN_QUOTED_FIELD \<Rightarrow> p
   | QUOTE_IN_QUOTED_FIELD \<Rightarrow> (save_field p)\<lparr>st := START_RECORD\<rparr>
   | EAT_CRNL \<Rightarrow> p\<lparr>st := START_RECORD\<rparr>)"

fun csv_chars :: "nat \<Rightarrow> utext \<Rightarrow> csv_parser \<Rightarrow> (exn, csv_parser) result" where
  "csv_chars d [] p = Inr p"
| "csv_chars d (c # cs) p = rbind (csv_char d c p) (csv_chars d cs)"

definition csv_line :: "nat \<Rightarrow> utext \<Rightarrow> csv_parser \<Rightarrow> (exn, csv_parser) result" where
  "csv_line d l p = rbind (csv_chars d l p) (\<lambda>p. Inr (csv_eol p))"

section \<open>Records\<close>

text \<open>The end of the input closes an open quoted field.\<close>

definition csv_finish :: "csv_parser \<Rightarrow> utext list option" where
  "csv_finish p = (if field_chars p \<noteq> [] \<or> st p = IN_QUOTED_FIELD then Some (row_fields p @ [field_chars p]) else None)"

text \<open>
  \<open>next(reader)\<close> over an iterator: \<open>feed\<close> is its \<open>__next__\<close> on a source with lines left, which returns the
  line as text or raises, and leaves a new state either way. \<open>Inr None\<close> is \<open>StopIteration\<close>. The lines that
  are left come back too.
\<close>

fun csv_pull :: "('s \<Rightarrow> 'l \<Rightarrow> (exn, utext) result \<times> 's) \<Rightarrow> nat \<Rightarrow> csv_parser \<Rightarrow> 's \<Rightarrow> 'l list
    \<Rightarrow> (exn, utext list option) result \<times> 's \<times> 'l list" where
  "csv_pull feed d p s [] = (Inr (csv_finish p), s, [])"
| "csv_pull feed d p s (l # ls) = (case feed s l of
     (Inl e, s') \<Rightarrow> (Inl e, s', ls)
   | (Inr t, s') \<Rightarrow> (case csv_line d t p of
       Inl e \<Rightarrow> (Inl e, s', ls)
     | Inr p' \<Rightarrow> if st p' = START_RECORD then (Inr (Some (row_fields p')), s', ls) else csv_pull feed d p' s' ls))"

definition csv_next :: "('s \<Rightarrow> 'l \<Rightarrow> (exn, utext) result \<times> 's) \<Rightarrow> nat \<Rightarrow> 's \<Rightarrow> 'l list
    \<Rightarrow> (exn, utext list option) result \<times> 's \<times> 'l list" where
  "csv_next feed d s ls = csv_pull feed d csv_reset s ls"

text \<open>An iterator whose items are the lines themselves, counting what it handed out.\<close>

definition plain_feed :: "nat \<Rightarrow> utext \<Rightarrow> (exn, utext) result \<times> nat" where
  "plain_feed n l = (Inr l, Suc n)"

definition csv_record :: "nat \<Rightarrow> utext list \<Rightarrow> (exn, utext list option) result \<times> utext list" where
  "csv_record d ls = (case csv_next plain_feed d 0 ls of (r, _, rest) \<Rightarrow> (r, rest))"

section \<open>Progress\<close>

text \<open>The lines a call consumed, and what is left.\<close>

lemma csv_pull_suffix:
  assumes "csv_pull feed d p s ls = (r, s', rest)"
  shows "\<exists>used. ls = used @ rest \<and> (used = [] \<longrightarrow> ls = [])"
  using assms
proof (induction ls arbitrary: p s)
  case (Cons l ls)
  obtain a s1 where f: "feed s l = (a, s1)" by fastforce
  have "rest = ls \<or> (\<exists>p1. csv_pull feed d p1 s1 ls = (r, s', rest))"
    using Cons.prems by (auto simp: f split: sum.splits if_splits)
  then show ?case
  proof
    assume "rest = ls"
    then have "l # ls = [l] @ rest" by simp
    then show ?thesis by blast
  next
    assume "\<exists>p1. csv_pull feed d p1 s1 ls = (r, s', rest)"
    then obtain used where "ls = used @ rest" using Cons.IH by blast
    then have "l # ls = (l # used) @ rest" by simp
    then show ?thesis by blast
  qed
qed simp

text \<open>Every record, and every exception, consumes at least one line.\<close>

lemma csv_next_progress:
  assumes "csv_next feed d s ls = (r, s', rest)" and "r \<noteq> Inr None"
  shows "length rest < length ls"
proof -
  obtain used where u: "ls = used @ rest" "used = [] \<longrightarrow> ls = []"
    using csv_pull_suffix [OF assms(1) [unfolded csv_next_def]] by blast
  have "ls \<noteq> []"
  proof
    assume "ls = []"
    with assms show False by (auto simp: csv_next_def csv_reset_def csv_finish_def)
  qed
  then have "used \<noteq> []" using u(2) by blast
  then show ?thesis unfolding u(1) by simp
qed

lemma csv_record_progress: "csv_record d ls = (r, rest) \<Longrightarrow> r \<noteq> Inr None \<Longrightarrow> length rest < length ls"
  unfolding csv_record_def by (auto split: prod.splits dest: csv_next_progress)

section \<open>Feeders\<close>

text \<open>What a feeder hands out for a list of lines, and where that leaves it.\<close>

fun feed_all :: "('s \<Rightarrow> 'l \<Rightarrow> (exn, utext) result \<times> 's) \<Rightarrow> 's \<Rightarrow> 'l list \<Rightarrow> (exn, utext list) result \<times> 's" where
  "feed_all feed s [] = (Inr [], s)"
| "feed_all feed s (l # ls) = (case feed s l of
     (Inl e, s') \<Rightarrow> (Inl e, s')
   | (Inr t, s') \<Rightarrow> (case feed_all feed s' ls of (Inl e, s'') \<Rightarrow> (Inl e, s'') | (Inr ts, s'') \<Rightarrow> (Inr (t # ts), s'')))"

lemma feed_all_Cons:
  "feed_all feed s (l # ls) = (Inr ts, s'') \<longleftrightarrow>
    (\<exists>t s' us. feed s l = (Inr t, s') \<and> feed_all feed s' ls = (Inr us, s'') \<and> ts = t # us)"
  by (auto split: prod.splits sum.splits)

lemma length_feed_all: "feed_all feed s ls = (Inr ts, s') \<Longrightarrow> length ts = length ls"
  by (induction ls arbitrary: s ts) (auto simp: feed_all_Cons simp del: feed_all.simps(2))

lemma feed_all_append:
  "feed_all feed s xs = (Inr ts, s') \<Longrightarrow> feed_all feed s' ys = (Inr us, s'') \<Longrightarrow> feed_all feed s (xs @ ys) = (Inr (ts @ us), s'')"
  by (induction xs arbitrary: s ts) (auto simp: feed_all_Cons simp del: feed_all.simps(2))

lemma feed_all_split:
  "feed_all feed s (xs @ ys) = (Inr vs, s'') \<Longrightarrow>
    \<exists>ts us s'. feed_all feed s xs = (Inr ts, s') \<and> feed_all feed s' ys = (Inr us, s'') \<and> vs = ts @ us"
proof (induction xs arbitrary: s vs)
  case (Cons x xs)
  then obtain t s1 ws where f: "feed s x = (Inr t, s1)" and w: "feed_all feed s1 (xs @ ys) = (Inr ws, s'')" and v: "vs = t # ws"
    by (auto simp: feed_all_Cons simp del: feed_all.simps(2))
  from Cons.IH [OF w] obtain ts us s' where "feed_all feed s1 xs = (Inr ts, s')" "feed_all feed s' ys = (Inr us, s'')" "ws = ts @ us"
    by blast
  then show ?case using f v
    by (intro exI [of _ "t # ts"] exI [of _ us] exI [of _ s']) simp
qed simp

text \<open>A record depends on the texts of the lines it consumes only, whatever handed them out.\<close>

lemma csv_pull_used:
  assumes "csv_pull feed d p s ls = (Inr (Some v), s', rest)"
  shows "\<exists>used ts. ls = used @ rest \<and> feed_all feed s used = (Inr ts, s')
    \<and> csv_pull plain_feed d p n ts = (Inr (Some v), n + length ts, [])"
  using assms
proof (induction ls arbitrary: p s n)
  case Nil
  then have "rest = [] \<and> s' = s \<and> csv_finish p = Some v" by simp
  then show ?case by (intro exI [of _ "[]"]) simp
next
  case (Cons l ls)
  from Cons.prems obtain t s1 p1 where f: "feed s l = (Inr t, s1)" and line: "csv_line d t p = Inr p1"
    and c: "(if st p1 = START_RECORD then (Inr (Some (row_fields p1)), s1, ls) else csv_pull feed d p1 s1 ls) = (Inr (Some v), s', rest)"
    by (auto split: prod.splits sum.splits)
  show ?case
  proof (cases "st p1 = START_RECORD")
    case True
    with c have "v = row_fields p1" "s' = s1" "rest = ls" by simp_all
    then show ?thesis using True
      by (intro exI [of _ "[l]"] exI [of _ "[t]"]) (simp add: f line plain_feed_def)
  next
    case False
    with c have "csv_pull feed d p1 s1 ls = (Inr (Some v), s', rest)" by simp
    from Cons.IH [OF this, of "Suc n"] obtain used ts where "ls = used @ rest" "feed_all feed s1 used = (Inr ts, s')"
      "csv_pull plain_feed d p1 (Suc n) ts = (Inr (Some v), Suc n + length ts, [])" by blast
    then show ?thesis using False
      by (intro exI [of _ "l # used"] exI [of _ "t # ts"]) (simp add: f line plain_feed_def [of n])
  qed
qed

text \<open>Reading through a feeder that does not raise is reading the texts it hands out.\<close>

lemma csv_pull_feed:
  assumes "feed_all feed s ls = (Inr ts, s')" and "csv_pull plain_feed d p n ts = (r, m, trest)"
  shows "\<exists>k. k \<le> length ls \<and> trest = drop k ts \<and> m = n + k
    \<and> csv_pull feed d p s ls = (r, snd (feed_all feed s (take k ls)), drop k ls)"
  using assms
proof (induction ls arbitrary: p s ts n)
  case Nil
  then show ?case by (intro exI [of _ 0]) simp
next
  case (Cons l ls)
  from Cons.prems(1) obtain t s1 us where f: "feed s l = (Inr t, s1)" and fa: "feed_all feed s1 ls = (Inr us, s')" and ts: "ts = t # us"
    by (auto simp: feed_all_Cons simp del: feed_all.simps(2))
  show ?case
  proof (cases "\<exists>p1. csv_line d t p = Inr p1 \<and> st p1 \<noteq> START_RECORD")
    case False
    then show ?thesis using Cons.prems(2)
      by (intro exI [of _ "Suc 0"]) (auto simp: f ts plain_feed_def [of n] split: sum.splits)
  next
    case True
    then obtain p1 where p1: "csv_line d t p = Inr p1" "st p1 \<noteq> START_RECORD" by blast
    have "csv_pull plain_feed d p1 (Suc n) us = (r, m, trest)"
      using Cons.prems(2) p1 by (simp add: ts plain_feed_def [of n])
    from Cons.IH [OF fa this] obtain k where k: "k \<le> length ls" "trest = drop k us" "m = Suc n + k"
      "csv_pull feed d p1 s1 ls = (r, snd (feed_all feed s1 (take k ls)), drop k ls)"
      by blast
    moreover have "snd (feed_all feed s (take (Suc k) (l # ls))) = snd (feed_all feed s1 (take k ls))"
      by (auto simp: f split: prod.splits sum.splits)
    ultimately show ?thesis using p1
      by (intro exI [of _ "Suc k"]) (simp add: f ts)
  qed
qed

end
