(* ===== verification/FileExtraction.thy ===== *)
theory FileExtraction
  imports Profiling
begin

text \<open>
  \<open>fincilia_contracts/extraction.py\<close>, the reading of a whole file: every record with its coordinates. Lines
  are cut at LF, \<open>_LineFeeder\<close> remembers the byte span of each, \<open>csv.reader\<close> pulls as many as a record needs
  and the record gets the span of the lines it consumed. The clock is the argument \<open>late\<close>: whether the time
  is up when \<open>n\<close> rows have been read. The lemmas show that a span is exactly the bytes of its record, that
  spans do not overlap and stay inside the file, and what is cut off at the declared limits.
\<close>

section \<open>Limits\<close>

definition MAX_EXTRACT_ROWS :: int where "MAX_EXTRACT_ROWS = 200000"
definition MAX_EXTRACT_BYTES :: nat where "MAX_EXTRACT_BYTES = 64 * 1024 * 1024"
definition MAX_CELL_LENGTH :: nat where "MAX_CELL_LENGTH = 4096"
definition DEADLINE_EVERY :: nat where "DEADLINE_EVERY = 500"
definition LOCATOR_KIND :: string where "LOCATOR_KIND = ''tabular_delimited''"

text \<open>\<open>tuple(dict.fromkeys(...))\<close>: the codecs without the mark, in the order in which they are tried.\<close>

definition WIRE_ENCODINGS :: "string list" where
  "WIRE_ENCODINGS = rev (remdups (rev (map (\<lambda>n. if n = ''utf-8-sig'' then ''utf-8'' else n) ENCODINGS)))"

section \<open>Rows and results\<close>

record extracted_row =
  record_ordinal :: nat
  byte_start :: nat
  byte_end :: nat
  row_values :: "utext list"

definition row_locator :: "extracted_row \<Rightarrow> string \<Rightarrow> pydict" where
  "row_locator r sha = [(''locator_kind'', PStr LOCATOR_KIND), (''artifact_sha256'', PStr sha),
     (''record_ordinal'', PInt (int (record_ordinal r))), (''byte_start'', PInt (int (byte_start r))),
     (''byte_end'', PInt (int (byte_end r))), (''field_count'', PInt (int (length (row_values r))))]"

definition cell_locator :: "extracted_row \<Rightarrow> string \<Rightarrow> int \<Rightarrow> (exn, pydict) result" where
  "cell_locator r sha field_ordinal =
     (if \<not> (0 \<le> field_ordinal \<and> field_ordinal < int (length (row_values r)))
      then Inl (ExtractionError (''field ordinal '' @ show_int field_ordinal @ '' is outside the ''
             @ show_nat (length (row_values r)) @ '' columns of this record''))
      else Inr (row_locator r sha @ [(''field_ordinal'', PInt field_ordinal)]))"

record extraction =
  ex_encoding :: string
  ex_delimiter :: nat
  ex_header :: "utext list"
  ex_header_row :: int
  ex_first_data_row :: int
  ex_rows :: "extracted_row list"
  ex_truncated :: bool
  ex_reason :: "string option"
  ex_ragged :: nat

definition ex_column_count :: "extraction \<Rightarrow> nat" where
  "ex_column_count e = length (ex_header e)"

definition data_rows :: "extraction \<Rightarrow> int option \<Rightarrow> extracted_row list" where
  "data_rows e first = (let start = (case first of None \<Rightarrow> ex_first_data_row e | Some f \<Rightarrow> f)
     in filter (\<lambda>r. start \<le> int (record_ordinal r)) (ex_rows e))"

definition slice_of :: "bytes \<Rightarrow> extracted_row \<Rightarrow> bytes" where
  "slice_of payload r = take (byte_end r - byte_start r) (drop (byte_start r) payload)"

definition preview_page :: "extraction \<Rightarrow> int \<Rightarrow> int \<Rightarrow> (exn, extracted_row list) result" where
  "preview_page e offset limit =
     (if offset < 0 \<or> limit < 1 then Inl (ExtractionError ''offset must be zero or more and limit at least one'')
      else Inr (take (nat limit) (drop (nat offset) (ex_rows e))))"

section \<open>Lines and spans\<close>

definition lf_lines :: "utext \<Rightarrow> utext list" where
  "lf_lines content =
     (let parts = split_char 10 content in
      map (\<lambda>p. p @ [10]) (butlast parts) @ (if last parts \<noteq> [] then [last parts] else []))"

record line_feeder =
  lf_spans :: "(nat \<times> nat) list"
  consumed :: nat
  total_bytes :: nat

fun line_spans :: "string \<Rightarrow> nat \<Rightarrow> utext list \<Rightarrow> (nat \<times> nat) list \<times> nat" where
  "line_spans wire offset [] = ([], offset)"
| "line_spans wire offset (l # ls) =
     (let size = length (wire_encode wire l); (spans, total) = line_spans wire (offset + size) ls
      in ((offset, offset + size) # spans, total))"

definition new_feeder :: "utext \<Rightarrow> string \<Rightarrow> nat \<Rightarrow> line_feeder" where
  "new_feeder content wire byte_prefix =
     (let (spans, total) = line_spans wire byte_prefix (lf_lines content)
      in \<lparr>lf_spans = spans, consumed = 0, total_bytes = total\<rparr>)"

text \<open>\<open>_LineFeeder.__next__\<close> with lines left, and \<open>span\<close>.\<close>

definition line_feed :: "line_feeder \<Rightarrow> utext \<Rightarrow> (exn, utext) result \<times> line_feeder" where
  "line_feed f l = (Inr l, f\<lparr>consumed := consumed f + 1\<rparr>)"

definition feeder_span :: "line_feeder \<Rightarrow> nat \<Rightarrow> nat \<times> nat" where
  "feeder_span f first_line =
     (if length (lf_spans f) \<le> first_line then (total_bytes f, total_bytes f)
      else let last = max (min (consumed f) (length (lf_spans f)) - 1) first_line
        in (fst (lf_spans f ! first_line), snd (lf_spans f ! last)))"

definition wire_encoding :: "string \<Rightarrow> bytes \<Rightarrow> string \<times> nat" where
  "wire_encoding encoding payload =
     (if encoding = ''utf-8-sig'' then (''utf-8'', if starts_with UTF8_BOM payload then length UTF8_BOM else 0)
      else (encoding, 0))"

section \<open>Records\<close>

text \<open>The checks both readers make on a record.\<close>

definition check_record :: "nat \<Rightarrow> utext list \<Rightarrow> (exn, unit) result" where
  "check_record ordinal vs =
     (if MAX_COLUMNS < length vs
      then Inl (ExtractionError (''record '' @ show_nat ordinal @ '' declares '' @ show_nat (length vs)
             @ '' columns, over the limit of '' @ show_nat MAX_COLUMNS))
      else if list_ex (\<lambda>v. MAX_CELL_LENGTH < length v) vs
      then Inl (ExtractionError (''a cell in record '' @ show_nat ordinal @ '' exceeds ''
             @ show_nat MAX_CELL_LENGTH @ '' characters''))
      else Inr ())"

definition header_of :: "utext list \<Rightarrow> utext list" where
  "header_of vs = map (\<lambda>(i, v). clean_header v (columna i)) (enumerate_from 0 vs)"

record extract_state =
  xs_header :: "utext list"
  xs_rows :: "extracted_row list"
  xs_ragged :: nat
  xs_ordinal :: nat
  xs_emitted :: nat
  xs_reason :: "string option"

definition malformed :: "exn \<Rightarrow> exn" where
  "malformed e = (case e of CsvError m \<Rightarrow> ExtractionError (''malformed delimited file: '' @ m) | _ \<Rightarrow> e)"

text \<open>The body of the loop for one record: its coordinates, and whether to go on.\<close>

definition extract_step :: "int \<Rightarrow> int \<Rightarrow> int \<Rightarrow> (nat \<Rightarrow> bool) \<Rightarrow> nat \<times> nat \<Rightarrow> utext list \<Rightarrow> extract_state
    \<Rightarrow> (exn, extract_state \<times> bool) result" where
  "extract_step header_row first_data_row max_rows late sp vs s =
     (let ordinal = xs_ordinal s + 1 in
      rbind (check_record ordinal vs) (\<lambda>_.
        let s1 = s\<lparr>xs_ordinal := ordinal,
                    xs_header := (if int ordinal = header_row then header_of vs else xs_header s)\<rparr>;
            is_data = (first_data_row \<le> int ordinal) in
        if list_all blank vs then Inr (s1, True)
        else if is_data \<and> max_rows \<le> int (xs_emitted s1) then Inr (s1\<lparr>xs_reason := Some ''row_limit''\<rparr>, False)
        else let s2 = s1\<lparr>
               xs_ragged := xs_ragged s1 + (if xs_header s1 \<noteq> [] \<and> is_data \<and> length vs \<noteq> length (xs_header s1) then 1 else 0),
               xs_rows := xs_rows s1 @ [\<lparr>record_ordinal = ordinal, byte_start = fst sp, byte_end = snd sp, row_values = vs\<rparr>],
               xs_emitted := xs_emitted s1 + (if is_data then 1 else 0)\<rparr> in
          if length (xs_rows s2) mod DEADLINE_EVERY = 0 \<and> late (length (xs_rows s2))
          then Inr (s2\<lparr>xs_reason := Some ''time_limit''\<rparr>, False)
          else Inr (s2, True)))"

function extract_loop :: "nat \<Rightarrow> (nat \<times> nat \<Rightarrow> utext list \<Rightarrow> extract_state \<Rightarrow> (exn, extract_state \<times> bool) result)
    \<Rightarrow> line_feeder \<Rightarrow> utext list \<Rightarrow> extract_state \<Rightarrow> (exn, extract_state) result" where
  "extract_loop d step f ls s =
     (let first_line = consumed f in
      case csv_next line_feed d f ls of
        (Inl e, f', rest) \<Rightarrow> Inl (malformed e)
      | (Inr None, f', rest) \<Rightarrow> Inr s
      | (Inr (Some vs), f', rest) \<Rightarrow> (case step (feeder_span f' first_line) vs s of
            Inl e \<Rightarrow> Inl e
          | Inr (s', go_on) \<Rightarrow> if go_on then extract_loop d step f' rest s' else Inr s'))"
  by pat_completeness auto
termination
  by (relation "measure (\<lambda>(d, step, f, ls, s). length ls)") (auto dest!: csv_next_progress [OF sym])

declare extract_loop.simps [simp del]

section \<open>The whole file\<close>

text \<open>Where the line of the declared header starts, or the start of the text when there are fewer lines.\<close>

definition find_newline :: "utext \<Rightarrow> nat \<Rightarrow> nat option" where
  "find_newline content pos =
     (let tail = drop pos content; pre = takeWhile (\<lambda>c. c \<noteq> 10) tail
      in if length pre < length tail then Some (pos + length pre) else None)"

fun sample_from :: "utext \<Rightarrow> nat \<Rightarrow> nat \<Rightarrow> nat" where
  "sample_from content 0 pos = pos"
| "sample_from content (Suc n) pos = (case find_newline content pos of
     None \<Rightarrow> 0 | Some newline \<Rightarrow> sample_from content n (newline + 1))"

definition extraction_error_of :: "exn \<Rightarrow> exn" where
  "extraction_error_of e = (case e of UnprofilableFile m \<Rightarrow> ExtractionError m | _ \<Rightarrow> e)"

definition decode_content :: "bytes \<Rightarrow> (exn, utext \<times> string) result" where
  "decode_content payload = (case decode payload of
     Inl e \<Rightarrow> Inl (extraction_error_of e)
   | Inr (content, encoding) \<Rightarrow>
       if blank content then Inl (ExtractionError ''the artifact has no readable content'') else Inr (content, encoding))"

definition choose_delimiter :: "utext \<Rightarrow> int \<Rightarrow> utext option \<Rightarrow> (exn, nat) result" where
  "choose_delimiter content header_row delimiter =
     (let pos = sample_from content (nat (header_row - 1)) 0 in
      rbind (case delimiter of
          Some (c # cs) \<Rightarrow> Inr (c # cs)
        | _ \<Rightarrow> (case sniff_delimiter (take SNIFF_BYTES (drop pos content)) of
              Inl e \<Rightarrow> Inl (extraction_error_of e) | Inr d \<Rightarrow> Inr [d]))
        (\<lambda>chosen. if chosen \<notin> set (map (\<lambda>c. [c]) CANDIDATE_DELIMITERS)
           then Inl (ExtractionError (''no delimiter found from the declared header row onward; a single-column ''
                  @ ''file is not a statement (got '' @ repr_str (narrow chosen) @ '')''))
           else Inr (hd chosen)))"

definition start_state :: extract_state where
  "start_state = \<lparr>xs_header = [], xs_rows = [], xs_ragged = 0, xs_ordinal = 0, xs_emitted = 0, xs_reason = None\<rparr>"

definition extraction_of :: "string \<Rightarrow> nat \<Rightarrow> int \<Rightarrow> int \<Rightarrow> extract_state \<Rightarrow> extraction" where
  "extraction_of encoding d header_row first_data_row s =
     \<lparr>ex_encoding = encoding, ex_delimiter = d, ex_header = xs_header s, ex_header_row = header_row,
      ex_first_data_row = first_data_row, ex_rows = xs_rows s, ex_truncated = (xs_reason s \<noteq> None),
      ex_reason = xs_reason s, ex_ragged = xs_ragged s\<rparr>"

definition check_extraction :: "extraction \<Rightarrow> (exn, unit) result" where
  "check_extraction e =
     (if ex_header e = []
      then Inl (ExtractionError (''record '' @ show_int (ex_header_row e) @ '' declared as header does not exist''))
      else if data_rows e None = [] \<and> \<not> ex_truncated e
      then Inl (ExtractionError ''the artifact has a header but no data rows'')
      else Inr ())"

definition check_arguments :: "bytes \<Rightarrow> int \<Rightarrow> int \<Rightarrow> (exn, unit) result" where
  "check_arguments payload header_row first_data_row =
     (if MAX_EXTRACT_BYTES < length payload
      then Inl (ExtractionError (''artifact exceeds the declared extraction limit of '' @ show_nat MAX_EXTRACT_BYTES @ '' bytes''))
      else if header_row < 1 then Inl (ExtractionError ''header_row is 1-based'')
      else if first_data_row \<le> header_row then Inl (ExtractionError ''first_data_row must come after header_row'')
      else Inr ())"

definition first_data_of :: "int \<Rightarrow> int option \<Rightarrow> int" where
  "first_data_of header_row first_data = (case first_data of None \<Rightarrow> header_row + 1 | Some f \<Rightarrow> f)"

definition extract_file :: "bytes \<Rightarrow> int \<Rightarrow> int option \<Rightarrow> int \<Rightarrow> (nat \<Rightarrow> bool) \<Rightarrow> utext option \<Rightarrow> (exn, extraction) result" where
  "extract_file payload header_row first_data max_rows late delimiter =
     rbind (check_arguments payload header_row (first_data_of header_row first_data)) (\<lambda>_.
     rbind (decode_content payload) (\<lambda>(content, encoding).
     rbind (choose_delimiter content header_row delimiter) (\<lambda>d.
     let w = wire_encoding encoding payload in
     rbind (extract_loop d (extract_step header_row (first_data_of header_row first_data) max_rows late)
              (new_feeder content (fst w) (snd w)) (lf_lines content) start_state) (\<lambda>s.
     let e = extraction_of encoding d header_row (first_data_of header_row first_data) s in
     rbind (check_extraction e) (\<lambda>_. Inr e)))))"

section \<open>Spans are the bytes of the lines\<close>

lemma lf_lines_eq: "lf_lines content = lines_at 10 content"
  unfolding lf_lines_def Let_def lines_at_split_char ..

abbreviation (input) decodes_to :: "string \<Rightarrow> bytes list \<Rightarrow> utext list \<Rightarrow> bool" where
  "decodes_to wire bs ts \<equiv> list_all2 (\<lambda>b t. wire_decode wire (byte_values b) = Some t) bs ts"

definition bytes_before :: "nat \<Rightarrow> bytes list \<Rightarrow> nat \<Rightarrow> nat" where
  "bytes_before offset bs i = offset + length (concat (take i bs))"

lemma bytes_before_0 [simp]: "bytes_before offset bs 0 = offset"
  by (simp add: bytes_before_def)

lemma bytes_before_Suc: "bytes_before offset (b # bs) (Suc i) = bytes_before (offset + length b) bs i"
  by (simp add: bytes_before_def)

lemma bytes_before_mono: "i \<le> k \<Longrightarrow> bytes_before offset bs i \<le> bytes_before offset bs k"
  by (auto simp: bytes_before_def le_iff_add take_add)

lemma bytes_before_less:
  "i < k \<Longrightarrow> k \<le> length bs \<Longrightarrow> [] \<notin> set bs \<Longrightarrow> bytes_before offset bs i < bytes_before offset bs k"
proof -
  assume a: "i < k" "k \<le> length bs" "[] \<notin> set bs"
  then have "bs ! i \<noteq> []" by (metis nth_mem order.strict_trans2)
  then have "bytes_before offset bs i < bytes_before offset bs (Suc i)"
    using a by (simp add: bytes_before_def take_Suc_conv_app_nth)
  also have "\<dots> \<le> bytes_before offset bs k" using a(1) by (simp add: bytes_before_mono)
  finally show ?thesis .
qed

lemma line_spans_eq:
  "decodes_to wire bs ts \<Longrightarrow> line_spans wire offset ts =
    (map (\<lambda>i. (bytes_before offset bs i, bytes_before offset bs (Suc i))) [0..<length bs], bytes_before offset bs (length bs))"
proof (induction arbitrary: offset rule: list_all2_induct)
  case (Cons b bs t ts)
  have "length (wire_encode wire t) = length b" using Cons.hyps(1) by (rule length_wire_encode)
  then show ?case
    by (simp add: Cons.IH Let_def upt_conv_Cons bytes_before_Suc map_Suc_upt [symmetric] o_def del: upt_Suc)
qed simp

lemma feeder_span_eq:
  assumes "decodes_to wire bs ts" "lf_spans f = fst (line_spans wire offset ts)"
    and "i < consumed f" "consumed f \<le> length bs"
  shows "feeder_span f i = (bytes_before offset bs i, bytes_before offset bs (consumed f))"
proof -
  obtain k where k: "consumed f = Suc k" using assms(3) by (cases "consumed f") simp_all
  show ?thesis using assms(3,4)
    by (simp add: feeder_span_def assms(2) line_spans_eq [OF assms(1)] Let_def k max_def min_def del: upt_Suc)
      (use le_antisym in fastforce)
qed

text \<open>Where a row of a decoded file comes from: the lines \<open>i\<close> up to \<open>k\<close>.\<close>

definition row_from :: "nat \<Rightarrow> nat \<Rightarrow> bytes list \<Rightarrow> utext list \<Rightarrow> extracted_row \<Rightarrow> bool" where
  "row_from d offset bs ts r = (\<exists>i k. i < k \<and> k \<le> length ts \<and> byte_start r = bytes_before offset bs i
     \<and> byte_end r = bytes_before offset bs k \<and> csv_record d (take (k - i) (drop i ts)) = (Inr (Some (row_values r)), []))"

definition before :: "extracted_row \<Rightarrow> extracted_row \<Rightarrow> bool" where
  "before a b = (record_ordinal a < record_ordinal b \<and> byte_end a \<le> byte_start b)"

definition rows_inv :: "nat \<Rightarrow> nat \<Rightarrow> bytes list \<Rightarrow> utext list \<Rightarrow> nat \<Rightarrow> nat \<Rightarrow> extracted_row list \<Rightarrow> bool" where
  "rows_inv d offset bs ts i n rs = (list_all (row_from d offset bs ts) rs \<and> sorted_wrt before rs
     \<and> list_all (\<lambda>r. byte_end r \<le> bytes_before offset bs i \<and> record_ordinal r \<le> n) rs)"

lemma rows_inv_mono: "rows_inv d offset bs ts i n rs \<Longrightarrow> i \<le> j \<Longrightarrow> n \<le> m \<Longrightarrow> rows_inv d offset bs ts j m rs"
  using bytes_before_mono [of i j offset bs] by (auto simp: rows_inv_def list_all_iff dest: le_trans)

lemma rows_inv_snoc:
  assumes "rows_inv d offset bs ts i n rs" and "row_from d offset bs ts r"
    and "byte_start r = bytes_before offset bs i" "byte_end r = bytes_before offset bs j" "i \<le> j"
    and "record_ordinal r = Suc n"
  shows "rows_inv d offset bs ts j (Suc n) (rs @ [r])"
  using assms rows_inv_mono [of d offset bs ts i n rs j "Suc n"]
  by (fastforce simp: rows_inv_def sorted_wrt_append before_def list_all_iff)

text \<open>One call of \<open>next(reader)\<close>: the lines it takes and the record they make on their own.\<close>

lemma feed_all_line_feed: "feed_all line_feed f ls = (Inr ls, f\<lparr>consumed := consumed f + length ls\<rparr>)"
  by (induction ls arbitrary: f) (simp_all add: line_feed_def)

lemma csv_next_lines:
  assumes "csv_next line_feed d f ls = (Inr (Some vs), f', rest)"
  shows "\<exists>used. ls = used @ rest \<and> used \<noteq> [] \<and> f' = f\<lparr>consumed := consumed f + length used\<rparr>
    \<and> csv_record d used = (Inr (Some vs), [])"
proof -
  obtain used ts where u: "ls = used @ rest" "feed_all line_feed f used = (Inr ts, f')"
    "csv_pull plain_feed d csv_reset 0 ts = (Inr (Some vs), 0 + length ts, [])"
    using csv_pull_used [OF assms [unfolded csv_next_def], of 0] by blast
  have "length rest < length ls" using csv_next_progress [OF assms] by simp
  then have "used \<noteq> []" using u(1) by auto
  moreover have "ts = used" "f' = f\<lparr>consumed := consumed f + length used\<rparr>"
    using u(2) unfolding feed_all_line_feed by auto
  ultimately show ?thesis using u by (auto simp: csv_record_def csv_next_def)
qed

lemma extract_step_rows:
  "extract_step h fdr m late sp vs s = Inr (s', go_on) \<Longrightarrow> xs_ordinal s' = Suc (xs_ordinal s) \<and>
    (xs_rows s' = xs_rows s \<or> xs_rows s' = xs_rows s
      @ [\<lparr>record_ordinal = Suc (xs_ordinal s), byte_start = fst sp, byte_end = snd sp, row_values = vs\<rparr>])"
  unfolding extract_step_def Let_def by (auto simp: rbind_Inr_iff split: if_splits)

lemma extract_loop_rows:
  assumes "decodes_to wire bs ts" "lf_spans f = fst (line_spans wire offset ts)"
    and "extract_loop d (extract_step h fdr m late) f ls s = Inr s'"
    and "consumed f \<le> length ts" "ls = drop (consumed f) ts"
    and "rows_inv d offset bs ts (consumed f) (xs_ordinal s) (xs_rows s)"
  shows "\<exists>i \<le> length ts. rows_inv d offset bs ts i (xs_ordinal s') (xs_rows s')"
  using assms
proof (induction "length ls" arbitrary: f ls s rule: less_induct)
  case less
  obtain r f' rest where n: "csv_next line_feed d f ls = (r, f', rest)" using prod_cases3 by blast
  show ?case
  proof (cases "\<exists>vs. r = Inr (Some vs)")
    case False
    then have "s' = s"
      using less.prems(3) n by (auto simp: extract_loop.simps [of _ _ _ ls] split: sum.splits option.splits)
    then show ?thesis using less.prems(4,6) by blast
  next
    case True
    then obtain vs where r: "r = Inr (Some vs)" by blast
    obtain used where u: "ls = used @ rest" "used \<noteq> []" "f' = f\<lparr>consumed := consumed f + length used\<rparr>"
      "csv_record d used = (Inr (Some vs), [])"
      using csv_next_lines [OF n [unfolded r]] by blast
    let ?i = "consumed f" and ?k = "consumed f'"
    have k: "?k = ?i + length used" "lf_spans f' = lf_spans f" by (simp_all add: u(3))
    have len: "length bs = length ts" using less.prems(1) by (rule list_all2_lengthD)
    have "length ls = length ts - ?i" by (simp add: less.prems(5))
    then have le: "?k \<le> length ts" using u(1) less.prems(4) k by simp
    have used: "used = take (?k - ?i) (drop ?i ts)" using u(1) less.prems(5) k by (metis append_eq_conv_conj add_diff_cancel_left')
    have rest: "rest = drop ?k ts" using u(1) less.prems(5) k by (metis append_eq_conv_conj drop_drop add.commute)
    have less: "?i < ?k" using u(2) k by simp
    have sp: "feeder_span f' ?i = (bytes_before offset bs ?i, bytes_before offset bs ?k)"
      using feeder_span_eq [OF less.prems(1), of f' offset] less.prems(2) less le len k by simp
    obtain s1 go_on where step: "extract_step h fdr m late (feeder_span f' ?i) vs s = Inr (s1, go_on)"
      using less.prems(3) n r by (auto simp: extract_loop.simps [of _ _ _ ls] split: sum.splits)
    note row = extract_step_rows [OF step]
    let ?r = "\<lparr>record_ordinal = Suc (xs_ordinal s), byte_start = bytes_before offset bs ?i, byte_end = bytes_before offset bs ?k, row_values = vs\<rparr>"
    have "row_from d offset bs ts ?r"
      unfolding row_from_def using less le u(4) used by (intro exI [of _ ?i] exI [of _ ?k]) simp
    then have "rows_inv d offset bs ts ?k (Suc (xs_ordinal s)) (xs_rows s @ [?r])"
      using rows_inv_snoc less.prems(6) less by simp
    moreover have "rows_inv d offset bs ts ?k (Suc (xs_ordinal s)) (xs_rows s)"
      using rows_inv_mono less.prems(6) less by simp
    ultimately have inv: "rows_inv d offset bs ts ?k (xs_ordinal s1) (xs_rows s1)"
      using row sp by auto
    show ?thesis
    proof (cases go_on)
      case True
      have "extract_loop d (extract_step h fdr m late) f' rest s1 = Inr s'"
        using less.prems(3) n r step True by (simp add: extract_loop.simps [of _ _ _ ls])
      then show ?thesis
        using less.hyps [of rest f' s1] less.prems(1,2) k le rest inv u(1,2)
        by (metis length_append length_greater_0_conv less_add_same_cancel2)
    next
      case False
      then have "s' = s1" using less.prems(3) n r step by (simp add: extract_loop.simps [of _ _ _ ls])
      then show ?thesis using inv le by blast
    qed
  qed
qed

section \<open>Rows read back from their bytes\<close>

lemma byte_values_concat: "byte_values (concat bs) = concat (map byte_values bs)"
  by (induction bs) (simp_all add: byte_values_def)

lemma first_codec_Some: "first_codec es payload = Some (content, e) \<Longrightarrow> e \<in> set es \<and> codec_decode e payload = Some content"
  by (induction es) (auto split: option.splits)

lemma decode_wire:
  assumes "decode payload = Inr (content, encoding)" and "wire_encoding encoding payload = (wire, prefix)"
  shows "wire_decode wire (byte_values (drop prefix payload)) = Some content" and "prefix \<le> length payload"
proof -
  have c: "codec_decode encoding payload = Some content"
    using assms(1) by (auto simp: decode_def dest!: first_codec_Some split: if_splits)
  show "wire_decode wire (byte_values (drop prefix payload)) = Some content"
    using c assms(2) by (auto simp: codec_decode_def wire_encoding_def UTF8_BOM_def eval_nat_numeral split: if_splits)
  show "prefix \<le> length payload"
    using assms(2) by (auto simp: wire_encoding_def starts_with_def UTF8_BOM_def dest: arg_cong [of _ _ length] split: if_splits)
qed

lemma decodes_lines:
  "wire_decode wire (byte_values body) = Some content \<Longrightarrow> decodes_to wire (lines_at chr_nl body) (lf_lines content)"
  using wire.dec_lines [of wire "byte_values body" content]
  by (simp add: lines_at_byte_values lf_lines_eq list_all2_map1)

lemma decode_part:
  assumes "decodes_to wire bs ts" and "bs = lines_at chr_nl body" and "ts = lf_lines content"
  shows "wire_decode wire (byte_values (concat (take n (drop i bs)))) = Some (concat (take n (drop i ts)))"
    and "lf_lines (concat (take n (drop i ts))) = take n (drop i ts)"
proof -
  have wf: "wf_lines 10 (map byte_values bs)" "wf_lines 10 ts"
    using wf_lines_lines_at [of 10 "byte_values body"] wf_lines_lines_at [of 10 content]
    by (simp_all add: lines_at_byte_values assms(2,3) lf_lines_eq)
  have "list_all2 (\<lambda>b t. wire_decode wire b = Some t) (map byte_values (take n (drop i bs))) (take n (drop i ts))"
    using assms(1) by (simp add: list_all2_map1 list_all2_takeI list_all2_dropI)
  moreover have "wf_lines 10 (map byte_values (take n (drop i bs)))"
    using wf_lines_part [OF wf(1), of n i] by (simp add: take_map drop_map)
  ultimately show "wire_decode wire (byte_values (concat (take n (drop i bs)))) = Some (concat (take n (drop i ts)))"
    by (simp add: byte_values_concat wire.dec_concat)
  show "lf_lines (concat (take n (drop i ts))) = take n (drop i ts)"
    using lines_at_concat [OF wf_lines_part [OF wf(2)]] by (simp add: lf_lines_eq)
qed

lemma slice_lines:
  assumes "i \<le> k" "byte_start r = bytes_before prefix bs i" "byte_end r = bytes_before prefix bs k"
    and "concat bs = drop prefix payload" "prefix \<le> length payload"
  shows "slice_of payload r = concat (take (k - i) (drop i bs))"
proof -
  obtain n where n: "k = i + n" using assms(1) le_Suc_ex by blast
  let ?a = "length (concat (take i bs))"
  have "bs = take i bs @ take n (drop i bs) @ drop (i + n) bs"
    by (metis append_take_drop_id drop_drop add.commute)
  then have c: "drop prefix payload = concat (take i bs) @ concat (take n (drop i bs)) @ concat (drop (i + n) bs)"
    using assms(4) by (metis concat_append)
  have "byte_end r - byte_start r = length (concat (take n (drop i bs)))"
    by (simp add: assms(2,3) bytes_before_def n take_add)
  moreover have "drop (byte_start r) payload = concat (take n (drop i bs)) @ concat (drop (i + n) bs)"
    unfolding assms(2) bytes_before_def using c by (metis add.commute append_eq_conv_conj drop_drop)
  ultimately show ?thesis by (simp add: slice_of_def n)
qed

text \<open>What a successful extraction went through.\<close>

lemma extract_file_parts:
  assumes "extract_file payload header_row first_data max_rows late delimiter = Inr e"
  obtains content wire prefix s where
    "decode payload = Inr (content, ex_encoding e)" "wire_encoding (ex_encoding e) payload = (wire, prefix)"
    "extract_loop (ex_delimiter e) (extract_step header_row (ex_first_data_row e) max_rows late)
       (new_feeder content wire prefix) (lf_lines content) start_state = Inr s"
    "ex_rows e = xs_rows s" "ex_reason e = xs_reason s" "ex_truncated e = (xs_reason s \<noteq> None)"
    "ex_header e = xs_header s" "ex_ragged e = xs_ragged s" "check_extraction e = Inr ()"
proof -
  have d: "decode_content payload = Inr (content, encoding) \<Longrightarrow> decode payload = Inr (content, encoding)" for content encoding
    by (auto simp: decode_content_def split: sum.splits if_splits)
  from assms obtain content encoding d s where p: "decode_content payload = Inr (content, encoding)"
    "extract_loop d (extract_step header_row (first_data_of header_row first_data) max_rows late)
       (new_feeder content (fst (wire_encoding encoding payload)) (snd (wire_encoding encoding payload)))
       (lf_lines content) start_state = Inr s"
    "e = extraction_of encoding d header_row (first_data_of header_row first_data) s"
    "check_extraction e = Inr ()"
    unfolding extract_file_def Let_def by (auto simp: rbind_Inr_iff)
  have e: "ex_encoding e = encoding" "ex_delimiter e = d" "ex_first_data_row e = first_data_of header_row first_data"
    "ex_rows e = xs_rows s" "ex_reason e = xs_reason s" "ex_truncated e = (xs_reason s \<noteq> None)"
    "ex_header e = xs_header s" "ex_ragged e = xs_ragged s"
    by (simp_all add: p(3) extraction_of_def)
  show ?thesis
    by (rule that [OF _ surjective_pairing]) (use p d e in simp_all)
qed

lemma new_feeder_simps [simp]: "consumed (new_feeder content wire prefix) = 0"
  "lf_spans (new_feeder content wire prefix) = fst (line_spans wire prefix (lf_lines content))"
  by (simp_all add: new_feeder_def split: prod.splits)

text \<open>Every row of an extraction comes from lines of the file, in order.\<close>

lemma extract_file_rows:
  assumes "extract_file payload header_row first_data max_rows late delimiter = Inr e"
  obtains content wire prefix bs i n where
    "decode payload = Inr (content, ex_encoding e)" "wire_encoding (ex_encoding e) payload = (wire, prefix)"
    "bs = lines_at chr_nl (drop prefix payload)" "prefix \<le> length payload" "decodes_to wire bs (lf_lines content)"
    "i \<le> length bs" "rows_inv (ex_delimiter e) prefix bs (lf_lines content) i n (ex_rows e)"
proof -
  obtain content wire prefix s where p: "decode payload = Inr (content, ex_encoding e)"
    "wire_encoding (ex_encoding e) payload = (wire, prefix)"
    "extract_loop (ex_delimiter e) (extract_step header_row (ex_first_data_row e) max_rows late)
       (new_feeder content wire prefix) (lf_lines content) start_state = Inr s"
    and rows: "ex_rows e = xs_rows s"
    by (rule extract_file_parts [OF assms])
  note w = decode_wire [OF p(1,2)]
  let ?bs = "lines_at chr_nl (drop prefix payload)"
  have dt: "decodes_to wire ?bs (lf_lines content)" using w(1) by (rule decodes_lines)
  have "rows_inv (ex_delimiter e) prefix ?bs (lf_lines content) 0 0 []" by (simp add: rows_inv_def)
  then obtain i where "i \<le> length (lf_lines content)"
    "rows_inv (ex_delimiter e) prefix ?bs (lf_lines content) i (xs_ordinal s) (xs_rows s)"
    using extract_loop_rows [OF dt _ p(3), of prefix] by (auto simp: start_state_def)
  then show ?thesis using that [OF p(1,2) refl w(2) dt, of i "xs_ordinal s"] list_all2_lengthD [OF dt] rows by simp
qed

text \<open>C22. The coordinates of an extracted row prove it: the bytes between its start and its end decode with the
  codec of the file, and read as delimited text on their own they are one record with exactly the values of
  the row.\<close>

theorem extracted_rows_read_back:
  assumes "extract_file payload header_row first_data max_rows late delimiter = Inr e" and "r \<in> set (ex_rows e)"
  shows "\<exists>t. wire_decode (fst (wire_encoding (ex_encoding e) payload)) (byte_values (slice_of payload r)) = Some t
    \<and> csv_record (ex_delimiter e) (lf_lines t) = (Inr (Some (row_values r)), [])"
proof -
  obtain content wire prefix bs j n where p: "wire_encoding (ex_encoding e) payload = (wire, prefix)"
    "bs = lines_at chr_nl (drop prefix payload)" "prefix \<le> length payload" "decodes_to wire bs (lf_lines content)"
    "rows_inv (ex_delimiter e) prefix bs (lf_lines content) j n (ex_rows e)"
    by (rule extract_file_rows [OF assms(1)])
  have "row_from (ex_delimiter e) prefix bs (lf_lines content) r"
    using p(5) assms(2) by (simp add: rows_inv_def list_all_iff)
  then obtain i k where ik: "i < k" "byte_start r = bytes_before prefix bs i" "byte_end r = bytes_before prefix bs k"
    "csv_record (ex_delimiter e) (take (k - i) (drop i (lf_lines content))) = (Inr (Some (row_values r)), [])"
    unfolding row_from_def by blast
  have "concat bs = drop prefix payload" by (simp add: p(2))
  then have "slice_of payload r = concat (take (k - i) (drop i bs))"
    using slice_lines [of i k r prefix bs payload] ik p(3) by simp
  then show ?thesis using decode_part [OF p(4) p(2) refl, of "k - i" i] ik(4) p(1) by simp
qed

text \<open>C24. The rows of an extraction come in the order of the file: each has a non-empty span inside the file, a
  span that starts no earlier than the one before it ends, and a larger ordinal.\<close>

theorem extracted_spans_are_disjoint:
  assumes "extract_file payload header_row first_data max_rows late delimiter = Inr e"
  shows "sorted_wrt (\<lambda>a b. record_ordinal a < record_ordinal b \<and> byte_end a \<le> byte_start b) (ex_rows e)
    \<and> list_all (\<lambda>r. byte_start r < byte_end r \<and> byte_end r \<le> length payload) (ex_rows e)"
proof -
  obtain content wire prefix bs j n where p: "bs = lines_at chr_nl (drop prefix payload)" "prefix \<le> length payload"
    "decodes_to wire bs (lf_lines content)" "j \<le> length bs"
    "rows_inv (ex_delimiter e) prefix bs (lf_lines content) j n (ex_rows e)"
    by (rule extract_file_rows [OF assms])
  have "[] \<notin> set bs" using lines_at_nonempty [of "[]" chr_nl] p(1) by auto
  have "byte_start r < byte_end r" if r: "r \<in> set (ex_rows e)" for r
  proof -
    have "row_from (ex_delimiter e) prefix bs (lf_lines content) r"
      using r p(5) by (simp add: rows_inv_def list_all_iff)
    then obtain i k where "i < k" "k \<le> length bs" "byte_start r = bytes_before prefix bs i" "byte_end r = bytes_before prefix bs k"
      using list_all2_lengthD [OF p(3)] unfolding row_from_def by auto
    then show ?thesis using bytes_before_less [of i k bs prefix] \<open>[] \<notin> set bs\<close> by simp
  qed
  moreover have "bytes_before prefix bs (length bs) = length payload" using p(1,2) by (simp add: bytes_before_def)
  then have "bytes_before prefix bs j \<le> length payload" using bytes_before_mono [OF p(4), of prefix bs] by simp
  ultimately show ?thesis
    using p(5) by (auto simp: rows_inv_def before_def [abs_def] list_all_iff intro: le_trans)
qed

section \<open>Nothing is lost\<close>

text \<open>
  The specification: all records of a file, each with the number of lines it takes, and the rows they
  make when they are numbered and placed one after the other.
\<close>

function all_records :: "nat \<Rightarrow> utext list \<Rightarrow> (utext list \<times> nat) list \<times> exn option" where
  "all_records d ls = (case csv_record d ls of
     (Inl e, rest) \<Rightarrow> ([], Some e)
   | (Inr None, rest) \<Rightarrow> ([], None)
   | (Inr (Some vs), rest) \<Rightarrow> (case all_records d rest of (rs, e) \<Rightarrow> ((vs, length ls - length rest) # rs, e)))"
  by pat_completeness auto
termination
  by (relation "measure (\<lambda>(d, ls). length ls)") (auto dest!: csv_record_progress [OF sym])

declare all_records.simps [simp del]

fun place_records :: "nat \<Rightarrow> bytes list \<Rightarrow> nat \<Rightarrow> nat \<Rightarrow> (utext list \<times> nat) list \<Rightarrow> extracted_row list" where
  "place_records offset bs i n [] = []"
| "place_records offset bs i n ((vs, k) # rs) =
     \<lparr>record_ordinal = Suc n, byte_start = bytes_before offset bs i, byte_end = bytes_before offset bs (i + k), row_values = vs\<rparr>
     # place_records offset bs (i + k) (Suc n) rs"

definition no_blanks :: "extracted_row list \<Rightarrow> extracted_row list" where
  "no_blanks rs = filter (\<lambda>r. \<not> list_all blank (row_values r)) rs"

lemma no_blanks_simps [simp]: "no_blanks [] = []"
  "no_blanks (r # rs) = (if list_all blank (row_values r) then no_blanks rs else r # no_blanks rs)"
  by (simp_all add: no_blanks_def)

text \<open>The reader behind the feeder and the plain reader see the same records.\<close>

lemma csv_next_record:
  "\<exists>k \<le> length ls. \<exists>r. csv_record d ls = (r, drop k ls) \<and> csv_next line_feed d f ls = (r, f\<lparr>consumed := consumed f + k\<rparr>, drop k ls)"
proof -
  obtain r m rest where c: "csv_pull plain_feed d csv_reset 0 ls = (r, m, rest)" using prod_cases3 by blast
  from csv_pull_feed [OF feed_all_line_feed c] obtain k where k: "k \<le> length ls" "rest = drop k ls"
    "csv_pull line_feed d csv_reset f ls = (r, snd (feed_all line_feed f (take k ls)), drop k ls)"
    by blast
  then show ?thesis using c
    by (intro exI [of _ k] conjI exI [of _ r]) (simp_all add: csv_record_def csv_next_def feed_all_line_feed min_def)
qed

lemma extract_step_cases:
  assumes "extract_step h fdr m late sp vs s = Inr (s', go_on)" and "xs_reason s = None"
  defines "r \<equiv> \<lparr>record_ordinal = Suc (xs_ordinal s), byte_start = fst sp, byte_end = snd sp, row_values = vs\<rparr>"
  shows "xs_rows s' = xs_rows s @ no_blanks [r] \<and> (go_on \<longleftrightarrow> xs_reason s' = None) \<and> xs_reason s' \<noteq> Some ''row_limit''
    \<or> \<not> list_all blank vs \<and> xs_rows s' = xs_rows s \<and> \<not> go_on \<and> xs_reason s' = Some ''row_limit''"
  using assms unfolding extract_step_def Let_def by (auto simp: rbind_Inr_iff split: if_splits)

lemma extract_loop_reads:
  assumes "decodes_to wire bs ts" "lf_spans f = fst (line_spans wire offset ts)"
    and "extract_loop d (extract_step h fdr m late) f ls s = Inr s'"
    and "consumed f \<le> length ts" "ls = drop (consumed f) ts" "xs_reason s = None"
  shows "\<exists>added more. no_blanks (place_records offset bs (consumed f) (xs_ordinal s) (fst (all_records d ls))) = added @ more
    \<and> xs_rows s' = xs_rows s @ added \<and> (xs_reason s' = None \<longrightarrow> more = [] \<and> snd (all_records d ls) = None)
    \<and> (xs_reason s' = Some ''row_limit'' \<longrightarrow> more \<noteq> [])"
  using assms
proof (induction "length ls" arbitrary: f ls s rule: less_induct)
  case less
  obtain k r where k: "k \<le> length ls" and c: "csv_record d ls = (r, drop k ls)"
    and n: "csv_next line_feed d f ls = (r, f\<lparr>consumed := consumed f + k\<rparr>, drop k ls)"
    using csv_next_record [of ls d f] by blast
  let ?f = "f\<lparr>consumed := consumed f + k\<rparr>"
  show ?case
  proof (cases "\<exists>vs. r = Inr (Some vs)")
    case False
    then have "s' = s" "all_records d ls = ([], None)"
      using less.prems(3) n c
      by (auto simp: extract_loop.simps [of _ _ _ ls] all_records.simps [of d ls] split: sum.splits option.splits)
    then show ?thesis using less.prems(6) by (intro exI [of _ "[]"]) simp
  next
    case True
    then obtain vs where r: "r = Inr (Some vs)" by blast
    have "length (drop k ls) < length ls" using csv_record_progress [OF c] r by simp
    then have k0: "0 < k" and lenk: "length ls - length (drop k ls) = k" using k by auto
    have len: "length bs = length ts" using less.prems(1) by (rule list_all2_lengthD)
    have le: "consumed f + k \<le> length ts" using k less.prems(4,5) by simp
    have sp: "feeder_span ?f (consumed f) = (bytes_before offset bs (consumed f), bytes_before offset bs (consumed f + k))"
      using feeder_span_eq [OF less.prems(1), of ?f offset "consumed f"] less.prems(2) k0 le len by simp
    obtain s1 go_on where step: "extract_step h fdr m late (feeder_span ?f (consumed f)) vs s = Inr (s1, go_on)"
      using less.prems(3) n r by (auto simp: extract_loop.simps [of _ _ _ ls] split: sum.splits)
    let ?r = "\<lparr>record_ordinal = Suc (xs_ordinal s), byte_start = bytes_before offset bs (consumed f),
      byte_end = bytes_before offset bs (consumed f + k), row_values = vs\<rparr>"
    let ?tail = "place_records offset bs (consumed f + k) (Suc (xs_ordinal s)) (fst (all_records d (drop k ls)))"
    have all: "place_records offset bs (consumed f) (xs_ordinal s) (fst (all_records d ls)) = ?r # ?tail"
      "snd (all_records d ls) = snd (all_records d (drop k ls))"
      using c r lenk by (simp_all add: all_records.simps [of d ls] split: prod.splits)
    have split: "no_blanks (?r # ?tail) = no_blanks [?r] @ no_blanks ?tail" by simp
    note cs = extract_step_cases [OF step less.prems(6), unfolded sp fst_conv snd_conv]
    show ?thesis
    proof (cases go_on)
      case True
      have rows: "xs_rows s1 = xs_rows s @ no_blanks [?r]" "xs_reason s1 = None" using cs True by blast+
      have ord: "xs_ordinal s1 = Suc (xs_ordinal s)" using extract_step_rows [OF step] by simp
      have "extract_loop d (extract_step h fdr m late) ?f (drop k ls) s1 = Inr s'"
        using less.prems(3) n r step True by (simp add: extract_loop.simps [of _ _ _ ls])
      then obtain added more where am: "no_blanks ?tail = added @ more" "xs_rows s' = xs_rows s1 @ added"
        "xs_reason s' = None \<longrightarrow> more = [] \<and> snd (all_records d (drop k ls)) = None"
        "xs_reason s' = Some ''row_limit'' \<longrightarrow> more \<noteq> []"
        using less.hyps [of "drop k ls" ?f s1] less.prems(1,2,5) rows(2) ord le \<open>length (drop k ls) < length ls\<close>
        by (auto simp: add.commute)
      then show ?thesis unfolding all split using rows
        by (intro exI [of _ "no_blanks [?r] @ added"] exI [of _ more]) simp
    next
      case False
      then have s1: "s' = s1" using less.prems(3) n r step by (simp add: extract_loop.simps [of _ _ _ ls])
      show ?thesis
      proof (cases "xs_reason s1 = Some ''row_limit''")
        case True
        then have "xs_rows s1 = xs_rows s" "\<not> list_all blank vs" using cs False by auto
        then show ?thesis unfolding all s1 using True by (intro exI [of _ "[]"] exI [of _ "no_blanks (?r # ?tail)"]) simp
      next
        case notlimit: False
        then have "xs_rows s1 = xs_rows s @ no_blanks [?r]" "xs_reason s1 \<noteq> None" using cs False by blast+
        then show ?thesis unfolding all split s1 using notlimit
          by - (rule exI [of _ "no_blanks [?r]"], rule exI [of _ "no_blanks ?tail"], auto)
      qed
    qed
  qed
qed

text \<open>A loop over records keeps what its body keeps.\<close>

lemma extract_loop_inv:
  assumes "extract_loop d step f ls s = Inr s'" and "P s"
    and "\<And>sp vs s s'. P s \<Longrightarrow> step sp vs s = Inr (s', True) \<Longrightarrow> P s'"
    and "\<And>sp vs s s'. P s \<Longrightarrow> step sp vs s = Inr (s', False) \<Longrightarrow> Q s'"
    and "\<And>s. P s \<Longrightarrow> Q s"
  shows "Q s'"
  using assms(1,2)
proof (induction "length ls" arbitrary: f ls s rule: less_induct)
  case less
  obtain r f' rest where n: "csv_next line_feed d f ls = (r, f', rest)" using prod_cases3 by blast
  show ?case
  proof (cases "\<exists>vs s1. r = Inr (Some vs) \<and> step (feeder_span f' (consumed f)) vs s = Inr (s1, True)")
    case False
    then have "s' = s \<or> (\<exists>vs. step (feeder_span f' (consumed f)) vs s = Inr (s', False))"
      using less.prems(1) n by (auto simp: extract_loop.simps [of _ _ _ ls] split: sum.splits option.splits if_splits)
    then show ?thesis using assms(4,5) less.prems(2) by blast
  next
    case True
    then obtain vs s1 where r: "r = Inr (Some vs)" "step (feeder_span f' (consumed f)) vs s = Inr (s1, True)" by blast
    have "length rest < length ls" using csv_next_progress [OF n] r(1) by simp
    moreover have "extract_loop d step f' rest s1 = Inr s'"
      using less.prems(1) n r by (simp add: extract_loop.simps [of _ _ _ ls])
    moreover have "P s1" using assms(3) less.prems(2) r(2) by blast
    ultimately show ?thesis using less.hyps by blast
  qed
qed

text \<open>The rows the specification gives for a decoded file.\<close>

definition rows_of_file :: "bytes \<Rightarrow> nat \<Rightarrow> nat \<Rightarrow> utext \<Rightarrow> extracted_row list \<times> exn option" where
  "rows_of_file payload prefix d content = (case all_records d (lf_lines content) of (rs, e) \<Rightarrow>
     (no_blanks (place_records prefix (lines_at chr_nl (drop prefix payload)) 0 0 rs), e))"

definition count_data :: "int \<Rightarrow> extracted_row list \<Rightarrow> nat" where
  "count_data first rs = length (filter (\<lambda>r. first \<le> int (record_ordinal r)) rs)"

lemma extract_loop_emitted:
  assumes "extract_loop d (extract_step h fdr m late) f ls start_state = Inr s"
  shows "int (count_data fdr (xs_rows s)) \<le> max 0 m \<and> (xs_reason s = Some ''row_limit'' \<longrightarrow> m \<le> int (count_data fdr (xs_rows s)))"
proof -
  let ?P = "\<lambda>s. xs_reason s = None \<and> xs_emitted s = count_data fdr (xs_rows s) \<and> int (count_data fdr (xs_rows s)) \<le> max 0 m"
  let ?Q = "\<lambda>s. int (count_data fdr (xs_rows s)) \<le> max 0 m \<and> (xs_reason s = Some ''row_limit'' \<longrightarrow> m \<le> int (count_data fdr (xs_rows s)))"
  show ?thesis
  proof (rule extract_loop_inv [OF assms, of ?P ?Q])
    show "?P start_state" by (simp add: start_state_def count_data_def)
    show "?P s'" if "?P s" "extract_step h fdr m late sp vs s = Inr (s', True)" for sp vs s s'
      using that unfolding extract_step_def Let_def by (auto simp: rbind_Inr_iff count_data_def split: if_splits)
    show "?Q s'" if "?P s" "extract_step h fdr m late sp vs s = Inr (s', False)" for sp vs s s'
      using that unfolding extract_step_def Let_def by (auto simp: rbind_Inr_iff count_data_def split: if_splits)
  qed auto
qed

text \<open>C23. An extraction is what the specification says of the file, in order and with the same coordinates,
  up to a point. It is the whole file, and the file has no malformed record, unless the extraction says
  it is truncated. It never has more data rows than allowed, and when it stops for that reason it has
  exactly as many and the file has at least one row more.\<close>

theorem extraction_follows_specification:
  assumes "extract_file payload header_row first_data max_rows late delimiter = Inr e"
    and "decode payload = Inr (content, encoding)"
  shows "\<exists>more. fst (rows_of_file payload (snd (wire_encoding encoding payload)) (ex_delimiter e) content) = ex_rows e @ more
    \<and> (\<not> ex_truncated e \<longrightarrow> more = [] \<and> snd (rows_of_file payload (snd (wire_encoding encoding payload)) (ex_delimiter e) content) = None)
    \<and> int (length (data_rows e None)) \<le> max 0 max_rows
    \<and> (ex_reason e = Some ''row_limit'' \<longrightarrow> more \<noteq> [] \<and> int (length (data_rows e None)) = max 0 max_rows)"
proof -
  obtain content' wire prefix s where p: "decode payload = Inr (content', ex_encoding e)"
    "wire_encoding (ex_encoding e) payload = (wire, prefix)"
    "extract_loop (ex_delimiter e) (extract_step header_row (ex_first_data_row e) max_rows late)
       (new_feeder content' wire prefix) (lf_lines content') start_state = Inr s"
    and rows: "ex_rows e = xs_rows s" and reason: "ex_reason e = xs_reason s" "ex_truncated e = (xs_reason s \<noteq> None)"
    by (rule extract_file_parts [OF assms(1)])
  have eq: "content' = content" "ex_encoding e = encoding" using p(1) assms(2) by simp_all
  note w = p(2) [unfolded eq] and loop = p(3) [unfolded eq]
  let ?bs = "lines_at chr_nl (drop prefix payload)"
  have dt: "decodes_to wire ?bs (lf_lines content)"
    using decode_wire(1) [OF assms(2) w] by (rule decodes_lines)
  have "\<exists>added more. no_blanks (place_records prefix ?bs (consumed (new_feeder content wire prefix)) (xs_ordinal start_state)
        (fst (all_records (ex_delimiter e) (lf_lines content)))) = added @ more
    \<and> xs_rows s = xs_rows start_state @ added \<and> (xs_reason s = None \<longrightarrow> more = [] \<and> snd (all_records (ex_delimiter e) (lf_lines content)) = None)
    \<and> (xs_reason s = Some ''row_limit'' \<longrightarrow> more \<noteq> [])"
    by (rule extract_loop_reads [OF dt _ loop]) (simp_all add: start_state_def)
  then obtain more where m: "fst (rows_of_file payload prefix (ex_delimiter e) content) = ex_rows e @ more"
    "xs_reason s = None \<longrightarrow> more = [] \<and> snd (rows_of_file payload prefix (ex_delimiter e) content) = None"
    "xs_reason s = Some ''row_limit'' \<longrightarrow> more \<noteq> []"
    by (cases "all_records (ex_delimiter e) (lf_lines content)") (auto simp: rows_of_file_def start_state_def rows)
  have d: "length (data_rows e None) = count_data (ex_first_data_row e) (xs_rows s)"
    by (simp add: data_rows_def Let_def count_data_def rows)
  have "snd (wire_encoding encoding payload) = prefix" using w by simp
  then show ?thesis using m extract_loop_emitted [OF p(3)] unfolding reason d
    by (intro exI [of _ more]) auto
qed

section \<open>A small file\<close>

lemma small_file_extract:
  "\<exists>e. extract_file small_file 1 None 10 (\<lambda>_. False) None = Inr e
    \<and> ex_rows e = [\<lparr>record_ordinal = 1, byte_start = 0, byte_end = 4, row_values = [[97], [98]]\<rparr>,
                   \<lparr>record_ordinal = 2, byte_start = 4, byte_end = 7, row_values = [[49], []]\<rparr>]"
  (is "\<exists>e. _ \<and> _ = [?r1, ?r2]")
proof -
  have lines: "lf_lines [97, 59, 98, 10, 49, 59, 10] = [[97, 59, 98, 10], [49, 59, 10]]"
    by (simp add: lf_lines_eq lines_at_def)
  have feeder: "new_feeder [97, 59, 98, 10, 49, 59, 10] ''utf-8'' 0
      = \<lparr>lf_spans = [(0, 4), (4, 7)], consumed = 0, total_bytes = 7\<rparr>"
    by (simp add: new_feeder_def lines wire_encode_def utf8_encode_def utf8_char_def)
  let ?f = "\<lambda>k. \<lparr>lf_spans = [(0, 4), (4, 7)], consumed = k, total_bytes = 7\<rparr>"
  let ?s1 = "\<lparr>xs_header = [[97], [98]], xs_rows = [?r1], xs_ragged = 0, xs_ordinal = 1, xs_emitted = 0, xs_reason = None\<rparr>"
  let ?s2 = "\<lparr>xs_header = [[97], [98]], xs_rows = [?r1, ?r2], xs_ragged = 0, xs_ordinal = 2, xs_emitted = 1, xs_reason = None\<rparr>"
  have n: "csv_next line_feed 59 (?f 0) [[97, 59, 98, 10], [49, 59, 10]] = (Inr (Some [[97], [98]]), ?f 1, [[49, 59, 10]])"
    "csv_next line_feed 59 (?f 1) [[49, 59, 10]] = (Inr (Some [[49], []]), ?f 2, [])"
    "csv_next line_feed 59 (?f 2) [] = (Inr None, ?f 2, [])"
    by (simp_all add: csv_eval line_feed_def)
  have sp: "feeder_span (?f 1) 0 = (0, 4)" "feeder_span (?f 2) 1 = (4, 7)"
    by (simp_all add: feeder_span_def)
  have h: "header_of [[97], [98]] = [[97], [98]]"
    by (simp add: header_of_def clean_header_def is_control_def strip_eval MAX_HEADER_LENGTH_def)
  have ok: "check_record n [[97], [98]] = Inr ()" "check_record n [[49], []] = Inr ()" for n
    by (simp_all add: check_record_def MAX_COLUMNS_def MAX_CELL_LENGTH_def)
  have steps: "extract_step 1 2 10 (\<lambda>_. False) (0, 4) [[97], [98]] start_state = Inr (?s1, True)"
    "extract_step 1 2 10 (\<lambda>_. False) (4, 7) [[49], []] ?s1 = Inr (?s2, True)"
    by (simp_all add: extract_step_def Let_def ok start_state_def h strip_eval)
  have loop: "extract_loop 59 (extract_step 1 2 10 (\<lambda>_. False)) (?f 0) [[97, 59, 98, 10], [49, 59, 10]] start_state = Inr ?s2"
    using extract_loop.simps [of 59 "extract_step 1 2 10 (\<lambda>_. False)" "?f 0" "[[97, 59, 98, 10], [49, 59, 10]]" start_state]
      extract_loop.simps [of 59 "extract_step 1 2 10 (\<lambda>_. False)" "?f 1" "[[49, 59, 10]]" ?s1]
      extract_loop.simps [of 59 "extract_step 1 2 10 (\<lambda>_. False)" "?f 2" "[]" ?s2]
    unfolding Let_def by (simp only: n prod.case sum.case option.case sp steps if_True line_feeder.simps)
  have content: "decode_content small_file = Inr ([97, 59, 98, 10, 49, 59, 10], ''utf-8-sig'')"
    by (simp add: decode_content_def small_file_decode strip_eval)
  have d: "choose_delimiter [97, 59, 98, 10, 49, 59, 10] 1 None = Inr 59"
    by (simp add: choose_delimiter_def SNIFF_BYTES_def small_file_sniff CANDIDATE_DELIMITERS_def)
  have w: "wire_encoding ''utf-8-sig'' small_file = (''utf-8'', 0)"
    by (simp add: wire_encoding_def small_file_def UTF8_BOM_def starts_with_def)
  have args: "check_arguments small_file 1 2 = Inr ()"
    by (simp add: check_arguments_def MAX_EXTRACT_BYTES_def small_file_def)
  have "extract_file small_file 1 None 10 (\<lambda>_. False) None = Inr (extraction_of ''utf-8-sig'' 59 1 2 ?s2)"
    unfolding extract_file_def first_data_of_def option.case
    by (simp add: args content d w Let_def lines feeder loop)
      (simp add: check_extraction_def extraction_of_def data_rows_def)
  then show ?thesis by (simp add: extraction_of_def)
qed

lemma small_file_row: "\<lparr>record_ordinal = 2, byte_start = 4, byte_end = 7, row_values = [[49], []]\<rparr> \<in> set (ex_rows e)"
  if "ex_rows e = [\<lparr>record_ordinal = 1, byte_start = 0, byte_end = 4, row_values = [[97], [98]]\<rparr>,
                   \<lparr>record_ordinal = 2, byte_start = 4, byte_end = 7, row_values = [[49], []]\<rparr>]"
  using that by simp

theorem extracted_rows_read_back_witness:
  "\<exists>e t. extract_file small_file 1 None 10 (\<lambda>_. False) None = Inr e
    \<and> csv_record (ex_delimiter e) (lf_lines t) = (Inr (Some [[49], []]), [])"
proof -
  obtain e where e: "extract_file small_file 1 None 10 (\<lambda>_. False) None = Inr e"
    "ex_rows e = [\<lparr>record_ordinal = 1, byte_start = 0, byte_end = 4, row_values = [[97], [98]]\<rparr>,
                   \<lparr>record_ordinal = 2, byte_start = 4, byte_end = 7, row_values = [[49], []]\<rparr>]"
    using small_file_extract by blast
  from extracted_rows_read_back [OF e(1) small_file_row [OF e(2)]] e(1) show ?thesis by auto
qed

theorem extracted_spans_are_disjoint_witness:
  "\<exists>e. extract_file small_file 1 None 10 (\<lambda>_. False) None = Inr e \<and> length (ex_rows e) = 2
    \<and> list_all (\<lambda>r. byte_start r < byte_end r \<and> byte_end r \<le> length small_file) (ex_rows e)"
  using small_file_extract extracted_spans_are_disjoint [of small_file 1 None 10 "\<lambda>_. False" None] by fastforce

theorem extraction_follows_specification_witness:
  "\<exists>e more. extract_file small_file 1 None 10 (\<lambda>_. False) None = Inr e
    \<and> fst (rows_of_file small_file (snd (wire_encoding ''utf-8-sig'' small_file)) (ex_delimiter e) [97, 59, 98, 10, 49, 59, 10]) = ex_rows e @ more"
proof -
  obtain e where e: "extract_file small_file 1 None 10 (\<lambda>_. False) None = Inr e" using small_file_extract by blast
  from extraction_follows_specification [OF e small_file_decode] e show ?thesis by blast
qed

end
