(* ===== verification/StreamExtraction.thy ===== *)
theory StreamExtraction
  imports FileExtraction
begin

text \<open>
  \<open>fincilia_contracts/extraction.py\<close>, the incremental reading: the object store hands out chunks of any
  size, \<open>_RawTap\<close> counts them, \<open>_byte_lines\<close> cuts them into lines, \<open>_StreamFeeder\<close> decodes each and keeps
  its span, and \<open>stream_records\<close> emits the rows and fills the outcome while it reads. SHA-256 is the
  argument \<open>sha\<close> and the clock the argument \<open>expired\<close>: whether the time is up at the n-th turn of the
  loop, the time the consumer takes not counted. The lemmas show that the chunks do not matter and that
  the incremental reading emits the rows of the reading of the whole file.
\<close>

section \<open>Readers\<close>

text \<open>
  An open object: what its calls of \<open>read\<close> would return one after the other if they asked for enough; a
  smaller request splits the piece, an empty piece is the end, a failure is raised.
\<close>

type_synonym store = "(exn, bytes) result list"

fun store_read :: "nat \<Rightarrow> store \<Rightarrow> (exn, bytes) result \<times> store" where
  "store_read n [] = (Inr [], [])"
| "store_read n (Inl e # rest) = (Inl e, rest)"
| "store_read n (Inr b # rest) =
     (if length b \<le> n then (Inr b, rest) else (Inr (take n b), Inr (drop n b) # rest))"

definition READ_CHUNK :: nat where "READ_CHUNK = 256 * 1024"
definition SNIFF_WINDOW :: nat where "SNIFF_WINDOW = 64 * 1024"

record head_reader =
  hr_head :: bytes
  hr_offset :: nat
  hr_rest :: "store option"

definition head_read :: "nat \<Rightarrow> head_reader \<Rightarrow> (exn, bytes) result \<times> head_reader" where
  "head_read n r =
     (if hr_offset r < length (hr_head r)
      then let chunk = take n (drop (hr_offset r) (hr_head r)) in (Inr chunk, r\<lparr>hr_offset := hr_offset r + length chunk\<rparr>)
      else case hr_rest r of
        None \<Rightarrow> (Inr [], r)
      | Some store \<Rightarrow> (case store_read n store of (b, store') \<Rightarrow> (b, r\<lparr>hr_rest := Some store'\<rparr>)))"

record raw_tap =
  tap_reader :: head_reader
  tap_seen :: bytes

definition tap_read :: "nat \<Rightarrow> raw_tap \<Rightarrow> (exn, bytes) result \<times> raw_tap" where
  "tap_read n t = (case head_read n (tap_reader t) of
     (Inl e, r) \<Rightarrow> (Inl e, t\<lparr>tap_reader := r\<rparr>)
   | (Inr chunk, r) \<Rightarrow> (Inr chunk, \<lparr>tap_reader = r, tap_seen = tap_seen t @ chunk\<rparr>))"

definition new_tap :: "head_reader \<Rightarrow> raw_tap" where
  "new_tap r = \<lparr>tap_reader = r, tap_seen = []\<rparr>"

section \<open>Byte lines\<close>

text \<open>The inner loop of \<open>_byte_lines\<close>: the complete lines of the buffer, and what is left of it.\<close>

function take_lines :: "nat \<Rightarrow> bytes \<Rightarrow> (nat \<times> bytes) list \<times> nat \<times> bytes" where
  "take_lines offset buffer =
     (let index = length (takeWhile (\<lambda>c. c \<noteq> chr_nl) buffer) in
      if index = length buffer then ([], offset, buffer)
      else let line = take (index + 1) buffer in
        case take_lines (offset + length line) (drop (index + 1) buffer) of (ls, o', b') \<Rightarrow> ((offset, line) # ls, o', b'))"
  by pat_completeness auto
termination
  by (relation "measure (\<lambda>(offset, buffer). length buffer)") (auto intro!: diff_less Nat.gr0I)

declare take_lines.simps [simp del]

text \<open>
  What the generator yields: a line with its offset, and how many bytes the tap had seen by then; or the
  failure of the store.
\<close>

datatype line_event = Line nat bytes nat | Broken exn nat

definition store_size :: "store \<Rightarrow> nat" where
  "store_size store = sum_list (map (\<lambda>r. case r of Inl e \<Rightarrow> 1 | Inr b \<Rightarrow> length b + 1) store)"

definition reader_size :: "head_reader \<Rightarrow> nat" where
  "reader_size r = (length (hr_head r) - hr_offset r) + (case hr_rest r of None \<Rightarrow> 0 | Some store \<Rightarrow> store_size store)"

lemma store_read_size: "store_read n store = (Inr b, store') \<Longrightarrow> b \<noteq> [] \<Longrightarrow> store_size store' < store_size store"
  by (induction n store rule: store_read.induct) (auto simp: store_size_def split: if_splits)

lemma tap_read_size: "tap_read n t = (Inr b, t') \<Longrightarrow> b \<noteq> [] \<Longrightarrow> reader_size (tap_reader t') < reader_size (tap_reader t)"
  by (auto simp: tap_read_def head_read_def reader_size_def Let_def dest: store_read_size split: if_splits option.splits prod.splits sum.splits)

function byte_lines :: "nat \<Rightarrow> raw_tap \<Rightarrow> nat \<Rightarrow> bytes \<Rightarrow> line_event list \<times> raw_tap" where
  "byte_lines n t offset buffer = (case tap_read n t of
     (Inl e, t') \<Rightarrow> ([Broken e (length (tap_seen t'))], t')
   | (Inr chunk, t') \<Rightarrow>
       if chunk = [] then (if buffer \<noteq> [] then [Line offset buffer (length (tap_seen t'))] else [], t')
       else case take_lines offset (buffer @ chunk) of (ls, offset', buffer') \<Rightarrow>
         case byte_lines n t' offset' buffer' of (events, t'') \<Rightarrow>
           (map (\<lambda>(offs, line). Line offs line (length (tap_seen t'))) ls @ events, t''))"
  by pat_completeness auto
termination
  by (relation "measure (\<lambda>(n, t, offset, buffer). reader_size (tap_reader t))") (auto dest!: tap_read_size [OF sym])

declare byte_lines.simps [simp del]

section \<open>The preamble and the feeder\<close>

record preamble =
  pr_encoding :: string
  pr_wire :: string
  pr_delimiter :: nat
  pr_header :: "utext list"
  pr_header_row :: int
  pr_first_data_row :: int
  pr_prefix :: nat

record stream_feeder =
  sf_encoding :: string
  sf_prefix :: nat
  sf_spans :: "(nat \<times> nat) list"
  sf_first :: bool
  sf_ascii :: bool
  sf_promoted :: "string option"
  sf_bytes_read :: nat
  sf_tap :: nat

definition new_stream_feeder :: "preamble \<Rightarrow> stream_feeder" where
  "new_stream_feeder p = \<lparr>sf_encoding = pr_wire p, sf_prefix = pr_prefix p, sf_spans = [], sf_first = True,
     sf_ascii = True, sf_promoted = None, sf_bytes_read = 0, sf_tap = 0\<rparr>"

definition is_ascii :: "bytes \<Rightarrow> bool" where
  "is_ascii raw = list_all (\<lambda>c. code c < 128) raw"

definition promote :: "stream_feeder \<Rightarrow> bytes \<Rightarrow> (exn, utext) result \<times> stream_feeder" where
  "promote f raw =
     (if \<not> sf_ascii f
      then (Inl (ExtractionError (''the file stops being decodable as '' @ repr_str (sf_encoding f)
              @ '' after a non-ASCII character was already read; two different encodings cannot both be right'')), f)
      else case first_codec (filter (\<lambda>c. c \<noteq> sf_encoding f) WIRE_ENCODINGS) raw of
        Some (content, candidate) \<Rightarrow> (Inr content, f\<lparr>sf_promoted := Some (sf_encoding f), sf_encoding := candidate\<rparr>)
      | None \<Rightarrow> (Inl (ExtractionError ''the file is not decodable as text in any supported encoding''), f))"

definition decode_raw :: "stream_feeder \<Rightarrow> bytes \<Rightarrow> (exn, utext) result \<times> stream_feeder" where
  "decode_raw f raw =
     (if CHR 0x00 \<in> set raw then (Inl (ExtractionError ''the artifact contains control bytes and is not text''), f)
      else case (case wire_decode (sf_encoding f) (byte_values raw) of
            Some content \<Rightarrow> (Inr content, f) | None \<Rightarrow> promote f raw) of
        (Inl e, f') \<Rightarrow> (Inl e, f')
      | (Inr content, f') \<Rightarrow> (Inr content, f'\<lparr>sf_ascii := sf_ascii f' \<and> is_ascii raw\<rparr>))"

text \<open>\<open>__next__\<close>: the byte order mark of the first line is not content.\<close>

definition stream_feed :: "stream_feeder \<Rightarrow> line_event \<Rightarrow> (exn, utext) result \<times> stream_feeder" where
  "stream_feed f event = (case event of
     Broken e seen \<Rightarrow> (Inl e, f\<lparr>sf_tap := seen\<rparr>)
   | Line offset line seen \<Rightarrow>
       let mark = (sf_first f \<and> sf_prefix f \<noteq> 0 \<and> starts_with UTF8_BOM line);
           raw = (if mark then drop (length UTF8_BOM) line else line);
           start = (if mark then offset + length UTF8_BOM else offset);
           end_offset = offset + length raw + (start - offset) in
       decode_raw (f\<lparr>sf_first := False, sf_spans := sf_spans f @ [(start, end_offset)], sf_bytes_read := end_offset,
         sf_tap := seen\<rparr>) raw)"

definition take_span :: "stream_feeder \<Rightarrow> (nat \<times> nat) option \<times> stream_feeder" where
  "take_span f = (if sf_spans f = [] then (None, f)
     else (Some (fst (hd (sf_spans f)), snd (last (sf_spans f))), f\<lparr>sf_spans := []\<rparr>))"

section \<open>The outcome\<close>

record stream_outcome =
  so_state :: string
  so_reason :: "string option"
  so_records :: nat
  so_data_rows :: nat
  so_ragged :: nat
  so_bytes_read :: nat
  so_object_digest :: string
  so_record_digest :: string
  so_encoding :: string

definition new_outcome :: stream_outcome where
  "new_outcome = \<lparr>so_state = ''complete'', so_reason = None, so_records = 0, so_data_rows = 0, so_ragged = 0,
     so_bytes_read = 0, so_object_digest = [], so_record_digest = [], so_encoding = []\<rparr>"

definition outcome_as_dict :: "stream_outcome \<Rightarrow> pydict" where
  "outcome_as_dict out = [(''state'', PStr (so_state out)),
     (''truncation_reason'', case so_reason out of None \<Rightarrow> PNone | Some r \<Rightarrow> PStr r),
     (''truncated'', PBool (so_state out = ''truncated'')), (''failed'', PBool (so_state out = ''failed'')),
     (''record_count'', PInt (int (so_records out))), (''row_count'', PInt (int (so_data_rows out))),
     (''ragged_rows'', PInt (int (so_ragged out))), (''bytes_read'', PInt (int (so_bytes_read out))),
     (''object_digest'', PStr (so_object_digest out)), (''record_digest'', PStr (so_record_digest out)),
     (''effective_encoding'', PStr (so_encoding out))]"

section \<open>Sniffing\<close>

text \<open>Reading until the window is full or the object ends.\<close>

function fill_window :: "nat \<Rightarrow> bytes \<Rightarrow> store \<Rightarrow> (exn, bytes) result \<times> store" where
  "fill_window window head store =
     (if window \<le> length head then (Inr head, store)
      else case store_read (window - length head) store of
        (Inl e, store') \<Rightarrow> (Inl e, store')
      | (Inr chunk, store') \<Rightarrow> if chunk = [] then (Inr head, store') else fill_window window (head @ chunk) store')"
  by pat_completeness auto
termination
  by (relation "measure (\<lambda>(window, head, store). store_size store)") (auto dest!: store_read_size [OF sym])

declare fill_window.simps [simp del]

text \<open>Up to and with the last line feed of a full window, if it has one.\<close>

definition sniff_sample :: "bytes \<Rightarrow> bytes" where
  "sniff_sample head =
     (if length head = SNIFF_WINDOW \<and> chr_nl \<in> set head
      then rev (dropWhile (\<lambda>c. c \<noteq> chr_nl) (rev head)) else head)"

fun nth_record :: "nat \<Rightarrow> nat \<Rightarrow> utext list \<Rightarrow> (exn, utext list option) result" where
  "nth_record d 0 ls = Inr None"
| "nth_record d (Suc n) ls = (case csv_record d ls of
     (Inl e, rest) \<Rightarrow> Inl e
   | (Inr None, rest) \<Rightarrow> Inr None
   | (Inr (Some vs), rest) \<Rightarrow> if n = 0 then Inr (Some vs) else nth_record d n rest)"

definition preamble_of :: "bytes \<Rightarrow> int \<Rightarrow> utext option \<Rightarrow> (exn, preamble) result" where
  "preamble_of head header_row delimiter =
     rbind (decode_content (sniff_sample head)) (\<lambda>(content, encoding).
     rbind (choose_delimiter content header_row delimiter) (\<lambda>d.
     rbind (nth_record d (nat header_row) (lf_lines content)) (\<lambda>found.
     let header = (case found of Some vs \<Rightarrow> header_of vs | None \<Rightarrow> []) in
     if header = []
     then Inl (ExtractionError (''record '' @ show_int header_row @ '' declared as header is not within the first ''
            @ show_nat SNIFF_WINDOW @ '' bytes''))
     else Inr \<lparr>pr_encoding = encoding, pr_wire = (if encoding = ''utf-8-sig'' then ''utf-8'' else encoding), pr_delimiter = d,
            pr_header = header, pr_header_row = header_row, pr_first_data_row = header_row + 1,
            pr_prefix = (if starts_with UTF8_BOM head then length UTF8_BOM else 0)\<rparr>)))"

definition sniff :: "store \<Rightarrow> int \<Rightarrow> utext option \<Rightarrow> (exn, preamble \<times> head_reader) result" where
  "sniff store header_row delimiter =
     (if header_row < 1 then Inl (ExtractionError ''header_row is 1-based'')
      else case fill_window SNIFF_WINDOW [] store of
        (Inl e, _) \<Rightarrow> Inl e
      | (Inr head, rest) \<Rightarrow>
          if head = [] then Inl (ExtractionError ''the artifact has no readable content'')
          else rbind (preamble_of head header_row delimiter) (\<lambda>p.
            Inr (p, \<lparr>hr_head = head, hr_offset = 0, hr_rest = Some rest\<rparr>)))"

section \<open>The stream of records\<close>

record stream_state =
  ss_report :: stream_outcome
  ss_rows :: "extracted_row list"
  ss_ordinal :: nat
  ss_emitted :: nat
  ss_digest :: "nat list"

definition start_stream :: stream_state where
  "start_stream = \<lparr>ss_report = new_outcome, ss_rows = [], ss_ordinal = 0, ss_emitted = 0, ss_digest = []\<rparr>"

text \<open>How the loop ends: at the end of the input, with \<open>break\<close>, or with an exception.\<close>

datatype stop = Ended | Stopped | Raised exn

definition settle_as :: "string \<Rightarrow> string \<Rightarrow> stream_state \<Rightarrow> stream_state" where
  "settle_as state reason s = s\<lparr>ss_report := (ss_report s)\<lparr>so_state := state, so_reason := Some reason\<rparr>\<rparr>"

text \<open>What is fed into the record digest: every part with its length in front.\<close>

definition ascii_bytes :: "string \<Rightarrow> nat list" where
  "ascii_bytes s = map code s"

definition record_bytes :: "nat \<Rightarrow> utext list \<Rightarrow> nat list" where
  "record_bytes ordinal vs = ascii_bytes (show_nat ordinal @ '':'' @ show_nat (length vs) @ ''|'')
     @ concat (map (\<lambda>v. ascii_bytes (show_nat (length (utf8_encode v)) @ '':'') @ utf8_encode v) vs)"

definition fail_check :: "nat \<Rightarrow> utext list \<Rightarrow> string" where
  "fail_check ordinal vs = (if MAX_COLUMNS < length vs then ''too_many_columns'' else ''cell_too_long'')"

definition emit_row :: "preamble \<Rightarrow> nat \<times> nat \<Rightarrow> utext list \<Rightarrow> stream_state \<Rightarrow> stream_state" where
  "emit_row p sp vs s =
     (let is_data = (pr_first_data_row p \<le> int (ss_ordinal s));
          r = ss_report s;
          emitted = (if is_data then ss_emitted s + 1 else ss_emitted s) in
      s\<lparr>ss_digest := ss_digest s @ record_bytes (ss_ordinal s) vs,
        ss_emitted := emitted,
        ss_report := r\<lparr>so_records := so_records r + 1,
           so_data_rows := (if is_data then emitted else so_data_rows r),
           so_ragged := so_ragged r + (if is_data \<and> pr_header p \<noteq> [] \<and> length vs \<noteq> length (pr_header p) then 1 else 0)\<rparr>,
        ss_rows := ss_rows s @ [\<lparr>record_ordinal = ss_ordinal s, byte_start = fst sp, byte_end = snd sp, row_values = vs\<rparr>]\<rparr>)"

text \<open>The body for one record, given its span: the new state, and how the loop ends if it does.\<close>

definition stream_record :: "preamble \<Rightarrow> int \<Rightarrow> (nat \<times> nat) option \<Rightarrow> utext list \<Rightarrow> stream_state \<Rightarrow> stream_state \<times> stop option" where
  "stream_record p max_rows sp vs s =
     (if (case sp of None \<Rightarrow> True | Some (a, b) \<Rightarrow> b \<le> a)
      then (settle_as ''failed'' ''locator_unavailable'' s, Some (Raised (ExtractionError (''record '' @ show_nat (ss_ordinal s + 1)
             @ '' has no non-empty byte span; its evidence locator cannot be proven''))))
      else let s1 = s\<lparr>ss_ordinal := ss_ordinal s + 1\<rparr> in
        case check_record (ss_ordinal s1) vs of
          Inl e \<Rightarrow> (settle_as ''failed'' (fail_check (ss_ordinal s1) vs) s1, Some (Raised e))
        | Inr _ \<Rightarrow>
            if list_all blank vs then (s1, None)
            else if pr_first_data_row p \<le> int (ss_ordinal s1) \<and> max_rows \<le> int (ss_emitted s1)
            then (settle_as ''truncated'' ''row_limit'' s1, Some Stopped)
            else (emit_row p (the sp) vs s1, None))"

definition stream_failure :: "exn \<Rightarrow> stream_state \<Rightarrow> stream_state \<times> stop" where
  "stream_failure e s = (case e of
     CsvError m \<Rightarrow> (settle_as ''failed'' ''malformed_delimited_file'' s, Raised (malformed e))
   | _ \<Rightarrow> (s, Raised e))"

function stream_loop :: "preamble \<Rightarrow> int \<Rightarrow> int \<Rightarrow> (nat \<Rightarrow> bool) \<Rightarrow> nat \<Rightarrow> stream_feeder \<Rightarrow> line_event list \<Rightarrow> stream_state
    \<Rightarrow> stream_state \<times> stream_feeder \<times> stop" where
  "stream_loop p max_rows max_bytes expired turn f events s =
     (if max_bytes < int (sf_tap f) then (settle_as ''truncated'' ''byte_limit'' s, f, Stopped)
      else if expired turn then (settle_as ''truncated'' ''time_limit'' s, f, Stopped)
      else case csv_next stream_feed (pr_delimiter p) f events of
        (Inl e, f', rest) \<Rightarrow> (case stream_failure e s of (s', stp) \<Rightarrow> (s', f', stp))
      | (Inr None, f', rest) \<Rightarrow> (s, f', Ended)
      | (Inr (Some vs), f', rest) \<Rightarrow> (case take_span f' of (sp, f'') \<Rightarrow>
          (case stream_record p max_rows sp vs s of
             (s', Some stp) \<Rightarrow> (s', f'', stp)
           | (s', None) \<Rightarrow> stream_loop p max_rows max_bytes expired (turn + 1) f'' rest s')))"
  by pat_completeness auto
termination
  by (relation "measure (\<lambda>(p, mr, mb, ex, t, f, events, s). length events)") (auto dest!: csv_next_progress [OF sym])

declare stream_loop.simps [simp del]

text \<open>After the loop: a complete reading must be of the declared object and have data rows.\<close>

definition check_stream :: "string \<Rightarrow> string \<Rightarrow> stream_state \<Rightarrow> stop \<Rightarrow> stream_state \<times> exn option" where
  "check_stream object_digest artifact_sha256 s stp = (case stp of
     Raised e \<Rightarrow> (s, Some e)
   | _ \<Rightarrow>
     if so_state (ss_report s) \<noteq> ''complete'' then (s, None)
     else if artifact_sha256 \<noteq> [] \<and> object_digest \<noteq> artifact_sha256
     then (settle_as ''failed'' ''object_digest_mismatch'' s, Some (ExtractionError
            ''the bytes read do not match the digest declared for this artifact; the object is not the one that was uploaded''))
     else if so_data_rows (ss_report s) = 0
     then (settle_as ''failed'' ''no_data_rows'' s, Some (ExtractionError
            ''the artifact declares a header and carries no data rows''))
     else (s, None))"

definition is_extraction_error :: "exn \<Rightarrow> bool" where
  "is_extraction_error e = (case e of ExtractionError m \<Rightarrow> True | _ \<Rightarrow> False)"

text \<open>\<open>except Exception\<close>: anything that is not an extraction error marks a complete reading as failed.\<close>

definition mark_failure :: "stream_state \<Rightarrow> exn option \<Rightarrow> stream_state" where
  "mark_failure s raised = (case raised of
     Some e \<Rightarrow> if \<not> is_extraction_error e \<and> so_state (ss_report s) = ''complete''
              then settle_as ''failed'' ''reader_error'' s else s
   | None \<Rightarrow> s)"

definition stream_records :: "(nat list \<Rightarrow> string) \<Rightarrow> head_reader \<Rightarrow> preamble \<Rightarrow> string \<Rightarrow> int \<Rightarrow> int \<Rightarrow> (nat \<Rightarrow> bool)
    \<Rightarrow> extracted_row list \<times> stream_outcome \<times> exn option" where
  "stream_records sha reader p artifact_sha256 max_rows max_bytes expired =
     (case byte_lines READ_CHUNK (new_tap reader) 0 [] of (events, tap) \<Rightarrow>
      case stream_loop p max_rows max_bytes expired 0 (new_stream_feeder p) events start_stream of (s, f, stp) \<Rightarrow>
      let object_digest = sha (byte_values (take (sf_tap f) (tap_seen tap))) in
      case check_stream object_digest artifact_sha256 s stp of (s', raised) \<Rightarrow>
      let s'' = mark_failure s' raised in
        (ss_rows s'', (ss_report s'')\<lparr>so_bytes_read := sf_bytes_read f, so_object_digest := object_digest,
            so_record_digest := sha (ss_digest s''), so_encoding := sf_encoding f\<rparr>, raised))"


section \<open>The chunks do not matter\<close>

definition good_store :: "store \<Rightarrow> bool" where
  "good_store store = list_all (\<lambda>r. case r of Inl e \<Rightarrow> False | Inr b \<Rightarrow> b \<noteq> []) store"

definition store_bytes :: "store \<Rightarrow> bytes" where
  "store_bytes store = concat (map (\<lambda>r. case r of Inl e \<Rightarrow> [] | Inr b \<Rightarrow> b) store)"

definition reader_bytes :: "head_reader \<Rightarrow> bytes" where
  "reader_bytes r = drop (hr_offset r) (hr_head r) @ (case hr_rest r of None \<Rightarrow> [] | Some store \<Rightarrow> store_bytes store)"

definition good_reader :: "head_reader \<Rightarrow> bool" where
  "good_reader r = (case hr_rest r of None \<Rightarrow> True | Some store \<Rightarrow> good_store store)"

lemma store_read_bytes:
  assumes "good_store store" and "0 < n"
  shows "\<exists>b store'. store_read n store = (Inr b, store') \<and> good_store store' \<and> store_bytes store = b @ store_bytes store'
    \<and> (b = [] \<longrightarrow> store_bytes store = [])"
proof (cases store)
  case Nil
  then show ?thesis by (simp add: good_store_def store_bytes_def)
next
  case (Cons r rest)
  then obtain b where "r = Inr b" "b \<noteq> []" "good_store rest" using assms(1) by (cases r) (auto simp: good_store_def)
  with assms(2) show ?thesis by (auto simp: Cons good_store_def store_bytes_def)
qed

lemma take_drop_rest: "drop k xs = take n (drop k xs) @ drop (k + length (take n (drop k xs))) xs"
proof -
  have "ys = take n ys @ drop (length (take n ys)) ys" for ys :: "'a list"
    by (metis append_eq_conv_conj append_take_drop_id)
  from this [of "drop k xs"] show ?thesis by (simp add: add.commute)
qed

lemma tap_read_bytes:
  assumes "good_reader (tap_reader t)" and "0 < n"
  shows "\<exists>b t'. tap_read n t = (Inr b, t') \<and> good_reader (tap_reader t') \<and> reader_bytes (tap_reader t) = b @ reader_bytes (tap_reader t')
    \<and> tap_seen t' = tap_seen t @ b \<and> (b = [] \<longrightarrow> reader_bytes (tap_reader t) = [])"
proof (cases "hr_offset (tap_reader t) < length (hr_head (tap_reader t))")
  case True
  let ?r = "tap_reader t"
  have "reader_bytes ?r = take n (drop (hr_offset ?r) (hr_head ?r))
      @ drop (hr_offset ?r + length (take n (drop (hr_offset ?r) (hr_head ?r)))) (hr_head ?r)
      @ (case hr_rest ?r of None \<Rightarrow> [] | Some store \<Rightarrow> store_bytes store)"
    unfolding reader_bytes_def append_assoc [symmetric] using take_drop_rest by metis
  then show ?thesis using True assms
    by (auto simp: tap_read_def head_read_def Let_def good_reader_def reader_bytes_def)
next
  case False
  let ?r = "tap_reader t"
  show ?thesis
  proof (cases "hr_rest ?r")
    case None
    with False show ?thesis by (simp add: tap_read_def head_read_def good_reader_def reader_bytes_def)
  next
    case (Some store)
    then have "good_store store" using assms(1) by (simp add: good_reader_def)
    from store_read_bytes [OF this assms(2)] obtain b store' where "store_read n store = (Inr b, store')" "good_store store'"
      "store_bytes store = b @ store_bytes store'" "b = [] \<longrightarrow> store_bytes store = []"
      by blast
    with False Some show ?thesis by (simp add: tap_read_def head_read_def good_reader_def reader_bytes_def)
  qed
qed

text \<open>Lines with their offsets.\<close>

fun place_lines :: "nat \<Rightarrow> bytes list \<Rightarrow> (nat \<times> bytes) list" where
  "place_lines offset [] = []"
| "place_lines offset (l # ls) = (offset, l) # place_lines (offset + length l) ls"

fun event_line :: "line_event \<Rightarrow> nat \<times> bytes" where
  "event_line (Line offset l seen) = (offset, l)"
| "event_line (Broken e seen) = (0, [])"

fun event_seen :: "line_event \<Rightarrow> nat" where
  "event_seen (Line offset l seen) = seen"
| "event_seen (Broken e seen) = seen"

fun is_line :: "line_event \<Rightarrow> bool" where
  "is_line (Line offset l seen) = True"
| "is_line (Broken e seen) = False"

lemma takeWhile_nl: "length (takeWhile (\<lambda>c. c \<noteq> nl) xs) = length xs \<longleftrightarrow> nl \<notin> set xs"
  by (induction xs) auto

lemma takeWhile_split: "nl \<in> set xs \<Longrightarrow> \<exists>post. xs = takeWhile (\<lambda>c. c \<noteq> nl) xs @ nl # post"
  by (induction xs) auto

lemma take_lines_spec:
  "take_lines offset buffer = (ls, o', b') \<Longrightarrow> chr_nl \<notin> set b' \<and>
    (\<forall>more. place_lines offset (lines_at chr_nl (buffer @ more)) = ls @ place_lines o' (lines_at chr_nl (b' @ more)))"
proof (induction offset buffer arbitrary: ls o' b' rule: take_lines.induct)
  case (1 offset buffer)
  let ?pre = "takeWhile (\<lambda>c. c \<noteq> chr_nl) buffer"
  show ?case
  proof (cases "length ?pre = length buffer")
    case True
    then show ?thesis using "1.prems" takeWhile_nl [of chr_nl buffer] by (simp add: take_lines.simps [of offset])
  next
    case False
    then have mem: "chr_nl \<in> set buffer" by (simp add: takeWhile_nl)
    define pre where "pre = ?pre"
    from takeWhile_split [OF mem] obtain post where b: "buffer = pre @ chr_nl # post" unfolding pre_def ..
    have t: "take (length pre + 1) buffer = pre @ [chr_nl]" "drop (length pre + 1) buffer = post"
      by (simp_all add: b)
    have eq: "take_lines offset buffer = (case take_lines (offset + length (pre @ [chr_nl])) post of
        (ls, o', b') \<Rightarrow> ((offset, pre @ [chr_nl]) # ls, o', b'))"
      using False unfolding take_lines.simps [of offset] Let_def pre_def [symmetric] t by simp
    obtain ls1 where r: "take_lines (offset + length (pre @ [chr_nl])) post = (ls1, o', b')" "ls = (offset, pre @ [chr_nl]) # ls1"
      using "1.prems" unfolding eq by (auto split: prod.splits)
    have "chr_nl \<notin> set pre" unfolding pre_def by (auto dest: set_takeWhileD)
    then have "lines_at chr_nl (buffer @ more) = (pre @ [chr_nl]) # lines_at chr_nl (post @ more)" for more
      by (simp add: b lines_at_line)
    moreover have "chr_nl \<notin> set b' \<and> (\<forall>more. place_lines (offset + length (pre @ [chr_nl])) (lines_at chr_nl (post @ more))
        = ls1 @ place_lines o' (lines_at chr_nl (b' @ more)))"
      using "1.IH" [OF refl False refl, folded pre_def, unfolded t, OF r(1)] .
    ultimately show ?thesis using r(2) by simp
  qed
qed

lemma byte_lines_spec:
  assumes "good_reader (tap_reader t)" "0 < n" "chr_nl \<notin> set buffer" "byte_lines n t offset buffer = (events, t')"
  shows "map event_line events = place_lines offset (lines_at chr_nl (buffer @ reader_bytes (tap_reader t)))
    \<and> list_all is_line events \<and> tap_seen t' = tap_seen t @ reader_bytes (tap_reader t)
    \<and> list_all (\<lambda>ev. event_seen ev \<le> length (tap_seen t')) events
    \<and> (events \<noteq> [] \<longrightarrow> event_seen (last events) = length (tap_seen t'))"
  using assms
proof (induction n t offset buffer arbitrary: events t' rule: byte_lines.induct)
  case (1 n t offset buffer)
  obtain b t1 where r: "tap_read n t = (Inr b, t1)" "good_reader (tap_reader t1)"
    "reader_bytes (tap_reader t) = b @ reader_bytes (tap_reader t1)" "tap_seen t1 = tap_seen t @ b"
    "b = [] \<longrightarrow> reader_bytes (tap_reader t) = []"
    using tap_read_bytes [OF "1.prems"(1,2)] by blast
  show ?case
  proof (cases "b = []")
    case True
    with r "1.prems"(3,4) show ?thesis
      by (auto simp: byte_lines.simps [of n t] lines_at_last split: if_splits)
  next
    case False
    obtain ls o' b' where tl: "take_lines offset (buffer @ b) = (ls, o', b')" using prod_cases3 by blast
    obtain evs t2 where rec: "byte_lines n t1 o' b' = (evs, t2)" by fastforce
    have ev: "events = map (\<lambda>(offs, line). Line offs line (length (tap_seen t1))) ls @ evs" "t' = t2"
      using "1.prems"(4) r(1) False tl rec by (simp_all add: byte_lines.simps [of n t])
    note spec = take_lines_spec [OF tl]
    have IH: "map event_line evs = place_lines o' (lines_at chr_nl (b' @ reader_bytes (tap_reader t1)))"
      "list_all is_line evs" "tap_seen t2 = tap_seen t1 @ reader_bytes (tap_reader t1)"
      "list_all (\<lambda>ev. event_seen ev \<le> length (tap_seen t2)) evs"
      "evs \<noteq> [] \<longrightarrow> event_seen (last evs) = length (tap_seen t2)"
      using "1.IH" [OF r(1) [symmetric] refl False tl [symmetric] refl r(2) "1.prems"(2) _ rec] spec by blast+
    have m: "map event_line (map (\<lambda>(offs, line). Line offs line x) ls) = ls" for x
      by (induction ls) auto
    have seen: "event_seen (last events) = length (tap_seen t')" if "events \<noteq> []"
    proof (cases "evs = []")
      case True
      then have "place_lines o' (lines_at chr_nl (b' @ reader_bytes (tap_reader t1))) = []" using IH(1) by simp
      then have "reader_bytes (tap_reader t1) = []"
        by (cases "lines_at chr_nl (b' @ reader_bytes (tap_reader t1))") simp_all
      then show ?thesis using True that IH(3) by (simp add: ev last_map split: prod.splits)
    next
      case False
      then show ?thesis using IH(5) by (simp add: ev)
    qed
    show ?thesis
      using IH spec m seen r(3,4) by (auto simp: ev list_all_iff)
  qed
qed

section \<open>The feeder on the lines of a file\<close>

text \<open>The \<open>i\<close>-th event of a file whose content, behind a mark of \<open>prefix\<close> bytes, has the lines \<open>bs\<close>.\<close>

definition event_at :: "nat \<Rightarrow> bytes list \<Rightarrow> nat \<Rightarrow> line_event \<Rightarrow> bool" where
  "event_at prefix bs i ev = (is_line ev \<and> event_line ev =
     (if i = 0 \<and> prefix \<noteq> 0 then (0, UTF8_BOM @ bs ! 0) else (bytes_before prefix bs i, bs ! i)))"

definition feeder_at :: "string \<Rightarrow> nat \<Rightarrow> nat \<Rightarrow> stream_feeder \<Rightarrow> bool" where
  "feeder_at wire prefix i f = (sf_encoding f = wire \<and> sf_prefix f = prefix \<and> sf_first f = (i = 0))"

definition line_span :: "nat \<Rightarrow> bytes list \<Rightarrow> nat \<Rightarrow> nat \<times> nat" where
  "line_span prefix bs i = (bytes_before prefix bs i, bytes_before prefix bs (Suc i))"

lemma bytes_before_step: "i < length bs \<Longrightarrow> bytes_before prefix bs (Suc i) = bytes_before prefix bs i + length (bs ! i)"
  by (simp add: bytes_before_def take_Suc_conv_app_nth)

lemma stream_feed_line:
  assumes "event_at prefix bs i ev" "i < length bs" "feeder_at wire prefix i f" "prefix = 0 \<or> prefix = length UTF8_BOM"
    and "wire_decode wire (byte_values (bs ! i)) = Some t" "CHR 0x00 \<notin> set (bs ! i)"
  shows "\<exists>f'. stream_feed f ev = (Inr t, f') \<and> feeder_at wire prefix (Suc i) f'
    \<and> sf_spans f' = sf_spans f @ [line_span prefix bs i] \<and> sf_tap f' = event_seen ev"
proof -
  obtain offset l seen where ev: "ev = Line offset l seen" using assms(1) by (cases ev) (auto simp: event_at_def)
  have bom: "starts_with UTF8_BOM (UTF8_BOM @ xs)" for xs by (simp add: starts_with_def)
  show ?thesis
  proof (cases "i = 0 \<and> prefix \<noteq> 0")
    case True
    then have l: "offset = 0" "l = UTF8_BOM @ bs ! 0" using assms(1) by (simp_all add: event_at_def ev)
    show ?thesis using True assms bom bytes_before_step [OF assms(2)]
      by (auto simp: ev l stream_feed_def decode_raw_def feeder_at_def line_span_def Let_def add.commute)
  next
    case False
    then have l: "offset = bytes_before prefix bs i" "l = bs ! i" using assms(1) by (auto simp: event_at_def ev)
    have "\<not> (sf_first f \<and> sf_prefix f \<noteq> 0)" using False assms(3) by (auto simp: feeder_at_def)
    then show ?thesis using assms bytes_before_step [OF assms(2)]
      by (auto simp: ev l stream_feed_def decode_raw_def feeder_at_def line_span_def Let_def add.commute)
  qed
qed

text \<open>A file cut into events, as the incremental reader sees it, and its texts, as the other one does.\<close>

definition same_file :: "string \<Rightarrow> nat \<Rightarrow> bytes list \<Rightarrow> utext list \<Rightarrow> line_event list \<Rightarrow> bool" where
  "same_file wire prefix bs ts es = ((prefix = 0 \<or> prefix = length UTF8_BOM) \<and> decodes_to wire bs ts \<and> length es = length bs
     \<and> (\<forall>i < length bs. event_at prefix bs i (es ! i) \<and> CHR 0x00 \<notin> set (bs ! i)) \<and> [] \<notin> set bs)"

lemma same_file_length: "same_file wire prefix bs ts es \<Longrightarrow> length ts = length bs \<and> length es = length bs"
  by (auto simp: same_file_def dest: list_all2_lengthD)

lemma feed_events:
  assumes sf: "same_file wire prefix bs ts es"
  shows "i + m \<le> length bs \<Longrightarrow> feeder_at wire prefix i f \<Longrightarrow> \<exists>f'. feed_all stream_feed f (take m (drop i es)) = (Inr (take m (drop i ts)), f')
    \<and> feeder_at wire prefix (i + m) f' \<and> sf_spans f' = sf_spans f @ map (line_span prefix bs) [i..<i + m]
    \<and> sf_tap f' = (if m = 0 then sf_tap f else event_seen (es ! (i + m - 1)))"
proof (induction m arbitrary: i f)
  case 0
  then show ?case by simp
next
  case (Suc m)
  note len = same_file_length [OF sf]
  have i: "i < length bs" using Suc.prems(1) by simp
  have "event_at prefix bs i (es ! i)" "CHR 0x00 \<notin> set (bs ! i)" "prefix = 0 \<or> prefix = length UTF8_BOM"
    using sf i by (simp_all add: same_file_def)
  moreover have "wire_decode wire (byte_values (bs ! i)) = Some (ts ! i)"
    using sf i by (simp add: same_file_def list_all2_conv_all_nth)
  ultimately obtain f1 where f1: "stream_feed f (es ! i) = (Inr (ts ! i), f1)" "feeder_at wire prefix (Suc i) f1"
    "sf_spans f1 = sf_spans f @ [line_span prefix bs i]" "sf_tap f1 = event_seen (es ! i)"
    using stream_feed_line i Suc.prems(2) by blast
  obtain f' where f': "feed_all stream_feed f1 (take m (drop (Suc i) es)) = (Inr (take m (drop (Suc i) ts)), f')"
    "feeder_at wire prefix (Suc i + m) f'" "sf_spans f' = sf_spans f1 @ map (line_span prefix bs) [Suc i..<Suc i + m]"
    "sf_tap f' = (if m = 0 then sf_tap f1 else event_seen (es ! (Suc i + m - 1)))"
    using Suc.IH [OF _ f1(2)] Suc.prems(1) by auto
  have "take (Suc m) (drop i es) = es ! i # take m (drop (Suc i) es)" "take (Suc m) (drop i ts) = ts ! i # take m (drop (Suc i) ts)"
    using i len by (simp_all add: Cons_nth_drop_Suc [symmetric])
  moreover have "[i..<i + Suc m] = i # [Suc i..<Suc i + m]" by (simp add: upt_conv_Cons)
  ultimately show ?case using f1 f' by (auto simp del: upt_Suc)
qed

text \<open>One record through the stream.\<close>

lemma stream_next:
  assumes sf: "same_file wire prefix bs ts es" and "i \<le> length bs" "feeder_at wire prefix i f"
    and "csv_next plain_feed d 0 (drop i ts) = (r, k, rest)"
  shows "rest = drop (i + k) ts \<and> i + k \<le> length bs \<and> (\<exists>f'. csv_next stream_feed d f (drop i es) = (r, f', drop (i + k) es)
    \<and> feeder_at wire prefix (i + k) f' \<and> sf_spans f' = sf_spans f @ map (line_span prefix bs) [i..<i + k]
    \<and> sf_tap f' = (if k = 0 then sf_tap f else event_seen (es ! (i + k - 1))))"
proof -
  note len = same_file_length [OF sf]
  obtain fe where fe: "feed_all stream_feed f (drop i es) = (Inr (drop i ts), fe)"
    using feed_events [OF sf, of i "length bs - i" f] assms(2,3) len by auto
  obtain k' where k': "k' \<le> length (drop i es)" "rest = drop k' (drop i ts)" "k = 0 + k'"
    "csv_pull stream_feed d csv_reset f (drop i es) = (r, snd (feed_all stream_feed f (take k' (drop i es))), drop k' (drop i es))"
    using csv_pull_feed [OF fe assms(4) [unfolded csv_next_def]] by blast
  have le: "i + k \<le> length bs" using k'(1,3) len assms(2) by simp
  obtain f' where "feed_all stream_feed f (take k (drop i es)) = (Inr (take k (drop i ts)), f')"
    "feeder_at wire prefix (i + k) f'" "sf_spans f' = sf_spans f @ map (line_span prefix bs) [i..<i + k]"
    "sf_tap f' = (if k = 0 then sf_tap f else event_seen (es ! (i + k - 1)))"
    using feed_events [OF sf le assms(3)] by blast
  then show ?thesis using k' le by (simp add: csv_next_def add.commute)
qed

end
