(* ===== verification/StreamAgreement.thy ===== *)
theory StreamAgreement
  imports StreamExtraction "HOL-Library.Sublist"
begin

text \<open>
  The two readers of \<open>fincilia_contracts/extraction.py\<close> agree: \<open>stream_records\<close> over any store that hands
  out the bytes of a file in chunks of any size emits the rows that \<open>extract\<close> finds in the whole file, with
  the same counts, unless a clock or the byte limit stops it before. The relation \<open>agree\<close> holds between the states
  of the two loops at every turn.
\<close>

section \<open>The two loops, record by record\<close>

definition agree :: "extract_state \<Rightarrow> stream_state \<Rightarrow> bool" where
  "agree s z = (ss_rows z = xs_rows s \<and> ss_ordinal z = xs_ordinal s \<and> ss_emitted z = xs_emitted s
     \<and> so_records (ss_report z) = length (xs_rows s) \<and> so_data_rows (ss_report z) = xs_emitted s
     \<and> so_ragged (ss_report z) = xs_ragged s \<and> so_reason (ss_report z) = xs_reason s
     \<and> so_state (ss_report z) = (if xs_reason s = None then ''complete'' else ''truncated''))"

lemma agree_start: "agree start_state start_stream"
  by (simp add: agree_def start_state_def start_stream_def new_outcome_def)

lemma step_agrees:
  assumes step: "extract_step h fdr m late (a, b) vs s = Inr (s1, go_on)"
    and "agree s z" "xs_reason s = None" "xs_reason s1 \<noteq> Some ''time_limit''" "a < b"
    and "pr_first_data_row p = fdr" "h < fdr" and header: "fdr \<le> int (Suc (xs_ordinal s)) \<Longrightarrow> xs_header s = pr_header p"
  shows "\<exists>z1. stream_record p m (Some (a, b)) vs z = (z1, if go_on then None else Some Stopped) \<and> agree s1 z1
    \<and> (go_on \<longleftrightarrow> xs_reason s1 = None)"
proof -
  have c: "check_record (Suc (xs_ordinal s)) vs = Inr ()"
    using step by (auto simp: extract_step_def rbind_Inr_iff)
  have h: "fdr \<le> int (Suc (xs_ordinal s)) \<Longrightarrow> int (Suc (xs_ordinal s)) \<noteq> h" using assms(7) by linarith
  show ?thesis
  proof (cases "fdr \<le> int (Suc (xs_ordinal s))")
    case True
    note hh = h [OF True] header [OF True]
    show ?thesis using step assms(2-6) c True hh
      unfolding extract_step_def stream_record_def Let_def agree_def
      by (auto simp: settle_as_def emit_row_def Let_def split: if_splits)
  next
    case False
    then show ?thesis using step assms(2-6) c
      unfolding extract_step_def stream_record_def Let_def agree_def
      by (auto simp: settle_as_def emit_row_def Let_def split: if_splits)
  qed
qed

text \<open>A header that has been passed stays.\<close>

lemma extract_step_header:
  "extract_step h fdr m late sp vs s = Inr (s', go_on) \<Longrightarrow> h \<le> int (xs_ordinal s) \<Longrightarrow>
    xs_header s' = xs_header s \<and> h \<le> int (xs_ordinal s')"
  unfolding extract_step_def Let_def by (auto simp: rbind_Inr_iff split: if_splits)

lemma extract_loop_header:
  "extract_loop d (extract_step h fdr m late) f ls s = Inr s' \<Longrightarrow> h \<le> int (xs_ordinal s) \<Longrightarrow> xs_header s' = xs_header s"
proof (induction "length ls" arbitrary: f ls s rule: less_induct)
  case less
  obtain r f' rest where n: "csv_next line_feed d f ls = (r, f', rest)" using prod_cases3 by blast
  show ?case
  proof (cases "\<exists>vs. r = Inr (Some vs)")
    case False
    then show ?thesis
      using less.prems(1) n by (auto simp: extract_loop.simps [of _ _ _ ls] split: sum.splits option.splits)
  next
    case True
    then obtain vs where r: "r = Inr (Some vs)" by blast
    then have l: "length rest < length ls" using csv_next_progress [OF n] by simp
    obtain s1 go_on where s1: "extract_step h fdr m late (feeder_span f' (consumed f)) vs s = Inr (s1, go_on)"
      "(if go_on then extract_loop d (extract_step h fdr m late) f' rest s1 else Inr s1) = Inr s'"
      using less.prems(1) n r by (auto simp: extract_loop.simps [of _ _ _ ls] split: sum.splits)
    note h = extract_step_header [OF s1(1) less.prems(2)]
    show ?thesis
    proof (cases go_on)
      case True
      then show ?thesis using less.hyps [OF l, of f' s1] s1(2) h by simp
    next
      case False
      then show ?thesis using s1(2) h by simp
    qed
  qed
qed

lemma csv_pull_None: "csv_pull feed d p s ls = (Inr None, s', rest) \<Longrightarrow> rest = []"
  by (induction ls arbitrary: p s) (auto split: prod.splits sum.splits if_splits)

text \<open>Where the stream stands: the record boundaries and the tap.\<close>

definition tap_at :: "line_event list \<Rightarrow> nat \<Rightarrow> nat" where
  "tap_at es i = (if i = 0 then 0 else event_seen (es ! (i - 1)))"

definition stream_at :: "string \<Rightarrow> nat \<Rightarrow> line_event list \<Rightarrow> nat \<Rightarrow> stream_feeder \<Rightarrow> bool" where
  "stream_at wire pfx es i g = (feeder_at wire pfx i g \<and> sf_spans g = [] \<and> sf_tap g = tap_at es i)"

lemma take_span_lines:
  assumes "sf_spans g = map (line_span pfx bs) [i..<i + k]" and "0 < k"
  shows "take_span g = (Some (bytes_before pfx bs i, bytes_before pfx bs (i + k)), g\<lparr>sf_spans := []\<rparr>)"
proof -
  obtain n where n: "k = Suc n" using assms(2) gr0_implies_Suc by blast
  have "[i..<i + k] = i # [Suc i..<i + k]" using assms(2) by (simp add: upt_conv_Cons)
  then have "hd [i..<i + k] = i" by simp
  moreover have "[i..<i + k] \<noteq> []" "last [i..<i + k] = i + n" by (simp_all add: n)
  ultimately show ?thesis
    unfolding take_span_def assms(1) by (simp add: hd_map last_map line_span_def n del: upt_Suc)
qed

text \<open>One call of \<open>next\<close> on both sides.\<close>

lemma both_next:
  assumes sf: "same_file wire pfx bs ts es" and "consumed f \<le> length bs" "stream_at wire pfx es (consumed f) g"
  obtains r k g' where "csv_next line_feed d f (drop (consumed f) ts) = (r, f\<lparr>consumed := consumed f + k\<rparr>, drop (consumed f + k) ts)"
    "csv_next stream_feed d g (drop (consumed f) es) = (r, g', drop (consumed f + k) es)" "consumed f + k \<le> length bs"
    "feeder_at wire pfx (consumed f + k) g'" "sf_spans g' = map (line_span pfx bs) [consumed f..<consumed f + k]"
    "sf_tap g' = tap_at es (consumed f + k)" "r \<noteq> Inr None \<Longrightarrow> 0 < k" "r = Inr None \<Longrightarrow> consumed f + k = length bs"
proof -
  let ?i = "consumed f"
  note len = same_file_length [OF sf]
  obtain r k0 rest where c: "csv_next plain_feed d 0 (drop ?i ts) = (r, k0, rest)" using prod_cases3 by blast
  have g: "feeder_at wire pfx ?i g" "sf_spans g = []" "sf_tap g = tap_at es ?i" using assms(3) by (simp_all add: stream_at_def)
  from stream_next [OF sf assms(2) g(1) c] obtain g' where s: "rest = drop (?i + k0) ts" "?i + k0 \<le> length bs"
    "csv_next stream_feed d g (drop ?i es) = (r, g', drop (?i + k0) es)" "feeder_at wire pfx (?i + k0) g'"
    "sf_spans g' = sf_spans g @ map (line_span pfx bs) [?i..<?i + k0]"
    "sf_tap g' = (if k0 = 0 then sf_tap g else event_seen (es ! (?i + k0 - 1)))"
    by blast
  obtain k r' where l: "k \<le> length (drop ?i ts)" "csv_record d (drop ?i ts) = (r', drop k (drop ?i ts))"
    "csv_next line_feed d f (drop ?i ts) = (r', f\<lparr>consumed := consumed f + k\<rparr>, drop k (drop ?i ts))"
    using csv_next_record by blast
  have r': "r' = r" "drop k (drop ?i ts) = rest" using l(2) c by (simp_all add: csv_record_def)
  have "length (drop k (drop ?i ts)) = length (drop (?i + k0) ts)" using r'(2) s(1) by simp
  then have k: "k0 = k" using l(1) s(2) len by simp
  have pos: "0 < k" if "r \<noteq> Inr None"
    using csv_next_progress [OF l(3)] that l(1) by (simp add: r')
  have fin: "?i + k = length bs" if "r = Inr None"
  proof -
    have "rest = []" using csv_pull_None [OF c [unfolded that csv_next_def]] .
    then show ?thesis using s(1,2) len k by simp
  qed
  show ?thesis
    by (rule that [of r k g']) (use l(3) r' s g k pos fin in \<open>auto simp: tap_at_def add.commute\<close>)
qed

text \<open>The simulation: where the loop over the whole file ends without its clock, the other one ends alike.\<close>

lemma loops_agree:
  assumes sf: "same_file wire pfx bs ts es" and "lf_spans f = fst (line_spans wire pfx ts)"
    and "extract_loop d (extract_step h fdr m late) f (drop (consumed f) ts) s = Inr s'" "xs_reason s' \<noteq> Some ''time_limit''"
    and "pr_delimiter p = d" "pr_header p = xs_header s'" "pr_first_data_row p = fdr" "h < fdr"
    and "\<forall>i \<le> length bs. int (tap_at es i) \<le> max_bytes" "\<forall>n. \<not> expired n"
    and "consumed f \<le> length bs" "stream_at wire pfx es (consumed f) g" "agree s z" "xs_reason s = None"
  shows "\<exists>z' g' i stp. stream_loop p m max_bytes expired turn g (drop (consumed f) es) z = (z', g', stp) \<and> agree s' z'
    \<and> feeder_at wire pfx i g' \<and> sf_tap g' = tap_at es i \<and> i \<le> length bs
    \<and> stp = (if xs_reason s' = None then Ended else Stopped) \<and> (xs_reason s' = None \<longrightarrow> i = length bs)"
  using assms
proof (induction "length bs - consumed f" arbitrary: f g s z turn rule: less_induct)
  case less
  let ?i = "consumed f"
  note sf = less.prems(1) and loop = less.prems(3) and p = less.prems(5-8) and at = less.prems(12)
  have dt: "decodes_to wire bs ts" and ne: "[] \<notin> set bs" using sf by (simp_all add: same_file_def)
  have tap: "sf_tap g = tap_at es ?i" using at by (simp add: stream_at_def)
  from both_next [OF sf less.prems(11) at] obtain r k g' where
    n: "csv_next line_feed d f (drop ?i ts) = (r, f\<lparr>consumed := ?i + k\<rparr>, drop (?i + k) ts)"
      "csv_next stream_feed d g (drop ?i es) = (r, g', drop (?i + k) es)" "?i + k \<le> length bs"
    and g': "feeder_at wire pfx (?i + k) g'" "sf_spans g' = map (line_span pfx bs) [?i..<?i + k]" "sf_tap g' = tap_at es (?i + k)"
    and k: "r \<noteq> Inr None \<Longrightarrow> 0 < k" "r = Inr None \<Longrightarrow> ?i + k = length bs"
    by metis
  define f1 where "f1 = f\<lparr>consumed := ?i + k\<rparr>"
  have f1: "consumed f1 = ?i + k" "lf_spans f1 = lf_spans f" by (simp_all add: f1_def)
  note n1 = n(1) [folded f1_def]
  have go: "\<not> max_bytes < int (sf_tap g)" "\<not> expired turn" using less.prems(9,10,11) by (simp_all add: tap not_less)
  note stream = stream_loop.simps [of p m max_bytes expired turn g "drop ?i es" z, unfolded if_not_P [OF go(1)] if_not_P [OF go(2)] p(1) n(2)]
  note whole = extract_loop.simps [of d "extract_step h fdr m late" f "drop ?i ts" s, unfolded n1 Let_def]
  show ?case
  proof (cases r)
    case (Inl e)
    then show ?thesis using loop whole by simp
  next
    case (Inr found)
    show ?thesis
    proof (cases found)
      case None
      then have "s' = s" using loop whole Inr by simp
      then show ?thesis using stream None Inr k(2) g' n(3) less.prems(13,14)
        by (intro exI [of _ z] exI [of _ g'] exI [of _ "?i + k"] exI [of _ Ended]) simp
    next
      case (Some vs)
      then have r: "r = Inr (Some vs)" using Inr by simp
      then have pos: "0 < k" using k(1) by simp
      let ?a = "bytes_before pfx bs ?i" and ?b = "bytes_before pfx bs (?i + k)"
      have less_ab: "?a < ?b" using bytes_before_less [OF _ n(3) ne] pos by simp
      have sp: "feeder_span f1 ?i = (?a, ?b)"
        using feeder_span_eq [OF dt, of f1 pfx ?i] less.prems(2) n(3) pos by (simp add: f1)
      have ts: "take_span g' = (Some (?a, ?b), g'\<lparr>sf_spans := []\<rparr>)" using take_span_lines [OF g'(2) pos] .
      obtain s1 go_on where s1: "extract_step h fdr m late (?a, ?b) vs s = Inr (s1, go_on)"
        "(if go_on then extract_loop d (extract_step h fdr m late) f1 (drop (?i + k) ts) s1 else Inr s1) = Inr s'"
        using loop whole sp by (auto simp: r split: sum.splits)
      have reason: "xs_reason s1 \<noteq> Some ''time_limit''"
      proof (cases go_on)
        case True
        then show ?thesis using extract_step_cases [OF s1(1) less.prems(14)] by auto
      next
        case False
        then show ?thesis using s1(2) less.prems(4) by simp
      qed
      have header: "xs_header s = pr_header p" if "fdr \<le> int (Suc (xs_ordinal s))"
      proof -
        have "h \<le> int (xs_ordinal s)" using that p(4) by linarith
        then show ?thesis using extract_loop_header [OF loop] p(2) by simp
      qed
      obtain z1 where z1: "stream_record p m (Some (?a, ?b)) vs z = (z1, if go_on then None else Some Stopped)" "agree s1 z1"
        "go_on \<longleftrightarrow> xs_reason s1 = None"
        using step_agrees [OF s1(1) less.prems(13,14) reason less_ab p(3,4) header] by blast
      define g1 where "g1 = g'\<lparr>sf_spans := []\<rparr>"
      have g1: "stream_at wire pfx es (consumed f1) g1" using g' by (simp add: g1_def stream_at_def feeder_at_def f1)
      show ?thesis
      proof (cases go_on)
        case True
        then have l: "extract_loop d (extract_step h fdr m late) f1 (drop (consumed f1) ts) s1 = Inr s'" "xs_reason s1 = None"
          using s1(2) z1(3) by (simp_all add: f1)
        have "length bs - consumed f1 < length bs - ?i" using pos n(3) by (simp add: f1)
        then have "\<exists>z' g' i stp. stream_loop p m max_bytes expired (turn + 1) g1 (drop (consumed f1) es) z1 = (z', g', stp) \<and> agree s' z'
          \<and> feeder_at wire pfx i g' \<and> sf_tap g' = tap_at es i \<and> i \<le> length bs
          \<and> stp = (if xs_reason s' = None then Ended else Stopped) \<and> (xs_reason s' = None \<longrightarrow> i = length bs)"
          using less.hyps [OF _ sf _ l(1) less.prems(4) p less.prems(9,10) _ g1 z1(2) l(2)] less.prems(2) n(3) by (simp add: f1)
        moreover have "stream_loop p m max_bytes expired turn g (drop ?i es) z
            = stream_loop p m max_bytes expired (turn + 1) g1 (drop (consumed f1) es) z1"
          using stream True by (simp add: r ts z1(1) g1_def f1)
        ultimately show ?thesis by simp
      next
        case False
        have "s' = s1" using s1(2) False by simp
        moreover have "xs_reason s1 \<noteq> None" using z1(3) False by blast
        moreover have "stream_loop p m max_bytes expired turn g (drop ?i es) z = (z1, g1, Stopped)"
          using stream False by (simp add: r ts z1(1) g1_def)
        ultimately show ?thesis using z1(2) g1 n(3)
          by (intro exI [of _ z1] exI [of _ g1] exI [of _ "?i + k"] exI [of _ Stopped]) (auto simp: stream_at_def f1)
      qed
    qed
  qed
qed

section \<open>The events of a file\<close>

lemma event_line_cases: "is_line ev \<Longrightarrow> \<exists>seen. ev = Line (fst (event_line ev)) (snd (event_line ev)) seen"
  by (cases ev) simp_all

lemma nth_place_lines: "i < length ls \<Longrightarrow> place_lines offset ls ! i = (offset + length (concat (take i ls)), ls ! i)"
proof (induction ls arbitrary: offset i)
  case (Cons l ls)
  then show ?case by (cases i) (simp_all add: add.assoc)
qed simp

lemma length_place_lines [simp]: "length (place_lines offset ls) = length ls"
  by (induction ls arbitrary: offset) simp_all

lemma lines_at_prepend:
  assumes "nl \<notin> set pre" "lines_at nl body = l # ls"
  shows "lines_at nl (pre @ body) = (pre @ l) # ls"
proof (cases "nl \<in> set body")
  case True
  then obtain post where b: "body = takeWhile (\<lambda>c. c \<noteq> nl) body @ nl # post" using takeWhile_split by fast
  define k where "k = takeWhile (\<lambda>c. c \<noteq> nl) body"
  have nk: "nl \<notin> set k" unfolding k_def by (auto dest: set_takeWhileD)
  have b': "body = k @ nl # post" using b by (simp add: k_def)
  have "lines_at nl body = (k @ [nl]) # lines_at nl post" using lines_at_line [OF nk] by (simp add: b')
  moreover have "lines_at nl (pre @ body) = (pre @ k @ [nl]) # lines_at nl post"
    using lines_at_line [of nl "pre @ k" post] nk assms(1) by (simp add: b')
  ultimately show ?thesis using assms(2) by simp
next
  case False
  then have "body \<noteq> []" using assms(2) by auto
  then have "lines_at nl body = [body]" using False by (simp add: lines_at_last)
  moreover have "lines_at nl (pre @ body) = [pre @ body]" using False assms(1) \<open>body \<noteq> []\<close> by (intro lines_at_last) simp_all
  ultimately show ?thesis using assms(2) by simp
qed

lemma file_events:
  assumes "map event_line es = place_lines 0 (lines_at chr_nl payload)" "list_all is_line es"
    and "pfx = 0 \<or> pfx = length UTF8_BOM \<and> starts_with UTF8_BOM payload"
    and bs: "bs = lines_at chr_nl (drop pfx payload)" and "bs \<noteq> []" "decodes_to wire bs ts" "CHR 0x00 \<notin> set payload"
  shows "same_file wire pfx bs ts es"
proof -
  have lines: "lines_at chr_nl payload = (if pfx = 0 then bs else (UTF8_BOM @ hd bs) # tl bs)"
  proof (cases "pfx = 0")
    case False
    then have p: "pfx = length UTF8_BOM" "payload = UTF8_BOM @ drop pfx payload"
      using assms(3) append_take_drop_id [of "length UTF8_BOM" payload] by (auto simp: starts_with_def)
    have "lines_at chr_nl (UTF8_BOM @ drop pfx payload) = (UTF8_BOM @ hd bs) # tl bs"
      by (rule lines_at_prepend) (use assms(5) in \<open>simp_all add: UTF8_BOM_def bs [symmetric]\<close>)
    then show ?thesis using False p(2) by simp
  qed (simp add: bs)
  have "length (map event_line es) = length (place_lines 0 (lines_at chr_nl payload))" by (simp only: assms(1))
  then have len: "length es = length bs" using lines assms(5) by (auto split: if_splits)
  have "event_at pfx bs i (es ! i)" if i: "i < length bs" for i
  proof -
    have "event_line (es ! i) = place_lines 0 (lines_at chr_nl payload) ! i"
      using assms(1) i len by (metis nth_map)
    also have "\<dots> = (length (concat (take i (lines_at chr_nl payload))), lines_at chr_nl payload ! i)"
      using i lines assms(5) by (subst nth_place_lines) (auto split: if_splits)
    also have "\<dots> = (if i = 0 \<and> pfx \<noteq> 0 then (0, UTF8_BOM @ bs ! 0) else (bytes_before pfx bs i, bs ! i))"
    proof (cases "pfx = 0")
      case True
      then show ?thesis by (simp add: lines bytes_before_def)
    next
      case False
      then have p: "pfx = length UTF8_BOM" using assms(3) by simp
      obtain b bs' where "bs = b # bs'" using assms(5) by (cases bs) simp_all
      then show ?thesis using False by (cases i) (simp_all add: lines bytes_before_def p)
    qed
    finally show ?thesis using assms(2) i len by (simp add: event_at_def list_all_iff)
  qed
  moreover have "CHR 0x00 \<notin> set (bs ! i)" if "i < length bs" for i
  proof -
    have "set (bs ! i) \<subseteq> set (concat bs)" using nth_mem [OF that] by auto
    moreover have "concat bs = drop pfx payload" by (simp add: bs)
    ultimately have "set (bs ! i) \<subseteq> set payload" using set_drop_subset [of pfx payload] by simp
    then show ?thesis using assms(7) by blast
  qed
  moreover have "[] \<notin> set bs" unfolding bs using lines_at_nonempty by fastforce
  ultimately show ?thesis using assms(3,6) len by (auto simp: same_file_def)
qed

section \<open>The readings agree\<close>

text \<open>
  What ties a preamble to an extraction, a hypothesis and no part of the code: the preamble names the codec that the whole file is read
  with. \<open>sniff\<close> finds such a preamble when the head of the file decides the codec (\<open>sniffed_preamble_fits\<close>);
  where the first character beyond ASCII comes behind the head, \<open>_promote\<close> chooses by a single line what
  \<open>decode\<close> chooses by the whole file, and the two readings may differ.
\<close>

definition preamble_fits :: "preamble \<Rightarrow> extraction \<Rightarrow> bytes \<Rightarrow> bool" where
  "preamble_fits p e payload = ((pr_wire p, pr_prefix p) = wire_encoding (ex_encoding e) payload
     \<and> pr_delimiter p = ex_delimiter e \<and> pr_header p = ex_header e \<and> pr_first_data_row p = ex_first_data_row e)"

lemma extract_first_data:
  "extract_file payload h first_data m late dl = Inr e \<Longrightarrow> h < ex_first_data_row e"
  unfolding extract_file_def Let_def check_arguments_def
  by (auto simp: rbind_Inr_iff extraction_of_def split: if_splits)

lemma extract_loop_data:
  assumes "extract_loop d (extract_step h fdr m late) f ls start_state = Inr s"
  shows "xs_emitted s = count_data fdr (xs_rows s)"
proof -
  have step: "xs_emitted s' = count_data fdr (xs_rows s')"
    if "xs_emitted s = count_data fdr (xs_rows s)" "extract_step h fdr m late sp vs s = Inr (s', b)" for sp vs s s' b
    using that unfolding extract_step_def Let_def by (auto simp: rbind_Inr_iff count_data_def split: if_splits)
  show ?thesis
    by (rule extract_loop_inv [OF assms, of "\<lambda>s. xs_emitted s = count_data fdr (xs_rows s)"])
      (use step in \<open>simp_all add: start_state_def count_data_def\<close>)
qed

text \<open>The byte limit and the clock do nothing but stop the loop early.\<close>

lemma stream_record_rows:
  assumes "stream_record p m sp vs s = (s', stp)"
  shows "prefix (ss_rows s) (ss_rows s') \<and> (so_records (ss_report s) = length (ss_rows s) \<longrightarrow> so_records (ss_report s') = length (ss_rows s'))"
  using assms unfolding stream_record_def Let_def
  by (auto simp: settle_as_def emit_row_def Let_def split: if_splits sum.splits)

lemma stream_loop_rows:
  "stream_loop p m mb ex turn f es s = (s', f', stp) \<Longrightarrow> prefix (ss_rows s) (ss_rows s')"
proof (induction p m mb ex turn f es s arbitrary: s' f' stp rule: stream_loop.induct)
  case (1 p m mb ex turn f es s)
  show ?case
  proof (cases "mb < int (sf_tap f) \<or> ex turn")
    case True
    then show ?thesis using "1.prems" by (auto simp: stream_loop.simps [of p m mb ex turn f es s] settle_as_def split: if_splits)
  next
    case False
    then have go: "\<not> mb < int (sf_tap f)" "\<not> ex turn" by simp_all
    obtain r g rest where n: "csv_next stream_feed (pr_delimiter p) f es = (r, g, rest)" using prod_cases3 by blast
    note run = "1.prems" [unfolded stream_loop.simps [of p m mb ex turn f es s] if_not_P [OF go(1)] if_not_P [OF go(2)] n prod.case]
    show ?thesis
    proof (cases "\<exists>vs. r = Inr (Some vs)")
      case False
      then show ?thesis
        using run by (auto simp: stream_failure_def settle_as_def split: sum.splits option.splits exn.splits)
    next
      case True
      then obtain vs where r: "r = Inr (Some vs)" by blast
      obtain sp g1 where sp: "take_span g = (sp, g1)" by fastforce
      obtain s1 st where rec: "stream_record p m sp vs s = (s1, st)" by fastforce
      note first = stream_record_rows [OF rec, THEN conjunct1]
      show ?thesis
      proof (cases st)
        case None
        then have "stream_loop p m mb ex (turn + 1) g1 rest s1 = (s', f', stp)" using run by (simp add: r sp rec)
        from "1.IH" [OF go n [symmetric] r refl refl sp [symmetric] rec [unfolded None, symmetric] refl this] first
        show ?thesis by (rule prefix_order.trans [rotated])
      next
        case (Some x)
        then show ?thesis using run first by (simp add: r sp rec)
      qed
    qed
  qed
qed

definition cut_short :: "stream_state \<Rightarrow> stop \<Rightarrow> bool" where
  "cut_short s stp = (so_reason (ss_report s) \<in> {Some ''byte_limit'', Some ''time_limit''} \<and> so_state (ss_report s) = ''truncated''
     \<and> so_records (ss_report s) = length (ss_rows s) \<and> stp = Stopped)"

lemma limits_only_cut:
  "mb \<le> mb' \<Longrightarrow> so_records (ss_report s) = length (ss_rows s)
    \<Longrightarrow> stream_loop p m mb ex turn f es s = (s1, f1, stp1) \<Longrightarrow> stream_loop p m mb' (\<lambda>_. False) turn f es s = (s2, f2, stp2)
    \<Longrightarrow> (s1, f1, stp1) = (s2, f2, stp2) \<or> (cut_short s1 stp1 \<and> prefix (ss_rows s1) (ss_rows s2))"
proof (induction p m mb ex turn f es s arbitrary: s1 f1 stp1 s2 f2 stp2 rule: stream_loop.induct)
  case (1 p m mb ex turn f es s)
  show ?case
  proof (cases "mb < int (sf_tap f) \<or> ex turn")
    case True
    then show ?thesis
      using "1.prems"(2,3) stream_loop_rows [OF "1.prems"(4)]
      by (auto simp: stream_loop.simps [of p m mb ex turn f es s] cut_short_def settle_as_def split: if_splits)
  next
    case False
    then have go: "\<not> mb < int (sf_tap f)" "\<not> ex turn" "\<not> mb' < int (sf_tap f)" using "1.prems"(1) by simp_all
    obtain r g rest where n: "csv_next stream_feed (pr_delimiter p) f es = (r, g, rest)" using prod_cases3 by blast
    note run = "1.prems"(3) [unfolded stream_loop.simps [of p m mb ex turn f es s] if_not_P [OF go(1)] if_not_P [OF go(2)] n prod.case]
    note free = "1.prems"(4) [unfolded stream_loop.simps [of p m mb' "\<lambda>_. False" turn f es s] if_not_P [OF go(3)] if_False n prod.case]
    show ?thesis
    proof (cases "\<exists>vs. r = Inr (Some vs)")
      case False
      then show ?thesis using run free by (auto split: sum.splits option.splits)
    next
      case True
      then obtain vs where r: "r = Inr (Some vs)" by blast
      obtain sp g1 where sp: "take_span g = (sp, g1)" by fastforce
      obtain s' st where rec: "stream_record p m sp vs s = (s', st)" by fastforce
      have s': "so_records (ss_report s') = length (ss_rows s')" using stream_record_rows [OF rec] "1.prems"(2) by blast
      show ?thesis
      proof (cases st)
        case None
        then have "stream_loop p m mb ex (turn + 1) g1 rest s' = (s1, f1, stp1)"
          "stream_loop p m mb' (\<lambda>_. False) (turn + 1) g1 rest s' = (s2, f2, stp2)"
          using run free by (simp_all add: r sp rec)
        from "1.IH" [OF go(1,2) n [symmetric] r refl refl sp [symmetric] rec [unfolded None, symmetric] refl "1.prems"(1) s' this]
        show ?thesis .
      next
        case (Some x)
        then show ?thesis using run free by (simp add: r sp rec)
      qed
    qed
  qed
qed

text \<open>C21. Let a file without NUL bytes be readable as a whole, within its own deadline, in the codec that the preamble
  names. Read incrementally, in chunks of any size, under any byte limit and any clock, it gives a prefix of
  the rows of the whole reading. Either the reading says that it was truncated by the byte limit or the clock, and the file
  is over that limit or the clock did expire; or the rows are those of the whole reading, with the same coordinates and counts and the same
  reason for stopping, and the digest it reports is, when nothing stopped it, the one of the file.\<close>

theorem incremental_reading_agrees:
  assumes "extract_file payload header_row first_data max_rows late delimiter = Inr e" "ex_reason e \<noteq> Some ''time_limit''"
    and "preamble_fits p e payload" "good_reader reader" "reader_bytes reader = payload" "CHR 0x00 \<notin> set payload"
    and "artifact_sha256 = [] \<or> artifact_sha256 = sha (byte_values payload)"
  shows "\<exists>rows out. stream_records sha reader p artifact_sha256 max_rows max_bytes expired = (rows, out, None)
    \<and> prefix rows (ex_rows e) \<and> so_records out = length rows
    \<and> (so_state out = ''truncated'' \<and> so_reason out \<in> {Some ''byte_limit'', Some ''time_limit''}
         \<and> (max_bytes < int (length payload) \<or> (\<exists>n. expired n))
       \<or> rows = ex_rows e
         \<and> so_state out = (if ex_truncated e then ''truncated'' else ''complete'') \<and> so_reason out = ex_reason e
         \<and> so_data_rows out = length (data_rows e None) \<and> so_ragged out = ex_ragged e
         \<and> so_encoding out = pr_wire p \<and> (\<not> ex_truncated e \<longrightarrow> so_object_digest out = sha (byte_values payload)))"
proof -
  obtain content wire pfx s where x: "decode payload = Inr (content, ex_encoding e)"
    "wire_encoding (ex_encoding e) payload = (wire, pfx)"
    "extract_loop (ex_delimiter e) (extract_step header_row (ex_first_data_row e) max_rows late)
       (new_feeder content wire pfx) (lf_lines content) start_state = Inr s"
    and e: "ex_rows e = xs_rows s" "ex_reason e = xs_reason s" "ex_truncated e = (xs_reason s \<noteq> None)"
      "ex_header e = xs_header s" "ex_ragged e = xs_ragged s" "check_extraction e = Inr ()"
    by (rule extract_file_parts [OF assms(1)])
  have p: "pr_wire p = wire" "pr_prefix p = pfx" "pr_delimiter p = ex_delimiter e" "pr_header p = xs_header s"
    "pr_first_data_row p = ex_first_data_row e"
    using assms(3) x(2) by (simp_all add: preamble_fits_def e)
  let ?bs = "lines_at chr_nl (drop pfx payload)" and ?ts = "lf_lines content" and ?f = "new_feeder content wire pfx"
  have dt: "decodes_to wire ?bs ?ts" using decode_wire(1) [OF x(1,2)] by (rule decodes_lines)
  have "?ts \<noteq> []"
  proof
    assume "?ts = []"
    then have "s = start_state" using x(3) by (simp add: extract_loop.simps csv_next_def csv_reset_def csv_finish_def)
    then show False using e(4,6) by (simp add: check_extraction_def start_state_def)
  qed
  then have ne: "?bs \<noteq> []" using dt by auto
  obtain es tap where b: "byte_lines READ_CHUNK (new_tap reader) 0 [] = (es, tap)" by fastforce
  have spec: "map event_line es = place_lines 0 (lines_at chr_nl payload)" "list_all is_line es" "tap_seen tap = payload"
    "list_all (\<lambda>ev. event_seen ev \<le> length payload) es" "es \<noteq> [] \<longrightarrow> event_seen (last es) = length payload"
    using byte_lines_spec [OF _ _ _ b] assms(4,5) by (auto simp: new_tap_def READ_CHUNK_def)
  have pre: "pfx = 0 \<or> pfx = length UTF8_BOM \<and> starts_with UTF8_BOM payload"
    using x(2) by (auto simp: wire_encoding_def split: if_splits)
  have sf: "same_file wire pfx ?bs ?ts es"
    by (rule file_events [OF spec(1,2) pre refl ne dt assms(6)])
  have len: "length es = length ?bs" using same_file_length [OF sf] by simp
  define enough where "enough = max max_bytes (int (length payload))"
  have small: "\<forall>i. i \<le> length ?bs \<longrightarrow> int (tap_at es i) \<le> enough"
    using spec(4) len by (auto simp: enough_def tap_at_def list_all_length intro: order_trans [of _ "int (length payload)"])
  have at: "stream_at wire pfx es (consumed ?f) (new_stream_feeder p)"
    by (simp add: stream_at_def feeder_at_def new_stream_feeder_def p tap_at_def)
  obtain z f i stp where run: "stream_loop p max_rows enough (\<lambda>_. False) 0 (new_stream_feeder p) es start_stream = (z, f, stp)"
    "agree s z" "feeder_at wire pfx i f" "sf_tap f = tap_at es i" "stp = (if xs_reason s = None then Ended else Stopped)"
    "xs_reason s = None \<longrightarrow> i = length ?bs"
    using loops_agree [OF sf _ _ _ p(3-5) extract_first_data [OF assms(1)] small _ _ at agree_start, of max_rows late "\<lambda>_. False" 0] x(3) assms(2)
    by (auto simp: e start_state_def)
  obtain z1 f1 stp1 where actual: "stream_loop p max_rows max_bytes expired 0 (new_stream_feeder p) es start_stream = (z1, f1, stp1)"
    using prod_cases3 by blast
  have in_time: "(z1, f1, stp1) = (z, f, stp)" if "\<not> (max_bytes < int (length payload) \<or> (\<exists>n. expired n))"
  proof -
    have "enough = max_bytes" "expired = (\<lambda>_. False)" using that by (auto simp: enough_def)
    then show ?thesis using actual run(1) by simp
  qed
  have cut: "(z1, f1, stp1) = (z, f, stp) \<or> (cut_short z1 stp1 \<and> prefix (ss_rows z1) (ss_rows z))"
    by (rule limits_only_cut [OF _ _ actual run(1)]) (simp_all add: enough_def start_stream_def new_outcome_def)
  have data: "xs_emitted s = length (data_rows e None)"
    using extract_loop_data [OF x(3)] by (simp add: data_rows_def Let_def count_data_def e)
  show ?thesis
  proof (cases "(z1, f1, stp1) = (z, f, stp)")
    case True
    define digest where "digest = sha (byte_values (take (sf_tap f) (tap_seen tap)))"
    have whole: "digest = sha (byte_values payload)" if "xs_reason s = None"
      using that run(4,6) spec(3,5) ne len by (auto simp: digest_def tap_at_def last_conv_nth)
    have some: "data_rows e None \<noteq> []" if "xs_reason s = None"
      using e(6) that by (auto simp: check_extraction_def e(3) split: if_splits)
    have final: "check_stream digest artifact_sha256 z stp = (z, None)"
      using run(2,5) whole some data assms(7) by (auto simp: check_stream_def agree_def)
    have "stream_loop p max_rows max_bytes expired 0 (new_stream_feeder p) es start_stream = (z, f, stp)" using actual True by simp
    then show ?thesis
      unfolding stream_records_def b prod.case Let_def
      using run(2,3) whole data
      by (simp add: digest_def [symmetric] final mark_failure_def agree_def e p feeder_at_def)
  next
    case False
    then have short: "cut_short z1 stp1" "prefix (ss_rows z1) (ex_rows e)" using cut run(2) by (auto simp: agree_def e(1))
    have over: "max_bytes < int (length payload) \<or> (\<exists>n. expired n)" using in_time False by blast
    have final: "check_stream digest artifact_sha256 z1 stp1 = (z1, None)" for digest
      using short(1) by (simp add: check_stream_def cut_short_def)
    show ?thesis
      unfolding stream_records_def b prod.case actual Let_def final
      using short over by (simp add: mark_failure_def cut_short_def)
  qed
qed

section \<open>What the head of the file says\<close>

lemma extract_step_moves:
  "extract_step h fdr m late sp vs s = Inr (s', go_on) \<Longrightarrow> xs_ordinal s' = Suc (xs_ordinal s)
    \<and> xs_header s' = (if int (Suc (xs_ordinal s)) = h then header_of vs else xs_header s)"
  unfolding extract_step_def Let_def by (auto simp: rbind_Inr_iff split: if_splits)

lemma extract_loop_finds_header:
  "extract_loop d (extract_step h fdr m late) f ls s = Inr s' \<Longrightarrow> xs_header s' \<noteq> [] \<Longrightarrow> xs_header s = []
    \<Longrightarrow> int (xs_ordinal s) < h
    \<Longrightarrow> \<exists>vs. nth_record d (nat h - xs_ordinal s) ls = Inr (Some vs) \<and> xs_header s' = header_of vs"
proof (induction "length ls" arbitrary: f ls s rule: less_induct)
  case less
  obtain k r where k: "k \<le> length ls" "csv_record d ls = (r, drop k ls)"
    "csv_next line_feed d f ls = (r, f\<lparr>consumed := consumed f + k\<rparr>, drop k ls)"
    using csv_next_record by blast
  define f' where "f' = f\<lparr>consumed := consumed f + k\<rparr>"
  note whole = extract_loop.simps [of d "extract_step h fdr m late" f ls s, unfolded k(3) [folded f'_def] Let_def]
  obtain vs where r: "r = Inr (Some vs)"
    using less.prems(1-3) whole by (cases r) (auto split: option.splits)
  obtain s1 go_on where s1: "extract_step h fdr m late (feeder_span f' (consumed f)) vs s = Inr (s1, go_on)"
    "(if go_on then extract_loop d (extract_step h fdr m late) f' (drop k ls) s1 else Inr s1) = Inr s'"
    using less.prems(1) whole by (auto simp: r split: sum.splits)
  note move = extract_step_moves [OF s1(1)]
  obtain n where n: "nat h - xs_ordinal s = Suc n" using less.prems(4) by (metis zless_nat_eq_int_zless Suc_diff_Suc)
  show ?case
  proof (cases "int (Suc (xs_ordinal s)) = h")
    case True
    have "xs_header s' = xs_header s1"
    proof (cases go_on)
      case True
      then show ?thesis using s1(2) extract_loop_header [of d h fdr m late f' "drop k ls" s1 s'] move \<open>int (Suc (xs_ordinal s)) = h\<close> by simp
    next
      case False
      then show ?thesis using s1(2) by simp
    qed
    moreover have "n = 0" using n True by simp
    ultimately show ?thesis using move True n by (simp add: k(2) r)
  next
    case False
    then have s1': "xs_header s1 = []" "int (xs_ordinal s1) < h" using move less.prems(3,4) by auto
    have loop: "extract_loop d (extract_step h fdr m late) f' (drop k ls) s1 = Inr s'"
      using s1(2) s1'(1) less.prems(2) by (auto split: if_splits)
    have "length (drop k ls) < length ls" using csv_next_progress [OF k(3)] by (simp add: r)
    then obtain us where "nth_record d (nat h - xs_ordinal s1) (drop k ls) = Inr (Some us)" "xs_header s' = header_of us"
      using less.hyps [OF _ loop less.prems(2) s1'] by blast
    moreover have "nat h - xs_ordinal s1 = n" "n \<noteq> 0" using move n s1'(2) by linarith+
    ultimately show ?thesis by (simp add: n k(2) r)
  qed
qed

lemma fill_window_small:
  "good_store store \<Longrightarrow> length head + length (store_bytes store) < window \<Longrightarrow>
    \<exists>rest. fill_window window head store = (Inr (head @ store_bytes store), rest) \<and> good_store rest \<and> store_bytes rest = []"
proof (induction window head store rule: fill_window.induct)
  case (1 window head store)
  have w: "\<not> window \<le> length head" using "1.prems"(2) by simp
  obtain b rest where r: "store_read (window - length head) store = (Inr b, rest)" "good_store rest"
    "store_bytes store = b @ store_bytes rest" "b = [] \<longrightarrow> store_bytes store = []"
    using store_read_bytes [OF "1.prems"(1), of "window - length head"] w by auto
  show ?case
  proof (cases "b = []")
    case True
    then show ?thesis using r w by (simp add: fill_window.simps [of window])
  next
    case False
    then show ?thesis
      using "1.IH" [OF w r(1) [symmetric] refl False r(2)] r "1.prems"(2) w by (simp add: fill_window.simps [of window head store])
  qed
qed

text \<open>For a file shorter than the sniffing window that does not begin with a byte order mark in another
  codec, \<open>sniff\<close> finds the preamble that fits the reading of the whole file, and the reader it hands on
  still has all its bytes.\<close>

theorem sniffed_preamble_fits:
  assumes "extract_file payload header_row None max_rows late delimiter = Inr e"
    and "good_store store" "store_bytes store = payload" "length payload < SNIFF_WINDOW"
    and "starts_with UTF8_BOM payload \<Longrightarrow> ex_encoding e = ''utf-8-sig''"
  shows "\<exists>p reader. sniff store header_row delimiter = Inr (p, reader) \<and> preamble_fits p e payload
    \<and> good_reader reader \<and> reader_bytes reader = payload"
proof -
  let ?fdr = "header_row + 1"
  obtain content encoding d s where x: "check_arguments payload header_row ?fdr = Inr ()" "decode_content payload = Inr (content, encoding)"
    "choose_delimiter content header_row delimiter = Inr d"
    "extract_loop d (extract_step header_row ?fdr max_rows late)
       (new_feeder content (fst (wire_encoding encoding payload)) (snd (wire_encoding encoding payload)))
       (lf_lines content) start_state = Inr s"
    "e = extraction_of encoding d header_row ?fdr s" "check_extraction e = Inr ()"
    using assms(1) unfolding extract_file_def Let_def first_data_of_def by (auto simp: rbind_Inr_iff)
  have h: "1 \<le> header_row" using x(1) by (auto simp: check_arguments_def split: if_splits)
  have header: "xs_header s \<noteq> []" using x(5,6) by (auto simp: check_extraction_def extraction_of_def split: if_splits)
  obtain vs where vs: "nth_record d (nat header_row) (lf_lines content) = Inr (Some vs)" "xs_header s = header_of vs"
    using extract_loop_finds_header [OF x(4) header] h by (auto simp: start_state_def)
  have "decode payload = Inr (content, encoding)"
    using x(2) by (auto simp: decode_content_def split: sum.splits if_splits)
  then have dt: "decodes_to (fst (wire_encoding encoding payload))
      (lines_at chr_nl (drop (snd (wire_encoding encoding payload)) payload)) (lf_lines content)"
    using decode_wire(1) [OF _ surjective_pairing] decodes_lines by blast
  have "payload \<noteq> []"
  proof
    assume "payload = []"
    then have "lf_lines content = []" using dt by simp
    then show False using vs(1) h by (cases "nat header_row") (simp_all add: csv_record_def csv_next_def csv_reset_def csv_finish_def)
  qed
  obtain rest where w: "fill_window SNIFF_WINDOW [] store = (Inr payload, rest)" "good_store rest" "store_bytes rest = []"
    using fill_window_small [OF assms(2), of "[]" SNIFF_WINDOW] assms(3,4) by auto
  have sample: "sniff_sample payload = payload" using assms(4) by (simp add: sniff_sample_def)
  let ?p = "\<lparr>pr_encoding = encoding, pr_wire = (if encoding = ''utf-8-sig'' then ''utf-8'' else encoding), pr_delimiter = d,
    pr_header = header_of vs, pr_header_row = header_row, pr_first_data_row = ?fdr,
    pr_prefix = (if starts_with UTF8_BOM payload then length UTF8_BOM else 0)\<rparr>"
  have "preamble_of payload header_row delimiter = Inr ?p"
    using header vs(2) by (simp add: preamble_of_def sample x(2,3) vs(1) Let_def)
  then have "sniff store header_row delimiter = Inr (?p, \<lparr>hr_head = payload, hr_offset = 0, hr_rest = Some rest\<rparr>)"
    using h \<open>payload \<noteq> []\<close> by (simp add: sniff_def w(1))
  moreover have "preamble_fits ?p e payload"
    using assms(5) vs(2) by (auto simp: preamble_fits_def x(5) extraction_of_def wire_encoding_def)
  ultimately show ?thesis using w(2,3)
    by (intro exI [of _ ?p] exI [of _ "\<lparr>hr_head = payload, hr_offset = 0, hr_rest = Some rest\<rparr>"])
      (simp add: good_reader_def reader_bytes_def)
qed

section \<open>The small file again\<close>

lemma extract_without_clock:
  assumes "extract_file payload h first_data m (\<lambda>_. False) dl = Inr e"
  shows "ex_reason e \<noteq> Some ''time_limit''"
proof -
  obtain content wire pfx s where loop: "extract_loop (ex_delimiter e) (extract_step h (ex_first_data_row e) m (\<lambda>_. False))
      (new_feeder content wire pfx) (lf_lines content) start_state = Inr s" and r: "ex_reason e = xs_reason s"
    by (rule extract_file_parts [OF assms])
  have step: "xs_reason s' \<noteq> Some ''time_limit''" if "xs_reason s \<noteq> Some ''time_limit''"
    "extract_step h (ex_first_data_row e) m (\<lambda>_. False) sp vs s = Inr (s', b)" for sp vs s s' b
    using that unfolding extract_step_def Let_def by (auto simp: rbind_Inr_iff split: if_splits)
  show ?thesis unfolding r
    by (rule extract_loop_inv [OF loop, of "\<lambda>s. xs_reason s \<noteq> Some ''time_limit''"])
      (use step in \<open>simp_all add: start_state_def\<close>)
qed

text \<open>The file of the other witnesses, handed out in two pieces.\<close>

definition small_store :: store where
  "small_store = [Inr (take 3 small_file), Inr (drop 3 small_file)]"

lemma small_store_good: "good_store small_store" "store_bytes small_store = small_file"
  by (simp_all add: small_store_def good_store_def store_bytes_def small_file_def)

lemma small_file_facts: "\<not> starts_with UTF8_BOM small_file" "CHR 0x00 \<notin> set small_file" "length small_file = 7"
  by (simp_all add: small_file_def UTF8_BOM_def starts_with_def)

theorem sniffed_preamble_fits_witness:
  "\<exists>e p reader. extract_file small_file 1 None 10 (\<lambda>_. False) None = Inr e
    \<and> sniff small_store 1 None = Inr (p, reader) \<and> preamble_fits p e small_file"
proof -
  obtain e where e: "extract_file small_file 1 None 10 (\<lambda>_. False) None = Inr e" using small_file_extract by blast
  from sniffed_preamble_fits [OF e small_store_good] small_file_facts e show ?thesis by (auto simp: SNIFF_WINDOW_def)
qed

theorem incremental_reading_agrees_witness:
  "\<exists>e p reader out. extract_file small_file 1 None 10 (\<lambda>_. False) None = Inr e
    \<and> stream_records (\<lambda>bs. ''digest'') reader p ''digest'' 10 100 (\<lambda>_. False) = (ex_rows e, out, None)
    \<and> so_records out = length (ex_rows e) \<and> reader_bytes reader = small_file"
proof -
  obtain e where e: "extract_file small_file 1 None 10 (\<lambda>_. False) None = Inr e" using small_file_extract by blast
  define p where "p = \<lparr>pr_encoding = ex_encoding e, pr_wire = fst (wire_encoding (ex_encoding e) small_file),
    pr_delimiter = ex_delimiter e, pr_header = ex_header e, pr_header_row = 1, pr_first_data_row = ex_first_data_row e,
    pr_prefix = snd (wire_encoding (ex_encoding e) small_file)\<rparr>"
  have p: "preamble_fits p e small_file" by (simp add: preamble_fits_def p_def)
  define reader where "reader = \<lparr>hr_head = take 3 small_file, hr_offset = 0, hr_rest = Some [Inr (drop 3 small_file)]\<rparr>"
  have r: "good_reader reader" "reader_bytes reader = small_file"
    by (simp_all add: reader_def good_reader_def good_store_def reader_bytes_def store_bytes_def small_file_def)
  from incremental_reading_agrees [OF e extract_without_clock [OF e] p r small_file_facts(2), of "''digest''" "\<lambda>bs. ''digest''" 100 "\<lambda>_. False"]
  obtain out where "stream_records (\<lambda>bs. ''digest'') reader p ''digest'' 10 100 (\<lambda>_. False) = (ex_rows e, out, None)"
    "so_records out = length (ex_rows e)"
    using small_file_facts(3) by auto
  then show ?thesis using e r(2) by blast
qed

section \<open>Errors of the feeder\<close>

text \<open>A control byte in the first line stops the reading with an exception, but the outcome, which is filled while
  reading, still says the reading is complete: only malformed records and other exceptions change it.\<close>

lemma control_bytes_leave_complete:
  assumes "byte_lines READ_CHUNK (new_tap reader) 0 [] = (Line 0 l seen # es, tap)" "CHR 0x00 \<in> set l" "\<not> starts_with UTF8_BOM l"
    and "0 \<le> max_bytes" "\<not> expired 0"
  shows "\<exists>out. stream_records sha reader p artifact_sha256 max_rows max_bytes expired
      = ([], out, Some (ExtractionError ''the artifact contains control bytes and is not text'')) \<and> so_state out = ''complete''"
proof -
  let ?f = "new_stream_feeder p"
  have feed: "stream_feed ?f (Line 0 l seen) = (Inl (ExtractionError ''the artifact contains control bytes and is not text''),
      ?f\<lparr>sf_first := False, sf_spans := [(0, length l)], sf_bytes_read := length l, sf_tap := seen\<rparr>)"
    using assms(2,3) by (simp add: stream_feed_def decode_raw_def new_stream_feeder_def Let_def)
  have "stream_loop p max_rows max_bytes expired 0 ?f (Line 0 l seen # es) start_stream
    = (start_stream, ?f\<lparr>sf_first := False, sf_spans := [(0, length l)], sf_bytes_read := length l, sf_tap := seen\<rparr>,
       Raised (ExtractionError ''the artifact contains control bytes and is not text''))"
    using assms(4,5) unfolding stream_loop.simps [of p max_rows max_bytes expired 0]
    by (simp add: csv_next_def feed stream_failure_def) (simp add: new_stream_feeder_def)
  then show ?thesis
    by (simp add: stream_records_def assms(1) check_stream_def mark_failure_def is_extraction_error_def start_stream_def new_outcome_def Let_def)
qed

section \<open>The loops of the reader end\<close>

text \<open>
  The two \<open>while True\<close> loops of \<open>_byte_lines\<close> as they are written, with no measure: a loop that does not end has the
  value \<open>None\<close>. The inner one cuts complete lines off the buffer, the outer one reads until a chunk is empty.
\<close>

partial_function (option) split_loop :: "nat \<Rightarrow> bytes \<Rightarrow> ((nat \<times> bytes) list \<times> nat \<times> bytes) option" where
  "split_loop offset buffer =
     (let index = length (takeWhile (\<lambda>c. c \<noteq> chr_nl) buffer) in
      if index = length buffer then Some ([], offset, buffer)
      else let line = take (index + 1) buffer in
        Option.bind (split_loop (offset + length line) (drop (index + 1) buffer))
          (\<lambda>(ls, o', b'). Some ((offset, line) # ls, o', b')))"

partial_function (option) read_loop :: "nat \<Rightarrow> raw_tap \<Rightarrow> nat \<Rightarrow> bytes \<Rightarrow> (line_event list \<times> raw_tap) option" where
  "read_loop n t offset buffer = (case tap_read n t of
     (Inl e, t') \<Rightarrow> Some ([Broken e (length (tap_seen t'))], t')
   | (Inr chunk, t') \<Rightarrow>
       if chunk = [] then Some (if buffer \<noteq> [] then [Line offset buffer (length (tap_seen t'))] else [], t')
       else Option.bind (split_loop offset (buffer @ chunk)) (\<lambda>(ls, offset', buffer').
         Option.bind (read_loop n t' offset' buffer') (\<lambda>(events, t'').
           Some (map (\<lambda>(offs, line). Line offs line (length (tap_seen t'))) ls @ events, t''))))"

lemma split_loop_ends: "split_loop offset buffer = Some (take_lines offset buffer)"
proof (induction offset buffer rule: take_lines.induct)
  case (1 offset buffer)
  then show ?case
    by (subst split_loop.simps, subst take_lines.simps) (auto simp: Let_def split: prod.splits)
qed

text \<open>C20. The loops that read a stored object line by line return for every object, whatever its reads give
  (short pieces, failures) and whatever the chunk size, and return what the recursive definition says.\<close>

theorem reading_ends: "read_loop n t offset buffer = Some (byte_lines n t offset buffer)"
proof (induction n t offset buffer rule: byte_lines.induct)
  case (1 n t offset buffer)
  show ?case
  proof (cases "tap_read n t")
    case (Pair piece t')
    show ?thesis
    proof (cases piece)
      case (Inl e)
      then show ?thesis by (simp add: read_loop.simps [of n t] byte_lines.simps [of n t] Pair)
    next
      case (Inr chunk)
      obtain ls o' b' where cut: "take_lines offset (buffer @ chunk) = (ls, o', b')" by (cases "take_lines offset (buffer @ chunk)")
      show ?thesis
      proof (cases "chunk = []")
        case True
        then show ?thesis by (simp add: read_loop.simps [of n t] byte_lines.simps [of n t] Pair Inr)
      next
        case False
        have "read_loop n t' o' b' = Some (byte_lines n t' o' b')"
          using 1 [OF _ _ False] Pair Inr cut by simp
        then show ?thesis
          using False by (simp add: read_loop.simps [of n t] byte_lines.simps [of n t] Pair Inr split_loop_ends cut split: prod.split)
      qed
    qed
  qed
qed

end
