(* ===== verification/Patterns.thy ===== *)
theory Patterns
  imports PyText
begin

text \<open>
  Python's regular expressions, as far as the sources use them: a pattern is a syntax tree, matching is the
  backtracking search of \<open>re\<close>, so a place in a text has the list of the places where a match of the
  pattern can end, in the order in which the search tries them. \<open>search\<close> asks whether some place has
  one, \<open>finditer\<close> takes the first of each place from left to right. The lemmas compute the first end of
  a pattern from those of its parts.
\<close>

section \<open>Patterns\<close>

datatype rx = Sym "nat \<Rightarrow> bool" | Seq rx rx | Alt rx rx | Opt rx | Times nat nat rx | Many nat "nat \<Rightarrow> bool"
  | NotBehind "nat \<Rightarrow> bool" | NotAhead "nat \<Rightarrow> bool" | Edge "nat \<Rightarrow> bool"

text \<open>A place: what is before it, backwards, and what is after it.\<close>

type_synonym place = "utext \<times> utext"

primrec sym_ends :: "(nat \<Rightarrow> bool) \<Rightarrow> utext \<Rightarrow> utext \<Rightarrow> place list" where
  "sym_ends p b [] = []"
| "sym_ends p b (c # a) = (if p c then [(c # b, a)] else [])"

text \<open>Repetitions are greedy: the longest comes first.\<close>

fun many_ends :: "nat \<Rightarrow> (nat \<Rightarrow> bool) \<Rightarrow> utext \<Rightarrow> utext \<Rightarrow> place list" where
  "many_ends n p b [] = (if n = 0 then [(b, [])] else [])"
| "many_ends n p b (c # a) = (if p c then many_ends (n - 1) p (c # b) a else []) @ (if n = 0 then [(b, c # a)] else [])"

primrec up_to_ends :: "(place \<Rightarrow> place list) \<Rightarrow> nat \<Rightarrow> place \<Rightarrow> place list" where
  "up_to_ends f 0 x = [x]"
| "up_to_ends f (Suc n) x = concat (map (up_to_ends f n) (f x)) @ [x]"

primrec times_ends :: "(place \<Rightarrow> place list) \<Rightarrow> nat \<Rightarrow> nat \<Rightarrow> place \<Rightarrow> place list" where
  "times_ends f 0 more x = up_to_ends f more x"
| "times_ends f (Suc n) more x = concat (map (times_ends f n more) (f x))"

definition first_is :: "(nat \<Rightarrow> bool) \<Rightarrow> utext \<Rightarrow> bool" where
  "first_is p s = (s \<noteq> [] \<and> p (hd s))"

lemma first_is_simps [simp]: "first_is p [] = False" "first_is p (c # s) = p c"
  by (simp_all add: first_is_def)

primrec rx_ends :: "rx \<Rightarrow> place \<Rightarrow> place list" where
  "rx_ends (Sym p) x = sym_ends p (fst x) (snd x)"
| "rx_ends (Seq r s) x = concat (map (rx_ends s) (rx_ends r x))"
| "rx_ends (Alt r s) x = rx_ends r x @ rx_ends s x"
| "rx_ends (Opt r) x = rx_ends r x @ [x]"
| "rx_ends (Times least most r) x = times_ends (rx_ends r) least (most - least) x"
| "rx_ends (Many least p) x = many_ends least p (fst x) (snd x)"
| "rx_ends (NotBehind p) x = (if first_is p (fst x) then [] else [x])"
| "rx_ends (NotAhead p) x = (if first_is p (snd x) then [] else [x])"
| "rx_ends (Edge p) x = (if first_is p (fst x) \<noteq> first_is p (snd x) then [x] else [])"

section \<open>Searching\<close>

fun found_from :: "rx \<Rightarrow> utext \<Rightarrow> utext \<Rightarrow> bool" where
  "found_from r b [] = (rx_ends r (b, []) \<noteq> [])"
| "found_from r b (c # a) = (rx_ends r (b, c # a) \<noteq> [] \<or> found_from r (c # b) a)"

definition rx_search :: "rx \<Rightarrow> utext \<Rightarrow> bool" where
  "rx_search r s = found_from r [] s"

text \<open>The matches of \<open>finditer\<close>, one after the other. An empty match moves on by one character.\<close>

function matches_from :: "rx \<Rightarrow> utext \<Rightarrow> utext \<Rightarrow> utext list" where
  "matches_from r b a = (case rx_ends r (b, a) of
     (b', a') # _ \<Rightarrow>
       if length a' < length a then take (length a - length a') a # matches_from r b' a'
       else [] # (case a of [] \<Rightarrow> [] | c # cs \<Rightarrow> matches_from r (c # b) cs)
   | [] \<Rightarrow> (case a of [] \<Rightarrow> [] | c # cs \<Rightarrow> matches_from r (c # b) cs))"
  by pat_completeness auto
termination
  by (relation "measure (\<lambda>(r, b, a). length a)") auto

declare matches_from.simps [simp del]

definition finditer :: "rx \<Rightarrow> utext \<Rightarrow> utext list" where
  "finditer r s = matches_from r [] s"

section \<open>Character classes\<close>

definition among :: "string \<Rightarrow> nat \<Rightarrow> bool" where
  "among s c = (c \<in> set (u s))"

definition r_digit :: "nat \<Rightarrow> bool" where
  "r_digit c = (48 \<le> c \<and> c \<le> 57)"

definition r_upper :: "nat \<Rightarrow> bool" where
  "r_upper c = (65 \<le> c \<and> c \<le> 90)"

text \<open>Letters without regard to case: besides the two ASCII forms, \<open>(?i)\<close> takes the dotted and dotless i, the
  long s and the Kelvin sign.\<close>

definition folded :: "nat \<Rightarrow> nat" where
  "folded c = (if r_upper c then c + 32 else if c = 0x130 \<or> c = 0x131 then 105 else if c = 0x17F then 115
     else if c = 0x212A then 107 else if c = 0xD1 then 0xF1 else c)"

definition r_letter :: "nat \<Rightarrow> bool" where
  "r_letter c = (97 \<le> folded c \<and> folded c \<le> 122)"

text \<open>\<open>\w\<close>: letters and digits of any script, which beyond ASCII the argument \<open>alnum\<close> knows, and the underscore.\<close>

definition r_word :: "(nat \<Rightarrow> bool) \<Rightarrow> nat \<Rightarrow> bool" where
  "r_word alnum c = (r_digit c \<or> r_upper c \<or> (97 \<le> c \<and> c \<le> 122) \<or> c = 95 \<or> (128 \<le> c \<and> alnum c))"

text \<open>A word, letter by letter, and without regard to case.\<close>

definition Lit :: "string \<Rightarrow> rx" where
  "Lit s = foldr (\<lambda>c r. Seq (Sym (\<lambda>d. d = c)) r) (u s) (Many 0 (\<lambda>c. False))"

definition Lit_i :: "string \<Rightarrow> rx" where
  "Lit_i s = foldr (\<lambda>c r. Seq (Sym (\<lambda>d. folded d = c)) r) (u s) (Many 0 (\<lambda>c. False))"

section \<open>Matches are parts of the text\<close>

definition ends_ok :: "(place \<Rightarrow> place list) \<Rightarrow> bool" where
  "ends_ok f = (\<forall>x y. y \<in> set (f x) \<longrightarrow> (\<exists>w. snd x = w @ snd y \<and> fst y = rev w @ fst x))"

lemma ends_ok_comp: "ends_ok f \<Longrightarrow> ends_ok g \<Longrightarrow> ends_ok (\<lambda>x. concat (map g (f x)))"
  unfolding ends_ok_def by clarsimp (metis append_assoc rev_append)

lemma up_to_ends_ok: "ends_ok f \<Longrightarrow> ends_ok (up_to_ends f n)"
proof (induction n)
  case (Suc n)
  then have "ends_ok (\<lambda>x. concat (map (up_to_ends f n) (f x)))" by (intro ends_ok_comp) auto
  then show ?case by (auto simp: ends_ok_def)
qed (simp add: ends_ok_def)

lemma times_ends_ok: "ends_ok f \<Longrightarrow> ends_ok (times_ends f n more)"
proof (induction n)
  case (Suc n)
  then have "ends_ok (\<lambda>x. concat (map (times_ends f n more) (f x)))" by (intro ends_ok_comp) auto
  then show ?case by (simp add: ends_ok_def)
qed (use up_to_ends_ok [of f more] in \<open>simp add: ends_ok_def\<close>)

lemma many_ends_ok: "(b', a') \<in> set (many_ends n p b a) \<Longrightarrow> \<exists>w. a = w @ a' \<and> b' = rev w @ b \<and> list_all p w \<and> n \<le> length w"
proof (induction a arbitrary: n b)
  case (Cons c a)
  show ?case
  proof (cases "(b', a') \<in> set (many_ends (n - 1) p (c # b) a) \<and> p c")
    case True
    with Cons.IH obtain w where "a = w @ a'" "b' = rev w @ c # b" "list_all p w" "n - 1 \<le> length w" by blast
    with True show ?thesis by (intro exI [of _ "c # w"]) auto
  next
    case False
    with Cons.prems show ?thesis by (auto split: if_splits)
  qed
qed (auto split: if_splits)

lemma sym_ends_ok: "y \<in> set (sym_ends p b a) \<longleftrightarrow> (\<exists>c a'. a = c # a' \<and> p c \<and> y = (c # b, a'))"
  by (cases a) auto

lemma rx_ends_ok: "ends_ok (rx_ends r)"
proof (induction r)
  case (Sym p)
  show ?case by (force simp: ends_ok_def sym_ends_ok)
next
  case (Seq r s)
  then have "ends_ok (\<lambda>x. concat (map (rx_ends s) (rx_ends r x)))" by (rule ends_ok_comp)
  then show ?case by (simp add: ends_ok_def)
next
  case (Times least most r)
  then show ?case using times_ends_ok [of "rx_ends r" least "most - least"] by (simp add: ends_ok_def)
next
  case (Many least p)
  show ?case using many_ends_ok by (fastforce simp: ends_ok_def)
qed (auto simp: ends_ok_def)

end
