(* ===== verification/PdfDocument.thy ===== *)
theory PdfDocument
  imports Patterns
begin

text \<open>
  \<open>fincilia_contracts/pdf_document.py\<close>: when a PDF file counts as passive, the texts it embeds, and the rows
  they make. The envelope is checked on the bytes by the code; pages, texts and coordinates come from the package
  \<open>pypdf\<close>, which is the argument \<open>pypdf\<close>: for the bytes of a file, the reader or the exception it raises. The boxes
  of the rows and the digest over them, which are computed floats, and the JSON form of an OCR derivative are not modelled.
\<close>

section \<open>Limits and patterns\<close>

definition MAX_PDF_BYTES :: nat where "MAX_PDF_BYTES = 25 * 1024 * 1024"
definition MAX_PDF_PAGES :: nat where "MAX_PDF_PAGES = 250"
definition MAX_PDF_OBJECTS :: nat where "MAX_PDF_OBJECTS = 20000"
definition MAX_PDF_BLOCKS :: nat where "MAX_PDF_BLOCKS = 200000"
definition MIN_EMBEDDED_TEXT_CHARS :: nat where "MIN_EMBEDDED_TEXT_CHARS = 3"
definition MAX_OCR_PAGES :: nat where "MAX_OCR_PAGES = 50"

definition PDF_PARSER_RELEASE :: string where
  "PDF_PARSER_RELEASE = ''pypdf-6.16.2/fincilia-pdf-1''"

text \<open>\<open>\s\<close> and \<open>\w\<close> in a pattern of bytes.\<close>

definition b_space :: "nat \<Rightarrow> bool" where
  "b_space c = (c = 32 \<or> (9 \<le> c \<and> c \<le> 13))"

definition b_word :: "nat \<Rightarrow> bool" where
  "b_word c = r_word (\<lambda>_. False) c"

definition OBJECT_RE :: rx where
  "OBJECT_RE = Seq (NotBehind r_digit) (Seq (Times 1 10 (Sym r_digit)) (Seq (Many 1 b_space)
     (Seq (Times 1 5 (Sym r_digit)) (Seq (Many 1 b_space) (Seq (Lit ''obj'') (Edge b_word))))))"

definition ACTIVE_NAMES :: "string list" where
  "ACTIVE_NAMES = [''/JavaScript'', ''/JS'', ''/OpenAction'', ''/AA'', ''/Launch'', ''/EmbeddedFile'', ''/Filespec'',
     ''/AcroForm'', ''/XFA'', ''/RichMedia'', ''/SubmitForm'', ''/ImportData'', ''/GoToR'', ''/URI'', ''/Encrypt'', ''/Sig'']"

definition pdf_break :: "nat \<Rightarrow> bool" where
  "pdf_break c = (b_space c \<or> among ''/<>()[]{}%'' c)"

definition name_present :: "nat list \<Rightarrow> string \<Rightarrow> bool" where
  "name_present payload name = rx_search (Seq (Lit name) (NotAhead (\<lambda>c. \<not> pdf_break c))) payload"

section \<open>The reader\<close>

text \<open>
  The classes of exceptions that the module tells apart; one that it does not catch leaves it. A float is finite, infinite
  or not a number. A run is what \<open>pypdf\<close> hands to the visitor: its text, if it is one, and the three
  numbers of its matrix and font, if \<open>float\<close> takes them. The visitor's own exception leaves \<open>extract_text\<close>.
\<close>

datatype pdf_fault = PdfReadFault | ValueFault | TypeFault | RecursionFault | KeyFault | OtherFault

datatype pdf_float = FiniteFloat rat | PosInf | NegInf | NotANumber

record text_run =
  tr_text :: "utext option"
  tr_place :: "(pdf_float \<times> pdf_float \<times> pdf_float) option"

record pdf_page =
  pg_runs :: "text_run list"
  pg_fault :: "pdf_fault option"
  pg_no_box :: bool

record pdf_reader =
  rd_encrypted :: bool
  rd_pages :: "(pdf_fault, pdf_page option list) result"

type_synonym pypdf = "bytes \<Rightarrow> (pdf_fault, pdf_reader) result"

definition caught_as :: "pdf_fault list \<Rightarrow> string \<Rightarrow> pdf_fault \<Rightarrow> exn" where
  "caught_as classes message fault = (if fault \<in> set classes then PdfError message else ReaderError)"

definition read_pdf :: "pypdf \<Rightarrow> bytes \<Rightarrow> (exn, pdf_reader) result" where
  "read_pdf pypdf payload = (case pypdf payload of
     Inl fault \<Rightarrow> Inl (caught_as [PdfReadFault, ValueFault, TypeFault, RecursionFault] ''the PDF structure is malformed or ambiguous'' fault)
   | Inr reader \<Rightarrow> Inr reader)"

definition b_rstrip :: "nat list \<Rightarrow> nat list" where
  "b_rstrip s = rev (dropWhile b_space (rev s))"

definition validate_envelope :: "nat list \<Rightarrow> (exn, nat) result" where
  "validate_envelope payload =
     (if \<not> starts_with (u ''%PDF-'') payload then Inl (PdfError ''the document does not have a PDF signature'')
      else if \<not> ends_with (u ''%%EOF'') (b_rstrip payload) then Inl (PdfError ''the PDF has no unambiguous end marker'')
      else if \<not> (0 < length payload \<and> length payload \<le> MAX_PDF_BYTES)
      then Inl (PdfError (''the PDF exceeds the '' @ show_nat MAX_PDF_BYTES @ '' byte ceiling''))
      else
        let object_count = length (finditer OBJECT_RE payload) in
        if object_count < 1 \<or> MAX_PDF_OBJECTS < object_count then Inl (PdfError ''the PDF object count is outside the accepted bounds'')
        else if list_ex (name_present payload) ACTIVE_NAMES
        then Inl (PdfError ''active, linked, signed or encrypted PDF content is not accepted'')
        else Inr object_count)"

section \<open>Embedded text\<close>

text \<open>A fragment: ordinate, abscissa, size, one line of text.\<close>

type_synonym fragment = "rat \<times> rat \<times> rat \<times> utext"

text \<open>\<open>max(1.0, value)\<close>, which is 1.0 for what is not a number.\<close>

definition at_least_one :: "pdf_float \<Rightarrow> pdf_float" where
  "at_least_one f = (case f of FiniteFloat q \<Rightarrow> FiniteFloat (max 1 q) | PosInf \<Rightarrow> PosInf | _ \<Rightarrow> FiniteFloat 1)"

definition run_place :: "text_run \<Rightarrow> (rat \<times> rat \<times> rat) option" where
  "run_place r = (case tr_place r of
     None \<Rightarrow> Some (0, 0, 1)
   | Some (x, y, font_size) \<Rightarrow> (case (x, y, at_least_one font_size) of
        (FiniteFloat x, FiniteFloat y, FiniteFloat em) \<Rightarrow> Some (x, y, em) | _ \<Rightarrow> None))"

definition text_lines :: "utext \<Rightarrow> utext list" where
  "text_lines text = filter (\<lambda>l. u_strip l \<noteq> []) (split_char 10 (map (\<lambda>c. if c = 13 then 10 else c) text))"

text \<open>What the visitor adds for a run; \<open>None\<close> for its exception about coordinates that are not finite.\<close>

definition run_fragments :: "text_run \<Rightarrow> fragment list option" where
  "run_fragments r = (case tr_text r of
     None \<Rightarrow> Some []
   | Some text \<Rightarrow>
       if u_strip text = [] then Some []
       else map_option (\<lambda>(x, y, em). map (\<lambda>line. (y, x, em, line)) (text_lines text)) (run_place r))"

fun visit :: "text_run list \<Rightarrow> fragment list option" where
  "visit [] = Some []"
| "visit (r # rs) = (case run_fragments r of None \<Rightarrow> None | Some fs \<Rightarrow> map_option (\<lambda>gs. fs @ gs) (visit rs))"

definition page_fragments :: "pdf_page \<Rightarrow> (exn, fragment list) result" where
  "page_fragments page = (case visit (pg_runs page) of
     None \<Rightarrow> Inl (PdfError ''embedded PDF text could not be extracted safely'')
   | Some fs \<Rightarrow> (case pg_fault page of
       None \<Rightarrow> Inr fs
     | Some fault \<Rightarrow> Inl (caught_as [ValueFault, TypeFault, RecursionFault, KeyFault] ''embedded PDF text could not be extracted safely'' fault)))"

section \<open>Inspection\<close>

record pdf_inspection =
  in_sha256 :: string
  in_pages :: nat
  in_objects :: nat
  in_chars :: nat

definition pdf_manifest :: "pdf_inspection \<Rightarrow> pydict" where
  "pdf_manifest i = [(''document_kind'', PStr ''pdf''), (''artifact_sha256'', PStr (in_sha256 i)), (''page_count'', PInt (int (in_pages i))),
     (''object_count'', PInt (int (in_objects i))), (''embedded_text'', PBool (MIN_EMBEDDED_TEXT_CHARS \<le> in_chars i)),
     (''parser_release'', PStr PDF_PARSER_RELEASE), (''ocr_state'', PStr ''not_required''), (''requires_human_review'', PBool True)]"

fun count_fragments :: "fragment list \<Rightarrow> nat \<times> nat \<Rightarrow> (exn, nat \<times> nat) result" where
  "count_fragments [] n = Inr n"
| "count_fragments ((y, x, em, text) # fs) (chars, blocks) =
     (if MAX_PDF_BLOCKS < blocks + 1 then Inl (PdfError ''the PDF exposes too many text blocks'')
      else count_fragments fs (chars + length (u_strip text), blocks + 1))"

fun count_pages :: "pdf_page option list \<Rightarrow> nat \<times> nat \<Rightarrow> (exn, nat \<times> nat) result" where
  "count_pages [] n = Inr n"
| "count_pages (None # ps) n = Inl ReaderError"
| "count_pages (Some p # ps) n = rbind (page_fragments p) (\<lambda>fs. rbind (count_fragments fs n) (count_pages ps))"

definition inspect_pdf_as :: "bool \<Rightarrow> (nat list \<Rightarrow> string) \<Rightarrow> pypdf \<Rightarrow> bytes \<Rightarrow> (exn, pdf_inspection) result" where
  "inspect_pdf_as require_embedded_text sha pypdf payload =
     rbind (validate_envelope (byte_values payload)) (\<lambda>object_count.
     rbind (read_pdf pypdf payload) (\<lambda>reader.
       if rd_encrypted reader then Inl (PdfError ''encrypted PDF content is not accepted'')
       else case rd_pages reader of
         Inl fault \<Rightarrow> Inl (caught_as [ValueFault, TypeFault, RecursionFault, KeyFault] ''the PDF page tree is malformed'' fault)
       | Inr pages \<Rightarrow>
           if length pages < 1 \<or> MAX_PDF_PAGES < length pages then Inl (PdfError ''the PDF page count is outside the accepted bounds'')
           else rbind (count_pages pages (0, 0)) (\<lambda>(chars, blocks).
             if require_embedded_text \<and> chars < MIN_EMBEDDED_TEXT_CHARS
             then Inl (OcrRequired ''the PDF requires OCR; embedded text is insufficient'')
             else Inr \<lparr>in_sha256 = sha (byte_values payload), in_pages = length pages, in_objects = object_count, in_chars = chars\<rparr>)))"

definition inspect_pdf :: "(nat list \<Rightarrow> string) \<Rightarrow> pypdf \<Rightarrow> bytes \<Rightarrow> (exn, pdf_inspection) result" where
  "inspect_pdf = inspect_pdf_as True"

definition inspect_pdf_for_ocr :: "(nat list \<Rightarrow> string) \<Rightarrow> pypdf \<Rightarrow> bytes \<Rightarrow> (exn, pdf_inspection) result" where
  "inspect_pdf_for_ocr sha pypdf payload = rbind (inspect_pdf_as False sha pypdf payload) (\<lambda>inspection.
     if MIN_EMBEDDED_TEXT_CHARS \<le> in_chars inspection then Inl (OcrError ''OCR is not accepted when safe embedded text already exists'')
     else if MAX_OCR_PAGES < in_pages inspection then Inl (OcrError (''OCR is limited to '' @ show_nat MAX_OCR_PAGES @ '' pages''))
     else Inr inspection)"

section \<open>Rows\<close>

record pdf_preamble =
  pp_sha256 :: string
  pp_pages :: nat
  pp_header :: "string list"

record pdf_row =
  pr_record :: nat
  pr_page :: nat
  pr_block :: nat
  pr_values :: "utext list"

definition sniff_pdf :: "(nat list \<Rightarrow> string) \<Rightarrow> pypdf \<Rightarrow> bytes \<Rightarrow> (exn, pdf_inspection \<times> pdf_preamble) result" where
  "sniff_pdf sha pypdf payload = rbind (inspect_pdf sha pypdf payload) (\<lambda>inspection.
     Inr (inspection, \<lparr>pp_sha256 = in_sha256 inspection, pp_pages = in_pages inspection, pp_header = [''texto'']\<rparr>))"

text \<open>\<open>value.encode("utf-8")\<close> refuses surrogates.\<close>

definition encode_strict :: "utext \<Rightarrow> (exn, nat list) result" where
  "encode_strict t = (if list_ex (\<lambda>c. 0xD800 \<le> c \<and> c \<le> 0xDFFF) t then Inl UnicodeEncodeError else Inr (utf8_encode t))"

text \<open>A generator: the rows it yields before it ends or raises. The digest over the rows encodes each text.\<close>

fun page_rows :: "nat \<Rightarrow> nat \<Rightarrow> nat \<Rightarrow> fragment list \<Rightarrow> pdf_row list \<times> exn option" where
  "page_rows page block ordinal [] = ([], None)"
| "page_rows page block ordinal ((y, x, em, text) # fs) = (case encode_strict text of
     Inl e \<Rightarrow> ([], Some e)
   | Inr _ \<Rightarrow> (case page_rows page (block + 1) (ordinal + 1) fs of (rows, failure) \<Rightarrow>
       (\<lparr>pr_record = ordinal + 1, pr_page = page, pr_block = block, pr_values = [text]\<rparr> # rows, failure)))"

fun document_rows :: "nat \<Rightarrow> nat \<Rightarrow> pdf_page option list \<Rightarrow> pdf_row list \<times> exn option" where
  "document_rows page ordinal [] = ([], None)"
| "document_rows page ordinal (None # ps) = ([], Some ReaderError)"
| "document_rows page ordinal (Some p # ps) =
     (if pg_no_box p then ([], Some ReaderError)
      else case page_fragments p of
        Inl e \<Rightarrow> ([], Some e)
      | Inr fs \<Rightarrow> (case page_rows page 1 ordinal (sort_key (\<lambda>(y, x, em, text). (- y, x)) fs) of
          (rows, Some e) \<Rightarrow> (rows, Some e)
        | (rows, None) \<Rightarrow> (case document_rows (page + 1) (ordinal + length fs) ps of (others, failure) \<Rightarrow> (rows @ others, failure))))"

definition stream_pdf_rows :: "(nat list \<Rightarrow> string) \<Rightarrow> pypdf \<Rightarrow> bytes \<Rightarrow> pdf_preamble \<Rightarrow> string \<Rightarrow> pdf_row list \<times> exn option" where
  "stream_pdf_rows sha pypdf payload preamble artifact_sha256 =
     (if artifact_sha256 \<noteq> sha (byte_values payload)
      then ([], Some (PdfError ''the PDF object digest does not match the artifact identity''))
      else case inspect_pdf sha pypdf payload of
        Inl e \<Rightarrow> ([], Some e)
      | Inr inspection \<Rightarrow>
          if in_sha256 inspection \<noteq> pp_sha256 preamble then ([], Some (PdfError ''the PDF preamble belongs to another artifact''))
          else case read_pdf pypdf payload of
            Inl e \<Rightarrow> ([], Some e)
          | Inr reader \<Rightarrow> (case rd_pages reader of
              Inl fault \<Rightarrow> ([], Some ReaderError) | Inr pages \<Rightarrow> document_rows 1 0 pages))"

section \<open>OCR derivatives\<close>

definition MAX_OCR_TEXT_CHARS :: nat where "MAX_OCR_TEXT_CHARS = 10000000"
definition MAX_OCR_BLOCK_CHARS :: nat where "MAX_OCR_BLOCK_CHARS = 4096"

record ocr_block =
  ob_page :: int
  ob_block :: int
  ob_text :: utext
  ob_box :: "pdf_float list"
  ob_confidence :: pdf_float

record ocr_document =
  oc_sha256 :: string
  oc_release :: string
  oc_languages :: "string list"
  oc_page_count :: int
  oc_blocks :: "ocr_block list"

text \<open>The patterns \<open>[0-9a-f]{64}\<close>, \<open>[a-z0-9][a-z0-9._/+:-]{2,119}\<close> and \<open>[a-z]{3}\<close>.\<close>

definition lower_digest :: "string \<Rightarrow> bool" where
  "lower_digest s = (length s = 64 \<and> list_all (\<lambda>c. is_digit c \<or> c \<in> set ''abcdef'') s)"

definition canonical_release :: "string \<Rightarrow> bool" where
  "canonical_release s = (3 \<le> length s \<and> length s \<le> 120 \<and> (is_digit (hd s) \<or> is_lower_ascii (hd s))
     \<and> list_all (\<lambda>c. is_digit c \<or> is_lower_ascii c \<or> c \<in> set ''._/+:-'') s)"

definition language_code :: "string \<Rightarrow> bool" where
  "language_code s = (length s = 3 \<and> list_all is_lower_ascii s)"

definition in_unit :: "pdf_float \<Rightarrow> bool" where
  "in_unit f = (case f of FiniteFloat q \<Rightarrow> 0 \<le> q \<and> q \<le> 1 | _ \<Rightarrow> False)"

text \<open>\<open>b <= a\<close> of two floats that are finite.\<close>

definition no_wider :: "pdf_float \<Rightarrow> pdf_float \<Rightarrow> bool" where
  "no_wider a b = (case (a, b) of (FiniteFloat p, FiniteFloat q) \<Rightarrow> q \<le> p | _ \<Rightarrow> False)"

fun check_ocr_blocks :: "int \<Rightarrow> int \<times> int \<Rightarrow> nat \<Rightarrow> ocr_block list \<Rightarrow> (exn, unit) result" where
  "check_ocr_blocks page_count last_place total_chars [] = Inr ()"
| "check_ocr_blocks page_count last_place total_chars (b # bs) =
     (if (ob_page b, ob_block b) \<le> last_place then Inl (OcrError ''OCR blocks must be strictly ordered and unique'')
      else if \<not> (1 \<le> ob_page b \<and> ob_page b \<le> page_count) then Inl (OcrError ''an OCR block refers to an unknown page'')
      else if \<not> (1 \<le> ob_block b \<and> ob_block b \<le> int MAX_PDF_BLOCKS) then Inl (OcrError ''an OCR block ordinal is outside the accepted bounds'')
      else if u_strip (ob_text b) = [] \<or> MAX_OCR_BLOCK_CHARS < length (ob_text b) then Inl (OcrError ''an OCR block is empty or too large'')
      else if \<not> in_unit (ob_confidence b) then Inl (OcrError ''an OCR confidence is outside zero and one'')
      else if length (ob_box b) \<noteq> 4 \<or> \<not> list_all in_unit (ob_box b) then Inl (OcrError ''an OCR box is outside the normalized page'')
      else if no_wider (ob_box b ! 0) (ob_box b ! 2) \<or> no_wider (ob_box b ! 1) (ob_box b ! 3)
      then Inl (OcrError ''an OCR box has no positive area'')
      else if MAX_OCR_TEXT_CHARS < total_chars + length (ob_text b) then Inl (OcrError ''the OCR text exceeds the accepted bound'')
      else check_ocr_blocks page_count (ob_page b, ob_block b) (total_chars + length (ob_text b)) bs)"

text \<open>The constructor with its \<open>__post_init__\<close>.\<close>

definition new_ocr_document :: "ocr_document \<Rightarrow> (exn, ocr_document) result" where
  "new_ocr_document d =
     (if \<not> lower_digest (oc_sha256 d) then Inl (OcrError ''the OCR artifact digest is invalid'')
      else if \<not> canonical_release (oc_release d) then Inl (OcrError ''the OCR release is not immutable and canonical'')
      else if oc_languages d = [] \<or> \<not> list_all language_code (oc_languages d) then Inl (OcrError ''the OCR language set is invalid'')
      else if \<not> (1 \<le> oc_page_count d \<and> oc_page_count d \<le> int MAX_OCR_PAGES)
      then Inl (OcrError ''the OCR page count is outside the accepted bounds'')
      else if \<not> (1 \<le> length (oc_blocks d) \<and> length (oc_blocks d) \<le> MAX_PDF_BLOCKS)
      then Inl (OcrError ''the OCR block count is outside the accepted bounds'')
      else rbind (check_ocr_blocks (oc_page_count d) (0, 0) 0 (oc_blocks d)) (\<lambda>_. Inr d))"

definition ocr_manifest :: "ocr_document \<Rightarrow> pydict" where
  "ocr_manifest d = [(''document_kind'', PStr ''pdf''), (''artifact_sha256'', PStr (oc_sha256 d)), (''page_count'', PInt (oc_page_count d)),
     (''block_count'', PInt (int (length (oc_blocks d)))), (''embedded_text'', PBool False), (''parser_release'', PStr PDF_PARSER_RELEASE),
     (''ocr_state'', PStr ''complete''), (''ocr_release'', PStr (oc_release d)), (''ocr_languages'', PList (map PStr (oc_languages d))),
     (''requires_human_review'', PBool True)]"

record ocr_row =
  or_record :: nat
  or_block :: ocr_block
  or_release :: string

definition stream_ocr_rows :: "ocr_document \<Rightarrow> string \<Rightarrow> (exn, ocr_row list) result" where
  "stream_ocr_rows d artifact_sha256 =
     (if oc_sha256 d \<noteq> artifact_sha256 then Inl (OcrError ''the OCR derivative belongs to another artifact'')
      else Inr (map (\<lambda>(n, b). \<lparr>or_record = n, or_block = b, or_release = oc_release d\<rparr>) (enumerate_from 1 (oc_blocks d))))"

lemma checked_blocks:
  "check_ocr_blocks page_count place n bs = Inr () \<Longrightarrow> sorted_wrt (<) (place # map (\<lambda>b. (ob_page b, ob_block b)) bs)
    \<and> (\<forall>b \<in> set bs. 1 \<le> ob_page b \<and> ob_page b \<le> page_count \<and> u_strip (ob_text b) \<noteq> [] \<and> list_all in_unit (ob_box b))
    \<and> n + sum_list (map (\<lambda>b. length (ob_text b)) bs) \<le> max n MAX_OCR_TEXT_CHARS"
proof (induction bs arbitrary: place n)
  case (Cons b bs)
  define x where "x = (ob_page b, ob_block b)"
  have ok: "place < x" "1 \<le> ob_page b \<and> ob_page b \<le> page_count \<and> u_strip (ob_text b) \<noteq> [] \<and> list_all in_unit (ob_box b)"
    "n + length (ob_text b) \<le> MAX_OCR_TEXT_CHARS" "check_ocr_blocks page_count x (n + length (ob_text b)) bs = Inr ()"
    using Cons.prems unfolding check_ocr_blocks.simps x_def [symmetric] by (auto simp: not_le split: if_splits)
  from Cons.IH [OF ok(4)] have ih: "sorted_wrt (<) (x # map (\<lambda>b. (ob_page b, ob_block b)) bs)"
    "\<forall>b \<in> set bs. 1 \<le> ob_page b \<and> ob_page b \<le> page_count \<and> u_strip (ob_text b) \<noteq> [] \<and> list_all in_unit (ob_box b)"
    "n + length (ob_text b) + sum_list (map (\<lambda>b. length (ob_text b)) bs) \<le> MAX_OCR_TEXT_CHARS"
    using ok(3) by simp_all
  have "\<forall>y \<in> set (map (\<lambda>b. (ob_page b, ob_block b)) bs). place < y"
    using ih(1) ok(1) less_trans unfolding sorted_wrt.simps by blast
  then have "sorted_wrt (<) (place # map (\<lambda>b. (ob_page b, ob_block b)) (b # bs))"
    using ih(1) ok(1) unfolding sorted_wrt.simps list.map x_def [symmetric] by simp
  then show ?case using ih(2,3) ok(2) by simp
qed simp

text \<open>The blocks of a document are in order, each place once, on its pages, and hold a bounded amount of text.\<close>

lemma ocr_documents_in_order:
  assumes "new_ocr_document d = Inr e"
  shows "e = d \<and> sorted_wrt (<) (map (\<lambda>b. (ob_page b, ob_block b)) (oc_blocks d))
    \<and> (\<forall>b \<in> set (oc_blocks d). 1 \<le> ob_page b \<and> ob_page b \<le> oc_page_count d)
    \<and> sum_list (map (\<lambda>b. length (ob_text b)) (oc_blocks d)) \<le> MAX_OCR_TEXT_CHARS"
proof -
  have "e = d" "check_ocr_blocks (oc_page_count d) (0, 0) 0 (oc_blocks d) = Inr ()"
    using assms by (auto simp: new_ocr_document_def rbind_Inr_iff split: if_splits)
  with checked_blocks [OF this(2)] show ?thesis by simp
qed

section \<open>Passive files\<close>

text \<open>The name stands in the file and what follows it ends a name of PDF.\<close>

definition carries_name :: "nat list \<Rightarrow> string \<Rightarrow> bool" where
  "carries_name payload name = (\<exists>a b. payload = a @ u name @ b \<and> (b = [] \<or> pdf_break (hd b)))"

text \<open>
  A passive file: it begins and ends as a PDF file does, is not too large, carries none of the names of active, linked,
  signed or encrypted content, and its reader opens it, unencrypted, with at least one page and not too many.
\<close>

definition passive_pdf :: "pypdf \<Rightarrow> bytes \<Rightarrow> bool" where
  "passive_pdf pypdf payload = (let b = byte_values payload in
     (\<exists>rest. b = u ''%PDF-'' @ rest) \<and> (\<exists>body blank. b = body @ u ''%%EOF'' @ blank \<and> list_all b_space blank)
     \<and> length b \<le> MAX_PDF_BYTES \<and> (\<forall>name \<in> set ACTIVE_NAMES. \<not> carries_name b name)
     \<and> (\<exists>reader pages. pypdf payload = Inr reader \<and> \<not> rd_encrypted reader \<and> rd_pages reader = Inr pages
          \<and> 1 \<le> length pages \<and> length pages \<le> MAX_PDF_PAGES))"

lemma many_none_ends: "many_ends 0 (\<lambda>c. False) b a = [(b, a)]"
  by (cases a) simp_all

lemma Lit_ends: "rx_ends (Lit s) (b, a) = (if take (length (u s)) a = u s then [(rev (u s) @ b, drop (length (u s)) a)] else [])"
proof -
  have "rx_ends (foldr (\<lambda>c r. Seq (Sym (\<lambda>d. d = c)) r) w (Many 0 (\<lambda>c. False))) (b, a)
      = (if take (length w) a = w then [(rev w @ b, drop (length w) a)] else [])" for w
  proof (induction w arbitrary: b a)
    case Nil
    then show ?case by (simp add: many_none_ends)
  next
    case (Cons c w)
    show ?case by (cases a) (auto simp: Cons.IH)
  qed
  then show ?thesis by (simp add: Lit_def)
qed

lemma found_later: "rx_ends r (rev w @ b, v) \<noteq> [] \<Longrightarrow> found_from r b (w @ v)"
proof (induction w arbitrary: b)
  case Nil
  then show ?case by (cases v) simp_all
qed simp

lemma found_at: "found_from r b a \<Longrightarrow> \<exists>w v. a = w @ v \<and> rx_ends r (rev w @ b, v) \<noteq> []"
proof (induction a arbitrary: b)
  case Nil
  then show ?case by simp
next
  case (Cons c a)
  show ?case
  proof (cases "rx_ends r (b, c # a) = []")
    case True
    then have "found_from r (c # b) a" using Cons.prems by simp
    from Cons.IH [OF this] obtain w v where "a = w @ v" "rx_ends r (rev w @ c # b, v) \<noteq> []" by blast
    then show ?thesis by (intro exI [of _ "c # w"] exI [of _ v]) simp
  next
    case False
    then show ?thesis by (intro exI [of _ "[]"] exI [of _ "c # a"]) simp
  qed
qed

lemma name_present_iff: "name_present payload name \<longleftrightarrow> carries_name payload name"
proof -
  have ends: "rx_ends (Seq (Lit name) (NotAhead (\<lambda>c. \<not> pdf_break c))) (b, v) \<noteq> []
      \<longleftrightarrow> (\<exists>rest. v = u name @ rest \<and> (rest = [] \<or> pdf_break (hd rest)))" for b v
  proof -
    have same: "(\<exists>rest. v = u name @ rest \<and> (rest = [] \<or> pdf_break (hd rest)))
        \<longleftrightarrow> take (length (u name)) v = u name \<and> (drop (length (u name)) v = [] \<or> pdf_break (hd (drop (length (u name)) v)))"
      (is "?L \<longleftrightarrow> ?R")
    proof
      assume r: ?R
      then have "v = u name @ drop (length (u name)) v" using append_take_drop_id [of "length (u name)" v] by simp
      with r show ?L by blast
    qed auto
    define rest where "rest = drop (length (u name)) v"
    show ?thesis
    proof (cases "take (length (u name)) v = u name")
      case True
      have "rx_ends (Lit name) (b, v) = [(rev (u name) @ b, rest)]" unfolding Lit_ends if_P [OF True] rest_def ..
      then have "rx_ends (Seq (Lit name) (NotAhead (\<lambda>c. \<not> pdf_break c))) (b, v) \<noteq> [] \<longleftrightarrow> rest = [] \<or> pdf_break (hd rest)"
        by (simp add: first_is_def)
      then show ?thesis unfolding same rest_def using True by blast
    next
      case False
      have "rx_ends (Lit name) (b, v) = []" unfolding Lit_ends if_not_P [OF False] ..
      then have "rx_ends (Seq (Lit name) (NotAhead (\<lambda>c. \<not> pdf_break c))) (b, v) = []" by simp
      then show ?thesis unfolding same using False by blast
    qed
  qed
  show ?thesis
  proof
    assume "name_present payload name"
    from found_at [OF this [unfolded name_present_def rx_search_def]]
    obtain w v where wv: "payload = w @ v" "rx_ends (Seq (Lit name) (NotAhead (\<lambda>c. \<not> pdf_break c))) (rev w @ [], v) \<noteq> []" by blast
    from wv(2) [unfolded ends] wv(1) show "carries_name payload name" unfolding carries_name_def by blast
  next
    assume "carries_name payload name"
    then obtain a b where ab: "payload = a @ u name @ b" "b = [] \<or> pdf_break (hd b)" unfolding carries_name_def by blast
    then have "rx_ends (Seq (Lit name) (NotAhead (\<lambda>c. \<not> pdf_break c))) (rev a @ [], u name @ b) \<noteq> []" unfolding ends by blast
    from found_later [OF this] show "name_present payload name" unfolding name_present_def rx_search_def ab(1) .
  qed
qed

section \<open>Only passive files are inspected\<close>

lemma envelope_passive:
  assumes "validate_envelope b = Inr n"
  shows "\<exists>rest. b = u ''%PDF-'' @ rest" "\<exists>body blank. b = body @ u ''%%EOF'' @ blank \<and> list_all b_space blank"
    "length b \<le> MAX_PDF_BYTES" "\<forall>name \<in> set ACTIVE_NAMES. \<not> carries_name b name"
proof -
  have v: "starts_with (u ''%PDF-'') b" "ends_with (u ''%%EOF'') (b_rstrip b)" "length b \<le> MAX_PDF_BYTES"
    "\<not> list_ex (name_present b) ACTIVE_NAMES"
    using assms unfolding validate_envelope_def Let_def by (auto split: if_splits)
  show "\<exists>rest. b = u ''%PDF-'' @ rest" using v(1) unfolding starts_with_def by (metis append_take_drop_id)
  show "length b \<le> MAX_PDF_BYTES" by (rule v(3))
  show "\<forall>name \<in> set ACTIVE_NAMES. \<not> carries_name b name" using v(4) by (simp add: list_ex_iff name_present_iff)
  have "b = b_rstrip b @ rev (takeWhile b_space (rev b))"
    unfolding b_rstrip_def by (metis rev_append rev_rev_ident takeWhile_dropWhile_id)
  moreover have "list_all b_space (rev (takeWhile b_space (rev b)))"
    using set_takeWhileD by (fastforce simp: list_all_iff)
  moreover obtain body where "b_rstrip b = body @ u ''%%EOF''"
    using v(2) unfolding ends_with_def by (metis append_take_drop_id)
  ultimately show "\<exists>body blank. b = body @ u ''%%EOF'' @ blank \<and> list_all b_space blank" by (metis append_assoc)
qed

definition is_ocr_required :: "exn \<Rightarrow> bool" where
  "is_ocr_required e = (case e of OcrRequired s \<Rightarrow> True | _ \<Rightarrow> False)"

lemma envelope_errors: "validate_envelope b = Inl e \<Longrightarrow> \<not> is_ocr_required e"
  unfolding validate_envelope_def Let_def by (auto simp: is_ocr_required_def split: if_splits)

lemma caught_errors: "\<not> is_ocr_required (caught_as classes message fault)"
  by (simp add: caught_as_def is_ocr_required_def)

lemma page_errors: "page_fragments page = Inl e \<Longrightarrow> \<not> is_ocr_required e"
  using caught_errors
  by (auto simp: page_fragments_def split: option.splits) (simp add: is_ocr_required_def)

lemma count_errors: "count_fragments fs n = Inl e \<Longrightarrow> \<not> is_ocr_required e"
  by (induction fs n rule: count_fragments.induct) (auto simp: is_ocr_required_def split: if_splits)

lemma pages_errors: "count_pages ps n = Inl e \<Longrightarrow> \<not> is_ocr_required e"
  by (induction ps n rule: count_pages.induct)
    (auto simp: rbind_Inl_iff is_ocr_required_def dest: page_errors count_errors split: sum.splits)

text \<open>A file that passes, or fails for its lack of text alone, is passive.\<close>

lemma inspected_passive:
  assumes "case inspect_pdf_as need sha pypdf payload of Inr i \<Rightarrow> True | Inl e \<Rightarrow> is_ocr_required e"
  shows "passive_pdf pypdf payload"
proof -
  obtain n where n: "validate_envelope (byte_values payload) = Inr n"
    using assms envelope_errors by (cases "validate_envelope (byte_values payload)") (auto simp: inspect_pdf_as_def)
  obtain reader where r: "pypdf payload = Inr reader"
    using assms caught_errors by (cases "pypdf payload") (auto simp: inspect_pdf_as_def n read_pdf_def)
  have plain: "\<not> rd_encrypted reader"
    using assms by (auto simp: inspect_pdf_as_def n read_pdf_def r is_ocr_required_def)
  obtain pages where p: "rd_pages reader = Inr pages"
    using assms caught_errors plain by (cases "rd_pages reader") (auto simp: inspect_pdf_as_def n read_pdf_def r)
  have "1 \<le> length pages \<and> length pages \<le> MAX_PDF_PAGES"
    using assms plain by (auto simp: inspect_pdf_as_def n read_pdf_def r p is_ocr_required_def not_less Suc_le_eq split: if_splits)
  then show ?thesis
    using envelope_passive [OF n] r plain p unfolding passive_pdf_def Let_def by blast
qed

end
