(* ===== verification/Ingestion.thy ===== *)
theory Ingestion
  imports PdfDocument
begin

text \<open>
  \<open>fincilia_contracts/ingestion.py\<close>: what may enter (\<open>admit\<close>) and what may leave quarantine
  (\<open>decide_promotion\<close>). The type is decided by signature, the limits of an archive are checked on its
  directory, secrets are found by pattern and a finding says where and what kind, never the value. PDF files are
  inspected as in \<open>PdfDocument\<close>. The zip directory, the readers of spreadsheets and open documents, \<open>pypdf\<close>,
  SHA-256 and the Unicode tables are the fields of the argument \<open>outside\<close>.
\<close>

section \<open>Limits and types\<close>

definition MAX_UPLOAD_BYTES :: nat where "MAX_UPLOAD_BYTES = 25 * 1024 * 1024"
definition MAX_UNCOMPRESSED_BYTES :: nat where "MAX_UNCOMPRESSED_BYTES = 200 * 1024 * 1024"
definition MAX_COMPRESSION_RATIO :: nat where "MAX_COMPRESSION_RATIO = 100"
definition MAX_ARCHIVE_ENTRIES :: nat where "MAX_ARCHIVE_ENTRIES = 512"
definition MAX_TEXT_LINES :: nat where "MAX_TEXT_LINES = 1000000"
definition HEAD_BYTES :: nat where "HEAD_BYTES = 8192"

definition SIGNATURES :: "(nat list \<times> string) list" where
  "SIGNATURES = [([0x89, 0x50, 0x4E, 0x47, 0x0D, 0x0A, 0x1A, 0x0A], ''image/png''),
     ([0xD0, 0xCF, 0x11, 0xE0, 0xA1, 0xB1, 0x1A, 0xE1], ''application/vnd.ms-excel''),
     (u ''%PDF-'', ''application/pdf''), ([0x50, 0x4B, 0x03, 0x04], ''application/zip''),
     ([0xFF, 0xD8, 0xFF], ''image/jpeg''), ([0x1F, 0x8B], ''application/gzip'')]"

definition EXECUTABLE_SIGNATURES :: "(nat list \<times> string) list" where
  "EXECUTABLE_SIGNATURES = [(u ''MZ'', ''dos_or_windows_executable''), (0x7F # u ''ELF'', ''elf_executable''),
     ([0xCA, 0xFE, 0xBA, 0xBE], ''java_class_or_macho_fat''), ([0xFE, 0xED, 0xFA, 0xCE], ''mach_o_executable''),
     ([0xFE, 0xED, 0xFA, 0xCF], ''mach_o_executable''), (u ''#!'', ''interpreter_script'')]"

definition ACCEPTED_MEDIA_TYPES :: "string list" where
  "ACCEPTED_MEDIA_TYPES = [''text/csv'', ''application/pdf'', ''application/zip'']"

definition EXTENSION_TYPES :: "(string \<times> string) list" where
  "EXTENSION_TYPES = [(''.csv'', ''text/csv''), (''.txt'', ''text/plain''), (''.tsv'', ''text/csv''),
     (''.pdf'', ''application/pdf''), (''.xlsx'', ''application/zip''), (''.ods'', ''application/zip''),
     (''.zip'', ''application/zip''), (''.xls'', ''application/vnd.ms-excel''), (''.gz'', ''application/gzip''),
     (''.png'', ''image/png''), (''.jpg'', ''image/jpeg''), (''.jpeg'', ''image/jpeg'')]"

definition DELIMITERS :: "nat list" where
  "DELIMITERS = [44, 59, 9, 124]"

section \<open>Patterns of secrets\<close>

definition PAN_DIGIT :: rx where
  "PAN_DIGIT = Seq (Sym r_digit) (Opt (Sym (among '' -'')))"

definition PAN_CANDIDATE :: rx where
  "PAN_CANDIDATE = Seq (NotBehind r_digit) (Seq (Times 12 18 PAN_DIGIT) (Seq (Sym r_digit) (NotAhead r_digit)))"

definition r_key :: "nat \<Rightarrow> bool" where
  "r_key c = (r_upper c \<or> r_digit c)"

definition SECRET_PATTERNS :: "(nat \<Rightarrow> bool) \<Rightarrow> (string \<times> rx) list" where
  "SECRET_PATTERNS alnum =
     [(''private_key'', Seq (Lit ''-----BEGIN '') (Seq (Many 0 (\<lambda>c. r_upper c \<or> c = 32)) (Lit ''PRIVATE KEY-----''))),
      (''aws_access_key'', Seq (NotBehind r_key) (Seq (Alt (Lit ''AKIA'') (Lit ''ASIA''))
         (Seq (Times 16 16 (Sym r_key)) (NotAhead r_key)))),
      (''bearer_token'', Seq (Edge (r_word alnum)) (Seq (Lit_i ''bearer'') (Seq (Many 1 u_space)
         (Many 20 (\<lambda>c. r_letter c \<or> r_digit c \<or> among ''._~+/-'' c))))),
      (''password_assignment'', Seq (Edge (r_word alnum))
         (Seq (Alt (Lit_i ''password'') (Alt (Lit_i ''passwd'')
            (Alt (Seq (Lit_i ''contrase'') (Seq (Sym (\<lambda>c. folded c = 110 \<or> folded c = 0xF1)) (Lit_i ''a'')))
            (Alt (Lit_i ''secret'') (Seq (Lit_i ''api'') (Seq (Opt (Sym (among ''_-''))) (Lit_i ''key'')))))))
         (Seq (Many 0 u_space) (Seq (Sym (among '':='')) (Seq (Many 0 u_space) (Many 6 (\<lambda>c. \<not> u_space c))))))),
      (''connection_string'', Seq (Edge (r_word alnum))
         (Seq (Alt (Lit_i ''postgres'') (Alt (Lit_i ''postgresql'') (Alt (Lit_i ''mysql'') (Lit_i ''mongodb''))))
         (Seq (Lit_i ''://'') (Seq (Many 1 (\<lambda>c. \<not> u_space c \<and> c \<noteq> 58)) (Seq (Sym (\<lambda>c. c = 58))
         (Seq (Many 1 (\<lambda>c. \<not> u_space c \<and> c \<noteq> 64)) (Sym (\<lambda>c. c = 64))))))))]"

section \<open>Findings\<close>

record scan_finding =
  sf_kind :: string
  sf_location :: utext
  sf_detail :: string

definition scan_hit :: "string \<Rightarrow> utext \<Rightarrow> string \<Rightarrow> scan_finding" where
  "scan_hit k l d = \<lparr>sf_kind = k, sf_location = l, sf_detail = d\<rparr>"

lemma hit_simps [simp]: "sf_kind (scan_hit k l d) = k" "sf_location (scan_hit k l d) = l" "sf_detail (scan_hit k l d) = d"
  by (simp_all add: scan_hit_def)

definition luhn_value :: "nat \<Rightarrow> nat \<Rightarrow> nat" where
  "luhn_value index d = (if index mod 2 = 1 then (if d * 2 > 9 then d * 2 - 9 else d * 2) else d)"

definition luhn_valid :: "utext \<Rightarrow> bool" where
  "luhn_valid digits = (sum_list (map (\<lambda>(i, c). luhn_value i (c - 48)) (enumerate_from 0 (rev digits))) mod 10 = 0)"

definition pan_digits :: "utext \<Rightarrow> utext" where
  "pan_digits m = filter (\<lambda>c. \<not> among '' -'' c) m"

definition is_pan :: "utext \<Rightarrow> bool" where
  "is_pan digits = (13 \<le> length digits \<and> length digits \<le> 19 \<and> luhn_valid digits)"

definition line_location :: "nat \<Rightarrow> utext" where
  "line_location n = u (''line '' @ show_nat n)"

text \<open>The first candidate of the line that passes the check, and every pattern of a credential.\<close>

definition scan_line :: "(nat \<Rightarrow> bool) \<Rightarrow> nat \<Rightarrow> utext \<Rightarrow> scan_finding list" where
  "scan_line alnum n line =
     (case filter is_pan (map pan_digits (finditer PAN_CANDIDATE line)) of
        [] \<Rightarrow> []
      | digits # _ \<Rightarrow> [scan_hit ''payment_card_number'' (line_location n) (show_nat (length digits) @ '' digits passing the Luhn check'')])
     @ map (\<lambda>(kind, pattern). scan_hit kind (line_location n) ''matches a credential pattern'')
         (filter (\<lambda>(kind, pattern). rx_search pattern line) (SECRET_PATTERNS alnum))"

fun scan_lines :: "(nat \<Rightarrow> bool) \<Rightarrow> nat \<Rightarrow> nat \<Rightarrow> utext list \<Rightarrow> scan_finding list \<Rightarrow> scan_finding list" where
  "scan_lines alnum max_findings n [] fs = fs"
| "scan_lines alnum max_findings n (l # ls) fs =
     (if max_findings \<le> length fs then fs else scan_lines alnum max_findings (Suc n) ls (fs @ scan_line alnum n l))"

definition scan_text :: "nat list \<Rightarrow> utext" where
  "scan_text payload = (case utf8_decode payload of Some t \<Rightarrow> t
     | None \<Rightarrow> (case latin1_decode payload of Some t \<Rightarrow> t | None \<Rightarrow> []))"

definition scan_secrets :: "(nat \<Rightarrow> bool) \<Rightarrow> nat list \<Rightarrow> nat \<Rightarrow> scan_finding list" where
  "scan_secrets alnum payload max_findings =
     take max_findings (scan_lines alnum max_findings 1 (splitlines (scan_text payload)) [])"

definition count_lines :: "bytes \<Rightarrow> (exn, nat) result" where
  "count_lines payload = (let lines = length (filter (\<lambda>c. c = chr_nl) payload) in
     if MAX_TEXT_LINES < lines then Inl (RejectedUpload (''file exceeds the '' @ show_nat MAX_TEXT_LINES @ '' line ceiling''))
     else Inr lines)"

section \<open>Detection\<close>

record detection =
  dt_media_type :: string
  dt_declared :: "string option"
  dt_matches :: bool
  dt_sniffed :: nat

definition accepted_type :: "detection \<Rightarrow> bool" where
  "accepted_type d = (dt_media_type d \<in> set ACCEPTED_MEDIA_TYPES)"

definition extension_type :: "(utext \<Rightarrow> utext) \<Rightarrow> utext \<Rightarrow> string option" where
  "extension_type lower filename =
     map_option snd (find (\<lambda>(extension, media). ends_with (u extension) (lower filename)) EXTENSION_TYPES)"

text \<open>
  The share of printable bytes is a float in the source. The bound 0.95 is the nearest float of 19/20,
  so for heads of at most 8192 bytes the comparison is the exact one.
\<close>

definition printable_byte :: "nat \<Rightarrow> bool" where
  "printable_byte b = ((9 \<le> b \<and> b \<le> 13) \<or> (32 \<le> b \<and> b \<le> 126) \<or> (160 \<le> b \<and> b \<le> 255))"

definition looks_textual :: "nat list \<Rightarrow> bool" where
  "looks_textual head =
     (if 0 \<in> set head then False
      else if utf8_decode head \<noteq> None then True
      else head \<noteq> [] \<and> 19 * length head < 20 * length (filter printable_byte head))"

text \<open>Decoding with \<open>errors="replace"\<close>: how many bytes one replacement character stands for.\<close>

definition utf8_skip :: "nat \<Rightarrow> nat list \<Rightarrow> nat" where
  "utf8_skip b bs =
     (if 0xE0 \<le> b \<and> b \<le> 0xEF then
        (case bs of c1 # _ \<Rightarrow> if is_cont c1 \<and> \<not> (b = 0xE0 \<and> c1 < 0xA0) \<and> \<not> (b = 0xED \<and> 0x9F < c1) then 2 else 1 | [] \<Rightarrow> 1)
      else if 0xF0 \<le> b \<and> b \<le> 0xF4 then
        (case bs of c1 # cs \<Rightarrow>
            if is_cont c1 \<and> \<not> (b = 0xF0 \<and> c1 < 0x90) \<and> \<not> (b = 0xF4 \<and> 0x8F < c1)
            then (case cs of c2 # _ \<Rightarrow> if is_cont c2 then 3 else 2 | [] \<Rightarrow> 2) else 1
          | [] \<Rightarrow> 1)
      else 1)"

fun utf8_replace :: "nat list \<Rightarrow> utext" where
  "utf8_replace [] = []"
| "utf8_replace (b # bs) = (case utf8_step b bs of
     Some (c, k) \<Rightarrow> c # utf8_replace (drop k bs)
   | None \<Rightarrow> 0xFFFD # utf8_replace (drop (utf8_skip b bs - 1) bs))"

definition first_line :: "utext \<Rightarrow> utext" where
  "first_line t = (case splitlines t of l # _ \<Rightarrow> l | [] \<Rightarrow> [])"

definition signature_of :: "(nat list \<times> string) list \<Rightarrow> nat list \<Rightarrow> string option" where
  "signature_of table head = map_option snd (find (\<lambda>(signature, label). starts_with signature head) table)"

definition detect :: "(utext \<Rightarrow> utext) \<Rightarrow> bytes \<Rightarrow> utext \<Rightarrow> (exn, detection) result" where
  "detect lower payload filename =
     (let head = byte_values (take HEAD_BYTES payload);
          declared = (if filename \<noteq> [] then extension_type lower filename else None) in
      case signature_of EXECUTABLE_SIGNATURES head of
        Some label \<Rightarrow> Inl (RejectedUpload (''executable content is never accepted ('' @ label @ '')''))
      | None \<Rightarrow>
          rbind (case signature_of SIGNATURES head of
              Some media \<Rightarrow> Inr media
            | None \<Rightarrow>
                if \<not> looks_textual head then Inl (RejectedUpload ''unrecognised binary content'')
                else Inr (if list_ex (\<lambda>d. d \<in> set (first_line (utf8_replace head))) DELIMITERS then ''text/csv'' else ''text/plain''))
            (\<lambda>detected. Inr \<lparr>dt_media_type = detected, dt_declared = declared,
               dt_matches = (declared = None \<or> declared = Some detected), dt_sniffed = length head\<rparr>))"

definition check_size :: "int \<Rightarrow> (exn, unit) result" where
  "check_size byte_size =
     (if byte_size \<le> 0 then Inl (RejectedUpload ''an empty file carries no evidence'')
      else if int MAX_UPLOAD_BYTES < byte_size
      then Inl (RejectedUpload (''file exceeds the '' @ show_nat MAX_UPLOAD_BYTES @ '' byte ceiling for a single upload''))
      else Inr ())"

section \<open>Archives\<close>

record zip_entry =
  ze_name :: utext
  ze_size :: nat
  ze_stored :: nat

text \<open>The directory of a zip file, and what opening and reading 128 bytes of its entry \<open>mimetype\<close> gives.\<close>

record zip_archive =
  za_entries :: "zip_entry list"
  za_mimetype :: "(exn, nat list) result"

text \<open>What the readers of the other modules say of a file.\<close>

record sheet =
  sh_name :: utext
  sh_identity :: string
  sh_state :: string
  sh_ordinal :: int

record workbook =
  wb_sheets :: "sheet list"
  wb_formulas :: int
  wb_active :: "utext list"
  wb_external :: int

type_synonym texts = "(utext \<times> utext) list \<times> exn option"

record outside =
  out_zip :: "bytes \<Rightarrow> zip_archive option"
  out_workbook :: "bytes \<Rightarrow> (exn, workbook) result"
  out_workbook_texts :: "bytes \<Rightarrow> texts"
  out_document :: "bytes \<Rightarrow> (exn, workbook) result"
  out_document_texts :: "bytes \<Rightarrow> texts"
  out_pypdf :: pypdf
  out_sha :: "nat list \<Rightarrow> string"
  out_lower :: "utext \<Rightarrow> utext"
  out_casefold :: "utext \<Rightarrow> utext"
  out_alnum :: "nat \<Rightarrow> bool"

text \<open>
  \<open>total / len > 100\<close> and \<open>file_size / compress_size > 100\<close> are float divisions of integers below
  \<open>2 ^ 28\<close>, so comparing the products is exact.
\<close>

definition escapes :: "utext \<Rightarrow> bool" where
  "escapes name = (starts_with [47] name \<or> [46, 46] \<in> set (split_char 47 (map (\<lambda>c. if c = 92 then 47 else c) name)))"

definition expands :: "zip_entry \<Rightarrow> bool" where
  "expands e = (ze_size e \<noteq> 0 \<and> ze_stored e \<noteq> 0 \<and> MAX_COMPRESSION_RATIO * ze_stored e < ze_size e)"

fun inspect_entries :: "zip_entry list \<Rightarrow> (exn, scan_finding list) result" where
  "inspect_entries [] = Inr []"
| "inspect_entries (e # es) =
     (if escapes (ze_name e) then Inl (RejectedUpload ''the archive contains a path that escapes its root'')
      else rbind (inspect_entries es) (\<lambda>fs. Inr ((if expands e
        then [scan_hit ''high_compression_entry'' (ze_name e) ''single entry expands far beyond its stored size''] else []) @ fs)))"

definition inspect_archive :: "(bytes \<Rightarrow> zip_archive option) \<Rightarrow> bytes \<Rightarrow> (exn, scan_finding list) result" where
  "inspect_archive unzip payload = (case unzip payload of
     None \<Rightarrow> Inl (RejectedUpload ''the archive is not readable'')
   | Some archive \<Rightarrow>
      let entries = za_entries archive; total = sum_list (map ze_size entries) in
      if MAX_ARCHIVE_ENTRIES < length entries
      then Inl (RejectedUpload (''the archive declares '' @ show_nat (length entries) @ '' entries, over the ''
             @ show_nat MAX_ARCHIVE_ENTRIES @ '' ceiling''))
      else if MAX_UNCOMPRESSED_BYTES < total
      then Inl (RejectedUpload (''the archive declares '' @ show_nat total @ '' uncompressed bytes, over the ceiling''))
      else if payload \<noteq> [] \<and> MAX_COMPRESSION_RATIO * max 1 (length payload) < total
      then Inl (RejectedUpload ''the archive expands more than the accepted ratio; it is treated as a bomb'')
      else inspect_entries entries)"

definition XLSX_MARKERS :: "utext list" where
  "XLSX_MARKERS = [u ''[Content_Types].xml'', u ''xl/workbook.xml'']"

definition ODS_MIMETYPE :: "nat list" where
  "ODS_MIMETYPE = u ''application/vnd.oasis.opendocument.spreadsheet''"

definition MACRO_ENTRIES :: "utext list" where
  "MACRO_ENTRIES = [u ''xl/vbaproject.bin'', u ''macros/'', u ''basic/'', u ''scripts/'']"

definition identify_archive :: "outside \<Rightarrow> bytes \<Rightarrow> (exn, string) result" where
  "identify_archive x payload = (case out_zip x payload of
     None \<Rightarrow> Inl (RejectedUpload ''the archive is not readable'')
   | Some archive \<Rightarrow>
      let names = map ze_name (za_entries archive) in
      case (if u ''mimetype'' \<in> set names then za_mimetype archive else Inr []) of
        Inl e \<Rightarrow> Inl (if e = BadZipFile then RejectedUpload ''the archive is not readable'' else e)
      | Inr mimetype \<Rightarrow>
          if list_ex (\<lambda>n. list_ex (\<lambda>m. starts_with m (out_casefold x n)) MACRO_ENTRIES) names then Inr ''macro_enabled''
          else if starts_with ODS_MIMETYPE mimetype then Inr ''ods''
          else if list_all (\<lambda>m. m \<in> set names) XLSX_MARKERS then Inr ''xlsx''
          else Inr ''zip'')"

section \<open>Decisions\<close>

definition FULLY_INSPECTABLE :: "string list" where
  "FULLY_INSPECTABLE = [''text/csv'', ''xlsx'', ''ods'']"

definition SENSITIVE_KINDS :: "string list" where
  "SENSITIVE_KINDS = [''payment_card_number'', ''private_key'', ''aws_access_key'', ''bearer_token'',
     ''password_assignment'', ''connection_string'']"

record promotion =
  de_decision :: string
  de_reason :: string
  de_media_type :: string
  de_internal :: string
  de_findings :: "scan_finding list"
  de_workbook :: "(string \<times> sheet list) option"
  de_selection :: bool
  de_document :: "pydict option"

definition promoted :: "promotion \<Rightarrow> bool" where
  "promoted d = (de_decision d = ''promoted'')"

definition decide :: "string \<Rightarrow> string \<Rightarrow> string \<Rightarrow> string \<Rightarrow> scan_finding list \<Rightarrow> promotion" where
  "decide verdict why media internal fs = \<lparr>de_decision = verdict, de_reason = why, de_media_type = media,
     de_internal = internal, de_findings = fs, de_workbook = None, de_selection = False, de_document = None\<rparr>"

definition sensitive :: "scan_finding list \<Rightarrow> bool" where
  "sensitive fs = list_ex (\<lambda>f. sf_kind f \<in> set SENSITIVE_KINDS) fs"

definition relocate :: "(scan_finding \<Rightarrow> utext) \<Rightarrow> scan_finding list \<Rightarrow> scan_finding list" where
  "relocate place fs = map (\<lambda>f. scan_hit (sf_kind f) (place f) (sf_detail f)) fs"

text \<open>Scanning the texts of a workbook: no more once fifty findings are known. An exception keeps them.\<close>

fun scan_parts :: "(nat \<Rightarrow> bool) \<Rightarrow> (utext \<times> utext) list \<Rightarrow> exn option \<Rightarrow> scan_finding list \<Rightarrow> scan_finding list \<times> exn option" where
  "scan_parts alnum [] failure fs = (fs, failure)"
| "scan_parts alnum ((part, value) # rest) failure fs =
     (if 50 \<le> length fs then (fs, None)
      else case encode_strict value of
        Inl e \<Rightarrow> (fs, Some e)
      | Inr b \<Rightarrow> scan_parts alnum rest failure
          (fs @ relocate (\<lambda>f. part @ u '':'' @ sf_location f) (scan_secrets alnum b (50 - length fs))))"

definition block_location :: "int \<Rightarrow> int \<Rightarrow> utext" where
  "block_location page block = u (''page:'' @ show_int page @ '':block:'' @ show_int block)"

fun scan_values :: "(nat \<Rightarrow> bool) \<Rightarrow> utext \<Rightarrow> utext list \<Rightarrow> scan_finding list \<Rightarrow> (exn, scan_finding list) result" where
  "scan_values alnum place [] fs = Inr fs"
| "scan_values alnum place (v # vs) fs =
     (if 50 \<le> length fs then Inr fs
      else rbind (encode_strict v) (\<lambda>b. scan_values alnum place vs (fs @ relocate (\<lambda>f. place) (scan_secrets alnum b (50 - length fs)))))"

text \<open>The rows of a PDF file. An exception keeps what was found before it.\<close>

fun scan_pages :: "(nat \<Rightarrow> bool) \<Rightarrow> pdf_row list \<Rightarrow> exn option \<Rightarrow> scan_finding list \<Rightarrow> scan_finding list \<times> exn option" where
  "scan_pages alnum [] failure fs = (fs, failure)"
| "scan_pages alnum (r # rs) failure fs =
     (case scan_values alnum (block_location (int (pr_page r)) (int (pr_block r))) (pr_values r) fs of
        Inl e \<Rightarrow> (fs, Some e) | Inr fs' \<Rightarrow> scan_pages alnum rs failure fs')"

fun scan_blocks :: "(nat \<Rightarrow> bool) \<Rightarrow> ocr_block list \<Rightarrow> scan_finding list \<Rightarrow> (exn, scan_finding list) result" where
  "scan_blocks alnum [] fs = Inr fs"
| "scan_blocks alnum (b # bs) fs = rbind (encode_strict (ob_text b)) (\<lambda>e.
     let detected = scan_secrets alnum e (max 1 (50 - length fs)) in
     scan_blocks alnum bs (if length fs < 50
       then fs @ relocate (\<lambda>f. block_location (ob_page b) (ob_block b)) (take (50 - length fs) detected) else fs))"

definition ocr_state :: "string \<Rightarrow> pydict" where
  "ocr_state state = [(''document_kind'', PStr ''pdf''), (''ocr_state'', PStr state), (''requires_human_review'', PBool True)]"

definition mismatch_findings :: "detection \<Rightarrow> utext \<Rightarrow> scan_finding list" where
  "mismatch_findings d filename = (if dt_matches d then [] else
     [scan_hit ''extension_mismatch'' filename (''the name suggests ''
        @ (case dt_declared d of None \<Rightarrow> ''None'' | Some t \<Rightarrow> t) @ '', the bytes say '' @ dt_media_type d)])"

text \<open>The branch of PDF files: \<open>sniff_pdf\<close> and the rows are one \<open>try\<close> block.\<close>

definition pdf_scan :: "outside \<Rightarrow> bytes \<Rightarrow> scan_finding list \<Rightarrow> scan_finding list \<times> (exn, pydict) result" where
  "pdf_scan x payload fs = (case sniff_pdf (out_sha x) (out_pypdf x) payload of
     Inl e \<Rightarrow> (fs, Inl e)
   | Inr (inspection, preamble) \<Rightarrow>
       (case stream_pdf_rows (out_sha x) (out_pypdf x) payload preamble (in_sha256 inspection) of (rows, failure) \<Rightarrow>
          case scan_pages (out_alnum x) rows failure fs of
            (fs', Some e) \<Rightarrow> (fs', Inl e) | (fs', None) \<Rightarrow> (fs', Inr (pdf_manifest inspection))))"

definition is_pdf_error :: "exn \<Rightarrow> bool" where
  "is_pdf_error e = (case e of PdfError s \<Rightarrow> True | OcrRequired s \<Rightarrow> True | OcrError s \<Rightarrow> True | _ \<Rightarrow> False)"

definition is_ocr_error :: "exn \<Rightarrow> bool" where
  "is_ocr_error e = (case e of OcrError s \<Rightarrow> True | _ \<Rightarrow> False)"

definition promote_ocr :: "outside \<Rightarrow> bytes \<Rightarrow> scan_finding list \<Rightarrow> ocr_document \<Rightarrow> (exn, promotion) result" where
  "promote_ocr x payload fs ocr =
     (case (if oc_sha256 ocr \<noteq> out_sha x (byte_values payload)
            then Inl (OcrError ''the OCR derivative belongs to another artifact'')
            else scan_blocks (out_alnum x) (oc_blocks ocr) fs) of
        Inl e \<Rightarrow>
          if is_ocr_error e
          then Inr (decide ''quarantined'' ''ocr_invalid'' ''application/pdf'' ''pdf''
                 (fs @ [scan_hit ''invalid_ocr_derivative'' (u ''pdf'') ''the OCR derivative is incomplete or belongs to another artifact''])
                 \<lparr>de_document := Some (ocr_state ''failed'')\<rparr>)
          else Inl e
      | Inr fs' \<Rightarrow>
          Inr (if sensitive fs'
               then decide ''quarantined'' ''sensitive_content'' ''application/pdf'' ''pdf'' fs' \<lparr>de_document := Some (ocr_manifest ocr)\<rparr>
               else decide ''promoted'' ''content_inspected_ocr'' ''application/pdf'' ''pdf'' fs' \<lparr>de_document := Some (ocr_manifest ocr)\<rparr>))"

definition promote_pdf :: "outside \<Rightarrow> bytes \<Rightarrow> scan_finding list \<Rightarrow> ocr_document option \<Rightarrow> (exn, promotion) result" where
  "promote_pdf x payload fs ocr = (case pdf_scan x payload fs of
     (fs', Inr manifest) \<Rightarrow>
       Inr ((if sensitive fs' then decide ''quarantined'' ''sensitive_content'' ''application/pdf'' ''pdf'' fs'
             else decide ''promoted'' ''content_inspected'' ''application/pdf'' ''pdf'' fs') \<lparr>de_document := Some manifest\<rparr>)
   | (fs', Inl e) \<Rightarrow>
       if is_ocr_required e then
         (case ocr of Some document \<Rightarrow> promote_ocr x payload fs' document
          | None \<Rightarrow> Inr (decide ''quarantined'' ''ocr_required'' ''application/pdf'' ''pdf'' fs' \<lparr>de_document := Some (ocr_state ''required'')\<rparr>))
       else if is_pdf_error e then
         Inr (decide ''rejected'' ''unsafe_or_active_pdf'' ''application/pdf'' ''pdf''
           (fs' @ [scan_hit ''unsafe_pdf_structure'' (u ''pdf'') ''the document is active, encrypted, malformed or outside safe limits'']))
       else Inl e)"

text \<open>The branches of workbooks differ in their texts and in what happens when reading the cells fails.\<close>

definition workbook_manifest :: "outside \<Rightarrow> bytes \<Rightarrow> workbook \<Rightarrow> string \<times> sheet list" where
  "workbook_manifest x payload w = (out_sha x (byte_values payload), wb_sheets w)"

definition select_sheet :: "outside \<Rightarrow> bytes \<Rightarrow> string \<Rightarrow> utext \<Rightarrow> workbook \<Rightarrow> scan_finding list \<Rightarrow> promotion" where
  "select_sheet x payload internal place w fs =
     (let manifest = Some (workbook_manifest x payload w) in
      if filter (\<lambda>s. sh_state s = ''visible'') (wb_sheets w) = []
      then decide ''quarantined'' ''no_visible_worksheet'' ''application/zip'' internal
             (fs @ [scan_hit ''worksheet_visibility'' place (''the '' @ (if internal = ''xlsx'' then ''workbook'' else ''document'')
                @ '' has no visible worksheet that can be selected'')]) \<lparr>de_workbook := manifest, de_selection := True\<rparr>
      else if length (wb_sheets w) \<noteq> 1
      then decide ''promoted'' ''content_inspected_selection_required'' ''application/zip'' internal
             (fs @ [scan_hit ''worksheet_selection'' place (''the '' @ (if internal = ''xlsx'' then ''workbook'' else ''document'')
                @ '' requires an explicit worksheet selection'')]) \<lparr>de_workbook := manifest, de_selection := True\<rparr>
      else decide ''promoted'' ''content_inspected'' ''application/zip'' internal fs \<lparr>de_workbook := manifest\<rparr>)"

definition malformed_workbook :: "string \<Rightarrow> utext \<Rightarrow> string \<Rightarrow> scan_finding list \<Rightarrow> promotion" where
  "malformed_workbook internal place why fs = decide ''quarantined'' ''unsafe_or_malformed_workbook'' ''application/zip'' internal
     (fs @ [scan_hit ''workbook_structure'' place why])"

definition promote_workbook :: "outside \<Rightarrow> bytes \<Rightarrow> scan_finding list \<Rightarrow> (exn, promotion) result" where
  "promote_workbook x payload fs = (case out_workbook x payload of
     Inl (SpreadsheetError m) \<Rightarrow> Inr (malformed_workbook ''xlsx'' (u ''xlsx package'')
       ''the workbook is malformed or uses an unsafe XML/package feature'' fs)
   | Inl e \<Rightarrow> Inl e
   | Inr w \<Rightarrow>
       if wb_active w \<noteq> [] \<or> wb_external w \<noteq> 0
       then Inr (decide ''rejected'' ''active_workbook_content'' ''application/zip'' ''xlsx''
              (fs @ [scan_hit ''active_workbook_content'' (u ''xlsx package'') ''active, embedded or externally linked content is not accepted'']))
       else if wb_formulas w \<noteq> 0
       then Inr (decide ''quarantined'' ''formula_review_required'' ''application/zip'' ''xlsx''
              (fs @ [scan_hit ''formula_cells'' (u ''xlsx worksheet'') ''formula cells require an explicit review flow and are never executed'']))
       else case scan_parts (out_alnum x) (fst (out_workbook_texts x payload)) (snd (out_workbook_texts x payload)) fs of
           (fs', Some e) \<Rightarrow> Inl e
         | (fs', None) \<Rightarrow>
             if sensitive fs' then Inr (decide ''quarantined'' ''sensitive_content'' ''application/zip'' ''xlsx'' fs')
             else Inr (select_sheet x payload ''xlsx'' (u ''xlsx workbook'') w fs'))"

definition promote_document :: "outside \<Rightarrow> bytes \<Rightarrow> scan_finding list \<Rightarrow> (exn, promotion) result" where
  "promote_document x payload fs = (case out_document x payload of
     Inl (OpenDocumentError m) \<Rightarrow> Inr (malformed_workbook ''ods'' (u ''ods package'')
       ''the document is malformed or uses an unsafe XML/package feature'' fs)
   | Inl e \<Rightarrow> Inl e
   | Inr w \<Rightarrow>
       if wb_active w \<noteq> [] \<or> wb_external w \<noteq> 0
       then Inr (decide ''rejected'' ''active_workbook_content'' ''application/zip'' ''ods''
              (fs @ [scan_hit ''active_workbook_content'' (u ''ods package'') ''scripts, objects, binary parts or externally linked content are not accepted'']))
       else if wb_formulas w \<noteq> 0
       then Inr (decide ''quarantined'' ''formula_review_required'' ''application/zip'' ''ods''
              (fs @ [scan_hit ''formula_cells'' (u ''ods worksheet'') ''formula cells require an explicit review flow and are never executed'']))
       else case scan_parts (out_alnum x) (fst (out_document_texts x payload)) (snd (out_document_texts x payload)) fs of
           (fs', Some (OpenDocumentError m)) \<Rightarrow>
             Inr (malformed_workbook ''ods'' (u ''ods package'') ''the document could not be inspected completely'' fs')
         | (fs', Some e) \<Rightarrow> Inl e
         | (fs', None) \<Rightarrow>
             if sensitive fs' then Inr (decide ''quarantined'' ''sensitive_content'' ''application/zip'' ''ods'' fs')
             else Inr (select_sheet x payload ''ods'' (u ''ods document'') w fs'))"

definition promote_text :: "outside \<Rightarrow> bytes \<Rightarrow> string \<Rightarrow> string \<Rightarrow> scan_finding list \<Rightarrow> (exn, promotion) result" where
  "promote_text x payload media internal fs =
     (if (if internal \<noteq> [] then internal else media) \<notin> set FULLY_INSPECTABLE
      then Inr (decide ''quarantined'' ''no_scanner_for_format'' media internal fs)
      else rbind (count_lines payload) (\<lambda>_.
        let fs' = fs @ scan_secrets (out_alnum x) (byte_values payload) 50 in
        Inr (if sensitive fs' then decide ''quarantined'' ''sensitive_content'' media internal fs'
             else decide ''promoted'' ''content_inspected'' media internal fs')))"

definition promote_archive :: "outside \<Rightarrow> bytes \<Rightarrow> scan_finding list \<Rightarrow> (exn, promotion) result" where
  "promote_archive x payload fs =
     rbind (inspect_archive (out_zip x) payload) (\<lambda>more.
     rbind (identify_archive x payload) (\<lambda>internal.
       if internal = ''macro_enabled''
       then Inr (decide ''rejected'' ''macro_enabled_archive'' ''application/zip'' internal (fs @ more))
       else if internal = ''xlsx'' then promote_workbook x payload (fs @ more)
       else if internal = ''ods'' then promote_document x payload (fs @ more)
       else promote_text x payload ''application/zip'' internal (fs @ more)))"

definition decide_promotion :: "outside \<Rightarrow> bytes \<Rightarrow> utext \<Rightarrow> ocr_document option \<Rightarrow> (exn, promotion) result" where
  "decide_promotion x payload filename ocr =
     rbind (detect (out_lower x) payload filename) (\<lambda>d.
       let fs = mismatch_findings d filename in
       if dt_media_type d = ''application/pdf'' then promote_pdf x payload fs ocr
       else if dt_media_type d = ''application/zip'' then promote_archive x payload fs
       else promote_text x payload (dt_media_type d) [] fs)"

section \<open>Admission\<close>

record admission =
  am_sha256 :: string
  am_size :: nat
  am_media_type :: string
  am_matches :: bool
  am_zone :: string
  am_findings :: "scan_finding list"

definition admission_promoted :: "admission \<Rightarrow> bool" where
  "admission_promoted a = (am_zone a = ''raw'')"

definition admit :: "outside \<Rightarrow> bytes \<Rightarrow> utext \<Rightarrow> (exn, admission) result" where
  "admit x payload filename =
     rbind (check_size (int (length payload))) (\<lambda>_.
     rbind (detect (out_lower x) payload filename) (\<lambda>d.
       if \<not> accepted_type d then Inl (RejectedUpload (dt_media_type d @ '' is not an accepted document type''))
       else rbind (if dt_media_type d = ''application/zip'' then inspect_archive (out_zip x) payload
                   else if starts_with ''text/'' (dt_media_type d) then rbind (count_lines payload) (\<lambda>_. Inr [])
                   else Inr []) (\<lambda>more.
         Inr \<lparr>am_sha256 = out_sha x (byte_values payload), am_size = length payload, am_media_type = dt_media_type d,
              am_matches = dt_matches d, am_zone = ''quarantine'', am_findings = mismatch_findings d filename @ more\<rparr>)))"

section \<open>The worker\<close>

text \<open>\<open>fincilia_worker/jobs.py\<close>: what a scan or an extraction that failed means for its job.\<close>

definition FATAL :: string where "FATAL = ''fatal''"
definition RETRYABLE :: string where "RETRYABLE = ''retryable''"
definition UNKNOWN :: string where "UNKNOWN = ''unknown''"

definition run_scan :: "outside \<Rightarrow> bytes \<Rightarrow> utext \<Rightarrow> ocr_document option \<Rightarrow> (string \<times> string, promotion) result" where
  "run_scan x payload filename ocr = (case decide_promotion x payload filename ocr of
     Inr d \<Rightarrow> Inr d
   | Inl (RejectedUpload m) \<Rightarrow> Inl (''unscannable'', FATAL)
   | Inl e \<Rightarrow> Inl (''scan_error'', UNKNOWN))"

definition classify_extraction :: "exn \<Rightarrow> string \<times> string" where
  "classify_extraction e = (case e of
     RawRecordConflict m \<Rightarrow> (''raw_record_conflict'', FATAL)
   | ExtractionError m \<Rightarrow> (''unextractable'', FATAL)
   | SpreadsheetError m \<Rightarrow> (''unextractable'', FATAL)
   | OpenDocumentError m \<Rightarrow> (''unextractable'', FATAL)
   | PdfError m \<Rightarrow> (''unextractable'', FATAL)
   | OcrRequired m \<Rightarrow> (''unextractable'', FATAL)
   | OcrError m \<Rightarrow> (''unextractable'', FATAL)
   | ObjectStoreError m \<Rightarrow> (''evidence_unreadable'', RETRYABLE)
   | _ \<Rightarrow> (''extraction_error'', UNKNOWN))"

end
