(* ===== verification/IngestionLaws.thy ===== *)
theory IngestionLaws
  imports Ingestion
begin

text \<open>
  What the rules of admission guarantee: only inspected, inert content without findings of secrets is
  promoted; admission always ends in quarantine; the check digit and the card pattern; and two ways in
  which a secret is missed.
\<close>

section \<open>Scanning\<close>

definition clean_line :: "(nat \<Rightarrow> bool) \<Rightarrow> utext \<Rightarrow> bool" where
  "clean_line alnum l = ((\<forall>m \<in> set (finditer PAN_CANDIDATE l). \<not> is_pan (pan_digits m))
     \<and> (\<forall>(k, p) \<in> set (SECRET_PATTERNS alnum). \<not> rx_search p l))"

definition clean_payload :: "(nat \<Rightarrow> bool) \<Rightarrow> nat list \<Rightarrow> bool" where
  "clean_payload alnum b = (\<forall>l \<in> set (splitlines (scan_text b)). clean_line alnum l)"

definition clean_text :: "(nat \<Rightarrow> bool) \<Rightarrow> utext \<Rightarrow> bool" where
  "clean_text alnum t = clean_payload alnum (utf8_encode t)"

lemma scan_line_clean: "scan_line alnum n l = [] \<longleftrightarrow> clean_line alnum l"
  by (auto simp: scan_line_def clean_line_def filter_empty_conv split: list.splits)

lemma scan_lines_append: "scan_lines alnum k n ls fs = [] \<Longrightarrow> fs = []"
  by (induction ls arbitrary: n fs) (auto split: if_splits)

lemma scan_lines_clean: "0 < k \<Longrightarrow> scan_lines alnum k n ls [] = [] \<longleftrightarrow> list_all (clean_line alnum) ls"
proof (induction ls arbitrary: n)
  case (Cons l ls)
  show ?case
  proof (cases "scan_line alnum n l = []")
    case True
    then show ?thesis using Cons scan_line_clean by fastforce
  next
    case False
    then show ?thesis using Cons.prems scan_lines_append scan_line_clean by fastforce
  qed
qed simp

lemma scan_secrets_clean: "0 < k \<Longrightarrow> scan_secrets alnum b k = [] \<longleftrightarrow> clean_payload alnum b"
  by (auto simp: scan_secrets_def scan_lines_clean clean_payload_def list_all_iff)

text \<open>Every finding of the scanner is of a sensitive kind and says where, how many digits, and no more.\<close>

definition discreet :: "scan_finding \<Rightarrow> bool" where
  "discreet f = (sf_kind f \<in> set SENSITIVE_KINDS \<and> (\<exists>n. sf_location f = line_location n)
     \<and> (sf_detail f = ''matches a credential pattern''
        \<or> (\<exists>d. 13 \<le> d \<and> d \<le> 19 \<and> sf_detail f = show_nat d @ '' digits passing the Luhn check'')))"

lemma pattern_kinds: "(k, p) \<in> set (SECRET_PATTERNS alnum) \<Longrightarrow> k \<in> set SENSITIVE_KINDS"
  by (auto simp: SECRET_PATTERNS_def SENSITIVE_KINDS_def)

lemma first_filter: "filter P xs = y # ys \<Longrightarrow> P y"
proof -
  assume "filter P xs = y # ys"
  then have "y \<in> set (filter P xs)" by simp
  then show ?thesis by simp
qed

lemma scan_line_discreet:
  assumes "f \<in> set (scan_line alnum n l)"
  shows "discreet f"
proof -
  consider (card) ds where "is_pan ds" "f = scan_hit ''payment_card_number'' (line_location n) (show_nat (length ds) @ '' digits passing the Luhn check'')"
    | (pattern) k p where "(k, p) \<in> set (SECRET_PATTERNS alnum)" "f = scan_hit k (line_location n) ''matches a credential pattern''"
    using assms unfolding scan_line_def by (auto split: list.splits dest: first_filter [OF sym])
  then show ?thesis
  proof cases
    case card
    then show ?thesis unfolding discreet_def is_pan_def by (auto simp: SENSITIVE_KINDS_def)
  next
    case pattern
    then show ?thesis unfolding discreet_def using pattern_kinds by auto
  qed
qed

lemma scan_lines_discreet: "f \<in> set (scan_lines alnum k n ls fs) \<Longrightarrow> f \<in> set fs \<or> discreet f"
  by (induction ls arbitrary: n fs) (auto dest: scan_line_discreet split: if_splits, fastforce dest: scan_line_discreet)

lemma scan_secrets_discreet: "f \<in> set (scan_secrets alnum b k) \<Longrightarrow> discreet f"
  unfolding scan_secrets_def using scan_lines_discreet in_set_takeD by fastforce

lemma sensitive_simps [simp]: "sensitive [] = False" "sensitive (f # fs) \<longleftrightarrow> sf_kind f \<in> set SENSITIVE_KINDS \<or> sensitive fs"
  "sensitive (fs @ gs) \<longleftrightarrow> sensitive fs \<or> sensitive gs"
  by (simp_all add: sensitive_def)

lemma sensitive_scan: "sensitive (scan_secrets alnum b k) \<longleftrightarrow> scan_secrets alnum b k \<noteq> []"
proof (cases "scan_secrets alnum b k")
  case (Cons f fs)
  then have "discreet f" using scan_secrets_discreet [of f alnum b k] by simp
  then show ?thesis by (simp add: Cons discreet_def)
qed simp

lemma sensitive_relocate [simp]: "sensitive (relocate g fs) \<longleftrightarrow> sensitive fs"
  by (induction fs) (simp_all add: relocate_def)

section \<open>Texts of containers\<close>

lemma scan_parts_mono: "scan_parts alnum ps failure fs = (fs', r) \<Longrightarrow> sensitive fs \<Longrightarrow> sensitive fs'"
  by (induction ps arbitrary: fs) (auto simp: relocate_def split: if_splits sum.splits)

lemma scan_parts_clean:
  "scan_parts alnum ps failure fs = (fs', None) \<Longrightarrow> length fs < 50 \<Longrightarrow> \<not> sensitive fs' \<Longrightarrow>
    fs' = fs \<and> failure = None \<and> (\<forall>(p, t) \<in> set ps. clean_text alnum t)"
proof (induction ps arbitrary: fs)
  case (Cons p ps)
  obtain part t where p: "p = (part, t)" by fastforce
  obtain b where b: "encode_strict t = Inr b" using Cons.prems(1,2) by (auto simp: p split: sum.splits)
  let ?new = "scan_secrets alnum b (50 - length fs)"
  have rec: "scan_parts alnum ps failure (fs @ relocate (\<lambda>f. part @ u '':'' @ sf_location f) ?new) = (fs', None)"
    using Cons.prems(1,2) b by (simp add: p)
  have none: "?new = []" using scan_parts_mono [OF rec] Cons.prems(3) sensitive_scan by auto
  then have "clean_text alnum t"
    using scan_secrets_clean [of "50 - length fs" alnum b] Cons.prems(2) b
    by (auto simp: clean_text_def encode_strict_def split: if_splits)
  then show ?case using Cons.IH [of fs] rec none Cons.prems(2,3) by (auto simp: p relocate_def)
qed simp

lemma new_hits_none:
  assumes "\<not> sensitive fs'" "sensitive new \<Longrightarrow> sensitive fs'" "new = relocate g (scan_secrets alnum b k)"
  shows "scan_secrets alnum b k = []"
  using assms sensitive_scan by auto

lemma encode_clean: "encode_strict t = Inr b \<Longrightarrow> scan_secrets alnum b k = [] \<Longrightarrow> 0 < k \<Longrightarrow> clean_text alnum t"
  using scan_secrets_clean [of k alnum b] by (auto simp: clean_text_def encode_strict_def split: if_splits)

lemma scan_values_mono: "scan_values alnum place vs fs = Inr fs' \<Longrightarrow> sensitive fs \<Longrightarrow> sensitive fs'"
  by (induction vs arbitrary: fs) (auto simp: rbind_Inr_iff split: if_splits)

lemma scan_values_clean:
  "scan_values alnum place vs fs = Inr fs' \<Longrightarrow> length fs < 50 \<Longrightarrow> \<not> sensitive fs' \<Longrightarrow>
    fs' = fs \<and> (\<forall>v \<in> set vs. clean_text alnum v)"
proof (induction vs arbitrary: fs)
  case (Cons v vs)
  let ?new = "\<lambda>b. relocate (\<lambda>f. place) (scan_secrets alnum b (50 - length fs))"
  obtain b where b: "encode_strict v = Inr b" "scan_values alnum place vs (fs @ ?new b) = Inr fs'"
    using Cons.prems(1,2) by (auto simp: rbind_Inr_iff)
  have none: "scan_secrets alnum b (50 - length fs) = []"
    by (rule new_hits_none [OF Cons.prems(3) _ refl]) (use scan_values_mono [OF b(2)] in simp)
  moreover have "fs @ ?new b = fs" by (simp add: none relocate_def)
  ultimately show ?case using Cons.IH [of fs] b Cons.prems(2,3) encode_clean [OF b(1) none] by simp
qed simp

lemma scan_pages_mono: "scan_pages alnum rs failure fs = (fs', r) \<Longrightarrow> sensitive fs \<Longrightarrow> sensitive fs'"
  by (induction rs arbitrary: fs) (auto split: sum.splits dest: scan_values_mono)

lemma scan_pages_clean:
  "scan_pages alnum rs failure fs = (fs', None) \<Longrightarrow> length fs < 50 \<Longrightarrow> \<not> sensitive fs' \<Longrightarrow>
    fs' = fs \<and> (\<forall>r \<in> set rs. \<forall>v \<in> set (pr_values r). clean_text alnum v)"
proof (induction rs arbitrary: fs)
  case (Cons r rs)
  obtain gs where gs: "scan_values alnum (block_location (int (pr_page r)) (int (pr_block r))) (pr_values r) fs = Inr gs"
    "scan_pages alnum rs failure gs = (fs', None)"
    using Cons.prems(1) by (auto split: sum.splits)
  have "\<not> sensitive gs" using scan_pages_mono [OF gs(2)] Cons.prems(3) by blast
  with scan_values_clean [OF gs(1) Cons.prems(2)] have "gs = fs" "\<forall>v \<in> set (pr_values r). clean_text alnum v" by simp_all
  then show ?case using Cons.IH [of fs] gs(2) Cons.prems(2,3) by simp
qed simp

lemma sensitive_take: "sensitive (take k fs) \<Longrightarrow> sensitive fs"
  by (metis append_take_drop_id sensitive_simps(3))

lemma scan_blocks_mono: "scan_blocks alnum bs fs = Inr fs' \<Longrightarrow> sensitive fs \<Longrightarrow> sensitive fs'"
  by (induction bs arbitrary: fs) (auto simp: rbind_Inr_iff Let_def split: if_splits)

lemma scan_secrets_take: "take k (scan_secrets alnum b (max 1 k)) = scan_secrets alnum b k" if "0 < k" for k
  using that by (simp add: scan_secrets_def max_def)

lemma scan_blocks_clean:
  "scan_blocks alnum bs fs = Inr fs' \<Longrightarrow> length fs < 50 \<Longrightarrow> \<not> sensitive fs' \<Longrightarrow>
    fs' = fs \<and> (\<forall>b \<in> set bs. clean_text alnum (ob_text b))"
proof (induction bs arbitrary: fs)
  case (Cons c bs)
  obtain b where b: "encode_strict (ob_text c) = Inr b"
    "scan_blocks alnum bs (fs @ relocate (\<lambda>f. block_location (ob_page c) (ob_block c)) (scan_secrets alnum b (50 - length fs))) = Inr fs'"
    using Cons.prems(1,2) scan_secrets_take [of "50 - length fs"] by (auto simp: rbind_Inr_iff Let_def)
  have none: "scan_secrets alnum b (50 - length fs) = []"
    by (rule new_hits_none [OF Cons.prems(3) _ refl]) (use scan_blocks_mono [OF b(2)] in simp)
  have "scan_blocks alnum bs fs = Inr fs'" using b(2) by (simp add: none relocate_def)
  then show ?case using Cons.IH [of fs] Cons.prems(2,3) encode_clean [OF b(1) none] by simp
qed simp

section \<open>Promotion\<close>

text \<open>The texts a promotion rests on, and the inert workbook behind a promoted one.\<close>

definition pdf_texts :: "outside \<Rightarrow> bytes \<Rightarrow> pdf_row list" where
  "pdf_texts x payload = (case sniff_pdf (out_sha x) (out_pypdf x) payload of Inl e \<Rightarrow> []
     | Inr (inspection, preamble) \<Rightarrow> fst (stream_pdf_rows (out_sha x) (out_pypdf x) payload preamble (in_sha256 inspection)))"

definition contents :: "outside \<Rightarrow> bytes \<Rightarrow> ocr_document option \<Rightarrow> promotion \<Rightarrow> utext list" where
  "contents x payload ocr d =
     (if de_internal d = ''xlsx'' then map snd (fst (out_workbook_texts x payload))
      else if de_internal d = ''ods'' then map snd (fst (out_document_texts x payload))
      else if de_internal d = ''pdf'' then
        (if de_reason d = ''content_inspected_ocr'' then (case ocr of None \<Rightarrow> [] | Some doc \<Rightarrow> map ob_text (oc_blocks doc))
         else concat (map pr_values (pdf_texts x payload)))
      else [])"

definition inert :: "workbook \<Rightarrow> bool" where
  "inert w = (wb_active w = [] \<and> wb_external w = 0 \<and> wb_formulas w = 0 \<and> (\<exists>s \<in> set (wb_sheets w). sh_state s = ''visible''))"

lemma decide_simps [simp]: "de_decision (decide v r m i fs) = v" "de_reason (decide v r m i fs) = r" "de_media_type (decide v r m i fs) = m"
  "de_internal (decide v r m i fs) = i" "de_findings (decide v r m i fs) = fs"
  by (simp_all add: decide_def)

lemma promoted_simps [simp]: "promoted (decide v r m i fs) \<longleftrightarrow> v = ''promoted''"
  "promoted (d\<lparr>de_document := y\<rparr>) = promoted d" "promoted (d\<lparr>de_workbook := z\<rparr>) = promoted d" "promoted (d\<lparr>de_selection := b\<rparr>) = promoted d"
  by (simp_all add: promoted_def)

lemma select_sheet_promoted:
  assumes "promoted (select_sheet x payload internal place w fs)"
  shows "de_internal (select_sheet x payload internal place w fs) = internal \<and> de_media_type (select_sheet x payload internal place w fs) = ''application/zip''
    \<and> (sensitive (de_findings (select_sheet x payload internal place w fs)) \<longleftrightarrow> sensitive fs) \<and> (\<exists>s \<in> set (wb_sheets w). sh_state s = ''visible'')"
  using assms by (auto simp: select_sheet_def Let_def filter_empty_conv SENSITIVE_KINDS_def split: if_splits)

lemma promote_workbook_ok:
  assumes "promote_workbook x payload fs = Inr d" "promoted d"
  shows "de_internal d = ''xlsx'' \<and> de_media_type d = ''application/zip'' \<and> \<not> sensitive (de_findings d)
    \<and> (\<exists>w. out_workbook x payload = Inr w \<and> inert w)
    \<and> (length fs < 50 \<longrightarrow> (\<forall>t \<in> set (contents x payload ocr d). clean_text (out_alnum x) t))"
proof -
  from assms obtain w fs' where w: "out_workbook x payload = Inr w" "wb_active w = []" "wb_external w = 0" "wb_formulas w = 0"
    "scan_parts (out_alnum x) (fst (out_workbook_texts x payload)) (snd (out_workbook_texts x payload)) fs = (fs', None)"
    "\<not> sensitive fs'" "d = select_sheet x payload ''xlsx'' (u ''xlsx workbook'') w fs'"
    unfolding promote_workbook_def malformed_workbook_def
    by (auto split: sum.splits exn.splits if_splits prod.splits option.splits)
  note sel = select_sheet_promoted [OF assms(2) [unfolded w(7)], folded w(7)]
  have "\<forall>t \<in> set (contents x payload ocr d). clean_text (out_alnum x) t" if "length fs < 50"
    using scan_parts_clean [OF w(5) that w(6)] sel by (auto simp: contents_def)
  then show ?thesis using sel w by (simp add: inert_def)
qed

lemma promote_document_ok:
  assumes "promote_document x payload fs = Inr d" "promoted d"
  shows "de_internal d = ''ods'' \<and> de_media_type d = ''application/zip'' \<and> \<not> sensitive (de_findings d)
    \<and> (\<exists>w. out_document x payload = Inr w \<and> inert w)
    \<and> (length fs < 50 \<longrightarrow> (\<forall>t \<in> set (contents x payload ocr d). clean_text (out_alnum x) t))"
proof -
  from assms obtain w fs' where w: "out_document x payload = Inr w" "wb_active w = []" "wb_external w = 0" "wb_formulas w = 0"
    "scan_parts (out_alnum x) (fst (out_document_texts x payload)) (snd (out_document_texts x payload)) fs = (fs', None)"
    "\<not> sensitive fs'" "d = select_sheet x payload ''ods'' (u ''ods document'') w fs'"
    unfolding promote_document_def malformed_workbook_def
    by (auto split: sum.splits exn.splits if_splits prod.splits option.splits)
  note sel = select_sheet_promoted [OF assms(2) [unfolded w(7)], folded w(7)]
  have "\<forall>t \<in> set (contents x payload ocr d). clean_text (out_alnum x) t" if "length fs < 50"
    using scan_parts_clean [OF w(5) that w(6)] sel by (auto simp: contents_def)
  then show ?thesis using sel w by (simp add: inert_def)
qed

lemma scan_values_same: "scan_values alnum place vs fs = Inr fs' \<Longrightarrow> \<not> sensitive fs' \<Longrightarrow> fs' = fs"
proof (induction vs arbitrary: fs)
  case (Cons v vs)
  show ?case
  proof (cases "50 \<le> length fs")
    case False
    then show ?thesis using scan_values_clean [OF Cons.prems(1) _ Cons.prems(2)] by simp
  qed (use Cons.prems(1) in simp)
qed simp

lemma scan_pages_same: "scan_pages alnum rs failure fs = (fs', r) \<Longrightarrow> \<not> sensitive fs' \<Longrightarrow> fs' = fs"
proof (induction rs arbitrary: fs)
  case (Cons p rs)
  show ?case
  proof (cases "scan_values alnum (block_location (int (pr_page p)) (int (pr_block p))) (pr_values p) fs")
    case (Inr gs)
    then have rec: "scan_pages alnum rs failure gs = (fs', r)" using Cons.prems(1) by simp
    then have "gs = fs" using scan_values_same [OF Inr] scan_pages_mono [OF rec] Cons.prems(2) by blast
    then show ?thesis using Cons.IH [OF rec] Cons.prems(2) by simp
  qed (use Cons.prems(1) in simp)
qed simp

lemma promote_ocr_ok:
  assumes "promote_ocr x payload fs document = Inr d" "promoted d"
  shows "de_internal d = ''pdf'' \<and> de_media_type d = ''application/pdf'' \<and> \<not> sensitive (de_findings d)
    \<and> \<not> sensitive fs \<and> oc_sha256 document = out_sha x (byte_values payload)
    \<and> (length fs < 50 \<longrightarrow> (\<forall>t \<in> set (contents x payload (Some document) d). clean_text (out_alnum x) t))"
proof -
  from assms obtain fs' where o: "oc_sha256 document = out_sha x (byte_values payload)"
    "scan_blocks (out_alnum x) (oc_blocks document) fs = Inr fs'" "\<not> sensitive fs'"
    "d = decide ''promoted'' ''content_inspected_ocr'' ''application/pdf'' ''pdf'' fs' \<lparr>de_document := Some (ocr_manifest document)\<rparr>"
    unfolding promote_ocr_def by (auto split: sum.splits if_splits)
  show ?thesis using o scan_blocks_clean [OF o(2)] scan_blocks_mono [OF o(2)] by (auto simp: contents_def)
qed

lemma promote_pdf_ok:
  assumes "promote_pdf x payload fs ocr = Inr d" "promoted d" "length fs < 50"
  shows "de_internal d = ''pdf'' \<and> de_media_type d = ''application/pdf'' \<and> \<not> sensitive (de_findings d)
    \<and> (\<forall>t \<in> set (contents x payload ocr d). clean_text (out_alnum x) t) \<and> passive_pdf (out_pypdf x) payload"
proof -
  obtain fs' r where scan: "pdf_scan x payload fs = (fs', r)" by fastforce
  have safe: "passive_pdf (out_pypdf x) payload" if "case r of Inr m \<Rightarrow> True | Inl e \<Rightarrow> is_ocr_required e"
  proof (cases "inspect_pdf (out_sha x) (out_pypdf x) payload")
    case (Inl e)
    then have "r = Inl e" using scan by (simp add: pdf_scan_def sniff_pdf_def)
    then show ?thesis using that inspected_passive [of True "out_sha x" "out_pypdf x" payload] Inl by (simp add: inspect_pdf_def)
  next
    case (Inr i)
    then show ?thesis using inspected_passive [of True "out_sha x" "out_pypdf x" payload] by (simp add: inspect_pdf_def)
  qed
  show ?thesis
  proof (cases r)
    case (Inr manifest)
    have d: "\<not> sensitive fs'" "d = decide ''promoted'' ''content_inspected'' ''application/pdf'' ''pdf'' fs' \<lparr>de_document := Some manifest\<rparr>"
      using assms(1,2) by (auto simp: promote_pdf_def scan Inr split: if_splits)
    obtain failure where "scan_pages (out_alnum x) (pdf_texts x payload) failure fs = (fs', None)"
      using scan by (auto simp: pdf_scan_def pdf_texts_def Inr split: sum.splits prod.splits option.splits)
    from scan_pages_clean [OF this assms(3) d(1)] show ?thesis using d safe Inr by (auto simp: contents_def)
  next
    case (Inl e)
    then obtain document where o: "ocr = Some document" "promote_ocr x payload fs' document = Inr d" "is_ocr_required e"
      using assms(1,2) by (auto simp: promote_pdf_def scan split: if_splits option.splits)
    note ok = promote_ocr_ok [OF o(2) assms(2)]
    have "fs' = fs"
      using scan ok scan_pages_same by (auto simp: pdf_scan_def split: sum.splits prod.splits option.splits)
    then show ?thesis using ok assms(3) o(1,3) safe Inl by simp
  qed
qed

lemma promote_text_iff:
  "(\<exists>d. promote_text x payload media internal fs = Inr d \<and> promoted d) \<longleftrightarrow>
    (if internal \<noteq> [] then internal else media) \<in> set FULLY_INSPECTABLE \<and> (\<exists>n. count_lines payload = Inr n)
    \<and> \<not> sensitive fs \<and> clean_payload (out_alnum x) (byte_values payload)"
  by (cases "count_lines payload") (auto simp: promote_text_def Let_def sensitive_scan scan_secrets_clean)

lemma promote_text_ok:
  assumes "promote_text x payload media internal fs = Inr d" "promoted d"
  shows "de_internal d = internal \<and> de_media_type d = media \<and> \<not> sensitive (de_findings d)
    \<and> (if internal \<noteq> [] then internal else media) \<in> set FULLY_INSPECTABLE \<and> clean_payload (out_alnum x) (byte_values payload)"
  using assms by (auto simp: promote_text_def Let_def rbind_Inr_iff sensitive_scan scan_secrets_clean split: if_splits)

lemma mismatch_few: "length (mismatch_findings d filename) \<le> 1" "\<not> sensitive (mismatch_findings d filename)"
  by (simp_all add: mismatch_findings_def SENSITIVE_KINDS_def)

lemma inspect_entries_kinds: "inspect_entries es = Inr fs \<Longrightarrow> \<not> sensitive fs"
  by (induction es arbitrary: fs) (auto simp: rbind_Inr_iff SENSITIVE_KINDS_def split: if_splits)

lemma identify_cases: "identify_archive x payload = Inr i \<Longrightarrow> i \<in> {''macro_enabled'', ''ods'', ''xlsx'', ''zip''}"
  unfolding identify_archive_def Let_def by (auto split: option.splits sum.splits if_splits)

lemma promote_archive_ok:
  assumes "promote_archive x payload fs = Inr d" "promoted d"
  obtains more where "inspect_archive (out_zip x) payload = Inr more" "de_media_type d = ''application/zip''" "\<not> sensitive (de_findings d)"
    "de_internal d = ''xlsx'' \<and> (\<exists>w. out_workbook x payload = Inr w \<and> inert w) \<or> de_internal d = ''ods'' \<and> (\<exists>w. out_document x payload = Inr w \<and> inert w)"
    "length (fs @ more) < 50 \<longrightarrow> (\<forall>t \<in> set (contents x payload ocr d). clean_text (out_alnum x) t)"
proof -
  obtain more internal where m: "inspect_archive (out_zip x) payload = Inr more" "identify_archive x payload = Inr internal"
    "(if internal = ''macro_enabled'' then Inr (decide ''rejected'' ''macro_enabled_archive'' ''application/zip'' internal (fs @ more))
      else if internal = ''xlsx'' then promote_workbook x payload (fs @ more)
      else if internal = ''ods'' then promote_document x payload (fs @ more)
      else promote_text x payload ''application/zip'' internal (fs @ more)) = Inr d"
    using assms(1) by (auto simp: promote_archive_def rbind_Inr_iff)
  consider "internal = ''macro_enabled''" | "internal = ''xlsx''" | "internal = ''ods''" | "internal = ''zip''"
    using identify_cases [OF m(2)] by blast
  then show ?thesis
  proof cases
    case 1
    then show ?thesis using m(3) assms(2) by auto
  next
    case 2
    then have "promote_workbook x payload (fs @ more) = Inr d" using m(3) by simp
    from promote_workbook_ok [OF this assms(2), of ocr] show ?thesis by (intro that [OF m(1)]) simp_all
  next
    case 3
    then have "promote_document x payload (fs @ more) = Inr d" using m(3) by simp
    from promote_document_ok [OF this assms(2), of ocr] show ?thesis by (intro that [OF m(1)]) simp_all
  next
    case 4
    then have "promote_text x payload ''application/zip'' ''zip'' (fs @ more) = Inr d" using m(3) by simp
    from promote_text_ok [OF this assms(2)] show ?thesis by (simp add: FULLY_INSPECTABLE_def)
  qed
qed

lemma detect_media: "detect lower payload filename = Inr dt \<Longrightarrow> dt_media_type dt \<noteq> ''xlsx'' \<and> dt_media_type dt \<noteq> ''ods''"
  unfolding detect_def Let_def
  by (auto simp: rbind_Inr_iff signature_of_def SIGNATURES_def find_Some_iff nth_Cons' split: option.splits if_splits)

text \<open>C25. Whatever is promoted, under any name, is of an accepted type, carries no finding of a secret, and is text,
  a passive PDF file, or a workbook or open document without active parts, external links or formulas and with
  a visible sheet. A passive PDF file is within its size, ends where it says, has none of the names of active, linked,
  signed or encrypted content written out in it, and opens unencrypted with 1 to 250 pages. No other container
  and no text that is not delimited leaves quarantine.\<close>

theorem promoted_is_inert:
  assumes "decide_promotion x payload filename ocr = Inr d" and "promoted d"
  shows "\<not> sensitive (de_findings d) \<and> de_media_type d \<in> set ACCEPTED_MEDIA_TYPES
    \<and> (de_internal d = ''pdf'' \<and> passive_pdf (out_pypdf x) payload
       \<or> de_media_type d = ''text/csv'' \<and> de_internal d = []
       \<or> de_internal d = ''xlsx'' \<and> (\<exists>w. out_workbook x payload = Inr w \<and> inert w)
       \<or> de_internal d = ''ods'' \<and> (\<exists>w. out_document x payload = Inr w \<and> inert w))"
proof -
  obtain dt where dt: "detect (out_lower x) payload filename = Inr dt"
    "(if dt_media_type dt = ''application/pdf'' then promote_pdf x payload (mismatch_findings dt filename) ocr
      else if dt_media_type dt = ''application/zip'' then promote_archive x payload (mismatch_findings dt filename)
      else promote_text x payload (dt_media_type dt) [] (mismatch_findings dt filename)) = Inr d"
    using assms(1) by (auto simp: decide_promotion_def rbind_Inr_iff Let_def)
  have few: "length (mismatch_findings dt filename) < 50" using mismatch_few(1) [of dt filename] by linarith
  consider "dt_media_type dt = ''application/pdf''" | "dt_media_type dt = ''application/zip''"
    | "dt_media_type dt \<noteq> ''application/pdf''" "dt_media_type dt \<noteq> ''application/zip''"
    by blast
  then show ?thesis
  proof cases
    case 1
    then have "promote_pdf x payload (mismatch_findings dt filename) ocr = Inr d" using dt(2) by simp
    from promote_pdf_ok [OF this assms(2) few] show ?thesis by (simp add: ACCEPTED_MEDIA_TYPES_def)
  next
    case 2
    then have a: "promote_archive x payload (mismatch_findings dt filename) = Inr d" using dt(2) by simp
    show ?thesis by (rule promote_archive_ok [OF a assms(2), of ocr]) (auto simp: ACCEPTED_MEDIA_TYPES_def)
  next
    case 3
    then have "promote_text x payload (dt_media_type dt) [] (mismatch_findings dt filename) = Inr d" using dt(2) by simp
    from promote_text_ok [OF this assms(2)] detect_media [OF dt(1)] show ?thesis by (auto simp: ACCEPTED_MEDIA_TYPES_def FULLY_INSPECTABLE_def)
  qed
qed

text \<open>C26. A file that is neither PDF nor a container is promoted exactly when it is delimited text, does not have
  too many lines, and no line matches a credential pattern or holds a card candidate with a valid check digit.\<close>

theorem text_promoted_iff_clean:
  assumes "detect (out_lower x) payload filename = Inr dt"
    and "dt_media_type dt \<noteq> ''application/pdf''" "dt_media_type dt \<noteq> ''application/zip''"
  shows "((\<exists>d. decide_promotion x payload filename ocr = Inr d \<and> promoted d) \<longleftrightarrow>
    dt_media_type dt = ''text/csv'' \<and> length (filter (\<lambda>c. c = chr_nl) payload) \<le> MAX_TEXT_LINES
    \<and> list_all (clean_line (out_alnum x)) (splitlines (scan_text (byte_values payload))))"
proof -
  have "(\<exists>d. decide_promotion x payload filename ocr = Inr d \<and> promoted d) \<longleftrightarrow>
    (\<exists>d. promote_text x payload (dt_media_type dt) [] (mismatch_findings dt filename) = Inr d \<and> promoted d)"
    using assms by (simp add: decide_promotion_def Let_def)
  also have "\<dots> \<longleftrightarrow> dt_media_type dt = ''text/csv'' \<and> (\<exists>n. count_lines payload = Inr n) \<and> clean_payload (out_alnum x) (byte_values payload)"
    using detect_media [OF assms(1)] mismatch_few(2) by (simp add: promote_text_iff FULLY_INSPECTABLE_def)
  also have "(\<exists>n. count_lines payload = Inr n) \<longleftrightarrow> length (filter (\<lambda>c. c = chr_nl) payload) \<le> MAX_TEXT_LINES"
    by (simp add: count_lines_def Let_def)
  finally show ?thesis by (simp add: clean_payload_def list_all_iff)
qed

text \<open>Every text of a promoted PDF file, workbook or open document is clean, as long as the directory of the
  archive gave fewer than 49 findings.\<close>

theorem promoted_contents_are_clean:
  assumes "decide_promotion x payload filename ocr = Inr d" and "promoted d"
    and "\<forall>more. inspect_archive (out_zip x) payload = Inr more \<longrightarrow> length more < 49"
  shows "\<forall>t \<in> set (contents x payload ocr d). clean_text (out_alnum x) t"
proof -
  obtain dt where dt: "detect (out_lower x) payload filename = Inr dt"
    "(if dt_media_type dt = ''application/pdf'' then promote_pdf x payload (mismatch_findings dt filename) ocr
      else if dt_media_type dt = ''application/zip'' then promote_archive x payload (mismatch_findings dt filename)
      else promote_text x payload (dt_media_type dt) [] (mismatch_findings dt filename)) = Inr d"
    using assms(1) by (auto simp: decide_promotion_def rbind_Inr_iff Let_def)
  note few = mismatch_few(1) [of dt filename]
  consider "dt_media_type dt = ''application/pdf''" | "dt_media_type dt = ''application/zip''"
    | "dt_media_type dt \<noteq> ''application/pdf''" "dt_media_type dt \<noteq> ''application/zip''"
    by blast
  then show ?thesis
  proof cases
    case 1
    then have "promote_pdf x payload (mismatch_findings dt filename) ocr = Inr d" using dt(2) by simp
    from promote_pdf_ok [OF this assms(2)] few show ?thesis by simp
  next
    case 2
    then have "promote_archive x payload (mismatch_findings dt filename) = Inr d" using dt(2) by simp
    then obtain more where more: "inspect_archive (out_zip x) payload = Inr more"
      "length (mismatch_findings dt filename @ more) < 50 \<longrightarrow> (\<forall>t \<in> set (contents x payload ocr d). clean_text (out_alnum x) t)"
      using promote_archive_ok [OF _ assms(2), of x payload _ ocr] by metis
    have "length more < 49" using assms(3) more(1) by blast
    then have "length (mismatch_findings dt filename @ more) < 50" using few by simp
    then show ?thesis using more(2) by blast
  next
    case 3
    then have "promote_text x payload (dt_media_type dt) [] (mismatch_findings dt filename) = Inr d" using dt(2) by simp
    from promote_text_ok [OF this assms(2)] show ?thesis by (simp add: contents_def)
  qed
qed

text \<open>C27. Admission never promotes: what enters stays in quarantine, is not empty, not too large, of an accepted type
  and not executable, and a container keeps to the limits of archives.\<close>

theorem admission_ends_in_quarantine:
  assumes "admit x payload filename = Inr a"
  shows "am_zone a = ''quarantine'' \<and> \<not> admission_promoted a \<and> 0 < length payload \<and> length payload \<le> MAX_UPLOAD_BYTES
    \<and> am_size a = length payload \<and> am_media_type a \<in> set ACCEPTED_MEDIA_TYPES
    \<and> signature_of EXECUTABLE_SIGNATURES (byte_values (take HEAD_BYTES payload)) = None
    \<and> (am_media_type a = ''application/zip'' \<longrightarrow> (\<exists>archive. out_zip x payload = Some archive
        \<and> length (za_entries archive) \<le> MAX_ARCHIVE_ENTRIES
        \<and> sum_list (map ze_size (za_entries archive)) \<le> min MAX_UNCOMPRESSED_BYTES (MAX_COMPRESSION_RATIO * length payload)
        \<and> list_all (\<lambda>e. \<not> escapes (ze_name e)) (za_entries archive)))"
proof -
  obtain dt more where dt: "check_size (int (length payload)) = Inr ()" "detect (out_lower x) payload filename = Inr dt" "accepted_type dt"
    "(if dt_media_type dt = ''application/zip'' then inspect_archive (out_zip x) payload
      else if starts_with ''text/'' (dt_media_type dt) then rbind (count_lines payload) (\<lambda>_. Inr []) else Inr []) = Inr more"
    "a = \<lparr>am_sha256 = out_sha x (byte_values payload), am_size = length payload, am_media_type = dt_media_type dt,
       am_matches = dt_matches dt, am_zone = ''quarantine'', am_findings = mismatch_findings dt filename @ more\<rparr>"
    using assms unfolding admit_def rbind_Inr_iff by (auto simp: rbind_Inr_iff split: if_splits)
  have size: "0 < length payload" "length payload \<le> MAX_UPLOAD_BYTES" using dt(1) by (auto simp: check_size_def split: if_splits)
  have exe: "signature_of EXECUTABLE_SIGNATURES (byte_values (take HEAD_BYTES payload)) = None"
    using dt(2) by (auto simp: detect_def Let_def split: option.splits)
  have paths: "inspect_entries es = Inr fs \<Longrightarrow> list_all (\<lambda>e. \<not> escapes (ze_name e)) es" for es fs
    by (induction es arbitrary: fs) (auto simp: rbind_Inr_iff split: if_splits)
  have zip: "\<exists>archive. out_zip x payload = Some archive \<and> length (za_entries archive) \<le> MAX_ARCHIVE_ENTRIES
      \<and> sum_list (map ze_size (za_entries archive)) \<le> min MAX_UNCOMPRESSED_BYTES (MAX_COMPRESSION_RATIO * length payload)
      \<and> list_all (\<lambda>e. \<not> escapes (ze_name e)) (za_entries archive)" if "dt_media_type dt = ''application/zip''"
    using that dt(4) size(1) paths unfolding inspect_archive_def Let_def
    by (auto simp: max_def not_less Suc_le_eq split: option.splits if_splits)
  show ?thesis using dt(3) size exe zip by (simp add: dt(5) admission_promoted_def accepted_type_def)
qed

text \<open>The type of a file is decided by its bytes: its name changes neither the type nor whether it is refused.\<close>

theorem the_name_does_not_decide:
  "map_sum id dt_media_type (detect lower payload f) = map_sum id dt_media_type (detect lower payload g)"
  by (auto simp: detect_def Let_def split: option.splits)

section \<open>The check digit\<close>

lemma same_digit: "a \<le> 9 \<Longrightarrow> b \<le> 9 \<Longrightarrow> (s + a) mod 10 = 0 \<Longrightarrow> (s + b) mod 10 = 0 \<Longrightarrow> a = (b::nat)"
proof -
  assume a: "a \<le> 9" "b \<le> 9" "(s + a) mod 10 = 0" "(s + b) mod 10 = 0"
  have dvd: "10 dvd s + a" "10 dvd s + b" using a(3,4) by (simp_all add: mod_eq_0_iff_dvd)
  have "10 dvd (s + a) - (s + b)" "10 dvd (s + b) - (s + a)" using dvd by (simp_all only: dvd_diff_nat)
  then have "10 dvd a - b" "10 dvd b - a" by simp_all
  then have "a - b = 0" "b - a = 0" using a(1,2) by (auto dest!: dvd_imp_le)
  then show ?thesis by simp
qed

lemma luhn_value_inj:
  assumes "d \<le> 9" "e \<le> 9" "(s + luhn_value i d) mod 10 = 0" "(s + luhn_value i e) mod 10 = (0::nat)"
  shows "d = e"
proof -
  have "luhn_value i d \<le> 9" "luhn_value i e \<le> 9" using assms(1,2) by (auto simp: luhn_value_def)
  then have "luhn_value i d = luhn_value i e" using assms(3,4) by (rule same_digit)
  moreover have "d \<in> {0, 1, 2, 3, 4, 5, 6, 7, 8, 9}" "e \<in> {0, 1, 2, 3, 4, 5, 6, 7, 8, 9}" using assms(1,2) by auto
  ultimately show ?thesis by (auto simp: luhn_value_def split: if_splits)
qed

text \<open>The check of a card number notices every single wrong digit: two valid numbers never differ in one place.\<close>

theorem luhn_notices_a_wrong_digit:
  assumes "luhn_valid ds" and "luhn_valid (ds[i := c])" and "i < length ds" "r_digit (ds ! i)" "r_digit c"
  shows "c = ds ! i"
proof -
  let ?a = "take i ds" and ?b = "drop (Suc i) ds"
  define s where "s = sum_list (map (\<lambda>(i, c). luhn_value i (c - 48)) (enumerate_from 0 (rev ?b)))
    + sum_list (map (\<lambda>(i, c). luhn_value i (c - 48)) (enumerate_from (Suc (length ?b)) (rev ?a)))"
  have sum: "sum_list (map (\<lambda>(i, c). luhn_value i (c - 48)) (enumerate_from 0 (rev (?a @ y # ?b)))) = s + luhn_value (length ?b) (y - 48)" for y
    by (simp add: enumerate_from_append s_def)
  have "(s + luhn_value (length ?b) (ds ! i - 48)) mod 10 = 0"
    using assms(1) sum [of "ds ! i"] id_take_nth_drop [OF assms(3)] by (simp only: luhn_valid_def)
  moreover have "(s + luhn_value (length ?b) (c - 48)) mod 10 = 0"
    using assms(2) sum [of c] upd_conv_take_nth_drop [OF assms(3), of c] by (simp only: luhn_valid_def)
  ultimately have "ds ! i - 48 = c - 48"
    using luhn_value_inj [of "ds ! i - 48" "c - 48" s "length ?b"] assms(4,5) unfolding r_digit_def by linarith
  then show ?thesis using assms(4,5) unfolding r_digit_def by linarith
qed

section \<open>Card numbers are found\<close>

text \<open>The first end of a pattern in sequence with another, where the ends before it lead nowhere.\<close>

lemma first_end:
  "f x = xs @ y # ys \<Longrightarrow> (\<And>z. z \<in> set xs \<Longrightarrow> g z = []) \<Longrightarrow> g y = w # ws \<Longrightarrow> \<exists>vs. concat (map g (f x)) = w # vs"
proof -
  assume a: "f x = xs @ y # ys" "\<And>z. z \<in> set xs \<Longrightarrow> g z = []" "g y = w # ws"
  have "concat (map g xs) = []" using a(2) by simp
  then have "concat (map g (f x)) = w # (ws @ concat (map g ys))" by (simp add: a(1,3))
  then show ?thesis by blast
qed

definition continues :: "utext \<Rightarrow> bool" where
  "continues post = (first_is r_digit post \<or> (first_is (among '' -'') post \<and> first_is r_digit (tl post)))"

lemma separators: "r_digit c \<Longrightarrow> \<not> among '' -'' c"
  by (auto simp: r_digit_def among_def u_def py_simps)

abbreviation (input) pan_step :: "place \<Rightarrow> place list" where
  "pan_step \<equiv> rx_ends PAN_DIGIT"

lemma pan_step_digit: "r_digit d \<Longrightarrow> \<not> first_is (among '' -'') a \<Longrightarrow> pan_step (b, d # a) = [(d # b, a)]"
  by (cases a) (simp_all add: PAN_DIGIT_def)

lemma pan_step_sep: "r_digit d \<Longrightarrow> among '' -'' s \<Longrightarrow> pan_step (b, d # s # a) = [(s # d # b, a), (d # b, s # a)]"
  by (simp add: PAN_DIGIT_def)

lemma pan_step_none: "\<not> first_is r_digit a \<Longrightarrow> pan_step (b, a) = []"
  by (cases a) (simp_all add: PAN_DIGIT_def)

lemma pan_many_none: "\<not> first_is r_digit a \<Longrightarrow> up_to_ends pan_step n (b, a) = [(b, a)]"
  by (cases n) (simp_all add: pan_step_none)

definition pan_last :: "place \<Rightarrow> place list" where
  "pan_last = rx_ends (Seq (Sym r_digit) (NotAhead r_digit))"

lemma pan_last_none: "\<not> first_is r_digit a \<Longrightarrow> pan_last (b, a) = []"
  by (cases a) (simp_all add: pan_last_def)

lemma pan_mandatory:
  "list_all r_digit ds \<Longrightarrow> first_is r_digit rest \<Longrightarrow> times_ends pan_step (length ds) m (b, ds @ rest) = up_to_ends pan_step m (rev ds @ b, rest)"
proof (induction ds arbitrary: b)
  case (Cons d ds)
  have "\<not> first_is (among '' -'') (ds @ rest)" using Cons.prems separators by (cases ds) (auto simp: first_is_def)
  with Cons show ?case by (simp add: pan_step_digit)
qed simp

lemma pan_optional:
  assumes "list_all r_digit ds" "ds \<noteq> []" "length ds \<le> Suc n" "\<not> continues post"
  shows "\<exists>xs ys. up_to_ends pan_step n (b, ds @ post) = xs @ (rev (butlast ds) @ b, last ds # post) # ys \<and> (\<forall>z \<in> set xs. pan_last z = [])"
  using assms
proof (induction ds arbitrary: n b)
  case (Cons d ds)
  show ?case
  proof (cases "ds = []")
    case True
    have stop: "\<not> first_is r_digit post" "\<not> (first_is (among '' -'') post \<and> first_is r_digit (tl post))"
      using Cons.prems(4) by (auto simp: continues_def)
    have "\<exists>xs. up_to_ends pan_step n (b, d # post) = xs @ [(b, d # post)] \<and> (\<forall>z \<in> set xs. pan_last z = [])"
    proof (cases n)
      case (Suc k)
      have "\<forall>z \<in> set (concat (map (up_to_ends pan_step k) (pan_step (b, d # post)))). pan_last z = []"
      proof (cases "first_is (among '' -'') post")
        case True
        then obtain s post' where post: "post = s # post'" "among '' -'' s" by (cases post) auto
        then show ?thesis using stop Cons.prems(1) by (simp add: pan_step_sep pan_many_none pan_last_none)
      next
        case False
        then show ?thesis using stop Cons.prems(1) by (simp add: pan_step_digit pan_many_none pan_last_none)
      qed
      then show ?thesis by (simp add: Suc)
    qed simp
    then show ?thesis by (auto simp: True)
  next
    case False
    then obtain k where n: "n = Suc k" using Cons.prems(3) by (cases n) auto
    have "\<not> first_is (among '' -'') (ds @ post)" using False Cons.prems(1) separators by (cases ds) (auto simp: first_is_def)
    then have step: "pan_step (b, d # ds @ post) = [(d # b, ds @ post)]" using Cons.prems(1) by (simp add: pan_step_digit)
    obtain xs ys where "up_to_ends pan_step k (d # b, ds @ post) = xs @ (rev (butlast ds) @ d # b, last ds # post) # ys"
      "\<forall>z \<in> set xs. pan_last z = []"
      using Cons.IH [of k "d # b"] Cons.prems False n by auto
    then show ?thesis using False
      by (intro exI [of _ xs] exI [of _ "ys @ [(b, d # ds @ post)]"]) (simp add: n step)
  qed
qed simp

lemma rev_last: "xs \<noteq> [] \<Longrightarrow> last xs # rev (butlast xs) = rev xs"
  by (induction xs rule: rev_induct) simp_all

lemma pan_first_end:
  assumes "list_all r_digit ds" "13 \<le> length ds" "length ds \<le> 19" "\<not> continues post" "\<not> first_is r_digit b"
  shows "\<exists>more. rx_ends PAN_CANDIDATE (b, ds @ post) = (rev ds @ b, post) # more"
proof -
  let ?d1 = "take 12 ds" and ?d2 = "drop 12 ds"
  have d: "list_all r_digit ?d1" "list_all r_digit ?d2" "length ?d1 = 12" "?d2 \<noteq> []" "length ?d2 \<le> Suc 6" "ds = ?d1 @ ?d2"
    using assms(1-3) by (auto simp: list_all_iff dest: in_set_takeD in_set_dropD)
  have "first_is r_digit (?d2 @ post)" using d(2,4) by (cases ?d2) auto
  then have "times_ends pan_step 12 6 (b, ds @ post) = up_to_ends pan_step 6 (rev ?d1 @ b, ?d2 @ post)"
    using pan_mandatory [OF d(1), of "?d2 @ post" 6 b] d(3,6) by (metis append_assoc)
  then obtain xs ys where t: "times_ends pan_step 12 6 (b, ds @ post) = xs @ (rev (butlast ?d2) @ rev ?d1 @ b, last ?d2 # post) # ys"
    "\<forall>z \<in> set xs. pan_last z = []"
    using pan_optional [OF d(2,4,5) assms(4), of "rev ?d1 @ b"] by auto
  have "last ?d2 # rev (butlast ?d2) @ rev ?d1 @ b = rev ds @ b"
  proof -
    have "rev ds = rev ?d2 @ rev ?d1" using d(6) by (metis rev_append)
    also have "rev ?d2 = last ?d2 # rev (butlast ?d2)" using rev_last [OF d(4)] ..
    finally show ?thesis by (simp only: append_Cons append_assoc)
  qed
  moreover have "r_digit (last ds)" using assms(1,2) by (cases "ds = []") (auto simp: list_all_iff)
  moreover have "last ?d2 = last ds" using d(4) by simp
  ultimately have "pan_last (rev (butlast ?d2) @ rev ?d1 @ b, last ?d2 # post) = [(rev ds @ b, post)]"
    using assms(4) by (simp add: pan_last_def continues_def)
  from first_end [of "times_ends pan_step 12 6" _ xs _ ys pan_last, OF t(1) _ this] t(2)
  obtain more where "concat (map pan_last (times_ends pan_step 12 6 (b, ds @ post))) = (rev ds @ b, post) # more" by blast
  moreover have "rx_ends PAN_CANDIDATE (b, ds @ post) = concat (map pan_last (times_ends pan_step 12 (18 - 12) (b, ds @ post)))"
    unfolding PAN_CANDIDATE_def rx_ends.simps(2) [of "NotBehind r_digit"] rx_ends.simps(7) fst_conv if_not_P [OF assms(5)]
      list.map concat.simps append_Nil2 rx_ends.simps(2) [of "Times 12 18 PAN_DIGIT"] rx_ends.simps(5) pan_last_def ..
  ultimately show ?thesis by simp
qed

lemma times_none: "f x = [] \<Longrightarrow> 0 < n \<Longrightarrow> times_ends f n m x = []"
  by (cases n) simp_all

lemma pan_nothing: "\<not> first_is r_digit a \<Longrightarrow> rx_ends PAN_CANDIDATE (b, a) = []"
  using times_none [of pan_step "(b, a)" 12 "18 - 12"] by (simp add: PAN_CANDIDATE_def pan_step_none)

lemma matches_after_letters:
  "list_all (\<lambda>c. \<not> r_digit c) pre \<Longrightarrow> matches_from PAN_CANDIDATE b (pre @ a) = matches_from PAN_CANDIDATE (rev pre @ b) a"
proof (induction pre arbitrary: b)
  case (Cons c pre)
  then show ?case by (simp add: matches_from.simps [of PAN_CANDIDATE b "c # pre @ a"] pan_nothing)
qed simp

text \<open>A card number that stands alone is found: in a line with no digit before it and no digit behind it, with or
  without a blank or hyphen between, every digit sequence of 13 to 19 digits with a valid check digit is reported.\<close>

theorem isolated_card_is_found:
  assumes "list_all r_digit ds" "13 \<le> length ds" "length ds \<le> 19" "luhn_valid ds"
    and "list_all (\<lambda>c. \<not> r_digit c) pre" "\<not> continues post"
  shows "scan_line alnum n (pre @ ds @ post) \<noteq> [] \<and> hd (scan_line alnum n (pre @ ds @ post))
    = scan_hit ''payment_card_number'' (line_location n) (show_nat (length ds) @ '' digits passing the Luhn check'')"
proof -
  have b: "\<not> first_is r_digit (rev pre)" using assms(5) by (cases pre rule: rev_cases) simp_all
  obtain more where m: "rx_ends PAN_CANDIDATE (rev pre, ds @ post) = (rev ds @ rev pre, post) # more"
    using pan_first_end [OF assms(1-3,6) b] by blast
  have "finditer PAN_CANDIDATE (pre @ ds @ post) = matches_from PAN_CANDIDATE (rev pre) (ds @ post)"
    using matches_after_letters [OF assms(5), of "[]"] by (simp add: finditer_def)
  also have "\<dots> = ds # matches_from PAN_CANDIDATE (rev ds @ rev pre) post"
    using assms(2) by (subst matches_from.simps) (auto simp: m)
  finally have f: "finditer PAN_CANDIDATE (pre @ ds @ post) = ds # matches_from PAN_CANDIDATE (rev ds @ rev pre) post" .
  have "pan_digits ds = ds" using assms(1) separators by (auto simp: pan_digits_def list_all_iff filter_id_conv)
  moreover have "is_pan ds" using assms(2-4) by (simp add: is_pan_def)
  ultimately show ?thesis by (simp add: scan_line_def f)
qed

theorem isolated_card_is_found_witness:
  "scan_line (\<lambda>c. False) 1 (u ''PAN '' @ u ''4111111111111111'' @ u '';x'') \<noteq> []"
proof -
  have "list_all r_digit (u ''4111111111111111'')" "luhn_valid (u ''4111111111111111'')"
    "list_all (\<lambda>c. \<not> r_digit c) (u ''PAN '')" "\<not> continues (u '';x'')"
    by (simp_all add: u_def r_digit_def luhn_valid_def luhn_value_def continues_def among_def py_simps)
  with isolated_card_is_found [of "u ''4111111111111111''" "u ''PAN ''" "u '';x''" "\<lambda>c. False" 1] show ?thesis
    by (simp add: u_def)
qed

theorem luhn_notices_a_wrong_digit_witness:
  "luhn_valid (u ''4111111111111111'') \<and> \<not> luhn_valid ((u ''4111111111111111'')[3 := 50])"
proof -
  have v: "luhn_valid (u ''4111111111111111'')" "u ''4111111111111111'' ! 3 = 49" "r_digit 49" "r_digit 50" "length (u ''4111111111111111'') = 16"
    by (simp_all add: u_def r_digit_def luhn_valid_def luhn_value_def py_simps)
  show ?thesis using luhn_notices_a_wrong_digit [OF v(1), of 3 50] v by auto
qed

text \<open>A finding of the scanner never repeats what it found: it names one of the known kinds, the number of the
  line, and at most how many digits a card number has.\<close>

theorem findings_are_discreet:
  assumes "f \<in> set (scan_secrets alnum payload max_findings)"
  shows "sf_kind f \<in> set SENSITIVE_KINDS \<and> (\<exists>n. sf_location f = line_location n)
    \<and> (sf_detail f = ''matches a credential pattern''
       \<or> (\<exists>d. 13 \<le> d \<and> d \<le> 19 \<and> sf_detail f = show_nat d @ '' digits passing the Luhn check''))"
  using scan_secrets_discreet [OF assms] unfolding discreet_def .

section \<open>Secrets that are missed\<close>

text \<open>Every pattern of a credential begins with a letter or a hyphen.\<close>

definition starts_at :: "(nat \<Rightarrow> bool) \<Rightarrow> rx \<Rightarrow> bool" where
  "starts_at p r = (\<forall>b a. \<not> first_is p a \<longrightarrow> rx_ends r (b, a) = [])"

lemma starts_at_Sym: "(\<And>c. q c \<Longrightarrow> p c) \<Longrightarrow> starts_at p (Sym q)"
  unfolding starts_at_def by (metis first_is_simps(2) fst_conv rx_ends.simps(1) snd_conv sym_ends_ok list.set_intros(1) neq_Nil_conv)

lemma starts_at_Seq: "starts_at p r \<Longrightarrow> starts_at p (Seq r s)"
  "starts_at p s \<Longrightarrow> starts_at p (Seq (Edge w) s)" "starts_at p s \<Longrightarrow> starts_at p (Seq (NotBehind w) s)"
  by (simp_all add: starts_at_def)

lemma starts_at_Alt: "starts_at p r \<Longrightarrow> starts_at p s \<Longrightarrow> starts_at p (Alt r s)"
  by (simp add: starts_at_def)

lemma not_found: "starts_at p r \<Longrightarrow> list_all (\<lambda>c. \<not> p c) a \<Longrightarrow> \<not> found_from r b a"
  by (induction r b a rule: found_from.induct) (auto simp: starts_at_def)

definition credential_start :: "nat \<Rightarrow> bool" where
  "credential_start c = (r_letter c \<or> c = 45)"

lemma starts_at_Lit: "credential_start (code c) \<Longrightarrow> starts_at credential_start (Lit (c # s))"
  unfolding Lit_def u_def list.map foldr.simps o_apply by (intro starts_at_Seq(1) starts_at_Sym) simp

lemma starts_at_Lit_i: "97 \<le> code c \<Longrightarrow> code c \<le> 122 \<Longrightarrow> starts_at credential_start (Lit_i (c # s))"
  unfolding Lit_i_def u_def list.map foldr.simps o_apply
  by (intro starts_at_Seq(1) starts_at_Sym) (simp add: credential_start_def r_letter_def)

lemma credential_patterns: "(k, p) \<in> set (SECRET_PATTERNS alnum) \<Longrightarrow> starts_at credential_start p"
proof -
  have "list_all (\<lambda>(k, p). starts_at credential_start p) (SECRET_PATTERNS alnum)"
    unfolding SECRET_PATTERNS_def list.pred_inject prod.case
    by (rule conjI TrueI starts_at_Seq(2,3) starts_at_Seq(1) starts_at_Alt starts_at_Lit starts_at_Lit_i
      | simp add: credential_start_def r_letter_def folded_def r_upper_def py_simps)+
  then show "(k, p) \<in> set (SECRET_PATTERNS alnum) \<Longrightarrow> starts_at credential_start p" by (auto simp: list_all_iff)
qed

text \<open>A card number behind another number is missed: the candidate takes up to nineteen digits from the left,
  blanks between them included, its check digit fails, and the search goes on behind it.\<close>

theorem number_before_hides_card:
  "luhn_valid (u ''4111111111111111'') \<and> scan_secrets alnum (utf8_encode (u ''12 4111111111111111'')) 50 = []"
proof -
  have v: "luhn_valid (u ''4111111111111111'')"
    by (simp add: u_def r_digit_def luhn_valid_def luhn_value_def py_simps)
  have enc: "utf8_encode (u ''12 4111111111111111'') = u ''12 4111111111111111''"
    by (simp add: u_def utf8_encode_def utf8_char_def py_simps)
  let ?line = "[49, 50, 32, 52, 49, 49, 49, 49, 49, 49, 49, 49, 49, 49, 49, 49, 49, 49, 49] :: utext"
  have line: "u ''12 4111111111111111'' = ?line" by (simp add: u_def py_simps)
  have split: "splitlines (scan_text ?line) = [?line]"
    by (simp add: scan_text_def utf8_step_def u_break_def)
  have ends: "\<exists>more. rx_ends PAN_CANDIDATE ([], ?line) = (rev ?line, []) # more"
    by (simp add: PAN_CANDIDATE_def PAN_DIGIT_def r_digit_def among_def u_def py_simps numeral_eq_Suc)
  obtain more where more: "rx_ends PAN_CANDIDATE ([], ?line) = (rev ?line, []) # more" using ends by blast
  have "finditer PAN_CANDIDATE ?line = ?line # matches_from PAN_CANDIDATE (rev ?line) []"
    unfolding finditer_def by (subst matches_from.simps) (simp add: more)
  then have cards: "finditer PAN_CANDIDATE ?line = [?line]"
    by (simp add: matches_from.simps [of PAN_CANDIDATE _ "[]"] pan_nothing)
  have digits: "\<not> is_pan (pan_digits ?line)"
    by (simp add: is_pan_def pan_digits_def among_def u_def luhn_valid_def luhn_value_def py_simps)
  have patterns: "\<forall>(k, p) \<in> set (SECRET_PATTERNS alnum). \<not> rx_search p ?line"
  proof (clarify, unfold rx_search_def)
    fix k p assume kp: "(k, p) \<in> set (SECRET_PATTERNS alnum)" and found: "found_from p [] ?line"
    have "list_all (\<lambda>c. \<not> credential_start c) ?line" by (simp add: credential_start_def r_letter_def folded_def r_upper_def)
    from not_found [OF credential_patterns [OF kp] this] found show False by blast
  qed
  have "clean_line alnum ?line" using cards digits patterns by (simp add: clean_line_def)
  then show ?thesis using v by (simp add: scan_secrets_clean clean_payload_def line enc [unfolded line] split)
qed

lemma inert_sheet: "inert w \<Longrightarrow> length (wb_sheets w) = 1 \<Longrightarrow> \<exists>sh. wb_sheets w = [sh] \<and> sh_state sh = ''visible''"
  by (cases "wb_sheets w") (auto simp: inert_def)

text \<open>When the directory of a workbook already gives fifty findings, none of them about secrets, no cell is
  looked at: the workbook is promoted as inspected whatever its texts say.\<close>

theorem fifty_findings_stop_the_scan:
  assumes "detect (out_lower x) payload filename = Inr dt" "dt_media_type dt = ''application/zip''"
    and "inspect_archive (out_zip x) payload = Inr extra" "50 \<le> length extra" "identify_archive x payload = Inr ''xlsx''"
    and "out_workbook x payload = Inr w" "inert w" "length (wb_sheets w) = 1" "out_workbook_texts x payload = (t # ts, failure)"
  shows "\<exists>d. decide_promotion x payload filename ocr = Inr d \<and> promoted d \<and> de_reason d = ''content_inspected''
    \<and> set (contents x payload ocr d) = snd ` set (t # ts)"
proof -
  let ?fs = "mismatch_findings dt filename @ extra"
  have clean: "\<not> sensitive ?fs"
    using assms(3) mismatch_few(2) inspect_entries_kinds
    by (auto simp: inspect_archive_def Let_def split: option.splits if_splits)
  have scan: "scan_parts (out_alnum x) (t # ts) failure ?fs = (?fs, None)" using assms(4) by (cases t) simp
  obtain sh where sh: "wb_sheets w = [sh]" "sh_state sh = ''visible''" using inert_sheet assms(7,8) by blast
  have "promote_workbook x payload ?fs = Inr (select_sheet x payload ''xlsx'' (u ''xlsx workbook'') w ?fs)"
    using assms(6,7,9) clean scan by (simp add: promote_workbook_def inert_def)
  then have "decide_promotion x payload filename ocr = Inr (select_sheet x payload ''xlsx'' (u ''xlsx workbook'') w ?fs)"
    using assms(1,2,3,5) by (simp add: decide_promotion_def promote_archive_def Let_def)
  then show ?thesis using sh assms(9) by (simp add: select_sheet_def Let_def contents_def)
qed

section \<open>Small files\<close>

text \<open>A delimited text without a letter or digit, and surroundings that know no container.\<close>

definition no_reader :: "(exn, 'a) result" where
  "no_reader = Inl ReaderError"

definition plain_world :: outside where
  "plain_world = \<lparr>out_zip = (\<lambda>b. None), out_workbook = (\<lambda>b. no_reader), out_workbook_texts = (\<lambda>b. ([], None)),
     out_document = (\<lambda>b. no_reader), out_document_texts = (\<lambda>b. ([], None)), out_pypdf = (\<lambda>b. Inl PdfReadFault),
     out_sha = (\<lambda>b. ''digest''), out_lower = (\<lambda>s. s), out_casefold = (\<lambda>s. s), out_alnum = (\<lambda>c. False)\<rparr>"

lemma no_letters_clean:
  "list_all (\<lambda>c. \<not> r_digit c \<and> \<not> credential_start c) l \<Longrightarrow> clean_line alnum l"
proof -
  assume l: "list_all (\<lambda>c. \<not> r_digit c \<and> \<not> credential_start c) l"
  have "finditer PAN_CANDIDATE l = matches_from PAN_CANDIDATE (rev l) []"
    using matches_after_letters [of l "[]" "[]"] l by (simp add: finditer_def list_all_iff)
  moreover have "\<dots> = []" by (simp add: matches_from.simps [of PAN_CANDIDATE _ "[]"] pan_nothing)
  moreover have "\<not> rx_search p l" if "(k, p) \<in> set (SECRET_PATTERNS alnum)" for k p
    unfolding rx_search_def by (rule not_found [OF credential_patterns [OF that]]) (use l in \<open>simp add: list_all_iff\<close>)
  ultimately show ?thesis by (auto simp: clean_line_def)
qed

lemma separators_detect: "detect lower '',;'' [] = Inr \<lparr>dt_media_type = ''text/csv'', dt_declared = None, dt_matches = True, dt_sniffed = 2\<rparr>"
  by (simp add: detect_def HEAD_BYTES_def byte_values_def signature_of_def EXECUTABLE_SIGNATURES_def SIGNATURES_def starts_with_def
    looks_textual_def utf8_step_def first_line_def DELIMITERS_def u_break_def u_def py_simps)

lemma separators_lines: "splitlines (scan_text (byte_values '',;'')) = [[44, 59]]"
  by (simp add: scan_text_def byte_values_def utf8_step_def u_break_def py_simps)

lemma separators_clean: "clean_line alnum [44, 59]"
  by (rule no_letters_clean) (simp add: r_digit_def credential_start_def r_letter_def folded_def r_upper_def)

theorem text_promoted_iff_clean_witness:
  "\<exists>d. decide_promotion plain_world '',;'' [] None = Inr d \<and> promoted d"
  using text_promoted_iff_clean [of plain_world "'',;''" "[]" _ None, OF separators_detect] separators_clean
  by (simp add: separators_lines MAX_TEXT_LINES_def)

theorem admission_ends_in_quarantine_witness:
  "\<exists>a. admit plain_world '',;'' [] = Inr a \<and> am_zone a = ''quarantine'' \<and> am_size a = 2"
proof -
  have "admit plain_world '',;'' [] = Inr \<lparr>am_sha256 = ''digest'', am_size = 2, am_media_type = ''text/csv'', am_matches = True,
      am_zone = ''quarantine'', am_findings = []\<rparr>"
    by (simp add: admit_def check_size_def MAX_UPLOAD_BYTES_def separators_detect accepted_type_def ACCEPTED_MEDIA_TYPES_def
      starts_with_def count_lines_def MAX_TEXT_LINES_def mismatch_findings_def) (simp add: plain_world_def)
  from admission_ends_in_quarantine [OF this] this show ?thesis by auto
qed

lemma card_is_found: "\<exists>f. f \<in> set (scan_secrets alnum (utf8_encode (u ''4111111111111111'')) 1)"
proof -
  let ?c = "[52, 49, 49, 49, 49, 49, 49, 49, 49, 49, 49, 49, 49, 49, 49, 49] :: utext"
  have c: "u ''4111111111111111'' = ?c" by (simp add: u_def py_simps)
  have ok: "list_all r_digit ?c" "luhn_valid ?c" "\<not> continues []"
    by (simp_all add: r_digit_def luhn_valid_def luhn_value_def continues_def)
  obtain more where m: "rx_ends PAN_CANDIDATE ([], ?c @ []) = (rev ?c @ [], []) # more"
    using pan_first_end [OF ok(1) _ _ ok(3), of "[]"] by auto
  then have "?c \<in> set (finditer PAN_CANDIDATE ?c)"
    unfolding finditer_def by (subst matches_from.simps) simp
  moreover have "is_pan (pan_digits ?c)" using ok(2) by (simp add: is_pan_def pan_digits_def among_def u_def py_simps)
  ultimately have "\<not> clean_line alnum ?c" by (auto simp: clean_line_def)
  moreover have "splitlines (scan_text (utf8_encode ?c)) = [?c]"
    by (simp add: scan_text_def utf8_encode_def utf8_char_def utf8_step_def u_break_def)
  ultimately have "scan_secrets alnum (utf8_encode ?c) 1 \<noteq> []"
    by (simp add: scan_secrets_clean clean_payload_def)
  then show ?thesis unfolding c by (meson ex_in_conv set_empty)
qed

theorem findings_are_discreet_witness:
  "\<exists>f. f \<in> set (scan_secrets (\<lambda>c. False) (utf8_encode (u ''4111111111111111'')) 1) \<and> sf_kind f \<in> set SENSITIVE_KINDS"
proof -
  obtain f where f: "f \<in> set (scan_secrets (\<lambda>c. False) (utf8_encode (u ''4111111111111111'')) 1)" using card_is_found by blast
  from findings_are_discreet [OF f] f show ?thesis by blast
qed

section \<open>A workbook that is not looked at\<close>

text \<open>A workbook whose only text is a card number. Fifty entries of its archive expand a hundredfold.\<close>

definition big_entry :: zip_entry where
  "big_entry = \<lparr>ze_name = u ''s'', ze_size = 101, ze_stored = 1\<rparr>"

definition big_archive :: "nat \<Rightarrow> zip_archive" where
  "big_archive n = \<lparr>za_entries = map (\<lambda>m. \<lparr>ze_name = m, ze_size = 0, ze_stored = 0\<rparr>) XLSX_MARKERS @ replicate n big_entry, za_mimetype = Inr []\<rparr>"

definition one_sheet :: workbook where
  "one_sheet = \<lparr>wb_sheets = [\<lparr>sh_name = u ''s'', sh_identity = ''i'', sh_state = ''visible'', sh_ordinal = 1\<rparr>],
     wb_formulas = 0, wb_active = [], wb_external = 0\<rparr>"

definition workbook_world :: "nat \<Rightarrow> utext \<Rightarrow> outside" where
  "workbook_world n text = plain_world\<lparr>out_zip := (\<lambda>b. Some (big_archive n)), out_workbook := (\<lambda>b. Inr one_sheet),
     out_workbook_texts := (\<lambda>b. ([(u ''part'', text)], None))\<rparr>"

definition workbook_bytes :: bytes where
  "workbook_bytes = CHR ''P'' # CHR ''K'' # CHR 0x03 # CHR 0x04 # replicate 60 CHR ''a''"

lemma workbook_detect: "detect lower workbook_bytes [] = Inr \<lparr>dt_media_type = ''application/zip'', dt_declared = None, dt_matches = True, dt_sniffed = 64\<rparr>"
  by (simp add: detect_def workbook_bytes_def HEAD_BYTES_def byte_values_def signature_of_def EXECUTABLE_SIGNATURES_def SIGNATURES_def
    starts_with_def u_def py_simps)

lemma big_entries: "inspect_entries (replicate n big_entry)
    = Inr (replicate n (scan_hit ''high_compression_entry'' (u ''s'') ''single entry expands far beyond its stored size''))"
  by (induction n) (simp_all add: big_entry_def escapes_def expands_def MAX_COMPRESSION_RATIO_def starts_with_def u_def py_simps)

lemma workbook_archive: "n \<le> 50 \<Longrightarrow> inspect_archive (out_zip (workbook_world n text)) workbook_bytes
    = Inr (replicate n (scan_hit ''high_compression_entry'' (u ''s'') ''single entry expands far beyond its stored size''))"
  by (simp add: inspect_archive_def workbook_world_def big_archive_def XLSX_MARKERS_def MAX_ARCHIVE_ENTRIES_def MAX_UNCOMPRESSED_BYTES_def
    MAX_COMPRESSION_RATIO_def workbook_bytes_def big_entries sum_list_replicate Let_def)
    (simp add: big_entry_def escapes_def expands_def starts_with_def u_def py_simps)

lemma workbook_identity: "identify_archive (workbook_world n text) workbook_bytes = Inr ''xlsx''"
  by (simp add: identify_archive_def workbook_world_def plain_world_def big_archive_def XLSX_MARKERS_def MACRO_ENTRIES_def ODS_MIMETYPE_def
    starts_with_def big_entry_def u_def py_simps list_ex_iff)

theorem fifty_findings_stop_the_scan_witness:
  "\<exists>d. decide_promotion (workbook_world 50 (u ''4111111111111111'')) workbook_bytes [] None = Inr d \<and> promoted d
    \<and> \<not> clean_text (\<lambda>c. False) (u ''4111111111111111'') \<and> contents (workbook_world 50 (u ''4111111111111111'')) workbook_bytes None d \<noteq> []"
proof -
  let ?x = "workbook_world 50 (u ''4111111111111111'')"
  have w: "out_workbook ?x workbook_bytes = Inr one_sheet" "inert one_sheet" "length (wb_sheets one_sheet) = 1"
    "out_workbook_texts ?x workbook_bytes = ((u ''part'', u ''4111111111111111'') # [], None)"
    by (simp_all add: workbook_world_def one_sheet_def inert_def)
  obtain d where d: "decide_promotion ?x workbook_bytes [] None = Inr d" "promoted d"
    "set (contents ?x workbook_bytes None d) = snd ` set [(u ''part'', u ''4111111111111111'')]"
    using fifty_findings_stop_the_scan [OF workbook_detect _ workbook_archive _ workbook_identity w, of None] by auto
  obtain f where "f \<in> set (scan_secrets (\<lambda>c. False) (utf8_encode (u ''4111111111111111'')) 1)"
    using card_is_found by blast
  then have "\<not> clean_text (\<lambda>c. False) (u ''4111111111111111'')"
    using scan_secrets_clean [of 1 "\<lambda>c. False" "utf8_encode (u ''4111111111111111'')"] by (auto simp: clean_text_def)
  then show ?thesis using d by force
qed

theorem promoted_contents_are_clean_witness:
  "\<exists>d. decide_promotion (workbook_world 0 [44, 59]) workbook_bytes [] None = Inr d
    \<and> contents (workbook_world 0 [44, 59]) workbook_bytes None d = [[44, 59]] \<and> clean_text (\<lambda>c. False) [44, 59]"
proof -
  let ?x = "workbook_world 0 [44, 59]"
  have "clean_payload (\<lambda>c. False) (utf8_encode [44, 59])"
    using separators_clean by (simp add: clean_payload_def scan_text_def utf8_encode_def utf8_char_def utf8_step_def u_break_def)
  then have none: "scan_secrets (\<lambda>c. False) (utf8_encode [44, 59]) 50 = []" by (simp add: scan_secrets_clean)
  have "promote_workbook ?x workbook_bytes [] = Inr (select_sheet ?x workbook_bytes ''xlsx'' (u ''xlsx workbook'') one_sheet [])"
    by (simp add: promote_workbook_def workbook_world_def one_sheet_def encode_strict_def) (simp add: plain_world_def none relocate_def)
  then have d: "decide_promotion ?x workbook_bytes [] None = Inr (select_sheet ?x workbook_bytes ''xlsx'' (u ''xlsx workbook'') one_sheet [])"
    by (simp add: decide_promotion_def workbook_detect mismatch_findings_def promote_archive_def workbook_archive workbook_identity)
  have ok: "promoted (select_sheet ?x workbook_bytes ''xlsx'' (u ''xlsx workbook'') one_sheet [])"
    "contents ?x workbook_bytes None (select_sheet ?x workbook_bytes ''xlsx'' (u ''xlsx workbook'') one_sheet []) = [[44, 59]]"
    "out_alnum ?x = (\<lambda>c. False)"
    by (simp_all add: select_sheet_def one_sheet_def contents_def) (simp_all add: workbook_world_def plain_world_def)
  from promoted_contents_are_clean [OF d ok(1)] d ok(2,3) show ?thesis by (simp add: workbook_archive)
qed

section \<open>A small PDF file\<close>

lemma no_object_here: "\<not> r_digit c \<Longrightarrow> rx_ends OBJECT_RE (b, c # a) = []"
  by (simp add: OBJECT_RE_def)

lemma objects_skip: "list_all (\<lambda>c. \<not> r_digit c) w \<Longrightarrow> matches_from OBJECT_RE b (w @ a) = matches_from OBJECT_RE (rev w @ b) a"
proof (induction w arbitrary: b)
  case (Cons c w)
  then have "matches_from OBJECT_RE b (c # w @ a) = matches_from OBJECT_RE (c # b) (w @ a)"
    by (subst matches_from.simps) (simp add: no_object_here)
  then show ?case using Cons by simp
qed simp

lemma no_more_objects: "list_all (\<lambda>c. \<not> r_digit c) w \<Longrightarrow> matches_from OBJECT_RE b w = []"
proof -
  have "rx_ends OBJECT_RE (b, []) = []" for b by (simp add: OBJECT_RE_def)
  then have "matches_from OBJECT_RE b [] = []" for b by (subst matches_from.simps) simp
  then show "list_all (\<lambda>c. \<not> r_digit c) w \<Longrightarrow> ?thesis" using objects_skip [of w b "[]"] by simp
qed

definition small_pdf :: "string \<Rightarrow> bytes" where
  "small_pdf name = ''%PDF-1 0 obj'' @ name @ '' %%EOF''"

lemma small_object: "rx_ends OBJECT_RE ([45, 70, 68, 80, 37], [49, 32, 48, 32, 111, 98, 106] @ c # rest)
    = (if b_word c then [] else [([106, 98, 111, 32, 48, 32, 49, 45, 70, 68, 80, 37], c # rest)])"
  by (simp add: OBJECT_RE_def Lit_ends r_digit_def b_space_def u_def py_simps numeral_eq_Suc)
    (simp add: b_word_def r_word_def r_digit_def r_upper_def)

lemma small_pdf_objects:
  assumes "matches_from OBJECT_RE [106, 98, 111, 32, 48, 32, 49, 45, 70, 68, 80, 37] (c # rest) = []" "\<not> b_word c"
  shows "length (finditer OBJECT_RE ([37, 80, 68, 70, 45, 49, 32, 48, 32, 111, 98, 106] @ c # rest)) = 1"
proof -
  have "finditer OBJECT_RE ([37, 80, 68, 70, 45] @ [49, 32, 48, 32, 111, 98, 106] @ c # rest)
      = matches_from OBJECT_RE [45, 70, 68, 80, 37] ([49, 32, 48, 32, 111, 98, 106] @ c # rest)"
    unfolding finditer_def by (subst objects_skip) (simp_all add: r_digit_def)
  also have "\<dots> = [49, 32, 48, 32, 111, 98, 106] # matches_from OBJECT_RE [106, 98, 111, 32, 48, 32, 49, 45, 70, 68, 80, 37] (c # rest)"
    by (subst matches_from.simps) (simp only: small_object if_not_P [OF assms(2)] list.case prod.case, simp)
  also have "\<dots> = [[49, 32, 48, 32, 111, 98, 106]]" using assms(1) by simp
  finally show ?thesis by simp
qed

lemma small_pdf_envelope: "validate_envelope (byte_values (small_pdf [])) = Inr 1"
proof -
  let ?b = "[37, 80, 68, 70, 45, 49, 32, 48, 32, 111, 98, 106] @ 32 # [37, 37, 69, 79, 70] :: nat list"
  have b: "byte_values (small_pdf []) = ?b" by (simp add: byte_values_def small_pdf_def py_simps)
  have one: "length (finditer OBJECT_RE ?b) = 1"
    by (rule small_pdf_objects, rule no_more_objects) (simp_all add: r_digit_def b_word_def r_word_def r_upper_def)
  have "\<not> carries_name ?b name" if "name \<in> set ACTIVE_NAMES" for name
  proof
    assume "carries_name ?b name"
    then have "set (u name) \<subseteq> set ?b" unfolding carries_name_def by (metis set_append Un_upper1 Un_upper2 subset_trans)
    moreover have "47 \<in> set (u name)" using that by (auto simp: ACTIVE_NAMES_def u_def py_simps)
    ultimately show False by auto
  qed
  then have "\<not> list_ex (name_present ?b) ACTIVE_NAMES" by (simp add: list_ex_iff name_present_iff)
  moreover have "starts_with (u ''%PDF-'') ?b" "ends_with (u ''%%EOF'') (b_rstrip ?b)"
    by (simp_all add: starts_with_def ends_with_def b_rstrip_def b_space_def u_def py_simps)
  ultimately show ?thesis
    unfolding b validate_envelope_def Let_def one by (simp add: MAX_PDF_BYTES_def MAX_PDF_OBJECTS_def)
qed

text \<open>A name may be written with characters in hexadecimal: \<open>/J#53\<close> is \<open>/JS\<close>. The check of the bytes does not see it.\<close>

lemma escaped_names_pass: "validate_envelope (byte_values (small_pdf ''/J#53'')) = Inr 1"
proof -
  let ?b = "[37, 80, 68, 70, 45, 49, 32, 48, 32, 111, 98, 106] @ 47 # [74, 35, 53, 51, 32, 37, 37, 69, 79, 70] :: nat list"
  have b: "byte_values (small_pdf ''/J#53'') = ?b" by (simp add: byte_values_def small_pdf_def py_simps)
  have fifty_three: "rx_ends OBJECT_RE (c # b, [53, 51, 32, 37, 37, 69, 79, 70]) = []" for c b
    by (simp add: OBJECT_RE_def r_digit_def b_space_def numeral_eq_Suc)
  have three: "rx_ends OBJECT_RE (53 # b, [51, 32, 37, 37, 69, 79, 70]) = []" for b
    by (simp add: OBJECT_RE_def r_digit_def)
  have "matches_from OBJECT_RE [106, 98, 111, 32, 48, 32, 49, 45, 70, 68, 80, 37] ([47, 74, 35] @ [53, 51] @ [32, 37, 37, 69, 79, 70])
      = matches_from OBJECT_RE [35, 74, 47, 106, 98, 111, 32, 48, 32, 49, 45, 70, 68, 80, 37] ([53, 51] @ [32, 37, 37, 69, 79, 70])"
    by (subst objects_skip) (simp_all add: r_digit_def)
  also have "\<dots> = matches_from OBJECT_RE [51, 53, 35, 74, 47, 106, 98, 111, 32, 48, 32, 49, 45, 70, 68, 80, 37] [32, 37, 37, 69, 79, 70]"
    unfolding append.simps by (subst matches_from.simps, simp add: fifty_three, subst matches_from.simps, simp add: three)
  also have "\<dots> = []" by (rule no_more_objects) (simp add: r_digit_def)
  finally have one: "length (finditer OBJECT_RE ?b) = 1"
    by (intro small_pdf_objects) (simp_all add: b_word_def r_word_def r_digit_def r_upper_def)
  have "\<not> list_ex (name_present ?b) ACTIVE_NAMES"
    by (simp add: name_present_def ACTIVE_NAMES_def rx_search_def Lit_ends u_def py_simps)
  moreover have "starts_with (u ''%PDF-'') ?b" "ends_with (u ''%%EOF'') (b_rstrip ?b)"
    by (simp_all add: starts_with_def ends_with_def b_rstrip_def b_space_def u_def py_simps)
  ultimately show ?thesis
    unfolding b validate_envelope_def Let_def one by (simp add: MAX_PDF_BYTES_def MAX_PDF_OBJECTS_def)
qed

lemma written_names_do_not: "\<exists>m. validate_envelope (byte_values (small_pdf ''/JS'')) = Inl (PdfError m)"
proof -
  have "name_present (byte_values (small_pdf ''/JS'')) ''/JS''"
    unfolding name_present_iff carries_name_def
    by (intro exI [of _ "byte_values ''%PDF-1 0 obj''"] exI [of _ "byte_values '' %%EOF''"])
      (simp add: byte_values_def small_pdf_def u_def py_simps pdf_break_def b_space_def)
  moreover have "''/JS'' \<in> set ACTIVE_NAMES" by (simp add: ACTIVE_NAMES_def)
  ultimately have "list_ex (name_present (byte_values (small_pdf ''/JS''))) ACTIVE_NAMES" by (auto simp: list_ex_iff)
  then show ?thesis unfolding validate_envelope_def Let_def by auto
qed

definition small_page :: pdf_page where
  "small_page = \<lparr>pg_runs = [\<lparr>tr_text = Some [44, 59, 44], tr_place = None\<rparr>], pg_fault = None, pg_no_box = False\<rparr>"

definition pdf_world :: outside where
  "pdf_world = plain_world\<lparr>out_pypdf := (\<lambda>b. Inr \<lparr>rd_encrypted = False, rd_pages = Inr [Some small_page]\<rparr>)\<rparr>"

lemma small_page_fragments: "page_fragments small_page = Inr [(0, 0, 1, [44, 59, 44])]"
  by (simp add: page_fragments_def small_page_def run_fragments_def run_place_def text_lines_def u_strip_def u_space_def)

lemma small_pdf_promoted: "\<exists>d. decide_promotion pdf_world (small_pdf []) [] None = Inr d \<and> promoted d \<and> de_internal d = ''pdf''"
proof -
  have reader: "out_pypdf pdf_world (small_pdf []) = Inr \<lparr>rd_encrypted = False, rd_pages = Inr [Some small_page]\<rparr>"
    by (simp add: pdf_world_def)
  have inspected: "inspect_pdf (out_sha pdf_world) (out_pypdf pdf_world) (small_pdf [])
      = Inr \<lparr>in_sha256 = out_sha pdf_world (byte_values (small_pdf [])), in_pages = 1, in_objects = 1, in_chars = 3\<rparr>"
    by (simp add: inspect_pdf_def inspect_pdf_as_def small_pdf_envelope read_pdf_def reader small_page_fragments MAX_PDF_PAGES_def
      MAX_PDF_BLOCKS_def MIN_EMBEDDED_TEXT_CHARS_def u_strip_def u_space_def)
  have box: "\<not> pg_no_box small_page" by (simp add: small_page_def)
  have rows: "document_rows 1 0 [Some small_page] = ([\<lparr>pr_record = 1, pr_page = 1, pr_block = 1, pr_values = [[44, 59, 44]]\<rparr>], None)"
    unfolding document_rows.simps small_page_fragments if_not_P [OF box] by (simp add: encode_strict_def)
  have "clean_line alnum [44, 59, 44]" for alnum
    by (rule no_letters_clean) (simp add: r_digit_def credential_start_def r_letter_def folded_def r_upper_def)
  then have "clean_payload alnum (utf8_encode [44, 59, 44])" for alnum
    by (simp add: clean_payload_def scan_text_def utf8_encode_def utf8_char_def utf8_step_def u_break_def)
  then have none: "scan_secrets alnum (utf8_encode [44, 59, 44]) 50 = []" for alnum by (simp add: scan_secrets_clean)
  have streamed: "stream_pdf_rows (out_sha pdf_world) (out_pypdf pdf_world) (small_pdf []) preamble (out_sha pdf_world (byte_values (small_pdf [])))
      = ([\<lparr>pr_record = 1, pr_page = 1, pr_block = 1, pr_values = [[44, 59, 44]]\<rparr>], None)"
    if "pp_sha256 preamble = out_sha pdf_world (byte_values (small_pdf []))" for preamble
    unfolding stream_pdf_rows_def inspected read_pdf_def reader using that rows by (simp del: document_rows.simps)
  have "scan_pages alnum [\<lparr>pr_record = 1, pr_page = 1, pr_block = 1, pr_values = [[44, 59, 44]]\<rparr>] None [] = ([], None)" for alnum
    by (simp add: encode_strict_def none relocate_def)
  then have scanned: "\<exists>manifest. pdf_scan pdf_world (small_pdf []) [] = ([], Inr manifest)"
    unfolding pdf_scan_def sniff_pdf_def inspected by (simp add: streamed del: scan_pages.simps)
  have "detect (out_lower pdf_world) (small_pdf []) [] = Inr \<lparr>dt_media_type = ''application/pdf'', dt_declared = None, dt_matches = True, dt_sniffed = 18\<rparr>"
    by (simp add: detect_def small_pdf_def HEAD_BYTES_def byte_values_def signature_of_def EXECUTABLE_SIGNATURES_def SIGNATURES_def
      starts_with_def u_def py_simps)
  then show ?thesis using scanned by (auto simp: decide_promotion_def mismatch_findings_def promote_pdf_def)
qed

theorem promoted_is_inert_witness:
  "(\<exists>d. decide_promotion plain_world '',;'' [] None = Inr d \<and> \<not> sensitive (de_findings d) \<and> de_internal d \<noteq> ''zip'')
   \<and> (\<exists>d. decide_promotion pdf_world (small_pdf []) [] None = Inr d \<and> \<not> sensitive (de_findings d) \<and> passive_pdf (out_pypdf pdf_world) (small_pdf []))"
proof
  obtain d where d: "decide_promotion plain_world '',;'' [] None = Inr d" "promoted d"
    using text_promoted_iff_clean [of plain_world "'',;''" "[]" _ None, OF separators_detect] separators_clean
    by (auto simp: separators_lines MAX_TEXT_LINES_def)
  from promoted_is_inert [OF d] d(1) show "\<exists>d. decide_promotion plain_world '',;'' [] None = Inr d \<and> \<not> sensitive (de_findings d) \<and> de_internal d \<noteq> ''zip''"
    by auto
next
  obtain d where d: "decide_promotion pdf_world (small_pdf []) [] None = Inr d" "promoted d" "de_internal d = ''pdf''"
    using small_pdf_promoted by blast
  from promoted_is_inert [OF d(1,2)] d(1,3)
  show "\<exists>d. decide_promotion pdf_world (small_pdf []) [] None = Inr d \<and> \<not> sensitive (de_findings d) \<and> passive_pdf (out_pypdf pdf_world) (small_pdf [])"
    by (intro exI [of _ d]) auto
qed

end
