(* ===== verification/Uuid.thy ===== *)
theory Uuid
  imports PyValue
begin

text \<open>
  \<open>uuid.UUID\<close> of a text and the text of a UUID, as \<open>reconciliation.py\<close> uses them to give every identifier of a
  request one spelling. \<open>UUID\<close> drops the words \<open>urn:\<close> and \<open>uuid:\<close>, outer braces and every hyphen and hands
  the 32 characters that remain to \<open>int(_, 16)\<close>, with all that \<open>int\<close> allows (blanks, a sign, \<open>0x\<close>, single
  underscores). The lemmas show that the text read back is the number and that texts compare as the
  numbers do, so that the order of Python and the one of the database agree.
\<close>

section \<open>Integers in base 16\<close>

definition hex_value :: "char \<Rightarrow> nat option" where
  "hex_value c = (if is_digit c then Some (code c - 48)
     else if 97 \<le> code c \<and> code c \<le> 102 then Some (code c - 87)
     else if 65 \<le> code c \<and> code c \<le> 70 then Some (code c - 55) else None)"

text \<open>Digits with single underscores between them.\<close>

fun hex_run :: "nat \<Rightarrow> string \<Rightarrow> nat option" where
  "hex_run acc [] = Some acc"
| "hex_run acc (c # s) = (case hex_value c of
     Some v \<Rightarrow> hex_run (acc * 16 + v) s
   | None \<Rightarrow> if c = CHR ''_''
             then (case s of [] \<Rightarrow> None
                   | d # s' \<Rightarrow> (case hex_value d of Some v \<Rightarrow> hex_run (acc * 16 + v) s' | None \<Rightarrow> None))
             else None)"

definition hex_number :: "string \<Rightarrow> nat option" where
  "hex_number s = (case s of [] \<Rightarrow> None | c # _ \<Rightarrow> if hex_value c = None then None else hex_run 0 s)"

text \<open>What \<open>int\<close> strips: the blanks of C and those of the Latin-1 block behind ASCII.\<close>

definition int_space :: "char \<Rightarrow> bool" where
  "int_space c = (code c \<in> set [9, 10, 11, 12, 13, 32, 133, 160])"

definition strip_of :: "(char \<Rightarrow> bool) \<Rightarrow> string \<Rightarrow> string" where
  "strip_of p s = rev (dropWhile p (rev (dropWhile p s)))"

definition without_0x :: "string \<Rightarrow> string" where
  "without_0x s = (case s of
     z # x # r \<Rightarrow> if z = CHR ''0'' \<and> (x = CHR ''x'' \<or> x = CHR ''X'')
                 then (case r of c # r' \<Rightarrow> if c = CHR ''_'' then r' else r | [] \<Rightarrow> []) else s
   | _ \<Rightarrow> s)"

definition int16 :: "string \<Rightarrow> int option" where
  "int16 s = (case strip_of int_space s of
       [] \<Rightarrow> None
     | c # r \<Rightarrow> if c = CHR ''-'' then map_option (\<lambda>n. - int n) (hex_number (without_0x r))
                else if c = CHR ''+'' then map_option int (hex_number (without_0x r))
                else map_option int (hex_number (without_0x (c # r))))"

section \<open>UUID\<close>

text \<open>\<open>s.replace(p, "")\<close> for a pattern that is not empty.\<close>

function remove_sub :: "string \<Rightarrow> string \<Rightarrow> string" where
  "remove_sub p [] = []"
| "remove_sub p (c # s) =
     (if p \<noteq> [] \<and> starts_with p (c # s) then remove_sub p (drop (length p) (c # s)) else c # remove_sub p s)"
  by pat_completeness auto
termination
  by (relation "measure (length \<circ> snd)") auto

definition uuid_digits :: "string \<Rightarrow> string" where
  "uuid_digits s = filter (\<lambda>c. c \<noteq> CHR ''-'')
     (strip_of (\<lambda>c. c \<in> set ''{}'') (remove_sub ''uuid:'' (remove_sub ''urn:'' s)))"

definition uuid_of :: "string \<Rightarrow> nat option" where
  "uuid_of s = (if length (uuid_digits s) \<noteq> 32 then None
     else case int16 (uuid_digits s) of None \<Rightarrow> None
          | Some n \<Rightarrow> if 0 \<le> n \<and> n < 2 ^ 128 then Some (nat n) else None)"

fun hex_fixed :: "nat \<Rightarrow> nat \<Rightarrow> string" where
  "hex_fixed 0 n = []"
| "hex_fixed (Suc k) n = hex_fixed k (n div 16) @ [hex_char (n mod 16)]"

definition uuid_text :: "nat \<Rightarrow> string" where
  "uuid_text n = (let h = hex_fixed 32 n in
     take 8 h @ ''-'' @ take 4 (drop 8 h) @ ''-'' @ take 4 (drop 12 h) @ ''-'' @ take 4 (drop 16 h) @ ''-'' @ drop 20 h)"

definition canonical_uuid :: "string \<Rightarrow> string option" where
  "canonical_uuid s = map_option uuid_text (uuid_of s)"

section \<open>The text reads back\<close>

lemma length_hex_fixed [simp]: "length (hex_fixed k n) = k"
  by (induction k arbitrary: n) auto

definition hex_lower :: "char \<Rightarrow> bool" where
  "hex_lower c = (is_digit c \<or> (97 \<le> code c \<and> code c \<le> 102))"

lemma code_hex_char: "d < 16 \<Longrightarrow> code (hex_char d) = (if d < 10 then 48 + d else 87 + d)"
  by (auto simp: hex_char_def)

lemma hex_value_hex_char: "d < 16 \<Longrightarrow> hex_value (hex_char d) = Some d"
  by (auto simp: hex_value_def is_digit_def code_hex_char)

lemma hex_lower_hex_char: "d < 16 \<Longrightarrow> hex_lower (hex_char d)"
  by (auto simp: hex_lower_def is_digit_def code_hex_char)

lemma hex_char_less: "a < b \<Longrightarrow> b < 16 \<Longrightarrow> hex_char a < hex_char b"
  unfolding less_char_def by (auto simp: code_hex_char simp flip: code_def)

lemma hex_fixed_lower: "\<forall>c \<in> set (hex_fixed k n). hex_lower c"
  by (induction k arbitrary: n) (auto simp: hex_lower_hex_char)

lemma hex_run_snoc_plain:
  assumes "\<forall>c \<in> set s. hex_lower c" "hex_lower c"
  shows "hex_run acc (s @ [c]) = (case hex_run acc s of None \<Rightarrow> None | Some a \<Rightarrow> map_option (\<lambda>v. a * 16 + v) (hex_value c))"
  using assms
proof (induction s arbitrary: acc)
  case Nil
  then show ?case by (auto simp: hex_value_def hex_lower_def)
next
  case (Cons d s)
  then have "hex_value d \<noteq> None" by (auto simp: hex_value_def hex_lower_def)
  with Cons show ?case by auto
qed

lemma hex_run_fixed: "n < 16 ^ k \<Longrightarrow> hex_run 0 (hex_fixed k n) = Some n"
proof (induction k arbitrary: n)
  case (Suc k)
  then have "n div 16 < 16 ^ k" by (simp add: div_less_iff_less_mult mult.commute)
  with Suc.IH [of "n div 16"] show ?case
    by (simp add: hex_run_snoc_plain [OF hex_fixed_lower hex_lower_hex_char] hex_value_hex_char)
qed simp

lemma remove_sub_id: "c \<in> set p \<Longrightarrow> c \<notin> set s \<Longrightarrow> remove_sub p s = s"
proof (induction s)
  case (Cons d s)
  then have "\<not> starts_with p (d # s)" by (auto simp: starts_with_def) (metis Cons.prems in_set_takeD set_ConsD)
  with Cons show ?case by simp
qed simp

lemma strip_of_id: "\<forall>c \<in> set s. \<not> p c \<Longrightarrow> strip_of p s = s"
proof -
  assume no: "\<forall>c \<in> set s. \<not> p c"
  have "dropWhile p t = t" if "set t \<subseteq> set s" for t
    using no that by (cases t) auto
  then show ?thesis by (simp add: strip_of_def)
qed

definition uuid_char :: "char \<Rightarrow> bool" where
  "uuid_char c = (hex_lower c \<or> c = CHR ''-'')"

lemma uuid_char_not [simp]: "\<not> uuid_char (CHR '':'')" "\<not> uuid_char (CHR ''{'')" "\<not> uuid_char (CHR ''}'')"
  by (simp_all add: uuid_char_def hex_lower_def is_digit_def code_def)

lemma hex_lower_not_hyphen: "hex_lower c \<Longrightarrow> c \<noteq> CHR ''-''"
  by (auto simp: hex_lower_def is_digit_def code_def)

lemma uuid_text_chars: "\<forall>c \<in> set (uuid_text n). uuid_char c"
  using hex_fixed_lower [of 32 n]
  by (auto simp: uuid_text_def Let_def uuid_char_def dest: in_set_takeD in_set_dropD)

lemma filter_hyphen_hex: "\<forall>c \<in> set s. hex_lower c \<Longrightarrow> filter (\<lambda>c. c \<noteq> CHR ''-'') s = s"
  by (induction s) (auto dest: hex_lower_not_hyphen)

lemma hex_groups: "h = take 8 h @ take 4 (drop 8 h) @ take 4 (drop 12 h) @ take 4 (drop 16 h) @ drop 20 h"
proof -
  have split: "drop j h = take k (drop j h) @ drop (k + j) h" for j k
    by (metis append_take_drop_id drop_drop)
  show ?thesis
    using split [of 0 8] split [of 8 4] split [of 12 4] split [of 16 4] by simp
qed

lemma hyphen_groups:
  assumes "\<forall>c \<in> set h. hex_lower c"
  shows "filter (\<lambda>c. c \<noteq> CHR ''-'') (take 8 h @ ''-'' @ take 4 (drop 8 h) @ ''-'' @ take 4 (drop 12 h) @ ''-''
    @ take 4 (drop 16 h) @ ''-'' @ drop 20 h) = h"
proof -
  have part: "filter (\<lambda>c. c \<noteq> CHR ''-'') (take i (drop j h)) = take i (drop j h)"
    "filter (\<lambda>c. c \<noteq> CHR ''-'') (drop j h) = drop j h" for i j
    using assms by (auto intro!: filter_hyphen_hex dest: in_set_takeD in_set_dropD)
  show ?thesis using part(1) [of 8 0] by (simp add: part hex_groups [symmetric])
qed

lemma uuid_digits_text: "uuid_digits (uuid_text n) = hex_fixed 32 n"
proof -
  have colon: "CHR '':'' \<notin> set (uuid_text n)" using uuid_text_chars [of n] by auto
  have braces: "\<forall>c \<in> set (uuid_text n). \<not> c \<in> set ''{}''" using uuid_text_chars [of n] by auto
  have "remove_sub ''uuid:'' (remove_sub ''urn:'' (uuid_text n)) = uuid_text n"
    using colon by (simp add: remove_sub_id [of "CHR '':''"])
  then have "uuid_digits (uuid_text n) = filter (\<lambda>c. c \<noteq> CHR ''-'') (uuid_text n)"
    using strip_of_id [OF braces] by (simp add: uuid_digits_def)
  then show ?thesis
    using hyphen_groups [OF hex_fixed_lower [of 32 n]] by (simp add: uuid_text_def Let_def)
qed

lemma hex_lower_plain:
  assumes "hex_lower c"
  shows "\<not> int_space c" "c \<noteq> CHR ''-''" "c \<noteq> CHR ''+''" "c \<noteq> CHR ''x''" "c \<noteq> CHR ''X''" "hex_value c \<noteq> None"
proof -
  have "code c \<in> {48..57} \<union> {97..102}" using assms by (auto simp: hex_lower_def is_digit_def)
  then show "\<not> int_space c" "c \<noteq> CHR ''-''" "c \<noteq> CHR ''+''" "c \<noteq> CHR ''x''" "c \<noteq> CHR ''X''" "hex_value c \<noteq> None"
    by (auto simp: int_space_def code_def hex_value_def is_digit_def)
qed

lemma without_0x_hex: "\<forall>c \<in> set s. hex_lower c \<Longrightarrow> without_0x s = s"
  by (auto simp: without_0x_def hex_lower_plain split: list.split)

lemma int16_fixed:
  assumes "n < 16 ^ k" "0 < k"
  shows "int16 (hex_fixed k n) = Some (int n)"
proof -
  obtain c s where cs: "hex_fixed k n = c # s"
    using assms(2) length_hex_fixed [of k n] by (cases "hex_fixed k n") auto
  have low: "\<forall>d \<in> set (c # s). hex_lower d" using hex_fixed_lower [of k n] by (simp add: cs)
  have strip: "strip_of int_space (c # s) = c # s"
    using low by (intro strip_of_id) (auto dest: hex_lower_plain)
  have c: "c \<noteq> CHR ''-''" "c \<noteq> CHR ''+''" "hex_value c \<noteq> None" using low by (simp_all add: hex_lower_plain)
  have "hex_number (c # s) = Some n"
    using hex_run_fixed [OF assms(1)] c(3) by (simp add: hex_number_def cs)
  then show ?thesis unfolding cs int16_def strip by (simp add: c(1,2) without_0x_hex [OF low])
qed

lemma uuid_of_text: "n < 2 ^ 128 \<Longrightarrow> uuid_of (uuid_text n) = Some n"
proof -
  assume n: "n < 2 ^ 128"
  have "int16 (hex_fixed 32 n) = Some (int n)"
    by (rule int16_fixed) (use n in simp_all)
  then show ?thesis using n by (simp add: uuid_of_def uuid_digits_text)
qed

lemma uuid_of_less: "uuid_of s = Some n \<Longrightarrow> n < 2 ^ 128"
  by (auto simp: uuid_of_def split: if_splits option.splits)

lemma canonical_uuid_idem: "canonical_uuid s = Some t \<Longrightarrow> canonical_uuid t = Some t"
  by (auto simp: canonical_uuid_def uuid_of_text [OF uuid_of_less])

lemma canonical_uuid_chars: "canonical_uuid s = Some t \<Longrightarrow> \<forall>c \<in> set t. uuid_char c"
  using uuid_text_chars by (auto simp: canonical_uuid_def)

section \<open>Texts compare as numbers\<close>

lemma append_less_iff:
  fixes a b c d :: string
  assumes "length a = length b"
  shows "a @ c < b @ d \<longleftrightarrow> a < b \<or> (a = b \<and> c < d)"
  using assms
proof (induction a arbitrary: b)
  case (Cons x a)
  then obtain y b' where "b = y # b'" "length a = length b'" by (cases b) auto
  with Cons.IH [of b'] show ?case by auto
qed simp

lemma hex_fixed_mono: "m < n \<Longrightarrow> n < 16 ^ k \<Longrightarrow> hex_fixed k m < hex_fixed k n"
proof (induction k arbitrary: m n)
  case (Suc k)
  have n: "n div 16 < 16 ^ k" using Suc.prems by (simp add: div_less_iff_less_mult mult.commute)
  show ?case
  proof (cases "m div 16 = n div 16")
    case True
    then have "m mod 16 < n mod 16" using Suc.prems(1) by (metis div_mod_decomp nat_add_left_cancel_less)
    then have "hex_char (m mod 16) < hex_char (n mod 16)" by (rule hex_char_less) simp
    then show ?thesis using True by (simp add: append_less_iff)
  next
    case False
    then have "m div 16 < n div 16" using Suc.prems(1) by (metis div_le_mono le_neq_implies_less less_imp_le)
    then show ?thesis using Suc.IH [OF _ n] by (simp add: append_less_iff)
  qed
qed simp

lemma uuid_text_mono:
  assumes "m < n" "n < 2 ^ 128"
  shows "uuid_text m < uuid_text n"
proof -
  have "hex_fixed 32 m < hex_fixed 32 n" by (rule hex_fixed_mono) (use assms in simp_all)
  then show ?thesis
    unfolding uuid_text_def Let_def
    by (subst (asm) hex_groups [of "hex_fixed 32 m"], subst (asm) hex_groups [of "hex_fixed 32 n"])
      (simp only: append_less_iff length_hex_fixed length_take length_drop append_Cons append_Nil, simp add: append_less_iff)
qed

lemma uuid_text_inject: "m < 2 ^ 128 \<Longrightarrow> n < 2 ^ 128 \<Longrightarrow> uuid_text m = uuid_text n \<longleftrightarrow> m = n"
  using uuid_of_text by (metis option.inject)

end
