(* ===== verification/Reconciliation.thy ===== *)
theory Reconciliation
  imports Uuid Release Calendar
begin

text \<open>
  \<open>apps/api/src/fincilia_api/reconciliation.py\<close>, one to one: the query of candidate pairs and the ledger of
  reviews. The tables are lists of rows, those of one company, since row level security hides every
  other one; a SQL statement is the expression over these lists that it denotes, and an insertion
  checks what the constraints and triggers of \<open>db/migrations\<close> check. SHA-256, the text of a time stamp, the
  cast of a text to \<open>uuid\<close> in the database and the closed periods are fields of the arguments; time stamps and
  fresh identifiers are arguments of the commands. A command runs under its advisory locks, so it is
  one step, except that \<open>decide_review\<close> reads a ledger \<open>seen\<close> that may be older than the one it writes to: other
  candidates are decided between its statements.
\<close>

section \<open>Vocabulary\<close>

definition MAX_CANDIDATE_LIMIT :: int where "MAX_CANDIDATE_LIMIT = 200"
definition MAX_CANDIDATE_OFFSET :: int where "MAX_CANDIDATE_OFFSET = 10000"
definition MAX_DATE_WINDOW_DAYS :: int where "MAX_DATE_WINDOW_DAYS = 31"
definition DEFAULT_CANDIDATE_LIMIT :: int where "DEFAULT_CANDIDATE_LIMIT = 50"
definition DEFAULT_DATE_WINDOW_DAYS :: int where "DEFAULT_DATE_WINDOW_DAYS = 3"

definition REFERENCE_MODES :: "string list" where
  "REFERENCE_MODES = [''all'', ''matching'', ''different'']"

definition ELIGIBLE_DATASET_STATES :: "string list" where
  "ELIGIBLE_DATASET_STATES = [''validated'', ''published'']"

definition ELIGIBLE_COMPLETENESS_STATES :: "string list" where
  "ELIGIBLE_COMPLETENESS_STATES = [''verified'', ''accepted_exception'']"

definition RULES :: "string list" where
  "RULES = [''exact_amount'', ''same_currency'', ''opposite_direction'', ''different_financial_account'',
     ''date_within_explicit_window'']"

definition REVIEW_RULE_VERSION :: string where "REVIEW_RULE_VERSION = ''fnc-rec-exact-v1''"

definition key_char :: "char \<Rightarrow> bool" where
  "key_char c = (is_alnum_ascii c \<or> c \<in> set ''._:-'')"

definition IDEMPOTENCY_KEY :: rx where
  "IDEMPOTENCY_KEY = rrange 16 128 (RCls key_char)"

definition REVIEW_QUEUE_STATUSES :: "string list" where
  "REVIEW_QUEUE_STATUSES = [''open'', ''confirmed'', ''rejected'', ''all'']"

definition MAX_REVIEW_QUEUE_LIMIT :: int where "MAX_REVIEW_QUEUE_LIMIT = 100"
definition MAX_REVIEW_QUEUE_OFFSET :: int where "MAX_REVIEW_QUEUE_OFFSET = 10000"

definition DECISION_REASONS :: "(string \<times> string list) list" where
  "DECISION_REASONS =
     [(''confirmed'', [''documented_counterpart'', ''documented_transfer'', ''reference_supported'']),
      (''rejected'', [''different_event'', ''timing_mismatch'', ''wrong_counterpart'', ''insufficient_evidence''])]"

text \<open>What a call may raise. A database error carries its SQLSTATE and the name of the constraint.\<close>

datatype rec_error = CandidateQueryError string string | ReviewCommandError string string
  | RuntimeError string | DatabaseError string string | PythonError exn

type_synonym 'a answer = "(rec_error, 'a) result"

section \<open>Tables\<close>

text \<open>
  A row of \<open>canonical_movement\<close> with the ordinal of its raw record. The amount is \<open>numeric(38,12)\<close>: a whole
  number of units of the twelfth decimal. \<open>reference_normalised\<close> may be null.
\<close>

record movement_row =
  m_id :: string
  m_dataset :: string
  m_account :: string
  m_amount :: int
  m_currency :: string
  m_direction :: string
  m_description :: string
  m_reference :: "string option"
  m_normalised :: "string option"
  m_occurred :: date
  m_state :: string
  m_lineage :: string
  m_release :: string
  m_schema :: string
  m_ordinal :: nat

record dataset_row =
  d_id :: string
  d_state :: string
  d_completeness :: string
  d_lineage :: string
  d_count :: nat

text \<open>What the ledger refers to: datasets, movements, subjects with their names, closed periods.\<close>

record catalog =
  ct_datasets :: "dataset_row list"
  ct_movements :: "movement_row list"
  ct_subjects :: "(string \<times> string) list"
  ct_closed :: "date \<Rightarrow> date \<Rightarrow> bool"

record services =
  sv_sha :: "string \<Rightarrow> string"
  sv_iso :: "nat \<Rightarrow> string"
  sv_cast :: "string \<Rightarrow> string option"

section \<open>Exploring candidates\<close>

record candidate_query =
  cq_left :: string
  cq_right :: string
  cq_max_days :: int
  cq_offset :: int
  cq_limit :: int
  cq_mode :: string

definition validated :: "candidate_query \<Rightarrow> candidate_query answer" where
  "validated q =
     (if cq_left q = cq_right q
      then Inl (CandidateQueryError ''datasets-must-differ'' ''two distinct datasets are required'')
      else if \<not> (0 \<le> cq_max_days q \<and> cq_max_days q \<le> MAX_DATE_WINDOW_DAYS)
      then Inl (CandidateQueryError ''date-window-invalid'' ''max_days must be between 0 and 31'')
      else if \<not> (0 \<le> cq_offset q \<and> cq_offset q \<le> MAX_CANDIDATE_OFFSET)
      then Inl (CandidateQueryError ''candidate-offset-invalid'' ''offset must be between 0 and 10000'')
      else if \<not> (1 \<le> cq_limit q \<and> cq_limit q \<le> MAX_CANDIDATE_LIMIT)
      then Inl (CandidateQueryError ''candidate-limit-invalid'' ''limit must be between 1 and 200'')
      else if cq_mode q \<notin> set REFERENCE_MODES
      then Inl (CandidateQueryError ''reference-mode-invalid'' ''reference_mode must be all, matching or different'')
      else Inr q)"

definition scope_unavailable :: rec_error where
  "scope_unavailable = CandidateQueryError ''candidate-scope-unavailable''
     ''the requested datasets are unavailable for candidate exploration''"

definition eligible_dataset :: "dataset_row \<Rightarrow> bool" where
  "eligible_dataset d = (d_state d \<in> set ELIGIBLE_DATASET_STATES
     \<and> d_completeness d \<in> set ELIGIBLE_COMPLETENESS_STATES \<and> d_lineage d = ''complete'')"

definition dataset_rows :: "catalog \<Rightarrow> string list \<Rightarrow> (string \<times> dataset_row) list" where
  "dataset_rows cat ids = map (\<lambda>d. (d_id d, d)) (filter (\<lambda>d. d_id d \<in> set ids) (ct_datasets cat))"

definition load_eligible_pair :: "services \<Rightarrow> catalog \<Rightarrow> candidate_query \<Rightarrow> (dataset_row \<times> dataset_row) answer" where
  "load_eligible_pair sv cat q = (case (sv_cast sv (cq_left q), sv_cast sv (cq_right q)) of
     (Some a, Some b) \<Rightarrow> (let found = dataset_rows cat [a, b] in
       if set (map fst found) \<noteq> {cq_left q, cq_right q} then Inl scope_unavailable
       else case (map_of found (cq_left q), map_of found (cq_right q)) of
         (Some l, Some r) \<Rightarrow>
           if \<not> eligible_dataset l then Inl scope_unavailable
           else if \<not> eligible_dataset r then Inl scope_unavailable else Inr (l, r)
       | _ \<Rightarrow> Inl (PythonError (KeyError (cq_left q))))
   | _ \<Rightarrow> Inl (DatabaseError ''22P02'' ''''))"

text \<open>\<open>l.reference_normalised IS NOT NULL AND l.reference_normalised = r.reference_normalised\<close> with three values.\<close>

definition reference_match :: "movement_row \<Rightarrow> movement_row \<Rightarrow> bool option" where
  "reference_match l r = (case m_normalised l of None \<Rightarrow> Some False
     | Some x \<Rightarrow> map_option (\<lambda>y. x = y) (m_normalised r))"

definition date_distance :: "movement_row \<Rightarrow> movement_row \<Rightarrow> int" where
  "date_distance l r = \<bar>date_diff (m_occurred l) (m_occurred r)\<bar>"

definition live_movement :: "movement_row \<Rightarrow> bool" where
  "live_movement m = (m_state m \<in> set [''proposed'', ''confirmed''] \<and> m_lineage m = ''complete'')"

definition exact_pair :: "int \<Rightarrow> movement_row \<Rightarrow> movement_row \<Rightarrow> bool" where
  "exact_pair days l r = (m_amount r = m_amount l \<and> m_currency r = m_currency l \<and> m_direction r \<noteq> m_direction l
     \<and> m_account r \<noteq> m_account l \<and> date_distance l r \<le> days)"

definition mode_accepts :: "string \<Rightarrow> bool option \<Rightarrow> bool" where
  "mode_accepts mode mt = (if mode = ''matching'' then mt = Some True
     else if mode = ''different'' then mt \<noteq> Some True else True)"

text \<open>\<open>ORDER BY reference_match DESC\<close>: a null comes first, as nulls do in a descending order.\<close>

definition match_rank :: "bool option \<Rightarrow> nat" where
  "match_rank mt = (case mt of None \<Rightarrow> 0 | Some True \<Rightarrow> 1 | Some False \<Rightarrow> 2)"

definition pair_key :: "movement_row \<times> movement_row \<Rightarrow> nat \<times> int \<times> nat \<times> nat \<times> string \<times> string" where
  "pair_key p = (case p of (l, r) \<Rightarrow>
     (match_rank (reference_match l r), date_distance l r, m_ordinal l, m_ordinal r, m_id l, m_id r))"

definition candidate_pairs :: "catalog \<Rightarrow> candidate_query \<Rightarrow> (movement_row \<times> movement_row) list" where
  "candidate_pairs cat q =
     [(l, r). l \<leftarrow> ct_movements cat, m_dataset l = cq_left q \<and> live_movement l,
              r \<leftarrow> ct_movements cat, m_dataset r = cq_right q \<and> exact_pair (cq_max_days q) l r \<and> live_movement r
                \<and> mode_accepts (cq_mode q) (reference_match l r)]"

definition page :: "int \<Rightarrow> int \<Rightarrow> 'a list \<Rightarrow> 'a list" where
  "page offset limit xs = take (nat limit) (drop (nat offset) xs)"

text \<open>The adapter gives \<open>numeric(38,12)\<close> as a \<open>Decimal\<close> with twelve places.\<close>

definition numeric12 :: "int \<Rightarrow> decimal" where
  "numeric12 n = Fin (n < 0) (nat \<bar>n\<bar>) (-12)"

record movement_view =
  mw_id :: string
  mw_amount :: string
  mw_currency :: string
  mw_direction :: string
  mw_description :: string
  mw_reference :: "string option"
  mw_occurred :: string
  mw_state :: string
  mw_ordinal :: nat

definition movement_of :: "movement_row \<Rightarrow> movement_view" where
  "movement_of m = \<lparr>mw_id = m_id m, mw_amount = dec_format12 (numeric12 (m_amount m)), mw_currency = m_currency m,
     mw_direction = m_direction m, mw_description = m_description m, mw_reference = m_reference m,
     mw_occurred = isoformat (m_occurred m), mw_state = m_state m, mw_ordinal = m_ordinal m\<rparr>"

record candidate_view =
  cv_left :: movement_view
  cv_right :: movement_view
  cv_distance :: int
  cv_signals :: "string list"

definition signals_of :: "bool option \<Rightarrow> string list" where
  "signals_of mt = (if mt = Some True then RULES @ [''same_normalised_reference''] else RULES)"

definition candidate_from_row :: "movement_row \<times> movement_row \<Rightarrow> candidate_view" where
  "candidate_from_row p = (case p of (l, r) \<Rightarrow> \<lparr>cv_left = movement_of l, cv_right = movement_of r,
     cv_distance = date_distance l r, cv_signals = signals_of (reference_match l r)\<rparr>)"

record exploration =
  ex_result_mode :: string
  ex_proves :: bool
  ex_rules :: "string list"
  ex_role :: string
  ex_mode :: string
  ex_max_days :: int
  ex_offset :: int
  ex_limit :: int
  ex_truncated :: bool
  ex_left :: dataset_row
  ex_right :: dataset_row
  ex_candidates :: "candidate_view list"

definition explore_candidates :: "services \<Rightarrow> catalog \<Rightarrow> candidate_query \<Rightarrow> exploration answer" where
  "explore_candidates sv cat query = rbind (validated query) (\<lambda>q. rbind (load_eligible_pair sv cat q) (\<lambda>(ld, rd).
     let rows = page (cq_offset q) (cq_limit q + 1) (sort_key pair_key (candidate_pairs cat q)) in
     Inr \<lparr>ex_result_mode = ''candidate_only'', ex_proves = False, ex_rules = RULES,
       ex_role = ''optional_non_decisive_filter_and_order'', ex_mode = cq_mode q, ex_max_days = cq_max_days q,
       ex_offset = cq_offset q, ex_limit = cq_limit q, ex_truncated = (int (length rows) > cq_limit q),
       ex_left = ld, ex_right = rd, ex_candidates = map candidate_from_row (take (nat (cq_limit q)) rows)\<rparr>))"

section \<open>The ledger\<close>

record match_candidate =
  mc_id :: string
  mc_left :: string
  mc_right :: string
  mc_rule :: string
  mc_signals :: "string list"
  mc_window :: int
  mc_distance :: int
  mc_releases :: "string list"
  mc_schemas :: "string list"
  mc_proposer :: string
  mc_at :: nat
  mc_audit :: string

record match_decision =
  md_id :: string
  md_candidate :: string
  md_decision :: string
  md_reason :: string
  md_evidence :: "(string \<times> string) list"
  md_actor :: string
  md_at :: nat
  md_audit :: string

record match_receipt =
  mr_actor :: string
  mr_action :: string
  mr_key :: string
  mr_digest :: string
  mr_kind :: string
  mr_ref :: string

record match_member =
  mm_movement :: string
  mm_candidate :: string
  mm_decision :: string
  mm_side :: string

record audit_event =
  au_id :: string
  au_subject :: string
  au_action :: string
  au_kind :: string
  au_resource :: string
  au_outcome :: string
  au_detail :: pydict

record review_ledger =
  lg_candidates :: "match_candidate list"
  lg_decisions :: "match_decision list"
  lg_receipts :: "match_receipt list"
  lg_members :: "match_member list"
  lg_audits :: "audit_event list"

definition empty_ledger :: review_ledger where
  "empty_ledger = \<lparr>lg_candidates = [], lg_decisions = [], lg_receipts = [], lg_members = [], lg_audits = []\<rparr>"

section \<open>Arguments of a command\<close>

definition uuid_field :: "string \<Rightarrow> string \<Rightarrow> string answer" where
  "uuid_field value field_name = (case canonical_uuid value of Some t \<Rightarrow> Inr t
     | None \<Rightarrow> Inl (ReviewCommandError ''review-request-invalid'' (field_name @ '' must be a UUID'')))"

definition idempotency_key :: "string \<Rightarrow> string answer" where
  "idempotency_key value = (let candidate = py_strip value in
     if \<not> rx_match IDEMPOTENCY_KEY candidate
     then Inl (ReviewCommandError ''idempotency-key-invalid'' ''Idempotency-Key must contain 16 to 128 safe characters'')
     else Inr candidate)"

text \<open>Every payload is ASCII text, so \<open>ensure_ascii\<close> and the encoding change nothing.\<close>

definition digest :: "services \<Rightarrow> pydict \<Rightarrow> string answer" where
  "digest sv payload = (case canonical_json payload of Inl e \<Rightarrow> Inl (PythonError e) | Inr t \<Rightarrow> Inr (sv_sha sv t))"

section \<open>Reading reviews\<close>

record review_decision =
  rd_id :: string
  rd_decision :: string
  rd_reason :: string
  rd_actor :: string
  rd_name :: "string option"
  rd_at :: string

record review =
  rv_id :: string
  rv_left :: string
  rv_right :: string
  rv_rule :: string
  rv_signals :: "string list"
  rv_window :: int
  rv_distance :: int
  rv_proposer :: string
  rv_proposer_name :: string
  rv_at :: string
  rv_left_dataset :: string
  rv_right_dataset :: string
  rv_conflict :: bool
  rv_status :: string
  rv_decision :: "review_decision option"
  rv_effect :: string
  rv_proves :: bool

text \<open>The joins of \<open>REVIEW_SELECT\<close>: proposer and movements must be there, decision and decider may be missing.\<close>

type_synonym review_row = "match_candidate \<times> string \<times> match_decision option \<times> string option \<times> movement_row \<times> movement_row \<times> bool"

definition confirmation_conflict :: "review_ledger \<Rightarrow> match_candidate \<Rightarrow> bool" where
  "confirmation_conflict led c = list_ex (\<lambda>m. mm_candidate m \<noteq> mc_id c \<and> mm_movement m \<in> {mc_left c, mc_right c}) (lg_members led)"

definition movement_by_id :: "catalog \<Rightarrow> string \<Rightarrow> movement_row option" where
  "movement_by_id cat i = find (\<lambda>m. m_id m = i) (ct_movements cat)"

definition decision_for :: "review_ledger \<Rightarrow> string \<Rightarrow> match_decision option" where
  "decision_for led i = find (\<lambda>d. md_candidate d = i) (lg_decisions led)"

definition review_row_of :: "catalog \<Rightarrow> review_ledger \<Rightarrow> match_candidate \<Rightarrow> review_row list" where
  "review_row_of cat led c = (case (map_of (ct_subjects cat) (mc_proposer c), movement_by_id cat (mc_left c), movement_by_id cat (mc_right c)) of
     (Some name, Some lm, Some rm) \<Rightarrow>
       [(c, name, decision_for led (mc_id c),
         (case decision_for led (mc_id c) of None \<Rightarrow> None | Some d \<Rightarrow> map_of (ct_subjects cat) (md_actor d)),
         lm, rm, confirmation_conflict led c)]
   | _ \<Rightarrow> [])"

definition review_select :: "catalog \<Rightarrow> review_ledger \<Rightarrow> review_row list" where
  "review_select cat led = concat (map (review_row_of cat led) (lg_candidates led))"

definition review_from_row :: "services \<Rightarrow> review_row \<Rightarrow> review" where
  "review_from_row sv row = (case row of (c, name, d, decider, lm, rm, conflict) \<Rightarrow>
     let decision = map_option (\<lambda>x. \<lparr>rd_id = md_id x, rd_decision = md_decision x, rd_reason = md_reason x,
           rd_actor = md_actor x, rd_name = decider, rd_at = sv_iso sv (md_at x)\<rparr>) d in
     \<lparr>rv_id = mc_id c, rv_left = mc_left c, rv_right = mc_right c, rv_rule = mc_rule c, rv_signals = mc_signals c,
      rv_window = mc_window c, rv_distance = mc_distance c, rv_proposer = mc_proposer c, rv_proposer_name = name,
      rv_at = sv_iso sv (mc_at c), rv_left_dataset = m_dataset lm, rv_right_dataset = m_dataset rm,
      rv_conflict = conflict, rv_status = (case decision of None \<Rightarrow> ''open'' | Some x \<Rightarrow> rd_decision x),
      rv_decision = decision, rv_effect = ''none'', rv_proves = False\<rparr>)"

definition row_candidate :: "review_row \<Rightarrow> match_candidate" where
  "row_candidate row = fst row"

definition row_decision :: "review_row \<Rightarrow> match_decision option" where
  "row_decision row = fst (snd (snd row))"

definition row_datasets :: "review_row \<Rightarrow> string \<times> string" where
  "row_datasets row = (case row of (c, name, d, decider, lm, rm, conflict) \<Rightarrow> (m_dataset lm, m_dataset rm))"

definition load_review :: "services \<Rightarrow> catalog \<Rightarrow> review_ledger \<Rightarrow> string \<Rightarrow> review option" where
  "load_review sv cat led i =
     map_option (review_from_row sv) (find (\<lambda>row. mc_id (row_candidate row) = i) (review_select cat led))"

definition review_unavailable :: rec_error where
  "review_unavailable = ReviewCommandError ''candidate-scope-unavailable'' ''the candidate is unavailable''"

definition list_reviews :: "services \<Rightarrow> catalog \<Rightarrow> review_ledger \<Rightarrow> string \<Rightarrow> string \<Rightarrow> int \<Rightarrow> review list answer" where
  "list_reviews sv cat led left_dataset_id right_dataset_id limit =
     rbind (uuid_field left_dataset_id ''left_dataset_id'') (\<lambda>left.
     rbind (uuid_field right_dataset_id ''right_dataset_id'') (\<lambda>right.
       let bounded = max 1 (min limit 200);
           rows = filter (\<lambda>row. row_datasets row \<in> {(left, right), (right, left)}) (review_select cat led) in
       Inr (map (review_from_row sv) (take (nat bounded)
         (sort_key (\<lambda>row. (- int (mc_at (row_candidate row)), mc_id (row_candidate row))) rows)))))"

definition get_review :: "services \<Rightarrow> catalog \<Rightarrow> review_ledger \<Rightarrow> string \<Rightarrow> review answer" where
  "get_review sv cat led candidate_id = rbind (uuid_field candidate_id ''candidate_id'') (\<lambda>candidate.
     case load_review sv cat led candidate of None \<Rightarrow> Inl review_unavailable | Some r \<Rightarrow> Inr r)"

record review_queue_query =
  qq_status :: string
  qq_offset :: int
  qq_limit :: int

definition validated_queue :: "review_queue_query \<Rightarrow> review_queue_query answer" where
  "validated_queue q =
     (if qq_status q \<notin> set REVIEW_QUEUE_STATUSES
      then Inl (ReviewCommandError ''review-filter-invalid'' ''status must be open, confirmed, rejected or all'')
      else if \<not> (0 \<le> qq_offset q \<and> qq_offset q \<le> MAX_REVIEW_QUEUE_OFFSET)
      then Inl (ReviewCommandError ''review-filter-invalid'' ''offset must be between 0 and 10000'')
      else if \<not> (1 \<le> qq_limit q \<and> qq_limit q \<le> MAX_REVIEW_QUEUE_LIMIT)
      then Inl (ReviewCommandError ''review-filter-invalid'' ''limit must be between 1 and 100'')
      else Inr q)"

record review_queue =
  rq_status :: string
  rq_offset :: int
  rq_limit :: int
  rq_truncated :: bool
  rq_items :: "review list"
  rq_effect :: string
  rq_proves :: bool

definition queue_accepts :: "string \<Rightarrow> review_row \<Rightarrow> bool" where
  "queue_accepts status row =
     (if status = ''open'' then row_decision row = None
      else if status \<in> {''confirmed'', ''rejected''}
      then (case row_decision row of None \<Rightarrow> False | Some d \<Rightarrow> md_decision d = status)
      else True)"

definition queue_key :: "review_row \<Rightarrow> bool \<times> nat \<times> string" where
  "queue_key row = (row_decision row \<noteq> None, mc_at (row_candidate row), mc_id (row_candidate row))"

definition list_review_queue :: "services \<Rightarrow> catalog \<Rightarrow> review_ledger \<Rightarrow> review_queue_query \<Rightarrow> review_queue answer" where
  "list_review_queue sv cat led query = rbind (validated_queue query) (\<lambda>q.
     let rows = page (qq_offset q) (qq_limit q + 1)
           (sort_key queue_key (filter (queue_accepts (qq_status q)) (review_select cat led))) in
     Inr \<lparr>rq_status = qq_status q, rq_offset = qq_offset q, rq_limit = qq_limit q,
       rq_truncated = (int (length rows) > qq_limit q),
       rq_items = map (review_from_row sv) (take (nat (qq_limit q)) rows), rq_effect = ''none'', rq_proves = False\<rparr>)"

section \<open>Insertions\<close>

definition unique_violation :: "string \<Rightarrow> rec_error" where
  "unique_violation name = DatabaseError ''23505'' name"

definition check_violation :: "string \<Rightarrow> rec_error" where
  "check_violation name = DatabaseError ''23514'' name"

definition missing_reference :: "string \<Rightarrow> rec_error" where
  "missing_reference name = DatabaseError ''23503'' name"

text \<open>
  \<open>repository.record_audit\<close>: the detail, a flat dictionary, is written with the default separators and bounded in its
  UTF-8 bytes; the event is appended under a fresh identifier.
\<close>

definition MAX_AUDIT_DETAIL_BYTES :: nat where "MAX_AUDIT_DETAIL_BYTES = 4096"

definition audit_payload :: "pydict \<Rightarrow> string answer" where
  "audit_payload detail = (case map_result dump_item (sort_key fst detail) of
       Inl e \<Rightarrow> Inl (PythonError e)
     | Inr items \<Rightarrow> Inr (''{'' @ py_join '', '' (map (\<lambda>(k, t). json_string k @ '': '' @ t) items) @ ''}''))"

definition utf8_size :: "string \<Rightarrow> nat" where
  "utf8_size s = sum_list (map (\<lambda>c. if code c < 128 then 1 else 2) s)"

definition record_audit :: "review_ledger \<Rightarrow> audit_event \<Rightarrow> review_ledger answer" where
  "record_audit led e = rbind (audit_payload (au_detail e)) (\<lambda>payload.
     if utf8_size payload > MAX_AUDIT_DETAIL_BYTES
     then Inl (PythonError (ValueError ''audit detail carries metadata, not payload''))
     else if au_id e \<in> au_id ` set (lg_audits led) then Inl (unique_violation ''audit_event_pkey'')
     else Inr (led\<lparr>lg_audits := lg_audits led @ [e]\<rparr>))"

definition candidate_checks :: "match_candidate \<Rightarrow> bool" where
  "candidate_checks c = (mc_left c < mc_right c \<and> 0 \<le> mc_window c \<and> mc_window c \<le> 31 \<and> 0 \<le> mc_distance c \<and> mc_distance c \<le> 31
     \<and> length (mc_signals c) \<in> {5, 6} \<and> set (mc_signals c) \<subseteq> set (RULES @ [''same_normalised_reference''])
     \<and> length (mc_releases c) \<in> {1, 2} \<and> length (mc_schemas c) \<in> {1, 2})"

definition pair_of :: "match_candidate \<Rightarrow> string \<times> string \<times> string" where
  "pair_of c = (mc_rule c, mc_left c, mc_right c)"

definition insert_candidate :: "catalog \<Rightarrow> review_ledger \<Rightarrow> match_candidate \<Rightarrow> review_ledger answer" where
  "insert_candidate cat led c =
     (if \<not> candidate_checks c then Inl (check_violation ''match_candidate'')
      else if mc_id c \<in> mc_id ` set (lg_candidates led) then Inl (unique_violation ''match_candidate_pkey'')
      else if pair_of c \<in> pair_of ` set (lg_candidates led) then Inl (unique_violation ''uq_match_candidate_pair'')
      else if mc_proposer c \<notin> fst ` set (ct_subjects cat) then Inl (missing_reference ''match_candidate_proposed_by_fkey'')
      else if movement_by_id cat (mc_left c) = None then Inl (missing_reference ''fk_match_left_movement'')
      else if movement_by_id cat (mc_right c) = None then Inl (missing_reference ''fk_match_right_movement'')
      else Inr (led\<lparr>lg_candidates := lg_candidates led @ [c]\<rparr>))"

definition digest_shape :: "string \<Rightarrow> bool" where
  "digest_shape h = (length h = 64 \<and> list_all hex_lower h)"

text \<open>The trigger \<open>match_receipt_result\<close> and the constraints of \<open>match_command_receipt\<close>.\<close>

definition insert_receipt :: "review_ledger \<Rightarrow> match_receipt \<Rightarrow> review_ledger answer" where
  "insert_receipt led r =
     (if mr_kind r = ''candidate'' \<and> mr_ref r \<notin> mc_id ` set (lg_candidates led) then Inl (missing_reference '''')
      else if mr_kind r \<noteq> ''candidate'' \<and> mr_ref r \<notin> md_id ` set (lg_decisions led) then Inl (missing_reference '''')
      else if mr_kind r \<noteq> ''candidate'' \<and> list_ex (\<lambda>d. md_id d = mr_ref r
             \<and> (mr_action r = ''confirm'' \<and> md_decision d \<noteq> ''confirmed'' \<or> mr_action r = ''reject'' \<and> md_decision d \<noteq> ''rejected''))
             (lg_decisions led) then Inl (check_violation '''')
      else if \<not> rx_match IDEMPOTENCY_KEY (mr_key r) then Inl (check_violation ''match_command_receipt_idempotency_key_check'')
      else if \<not> digest_shape (mr_digest r) then Inl (check_violation ''match_command_receipt_request_digest_check'')
      else if \<not> ((mr_action r = ''propose'' \<and> mr_kind r = ''candidate'')
                \<or> (mr_action r \<in> {''confirm'', ''reject''} \<and> mr_kind r = ''decision''))
      then Inl (check_violation ''ck_match_receipt_action_result'')
      else if (mr_actor r, mr_key r) \<in> (\<lambda>x. (mr_actor x, mr_key x)) ` set (lg_receipts led)
      then Inl (unique_violation ''uq_match_receipt_key'')
      else Inr (led\<lparr>lg_receipts := lg_receipts led @ [r]\<rparr>))"

text \<open>The trigger \<open>match_decision_reserve_members\<close>: a confirmed decision takes both movements, each once.\<close>

definition insert_member :: "review_ledger \<Rightarrow> match_member \<Rightarrow> review_ledger answer" where
  "insert_member led m =
     (if mm_movement m \<in> mm_movement ` set (lg_members led) then Inl (unique_violation ''pk_match_confirmation_member'')
      else Inr (led\<lparr>lg_members := lg_members led @ [m]\<rparr>))"

definition reserve_members :: "review_ledger \<Rightarrow> match_candidate \<Rightarrow> match_decision \<Rightarrow> review_ledger answer" where
  "reserve_members led c d =
     (if md_decision d \<noteq> ''confirmed'' then Inr led
      else rbind (insert_member led \<lparr>mm_movement = mc_left c, mm_candidate = mc_id c, mm_decision = md_id d, mm_side = ''left''\<rparr>)
        (\<lambda>led. insert_member led \<lparr>mm_movement = mc_right c, mm_candidate = mc_id c, mm_decision = md_id d, mm_side = ''right''\<rparr>))"

text \<open>The triggers \<open>match_decision_period_open_guard\<close> and \<open>match_decision_sod\<close>, the constraints, then the reservation.\<close>

definition period_open :: "catalog \<Rightarrow> match_candidate \<Rightarrow> bool" where
  "period_open cat c = (case (movement_by_id cat (mc_left c), movement_by_id cat (mc_right c)) of
     (Some l, Some r) \<Rightarrow> \<not> ct_closed cat (min (m_occurred l) (m_occurred r)) (max (m_occurred l) (m_occurred r))
   | _ \<Rightarrow> False)"

definition pair_evidence :: "string \<Rightarrow> string \<Rightarrow> (string \<times> string) list" where
  "pair_evidence l r = [(''movement'', l), (''movement'', r)]"

definition candidate_by_id :: "review_ledger \<Rightarrow> string \<Rightarrow> match_candidate option" where
  "candidate_by_id led i = find (\<lambda>c. mc_id c = i) (lg_candidates led)"

definition insert_decision :: "catalog \<Rightarrow> review_ledger \<Rightarrow> match_decision \<Rightarrow> review_ledger answer" where
  "insert_decision cat led d = (case candidate_by_id led (md_candidate d) of
       None \<Rightarrow> Inl (DatabaseError ''55000'' ''ck_financial_write_period_open'')
     | Some c \<Rightarrow>
       if \<not> period_open cat c then Inl (DatabaseError ''55000'' ''ck_financial_write_period_open'')
       else if md_decision d = ''confirmed'' \<and> md_actor d = mc_proposer c then Inl (DatabaseError ''42501'' '''')
       else if md_evidence d \<noteq> pair_evidence (mc_left c) (mc_right c) then Inl (check_violation '''')
       else if md_decision d \<notin> {''confirmed'', ''rejected''} then Inl (check_violation ''match_decision_decision_check'')
       else if md_reason d \<notin> set (concat (map snd DECISION_REASONS)) then Inl (check_violation ''match_decision_reason_code_check'')
       else if md_id d \<in> md_id ` set (lg_decisions led) then Inl (unique_violation ''match_decision_pkey'')
       else if md_candidate d \<in> md_candidate ` set (lg_decisions led) then Inl (unique_violation ''uq_match_decision_terminal'')
       else rbind (reserve_members (led\<lparr>lg_decisions := lg_decisions led @ [d]\<rparr>) c d) (\<lambda>led.
         if md_actor d \<notin> fst ` set (ct_subjects cat) then Inl (missing_reference ''match_decision_decided_by_fkey'') else Inr led))"

section \<open>Commands\<close>

text \<open>What the database and \<open>uuid4\<close> add to a command: identifiers and the time of the transaction.\<close>

record fresh =
  fr_id :: string
  fr_audit :: string
  fr_now :: nat

record reply =
  rp_review :: review
  rp_replayed :: bool
  rp_created :: bool

definition receipt_of :: "review_ledger \<Rightarrow> string \<Rightarrow> string \<Rightarrow> match_receipt option" where
  "receipt_of led actor key = find (\<lambda>r. mr_actor r = actor \<and> mr_key r = key) (lg_receipts led)"

definition load_receipt_result :: "services \<Rightarrow> catalog \<Rightarrow> review_ledger \<Rightarrow> string \<Rightarrow> string \<Rightarrow> review answer" where
  "load_receipt_result sv cat led kind ref = rbind
     (if kind = ''decision''
      then (case find (\<lambda>d. md_id d = ref) (lg_decisions led) of
              None \<Rightarrow> Inl (RuntimeError ''idempotency receipt points to a missing decision'')
            | Some d \<Rightarrow> Inr (md_candidate d))
      else Inr ref)
     (\<lambda>candidate_id. case load_review sv cat led candidate_id of
        None \<Rightarrow> Inl (RuntimeError ''idempotency receipt points to a missing candidate'')
      | Some r \<Rightarrow> Inr r)"

definition replay_or_conflict :: "services \<Rightarrow> catalog \<Rightarrow> review_ledger \<Rightarrow> string \<Rightarrow> string \<Rightarrow> match_receipt option \<Rightarrow> reply option answer" where
  "replay_or_conflict sv cat led act dig receipt = (case receipt of
       None \<Rightarrow> Inr None
     | Some r \<Rightarrow>
         if mr_action r \<noteq> act \<or> mr_digest r \<noteq> dig
         then Inl (ReviewCommandError ''idempotency-conflict'' ''the idempotency key was already used for another command'')
         else rbind (load_receipt_result sv cat led (mr_kind r) (mr_ref r))
           (\<lambda>v. Inr (Some \<lparr>rp_review = v, rp_replayed = True, rp_created = False\<rparr>)))"

record eligible_pair =
  ep_left :: string
  ep_right :: string
  ep_signals :: "string list"
  ep_window :: int
  ep_distance :: int
  ep_releases :: "string list"
  ep_schemas :: "string list"

definition review_query :: "string \<Rightarrow> string \<Rightarrow> int \<Rightarrow> candidate_query" where
  "review_query left right days = \<lparr>cq_left = left, cq_right = right, cq_max_days = days, cq_offset = 0,
     cq_limit = DEFAULT_CANDIDATE_LIMIT, cq_mode = ''all''\<rparr>"

definition candidate_for_review ::
    "services \<Rightarrow> catalog \<Rightarrow> string \<Rightarrow> string \<Rightarrow> string \<Rightarrow> string \<Rightarrow> int \<Rightarrow> eligible_pair answer" where
  "candidate_for_review sv cat left_ds right_ds left_mv right_mv days =
     rbind (validated (review_query left_ds right_ds days)) (\<lambda>q. rbind (load_eligible_pair sv cat q) (\<lambda>_.
       case find (\<lambda>(l, r). m_id r = right_mv \<and> m_id l = left_mv \<and> m_dataset l = left_ds \<and> m_dataset r = right_ds
              \<and> exact_pair (cq_max_days q) l r \<and> live_movement l \<and> live_movement r)
            (List.product (ct_movements cat) (ct_movements cat)) of
         None \<Rightarrow> Inl (ReviewCommandError ''candidate-scope-unavailable'' ''the requested pair is unavailable for review'')
       | Some (l, r) \<Rightarrow> Inr \<lparr>ep_left = min (m_id l) (m_id r), ep_right = max (m_id l) (m_id r),
           ep_signals = signals_of (reference_match l r), ep_window = cq_max_days q, ep_distance = date_distance l r,
           ep_releases = sorted_set [m_release l, m_release r], ep_schemas = sorted_set [m_schema l, m_schema r]\<rparr>))"

definition audit_of :: "fresh \<Rightarrow> string \<Rightarrow> string \<Rightarrow> string \<Rightarrow> string \<Rightarrow> pydict \<Rightarrow> audit_event" where
  "audit_of fr actor act kind ref detail = \<lparr>au_id = fr_audit fr, au_subject = actor, au_action = act, au_kind = kind,
     au_resource = ref, au_outcome = ''allowed'', au_detail = detail\<rparr>"

definition read_back :: "services \<Rightarrow> catalog \<Rightarrow> string \<Rightarrow> string \<Rightarrow> review_ledger \<Rightarrow> (reply \<times> review_ledger) answer" where
  "read_back sv cat i message led = (case load_review sv cat led i of None \<Rightarrow> Inl (RuntimeError message)
     | Some v \<Rightarrow> Inr (\<lparr>rp_review = v, rp_replayed = False, rp_created = True\<rparr>, led))"

definition propose_payload :: "string \<Rightarrow> string \<Rightarrow> string \<Rightarrow> string \<Rightarrow> int \<Rightarrow> pydict" where
  "propose_payload left_ds right_ds left_mv right_mv days =
     [(''left_dataset_id'', PStr left_ds), (''right_dataset_id'', PStr right_ds), (''left_movement_id'', PStr left_mv),
      (''right_movement_id'', PStr right_mv), (''max_days'', PInt days), (''rule_version'', PStr REVIEW_RULE_VERSION)]"

definition candidate_row :: "fresh \<Rightarrow> string \<Rightarrow> eligible_pair \<Rightarrow> match_candidate" where
  "candidate_row fr actor p = \<lparr>mc_id = fr_id fr, mc_left = ep_left p, mc_right = ep_right p, mc_rule = REVIEW_RULE_VERSION,
     mc_signals = ep_signals p, mc_window = ep_window p, mc_distance = ep_distance p, mc_releases = ep_releases p,
     mc_schemas = ep_schemas p, mc_proposer = actor, mc_at = fr_now fr, mc_audit = fr_audit fr\<rparr>"

definition materialise ::
    "catalog \<Rightarrow> review_ledger \<Rightarrow> fresh \<Rightarrow> string \<Rightarrow> eligible_pair \<Rightarrow> (string \<times> bool \<times> review_ledger) answer" where
  "materialise cat led fr actor p =
     (case find (\<lambda>c. pair_of c = (REVIEW_RULE_VERSION, ep_left p, ep_right p)) (lg_candidates led) of
        Some c \<Rightarrow> Inr (mc_id c, False, led)
      | None \<Rightarrow>
          rbind (record_audit led (audit_of fr actor ''match.propose'' ''match_candidate'' (fr_id fr)
             [(''rule_version'', PStr REVIEW_RULE_VERSION)])) (\<lambda>led.
          rbind (insert_candidate cat led (candidate_row fr actor p)) (\<lambda>led. Inr (fr_id fr, True, led))))"

definition propose_new ::
    "services \<Rightarrow> catalog \<Rightarrow> review_ledger \<Rightarrow> fresh \<Rightarrow> string \<Rightarrow> string \<Rightarrow> string \<Rightarrow> eligible_pair \<Rightarrow> (reply \<times> review_ledger) answer" where
  "propose_new sv cat led fr actor key dig p =
     rbind (materialise cat led fr actor p) (\<lambda>(candidate_id, created, led).
     rbind (insert_receipt led \<lparr>mr_actor = actor, mr_action = ''propose'', mr_key = key, mr_digest = dig,
        mr_kind = ''candidate'', mr_ref = candidate_id\<rparr>) (\<lambda>led.
     rbind (read_back sv cat candidate_id ''created candidate cannot be read back'' led)
       (\<lambda>(r, led). Inr (r\<lparr>rp_created := created\<rparr>, led))))"

definition propose_review ::
    "services \<Rightarrow> catalog \<Rightarrow> review_ledger \<Rightarrow> fresh \<Rightarrow> string \<Rightarrow> string \<Rightarrow> string \<Rightarrow> string \<Rightarrow> string \<Rightarrow> string \<Rightarrow> int
     \<Rightarrow> (reply \<times> review_ledger) answer" where
  "propose_review sv cat led fr actor key left_ds right_ds left_mv right_mv days =
     rbind (idempotency_key key) (\<lambda>key.
     rbind (uuid_field left_ds ''left_dataset_id'') (\<lambda>ld. rbind (uuid_field right_ds ''right_dataset_id'') (\<lambda>rd.
     rbind (uuid_field left_mv ''left_movement_id'') (\<lambda>lm. rbind (uuid_field right_mv ''right_movement_id'') (\<lambda>rm.
     rbind (digest sv (propose_payload ld rd lm rm days)) (\<lambda>dig.
     rbind (replay_or_conflict sv cat led ''propose'' dig (receipt_of led actor key)) (\<lambda>replay.
       case replay of Some r \<Rightarrow> Inr (r, led)
       | None \<Rightarrow> rbind (candidate_for_review sv cat ld rd lm rm days) (propose_new sv cat led fr actor key dig))))))))"

definition decision_action :: "string \<Rightarrow> string" where
  "decision_action decision = (if decision = ''confirmed'' then ''confirm'' else ''reject'')"

definition decide_payload :: "string \<Rightarrow> string \<Rightarrow> string \<Rightarrow> pydict" where
  "decide_payload candidate_id decision reason_code =
     [(''candidate_id'', PStr candidate_id), (''decision'', PStr decision), (''reason_code'', PStr reason_code)]"

definition already_confirmed :: rec_error where
  "already_confirmed = ReviewCommandError ''movement-already-confirmed''
     ''one of the candidate movements already belongs to another confirmation''"

definition decision_guard :: "review \<Rightarrow> string \<Rightarrow> string \<Rightarrow> unit answer" where
  "decision_guard v actor decision =
     (if rv_decision v \<noteq> None
      then Inl (ReviewCommandError ''candidate-already-decided'' ''the candidate already has a terminal decision'')
      else if decision = ''confirmed'' \<and> rv_proposer v = actor
      then Inl (ReviewCommandError ''segregation-of-duties'' ''the proposer cannot confirm this candidate'')
      else if decision = ''confirmed'' \<and> rv_conflict v then Inl already_confirmed
      else Inr ())"

text \<open>The savepoint: an error undoes audit, decision and members; a lost race has its own error.\<close>

definition write_decision ::
    "catalog \<Rightarrow> review_ledger \<Rightarrow> fresh \<Rightarrow> string \<Rightarrow> string \<Rightarrow> string \<Rightarrow> review \<Rightarrow> string \<Rightarrow> string \<Rightarrow> review_ledger answer" where
  "write_decision cat led fr actor key dig v decision reason_code =
     (case
       rbind (record_audit led (audit_of fr actor (''match.'' @ decision_action decision) ''match_candidate'' (rv_id v)
          [(''decision'', PStr decision), (''reason_code'', PStr reason_code)])) (\<lambda>led.
       rbind (insert_decision cat led \<lparr>md_id = fr_id fr, md_candidate = rv_id v, md_decision = decision, md_reason = reason_code,
          md_evidence = pair_evidence (rv_left v) (rv_right v), md_actor = actor, md_at = fr_now fr, md_audit = fr_audit fr\<rparr>) (\<lambda>led.
       insert_receipt led \<lparr>mr_actor = actor, mr_action = decision_action decision, mr_key = key, mr_digest = dig,
          mr_kind = ''decision'', mr_ref = fr_id fr\<rparr>)) of
       Inl e \<Rightarrow> Inl (if e = unique_violation ''pk_match_confirmation_member'' then already_confirmed else e)
     | Inr led \<Rightarrow> Inr led)"

definition valid_reason :: "string \<Rightarrow> string \<Rightarrow> bool" where
  "valid_reason decision reason_code = (case map_of DECISION_REASONS decision of None \<Rightarrow> False | Some rs \<Rightarrow> reason_code \<in> set rs)"

definition decide_review ::
    "services \<Rightarrow> catalog \<Rightarrow> review_ledger \<Rightarrow> review_ledger \<Rightarrow> fresh \<Rightarrow> string \<Rightarrow> string \<Rightarrow> string \<Rightarrow> string \<Rightarrow> string
     \<Rightarrow> (reply \<times> review_ledger) answer" where
  "decide_review sv cat seen led fr actor key candidate_id decision reason_code =
     rbind (uuid_field candidate_id ''candidate_id'') (\<lambda>i.
     if \<not> valid_reason decision reason_code
     then Inl (ReviewCommandError ''review-decision-invalid'' ''decision and reason_code are incompatible'')
     else rbind (idempotency_key key) (\<lambda>key.
       rbind (digest sv (decide_payload i decision reason_code)) (\<lambda>dig.
       rbind (replay_or_conflict sv cat seen (decision_action decision) dig (receipt_of seen actor key)) (\<lambda>replay.
         case replay of Some r \<Rightarrow> Inr (r, led)
         | None \<Rightarrow> (case load_review sv cat seen i of None \<Rightarrow> Inl review_unavailable
             | Some v \<Rightarrow> rbind (decision_guard v actor decision) (\<lambda>_.
                 rbind (write_decision cat led fr actor key dig v decision reason_code)
                   (read_back sv cat i ''decided candidate cannot be read back'')))))))"

section \<open>The handlers\<close>

text \<open>\<open>_review_problem\<close> of \<open>routes.py\<close>: the HTTP status of an error of a command; what is not available is forbidden.\<close>

definition error_code :: "rec_error \<Rightarrow> string option" where
  "error_code e = (case e of CandidateQueryError c d \<Rightarrow> Some c | ReviewCommandError c d \<Rightarrow> Some c | _ \<Rightarrow> None)"

definition review_problem :: "string \<Rightarrow> nat" where
  "review_problem c = (if c = ''candidate-scope-unavailable'' then 403
     else if c \<in> {''idempotency-conflict'', ''candidate-already-decided'', ''segregation-of-duties'', ''movement-already-confirmed''}
     then 409 else 422)"

end
