(* ===== verification/CandidateLaws.thy ===== *)
theory CandidateLaws
  imports Reconciliation "HOL-Library.Multiset"
begin

text \<open>
  What the exploration of candidates guarantees: which pairs are listed and in what order, page by page, and
  which of them can be proposed for review. A small company serves as example, here and in \<open>ReviewLedger\<close>.
\<close>

section \<open>The first row that fits\<close>

lemma find_SomeD: "find P xs = Some x \<Longrightarrow> x \<in> set xs \<and> P x"
  by (induction xs) (auto split: if_splits)

lemma find_unique_iff:
  assumes "\<And>y z. y \<in> set xs \<Longrightarrow> z \<in> set xs \<Longrightarrow> P y \<Longrightarrow> P z \<Longrightarrow> y = z"
  shows "find P xs = Some x \<longleftrightarrow> x \<in> set xs \<and> P x"
proof
  assume x: "x \<in> set xs \<and> P x"
  then have "find P xs \<noteq> None" by (auto simp: find_None_iff)
  then obtain y where y: "find P xs = Some y" by auto
  with find_SomeD [OF y] assms x show "find P xs = Some x" by blast
qed (rule find_SomeD)

section \<open>Pages\<close>

lemma page_peek:
  assumes "0 \<le> limit"
  shows "take (nat limit) (page offset (limit + 1) xs) = page offset limit xs"
    "0 \<le> offset \<Longrightarrow> (limit < int (length (page offset (limit + 1) xs))) = (offset + limit < int (length xs))"
  using assms by (auto simp: page_def min_def nat_add_distrib)

lemma pages_concat:
  assumes "0 \<le> limit"
  shows "concat (map (\<lambda>k. page (int k * limit) limit xs) [0..<n]) = take (n * nat limit) xs"
proof (induction n)
  case (Suc n)
  have "nat (int n * limit) = n * nat limit" using assms by (simp add: nat_mult_distrib)
  then have "page (int n * limit) limit xs = take (nat limit) (drop (n * nat limit) xs)" by (simp add: page_def)
  then show ?case using Suc by (simp add: take_add [symmetric] add.commute)
qed simp

section \<open>Exploration\<close>

lemma nested_filter:
  "concat (map (\<lambda>l. if P l then concat (map (\<lambda>r. if Q l r then [(l, r)] else []) ys) else []) xs)
   = filter (\<lambda>(l, r). P l \<and> Q l r) (List.product xs ys)"
proof -
  have inner: "concat (map (\<lambda>r. if Q l r then [(l, r)] else []) ys) = filter (\<lambda>(l, r). Q l r) (map (Pair l) ys)" for l
    by (induction ys) auto
  have "filter (\<lambda>(l, r). P l \<and> Q l r) (map (Pair l) ys)
      = (if P l then filter (\<lambda>(l, r). Q l r) (map (Pair l) ys) else [])" for l
    by (induction ys) auto
  then show ?thesis unfolding inner by (induction xs) auto
qed

definition listed_pair :: "candidate_query \<Rightarrow> movement_row \<Rightarrow> movement_row \<Rightarrow> bool" where
  "listed_pair q l r = (m_dataset l = cq_left q \<and> m_dataset r = cq_right q \<and> live_movement l \<and> live_movement r
     \<and> exact_pair (cq_max_days q) l r \<and> mode_accepts (cq_mode q) (reference_match l r))"

lemma candidate_pairs_filter:
  "candidate_pairs cat q = filter (\<lambda>(l, r). listed_pair q l r) (List.product (ct_movements cat) (ct_movements cat))"
  unfolding candidate_pairs_def nested_filter
  by (rule filter_cong) (auto simp: listed_pair_def)

lemma explore_elim:
  assumes "explore_candidates sv cat q = Inr e"
  obtains ld rd where "validated q = Inr q" "load_eligible_pair sv cat q = Inr (ld, rd)"
    "ex_candidates e = map candidate_from_row (page (cq_offset q) (cq_limit q) (sort_key pair_key (candidate_pairs cat q)))"
    "ex_truncated e = (cq_offset q + cq_limit q < int (length (candidate_pairs cat q)))"
    "0 \<le> cq_offset q" "1 \<le> cq_limit q" "ex_left e = ld" "ex_right e = rd"
proof -
  from assms obtain q' where q': "validated q = Inr q'" by (auto simp: explore_candidates_def rbind_Inr_iff)
  then have q: "q' = q" "0 \<le> cq_offset q" "1 \<le> cq_limit q" by (auto simp: validated_def split: if_splits)
  note valid = q' [unfolded q(1)]
  obtain ld rd where pair: "load_eligible_pair sv cat q = Inr (ld, rd)"
    using assms by (auto simp: explore_candidates_def valid rbind_Inr_iff)
  have nonneg: "0 \<le> cq_limit q" using q(3) by simp
  note peek = page_peek(1) [OF nonneg] page_peek(2) [OF nonneg q(2)]
  show ?thesis
    using assms by (intro that [OF valid pair _ _ q(2,3)]) (auto simp: explore_candidates_def valid pair Let_def peek)
qed

text \<open>
  The order that the task FNC-REC-001 asks for (AC-06): pairs with the same reference first, then by distance, ordinals
  and identifiers. The order of the query, \<open>pair_key\<close>, is another one where the match is null, see
  \<open>pairs_without_reference_come_first\<close>.
\<close>

definition documented_key :: "movement_row \<times> movement_row \<Rightarrow> bool \<times> int \<times> nat \<times> nat \<times> string \<times> string" where
  "documented_key p = (case p of (l, r) \<Rightarrow>
     (reference_match l r \<noteq> Some True, date_distance l r, m_ordinal l, m_ordinal r, m_id l, m_id r))"

text \<open>A match is null when only the left movement has a reference.\<close>

definition comparable_references :: "movement_row \<times> movement_row \<Rightarrow> bool" where
  "comparable_references p = (case p of (l, r) \<Rightarrow> m_normalised l = None \<or> m_normalised r \<noteq> None)"

lemma documented_key_mono:
  assumes "pair_key a \<le> pair_key b" "comparable_references a = comparable_references b"
  shows "documented_key a \<le> documented_key b"
proof -
  obtain l r where a: "a = (l, r)" by (cases a)
  obtain l' r' where b: "b = (l', r')" by (cases b)
  have null: "comparable_references (x, y) \<longleftrightarrow> reference_match x y \<noteq> None" for x y
    by (auto simp: comparable_references_def reference_match_def split: option.splits)
  then have "(reference_match l r = None) = (reference_match l' r' = None)" using assms(2) unfolding a b null by blast
  then show ?thesis
    using assms(1)
    by (cases "reference_match l r"; cases "reference_match l' r'")
      (auto simp: a b pair_key_def documented_key_def match_rank_def less_eq_prod_def split: bool.splits if_splits)
qed

lemma documented_among:
  assumes "sorted (map pair_key rows)" "\<And>a b. P a \<Longrightarrow> P b \<Longrightarrow> comparable_references a = comparable_references b"
  shows "sorted (map documented_key (filter P rows))"
proof -
  have "sorted_wrt (\<lambda>a b. pair_key a \<le> pair_key b) (filter P rows)"
    using sorted_filter [OF assms(1), of P] by (simp add: sorted_map)
  moreover have "documented_key a \<le> documented_key b" if "a \<in> set (filter P rows)" "b \<in> set (filter P rows)" "pair_key a \<le> pair_key b" for a b
    using documented_key_mono [OF that(3)] assms(2) that(1,2) by simp
  ultimately have "sorted_wrt (\<lambda>a b. documented_key a \<le> documented_key b) (filter P rows)"
    by (metis (no_types, lifting) sorted_wrt_mono_rel)
  then show ?thesis by (simp add: sorted_map)
qed

text \<open>C18. The pages of an exploration, one after the other, list the eligible pairs of the two datasets, each
  once, and a page says that there is more exactly when there is. The pairs whose references can be compared are in the documented
  order among themselves, and so are the others.\<close>

theorem pages_list_exactly_the_eligible_pairs:
  assumes "\<And>k. k < n \<Longrightarrow> explore_candidates sv cat (q\<lparr>cq_offset := int k * cq_limit q\<rparr>) = Inr (e k)" and "0 < n"
  shows "\<exists>rows. mset rows = mset (filter (\<lambda>(l, r). listed_pair q l r) (List.product (ct_movements cat) (ct_movements cat)))
    \<and> sorted (map documented_key (filter comparable_references rows))
    \<and> sorted (map documented_key (filter (\<lambda>p. \<not> comparable_references p) rows))
    \<and> concat (map (\<lambda>k. ex_candidates (e k)) [0..<n]) = map candidate_from_row (take (n * nat (cq_limit q)) rows)
    \<and> ex_truncated (e (n - 1)) = (n * nat (cq_limit q) < length rows)"
proof -
  let ?rows = "sort_key pair_key (candidate_pairs cat q)"
  have same: "candidate_pairs cat (q\<lparr>cq_offset := i\<rparr>) = candidate_pairs cat q" for i
    by (simp add: candidate_pairs_filter listed_pair_def)
  have one: "ex_candidates (e k) = map candidate_from_row (page (int k * cq_limit q) (cq_limit q) ?rows)"
    "ex_truncated (e k) = (int k * cq_limit q + cq_limit q < int (length ?rows))" "1 \<le> cq_limit q" if "k < n" for k
    using explore_elim [OF assms(1) [OF that]] by (auto simp: same)
  have lim: "1 \<le> cq_limit q" using one(3) assms(2) by blast
  have "map (\<lambda>k. ex_candidates (e k)) [0..<n]
      = map (map candidate_from_row) (map (\<lambda>k. page (int k * cq_limit q) (cq_limit q) ?rows) [0..<n])"
    unfolding map_map comp_def by (rule map_cong [OF refl]) (use one(1) in auto)
  then have "concat (map (\<lambda>k. ex_candidates (e k)) [0..<n])
      = map candidate_from_row (concat (map (\<lambda>k. page (int k * cq_limit q) (cq_limit q) ?rows) [0..<n]))"
    by (simp only: map_concat)
  also have "\<dots> = map candidate_from_row (take (n * nat (cq_limit q)) ?rows)"
    using pages_concat [of "cq_limit q" ?rows n] lim by simp
  finally have "concat (map (\<lambda>k. ex_candidates (e k)) [0..<n]) = map candidate_from_row (take (n * nat (cq_limit q)) ?rows)" .
  moreover have "ex_truncated (e (n - 1)) = (n * nat (cq_limit q) < length ?rows)"
  proof -
    have "int (n - 1) * cq_limit q + cq_limit q = int (n * nat (cq_limit q))"
      using lim assms(2) by (simp add: of_nat_diff algebra_simps)
    moreover have "n - 1 < n" using assms(2) by simp
    ultimately show ?thesis unfolding one(2) [OF \<open>n - 1 < n\<close>] by (simp only: of_nat_less_iff)
  qed
  moreover have "mset ?rows = mset (filter (\<lambda>(l, r). listed_pair q l r) (List.product (ct_movements cat) (ct_movements cat)))"
    by (simp add: candidate_pairs_filter)
  moreover have "sorted (map pair_key ?rows)" by simp
  ultimately show ?thesis
    using documented_among [of ?rows comparable_references] documented_among [of ?rows "\<lambda>p. \<not> comparable_references p"]
    by (intro exI [of _ ?rows]) simp
qed

lemma date_distance_sym: "date_distance r l = date_distance l r"
  by (simp add: date_distance_def date_diff_def abs_minus_commute)

lemma exact_pair_sym: "exact_pair days r l = exact_pair days l r"
  unfolding exact_pair_def date_distance_sym [of r l] by auto

lemma reference_match_sym: "reference_match r l = Some True \<longleftrightarrow> reference_match l r = Some True"
  by (auto simp: reference_match_def split: option.splits)

lemma signals_of_sym: "signals_of (reference_match r l) = signals_of (reference_match l r)"
  using reference_match_sym [of r l] by (simp add: signals_of_def)

lemma validated_swap:
  "validated (review_query a b d) = Inr (review_query a b d) \<longleftrightarrow> validated (review_query b a d) = Inr (review_query b a d)"
  by (auto simp: validated_def review_query_def)

lemma load_eligible_pair_iff:
  "load_eligible_pair sv cat q = Inr (l, r) \<longleftrightarrow> (\<exists>a b. sv_cast sv (cq_left q) = Some a \<and> sv_cast sv (cq_right q) = Some b
     \<and> fst ` set (dataset_rows cat [a, b]) = {cq_left q, cq_right q}
     \<and> map_of (dataset_rows cat [a, b]) (cq_left q) = Some l \<and> map_of (dataset_rows cat [a, b]) (cq_right q) = Some r
     \<and> eligible_dataset l \<and> eligible_dataset r)"
  by (auto simp: load_eligible_pair_def Let_def split: option.splits)

lemma dataset_rows_swap: "dataset_rows cat [a, b] = dataset_rows cat [b, a]"
proof -
  have "set [a, b] = set [b, a]" by auto
  then show ?thesis unfolding dataset_rows_def by simp
qed

lemma load_eligible_pair_swap:
  assumes "load_eligible_pair sv cat (review_query a b d) = Inr (l, r)"
  shows "load_eligible_pair sv cat (review_query b a d) = Inr (r, l)"
  using assms dataset_rows_swap by (auto simp: load_eligible_pair_iff review_query_def)

definition reviewable :: "catalog \<Rightarrow> string \<Rightarrow> string \<Rightarrow> string \<Rightarrow> string \<Rightarrow> int \<Rightarrow> movement_row \<Rightarrow> movement_row \<Rightarrow> bool" where
  "reviewable cat left_ds right_ds left_mv right_mv days l r =
     (l \<in> set (ct_movements cat) \<and> r \<in> set (ct_movements cat) \<and> m_id l = left_mv \<and> m_id r = right_mv
      \<and> listed_pair (review_query left_ds right_ds days) l r)"

definition eligible_record :: "int \<Rightarrow> movement_row \<Rightarrow> movement_row \<Rightarrow> eligible_pair" where
  "eligible_record days l r = \<lparr>ep_left = min (m_id l) (m_id r), ep_right = max (m_id l) (m_id r),
     ep_signals = signals_of (reference_match l r), ep_window = days, ep_distance = date_distance l r,
     ep_releases = sorted_set [m_release l, m_release r], ep_schemas = sorted_set [m_schema l, m_schema r]\<rparr>"

lemma sorted_set_swap: "sorted_set [a, b] = sorted_set [b, a]"
  by (rule sorted_set_cong) auto

lemma eligible_record_swap: "eligible_record days r l = eligible_record days l r"
  unfolding eligible_record_def
    signals_of_sym [of r l] date_distance_sym [of r l] min.commute [of "m_id r"] max.commute [of "m_id r"]
    sorted_set_swap [of "m_release r"] sorted_set_swap [of "m_schema r"] by (rule refl)

lemma distinct_ids: "distinct (map m_id ms) \<Longrightarrow> l \<in> set ms \<Longrightarrow> l' \<in> set ms \<Longrightarrow> m_id l = m_id l' \<Longrightarrow> l = l'"
  by (meson distinct_map inj_onD)

lemma candidate_for_review_iff:
  assumes "distinct (map m_id (ct_movements cat))"
  shows "candidate_for_review sv cat a b x y d = Inr p \<longleftrightarrow> validated (review_query a b d) = Inr (review_query a b d)
    \<and> (\<exists>ld rd. load_eligible_pair sv cat (review_query a b d) = Inr (ld, rd))
    \<and> (\<exists>l r. reviewable cat a b x y d l r \<and> p = eligible_record d l r)"
proof -
  let ?P = "\<lambda>(l, r). m_id r = y \<and> m_id l = x \<and> m_dataset l = a \<and> m_dataset r = b
      \<and> exact_pair d l r \<and> live_movement l \<and> live_movement r"
  let ?all = "List.product (ct_movements cat) (ct_movements cat)"
  have v: "validated q = Inr q' \<Longrightarrow> q' = q" for q q' by (auto simp: validated_def split: if_splits)
  have P: "(l, r) \<in> set ?all \<and> ?P (l, r) \<longleftrightarrow> reviewable cat a b x y d l r" for l r
    by (auto simp: reviewable_def listed_pair_def review_query_def mode_accepts_def)
  have unique: "reviewable cat a b x y d l r \<Longrightarrow> reviewable cat a b x y d l' r' \<Longrightarrow> l' = l \<and> r' = r" for l r l' r'
    using distinct_ids [OF assms] by (auto simp: reviewable_def)
  have one: "p = q" if "p \<in> set ?all" "q \<in> set ?all" "?P p" "?P q" for p q
  proof -
    obtain l r l' r' where pq: "p = (l, r)" "q = (l', r')" by (cases p; cases q)
    have "reviewable cat a b x y d l r" "reviewable cat a b x y d l' r'"
      using that P [of l r] P [of l' r'] unfolding pq by (blast, blast)
    from unique [OF this] show ?thesis by (simp add: pq)
  qed
  have found: "find ?P ?all = Some (l, r) \<longleftrightarrow> reviewable cat a b x y d l r" for l r
    unfolding P [of l r, symmetric] by (rule find_unique_iff [of ?all ?P "(l, r)"]) (rule one)
  let ?Q = "review_query a b d"
  have days: "cq_max_days ?Q = d" by (simp add: review_query_def)
  have run: "candidate_for_review sv cat a b x y d = rbind (load_eligible_pair sv cat ?Q) (\<lambda>_. case find ?P ?all of
       None \<Rightarrow> Inl (ReviewCommandError ''candidate-scope-unavailable'' ''the requested pair is unavailable for review'')
     | Some (l, r) \<Rightarrow> Inr (eligible_record d l r))" if "validated ?Q = Inr ?Q"
    unfolding candidate_for_review_def that rbind_simps days eligible_record_def by (rule refl)
  show ?thesis
  proof (cases "validated ?Q")
    case (Inl e)
    then show ?thesis by (simp add: candidate_for_review_def)
  next
    case (Inr q)
    then have valid: "validated ?Q = Inr ?Q" using v by auto
    show ?thesis
    proof (cases "find ?P ?all")
      case None
      then have "\<not> reviewable cat a b x y d l r" for l r using found [of l r] by simp
      then show ?thesis unfolding run [OF valid] None by (auto simp: rbind_Inr_iff)
    next
      case (Some lr)
      obtain l r where lr: "lr = (l, r)" by (cases lr)
      have r: "reviewable cat a b x y d l' r' \<longleftrightarrow> l' = l \<and> r' = r" for l' r'
        using found [of l r] unique Some lr by blast
      show ?thesis unfolding run [OF valid] Some lr using valid by (auto simp: rbind_Inr_iff r)
    qed
  qed
qed

lemma review_query_explored:
  "(\<exists>e. explore_candidates sv cat (review_query a b d) = Inr e) \<longleftrightarrow>
     validated (review_query a b d) = Inr (review_query a b d)
     \<and> (\<exists>ld rd. load_eligible_pair sv cat (review_query a b d) = Inr (ld, rd))"
proof -
  have v: "validated q = Inr q' \<Longrightarrow> q' = q" for q q' by (auto simp: validated_def split: if_splits)
  show ?thesis by (auto simp: explore_candidates_def rbind_Inr_iff Let_def dest: v)
qed

text \<open>C19. A pair is accepted for review exactly when the exploration of the same datasets and window lists it, and
  the pair seen from the other side gives the same record.\<close>

theorem proposable_pairs_are_the_explored_ones:
  assumes "distinct (map m_id (ct_movements cat))"
  shows "is_ok (candidate_for_review sv cat a b x y d) = (\<exists>e l r. explore_candidates sv cat (review_query a b d) = Inr e
      \<and> (l, r) \<in> set (candidate_pairs cat (review_query a b d)) \<and> m_id l = x \<and> m_id r = y)
    \<and> (candidate_for_review sv cat b a y x d = Inr p) = (candidate_for_review sv cat a b x y d = Inr p)"
proof
  have pairs: "(l, r) \<in> set (candidate_pairs cat (review_query a b d)) \<and> m_id l = x \<and> m_id r = y \<longleftrightarrow> reviewable cat a b x y d l r" for l r
    by (auto simp: candidate_pairs_filter reviewable_def)
  show "is_ok (candidate_for_review sv cat a b x y d) = (\<exists>e l r. explore_candidates sv cat (review_query a b d) = Inr e
      \<and> (l, r) \<in> set (candidate_pairs cat (review_query a b d)) \<and> m_id l = x \<and> m_id r = y)"
    unfolding is_ok_iff candidate_for_review_iff [OF assms] pairs
    using review_query_explored [of sv cat a b d] by blast
next
  have half: "candidate_for_review sv cat b a y x d = Inr p"
    if ok: "candidate_for_review sv cat a b x y d = Inr p" for a b x y
  proof -
    have r: "reviewable cat b a y x d r l \<longleftrightarrow> reviewable cat a b x y d l r" for l r
      using exact_pair_sym [of d r l] by (auto simp: reviewable_def listed_pair_def review_query_def mode_accepts_def)
    obtain ld rd l r' where "validated (review_query a b d) = Inr (review_query a b d)"
      "load_eligible_pair sv cat (review_query a b d) = Inr (ld, rd)" "reviewable cat a b x y d l r'" "p = eligible_record d l r'"
      using ok unfolding candidate_for_review_iff [OF assms] by blast
    then show ?thesis
      unfolding candidate_for_review_iff [OF assms] validated_swap [of b a]
      using load_eligible_pair_swap r eligible_record_swap by metis
  qed
  show "(candidate_for_review sv cat b a y x d = Inr p) = (candidate_for_review sv cat a b x y d = Inr p)"
    using half by blast
qed

lemma sorted_prefix:
  assumes "\<And>a b. P b \<Longrightarrow> f a \<le> f b \<Longrightarrow> P a"
  shows "sorted (map f xs) \<Longrightarrow> \<forall>x \<in> set (take (length (filter P xs)) xs). P x"
proof (induction xs)
  case (Cons x xs)
  have le: "\<forall>y \<in> set xs. f x \<le> f y" and "sorted (map f xs)" using Cons.prems by simp_all
  note IH = Cons.IH [OF \<open>sorted (map f xs)\<close>]
  show ?case
  proof (cases "P x")
    case False
    have "\<not> P y" if "y \<in> set xs" for y
      using assms [of y x] False le that by blast
    then have "filter P xs = []" unfolding filter_empty_conv by blast
    then show ?thesis using False by simp
  next
    case True
    show ?thesis
    proof
      fix y assume "y \<in> set (take (length (filter P (x # xs))) (x # xs))"
      then have "y = x \<or> y \<in> set (take (length (filter P xs)) xs)" using True by simp
      then show "P y" using True IH by blast
    qed
  qed
qed simp

text \<open>The pairs whose left movement has a reference and whose right one has none head the list: their match is
  null, and a descending order puts nulls first. They come before every pair with the same reference.\<close>

theorem pairs_without_reference_come_first:
  assumes "explore_candidates sv cat q = Inr e" and "cq_offset q = 0"
  shows "\<forall>c \<in> set (take (length (filter (\<lambda>(l, r). reference_match l r = None) (candidate_pairs cat q))) (ex_candidates e)).
    ''same_normalised_reference'' \<notin> set (cv_signals c)"
proof -
  let ?P = "\<lambda>(l, r). reference_match l r = None" and ?rows = "sort_key pair_key (candidate_pairs cat q)"
  have rank: "?P a \<longleftrightarrow> fst (pair_key a) = 0" for a
    by (cases a) (auto simp: pair_key_def match_rank_def split: option.splits bool.splits)
  have down: "?P a" if "?P b" "pair_key a \<le> pair_key b" for a b
  proof -
    have "fst (pair_key a) \<le> fst (pair_key b)" using that(2) unfolding less_eq_prod_def by auto
    then show ?thesis using that(1) unfolding rank by simp
  qed
  have "length (filter ?P ?rows) = length (filter ?P (candidate_pairs cat q))"
    by (rule mset_eq_length) (simp only: mset_filter mset_sort)
  moreover have "\<forall>p \<in> set (take (length (filter ?P ?rows)) ?rows). ?P p"
    by (rule sorted_prefix [where f = pair_key]) (rule down, assumption+, rule sorted_sort_key)
  ultimately have first: "\<forall>p \<in> set (take (length (filter ?P (candidate_pairs cat q))) ?rows). ?P p"
    by (simp only:)
  have e: "ex_candidates e = map candidate_from_row (take (nat (cq_limit q)) ?rows)"
    using explore_elim [OF assms(1)] assms(2) by (metis drop_0 nat_zero_as_int of_nat_0 page_def)
  have unsigned: "''same_normalised_reference'' \<notin> set (cv_signals (candidate_from_row p))" if "?P p" for p
    using that by (cases p) (auto simp: candidate_from_row_def signals_of_def RULES_def)
  show ?thesis
  proof
    fix c assume "c \<in> set (take (length (filter ?P (candidate_pairs cat q))) (ex_candidates e))"
    then obtain p where "p \<in> set (take (length (filter ?P (candidate_pairs cat q))) (take (nat (cq_limit q)) ?rows))"
      and c: "c = candidate_from_row p" unfolding e take_map set_map by blast
    from this(1) have "p \<in> set (take (length (filter ?P (candidate_pairs cat q))) ?rows)"
      unfolding take_take min.commute [of _ "nat (cq_limit q)"] unfolding take_take [symmetric] by (rule in_set_takeD)
    from unsigned [OF bspec [OF first this]] show "''same_normalised_reference'' \<notin> set (cv_signals c)" unfolding c .
  qed
qed

section \<open>A small company\<close>

text \<open>
  Two datasets; on the left a payment with a reference, on the right one movement without a reference, three
  days away, and one with the same reference on the same day.
\<close>

definition ds_a :: string where "ds_a = uuid_text 1"
definition ds_b :: string where "ds_b = uuid_text 2"

definition sample_dataset :: "string \<Rightarrow> dataset_row" where
  "sample_dataset i = \<lparr>d_id = i, d_state = ''published'', d_completeness = ''verified'', d_lineage = ''complete'', d_count = 1\<rparr>"

definition sample_movement :: "string \<Rightarrow> string \<Rightarrow> string \<Rightarrow> string \<Rightarrow> string option \<Rightarrow> date \<Rightarrow> movement_row" where
  "sample_movement i ds acc dir ref day = \<lparr>m_id = i, m_dataset = ds, m_account = acc, m_amount = 5 * 10 ^ 12, m_currency = ''COP'',
     m_direction = dir, m_description = ''pago'', m_reference = ref, m_normalised = ref, m_occurred = day, m_state = ''proposed'',
     m_lineage = ''complete'', m_release = ''r1'', m_schema = ''v1'', m_ordinal = 1\<rparr>"

definition payment :: movement_row where
  "payment = sample_movement (uuid_text 10) ds_a ''acc-a'' ''debit'' (Some ''F-77'') (Date 2026 3 5)"

definition nameless :: movement_row where
  "nameless = sample_movement (uuid_text 20) ds_b ''acc-b'' ''credit'' None (Date 2026 3 8)"

definition receipt_move :: movement_row where
  "receipt_move = sample_movement (uuid_text 21) ds_b ''acc-b'' ''credit'' (Some ''F-77'') (Date 2026 3 5)"

definition sample_catalog :: catalog where
  "sample_catalog = \<lparr>ct_datasets = [sample_dataset ds_a, sample_dataset ds_b], ct_movements = [payment, nameless, receipt_move],
     ct_subjects = [(''ana'', ''Ana''), (''luis'', ''Luis'')], ct_closed = (\<lambda>a b. False)\<rparr>"

definition sample_services :: services where
  "sample_services = \<lparr>sv_sha = (\<lambda>t. replicate 64 (CHR ''a'')), sv_iso = (\<lambda>n. show_nat n), sv_cast = canonical_uuid\<rparr>"

lemma canonical_uuid_text: "n < 2 ^ 128 \<Longrightarrow> canonical_uuid (uuid_text n) = Some (uuid_text n)"
  by (simp add: canonical_uuid_def uuid_of_text)

lemma sample_ids [simp]: "ds_a \<noteq> ds_b" "ds_b \<noteq> ds_a" "canonical_uuid ds_a = Some ds_a" "canonical_uuid ds_b = Some ds_b"
  by (simp_all add: ds_a_def ds_b_def uuid_text_inject canonical_uuid_text)

lemma sample_ids_distinct: "distinct (map m_id (ct_movements sample_catalog))"
  by (simp add: sample_catalog_def payment_def nameless_def receipt_move_def sample_movement_def uuid_text_inject)

definition sample_query :: candidate_query where
  "sample_query = review_query ds_a ds_b 3"

lemma sample_movement_simps [simp]:
  "m_id (sample_movement i ds acc dir ref day) = i" "m_dataset (sample_movement i ds acc dir ref day) = ds"
  "m_account (sample_movement i ds acc dir ref day) = acc" "m_amount (sample_movement i ds acc dir ref day) = 5 * 10 ^ 12"
  "m_currency (sample_movement i ds acc dir ref day) = ''COP''" "m_direction (sample_movement i ds acc dir ref day) = dir"
  "m_normalised (sample_movement i ds acc dir ref day) = ref" "m_occurred (sample_movement i ds acc dir ref day) = day"
  "m_state (sample_movement i ds acc dir ref day) = ''proposed''" "m_lineage (sample_movement i ds acc dir ref day) = ''complete''"
  "m_release (sample_movement i ds acc dir ref day) = ''r1''" "m_schema (sample_movement i ds acc dir ref day) = ''v1''"
  by (simp_all add: sample_movement_def)

lemmas sample_movements = payment_def nameless_def receipt_move_def

lemma sample_distances: "date_distance payment nameless = 3" "date_distance payment receipt_move = 0"
  by (simp_all add: date_distance_def date_diff_def sample_movements)

lemma sample_listed: "candidate_pairs sample_catalog sample_query = [(payment, nameless), (payment, receipt_move)]"
proof -
  have "listed_pair sample_query payment nameless" "listed_pair sample_query payment receipt_move"
    using sample_distances
    by (simp_all add: listed_pair_def sample_query_def review_query_def sample_movements live_movement_def exact_pair_def mode_accepts_def)
  moreover have "\<not> listed_pair sample_query payment payment" "\<not> listed_pair sample_query nameless r"
    "\<not> listed_pair sample_query receipt_move r" for r
    by (simp_all add: listed_pair_def sample_query_def review_query_def sample_movements)
  ultimately show ?thesis by (simp add: candidate_pairs_filter) (simp add: sample_catalog_def)
qed

lemma sample_eligible:
  "load_eligible_pair sample_services sample_catalog (review_query ds_a ds_b d) = Inr (sample_dataset ds_a, sample_dataset ds_b)"
  by (auto simp: load_eligible_pair_iff review_query_def sample_services_def dataset_rows_def sample_catalog_def sample_dataset_def
      eligible_dataset_def ELIGIBLE_DATASET_STATES_def ELIGIBLE_COMPLETENESS_STATES_def)

lemma sample_valid: "0 \<le> d \<Longrightarrow> d \<le> 31 \<Longrightarrow> validated (review_query ds_a ds_b d) = Inr (review_query ds_a ds_b d)"
  by (simp add: validated_def review_query_def MAX_DATE_WINDOW_DAYS_def MAX_CANDIDATE_OFFSET_def MAX_CANDIDATE_LIMIT_def
      DEFAULT_CANDIDATE_LIMIT_def REFERENCE_MODES_def)

lemma sample_explored: "\<exists>e. explore_candidates sample_services sample_catalog sample_query = Inr e"
  unfolding sample_query_def review_query_explored using sample_valid [of 3] sample_eligible by simp

theorem pairs_without_reference_come_first_witness:
  "\<exists>e. explore_candidates sample_services sample_catalog sample_query = Inr e
     \<and> ''same_normalised_reference'' \<notin> set (cv_signals (hd (ex_candidates e)))
     \<and> ex_candidates e \<noteq> [] \<and> reference_match payment receipt_move = Some True"
proof -
  obtain e where e: "explore_candidates sample_services sample_catalog sample_query = Inr e" using sample_explored ..
  have offset: "cq_offset sample_query = 0" by (simp add: sample_query_def review_query_def)
  have match: "reference_match payment nameless = None" "reference_match payment receipt_move = Some True"
    by (simp_all add: reference_match_def sample_movements)
  have "length (filter (\<lambda>(l, r). reference_match l r = None) (candidate_pairs sample_catalog sample_query)) = 1"
    by (simp add: sample_listed match)
  moreover have "length (ex_candidates e) = 2"
    by (rule explore_elim [OF e])
      (simp add: page_def sample_listed offset, simp add: sample_query_def review_query_def DEFAULT_CANDIDATE_LIMIT_def)
  ultimately show ?thesis
    using pairs_without_reference_come_first [OF e offset] e match(2) by (cases "ex_candidates e") auto
qed

lemma sample_candidate:
  "candidate_for_review sample_services sample_catalog ds_a ds_b (m_id payment) (m_id receipt_move) 3
     = Inr (eligible_record 3 payment receipt_move)"
proof -
  have "reviewable sample_catalog ds_a ds_b (m_id payment) (m_id receipt_move) 3 payment receipt_move"
    using sample_distances
    by (simp add: reviewable_def listed_pair_def review_query_def sample_movements live_movement_def exact_pair_def mode_accepts_def
        sample_catalog_def)
  then show ?thesis
    unfolding candidate_for_review_iff [OF sample_ids_distinct] using sample_valid [of 3] sample_eligible by auto
qed

theorem proposable_pairs_are_the_explored_ones_witness:
  "candidate_for_review sample_services sample_catalog ds_b ds_a (m_id receipt_move) (m_id payment) 3
     = Inr (eligible_record 3 payment receipt_move)"
  using proposable_pairs_are_the_explored_ones [OF sample_ids_distinct, of sample_services ds_a ds_b "m_id payment" "m_id receipt_move" 3
      "eligible_record 3 payment receipt_move"] sample_candidate by simp

theorem pages_list_exactly_the_eligible_pairs_witness:
  "\<exists>e rows. explore_candidates sample_services sample_catalog sample_query = Inr e \<and> mset rows = mset (filter (\<lambda>(l, r). listed_pair sample_query l r)
       (List.product (ct_movements sample_catalog) (ct_movements sample_catalog)))
     \<and> ex_candidates e = map candidate_from_row (take 50 rows)"
proof -
  obtain e where e: "explore_candidates sample_services sample_catalog sample_query = Inr e" using sample_explored ..
  have q: "sample_query\<lparr>cq_offset := int 0 * cq_limit sample_query\<rparr> = sample_query" "cq_limit sample_query = 50"
    by (simp_all add: sample_query_def review_query_def DEFAULT_CANDIDATE_LIMIT_def)
  have "explore_candidates sample_services sample_catalog (sample_query\<lparr>cq_offset := int k * cq_limit sample_query\<rparr>) = Inr e"
    if "k < 1" for k
    using that e q(1) by simp
  from pages_list_exactly_the_eligible_pairs [of 1 sample_services sample_catalog sample_query "\<lambda>_. e", OF this]
  obtain rows where rows: "mset rows = mset (filter (\<lambda>(l, r). listed_pair sample_query l r)
      (List.product (ct_movements sample_catalog) (ct_movements sample_catalog)))"
    "concat (map (\<lambda>k. ex_candidates e) [0..<1]) = map candidate_from_row (take (1 * nat (cq_limit sample_query)) rows)"
    by auto
  have "ex_candidates e = map candidate_from_row (take 50 rows)" using rows(2) unfolding q(2) by simp
  with rows(1) e show ?thesis by blast
qed

end
