(* ===== verification/ReviewLedger.thy ===== *)
theory ReviewLedger
  imports CandidateLaws "HOL-Library.Sublist"
begin

text \<open>
  What the ledger of reviews guarantees: when a proposal and a decision are accepted, and what holds of
  every ledger that commands can reach, also when a decision was taken on an older state of the ledger.
\<close>

section \<open>What an insertion changes\<close>

lemma guard_Inr: "(if P then Inl e else x) = Inr y \<longleftrightarrow> \<not> P \<and> x = Inr y"
  by simp

lemma record_audit_Inr:
  "record_audit led e = Inr led' \<Longrightarrow> led' = led\<lparr>lg_audits := lg_audits led @ [e]\<rparr>"
  by (auto simp: record_audit_def rbind_Inr_iff split: if_splits)

lemma insert_candidate_Inr:
  "insert_candidate cat led c = Inr led' \<longleftrightarrow> candidate_checks c \<and> mc_id c \<notin> mc_id ` set (lg_candidates led)
     \<and> pair_of c \<notin> pair_of ` set (lg_candidates led) \<and> mc_proposer c \<in> fst ` set (ct_subjects cat)
     \<and> movement_by_id cat (mc_left c) \<noteq> None \<and> movement_by_id cat (mc_right c) \<noteq> None
     \<and> led' = led\<lparr>lg_candidates := lg_candidates led @ [c]\<rparr>"
  unfolding insert_candidate_def guard_Inr by blast

definition receipt_fits :: "review_ledger \<Rightarrow> match_receipt \<Rightarrow> bool" where
  "receipt_fits led r = (if mr_kind r = ''candidate'' then mr_action r = ''propose'' \<and> mr_ref r \<in> mc_id ` set (lg_candidates led)
     else mr_kind r = ''decision'' \<and> mr_action r \<in> {''confirm'', ''reject''} \<and> mr_ref r \<in> md_id ` set (lg_decisions led)
       \<and> (\<forall>d \<in> set (lg_decisions led). md_id d = mr_ref r \<longrightarrow>
           md_decision d = (if mr_action r = ''confirm'' then ''confirmed'' else ''rejected'')))"

lemma insert_receipt_Inr:
  "insert_receipt led r = Inr led' \<longleftrightarrow> receipt_fits led r \<and> rx_match IDEMPOTENCY_KEY (mr_key r) \<and> digest_shape (mr_digest r)
     \<and> (mr_actor r, mr_key r) \<notin> (\<lambda>x. (mr_actor x, mr_key x)) ` set (lg_receipts led)
     \<and> led' = led\<lparr>lg_receipts := lg_receipts led @ [r]\<rparr>"
  unfolding insert_receipt_def receipt_fits_def list_ex_iff guard_Inr by auto

definition members_of :: "match_candidate \<Rightarrow> match_decision \<Rightarrow> match_member list" where
  "members_of c d = (if md_decision d \<noteq> ''confirmed'' then []
     else [\<lparr>mm_movement = mc_left c, mm_candidate = mc_id c, mm_decision = md_id d, mm_side = ''left''\<rparr>,
           \<lparr>mm_movement = mc_right c, mm_candidate = mc_id c, mm_decision = md_id d, mm_side = ''right''\<rparr>])"

lemma reserve_members_Inr:
  "reserve_members led c d = Inr led' \<longleftrightarrow>
     (md_decision d = ''confirmed'' \<longrightarrow> {mc_left c, mc_right c} \<inter> mm_movement ` set (lg_members led) = {} \<and> mc_left c \<noteq> mc_right c)
     \<and> led' = led\<lparr>lg_members := lg_members led @ members_of c d\<rparr>"
  by (auto simp: reserve_members_def insert_member_def members_of_def rbind_Inr_iff split: if_splits)

lemma insert_decision_Inr:
  "insert_decision cat led d = Inr led' \<longleftrightarrow> (\<exists>c. candidate_by_id led (md_candidate d) = Some c \<and> period_open cat c
     \<and> \<not> (md_decision d = ''confirmed'' \<and> md_actor d = mc_proposer c) \<and> md_evidence d = pair_evidence (mc_left c) (mc_right c)
     \<and> md_decision d \<in> {''confirmed'', ''rejected''} \<and> md_reason d \<in> set (concat (map snd DECISION_REASONS))
     \<and> md_id d \<notin> md_id ` set (lg_decisions led) \<and> md_candidate d \<notin> md_candidate ` set (lg_decisions led)
     \<and> (md_decision d = ''confirmed'' \<longrightarrow> {mc_left c, mc_right c} \<inter> mm_movement ` set (lg_members led) = {} \<and> mc_left c \<noteq> mc_right c)
     \<and> md_actor d \<in> fst ` set (ct_subjects cat)
     \<and> led' = led\<lparr>lg_decisions := lg_decisions led @ [d], lg_members := lg_members led @ members_of c d\<rparr>)"
proof (cases "candidate_by_id led (md_candidate d)")
  case None
  then show ?thesis by (simp add: insert_decision_def)
next
  case (Some c)
  show ?thesis unfolding insert_decision_def Some option.case guard_Inr rbind_Inr_iff reserve_members_Inr by auto
qed

section \<open>The invariant of the ledger\<close>

definition extends :: "review_ledger \<Rightarrow> review_ledger \<Rightarrow> bool" where
  "extends a b = (prefix (lg_candidates a) (lg_candidates b) \<and> prefix (lg_decisions a) (lg_decisions b)
     \<and> prefix (lg_receipts a) (lg_receipts b) \<and> prefix (lg_members a) (lg_members b) \<and> prefix (lg_audits a) (lg_audits b))"

lemma extends_refl [simp]: "extends a a"
  by (simp add: extends_def)

lemma extends_trans: "extends a b \<Longrightarrow> extends b c \<Longrightarrow> extends a c"
  by (auto simp: extends_def intro: prefix_order.trans)

text \<open>
  Every decision is about a candidate, each at most once, by someone other than the proposer if it confirms and for a
  reason that fits; a movement is reserved at most once, and what is reserved are the movements of the confirmed
  candidates; a key of an actor has one receipt, which points to a row of its kind.
\<close>

definition decision_ok :: "review_ledger \<Rightarrow> match_decision \<Rightarrow> bool" where
  "decision_ok led d = (\<exists>c \<in> set (lg_candidates led). mc_id c = md_candidate d
     \<and> (md_decision d = ''confirmed'' \<longrightarrow> md_actor d \<noteq> mc_proposer c) \<and> valid_reason (md_decision d) (md_reason d)
     \<and> md_evidence d = pair_evidence (mc_left c) (mc_right c) \<and> set (members_of c d) \<subseteq> set (lg_members led))"

definition ledger_ok :: "review_ledger \<Rightarrow> bool" where
  "ledger_ok led = (distinct (map mc_id (lg_candidates led)) \<and> distinct (map pair_of (lg_candidates led))
     \<and> (\<forall>c \<in> set (lg_candidates led). candidate_checks c)
     \<and> distinct (map md_id (lg_decisions led)) \<and> distinct (map md_candidate (lg_decisions led))
     \<and> (\<forall>d \<in> set (lg_decisions led). decision_ok led d)
     \<and> distinct (map mm_movement (lg_members led))
     \<and> (\<forall>m \<in> set (lg_members led). mm_candidate m \<in> md_candidate ` set (lg_decisions led))
     \<and> distinct (map (\<lambda>r. (mr_actor r, mr_key r)) (lg_receipts led))
     \<and> (\<forall>r \<in> set (lg_receipts led). receipt_fits led r))"

lemma ledger_ok_empty: "ledger_ok empty_ledger"
  by (simp add: ledger_ok_def empty_ledger_def)

lemma distinct_map_snoc: "distinct (map f (xs @ [x])) \<longleftrightarrow> distinct (map f xs) \<and> f x \<notin> f ` set xs"
  by auto

lemma ledger_ok_audit:
  assumes "record_audit led e = Inr led'" "ledger_ok led"
  shows "ledger_ok led' \<and> extends led led'"
proof -
  have led': "led' = led\<lparr>lg_audits := lg_audits led @ [e]\<rparr>" by (rule record_audit_Inr [OF assms(1)])
  have "decision_ok led' d = decision_ok led d" "receipt_fits led' x = receipt_fits led x" for d x
    by (simp_all add: led' decision_ok_def receipt_fits_def)
  then show ?thesis using assms(2) by (simp add: led' ledger_ok_def extends_def)
qed

lemma ledger_ok_candidate:
  assumes "insert_candidate cat led c = Inr led'" "ledger_ok led"
  shows "ledger_ok led' \<and> extends led led'"
proof -
  have c: "candidate_checks c" "mc_id c \<notin> mc_id ` set (lg_candidates led)" "pair_of c \<notin> pair_of ` set (lg_candidates led)"
    and led': "led' = led\<lparr>lg_candidates := lg_candidates led @ [c]\<rparr>"
    using assms(1) unfolding insert_candidate_Inr by simp_all
  have "decision_ok led d \<Longrightarrow> decision_ok led' d" "receipt_fits led r \<Longrightarrow> receipt_fits led' r" for d r
    by (auto simp: led' decision_ok_def receipt_fits_def split: if_splits)
  then show ?thesis
    using assms(2) c unfolding ledger_ok_def extends_def by (simp add: led' distinct_map_snoc)
qed

lemma ledger_ok_receipt:
  assumes "insert_receipt led r = Inr led'" "ledger_ok led"
  shows "ledger_ok led' \<and> extends led led'"
proof -
  have r: "receipt_fits led r" "(mr_actor r, mr_key r) \<notin> (\<lambda>x. (mr_actor x, mr_key x)) ` set (lg_receipts led)"
    and led': "led' = led\<lparr>lg_receipts := lg_receipts led @ [r]\<rparr>"
    using assms(1) unfolding insert_receipt_Inr by simp_all
  have "decision_ok led' d = decision_ok led d" "receipt_fits led' x = receipt_fits led x" for d x
    by (simp_all add: led' decision_ok_def receipt_fits_def)
  then show ?thesis
    using assms(2) r unfolding ledger_ok_def extends_def by (simp add: led' image_iff)
qed

lemma candidate_by_id_Some: "candidate_by_id led i = Some c \<Longrightarrow> c \<in> set (lg_candidates led) \<and> mc_id c = i"
  unfolding candidate_by_id_def by (rule find_SomeD)

lemma ledger_ok_decision:
  assumes "insert_decision cat led d = Inr led'" "valid_reason (md_decision d) (md_reason d)" "ledger_ok led"
  shows "ledger_ok led' \<and> extends led led'"
proof -
  obtain c where c: "candidate_by_id led (md_candidate d) = Some c" "\<not> (md_decision d = ''confirmed'' \<and> md_actor d = mc_proposer c)"
      "md_evidence d = pair_evidence (mc_left c) (mc_right c)"
    and fresh: "md_id d \<notin> md_id ` set (lg_decisions led)" "md_candidate d \<notin> md_candidate ` set (lg_decisions led)"
    and free: "md_decision d = ''confirmed'' \<longrightarrow> {mc_left c, mc_right c} \<inter> mm_movement ` set (lg_members led) = {} \<and> mc_left c \<noteq> mc_right c"
    and led': "led' = led\<lparr>lg_decisions := lg_decisions led @ [d], lg_members := lg_members led @ members_of c d\<rparr>"
    using assms(1) unfolding insert_decision_Inr by blast
  have "decision_ok led' d"
    unfolding decision_ok_def using candidate_by_id_Some [OF c(1)] c(2,3) assms(2) by (auto simp: led')
  moreover have "decision_ok led x \<Longrightarrow> decision_ok led' x" for x
    by (auto simp: led' decision_ok_def)
  moreover have "receipt_fits led r \<Longrightarrow> receipt_fits led' r" for r
    using fresh(1) by (auto simp: led' receipt_fits_def split: if_splits)
  moreover have "distinct (map mm_movement (lg_members led'))" if "distinct (map mm_movement (lg_members led))"
    using that free by (auto simp: led' members_of_def)
  moreover have "mm_candidate m \<in> md_candidate ` set (lg_decisions led')"
    if "\<forall>m \<in> set (lg_members led). mm_candidate m \<in> md_candidate ` set (lg_decisions led)" "m \<in> set (lg_members led')" for m
    using that candidate_by_id_Some [OF c(1)] by (auto simp: led' members_of_def split: if_splits)
  ultimately show ?thesis
    using assms(3) fresh unfolding ledger_ok_def extends_def by (simp add: led' distinct_map_snoc)
qed

section \<open>Commands keep the invariant and only add\<close>

lemma kept_trans:
  "ledger_ok b \<and> extends a b \<Longrightarrow> (ledger_ok b \<Longrightarrow> ledger_ok c \<and> extends b c) \<Longrightarrow> ledger_ok c \<and> extends a c"
  by (blast intro: extends_trans)

lemma read_back_Inr: "read_back sv cat i m led = Inr (r, led') \<longleftrightarrow> led' = led
    \<and> (\<exists>v. load_review sv cat led i = Some v \<and> r = \<lparr>rp_review = v, rp_replayed = False, rp_created = True\<rparr>)"
  by (auto simp: read_back_def split: option.splits)

lemma materialise_kept:
  assumes "materialise cat led fr actor p = Inr (i, created, led')" "ledger_ok led"
  shows "ledger_ok led' \<and> extends led led'"
proof (cases "find (\<lambda>c. pair_of c = (REVIEW_RULE_VERSION, ep_left p, ep_right p)) (lg_candidates led)")
  case None
  then obtain l1 where "record_audit led (audit_of fr actor ''match.propose'' ''match_candidate'' (fr_id fr)
       [(''rule_version'', PStr REVIEW_RULE_VERSION)]) = Inr l1" "insert_candidate cat l1 (candidate_row fr actor p) = Inr led'"
    using assms(1) by (auto simp: materialise_def rbind_Inr_iff)
  from kept_trans [OF ledger_ok_audit [OF this(1) assms(2)] ledger_ok_candidate [OF this(2)]] show ?thesis .
next
  case (Some c)
  then show ?thesis using assms by (simp add: materialise_def)
qed

lemma propose_new_kept:
  assumes "propose_new sv cat led fr actor key dig p = Inr (r, led')" "ledger_ok led"
  shows "ledger_ok led' \<and> extends led led'"
proof -
  obtain i created l1 where m: "materialise cat led fr actor p = Inr (i, created, l1)"
    and "insert_receipt l1 \<lparr>mr_actor = actor, mr_action = ''propose'', mr_key = key, mr_digest = dig,
        mr_kind = ''candidate'', mr_ref = i\<rparr> = Inr led'"
    using assms(1) by (auto simp: propose_new_def rbind_Inr_iff read_back_Inr)
  from kept_trans [OF materialise_kept [OF m assms(2)] ledger_ok_receipt [OF this(2)]] show ?thesis .
qed

lemma replay_None: "replay_or_conflict sv cat led act dig rc = Inr None \<longleftrightarrow> rc = None"
  by (auto simp: replay_or_conflict_def rbind_Inr_iff split: option.splits if_splits)

lemma propose_elim:
  assumes "propose_review sv cat led fr actor key a b x y days = Inr (r, led')"
  obtains k ld rd lm rm dig where "idempotency_key key = Inr k" "canonical_uuid a = Some ld" "canonical_uuid b = Some rd"
    "canonical_uuid x = Some lm" "canonical_uuid y = Some rm" "digest sv (propose_payload ld rd lm rm days) = Inr dig"
    and "(led' = led \<and> replay_or_conflict sv cat led ''propose'' dig (receipt_of led actor k) = Inr (Some r))
       \<or> (receipt_of led actor k = None
          \<and> (\<exists>p. candidate_for_review sv cat ld rd lm rm days = Inr p \<and> propose_new sv cat led fr actor k dig p = Inr (r, led')))"
  using assms unfolding propose_review_def rbind_Inr_iff uuid_field_def
  by (elim exE conjE) (auto simp: rbind_Inr_iff replay_None split: option.splits intro: that)

lemma propose_kept:
  assumes "propose_review sv cat led fr actor key a b x y days = Inr (r, led')" "ledger_ok led"
  shows "ledger_ok led' \<and> extends led led'"
  using assms(1) by (rule propose_elim) (use assms(2) propose_new_kept in auto)

lemma write_decision_Inr:
  "write_decision cat led fr actor key dig v decision reason_code = Inr led' \<longleftrightarrow> (\<exists>l1 l2.
     record_audit led (audit_of fr actor (''match.'' @ decision_action decision) ''match_candidate'' (rv_id v)
       [(''decision'', PStr decision), (''reason_code'', PStr reason_code)]) = Inr l1
     \<and> insert_decision cat l1 \<lparr>md_id = fr_id fr, md_candidate = rv_id v, md_decision = decision, md_reason = reason_code,
          md_evidence = pair_evidence (rv_left v) (rv_right v), md_actor = actor, md_at = fr_now fr, md_audit = fr_audit fr\<rparr> = Inr l2
     \<and> insert_receipt l2 \<lparr>mr_actor = actor, mr_action = decision_action decision, mr_key = key, mr_digest = dig,
          mr_kind = ''decision'', mr_ref = fr_id fr\<rparr> = Inr led')"
  unfolding write_decision_def by (auto simp: rbind_Inr_iff split: sum.splits)

lemma write_decision_kept:
  assumes "write_decision cat led fr actor key dig v decision reason_code = Inr led'" "valid_reason decision reason_code"
    "ledger_ok led"
  shows "ledger_ok led' \<and> extends led led'"
proof -
  obtain l1 l2 where steps: "record_audit led (audit_of fr actor (''match.'' @ decision_action decision) ''match_candidate'' (rv_id v)
       [(''decision'', PStr decision), (''reason_code'', PStr reason_code)]) = Inr l1"
     "insert_decision cat l1 \<lparr>md_id = fr_id fr, md_candidate = rv_id v, md_decision = decision, md_reason = reason_code,
          md_evidence = pair_evidence (rv_left v) (rv_right v), md_actor = actor, md_at = fr_now fr, md_audit = fr_audit fr\<rparr> = Inr l2"
     "insert_receipt l2 \<lparr>mr_actor = actor, mr_action = decision_action decision, mr_key = key, mr_digest = dig,
          mr_kind = ''decision'', mr_ref = fr_id fr\<rparr> = Inr led'"
    using assms(1) unfolding write_decision_Inr by blast
  note l1 = ledger_ok_audit [OF steps(1) assms(3)]
  note l2 = kept_trans [OF l1 ledger_ok_decision [OF steps(2)]]
  from kept_trans [OF l2 ledger_ok_receipt [OF steps(3)]] assms(2) show ?thesis by simp
qed

lemma decide_elim:
  assumes "decide_review sv cat seen led fr actor key i decision reason_code = Inr (r, led')"
  obtains k cid dig where "idempotency_key key = Inr k" "canonical_uuid i = Some cid" "valid_reason decision reason_code"
    "digest sv (decide_payload cid decision reason_code) = Inr dig"
    and "(led' = led \<and> replay_or_conflict sv cat seen (decision_action decision) dig (receipt_of seen actor k) = Inr (Some r))
       \<or> (receipt_of seen actor k = None \<and> (\<exists>v. load_review sv cat seen cid = Some v \<and> decision_guard v actor decision = Inr ()
          \<and> write_decision cat led fr actor k dig v decision reason_code = Inr led'
          \<and> (\<exists>w. load_review sv cat led' cid = Some w \<and> r = \<lparr>rp_review = w, rp_replayed = False, rp_created = True\<rparr>)))"
  using assms unfolding decide_review_def rbind_Inr_iff uuid_field_def guard_Inr
  by (elim exE conjE) (auto simp: rbind_Inr_iff read_back_Inr replay_None split: option.splits intro: that)

lemma decide_kept:
  assumes "decide_review sv cat seen led fr actor key i decision reason_code = Inr (r, led')" "ledger_ok led"
  shows "ledger_ok led' \<and> extends led led'"
  using assms(1) by (rule decide_elim) (use assms(2) write_decision_kept in auto)

section \<open>Reachable ledgers\<close>

text \<open>
  A step is a successful command or the record of a refused one. The catalog may change between steps and a decision
  may have read any earlier state \<open>seen\<close>.
\<close>

inductive ledger_step :: "services \<Rightarrow> review_ledger \<Rightarrow> review_ledger \<Rightarrow> bool" for sv where
  proposed: "propose_review sv cat led fr actor key a b x y days = Inr (r, led') \<Longrightarrow> ledger_step sv led led'"
| decided: "extends seen led \<Longrightarrow> decide_review sv cat seen led fr actor key i decision reason_code = Inr (r, led')
     \<Longrightarrow> ledger_step sv led led'"
| refused: "record_audit led e = Inr led' \<Longrightarrow> au_outcome e = ''denied'' \<Longrightarrow> ledger_step sv led led'"

lemma ledger_step_kept: "ledger_step sv a b \<Longrightarrow> ledger_ok a \<Longrightarrow> ledger_ok b \<and> extends a b"
  by (cases rule: ledger_step.cases) (blast dest: propose_kept decide_kept ledger_ok_audit)+

interpretation reviews: growing_store "ledger_step sv" ledger_ok extends for sv
  by unfold_locales (auto intro: extends_trans dest: ledger_step_kept)

abbreviation reaches :: "services \<Rightarrow> review_ledger \<Rightarrow> review_ledger \<Rightarrow> bool" where
  "reaches sv \<equiv> (ledger_step sv)\<^sup>*\<^sup>*"

lemma reachable_ok: "reaches sv empty_ledger led \<Longrightarrow> ledger_ok led"
  using reviews.run_kept ledger_ok_empty by blast

lemma same_row: "distinct (map f xs) \<Longrightarrow> x \<in> set xs \<Longrightarrow> y \<in> set xs \<Longrightarrow> f x = f y \<Longrightarrow> x = y"
  by (meson distinct_map inj_onD)

lemma filter_same_row: "distinct (map f xs) \<Longrightarrow> x \<in> set xs \<Longrightarrow> filter (\<lambda>y. f y = f x) xs = [x]"
proof (induction xs)
  case (Cons z xs)
  show ?case
  proof (cases "x = z")
    case True
    have "f y \<noteq> f z" if "y \<in> set xs" for y using Cons.prems(1) that by (metis distinct.simps(2) image_eqI list.simps(9) set_map)
    then show ?thesis using True by (simp add: filter_empty_conv)
  next
    case False
    then have "f z \<noteq> f x" "filter (\<lambda>y. f y = f x) xs = [x]" using Cons by auto
    then show ?thesis by simp
  qed
qed simp

lemma decision_members:
  assumes "ledger_ok led" "d \<in> set (lg_decisions led)" "c \<in> set (lg_candidates led)" "mc_id c = md_candidate d"
  shows "set (members_of c d) \<subseteq> set (lg_members led)"
    "md_decision d = ''confirmed'' \<Longrightarrow> md_actor d \<noteq> mc_proposer c" "valid_reason (md_decision d) (md_reason d)"
    "md_evidence d = pair_evidence (mc_left c) (mc_right c)"
proof -
  obtain c' where c': "c' \<in> set (lg_candidates led)" "mc_id c' = md_candidate d"
    "md_decision d = ''confirmed'' \<longrightarrow> md_actor d \<noteq> mc_proposer c'" "valid_reason (md_decision d) (md_reason d)"
    "md_evidence d = pair_evidence (mc_left c') (mc_right c')" "set (members_of c' d) \<subseteq> set (lg_members led)"
    using assms(1,2) unfolding ledger_ok_def decision_ok_def by blast
  have "c' = c"
    using same_row [of mc_id "lg_candidates led" c' c] assms c' by (simp add: ledger_ok_def)
  with c' show "set (members_of c d) \<subseteq> set (lg_members led)"
    "md_decision d = ''confirmed'' \<Longrightarrow> md_actor d \<noteq> mc_proposer c" "valid_reason (md_decision d) (md_reason d)"
    "md_evidence d = pair_evidence (mc_left c) (mc_right c)" by simp_all
qed

text \<open>C1. In every ledger that commands can reach, also with decisions taken on stale reads, two confirmed
  decisions whose candidates share a movement are one decision.\<close>

theorem no_movement_is_confirmed_twice:
  assumes "reaches sv empty_ledger led"
    and "d1 \<in> set (lg_decisions led)" "md_decision d1 = ''confirmed''" "c1 \<in> set (lg_candidates led)" "mc_id c1 = md_candidate d1"
    and "d2 \<in> set (lg_decisions led)" "md_decision d2 = ''confirmed''" "c2 \<in> set (lg_candidates led)" "mc_id c2 = md_candidate d2"
    and "{mc_left c1, mc_right c1} \<inter> {mc_left c2, mc_right c2} \<noteq> {}"
  shows "d1 = d2 \<and> c1 = c2"
proof -
  note ok = reachable_ok [OF assms(1)]
  have m: "set (members_of c1 d1) \<subseteq> set (lg_members led)" "set (members_of c2 d2) \<subseteq> set (lg_members led)"
    using decision_members(1) ok assms by blast+
  have taken: "\<exists>m \<in> set (members_of c d). mm_movement m = z \<and> mm_decision m = md_id d"
    if "md_decision d = ''confirmed''" "z \<in> {mc_left c, mc_right c}" for c d z
    using that by (auto simp: members_of_def)
  obtain z where z: "z \<in> {mc_left c1, mc_right c1}" "z \<in> {mc_left c2, mc_right c2}" using assms(10) by blast
  obtain m1 where m1: "m1 \<in> set (lg_members led)" "mm_movement m1 = z" "mm_decision m1 = md_id d1"
    using taken [OF assms(3) z(1)] m(1) by blast
  obtain m2 where m2: "m2 \<in> set (lg_members led)" "mm_movement m2 = z" "mm_decision m2 = md_id d2"
    using taken [OF assms(7) z(2)] m(2) by blast
  have "m1 = m2" using same_row [of mm_movement "lg_members led" m1 m2] ok m1 m2 by (simp add: ledger_ok_def)
  then have "d1 = d2" using same_row [of md_id "lg_decisions led" d1 d2] ok assms m1 m2 by (simp add: ledger_ok_def)
  moreover from this have "c1 = c2"
    using same_row [of mc_id "lg_candidates led" c1 c2] ok assms by (simp add: ledger_ok_def)
  ultimately show ?thesis ..
qed

text \<open>C6. Every decision of a reachable ledger is the only one of its candidate, gives a reason that fits it and names
  the ordered pair, and a confirmation is never by the person who proposed the pair.\<close>

theorem confirmed_by_a_second_person:
  assumes "reaches sv empty_ledger led" and "d \<in> set (lg_decisions led)"
  shows "\<exists>c \<in> set (lg_candidates led). mc_id c = md_candidate d \<and> mc_left c < mc_right c
    \<and> (md_decision d = ''confirmed'' \<longrightarrow> md_actor d \<noteq> mc_proposer c) \<and> valid_reason (md_decision d) (md_reason d)
    \<and> md_evidence d = pair_evidence (mc_left c) (mc_right c)
    \<and> filter (\<lambda>e. md_candidate e = mc_id c) (lg_decisions led) = [d]"
proof -
  note ok = reachable_ok [OF assms(1)]
  obtain c where c: "c \<in> set (lg_candidates led)" "mc_id c = md_candidate d"
    using ok assms(2) unfolding ledger_ok_def decision_ok_def by blast
  have "filter (\<lambda>e. md_candidate e = md_candidate d) (lg_decisions led) = [d]"
    by (rule filter_same_row) (use ok assms(2) in \<open>simp_all add: ledger_ok_def\<close>)
  then show ?thesis
    using c decision_members(2-4) [OF ok assms(2) c] ok
    by (intro bexI [of _ c]) (auto simp: ledger_ok_def candidate_checks_def)
qed

section \<open>Looking up in a ledger that grew\<close>

lemma find_append: "find P (xs @ ys) = (case find P xs of None \<Rightarrow> find P ys | Some x \<Rightarrow> Some x)"
  by (induction xs) auto

lemma find_prefix: "prefix xs ys \<Longrightarrow> find P xs = Some x \<Longrightarrow> find P ys = Some x"
  by (auto simp: prefix_def find_append)

lemma extends_lookups:
  assumes "extends a b"
  shows "candidate_by_id a i = Some c \<Longrightarrow> candidate_by_id b i = Some c"
    "decision_for a i = Some d \<Longrightarrow> decision_for b i = Some d"
    "receipt_of a actor k = Some r \<Longrightarrow> receipt_of b actor k = Some r"
  using assms unfolding extends_def candidate_by_id_def decision_for_def receipt_of_def by (blast intro: find_prefix)+

lemma review_row_cases:
  obtains "review_row_of cat led c = []"
  | name lm rm where "review_row_of cat led c = [(c, name, decision_for led (mc_id c),
       (case decision_for led (mc_id c) of None \<Rightarrow> None | Some d \<Rightarrow> map_of (ct_subjects cat) (md_actor d)),
       lm, rm, confirmation_conflict led c)]"
    "map_of (ct_subjects cat) (mc_proposer c) = Some name" "movement_by_id cat (mc_left c) = Some lm"
    "movement_by_id cat (mc_right c) = Some rm"
  by (cases "map_of (ct_subjects cat) (mc_proposer c)"; cases "movement_by_id cat (mc_left c)";
      cases "movement_by_id cat (mc_right c)") (auto simp: review_row_of_def)

text \<open>The rows a candidate gives do not depend on the ledger but for decision and conflict.\<close>

lemma review_row_empty: "review_row_of cat a c = [] \<longleftrightarrow> review_row_of cat b c = []"
  by (auto simp: review_row_of_def split: option.splits)

lemma find_rows:
  assumes "distinct (map mc_id cs)" and "\<And>c. g c = [] \<or> (\<exists>row. g c = [row] \<and> row_candidate row = c)"
  shows "find (\<lambda>row. mc_id (row_candidate row) = i) (concat (map g cs))
    = (case find (\<lambda>c. mc_id c = i) cs of None \<Rightarrow> None | Some c \<Rightarrow> (case g c of [] \<Rightarrow> None | row # _ \<Rightarrow> Some row))"
  using assms(1)
proof (induction cs)
  case (Cons c cs)
  then have IH: "find (\<lambda>row. mc_id (row_candidate row) = i) (concat (map g cs))
    = (case find (\<lambda>c. mc_id c = i) cs of None \<Rightarrow> None | Some c \<Rightarrow> (case g c of [] \<Rightarrow> None | row # _ \<Rightarrow> Some row))" by simp
  have "find (\<lambda>c. mc_id c = i) cs = None" if "mc_id c = i"
    using Cons.prems that unfolding find_None_iff by (metis distinct.simps(2) image_eqI list.set_map list.simps(9))
  then show ?case using assms(2) [of c] IH by (auto split: list.splits)
qed simp

lemma load_review_eq:
  assumes "ledger_ok led"
  shows "load_review sv cat led i = (case candidate_by_id led i of None \<Rightarrow> None
    | Some c \<Rightarrow> (case review_row_of cat led c of [] \<Rightarrow> None | row # _ \<Rightarrow> Some (review_from_row sv row)))"
proof -
  have one: "review_row_of cat led c = [] \<or> (\<exists>row. review_row_of cat led c = [row] \<and> row_candidate row = c)" for c
    by (rule review_row_cases [of cat led c]) (auto simp: row_candidate_def)
  show ?thesis
    using assms find_rows [of "lg_candidates led" "review_row_of cat led" i, OF _ one]
    by (auto simp: load_review_def review_select_def candidate_by_id_def ledger_ok_def split: option.splits list.splits)
qed

lemma load_review_Some:
  assumes "ledger_ok led" "load_review sv cat led i = Some v"
  obtains c where "candidate_by_id led i = Some c" "mc_id c = i" "c \<in> set (lg_candidates led)"
    "rv_id v = i" "rv_left v = mc_left c" "rv_right v = mc_right c" "rv_proposer v = mc_proposer c"
    "(rv_decision v = None) = (decision_for led i = None)" "rv_conflict v = confirmation_conflict led c"
    "review_row_of cat led c \<noteq> []" "movement_by_id cat (mc_left c) \<noteq> None" "movement_by_id cat (mc_right c) \<noteq> None"
proof -
  obtain c where c: "candidate_by_id led i = Some c"
    and row: "(case review_row_of cat led c of [] \<Rightarrow> None | row # _ \<Rightarrow> Some (review_from_row sv row)) = Some v"
    using assms(2) unfolding load_review_eq [OF assms(1)] by (auto split: option.splits)
  note id = candidate_by_id_Some [OF c]
  show ?thesis
    by (rule review_row_cases [of cat led c])
      (use row in simp, rule that [OF c], use row id in \<open>auto simp: review_from_row_def Let_def\<close>)
qed

lemma load_review_extends:
  assumes "ledger_ok a" "ledger_ok b" "extends a b" "load_review sv cat a i = Some v"
  shows "\<exists>w. load_review sv cat b i = Some w \<and> rv_id w = i"
proof -
  obtain c where c: "candidate_by_id a i = Some c" "review_row_of cat a c \<noteq> []"
    by (rule load_review_Some [OF assms(1,4)])
  have "candidate_by_id b i = Some c" "review_row_of cat b c \<noteq> []"
    using c extends_lookups(1) [OF assms(3)] review_row_empty [of cat a c b] by simp_all
  then obtain w where w: "load_review sv cat b i = Some w"
    unfolding load_review_eq [OF assms(2)] by (cases "review_row_of cat b c") auto
  with load_review_Some [OF assms(2) w] show ?thesis by metis
qed

text \<open>C7. Whatever commands follow, a review keeps its movements, its proposer and its time, and once it is decided
  also its decision and status.\<close>

theorem decided_reviews_never_change:
  assumes "reaches sv empty_ledger led" "reaches sv led later" "load_review sv cat led i = Some v"
  shows "\<exists>w. load_review sv cat later i = Some w \<and> rv_left w = rv_left v \<and> rv_right w = rv_right v
    \<and> rv_proposer w = rv_proposer v \<and> rv_at w = rv_at v \<and> (rv_decision v \<noteq> None \<longrightarrow> rv_decision w = rv_decision v \<and> rv_status w = rv_status v)"
proof -
  note ok = reachable_ok [OF assms(1)]
  from reviews.run_kept [OF assms(2) ok] have ok': "ledger_ok later" and ext: "extends led later" by simp_all
  obtain c where c: "candidate_by_id led i = Some c" "mc_id c = i" "review_row_of cat led c \<noteq> []"
    by (rule load_review_Some [OF ok assms(3)])
  note c' = extends_lookups(1) [OF ext c(1)]
  have d: "decision_for led i = Some d \<Longrightarrow> decision_for later i = Some d" for d by (rule extends_lookups(2) [OF ext])
  show ?thesis
  proof (rule review_row_cases [of cat led c])
    fix name lm rm
    assume row: "review_row_of cat led c = [(c, name, decision_for led (mc_id c),
       (case decision_for led (mc_id c) of None \<Rightarrow> None | Some d \<Rightarrow> map_of (ct_subjects cat) (md_actor d)),
       lm, rm, confirmation_conflict led c)]"
      and joined: "map_of (ct_subjects cat) (mc_proposer c) = Some name" "movement_by_id cat (mc_left c) = Some lm"
        "movement_by_id cat (mc_right c) = Some rm"
    have row': "review_row_of cat later c = [(c, name, decision_for later (mc_id c),
       (case decision_for later (mc_id c) of None \<Rightarrow> None | Some d \<Rightarrow> map_of (ct_subjects cat) (md_actor d)),
       lm, rm, confirmation_conflict later c)]" using joined by (simp add: review_row_of_def)
    have v: "v = review_from_row sv (hd (review_row_of cat led c))"
      using assms(3) by (simp add: load_review_eq [OF ok] c(1) row)
    have w: "load_review sv cat later i = Some (review_from_row sv (hd (review_row_of cat later c)))"
      by (simp add: load_review_eq [OF ok'] c' row')
    show ?thesis
      unfolding w v row row' using d by (cases "decision_for led i") (auto simp: review_from_row_def Let_def c(2))
  qed (use c in simp)
qed

section \<open>Idempotency\<close>

lemma receipt_of_Some: "receipt_of led actor k = Some r \<Longrightarrow> r \<in> set (lg_receipts led) \<and> mr_actor r = actor \<and> mr_key r = k"
  unfolding receipt_of_def by (drule find_SomeD) simp

lemma replay_Some:
  "replay_or_conflict sv cat led act dig (Some rc) = Inr x \<longleftrightarrow> mr_action rc = act \<and> mr_digest rc = dig
     \<and> (\<exists>v. load_receipt_result sv cat led (mr_kind rc) (mr_ref rc) = Inr v
           \<and> x = Some \<lparr>rp_review = v, rp_replayed = True, rp_created = False\<rparr>)"
  by (auto simp: replay_or_conflict_def rbind_Inr_iff)

lemma receipt_result_candidate:
  "load_receipt_result sv cat led ''candidate'' i = Inr v \<longleftrightarrow> load_review sv cat led i = Some v"
  by (auto simp: load_receipt_result_def split: option.splits)

text \<open>What a proposal leaves behind: the receipt of its key, which names the candidate it answered.\<close>

lemma proposal_receipt:
  assumes "propose_review sv cat led fr actor key a b x y days = Inr (r, led')" "ledger_ok led"
  obtains k ld rd lm rm dig rc where "idempotency_key key = Inr k" "canonical_uuid a = Some ld" "canonical_uuid b = Some rd"
    "canonical_uuid x = Some lm" "canonical_uuid y = Some rm" "digest sv (propose_payload ld rd lm rm days) = Inr dig"
    "receipt_of led' actor k = Some rc" "mr_action rc = ''propose''" "mr_kind rc = ''candidate''" "mr_digest rc = dig"
    "load_review sv cat led' (mr_ref rc) = Some (rp_review r)" "rv_id (rp_review r) = mr_ref rc"
proof -
  from propose_kept [OF assms] have ok': "ledger_ok led'" and ext: "extends led led'" by simp_all
  obtain k ld rd lm rm dig where args: "idempotency_key key = Inr k" "canonical_uuid a = Some ld" "canonical_uuid b = Some rd"
    "canonical_uuid x = Some lm" "canonical_uuid y = Some rm" "digest sv (propose_payload ld rd lm rm days) = Inr dig"
    and res: "(led' = led \<and> replay_or_conflict sv cat led ''propose'' dig (receipt_of led actor k) = Inr (Some r))
       \<or> (receipt_of led actor k = None
          \<and> (\<exists>p. candidate_for_review sv cat ld rd lm rm days = Inr p \<and> propose_new sv cat led fr actor k dig p = Inr (r, led')))"
    by (rule propose_elim [OF assms(1)])
  have "\<exists>rc. receipt_of led' actor k = Some rc \<and> mr_action rc = ''propose'' \<and> mr_kind rc = ''candidate'' \<and> mr_digest rc = dig
    \<and> load_review sv cat led' (mr_ref rc) = Some (rp_review r)"
    using res
  proof (elim disjE conjE exE)
    assume led': "led' = led" and rep: "replay_or_conflict sv cat led ''propose'' dig (receipt_of led actor k) = Inr (Some r)"
    then obtain rc where rc: "receipt_of led actor k = Some rc"
      by (cases "receipt_of led actor k") (auto simp: replay_or_conflict_def)
    have fits: "receipt_fits led rc" using receipt_of_Some [OF rc] assms(2) by (simp add: ledger_ok_def)
    from rep have "mr_action rc = ''propose''" "mr_digest rc = dig"
      "load_receipt_result sv cat led (mr_kind rc) (mr_ref rc) = Inr (rp_review r)"
      unfolding rc replay_Some by auto
    with fits rc show ?thesis by (auto simp: led' receipt_fits_def receipt_result_candidate split: if_splits)
  next
    fix p assume none: "receipt_of led actor k = None" and new: "propose_new sv cat led fr actor k dig p = Inr (r, led')"
    obtain i created l1 l2 where m: "materialise cat led fr actor p = Inr (i, created, l1)"
      and ins: "insert_receipt l1 \<lparr>mr_actor = actor, mr_action = ''propose'', mr_key = k, mr_digest = dig,
        mr_kind = ''candidate'', mr_ref = i\<rparr> = Inr led'" and again: "load_review sv cat led' i = Some (rp_review r)"
      using new by (auto simp: propose_new_def rbind_Inr_iff read_back_Inr)
    have "receipt_of l1 actor k = None"
      using ins unfolding insert_receipt_Inr receipt_of_def find_None_iff by auto
    then have "receipt_of led' actor k = Some \<lparr>mr_actor = actor, mr_action = ''propose'', mr_key = k, mr_digest = dig,
        mr_kind = ''candidate'', mr_ref = i\<rparr>"
      using ins unfolding insert_receipt_Inr receipt_of_def by (simp add: find_append)
    with again show ?thesis by auto
  qed
  then obtain rc where rc: "receipt_of led' actor k = Some rc" "mr_action rc = ''propose''" "mr_kind rc = ''candidate''"
    "mr_digest rc = dig" "load_review sv cat led' (mr_ref rc) = Some (rp_review r)" by blast
  have "rv_id (rp_review r) = mr_ref rc" by (rule load_review_Some [OF ok' rc(5)])
  from that [OF args rc this] show thesis .
qed

text \<open>C4. After any further commands, the same proposal under the same key changes nothing and answers with the
  review it answered first, and no other arguments under that key can do anything else.\<close>

theorem repeated_proposal_is_replayed:
  assumes "reaches sv empty_ledger led0" "propose_review sv cat led0 fr actor key a b x y days = Inr (r, led1)" "reaches sv led1 led2"
  shows "(\<exists>w. propose_review sv cat led2 fr' actor key a b x y days = Inr (\<lparr>rp_review = w, rp_replayed = True, rp_created = False\<rparr>, led2)
      \<and> rv_id w = rv_id (rp_review r))
    \<and> (\<forall>cat' a' b' x' y' days' r' led3. propose_review sv cat' led2 fr' actor key a' b' x' y' days' = Inr (r', led3) \<longrightarrow>
         led3 = led2 \<and> rp_replayed r' \<and> rv_id (rp_review r') = rv_id (rp_review r))"
proof -
  note ok0 = reachable_ok [OF assms(1)]
  from propose_kept [OF assms(2) ok0] have ok1: "ledger_ok led1" ..
  from reviews.run_kept [OF assms(3) ok1] have ok2: "ledger_ok led2" and ext: "extends led1 led2" by simp_all
  obtain k ld rd lm rm dig rc where args: "idempotency_key key = Inr k" "canonical_uuid a = Some ld" "canonical_uuid b = Some rd"
    "canonical_uuid x = Some lm" "canonical_uuid y = Some rm" "digest sv (propose_payload ld rd lm rm days) = Inr dig"
    and rc: "receipt_of led1 actor k = Some rc" "mr_action rc = ''propose''" "mr_kind rc = ''candidate''" "mr_digest rc = dig"
      "load_review sv cat led1 (mr_ref rc) = Some (rp_review r)" "rv_id (rp_review r) = mr_ref rc"
    by (rule proposal_receipt [OF assms(2) ok0])
  note rc2 = extends_lookups(3) [OF ext rc(1)]
  obtain w where w: "load_review sv cat led2 (mr_ref rc) = Some w" "rv_id w = mr_ref rc"
    using load_review_extends [OF ok1 ok2 ext rc(5)] by blast
  have "replay_or_conflict sv cat led2 ''propose'' dig (receipt_of led2 actor k)
      = Inr (Some \<lparr>rp_review = w, rp_replayed = True, rp_created = False\<rparr>)"
    unfolding rc2 replay_Some rc(3) receipt_result_candidate by (simp add: w rc)
  then have "propose_review sv cat led2 fr' actor key a b x y days
      = Inr (\<lparr>rp_review = w, rp_replayed = True, rp_created = False\<rparr>, led2)"
    by (simp add: propose_review_def args uuid_field_def)
  moreover have "led3 = led2 \<and> rp_replayed r' \<and> rv_id (rp_review r') = mr_ref rc"
    if "propose_review sv cat' led2 fr' actor key a' b' x' y' days' = Inr (r', led3)" for cat' a' b' x' y' days' r' led3
  proof (rule propose_elim [OF that])
    fix k' ld' rd' lm' rm' dig'
    assume "idempotency_key key = Inr k'"
      and *: "(led3 = led2 \<and> replay_or_conflict sv cat' led2 ''propose'' dig' (receipt_of led2 actor k') = Inr (Some r'))
       \<or> (receipt_of led2 actor k' = None \<and> (\<exists>p. candidate_for_review sv cat' ld' rd' lm' rm' days' = Inr p
            \<and> propose_new sv cat' led2 fr' actor k' dig' p = Inr (r', led3)))"
    then have "k' = k" using args(1) by simp
    with * have same: "led3 = led2" and "replay_or_conflict sv cat' led2 ''propose'' dig' (Some rc) = Inr (Some r')"
      by (simp_all add: rc2)
    then obtain v where v: "load_review sv cat' led2 (mr_ref rc) = Some v" "r' = \<lparr>rp_review = v, rp_replayed = True, rp_created = False\<rparr>"
      unfolding replay_Some rc(3) receipt_result_candidate by blast
    have "rv_id v = mr_ref rc" by (rule load_review_Some [OF ok2 v(1)])
    with same v show ?thesis by simp
  qed
  ultimately show ?thesis using w(2) rc(6) by auto
qed

section \<open>When a decision is accepted\<close>

lemma valid_reason_cases:
  assumes "valid_reason decision reason_code"
  obtains "decision = ''confirmed''" "reason_code \<in> {''documented_counterpart'', ''documented_transfer'', ''reference_supported''}"
  | "decision = ''rejected''" "reason_code \<in> {''different_event'', ''timing_mismatch'', ''wrong_counterpart'', ''insufficient_evidence''}"
  using assms by (auto simp: valid_reason_def DECISION_REASONS_def split: if_splits)

lemma plain_json: "\<forall>c \<in> set s. json_char c = [c] \<Longrightarrow> json_string s = [chr_quote] @ s @ [chr_quote]"
  by (induction s) (auto simp: json_string_def)

lemma utf8_size_le: "utf8_size s \<le> 2 * length s"
  by (induction s) (auto simp: utf8_size_def)

lemma json_char_len: "length (json_char c) \<le> 6"
  by (simp add: json_char_def)

lemma json_string_len: "length (json_string s) \<le> 6 * length s + 2"
proof (induction s)
  case (Cons c s)
  then show ?case using json_char_len [of c] by (simp add: json_string_def)
qed (simp add: json_string_def)

lemma decision_audit:
  assumes "valid_reason decision reason_code" "au_id e \<notin> au_id ` set (lg_audits led)"
    and "au_detail e = [(''decision'', PStr decision), (''reason_code'', PStr reason_code)]"
  shows "record_audit led e = Inr (led\<lparr>lg_audits := lg_audits led @ [e]\<rparr>)"
proof -
  have len: "length decision \<le> 20" "length reason_code \<le> 40" using assms(1) by (auto elim: valid_reason_cases)
  have order: "sort_key fst [(''decision'', PStr decision), (''reason_code'', PStr reason_code)]
      = [(''decision'', PStr decision), (''reason_code'', PStr reason_code)]"
    by simp
  obtain t where t: "audit_payload (au_detail e) = Inr t"
    and "t = ''{'' @ json_string ''decision'' @ '': '' @ json_string decision @ '', '' @ json_string ''reason_code'' @ '': ''
      @ json_string reason_code @ ''}''"
    unfolding assms(3) audit_payload_def order by (simp add: dump_item_def)
  then have "length t \<le> 500"
    using json_string_len [of decision] json_string_len [of reason_code] json_string_len [of "''decision''"]
      json_string_len [of "''reason_code''"] len by simp
  then have "\<not> utf8_size t > MAX_AUDIT_DETAIL_BYTES"
    using utf8_size_le [of t] by (simp add: MAX_AUDIT_DETAIL_BYTES_def)
  then show ?thesis using t assms(2) by (simp add: record_audit_def)
qed

lemma decision_of_candidate: "decision_for led i = None \<longleftrightarrow> i \<notin> md_candidate ` set (lg_decisions led)"
  by (auto simp: decision_for_def find_None_iff)

text \<open>An undecided candidate holds no member, so what is taken is taken by others.\<close>

lemma members_taken_by_others:
  assumes "ledger_ok led" "decision_for led (mc_id c) = None"
  shows "confirmation_conflict led c \<longleftrightarrow> {mc_left c, mc_right c} \<inter> mm_movement ` set (lg_members led) \<noteq> {}"
proof -
  have "mm_candidate m \<noteq> mc_id c" if "m \<in> set (lg_members led)" for m
    using assms that unfolding ledger_ok_def decision_of_candidate by (metis (no_types, lifting))
  then show ?thesis by (auto simp: confirmation_conflict_def list_ex_iff intro: rev_image_eqI)
qed

definition new_decision :: "fresh \<Rightarrow> string \<Rightarrow> match_candidate \<Rightarrow> string \<Rightarrow> string \<Rightarrow> match_decision" where
  "new_decision fr actor c decision reason_code = \<lparr>md_id = fr_id fr, md_candidate = mc_id c, md_decision = decision,
     md_reason = reason_code, md_evidence = pair_evidence (mc_left c) (mc_right c), md_actor = actor, md_at = fr_now fr,
     md_audit = fr_audit fr\<rparr>"

text \<open>The insertion of a decision that finds its identifiers free, its period open and its actor known.\<close>

lemma insert_decision_outcome:
  assumes "ledger_ok led" "candidate_by_id led (mc_id c) = Some c" "decision_for led (mc_id c) = None"
    and "valid_reason decision reason_code" "decision = ''confirmed'' \<longrightarrow> actor \<noteq> mc_proposer c"
    and "fr_id fr \<notin> md_id ` set (lg_decisions led)" "actor \<in> fst ` set (ct_subjects cat)" "period_open cat c"
  shows "insert_decision cat led (new_decision fr actor c decision reason_code) =
    (if decision = ''confirmed'' \<and> confirmation_conflict led c then Inl (unique_violation ''pk_match_confirmation_member'')
     else Inr (led\<lparr>lg_decisions := lg_decisions led @ [new_decision fr actor c decision reason_code],
       lg_members := lg_members led @ members_of c (new_decision fr actor c decision reason_code)\<rparr>))"
proof -
  have c: "c \<in> set (lg_candidates led)" using candidate_by_id_Some [OF assms(2)] ..
  have "mc_left c \<noteq> mc_right c" using assms(1) c by (auto simp: ledger_ok_def candidate_checks_def)
  note facts = this assms(2,6-8) assms(3) [unfolded decision_of_candidate] members_taken_by_others [OF assms(1,3)]
  have known: "decision \<in> {''confirmed'', ''rejected''}" "reason_code \<in> set (concat (map snd DECISION_REASONS))"
    using assms(4) by (auto elim!: valid_reason_cases simp: DECISION_REASONS_def)
  have taken: "reserve_members l c d = Inl (unique_violation ''pk_match_confirmation_member'')"
    if "md_decision d = ''confirmed''" "{mc_left c, mc_right c} \<inter> mm_movement ` set (lg_members l) \<noteq> {}" for l d
    using that by (auto simp: reserve_members_def insert_member_def)
  show ?thesis
  proof (cases "decision = ''confirmed'' \<and> confirmation_conflict led c")
    case True
    then show ?thesis
      using facts known assms(5) taken [of "new_decision fr actor c decision reason_code"]
      by (simp add: insert_decision_def new_decision_def)
  next
    case False
    show ?thesis
      unfolding if_not_P [OF False] insert_decision_Inr
      using False facts known assms(5) by (intro exI [of _ c]) (auto simp: new_decision_def)
  qed
qed

lemma key_matches: "idempotency_key key = Inr k \<Longrightarrow> rx_match IDEMPOTENCY_KEY k"
  by (auto simp: idempotency_key_def Let_def split: if_splits)

lemma decide_digest: "\<exists>t. digest sv (decide_payload i decision reason_code) = Inr (sv_sha sv t)"
  by (simp add: digest_def decide_payload_def canonical_json_def) (rule exI, rule refl)

lemma decide_run:
  assumes "idempotency_key key = Inr k" "canonical_uuid i = Some cid" "valid_reason decision reason_code"
    "digest sv (decide_payload cid decision reason_code) = Inr dig" "receipt_of seen actor k = None" "load_review sv cat seen cid = Some v"
  shows "decide_review sv cat seen led fr actor key i decision reason_code = rbind (decision_guard v actor decision) (\<lambda>_.
     rbind (write_decision cat led fr actor k dig v decision reason_code)
       (read_back sv cat cid ''decided candidate cannot be read back''))"
  using assms by (simp add: decide_review_def uuid_field_def replay_or_conflict_def)

definition decided_ledger :: "review_ledger \<Rightarrow> fresh \<Rightarrow> string \<Rightarrow> string \<Rightarrow> string \<Rightarrow> match_candidate \<Rightarrow> string \<Rightarrow> string \<Rightarrow> review_ledger" where
  "decided_ledger led fr actor k dig c decision reason_code = led\<lparr>
     lg_audits := lg_audits led @ [audit_of fr actor (''match.'' @ decision_action decision) ''match_candidate'' (mc_id c)
       [(''decision'', PStr decision), (''reason_code'', PStr reason_code)]],
     lg_decisions := lg_decisions led @ [new_decision fr actor c decision reason_code],
     lg_members := lg_members led @ members_of c (new_decision fr actor c decision reason_code),
     lg_receipts := lg_receipts led @ [\<lparr>mr_actor = actor, mr_action = decision_action decision, mr_key = k, mr_digest = dig,
        mr_kind = ''decision'', mr_ref = fr_id fr\<rparr>]\<rparr>"

lemma write_decision_outcome:
  assumes "ledger_ok led" "candidate_by_id led (mc_id c) = Some c" "decision_for led (mc_id c) = None"
    and "valid_reason decision reason_code" "decision = ''confirmed'' \<longrightarrow> actor \<noteq> mc_proposer c"
    and "fr_id fr \<notin> md_id ` set (lg_decisions led)" "fr_audit fr \<notin> au_id ` set (lg_audits led)"
    and "actor \<in> fst ` set (ct_subjects cat)" "period_open cat c" "rx_match IDEMPOTENCY_KEY k" "digest_shape dig"
    and "receipt_of led actor k = None" "rv_id v = mc_id c" "rv_left v = mc_left c" "rv_right v = mc_right c"
  shows "write_decision cat led fr actor k dig v decision reason_code =
    (if decision = ''confirmed'' \<and> confirmation_conflict led c then Inl already_confirmed
     else Inr (decided_ledger led fr actor k dig c decision reason_code))"
proof -
  let ?e = "audit_of fr actor (''match.'' @ decision_action decision) ''match_candidate'' (mc_id c)
       [(''decision'', PStr decision), (''reason_code'', PStr reason_code)]"
  let ?l1 = "led\<lparr>lg_audits := lg_audits led @ [?e]\<rparr>" and ?d = "new_decision fr actor c decision reason_code"
  have audit: "record_audit led ?e = Inr ?l1"
    by (rule decision_audit [OF assms(4)]) (use assms(7) in \<open>simp_all add: audit_of_def\<close>)
  have ok1: "ledger_ok ?l1" using ledger_ok_audit [OF audit assms(1)] ..
  have same: "confirmation_conflict ?l1 c = confirmation_conflict led c" by (simp add: confirmation_conflict_def)
  have insert: "insert_decision cat ?l1 ?d = (if decision = ''confirmed'' \<and> confirmation_conflict led c
       then Inl (unique_violation ''pk_match_confirmation_member'')
     else Inr (?l1\<lparr>lg_decisions := lg_decisions led @ [?d], lg_members := lg_members led @ members_of c ?d\<rparr>))"
    using insert_decision_outcome [OF ok1, of c decision reason_code actor fr cat] assms(2-6,8,9)
    unfolding same by (simp add: candidate_by_id_def decision_for_def)
  have d: "\<lparr>md_id = fr_id fr, md_candidate = rv_id v, md_decision = decision, md_reason = reason_code,
          md_evidence = pair_evidence (rv_left v) (rv_right v), md_actor = actor, md_at = fr_now fr, md_audit = fr_audit fr\<rparr> = ?d"
    by (simp add: new_decision_def assms(13-15))
  have action: "decision_action decision = ''confirm'' \<and> decision = ''confirmed'' \<or> decision_action decision = ''reject'' \<and> decision = ''rejected''"
    using assms(4) by (rule valid_reason_cases) (simp_all add: decision_action_def)
  have none: "(actor, k) \<notin> (\<lambda>x. (mr_actor x, mr_key x)) ` set (lg_receipts led)"
    using assms(12) by (auto simp: receipt_of_def find_None_iff)
  have fresh: "md_id x \<noteq> fr_id fr" if "x \<in> set (lg_decisions led)" for x using assms(6) that by (metis image_eqI)
  have receipt: "insert_receipt (?l1\<lparr>lg_decisions := lg_decisions led @ [?d], lg_members := lg_members led @ members_of c ?d\<rparr>)
      \<lparr>mr_actor = actor, mr_action = decision_action decision, mr_key = k, mr_digest = dig, mr_kind = ''decision'', mr_ref = fr_id fr\<rparr>
      = Inr (decided_ledger led fr actor k dig c decision reason_code)"
    unfolding insert_receipt_Inr decided_ledger_def
    using action none assms(10,11) fresh by (auto simp: receipt_fits_def new_decision_def)
  show ?thesis
  proof (cases "decision = ''confirmed'' \<and> confirmation_conflict led c")
    case True
    show ?thesis
      unfolding write_decision_def d unfolding assms(13) audit rbind_simps insert if_P [OF True] sum.case
      by (simp add: unique_violation_def)
  next
    case False
    show ?thesis
      unfolding write_decision_def d unfolding assms(13) audit rbind_simps insert if_not_P [OF False] receipt sum.case
      by (rule refl)
  qed
qed

text \<open>
  The surroundings of a decision: its candidate is stored with the rows that its review joins, the actor is a known
  subject, the identifiers the database makes are not in use and a digest has the shape of SHA-256. None of this
  is a check of \<open>decide_review\<close>; what it and the triggers check is stated by the theorems.
\<close>

definition decidable_now :: "services \<Rightarrow> catalog \<Rightarrow> review_ledger \<Rightarrow> fresh \<Rightarrow> string \<Rightarrow> match_candidate \<Rightarrow> bool" where
  "decidable_now sv cat led fr actor c = (candidate_by_id led (mc_id c) = Some c \<and> review_row_of cat led c \<noteq> []
     \<and> actor \<in> fst ` set (ct_subjects cat) \<and> fr_id fr \<notin> md_id ` set (lg_decisions led)
     \<and> fr_audit fr \<notin> au_id ` set (lg_audits led) \<and> (\<forall>t. digest_shape (sv_sha sv t)))"

lemma load_review_now:
  assumes "ledger_ok led" "decidable_now sv cat led fr actor c"
  obtains v where "load_review sv cat led (mc_id c) = Some v" "rv_id v = mc_id c" "rv_left v = mc_left c" "rv_right v = mc_right c"
    "rv_proposer v = mc_proposer c" "(rv_decision v = None) = (decision_for led (mc_id c) = None)"
    "rv_conflict v = confirmation_conflict led c"
proof -
  obtain v where v: "load_review sv cat led (mc_id c) = Some v"
    using assms by (cases "review_row_of cat led c") (auto simp: decidable_now_def load_review_eq)
  have c: "candidate_by_id led (mc_id c) = Some c" using assms(2) by (simp add: decidable_now_def)
  show thesis
    by (rule load_review_Some [OF assms(1) v], rule that [OF v]) (use c in simp_all)
qed

lemma write_decision_now:
  assumes "ledger_ok led" "decidable_now sv cat led fr actor c" "decision_for led (mc_id c) = None" "valid_reason decision reason_code"
    "decision = ''confirmed'' \<longrightarrow> actor \<noteq> mc_proposer c" "rx_match IDEMPOTENCY_KEY k" "receipt_of led actor k = None"
    "rv_id v = mc_id c" "rv_left v = mc_left c" "rv_right v = mc_right c" "period_open cat c"
  shows "write_decision cat led fr actor k (sv_sha sv t) v decision reason_code =
    (if decision = ''confirmed'' \<and> confirmation_conflict led c then Inl already_confirmed
     else Inr (decided_ledger led fr actor k (sv_sha sv t) c decision reason_code))"
proof -
  have now: "candidate_by_id led (mc_id c) = Some c" "fr_id fr \<notin> md_id ` set (lg_decisions led)"
    "fr_audit fr \<notin> au_id ` set (lg_audits led)" "actor \<in> fst ` set (ct_subjects cat)" "digest_shape (sv_sha sv t)"
    using assms(2) by (simp_all add: decidable_now_def)
  show ?thesis
    by (rule write_decision_outcome [OF assms(1) now(1) assms(3-5) now(2-4) assms(11,6) now(5) assms(7-10)])
qed

lemma decided_read_back:
  assumes "ledger_ok led" "ledger_ok (decided_ledger led fr actor k dig c decision reason_code)" "decidable_now sv cat led fr actor c"
    "decision_for led (mc_id c) = None"
  obtains w d where "load_review sv cat (decided_ledger led fr actor k dig c decision reason_code) (mc_id c) = Some w"
    "rv_decision w = Some d" "rd_decision d = decision" "rd_reason d = reason_code" "rd_actor d = actor" "rd_id d = fr_id fr"
proof -
  let ?l = "decided_ledger led fr actor k dig c decision reason_code"
  have c: "candidate_by_id ?l (mc_id c) = Some c" and d: "decision_for ?l (mc_id c) = Some (new_decision fr actor c decision reason_code)"
    using assms(3,4) by (simp_all add: decidable_now_def decided_ledger_def candidate_by_id_def decision_for_def find_append new_decision_def)
  have "review_row_of cat ?l c \<noteq> []" using assms(3) review_row_empty [of cat ?l c led] by (simp add: decidable_now_def)
  then obtain row where row: "review_row_of cat ?l c = [row]" "row_decision row = Some (new_decision fr actor c decision reason_code)"
    by (rule_tac review_row_cases [of cat ?l c]) (simp_all add: row_decision_def d)
  have "load_review sv cat ?l (mc_id c) = Some (review_from_row sv row)"
    by (simp add: load_review_eq [OF assms(2)] c row(1))
  from that [OF this] row(2) show thesis
    by (cases row) (simp add: review_from_row_def row_decision_def Let_def new_decision_def)
qed

lemma decision_outcome:
  assumes "ledger_ok led" and "decidable_now sv cat led fr actor c"
    and "idempotency_key key = Inr k" "receipt_of led actor k = None" "canonical_uuid i = Some (mc_id c)"
    and "valid_reason decision reason_code" "decision_for led (mc_id c) = None"
    and "decision = ''confirmed'' \<longrightarrow> actor \<noteq> mc_proposer c \<and> \<not> confirmation_conflict led c" "period_open cat c"
  obtains w d dig where "decide_review sv cat led led fr actor key i decision reason_code
      = Inr (\<lparr>rp_review = w, rp_replayed = False, rp_created = True\<rparr>, decided_ledger led fr actor k dig c decision reason_code)"
    "extends led (decided_ledger led fr actor k dig c decision reason_code)"
    "rv_decision w = Some d" "rd_decision d = decision" "rd_reason d = reason_code" "rd_actor d = actor"
proof -
  obtain v where v: "load_review sv cat led (mc_id c) = Some v" "rv_id v = mc_id c" "rv_left v = mc_left c" "rv_right v = mc_right c"
    "rv_proposer v = mc_proposer c" "(rv_decision v = None) = (decision_for led (mc_id c) = None)"
    "rv_conflict v = confirmation_conflict led c"
    by (rule load_review_now [OF assms(1,2)])
  obtain t where dig: "digest sv (decide_payload (mc_id c) decision reason_code) = Inr (sv_sha sv t)" using decide_digest by blast
  note run = decide_run [OF assms(3,5,6) dig assms(4) v(1), of led fr]
  let ?l = "decided_ledger led fr actor k (sv_sha sv t) c decision reason_code"
  have guard: "decision_guard v actor decision = Inr ()" using assms(7,8) v by (auto simp: decision_guard_def)
  have "write_decision cat led fr actor k (sv_sha sv t) v decision reason_code
      = (if decision = ''confirmed'' \<and> confirmation_conflict led c then Inl already_confirmed else Inr ?l)"
    by (rule write_decision_now [OF assms(1,2,7,6) _ key_matches [OF assms(3)] assms(4) v(2-4) assms(9)]) (use assms(8) in simp)
  then have wrote: "write_decision cat led fr actor k (sv_sha sv t) v decision reason_code = Inr ?l" using assms(8) by auto
  from write_decision_kept [OF wrote assms(6,1)] have ok': "ledger_ok ?l" and ext: "extends led ?l" by simp_all
  obtain w d where w: "load_review sv cat ?l (mc_id c) = Some w" "rv_decision w = Some d" "rd_decision d = decision"
    "rd_reason d = reason_code" "rd_actor d = actor"
    by (rule decided_read_back [OF assms(1) ok' assms(2,7)])
  have "decide_review sv cat led led fr actor key i decision reason_code
      = Inr (\<lparr>rp_review = w, rp_replayed = False, rp_created = True\<rparr>, ?l)"
    unfolding run guard rbind_simps wrote by (simp add: read_back_def w(1))
  from that [OF this ext w(2-5)] show thesis .
qed

text \<open>What a write that succeeds has found in place.\<close>

lemma written_needs:
  assumes "write_decision cat led fr actor key dig v decision reason_code = Inr led'" "candidate_by_id led (rv_id v) = Some c"
  shows "period_open cat c \<and> decision_for led (rv_id v) = None
    \<and> (decision = ''confirmed'' \<longrightarrow> {mc_left c, mc_right c} \<inter> mm_movement ` set (lg_members led) = {})"
proof -
  obtain l1 l2 where "record_audit led (audit_of fr actor (''match.'' @ decision_action decision) ''match_candidate'' (rv_id v)
       [(''decision'', PStr decision), (''reason_code'', PStr reason_code)]) = Inr l1"
    and insert: "insert_decision cat l1 \<lparr>md_id = fr_id fr, md_candidate = rv_id v, md_decision = decision, md_reason = reason_code,
          md_evidence = pair_evidence (rv_left v) (rv_right v), md_actor = actor, md_at = fr_now fr, md_audit = fr_audit fr\<rparr> = Inr l2"
    using assms(1) unfolding write_decision_Inr by blast
  from record_audit_Inr [OF this(1)] have "candidate_by_id l1 (rv_id v) = Some c" "lg_decisions l1 = lg_decisions led" "lg_members l1 = lg_members led"
    using assms(2) by (simp_all add: candidate_by_id_def)
  then show ?thesis using insert unfolding insert_decision_Inr decision_of_candidate by auto
qed

text \<open>C3. A decision with a new key is accepted exactly when its reason fits, the candidate is undecided, no active close
  covers its movements and, to confirm, someone else proposed it and neither movement is confirmed elsewhere;
  it is then what the reply shows.\<close>

theorem decision_is_accepted_exactly_when:
  assumes "reaches sv empty_ledger led" and "decidable_now sv cat led fr actor c"
    and "idempotency_key key = Inr k" "receipt_of led actor k = None" "canonical_uuid i = Some (mc_id c)"
  shows "is_ok (decide_review sv cat led led fr actor key i decision reason_code)
      = (valid_reason decision reason_code \<and> decision_for led (mc_id c) = None \<and> period_open cat c
         \<and> (decision = ''confirmed'' \<longrightarrow> actor \<noteq> mc_proposer c \<and> \<not> confirmation_conflict led c))
    \<and> (\<forall>r led'. decide_review sv cat led led fr actor key i decision reason_code = Inr (r, led') \<longrightarrow>
         \<not> rp_replayed r \<and> extends led led' \<and> (\<exists>d. rv_decision (rp_review r) = Some d \<and> rd_decision d = decision \<and> rd_reason d = reason_code
           \<and> rd_actor d = actor))"
proof (cases "valid_reason decision reason_code")
  case False
  then show ?thesis using assms(5) by (simp add: decide_review_def uuid_field_def)
next
  case True
  note ok = reachable_ok [OF assms(1)]
  obtain v where v: "load_review sv cat led (mc_id c) = Some v" "rv_id v = mc_id c" "rv_left v = mc_left c" "rv_right v = mc_right c"
    "rv_proposer v = mc_proposer c" "(rv_decision v = None) = (decision_for led (mc_id c) = None)"
    "rv_conflict v = confirmation_conflict led c"
    by (rule load_review_now [OF ok assms(2)])
  obtain t where dig: "digest sv (decide_payload (mc_id c) decision reason_code) = Inr (sv_sha sv t)" using decide_digest by blast
  note run = decide_run [OF assms(3,5) True dig assms(4) v(1), of led fr]
  have c: "candidate_by_id led (rv_id v) = Some c" using assms(2) by (simp add: decidable_now_def v(2))
  show ?thesis
  proof (cases "decision_for led (mc_id c) = None \<and> period_open cat c
      \<and> (decision = ''confirmed'' \<longrightarrow> actor \<noteq> mc_proposer c \<and> \<not> confirmation_conflict led c)")
    case False
    then have "decision_guard v actor decision \<noteq> Inr () \<or> \<not> period_open cat c"
      using v by (auto simp: decision_guard_def split: if_splits)
    then consider e where "decision_guard v actor decision = Inl e" | "\<not> period_open cat c"
      by (cases "decision_guard v actor decision") auto
    then have "\<exists>e. decide_review sv cat led led fr actor key i decision reason_code = Inl e"
    proof cases
      case 2
      then obtain e where "write_decision cat led fr actor k (sv_sha sv t) v decision reason_code = Inl e"
        using written_needs [OF _ c] by (cases "write_decision cat led fr actor k (sv_sha sv t) v decision reason_code") blast+
      then show ?thesis unfolding run by (cases "decision_guard v actor decision") simp_all
    qed (simp add: run)
    then show ?thesis using False by auto
  next
    case accepted: True
    obtain w d dig where *: "decide_review sv cat led led fr actor key i decision reason_code
        = Inr (\<lparr>rp_review = w, rp_replayed = False, rp_created = True\<rparr>, decided_ledger led fr actor k dig c decision reason_code)"
      "extends led (decided_ledger led fr actor k dig c decision reason_code)"
      "rv_decision w = Some d" "rd_decision d = decision" "rd_reason d = reason_code" "rd_actor d = actor"
      by (rule decision_outcome [OF ok assms(2-5) True]) (use accepted in simp_all)
    then show ?thesis using accepted True by auto
  qed
qed

text \<open>C2. A decision that read its review in an older state of the ledger than the one it writes to is accepted exactly
  when one that read the current state is, with the same reply and the same new ledger. It is refused with
  the same error, too, when the candidate is undecided, its period open and its surroundings in place:
  a confirmation lost to another one in between is the same refusal. Otherwise the database may be the one to refuse.\<close>

theorem stale_reads_do_not_matter:
  assumes "reaches sv empty_ledger seen" "reaches sv seen led" "candidate_by_id seen (mc_id c) = Some c"
    and "idempotency_key key = Inr k" "receipt_of led actor k = None" "canonical_uuid i = Some (mc_id c)"
  shows "case (decide_review sv cat seen led fr actor key i decision reason_code,
      decide_review sv cat led led fr actor key i decision reason_code) of
      (Inr stale, Inr current) \<Rightarrow> stale = current
    | (Inl stale, Inl current) \<Rightarrow>
        decision_for led (mc_id c) = None \<and> period_open cat c \<and> decidable_now sv cat led fr actor c \<longrightarrow> stale = current
    | _ \<Rightarrow> False"
proof (cases "valid_reason decision reason_code")
  case False
  then show ?thesis using assms(6) by (simp add: decide_review_def uuid_field_def)
next
  case True
  note ok = reachable_ok [OF assms(1)]
  from reviews.run_kept [OF assms(2) ok] have ok': "ledger_ok led" and ext: "extends seen led" by simp_all
  note c' = extends_lookups(1) [OF ext assms(3)]
  have none: "receipt_of seen actor k = None" using extends_lookups(3) [OF ext] assms(5) by (cases "receipt_of seen actor k") auto
  obtain t where dig: "digest sv (decide_payload (mc_id c) decision reason_code) = Inr (sv_sha sv t)" using decide_digest by blast
  show ?thesis
  proof (cases "review_row_of cat seen c")
    case Nil
    then have "load_review sv cat seen (mc_id c) = None" "load_review sv cat led (mc_id c) = None"
      using review_row_empty [of cat seen c led] by (simp_all add: load_review_eq [OF ok] load_review_eq [OF ok'] assms(3) c')
    then show ?thesis
      using dig none True assms(4-6) by (simp add: decide_review_def uuid_field_def replay_or_conflict_def)
  next
    case (Cons row rows)
    then have "review_row_of cat led c \<noteq> []" using review_row_empty [of cat seen c led] by simp
    then obtain s v where s: "load_review sv cat seen (mc_id c) = Some s" and v: "load_review sv cat led (mc_id c) = Some v"
      using Cons by (cases "review_row_of cat led c") (auto simp: load_review_eq [OF ok] load_review_eq [OF ok'] assms(3) c')
    have sv: "rv_id s = mc_id c" "rv_left s = mc_left c" "rv_right s = mc_right c" "rv_proposer s = mc_proposer c"
      "(rv_decision s = None) = (decision_for seen (mc_id c) = None)" "rv_conflict s = confirmation_conflict seen c"
      by (rule load_review_Some [OF ok s], use assms(3) in simp)+
    have vv: "rv_id v = mc_id c" "rv_left v = mc_left c" "rv_right v = mc_right c" "rv_proposer v = mc_proposer c"
      "(rv_decision v = None) = (decision_for led (mc_id c) = None)" "rv_conflict v = confirmation_conflict led c"
      by (rule load_review_Some [OF ok' v], use c' in simp)+
    let ?W = "write_decision cat led fr actor k (sv_sha sv t) v decision reason_code"
    have "write_decision cat led fr actor k (sv_sha sv t) s decision reason_code = ?W"
      unfolding write_decision_def sv(1-3) vv(1-3) by (rule refl)
    then have stale: "decide_review sv cat seen led fr actor key i decision reason_code = rbind (decision_guard s actor decision) (\<lambda>_.
        rbind ?W (read_back sv cat (mc_id c) ''decided candidate cannot be read back''))"
      using decide_run [OF assms(4,6) True dig none s, of led fr] by simp
    note current = decide_run [OF assms(4,6) True dig assms(5) v, of led fr]
    have decided: "decision_for seen (mc_id c) \<noteq> None \<Longrightarrow> decision_for led (mc_id c) \<noteq> None"
      using extends_lookups(2) [OF ext] by (cases "decision_for seen (mc_id c)") auto
    have grows: "confirmation_conflict seen c \<Longrightarrow> confirmation_conflict led c"
      using ext by (auto simp: confirmation_conflict_def list_ex_iff extends_def prefix_def)
    show ?thesis
    proof (cases "decision_guard s actor decision = decision_guard v actor decision")
      case True
      then show ?thesis unfolding stale current by (auto split: sum.split)
    next
      case False
      then have late: "decision_for led (mc_id c) \<noteq> None \<or> decision = ''confirmed'' \<and> confirmation_conflict led c"
        and gv: "\<exists>e. decision_guard v actor decision = Inl e"
        using sv vv decided grows by (auto simp: decision_guard_def split: if_splits)
      have "\<not> (\<exists>l. ?W = Inr l)"
        using written_needs [of cat led fr actor k "sv_sha sv t" v decision reason_code _ c] late c' members_taken_by_others [OF ok', of c]
        by (auto simp: vv(1))
      then obtain e where e: "?W = Inl e" by (cases ?W) auto
      have same: "stale = current" if "decision_for led (mc_id c) = None" "period_open cat c" "decidable_now sv cat led fr actor c"
        "decide_review sv cat seen led fr actor key i decision reason_code = Inl stale"
        "decide_review sv cat led led fr actor key i decision reason_code = Inl current" for stale current
      proof -
        have lost: "decision = ''confirmed''" "confirmation_conflict led c" "rv_decision s = None" "rv_decision v = None"
          using late that(1) sv(5) vv(5) decided by blast+
        then have "actor \<noteq> mc_proposer c" using False sv(4) vv(4) by (auto simp: decision_guard_def)
        then have "?W = Inl already_confirmed"
          using write_decision_now [OF ok' that(3,1) \<open>valid_reason decision reason_code\<close> _ key_matches [OF assms(4)] assms(5) vv(1-3) that(2)] lost
          by simp
        then show ?thesis
          using that(4,5) lost sv(4,6) vv(4,6) unfolding stale current by (auto simp: decision_guard_def split: if_splits)
      qed
      from gv obtain e' where "decide_review sv cat led led fr actor key i decision reason_code = Inl e'" unfolding current by auto
      moreover obtain e'' where "decide_review sv cat seen led fr actor key i decision reason_code = Inl e''"
        unfolding stale e by (cases "decision_guard s actor decision") auto
      ultimately show ?thesis using same by simp
    qed
  qed
qed

section \<open>When a proposal is accepted\<close>

lemma idempotency_key_iff:
  "idempotency_key value = Inr k \<longleftrightarrow> k = py_strip value \<and> list_all key_char k \<and> 16 \<le> length k \<and> length k \<le> 128"
proof -
  have "in_lang s IDEMPOTENCY_KEY \<longleftrightarrow> list_all key_char s \<and> 16 \<le> length s \<and> length s \<le> 128" for s
    unfolding IDEMPOTENCY_KEY_def by (rule in_lang_class_range) simp
  then show ?thesis by (auto simp: idempotency_key_def Let_def rx_match_in_lang)
qed

lemma propose_digest: "\<exists>t. digest sv (propose_payload a b x y days) = Inr (sv_sha sv t)"
  by (simp add: digest_def propose_payload_def canonical_json_def) (rule exI, rule refl)

lemma proposal_audit:
  assumes "au_id e \<notin> au_id ` set (lg_audits led)" "au_detail e = [(''rule_version'', PStr REVIEW_RULE_VERSION)]"
  shows "record_audit led e = Inr (led\<lparr>lg_audits := lg_audits led @ [e]\<rparr>)"
proof -
  have "audit_payload (au_detail e) = Inr (''{'' @ json_string ''rule_version'' @ '': '' @ json_string REVIEW_RULE_VERSION @ ''}'')"
    by (simp add: assms(2) audit_payload_def dump_item_def)
  moreover have "length (''{'' @ json_string ''rule_version'' @ '': '' @ json_string REVIEW_RULE_VERSION @ ''}'') \<le> 500"
    using json_string_len [of "''rule_version''"] json_string_len [of REVIEW_RULE_VERSION] by (simp add: REVIEW_RULE_VERSION_def)
  ultimately show ?thesis
    using utf8_size_le [of "''{'' @ json_string ''rule_version'' @ '': '' @ json_string REVIEW_RULE_VERSION @ ''}''"] assms(1)
    by (simp only: record_audit_def rbind_simps MAX_AUDIT_DETAIL_BYTES_def) simp
qed

lemma sorted_set_pair_length: "length (sorted_set [a, b]) \<in> {1, 2}"
  by (cases "a = b") (simp_all add: sorted_set_def)

text \<open>What the query accepts passes the constraints of \<open>match_candidate\<close>.\<close>

lemma eligible_record_checks:
  assumes "distinct (map m_id (ct_movements cat))" "validated (review_query a b days) = Inr (review_query a b days)"
    and "reviewable cat a b x y days l r" "p = eligible_record days l r"
  shows "candidate_checks (candidate_row fr actor p)"
proof -
  have lr: "l \<in> set (ct_movements cat)" "r \<in> set (ct_movements cat)" "m_direction r \<noteq> m_direction l" "date_distance l r \<le> days"
    using assms(3) by (auto simp: reviewable_def listed_pair_def exact_pair_def review_query_def)
  have "m_id l \<noteq> m_id r" using distinct_ids [OF assms(1) lr(1,2)] lr(3) by auto
  then have "min (m_id l) (m_id r) < max (m_id l) (m_id r)" by (auto simp: min_def max_def)
  moreover have "0 \<le> days" "days \<le> 31" using assms(2) by (auto simp: validated_def review_query_def MAX_DATE_WINDOW_DAYS_def split: if_splits)
  moreover have "0 \<le> date_distance l r" by (simp add: date_distance_def)
  moreover have "length (signals_of mt) \<in> {5, 6}" "set (signals_of mt) \<subseteq> set (RULES @ [''same_normalised_reference''])" for mt
    by (auto simp: signals_of_def RULES_def)
  ultimately show ?thesis
    using lr(4) sorted_set_pair_length [of "m_release l" "m_release r"] sorted_set_pair_length [of "m_schema l" "m_schema r"]
    unfolding assms(4) candidate_checks_def candidate_row_def eligible_record_def by simp
qed

definition proposable_now :: "services \<Rightarrow> catalog \<Rightarrow> review_ledger \<Rightarrow> fresh \<Rightarrow> string \<Rightarrow> bool" where
  "proposable_now sv cat led fr actor = (distinct (map m_id (ct_movements cat)) \<and> actor \<in> fst ` set (ct_subjects cat)
     \<and> fr_id fr \<notin> mc_id ` set (lg_candidates led) \<and> fr_audit fr \<notin> au_id ` set (lg_audits led)
     \<and> (\<forall>t. digest_shape (sv_sha sv t)) \<and> (\<forall>c \<in> set (lg_candidates led). review_row_of cat led c \<noteq> []))"

definition named_pair :: "eligible_pair \<Rightarrow> string \<times> string \<times> string" where
  "named_pair p = (REVIEW_RULE_VERSION, ep_left p, ep_right p)"

lemma materialise_outcome:
  assumes "ledger_ok led" "proposable_now sv cat led fr actor" "candidate_for_review sv cat ld rd lm rm days = Inr p"
  obtains c led' where "materialise cat led fr actor p = Inr (mc_id c, named_pair p \<notin> pair_of ` set (lg_candidates led), led')"
    "ledger_ok led'" "candidate_by_id led' (mc_id c) = Some c" "pair_of c = named_pair p" "review_row_of cat led' c \<noteq> []"
    "lg_receipts led' = lg_receipts led"
proof (cases "find (\<lambda>c. pair_of c = (REVIEW_RULE_VERSION, ep_left p, ep_right p)) (lg_candidates led)")
  case (Some c)
  then have c: "c \<in> set (lg_candidates led)" "pair_of c = named_pair p" using find_SomeD [OF Some] by (simp_all add: named_pair_def)
  then have "named_pair p \<in> pair_of ` set (lg_candidates led)" by (metis image_eqI)
  moreover have "candidate_by_id led (mc_id c) = Some c"
    unfolding candidate_by_id_def
    by (subst find_unique_iff) (use same_row [of mc_id "lg_candidates led"] assms(1) c in \<open>auto simp: ledger_ok_def\<close>)
  ultimately show ?thesis
    using that [of c led] Some assms(1,2) c by (simp add: materialise_def proposable_now_def)
next
  case None
  then have new: "named_pair p \<notin> pair_of ` set (lg_candidates led)" by (auto simp: find_None_iff named_pair_def)
  let ?c = "candidate_row fr actor p"
  let ?e = "audit_of fr actor ''match.propose'' ''match_candidate'' (fr_id fr) [(''rule_version'', PStr REVIEW_RULE_VERSION)]"
  let ?l1 = "led\<lparr>lg_audits := lg_audits led @ [?e]\<rparr>"
  let ?l2 = "?l1\<lparr>lg_candidates := lg_candidates led @ [?c]\<rparr>"
  obtain l r where valid: "validated (review_query ld rd days) = Inr (review_query ld rd days)"
    and lr: "reviewable cat ld rd lm rm days l r" "p = eligible_record days l r"
    using assms(2,3) candidate_for_review_iff by (auto simp: proposable_now_def)
  have uniq: "distinct (map m_id (ct_movements cat))" using assms(2) by (simp add: proposable_now_def)
  have id: "mc_id ?c = fr_id fr" "pair_of ?c = named_pair p" "mc_proposer ?c = actor" "mc_left ?c = ep_left p" "mc_right ?c = ep_right p"
    by (simp_all add: candidate_row_def pair_of_def named_pair_def)
  have ids: "{ep_left p, ep_right p} = {m_id l, m_id r}" by (auto simp: lr(2) eligible_record_def min_def max_def)
  have "l \<in> set (ct_movements cat)" "r \<in> set (ct_movements cat)" using lr(1) by (simp_all add: reviewable_def)
  then have "movement_by_id cat i \<noteq> None" if "i \<in> {ep_left p, ep_right p}" for i
    using that unfolding ids by (auto simp: movement_by_id_def find_None_iff)
  then have moves: "movement_by_id cat (ep_left p) \<noteq> None" "movement_by_id cat (ep_right p) \<noteq> None" by auto
  have audit: "record_audit led ?e = Inr ?l1"
    by (rule proposal_audit) (use assms(2) in \<open>simp_all add: audit_of_def proposable_now_def\<close>)
  have ins: "insert_candidate cat ?l1 ?c = Inr ?l2"
    unfolding insert_candidate_Inr id
    using eligible_record_checks [OF uniq valid lr] moves new assms(2) by (simp add: proposable_now_def)
  have "map_of (ct_subjects cat) actor \<noteq> None" using assms(2) by (auto simp: proposable_now_def map_of_eq_None_iff)
  then have "review_row_of cat ?l2 ?c \<noteq> []" using moves id by (auto simp: review_row_of_def)
  moreover have "find (\<lambda>c. mc_id c = fr_id fr) (lg_candidates led) = None"
    using assms(2) unfolding find_None_iff proposable_now_def by (metis image_eqI)
  then have "candidate_by_id ?l2 (mc_id ?c) = Some ?c"
    by (simp add: candidate_by_id_def find_append id)
  moreover have "ledger_ok ?l2"
    using ledger_ok_candidate [OF ins] ledger_ok_audit [OF audit assms(1)] by blast
  moreover have "materialise cat led fr actor p = Inr (mc_id ?c, named_pair p \<notin> pair_of ` set (lg_candidates led), ?l2)"
    unfolding materialise_def None option.case audit rbind_simps ins using new by (simp add: id)
  ultimately show ?thesis using that [of ?c ?l2] id(2) by simp
qed

lemma proposal_outcome:
  assumes "ledger_ok led" "proposable_now sv cat led fr actor"
    and "canonical_uuid a = Some ld" "canonical_uuid b = Some rd" "canonical_uuid x = Some lm" "canonical_uuid y = Some rm"
    and "candidate_for_review sv cat ld rd lm rm days = Inr p" "idempotency_key key = Inr k" "receipt_of led actor k = None"
  shows "\<exists>r led' c. propose_review sv cat led fr actor key a b x y days = Inr (r, led') \<and> \<not> rp_replayed r
    \<and> rp_created r = (named_pair p \<notin> pair_of ` set (lg_candidates led))
    \<and> filter (\<lambda>c. pair_of c = named_pair p) (lg_candidates led') = [c]
    \<and> rv_id (rp_review r) = mc_id c \<and> rv_left (rp_review r) = ep_left p \<and> rv_right (rp_review r) = ep_right p"
proof -
  note ok = assms(1)
  obtain t where dig: "digest sv (propose_payload ld rd lm rm days) = Inr (sv_sha sv t)" using propose_digest by blast
  obtain c l1 where m: "materialise cat led fr actor p = Inr (mc_id c, named_pair p \<notin> pair_of ` set (lg_candidates led), l1)"
    and l1: "ledger_ok l1" "candidate_by_id l1 (mc_id c) = Some c" "pair_of c = named_pair p" "review_row_of cat l1 c \<noteq> []"
      "lg_receipts l1 = lg_receipts led"
    by (rule materialise_outcome [OF ok assms(2,7)])
  note c = candidate_by_id_Some [OF l1(2)]
  let ?rc = "\<lparr>mr_actor = actor, mr_action = ''propose'', mr_key = k, mr_digest = sv_sha sv t, mr_kind = ''candidate'', mr_ref = mc_id c\<rparr>"
  let ?l2 = "l1\<lparr>lg_receipts := lg_receipts led @ [?rc]\<rparr>"
  have none: "(actor, k) \<notin> (\<lambda>x. (mr_actor x, mr_key x)) ` set (lg_receipts led)"
    using assms(9) by (auto simp: receipt_of_def find_None_iff)
  have ins: "insert_receipt l1 ?rc = Inr ?l2"
    unfolding insert_receipt_Inr l1(5)
    using none c key_matches [OF assms(8)] assms(2) by (simp add: receipt_fits_def proposable_now_def image_iff) metis
  have ok2: "ledger_ok ?l2" using ledger_ok_receipt [OF ins l1(1)] ..
  have c2: "candidate_by_id ?l2 (mc_id c) = Some c" using l1(2) by (simp add: candidate_by_id_def)
  have "review_row_of cat ?l2 c \<noteq> []" using l1(4) review_row_empty [of cat ?l2 c l1] by simp
  then obtain w where w: "load_review sv cat ?l2 (mc_id c) = Some w"
    by (cases "review_row_of cat ?l2 c") (auto simp: load_review_eq [OF ok2] c2)
  have view: "rv_id w = mc_id c" "rv_left w = mc_left c" "rv_right w = mc_right c"
    by (rule load_review_Some [OF ok2 w], use c2 in simp)+
  let ?r = "\<lparr>rp_review = w, rp_replayed = False, rp_created = named_pair p \<notin> pair_of ` set (lg_candidates led)\<rparr>"
  have "propose_new sv cat led fr actor k (sv_sha sv t) p = Inr (?r, ?l2)"
    by (simp add: propose_new_def m ins read_back_def w)
  then have "propose_review sv cat led fr actor key a b x y days = Inr (?r, ?l2)"
    by (simp add: propose_review_def assms(3-9) uuid_field_def dig replay_or_conflict_def)
  moreover have "filter (\<lambda>z. pair_of z = named_pair p) (lg_candidates ?l2) = [c]"
    using filter_same_row [of pair_of "lg_candidates l1" c] c l1(1,3) by (simp add: ledger_ok_def)
  moreover have "mc_left c = ep_left p" "mc_right c = ep_right p" using l1(3) by (simp_all add: pair_of_def named_pair_def)
  ultimately show ?thesis using view by (intro exI [of _ ?r] exI [of _ ?l2] exI [of _ c]) simp
qed

text \<open>C5. Proposing an eligible pair always succeeds: the database accepts what the query accepts, the review names
  the ordered pair, and however often the pair is proposed there is one candidate for it.\<close>

theorem eligible_pairs_get_one_review:
  assumes "reaches sv empty_ledger led" "proposable_now sv cat led fr actor"
    and "canonical_uuid a = Some ld" "canonical_uuid b = Some rd" "canonical_uuid x = Some lm" "canonical_uuid y = Some rm"
    and "candidate_for_review sv cat ld rd lm rm days = Inr p" "idempotency_key key = Inr k" "receipt_of led actor k = None"
  shows "\<exists>r led' c. propose_review sv cat led fr actor key a b x y days = Inr (r, led') \<and> \<not> rp_replayed r
    \<and> rp_created r = (named_pair p \<notin> pair_of ` set (lg_candidates led))
    \<and> filter (\<lambda>c. pair_of c = named_pair p) (lg_candidates led') = [c]
    \<and> rv_id (rp_review r) = mc_id c \<and> rv_left (rp_review r) = ep_left p \<and> rv_right (rp_review r) = ep_right p"
  by (rule proposal_outcome [OF reachable_ok [OF assms(1)] assms(2-)])

section \<open>A proposal and its confirmation\<close>

definition key_one :: string where "key_one = ''propose-2026-0001''"
definition key_two :: string where "key_two = ''confirm-2026-0001''"
definition key_three :: string where "key_three = ''propose-2026-0002''"
definition key_four :: string where "key_four = ''confirm-2026-0002''"

lemma sample_keys [simp]: "idempotency_key key_one = Inr key_one" "idempotency_key key_two = Inr key_two"
  "idempotency_key key_three = Inr key_three" "idempotency_key key_four = Inr key_four"
  unfolding idempotency_key_iff by (simp_all add: key_one_def key_two_def key_three_def key_four_def py_strip_def is_space_def key_char_def is_alnum_ascii_def
      is_digit_def is_upper_ascii_def is_lower_ascii_def code_def)

definition fresh_one :: fresh where "fresh_one = \<lparr>fr_id = uuid_text 100, fr_audit = ''audit-1'', fr_now = 1\<rparr>"
definition fresh_two :: fresh where "fresh_two = \<lparr>fr_id = uuid_text 200, fr_audit = ''audit-2'', fr_now = 2\<rparr>"
definition fresh_other :: fresh where "fresh_other = \<lparr>fr_id = uuid_text 101, fr_audit = ''audit-5'', fr_now = 3\<rparr>"
definition fresh_late :: fresh where "fresh_late = \<lparr>fr_id = uuid_text 201, fr_audit = ''audit-6'', fr_now = 4\<rparr>"

lemma sample_digest: "digest_shape (sv_sha sample_services t)"
  by (simp add: digest_shape_def sample_services_def hex_lower_def is_digit_def code_def list_all_length)

lemma sample_proposable:
  "fr_id fr \<notin> mc_id ` set (lg_candidates led) \<Longrightarrow> fr_audit fr \<notin> au_id ` set (lg_audits led) \<Longrightarrow>
   \<forall>c \<in> set (lg_candidates led). review_row_of sample_catalog led c \<noteq> [] \<Longrightarrow>
   proposable_now sample_services sample_catalog led fr ''ana''"
  using sample_ids_distinct sample_digest by (simp add: proposable_now_def, simp add: sample_catalog_def)

lemma empty_receipts [simp]: "receipt_of empty_ledger actor k = None" "lg_candidates empty_ledger = []" "lg_audits empty_ledger = []"
  by (simp_all add: receipt_of_def empty_ledger_def)

lemma sample_move_ids [simp]: "canonical_uuid (m_id payment) = Some (m_id payment)" "canonical_uuid (m_id receipt_move) = Some (m_id receipt_move)"
  by (simp_all add: sample_movements canonical_uuid_text)

lemma sample_ready: "proposable_now sample_services sample_catalog empty_ledger fresh_one ''ana''"
  by (rule sample_proposable) simp_all

theorem eligible_pairs_get_one_review_witness:
  "\<exists>r led'. propose_review sample_services sample_catalog empty_ledger fresh_one ''ana'' key_one ds_a ds_b (m_id payment) (m_id receipt_move) 3
     = Inr (r, led') \<and> rp_created r"
  using eligible_pairs_get_one_review [OF rtranclp.rtrancl_refl sample_ready sample_ids(3,4) sample_move_ids sample_candidate sample_keys(1) empty_receipts(1)]
  by auto

text \<open>What a proposal of a new pair adds to the ledger.\<close>

lemma propose_new_ledger:
  assumes "propose_new sv cat led fr actor key dig p = Inr (r, led')" "rp_created r"
  shows "lg_candidates led' = lg_candidates led @ [candidate_row fr actor p] \<and> lg_decisions led' = lg_decisions led
    \<and> lg_members led' = lg_members led \<and> map au_id (lg_audits led') = map au_id (lg_audits led) @ [fr_audit fr]
    \<and> map (\<lambda>x. (mr_actor x, mr_key x)) (lg_receipts led') = map (\<lambda>x. (mr_actor x, mr_key x)) (lg_receipts led) @ [(actor, key)]"
proof -
  have m: "l1 = led\<lparr>lg_audits := lg_audits led @ [audit_of fr actor ''match.propose'' ''match_candidate'' (fr_id fr)
        [(''rule_version'', PStr REVIEW_RULE_VERSION)]], lg_candidates := lg_candidates led @ [candidate_row fr actor p]\<rparr>"
    if "materialise cat led fr actor p = Inr (i, True, l1)" for i l1
    using that by (auto simp: materialise_def rbind_Inr_iff insert_candidate_Inr dest: record_audit_Inr split: option.splits)
  show ?thesis
    using assms unfolding propose_new_def rbind_Inr_iff
    by (auto dest!: m simp: read_back_Inr insert_receipt_Inr rbind_Inr_iff audit_of_def)
qed

text \<open>The ledger after Ana proposed the pair, and the one after Luis confirmed it.\<close>

lemma sample_first:
  obtains r led c where "propose_review sample_services sample_catalog empty_ledger fresh_one ''ana'' key_one ds_a ds_b
      (m_id payment) (m_id receipt_move) 3 = Inr (r, led)" "reaches sample_services empty_ledger led" "ledger_ok led" "rp_created r"
    "lg_candidates led = [c]" "mc_id c = uuid_text 100" "mc_proposer c = ''ana''" "mc_left c = m_id payment" "mc_right c = m_id receipt_move"
    "lg_decisions led = []" "lg_members led = []" "map au_id (lg_audits led) = [''audit-1'']" "map mr_actor (lg_receipts led) = [''ana'']"
proof -
  let ?p = "eligible_record 3 payment receipt_move"
  obtain r led c where run: "propose_review sample_services sample_catalog empty_ledger fresh_one ''ana'' key_one ds_a ds_b
      (m_id payment) (m_id receipt_move) 3 = Inr (r, led)" and r: "rp_created r" "\<not> rp_replayed r"
    using proposal_outcome [OF ledger_ok_empty sample_ready sample_ids(3,4) sample_move_ids sample_candidate sample_keys(1) empty_receipts(1)]
    by auto
  obtain dig where new: "propose_new sample_services sample_catalog empty_ledger fresh_one ''ana'' key_one dig ?p = Inr (r, led)"
    by (rule propose_elim [OF run]) (use r(2) sample_candidate in \<open>auto simp: replay_or_conflict_def\<close>)
  from propose_new_ledger [OF new r(1)]
  have "lg_candidates led = [candidate_row fresh_one ''ana'' ?p] \<and> lg_decisions led = [] \<and> lg_members led = []
      \<and> map au_id (lg_audits led) = [''audit-1'']"
    and keys: "map (\<lambda>x. (mr_actor x, mr_key x)) (lg_receipts led) = [(''ana'', key_one)]"
    by (simp_all add: empty_ledger_def fresh_one_def)
  moreover have "map mr_actor (lg_receipts led) = [''ana'']" using arg_cong [OF keys, of "map fst"] by (simp add: comp_def)
  moreover have "reaches sample_services empty_ledger led" using ledger_step.proposed [OF run] by blast
  moreover have "m_id payment \<le> m_id receipt_move" using uuid_text_mono [of 10 21] by (simp add: sample_movements)
  ultimately show thesis
    using that [OF run _ _ r(1), of "candidate_row fresh_one ''ana'' ?p"] propose_kept [OF run ledger_ok_empty]
    by (simp add: candidate_row_def fresh_one_def eligible_record_def min_def max_def)
qed

lemma sample_moves:
  "movement_by_id sample_catalog (m_id payment) = Some payment" "movement_by_id sample_catalog (m_id nameless) = Some nameless"
  "movement_by_id sample_catalog (m_id receipt_move) = Some receipt_move"
  using sample_ids_distinct by (simp_all add: movement_by_id_def sample_catalog_def)

lemma sample_rows:
  assumes "mc_proposer c = ''ana''" "mc_left c = m_id payment" "mc_right c \<in> {m_id receipt_move, m_id nameless}"
  shows "review_row_of sample_catalog led c \<noteq> []" "period_open sample_catalog c"
proof -
  have "ct_subjects sample_catalog = [(''ana'', ''Ana''), (''luis'', ''Luis'')]" "ct_closed sample_catalog x y = False" for x y
    by (simp_all add: sample_catalog_def)
  then show "review_row_of sample_catalog led c \<noteq> []" "period_open sample_catalog c"
    using assms sample_moves by (auto simp: review_row_of_def period_open_def)
qed

lemma sample_decidable:
  assumes "lg_candidates led = [c]" "mc_id c = uuid_text 100" "mc_proposer c = ''ana''" "mc_left c = m_id payment"
    "mc_right c = m_id receipt_move" "lg_decisions led = []" "map au_id (lg_audits led) = [''audit-1'']"
  shows "decidable_now sample_services sample_catalog led fresh_two ''luis'' c"
proof -
  have "''audit-2'' \<notin> au_id ` set (lg_audits led)" using arg_cong [OF assms(7), of set] by simp
  moreover have "''luis'' \<in> fst ` set (ct_subjects sample_catalog)" by (simp add: sample_catalog_def)
  ultimately show ?thesis
    using assms(1,2,6) sample_digest sample_rows [OF assms(3,4)]
    by (simp add: decidable_now_def candidate_by_id_def fresh_two_def assms(5))
qed

lemma sample_second:
  obtains r1 led1 c r2 led2 dig where
    "propose_review sample_services sample_catalog empty_ledger fresh_one ''ana'' key_one ds_a ds_b (m_id payment) (m_id receipt_move) 3 = Inr (r1, led1)"
    "reaches sample_services empty_ledger led1" "ledger_ok led1" "lg_candidates led1 = [c]" "mc_id c = uuid_text 100"
    "decidable_now sample_services sample_catalog led1 fresh_two ''luis'' c" "receipt_of led1 ''luis'' key_two = None" "lg_decisions led1 = []" "period_open sample_catalog c"
    "decide_review sample_services sample_catalog led1 led1 fresh_two ''luis'' key_two (mc_id c) ''confirmed'' ''reference_supported'' = Inr (r2, led2)"
    "led2 = decided_ledger led1 fresh_two ''luis'' key_two dig c ''confirmed'' ''reference_supported''"
    "reaches sample_services led1 led2" "\<exists>d. rv_decision (rp_review r2) = Some d"
proof -
  obtain r1 led1 c where one: "propose_review sample_services sample_catalog empty_ledger fresh_one ''ana'' key_one ds_a ds_b
      (m_id payment) (m_id receipt_move) 3 = Inr (r1, led1)" "reaches sample_services empty_ledger led1" "ledger_ok led1" "rp_created r1"
    "lg_candidates led1 = [c]" "mc_id c = uuid_text 100" "mc_proposer c = ''ana''" "mc_left c = m_id payment" "mc_right c = m_id receipt_move"
    "lg_decisions led1 = []" "lg_members led1 = []" "map au_id (lg_audits led1) = [''audit-1'']" "map mr_actor (lg_receipts led1) = [''ana'']"
    by (rule sample_first)
  have now: "decidable_now sample_services sample_catalog led1 fresh_two ''luis'' c" by (rule sample_decidable [OF one(5-10,12)])
  have "mr_actor x = ''ana''" if "x \<in> set (lg_receipts led1)" for x
    using arg_cong [OF one(13), of set] that by auto
  then have none: "receipt_of led1 ''luis'' key_two = None" by (auto simp: receipt_of_def find_None_iff)
  have cid: "canonical_uuid (mc_id c) = Some (mc_id c)" by (simp add: one(6) canonical_uuid_text)
  have reason: "valid_reason ''confirmed'' ''reference_supported''" by (simp add: valid_reason_def DECISION_REASONS_def)
  obtain w d dig where two: "decide_review sample_services sample_catalog led1 led1 fresh_two ''luis'' key_two (mc_id c) ''confirmed'' ''reference_supported''
      = Inr (\<lparr>rp_review = w, rp_replayed = False, rp_created = True\<rparr>,
          decided_ledger led1 fresh_two ''luis'' key_two dig c ''confirmed'' ''reference_supported'')" "rv_decision w = Some d"
    by (rule decision_outcome [OF one(3) now sample_keys(2) none cid reason])
      (simp_all add: one(7,10,11) decision_for_def confirmation_conflict_def sample_rows(2) [OF one(7,8)] one(9))
  have step: "reaches sample_services led1 (decided_ledger led1 fresh_two ''luis'' key_two dig c ''confirmed'' ''reference_supported'')"
    using ledger_step.decided [OF extends_refl two(1)] by blast
  have ex: "\<exists>d. rv_decision (rp_review \<lparr>rp_review = w, rp_replayed = False, rp_created = True\<rparr>) = Some d"
    using two(2) by simp
  show thesis
    by (rule that [of r1 led1 c "\<lparr>rp_review = w, rp_replayed = False, rp_created = True\<rparr>"
        "decided_ledger led1 fresh_two ''luis'' key_two dig c ''confirmed'' ''reference_supported''" dig],
      rule one(1), rule one(2), rule one(3), rule one(5), rule one(6), rule now, rule none, rule one(10),
      rule sample_rows(2) [OF one(7,8)], simp add: one(9), rule two(1), rule refl,
      rule step, rule ex)
qed

theorem decision_is_accepted_exactly_when_witness:
  "\<exists>led c r led'. c \<in> set (lg_candidates led) \<and> decide_review sample_services sample_catalog led led fresh_two ''luis'' key_two (mc_id c) ''rejected'' ''different_event'' = Inr (r, led')"
proof -
  obtain r1 led1 c r2 led2 dig where led: "reaches sample_services empty_ledger led1" "lg_decisions led1 = []" "mc_id c = uuid_text 100"
    "decidable_now sample_services sample_catalog led1 fresh_two ''luis'' c" "receipt_of led1 ''luis'' key_two = None"
    "period_open sample_catalog c"
    by (rule sample_second) (rule that; assumption)
  have cid: "canonical_uuid (mc_id c) = Some (mc_id c)" by (simp add: led(3) canonical_uuid_text)
  have "is_ok (decide_review sample_services sample_catalog led1 led1 fresh_two ''luis'' key_two (mc_id c) ''rejected'' ''different_event'')"
    using decision_is_accepted_exactly_when [OF led(1,4) sample_keys(2) led(5) cid, of "''rejected''" "''different_event''"]
    by (simp add: valid_reason_def DECISION_REASONS_def decision_for_def led(2,6))
  then obtain x where x: "decide_review sample_services sample_catalog led1 led1 fresh_two ''luis'' key_two (mc_id c) ''rejected'' ''different_event'' = Inr x"
    unfolding is_ok_iff by (elim exE)
  have member: "c \<in> set (lg_candidates led1)" using led(4) by (auto simp: decidable_now_def dest: candidate_by_id_Some)
  show ?thesis by (intro exI [of _ led1] exI [of _ c] exI [of _ "fst x"] exI [of _ "snd x"]) (simp add: x member)
qed

text \<open>
  A race: Ana proposed the payment against two credits; Luis read the second review, then the first one was
  confirmed, and only then his confirmation of the second one arrives.
\<close>

lemma nameless_candidate:
  "candidate_for_review sample_services sample_catalog ds_a ds_b (m_id payment) (m_id nameless) 3
     = Inr (eligible_record 3 payment nameless)"
proof -
  have "reviewable sample_catalog ds_a ds_b (m_id payment) (m_id nameless) 3 payment nameless"
    using sample_distances
    by (simp add: reviewable_def listed_pair_def review_query_def sample_movements live_movement_def exact_pair_def mode_accepts_def
        sample_catalog_def)
  then show ?thesis
    unfolding candidate_for_review_iff [OF sample_ids_distinct] using sample_valid [of 3] sample_eligible by auto
qed

lemma sample_propose:
  assumes "ledger_ok led" "proposable_now sample_services sample_catalog led fr ''ana''" "canonical_uuid y = Some y"
    and "candidate_for_review sample_services sample_catalog ds_a ds_b (m_id payment) y 3 = Inr p" "idempotency_key key = Inr key"
    and "receipt_of led ''ana'' key = None" "named_pair p \<notin> pair_of ` set (lg_candidates led)"
  obtains led' where "ledger_step sample_services led led'" "lg_candidates led' = lg_candidates led @ [candidate_row fr ''ana'' p]"
    "lg_decisions led' = lg_decisions led" "lg_members led' = lg_members led"
    "map au_id (lg_audits led') = map au_id (lg_audits led) @ [fr_audit fr]"
    "map (\<lambda>x. (mr_actor x, mr_key x)) (lg_receipts led') = map (\<lambda>x. (mr_actor x, mr_key x)) (lg_receipts led) @ [(''ana'', key)]"
proof -
  obtain r led' where run: "propose_review sample_services sample_catalog led fr ''ana'' key ds_a ds_b (m_id payment) y 3 = Inr (r, led')"
    and r: "rp_created r" "\<not> rp_replayed r"
    using proposal_outcome [OF assms(1,2) sample_ids(3,4) sample_move_ids(1) assms(3-6)] assms(7) by auto
  obtain dig where new: "propose_new sample_services sample_catalog led fr ''ana'' key dig p = Inr (r, led')"
    by (rule propose_elim [OF run]) (use r(2) assms in \<open>auto simp: replay_or_conflict_def\<close>)
  from propose_new_ledger [OF new r(1)] that [OF ledger_step.proposed [OF run]] show thesis by simp
qed

lemma key_not_used: "map (\<lambda>x. (mr_actor x, mr_key x)) (lg_receipts led) = used \<Longrightarrow> (actor, k) \<notin> set used \<Longrightarrow> receipt_of led actor k = None"
  by (force simp: receipt_of_def find_None_iff)

lemma sample_race:
  obtains seen led c where "reaches sample_services empty_ledger seen" "reaches sample_services seen led"
    "candidate_by_id seen (mc_id c) = Some c" "\<not> confirmation_conflict seen c" "confirmation_conflict led c"
    "decision_for led (mc_id c) = None" "mc_id c = uuid_text 101" "mc_proposer c = ''ana''" "period_open sample_catalog c"
    "decidable_now sample_services sample_catalog led fresh_late ''luis'' c" "receipt_of led ''luis'' key_four = None"
proof -
  define c1 where "c1 = candidate_row fresh_one ''ana'' (eligible_record 3 payment receipt_move)"
  define c2 where "c2 = candidate_row fresh_other ''ana'' (eligible_record 3 payment nameless)"
  have le: "m_id payment \<le> m_id receipt_move" "m_id payment \<le> m_id nameless"
    using uuid_text_mono [of 10 21] uuid_text_mono [of 10 20] by (simp_all add: sample_movements)
  have c1: "mc_id c1 = uuid_text 100" "mc_proposer c1 = ''ana''" "mc_left c1 = m_id payment" "mc_right c1 = m_id receipt_move"
    using le by (simp_all add: c1_def candidate_row_def fresh_one_def eligible_record_def min_def max_def)
  have c2: "mc_id c2 = uuid_text 101" "mc_proposer c2 = ''ana''" "mc_left c2 = m_id payment" "mc_right c2 = m_id nameless"
    using le by (simp_all add: c2_def candidate_row_def fresh_other_def eligible_record_def min_def max_def)
  note rows1 = sample_rows [OF c1(2,3), simplified c1(4), simplified]
  note rows2 = sample_rows [OF c2(2,3), simplified c2(4), simplified]
  obtain one where one: "ledger_step sample_services empty_ledger one" "lg_candidates one = [c1]" "lg_decisions one = []" "lg_members one = []"
    "map au_id (lg_audits one) = [''audit-1'']" "map (\<lambda>x. (mr_actor x, mr_key x)) (lg_receipts one) = [(''ana'', key_one)]"
    by (rule sample_propose [OF ledger_ok_empty sample_ready sample_move_ids(2) sample_candidate sample_keys(1) empty_receipts(1)])
      (simp_all add: empty_ledger_def c1_def fresh_one_def)
  have ok1: "ledger_ok one" using ledger_step_kept [OF one(1) ledger_ok_empty] ..
  have ready: "proposable_now sample_services sample_catalog one fresh_other ''ana''"
    by (rule sample_proposable) (use arg_cong [OF one(5), of set] in \<open>simp_all add: one(2) c1(1) rows1 fresh_other_def uuid_text_inject\<close>)
  have none: "receipt_of one ''ana'' key_three = None"
    by (rule key_not_used [OF one(6)]) (simp add: key_one_def key_three_def)
  have nid: "canonical_uuid (m_id nameless) = Some (m_id nameless)" by (simp add: sample_movements canonical_uuid_text)
  have other: "named_pair (eligible_record 3 payment nameless) \<notin> pair_of ` set (lg_candidates one)"
    using le by (simp add: one(2) named_pair_def pair_of_def c1(4) eligible_record_def max_def sample_movements uuid_text_inject)
  obtain seen where seen: "ledger_step sample_services one seen" "lg_candidates seen = [c1, c2]" "lg_decisions seen = []" "lg_members seen = []"
    "map au_id (lg_audits seen) = [''audit-1'', ''audit-5'']"
    "map (\<lambda>x. (mr_actor x, mr_key x)) (lg_receipts seen) = [(''ana'', key_one), (''ana'', key_three)]"
    by (rule sample_propose [OF ok1 ready nid nameless_candidate sample_keys(3) none other])
      (simp_all add: one c2_def fresh_other_def)
  have run: "reaches sample_services empty_ledger seen" using one(1) seen(1) by (meson rtranclp.simps)
  have ok: "ledger_ok seen" using ledger_step_kept [OF seen(1) ok1] ..
  have luis: "''luis'' \<in> fst ` set (ct_subjects sample_catalog)" by (simp add: sample_catalog_def)
  have now: "decidable_now sample_services sample_catalog seen fresh_two ''luis'' c1"
    using arg_cong [OF seen(5), of set] sample_digest rows1 luis
    by (simp add: decidable_now_def candidate_by_id_def fresh_two_def seen(2,3))
  have none: "receipt_of seen ''luis'' key_two = None" by (rule key_not_used [OF seen(6)]) simp
  have cid: "canonical_uuid (mc_id c1) = Some (mc_id c1)" by (simp add: c1(1) canonical_uuid_text)
  have reason: "valid_reason ''confirmed'' ''reference_supported''" by (simp add: valid_reason_def DECISION_REASONS_def)
  obtain w d dig where won: "decide_review sample_services sample_catalog seen seen fresh_two ''luis'' key_two (mc_id c1) ''confirmed'' ''reference_supported''
      = Inr (\<lparr>rp_review = w, rp_replayed = False, rp_created = True\<rparr>,
          decided_ledger seen fresh_two ''luis'' key_two dig c1 ''confirmed'' ''reference_supported'')"
    by (rule decision_outcome [OF ok now sample_keys(2) none cid reason])
      (simp_all add: c1(2) seen(3,4) decision_for_def confirmation_conflict_def rows1)
  define led where "led = decided_ledger seen fresh_two ''luis'' key_two dig c1 ''confirmed'' ''reference_supported''"
  have led: "lg_candidates led = [c1, c2]" "lg_decisions led = [new_decision fresh_two ''luis'' c1 ''confirmed'' ''reference_supported'']"
    "lg_members led = members_of c1 (new_decision fresh_two ''luis'' c1 ''confirmed'' ''reference_supported'')"
    "map au_id (lg_audits led) = [''audit-1'', ''audit-5'', ''audit-2'']"
    "map (\<lambda>x. (mr_actor x, mr_key x)) (lg_receipts led) = [(''ana'', key_one), (''ana'', key_three), (''luis'', key_two)]"
    by (simp_all add: led_def decided_ledger_def seen audit_of_def fresh_two_def)
  have step: "reaches sample_services seen led" using ledger_step.decided [OF extends_refl won] by (simp add: led_def)
  have differ: "mc_id c1 \<noteq> mc_id c2" by (simp add: c1(1) c2(1) uuid_text_inject)
  have "decidable_now sample_services sample_catalog led fresh_late ''luis'' c2"
    using arg_cong [OF led(4), of set] sample_digest rows2 luis differ
    by (simp add: decidable_now_def candidate_by_id_def led(1,2) new_decision_def fresh_two_def fresh_late_def uuid_text_inject)
  moreover have "confirmation_conflict led c2"
    using differ by (simp add: confirmation_conflict_def led(3) members_of_def new_decision_def c1(3) c2(3))
  moreover have "receipt_of led ''luis'' key_four = None"
    by (rule key_not_used [OF led(5)]) (simp add: key_two_def key_four_def)
  ultimately show thesis
    using that [OF run step] differ rows2 c2(1,2)
    by (simp add: candidate_by_id_def seen(2,4) confirmation_conflict_def decision_for_def led(2) new_decision_def)
qed

theorem stale_reads_do_not_matter_witness:
  "\<exists>seen led c. reaches sample_services empty_ledger seen \<and> reaches sample_services seen led
     \<and> \<not> confirmation_conflict seen c \<and> confirmation_conflict led c
     \<and> decide_review sample_services sample_catalog seen led fresh_late ''luis'' key_four (mc_id c) ''confirmed'' ''reference_supported''
       = Inl already_confirmed
     \<and> decide_review sample_services sample_catalog led led fresh_late ''luis'' key_four (mc_id c) ''confirmed'' ''reference_supported''
       = Inl already_confirmed"
proof -
  obtain seen led c where race: "reaches sample_services empty_ledger seen" "reaches sample_services seen led"
    "candidate_by_id seen (mc_id c) = Some c" "\<not> confirmation_conflict seen c" "confirmation_conflict led c"
    "decision_for led (mc_id c) = None" "mc_id c = uuid_text 101" "mc_proposer c = ''ana''" "period_open sample_catalog c"
    "decidable_now sample_services sample_catalog led fresh_late ''luis'' c" "receipt_of led ''luis'' key_four = None"
    by (rule sample_race)
  have ok: "ledger_ok led" using reviews.run_kept [OF race(2) reachable_ok [OF race(1)]] by simp
  have cid: "canonical_uuid (mc_id c) = Some (mc_id c)" by (simp add: race(7) canonical_uuid_text)
  have reason: "valid_reason ''confirmed'' ''reference_supported''" by (simp add: valid_reason_def DECISION_REASONS_def)
  obtain v where v: "load_review sample_services sample_catalog led (mc_id c) = Some v" "rv_proposer v = mc_proposer c"
    "(rv_decision v = None) = (decision_for led (mc_id c) = None)" "rv_conflict v = confirmation_conflict led c"
    by (rule load_review_now [OF ok race(10)])
  obtain t where "digest sample_services (decide_payload (mc_id c) ''confirmed'' ''reference_supported'') = Inr (sv_sha sample_services t)"
    using decide_digest by blast
  note run = decide_run [OF sample_keys(4) cid reason this race(11) v(1), of led fresh_late]
  have "decision_guard v ''luis'' ''confirmed'' = Inl already_confirmed"
    using v(2-4) race(5,6,8) by (simp add: decision_guard_def)
  then have current: "decide_review sample_services sample_catalog led led fresh_late ''luis'' key_four (mc_id c) ''confirmed'' ''reference_supported''
      = Inl already_confirmed" unfolding run by simp
  with stale_reads_do_not_matter [OF race(1-3) sample_keys(4) race(11) cid, of sample_catalog fresh_late "''confirmed''" "''reference_supported''"]
    race(6,9,10)
  have "decide_review sample_services sample_catalog seen led fresh_late ''luis'' key_four (mc_id c) ''confirmed'' ''reference_supported''
      = Inl already_confirmed" by (auto split: sum.splits)
  with current race(1,2,4,5) show ?thesis by blast
qed

theorem no_movement_is_confirmed_twice_witness:
  "\<exists>led d c. reaches sample_services empty_ledger led \<and> c \<in> set (lg_candidates led) \<and>
     {e. e \<in> set (lg_decisions led) \<and> md_decision e = ''confirmed'' \<and> (\<exists>x. x \<in> set (lg_candidates led) \<and> mc_id x = md_candidate e
        \<and> {mc_left c, mc_right c} \<inter> {mc_left x, mc_right x} \<noteq> {})} = {d}"
proof -
  obtain r1 led1 c r2 led2 dig where led: "reaches sample_services empty_ledger led1" "lg_candidates led1 = [c]" "reaches sample_services led1 led2"
    "led2 = decided_ledger led1 fresh_two ''luis'' key_two dig c ''confirmed'' ''reference_supported''"
    by (rule sample_second) (rule that; assumption)
  let ?d = "new_decision fresh_two ''luis'' c ''confirmed'' ''reference_supported''"
  have in2: "?d \<in> set (lg_decisions led2)" "c \<in> set (lg_candidates led2)" by (simp_all add: led(2,4) decided_ledger_def)
  have d: "md_decision ?d = ''confirmed''" "mc_id c = md_candidate ?d" by (simp_all add: new_decision_def)
  have all: "reaches sample_services empty_ledger led2" using led(1,3) by (rule rtranclp_trans)
  have "?d = e" if "e \<in> set (lg_decisions led2)" "md_decision e = ''confirmed''" "x \<in> set (lg_candidates led2)" "mc_id x = md_candidate e"
    "{mc_left c, mc_right c} \<inter> {mc_left x, mc_right x} \<noteq> {}" for e x
    using no_movement_is_confirmed_twice [OF all in2(1) d(1) in2(2) d(2) that] ..
  then show ?thesis
    using all in2 d by (intro exI [of _ led2] exI [of _ ?d] exI [of _ c]) blast
qed

theorem confirmed_by_a_second_person_witness:
  "\<exists>led d. reaches sample_services empty_ledger led \<and> d \<in> set (lg_decisions led) \<and> md_decision d = ''confirmed''
     \<and> (\<exists>c \<in> set (lg_candidates led). mc_id c = md_candidate d \<and> md_actor d \<noteq> mc_proposer c)"
proof -
  obtain r1 led1 c r2 led2 dig where led: "reaches sample_services empty_ledger led1" "reaches sample_services led1 led2"
    "led2 = decided_ledger led1 fresh_two ''luis'' key_two dig c ''confirmed'' ''reference_supported''"
    by (rule sample_second) (rule that; assumption)
  let ?d = "new_decision fresh_two ''luis'' c ''confirmed'' ''reference_supported''"
  have in2: "?d \<in> set (lg_decisions led2)" by (simp add: led(3) decided_ledger_def)
  have d: "md_decision ?d = ''confirmed''" by (simp add: new_decision_def)
  have all: "reaches sample_services empty_ledger led2" using led(1,2) by (rule rtranclp_trans)
  from confirmed_by_a_second_person [OF all in2] all in2 d show ?thesis by blast
qed

theorem decided_reviews_never_change_witness:
  "\<exists>led later i w. reaches sample_services led later \<and> load_review sample_services sample_catalog later i = Some w"
proof -
  obtain r1 led1 c r2 led2 dig where led: "reaches sample_services empty_ledger led1" "reaches sample_services led1 led2" "ledger_ok led1"
    "decidable_now sample_services sample_catalog led1 fresh_two ''luis'' c"
    by (rule sample_second) (rule that; assumption)
  obtain v where v: "load_review sample_services sample_catalog led1 (mc_id c) = Some v" by (rule load_review_now [OF led(3,4)])
  from decided_reviews_never_change [OF led(1,2) v] led(2) show ?thesis by blast
qed

theorem repeated_proposal_is_replayed_witness:
  "\<exists>led2 w. reaches sample_services empty_ledger led2 \<and> lg_decisions led2 \<noteq> [] \<and>
     propose_review sample_services sample_catalog led2 fresh_two ''ana'' key_one ds_a ds_b (m_id payment) (m_id receipt_move) 3
       = Inr (\<lparr>rp_review = w, rp_replayed = True, rp_created = False\<rparr>, led2)"
proof -
  obtain r1 led1 c r2 led2 dig where led:
    "propose_review sample_services sample_catalog empty_ledger fresh_one ''ana'' key_one ds_a ds_b (m_id payment) (m_id receipt_move) 3 = Inr (r1, led1)"
    "reaches sample_services empty_ledger led1" "reaches sample_services led1 led2"
    "led2 = decided_ledger led1 fresh_two ''luis'' key_two dig c ''confirmed'' ''reference_supported''"
    by (rule sample_second) (rule that; assumption)
  have all: "reaches sample_services empty_ledger led2" using led(2,3) by (rule rtranclp_trans)
  have some: "lg_decisions led2 \<noteq> []" by (simp add: led(4) decided_ledger_def)
  from repeated_proposal_is_replayed [OF rtranclp.rtrancl_refl led(1,3), of fresh_two] all some show ?thesis by blast
qed

end
