(* ===== verification/GroupDrafts.thy ===== *)
theory GroupDrafts
  imports ReviewLedger Money
begin

text \<open>
  \<open>apps/api/src/fincilia_api/reconciliation.py\<close>, one to many: drafts that put one anchor movement against
  several related ones. A draft reserves nothing and confirms nothing. The trigger of migration V0035 is
  part of the insertion. The lemmas show which drafts are accepted, that their difference is exact, that a
  composition has one draft, and what a request for a known composition is not asked any more.
\<close>

section \<open>Tables\<close>

definition GROUP_RULE_VERSION :: string where "GROUP_RULE_VERSION = ''fnc-rec-group-whole-v1''"

record group_candidate =
  gc_id :: string
  gc_anchor_dataset :: string
  gc_related_dataset :: string
  gc_anchor :: string
  gc_related :: "string list"
  gc_rule :: string
  gc_proposer :: string
  gc_at :: nat
  gc_audit :: string

record group_command_receipt =
  gr_actor :: string
  gr_key :: string
  gr_digest :: string
  gr_group :: string

record group_ledger =
  gl_groups :: "group_candidate list"
  gl_receipts :: "group_command_receipt list"
  gl_audits :: "audit_event list"

definition empty_groups :: group_ledger where
  "empty_groups = \<lparr>gl_groups = [], gl_receipts = [], gl_audits = []\<rparr>"

section \<open>Reading drafts\<close>

text \<open>The cast to \<open>numeric(38,12)\<close>.\<close>

definition numeric_38_12 :: "int \<Rightarrow> int answer" where
  "numeric_38_12 n = (if \<bar>n\<bar> < 10 ^ 38 then Inr n else Inl (DatabaseError ''22003'' ''''))"

text \<open>
  One row of \<open>GROUP_SELECT\<close>: the draft, its proposer, the anchor, the related movements that are found in the
  order of the array, their total and what is left of the anchor. Without proposer, anchor or any related
  movement there is no row.
\<close>

type_synonym group_row = "group_candidate \<times> string \<times> movement_row \<times> movement_row list \<times> int \<times> int"

definition group_select :: "catalog \<Rightarrow> group_candidate \<Rightarrow> group_row list answer" where
  "group_select cat g =
     (let related = concat (map (\<lambda>i. case movement_by_id cat i of None \<Rightarrow> [] | Some m \<Rightarrow> [m]) (gc_related g)) in
      case (map_of (ct_subjects cat) (gc_proposer g), movement_by_id cat (gc_anchor g), related) of
        (Some name, Some anchor, _ # _) \<Rightarrow>
          rbind (numeric_38_12 (sum_list (map m_amount related))) (\<lambda>summed. 
          rbind (numeric_38_12 (m_amount anchor - sum_list (map m_amount related))) (\<lambda>rest.
            Inr [(g, name, anchor, related, summed, rest)]))
      | _ \<Rightarrow> Inr [])"

record group_view =
  gv_id :: string
  gv_anchor_dataset :: string
  gv_related_dataset :: string
  gv_anchor :: movement_view
  gv_related :: "movement_view list"
  gv_count :: nat
  gv_total :: string
  gv_difference :: string
  gv_currency :: string
  gv_rule :: string
  gv_proposer :: string
  gv_proposer_name :: string
  gv_at :: string
  gv_relation :: string
  gv_status :: string
  gv_effect :: string
  gv_proves :: bool
  gv_can_confirm :: bool

definition group_from_row :: "services \<Rightarrow> string \<Rightarrow> group_row \<Rightarrow> group_view" where
  "group_from_row sv view_left_dataset_id row = (case row of (g, name, anchor, related, summed, rest) \<Rightarrow>
     \<lparr>gv_id = gc_id g, gv_anchor_dataset = gc_anchor_dataset g, gv_related_dataset = gc_related_dataset g,
      gv_anchor = movement_of anchor, gv_related = map movement_of related, gv_count = length (gc_related g),
      gv_total = dec_format12 (numeric12 summed), gv_difference = dec_format12 (numeric12 rest), gv_currency = m_currency anchor,
      gv_rule = gc_rule g, gv_proposer = gc_proposer g, gv_proposer_name = name, gv_at = sv_iso sv (gc_at g),
      gv_relation = (if gc_anchor_dataset g = view_left_dataset_id then ''one_to_many'' else ''many_to_one''),
      gv_status = ''draft'', gv_effect = ''none'', gv_proves = False, gv_can_confirm = False\<rparr>)"

definition load_group :: "services \<Rightarrow> catalog \<Rightarrow> group_ledger \<Rightarrow> string \<Rightarrow> string \<Rightarrow> group_view option answer" where
  "load_group sv cat led i view_left = (case find (\<lambda>g. gc_id g = i) (gl_groups led) of
     None \<Rightarrow> Inr None
   | Some g \<Rightarrow> rbind (group_select cat g) (\<lambda>rows. Inr (case rows of [] \<Rightarrow> None | row # _ \<Rightarrow> Some (group_from_row sv view_left row))))"

definition group_receipt :: "group_ledger \<Rightarrow> string \<Rightarrow> string \<Rightarrow> (string \<times> string) option" where
  "group_receipt led actor key = map_option (\<lambda>r. (gr_digest r, gr_group r))
     (find (\<lambda>r. gr_actor r = actor \<and> gr_key r = key) (gl_receipts led))"

definition list_groups :: "services \<Rightarrow> catalog \<Rightarrow> group_ledger \<Rightarrow> string \<Rightarrow> string \<Rightarrow> int \<Rightarrow> group_view list answer" where
  "list_groups sv cat led left_dataset_id right_dataset_id limit =
     rbind (uuid_field left_dataset_id ''left_dataset_id'') (\<lambda>left.
     rbind (uuid_field right_dataset_id ''right_dataset_id'') (\<lambda>right.
       if left = right then Inl (ReviewCommandError ''datasets-must-differ'' ''two distinct datasets are required'')
       else if \<not> (1 \<le> limit \<and> limit \<le> 100) then Inl (ReviewCommandError ''group-limit-invalid'' ''limit must be between 1 and 100'')
       else rbind (map_result (group_select cat)
           (filter (\<lambda>g. (gc_anchor_dataset g, gc_related_dataset g) \<in> {(left, right), (right, left)}) (gl_groups led)))
         (\<lambda>rows. Inr (map (group_from_row sv left) (take (nat limit)
           (sort_key (\<lambda>row. (- int (gc_at (fst row)), gc_id (fst row))) (concat rows)))))))"

section \<open>Inserting a draft\<close>

definition dataset_of :: "catalog \<Rightarrow> movement_row \<Rightarrow> dataset_row option" where
  "dataset_of cat m = find (\<lambda>d. d_id d = m_dataset m) (ct_datasets cat)"

definition member_eligible :: "catalog \<Rightarrow> string \<Rightarrow> movement_row \<Rightarrow> bool" where
  "member_eligible cat ds m = (m_dataset m = ds \<and> live_movement m
     \<and> (case dataset_of cat m of None \<Rightarrow> False | Some d \<Rightarrow> eligible_dataset d))"

definition related_eligible :: "catalog \<Rightarrow> string \<Rightarrow> movement_row \<Rightarrow> movement_row \<Rightarrow> bool" where
  "related_eligible cat ds anchor m = (member_eligible cat ds m \<and> m_currency m = m_currency anchor
     \<and> m_direction m \<noteq> m_direction anchor \<and> m_account m \<noteq> m_account anchor)"

text \<open>\<open>validate_match_group_candidate\<close>; every refusal has the state 23514. The audit it asks for is the one just written.\<close>

definition group_trigger :: "catalog \<Rightarrow> group_ledger \<Rightarrow> group_candidate \<Rightarrow> bool" where
  "group_trigger cat led g = (sorted (gc_related g) \<and> distinct (gc_related g) \<and> gc_anchor g \<notin> set (gc_related g)
     \<and> (case movement_by_id cat (gc_anchor g) of None \<Rightarrow> False
        | Some anchor \<Rightarrow> member_eligible cat (gc_anchor_dataset g) anchor
            \<and> (\<forall>i \<in> set (gc_related g). case movement_by_id cat i of None \<Rightarrow> False
                | Some m \<Rightarrow> related_eligible cat (gc_related_dataset g) anchor m))
     \<and> list_ex (\<lambda>e. au_id e = gc_audit g \<and> au_subject e = gc_proposer g \<and> au_action e = ''match.group.propose''
          \<and> au_kind e = ''match_group_candidate'' \<and> au_resource e = gc_id g \<and> au_outcome e = ''allowed'') (gl_audits led))"

definition composition :: "group_candidate \<Rightarrow> string \<times> string \<times> string list" where
  "composition g = (gc_rule g, gc_anchor g, gc_related g)"

definition insert_group :: "catalog \<Rightarrow> group_ledger \<Rightarrow> group_candidate \<Rightarrow> group_ledger answer" where
  "insert_group cat led g =
     (if \<not> group_trigger cat led g then Inl (check_violation '''')
      else if gc_anchor_dataset g = gc_related_dataset g then Inl (check_violation ''ck_match_group_distinct_datasets'')
      else if \<not> (2 \<le> length (gc_related g) \<and> length (gc_related g) \<le> 49) then Inl (check_violation ''ck_match_group_related_cardinality'')
      else if gc_id g \<in> gc_id ` set (gl_groups led) then Inl (unique_violation ''match_group_candidate_pkey'')
      else if composition g \<in> composition ` set (gl_groups led) then Inl (unique_violation ''uq_match_group_candidate_composition'')
      else if gc_proposer g \<notin> fst ` set (ct_subjects cat) then Inl (missing_reference ''match_group_candidate_proposed_by_fkey'')
      else Inr (led\<lparr>gl_groups := gl_groups led @ [g]\<rparr>))"

definition insert_group_receipt :: "group_ledger \<Rightarrow> group_command_receipt \<Rightarrow> group_ledger answer" where
  "insert_group_receipt led r =
     (if \<not> rx_match Reconciliation.IDEMPOTENCY_KEY (gr_key r) then Inl (check_violation ''match_group_command_receipt_idempotency_key_check'')
      else if \<not> digest_shape (gr_digest r) then Inl (check_violation ''match_group_command_receipt_request_digest_check'')
      else if (gr_actor r, gr_key r) \<in> (\<lambda>x. (gr_actor x, gr_key x)) ` set (gl_receipts led)
      then Inl (unique_violation ''uq_match_group_receipt_key'')
      else if gr_group r \<notin> gc_id ` set (gl_groups led) then Inl (missing_reference ''fk_match_group_receipt_result'')
      else Inr (led\<lparr>gl_receipts := gl_receipts led @ [r]\<rparr>))"

definition record_group_audit :: "group_ledger \<Rightarrow> audit_event \<Rightarrow> group_ledger answer" where
  "record_group_audit led e = rbind (record_audit (empty_ledger\<lparr>lg_audits := gl_audits led\<rparr>) e)
     (\<lambda>l. Inr (led\<lparr>gl_audits := lg_audits l\<rparr>))"

section \<open>Proposing a draft\<close>

definition canonical_related_ids :: "string list \<Rightarrow> string list answer" where
  "canonical_related_ids values =
     (if \<not> (2 \<le> length values \<and> length values \<le> 49)
      then Inl (ReviewCommandError ''group-cardinality-invalid'' ''a group proposal requires between 2 and 49 related movements'')
      else rbind (map_result (\<lambda>v. uuid_field v ''related_movement_ids'') values) (\<lambda>ids.
        if \<not> distinct (sort ids) then Inl (ReviewCommandError ''group-members-invalid'' ''related movements must be distinct'')
        else Inr (sort ids)))"

definition group_payload :: "string \<Rightarrow> string \<Rightarrow> string \<Rightarrow> string list \<Rightarrow> pydict" where
  "group_payload anchor_ds related_ds anchor related =
     [(''anchor_dataset_id'', PStr anchor_ds), (''related_dataset_id'', PStr related_ds), (''anchor_movement_id'', PStr anchor),
      (''related_movement_ids'', PList (map PStr related)), (''rule_version'', PStr GROUP_RULE_VERSION)]"

record group_reply =
  gp_group :: group_view
  gp_replayed :: bool
  gp_created :: bool

definition group_answer ::
    "services \<Rightarrow> catalog \<Rightarrow> group_ledger \<Rightarrow> string \<Rightarrow> string \<Rightarrow> bool \<Rightarrow> bool \<Rightarrow> string \<Rightarrow> (group_reply \<times> group_ledger) answer" where
  "group_answer sv cat led i view_left replayed created message = rbind (load_group sv cat led i view_left) (\<lambda>found.
     case found of None \<Rightarrow> Inl (RuntimeError message)
     | Some v \<Rightarrow> Inr (\<lparr>gp_group = v, gp_replayed = replayed, gp_created = created\<rparr>, led))"

definition existing_group :: "group_ledger \<Rightarrow> string \<Rightarrow> string list \<Rightarrow> group_candidate option" where
  "existing_group led anchor related = find (\<lambda>g. composition g = (GROUP_RULE_VERSION, anchor, related)) (gl_groups led)"

definition group_audit :: "fresh \<Rightarrow> string \<Rightarrow> string \<Rightarrow> nat \<Rightarrow> bool \<Rightarrow> audit_event" where
  "group_audit fr actor i members reused = audit_of fr actor ''match.group.propose'' ''match_group_candidate'' i
     [(''rule_version'', PStr GROUP_RULE_VERSION), (''member_count'', PInt (int members)), (''reused'', PBool reused)]"

definition group_row_for :: "fresh \<Rightarrow> string \<Rightarrow> string \<Rightarrow> string \<Rightarrow> string \<Rightarrow> string list \<Rightarrow> group_candidate" where
  "group_row_for fr actor anchor_ds related_ds anchor related = \<lparr>gc_id = fr_id fr, gc_anchor_dataset = anchor_ds,
     gc_related_dataset = related_ds, gc_anchor = anchor, gc_related = related, gc_rule = GROUP_RULE_VERSION,
     gc_proposer = actor, gc_at = fr_now fr, gc_audit = fr_audit fr\<rparr>"

definition group_unavailable :: rec_error where
  "group_unavailable = ReviewCommandError ''group-composition-unavailable'' ''the requested group is unavailable or ineligible''"

text \<open>The savepoint: audit, draft if there is none of the composition, receipt. A violated check is one refusal.\<close>

definition write_group ::
    "catalog \<Rightarrow> group_ledger \<Rightarrow> fresh \<Rightarrow> string \<Rightarrow> string \<Rightarrow> string \<Rightarrow> string \<Rightarrow> string \<Rightarrow> string \<Rightarrow> string list
     \<Rightarrow> (string \<times> bool \<times> group_ledger) answer" where
  "write_group cat led fr actor key dig anchor_ds related_ds anchor related =
     (let existing = existing_group led anchor related; created = (existing = None);
          i = (case existing of None \<Rightarrow> fr_id fr | Some g \<Rightarrow> gc_id g) in
      case
        rbind (record_group_audit led (group_audit fr actor i (length related) (\<not> created))) (\<lambda>led.
        rbind (if created then insert_group cat led (group_row_for fr actor anchor_ds related_ds anchor related) else Inr led) (\<lambda>led.
        insert_group_receipt led \<lparr>gr_actor = actor, gr_key = key, gr_digest = dig, gr_group = i\<rparr>)) of
        Inl (DatabaseError state name) \<Rightarrow> Inl (if state = ''23514'' then group_unavailable else DatabaseError state name)
      | Inl e \<Rightarrow> Inl e
      | Inr led \<Rightarrow> Inr (i, created, led))"

definition propose_group ::
    "services \<Rightarrow> catalog \<Rightarrow> group_ledger \<Rightarrow> fresh \<Rightarrow> string \<Rightarrow> string \<Rightarrow> string \<Rightarrow> string \<Rightarrow> string \<Rightarrow> string list
     \<Rightarrow> (group_reply \<times> group_ledger) answer" where
  "propose_group sv cat led fr actor key anchor_dataset_id related_dataset_id anchor_movement_id related_movement_ids =
     rbind (idempotency_key key) (\<lambda>key.
     rbind (uuid_field anchor_dataset_id ''anchor_dataset_id'') (\<lambda>ads.
     rbind (uuid_field related_dataset_id ''related_dataset_id'') (\<lambda>rds.
     rbind (uuid_field anchor_movement_id ''anchor_movement_id'') (\<lambda>anchor.
     rbind (canonical_related_ids related_movement_ids) (\<lambda>related.
       if anchor \<in> set related then Inl (ReviewCommandError ''group-members-invalid'' ''anchor cannot also be a related movement'')
       else
         rbind (validated (review_query ads rds DEFAULT_DATE_WINDOW_DAYS)) (\<lambda>q. rbind (load_eligible_pair sv cat q) (\<lambda>_.
         rbind (Reconciliation.digest sv (group_payload ads rds anchor related)) (\<lambda>dig.
           case group_receipt led actor key of
             Some (seen_digest, i) \<Rightarrow>
               if seen_digest \<noteq> dig
               then Inl (ReviewCommandError ''idempotency-conflict'' ''the idempotency key was already used for another group command'')
               else group_answer sv cat led i ads True False ''group receipt points to a missing proposal''
           | None \<Rightarrow> rbind (write_group cat led fr actor key dig ads rds anchor related) (\<lambda>(i, created, led).
               group_answer sv cat led i ads False created ''created group proposal cannot be read back'')))))))))"

section \<open>The numbers of a draft are exact\<close>

text \<open>The amount a text denotes.\<close>

definition text_amount :: "string \<Rightarrow> rat" where
  "text_amount t = (case decimal_of_string t of Some d \<Rightarrow> dec_val d | None \<Rightarrow> 0)"

lemma text_amount_numeric: "text_amount (dec_format12 (numeric12 n)) = of_int n / 10 ^ 12"
proof -
  have "decimal_of_string (dec_format12 (numeric12 n)) = Some (numeric12 n)"
    unfolding numeric12_def by (rule fixed12_read)
  moreover have "signed (n < 0) (nat \<bar>n\<bar>) = n" by (simp add: signed_def)
  ultimately show ?thesis
    by (simp add: text_amount_def numeric12_def power_int_minus field_simps)
qed

lemma numeric_38_12_Inr: "numeric_38_12 n = Inr m \<longleftrightarrow> m = n \<and> \<bar>n\<bar> < 10 ^ 38"
  by (auto simp: numeric_38_12_def)

lemma group_select_Inr:
  "group_select cat g = Inr rows \<Longrightarrow> rows = [] \<or> (\<exists>name anchor related. rows = [(g, name, anchor, related,
     sum_list (map m_amount related), m_amount anchor - sum_list (map m_amount related))] \<and> related \<noteq> []
     \<and> movement_by_id cat (gc_anchor g) = Some anchor)"
  unfolding group_select_def Let_def
  by (cases "concat (map (\<lambda>i. case movement_by_id cat i of None \<Rightarrow> [] | Some m \<Rightarrow> [m]) (gc_related g))")
    (auto simp: rbind_Inr_iff numeric_38_12_Inr split: option.splits)

text \<open>The texts of a draft denote the exact total of its related movements and the exact difference.\<close>

theorem draft_difference_is_exact:
  assumes "load_group sv cat led i view_left = Inr (Some v)"
  shows "text_amount (gv_total v) = sum_list (map (\<lambda>m. text_amount (mw_amount m)) (gv_related v))
    \<and> text_amount (gv_difference v) = text_amount (mw_amount (gv_anchor v)) - text_amount (gv_total v)
    \<and> gv_related v \<noteq> []"
proof -
  obtain g rows where rows: "group_select cat g = Inr rows" "Some v = (case rows of [] \<Rightarrow> None | row # _ \<Rightarrow> Some (group_from_row sv view_left row))"
    using assms by (auto simp: load_group_def rbind_Inr_iff split: option.splits)
  have "rows \<noteq> []" using rows(2) by auto
  then obtain name anchor related where r: "rows = [(g, name, anchor, related,
      sum_list (map m_amount related), m_amount anchor - sum_list (map m_amount related))]" and ne: "related \<noteq> []"
    using group_select_Inr [OF rows(1)] by blast
  have v: "v = group_from_row sv view_left (g, name, anchor, related,
      sum_list (map m_amount related), m_amount anchor - sum_list (map m_amount related))"
    using rows(2) unfolding r by simp
  have total: "text_amount (gv_total v) = of_int (sum_list (map m_amount related)) / 10 ^ 12"
    unfolding v group_from_row_def by (simp add: text_amount_numeric)
  have "sum_list (map (\<lambda>m. text_amount (mw_amount m)) (gv_related v)) = sum_list (map (\<lambda>m. of_int (m_amount m) / 10 ^ 12) related)"
    unfolding v group_from_row_def by (simp add: comp_def movement_of_def text_amount_numeric)
  also have "\<dots> = of_int (sum_list (map m_amount related)) / 10 ^ 12"
    by (induction related) (simp_all add: add_divide_distrib)
  finally have sums: "sum_list (map (\<lambda>m. text_amount (mw_amount m)) (gv_related v)) = of_int (sum_list (map m_amount related)) / 10 ^ 12" .
  have "text_amount (gv_difference v) = of_int (m_amount anchor - sum_list (map m_amount related)) / 10 ^ 12"
    "text_amount (mw_amount (gv_anchor v)) = of_int (m_amount anchor) / 10 ^ 12" "gv_related v \<noteq> []"
    using ne unfolding v group_from_row_def by (simp_all add: text_amount_numeric movement_of_def)
  then show ?thesis unfolding total sums by (simp add: diff_divide_distrib)
qed

section \<open>The invariant of drafts\<close>

definition groups_extend :: "group_ledger \<Rightarrow> group_ledger \<Rightarrow> bool" where
  "groups_extend a b = (prefix (gl_groups a) (gl_groups b) \<and> prefix (gl_receipts a) (gl_receipts b) \<and> prefix (gl_audits a) (gl_audits b))"

definition draft_ok :: "group_candidate \<Rightarrow> bool" where
  "draft_ok g = (sorted (gc_related g) \<and> distinct (gc_related g) \<and> gc_anchor g \<notin> set (gc_related g)
     \<and> 2 \<le> length (gc_related g) \<and> length (gc_related g) \<le> 49 \<and> gc_anchor_dataset g \<noteq> gc_related_dataset g)"

definition groups_ok :: "group_ledger \<Rightarrow> bool" where
  "groups_ok led = (distinct (map gc_id (gl_groups led)) \<and> distinct (map composition (gl_groups led))
     \<and> (\<forall>g \<in> set (gl_groups led). draft_ok g)
     \<and> distinct (map (\<lambda>r. (gr_actor r, gr_key r)) (gl_receipts led))
     \<and> (\<forall>r \<in> set (gl_receipts led). gr_group r \<in> gc_id ` set (gl_groups led)))"

lemma record_group_audit_Inr: "record_group_audit led e = Inr led' \<Longrightarrow> led' = led\<lparr>gl_audits := gl_audits led @ [e]\<rparr>"
  by (auto simp: record_group_audit_def rbind_Inr_iff dest!: record_audit_Inr)

lemma insert_group_Inr:
  "insert_group cat led g = Inr led' \<longleftrightarrow> group_trigger cat led g \<and> gc_anchor_dataset g \<noteq> gc_related_dataset g
     \<and> 2 \<le> length (gc_related g) \<and> length (gc_related g) \<le> 49 \<and> gc_id g \<notin> gc_id ` set (gl_groups led)
     \<and> composition g \<notin> composition ` set (gl_groups led) \<and> gc_proposer g \<in> fst ` set (ct_subjects cat)
     \<and> led' = led\<lparr>gl_groups := gl_groups led @ [g]\<rparr>"
  unfolding insert_group_def guard_Inr by auto

lemma insert_group_receipt_Inr:
  "insert_group_receipt led r = Inr led' \<longleftrightarrow> rx_match Reconciliation.IDEMPOTENCY_KEY (gr_key r) \<and> digest_shape (gr_digest r)
     \<and> (gr_actor r, gr_key r) \<notin> (\<lambda>x. (gr_actor x, gr_key x)) ` set (gl_receipts led) \<and> gr_group r \<in> gc_id ` set (gl_groups led)
     \<and> led' = led\<lparr>gl_receipts := gl_receipts led @ [r]\<rparr>"
  unfolding insert_group_receipt_def guard_Inr by auto

lemma groups_audit_kept: "record_group_audit led e = Inr led' \<Longrightarrow> groups_ok led \<Longrightarrow> groups_ok led' \<and> groups_extend led led'"
  by (drule record_group_audit_Inr) (simp add: groups_ok_def groups_extend_def)

lemma groups_insert_kept:
  assumes "insert_group cat led g = Inr led'" "groups_ok led"
  shows "groups_ok led' \<and> groups_extend led led'"
proof -
  have "draft_ok g" using assms(1) unfolding insert_group_Inr by (auto simp: group_trigger_def draft_ok_def)
  then show ?thesis
    using assms unfolding insert_group_Inr groups_ok_def groups_extend_def by (simp add: image_iff)
qed

lemma groups_receipt_kept:
  "insert_group_receipt led r = Inr led' \<Longrightarrow> groups_ok led \<Longrightarrow> groups_ok led' \<and> groups_extend led led'"
  unfolding insert_group_receipt_Inr groups_ok_def groups_extend_def by (simp add: image_iff)

section \<open>Commands\<close>

lemma refused_sum_Inr:
  "(case m of Inl (DatabaseError state name) \<Rightarrow> Inl (f state name) | Inl e \<Rightarrow> Inl e | Inr led \<Rightarrow> Inr (g led)) = Inr y
     \<longleftrightarrow> (\<exists>led. m = Inr led \<and> g led = y)"
  by (auto split: sum.splits rec_error.splits)

lemma write_group_Inr:
  "write_group cat led fr actor key dig ads rds anchor related = Inr (i, created, led') \<longleftrightarrow>
     created = (existing_group led anchor related = None)
     \<and> i = (case existing_group led anchor related of None \<Rightarrow> fr_id fr | Some g \<Rightarrow> gc_id g)
     \<and> (\<exists>l1 l2. record_group_audit led (group_audit fr actor i (length related) (\<not> created)) = Inr l1
        \<and> (if created then insert_group cat l1 (group_row_for fr actor ads rds anchor related) else Inr l1) = Inr l2
        \<and> insert_group_receipt l2 \<lparr>gr_actor = actor, gr_key = key, gr_digest = dig, gr_group = i\<rparr> = Inr led')"
  unfolding write_group_def Let_def refused_sum_Inr rbind_Inr_iff prod.inject by blast

lemma find_distinct_row: "distinct (map f xs) \<Longrightarrow> x \<in> set xs \<Longrightarrow> find (\<lambda>y. f y = f x) xs = Some x"
  by (induction xs) (auto simp: rev_image_eqI)

lemma groups_extend_trans: "groups_extend a b \<Longrightarrow> groups_extend b c \<Longrightarrow> groups_extend a c"
  by (auto simp: groups_extend_def intro: prefix_order.trans)

lemma write_group_kept:
  assumes "write_group cat led fr actor key dig ads rds anchor related = Inr (i, created, led')" "groups_ok led"
  shows "groups_ok led' \<and> groups_extend led led'"
proof -
  obtain l1 l2 where steps: "record_group_audit led (group_audit fr actor i (length related) (\<not> created)) = Inr l1"
    "(if created then insert_group cat l1 (group_row_for fr actor ads rds anchor related) else Inr l1) = Inr l2"
    "insert_group_receipt l2 \<lparr>gr_actor = actor, gr_key = key, gr_digest = dig, gr_group = i\<rparr> = Inr led'"
    using assms(1) unfolding write_group_Inr by blast
  have 1: "groups_ok l1 \<and> groups_extend led l1" by (rule groups_audit_kept [OF steps(1) assms(2)])
  then have 2: "groups_ok l2 \<and> groups_extend l1 l2"
    using steps(2) by (auto simp: groups_extend_def dest: groups_insert_kept split: if_splits)
  have 3: "groups_ok led' \<and> groups_extend l2 led'" by (rule groups_receipt_kept [OF steps(3)]) (use 2 in simp)
  show ?thesis using 1 2 3 by (blast intro: groups_extend_trans)
qed

lemma group_answer_same: "group_answer sv cat led i view replayed created m = Inr (r, led') \<Longrightarrow> led' = led"
  by (auto simp: group_answer_def rbind_Inr_iff split: option.splits)

lemma propose_group_kept:
  assumes "propose_group sv cat led fr actor key a b x ys = Inr (r, led')" "groups_ok led"
  shows "groups_ok led' \<and> groups_extend led led'"
proof -
  have "led' = led \<or> (\<exists>k dig ads rds anchor related i created. write_group cat led fr actor k dig ads rds anchor related = Inr (i, created, led'))"
    using assms(1) unfolding propose_group_def
    by (auto simp: rbind_Inr_iff split: if_splits option.splits prod.splits dest: group_answer_same)
  then show ?thesis using assms(2) write_group_kept by (auto simp: groups_extend_def)
qed

inductive group_step :: "services \<Rightarrow> group_ledger \<Rightarrow> group_ledger \<Rightarrow> bool" for sv where
  drafted: "propose_group sv cat led fr actor key a b x ys = Inr (r, led') \<Longrightarrow> group_step sv led led'"
| refused: "record_group_audit led e = Inr led' \<Longrightarrow> au_outcome e = ''denied'' \<Longrightarrow> group_step sv led led'"

lemma group_step_kept: "group_step sv a b \<Longrightarrow> groups_ok a \<Longrightarrow> groups_ok b \<and> groups_extend a b"
  by (cases rule: group_step.cases) (blast dest: propose_group_kept groups_audit_kept)+

interpretation drafts: growing_store "group_step sv" groups_ok groups_extend for sv
  by unfold_locales (auto simp: groups_extend_def dest: group_step_kept intro: prefix_order.trans)

abbreviation drafts_reach :: "services \<Rightarrow> group_ledger \<Rightarrow> group_ledger \<Rightarrow> bool" where
  "drafts_reach sv \<equiv> (group_step sv)\<^sup>*\<^sup>*"

lemma groups_ok_empty: "groups_ok empty_groups"
  by (simp add: groups_ok_def empty_groups_def)

lemma drafts_ok: "drafts_reach sv empty_groups led \<Longrightarrow> groups_ok led"
  using drafts.run_kept groups_ok_empty by blast

text \<open>C9. In every ledger of drafts that commands can reach, a draft stays, keeps its sorted distinct members, and is the
  only one of its composition (rule, anchor and related movements), whatever commands follow.\<close>

theorem one_draft_per_composition:
  assumes "drafts_reach sv empty_groups led" "drafts_reach sv led later" "g \<in> set (gl_groups led)"
  shows "filter (\<lambda>h. composition h = composition g) (gl_groups later) = [g] \<and> draft_ok g"
proof -
  note ok = drafts_ok [OF assms(1)]
  from drafts.run_kept [OF assms(2) ok] have ok': "groups_ok later" and ext: "groups_extend led later" by simp_all
  have "g \<in> set (gl_groups later)" using ext assms(3) by (auto simp: groups_extend_def prefix_def)
  then have "filter (\<lambda>h. composition h = composition g) (gl_groups later) = [g]"
    by (rule_tac filter_same_row) (use ok' in \<open>simp_all add: groups_ok_def\<close>)
  then show ?thesis using ok assms(3) by (simp add: groups_ok_def)
qed

section \<open>What a request is checked for\<close>

lemma uuid_fields:
  "map_result (\<lambda>v. uuid_field v f) zs = (if \<forall>v \<in> set zs. canonical_uuid v \<noteq> None
     then Inr (map (\<lambda>v. the (canonical_uuid v)) zs)
     else Inl (ReviewCommandError ''review-request-invalid'' (f @ '' must be a UUID'')))"
  by (induction zs) (auto simp: uuid_field_def split: option.splits)

text \<open>The members of a request are a set: their order does not matter.\<close>

lemma canonical_related_ids_perm:
  assumes "mset xs = mset ys"
  shows "canonical_related_ids xs = canonical_related_ids ys"
proof -
  have "sort (map f xs) = sort (map f ys)" for f :: "string \<Rightarrow> string"
    using assms by (intro properties_for_sort) simp_all
  moreover have "length xs = length ys" "set xs = set ys"
    using mset_eq_length [OF assms] mset_eq_setD [OF assms] by auto
  moreover have "distinct (map f xs) = distinct (map f ys)" for f :: "string \<Rightarrow> string"
    using assms by (intro mset_eq_imp_distinct_iff) simp
  ultimately show ?thesis unfolding canonical_related_ids_def uuid_fields by auto
qed

lemma member_order_is_irrelevant:
  "mset xs = mset ys \<Longrightarrow> propose_group sv cat led fr actor key a b x xs = propose_group sv cat led fr actor key a b x ys"
  unfolding propose_group_def using canonical_related_ids_perm [of xs ys] by simp

text \<open>The digest and the audit of a request always exist.\<close>

lemma group_digest: "\<exists>t. Reconciliation.digest sv (group_payload a b x ys) = Inr (sv_sha sv t)"
proof -
  have "map_result json_dump (map PStr ys) = Inr (map json_string ys)" by (induction ys) simp_all
  then show ?thesis
    by (simp add: digest_def group_payload_def canonical_json_def) (rule exI, rule refl)
qed

lemma group_audit_recorded:
  assumes "fr_audit fr \<notin> au_id ` set (gl_audits led)" "n \<le> 49"
  shows "record_group_audit led (group_audit fr actor i n reused)
    = Inr (led\<lparr>gl_audits := gl_audits led @ [group_audit fr actor i n reused]\<rparr>)"
proof -
  let ?e = "group_audit fr actor i n reused"
  have order: "sort_key fst (au_detail ?e) = [(''member_count'', PInt (int n)), (''reused'', PBool reused), (''rule_version'', PStr GROUP_RULE_VERSION)]"
    by (simp add: group_audit_def audit_of_def)
  obtain t where t: "audit_payload (au_detail ?e) = Inr t" and "t = ''{'' @ json_string ''member_count'' @ '': '' @ show_int (int n) @ '', ''
      @ json_string ''reused'' @ '': '' @ (if reused then ''true'' else ''false'') @ '', ''
      @ json_string ''rule_version'' @ '': '' @ json_string GROUP_RULE_VERSION @ ''}''"
    unfolding audit_payload_def order by (simp add: dump_item_def)
  moreover have "length (show_int (int n)) \<le> 2" using assms(2) by (simp add: show_int_def length_show_nat)
  ultimately have "length t \<le> 900"
    using json_string_len [of "''member_count''"] json_string_len [of "''reused''"] json_string_len [of "''rule_version''"]
      json_string_len [of GROUP_RULE_VERSION] by (simp add: GROUP_RULE_VERSION_def)
  then have "\<not> utf8_size t > MAX_AUDIT_DETAIL_BYTES"
    using utf8_size_le [of t] by (simp add: MAX_AUDIT_DETAIL_BYTES_def)
  moreover have "au_id ?e = fr_audit fr" by (simp add: group_audit_def audit_of_def)
  ultimately show ?thesis
    using t assms(1) by (simp add: record_group_audit_def record_audit_def empty_ledger_def)
qed

section \<open>Which drafts are accepted\<close>

text \<open>The movements of a new draft, when all are found and eligible.\<close>

definition draft_members :: "catalog \<Rightarrow> string \<Rightarrow> string \<Rightarrow> string \<Rightarrow> string list \<Rightarrow> (movement_row \<times> movement_row list) option" where
  "draft_members cat ads rds anchor related = (case movement_by_id cat anchor of None \<Rightarrow> None
   | Some am \<Rightarrow> if member_eligible cat ads am
        \<and> (\<forall>i \<in> set related. case movement_by_id cat i of None \<Rightarrow> False | Some m \<Rightarrow> related_eligible cat rds am m)
      then Some (am, map (\<lambda>i. the (movement_by_id cat i)) related) else None)"

definition totals_fit :: "movement_row \<Rightarrow> movement_row list \<Rightarrow> bool" where
  "totals_fit am ms = (\<bar>sum_list (map m_amount ms)\<bar> < 10 ^ 38 \<and> \<bar>m_amount am - sum_list (map m_amount ms)\<bar> < 10 ^ 38)"

definition receipt_key :: "group_command_receipt \<Rightarrow> string \<times> string \<times> string" where
  "receipt_key r = (gr_actor r, gr_key r, gr_group r)"

definition drafting_now :: "services \<Rightarrow> catalog \<Rightarrow> group_ledger \<Rightarrow> fresh \<Rightarrow> string \<Rightarrow> bool" where
  "drafting_now sv cat led fr actor = (actor \<in> fst ` set (ct_subjects cat) \<and> fr_id fr \<notin> gc_id ` set (gl_groups led)
     \<and> fr_audit fr \<notin> au_id ` set (gl_audits led) \<and> (\<forall>t. digest_shape (sv_sha sv t)))"

definition group_request ::
    "services \<Rightarrow> catalog \<Rightarrow> string \<Rightarrow> string \<Rightarrow> string \<Rightarrow> string \<Rightarrow> string list \<Rightarrow> string \<Rightarrow> string \<Rightarrow> string \<Rightarrow> string \<Rightarrow> string list \<Rightarrow> bool" where
  "group_request sv cat key a b x ys k ads rds anchor related = (idempotency_key key = Inr k \<and> canonical_uuid a = Some ads
     \<and> canonical_uuid b = Some rds \<and> canonical_uuid x = Some anchor \<and> canonical_related_ids ys = Inr related
     \<and> anchor \<notin> set related \<and> ads \<noteq> rds
     \<and> (\<exists>l r. load_eligible_pair sv cat (review_query ads rds DEFAULT_DATE_WINDOW_DAYS) = Inr (l, r)))"

lemma canonical_related_ids_Inr:
  "canonical_related_ids ys = Inr related \<Longrightarrow> sorted related \<and> distinct related \<and> 2 \<le> length related \<and> length related \<le> 49"
  using map_result_Inr [of "\<lambda>v. uuid_field v ''related_movement_ids''" ys]
  by (auto simp: canonical_related_ids_def rbind_Inr_iff split: if_splits)

lemma propose_group_run:
  assumes "group_request sv cat key a b x ys k ads rds anchor related" "group_receipt led actor k = None"
  obtains t where "propose_group sv cat led fr actor key a b x ys =
    rbind (write_group cat led fr actor k (sv_sha sv t) ads rds anchor related) (\<lambda>(i, created, led).
      group_answer sv cat led i ads False created ''created group proposal cannot be read back'')"
proof -
  obtain t where "Reconciliation.digest sv (group_payload ads rds anchor related) = Inr (sv_sha sv t)"
    using group_digest by blast
  moreover have "validated (review_query ads rds DEFAULT_DATE_WINDOW_DAYS) = Inr (review_query ads rds DEFAULT_DATE_WINDOW_DAYS)"
    using assms(1) by (simp add: group_request_def validated_def review_query_def MAX_DATE_WINDOW_DAYS_def MAX_CANDIDATE_OFFSET_def
        MAX_CANDIDATE_LIMIT_def DEFAULT_CANDIDATE_LIMIT_def REFERENCE_MODES_def DEFAULT_DATE_WINDOW_DAYS_def)
  ultimately show ?thesis
    using assms that [of t] unfolding group_request_def propose_group_def uuid_field_def by auto
qed

lemma group_receipt_None: "group_receipt led actor k = None \<longleftrightarrow> (actor, k) \<notin> (\<lambda>r. (gr_actor r, gr_key r)) ` set (gl_receipts led)"
  by (auto simp: group_receipt_def find_None_iff)

lemma existing_group_None:
  "existing_group led anchor related = None \<longleftrightarrow> (GROUP_RULE_VERSION, anchor, related) \<notin> composition ` set (gl_groups led)"
  by (simp add: existing_group_def find_None_iff image_iff) metis

lemma group_trigger_iff:
  assumes "sorted related" "distinct related" "anchor \<notin> set related"
    and "group_audit fr actor (fr_id fr) n False \<in> set (gl_audits led)"
  shows "group_trigger cat led (group_row_for fr actor ads rds anchor related) \<longleftrightarrow> draft_members cat ads rds anchor related \<noteq> None"
proof -
  have "list_ex (\<lambda>e. au_id e = fr_audit fr \<and> au_subject e = actor \<and> au_action e = ''match.group.propose''
      \<and> au_kind e = ''match_group_candidate'' \<and> au_resource e = fr_id fr \<and> au_outcome e = ''allowed'') (gl_audits led)"
    using assms(4) by (auto simp: list_ex_iff group_audit_def audit_of_def intro!: bexI [OF _ assms(4)])
  then show ?thesis
    using assms(1-3) by (simp add: group_trigger_def group_row_for_def draft_members_def split: option.splits)
qed

lemma draft_row_selected:
  assumes "draft_members cat ads rds anchor related = Some (am, ms)" "related \<noteq> []" "actor \<in> fst ` set (ct_subjects cat)"
  shows "\<exists>row. group_select cat (group_row_for fr actor ads rds anchor related)
    = (if totals_fit am ms then Inr [row] else Inl (DatabaseError ''22003'' ''''))"
proof -
  obtain name where name: "map_of (ct_subjects cat) actor = Some name"
    using assms(3) by (metis map_of_eq_None_iff not_None_eq)
  have found: "movement_by_id cat anchor = Some am" "ms = map (\<lambda>i. the (movement_by_id cat i)) related"
    "\<forall>i \<in> set related. movement_by_id cat i \<noteq> None"
    using assms(1) by (auto simp: draft_members_def split: option.splits if_splits)
  have "concat (map (\<lambda>i. case movement_by_id cat i of None \<Rightarrow> [] | Some m \<Rightarrow> [m]) related) = ms"
    using found(3) unfolding found(2) by (induction related) auto
  moreover have "ms \<noteq> []" using found(2) assms(2) by simp
  ultimately show ?thesis
    using name found(1) by (cases ms) (auto simp: group_select_def group_row_for_def numeric_38_12_def totals_fit_def)
qed

lemma group_unavailable_sum:
  "write_group cat led fr actor key dig ads rds anchor related = Inl group_unavailable"
  if "existing_group led anchor related = None" "fr_audit fr \<notin> au_id ` set (gl_audits led)" "length related \<le> 49"
    "\<not> group_trigger cat (led\<lparr>gl_audits := gl_audits led @ [group_audit fr actor (fr_id fr) (length related) False]\<rparr>)
       (group_row_for fr actor ads rds anchor related)"
  using that by (simp add: write_group_def group_audit_recorded insert_group_def check_violation_def)

text \<open>C8. A request for a new composition adds exactly one draft, one audit event and one receipt when its members are
  eligible and the totals fit into numeric(38,12); with a member that is not eligible it is refused as unavailable.\<close>

theorem draft_is_accepted_exactly_when:
  assumes "drafting_now sv cat led fr actor" "group_request sv cat key a b x ys k ads rds anchor related"
    and "group_receipt led actor k = None" "existing_group led anchor related = None"
  shows "case draft_members cat ads rds anchor related of
      None \<Rightarrow> propose_group sv cat led fr actor key a b x ys = Inl group_unavailable
    | Some (am, ms) \<Rightarrow> if totals_fit am ms
        then \<exists>r led'. propose_group sv cat led fr actor key a b x ys = Inr (r, led') \<and> gp_created r
          \<and> gl_groups led' = gl_groups led @ [group_row_for fr actor ads rds anchor related]
          \<and> gl_audits led' = gl_audits led @ [group_audit fr actor (fr_id fr) (length related) False]
          \<and> map receipt_key (gl_receipts led') = map receipt_key (gl_receipts led) @ [(actor, k, fr_id fr)]
        else propose_group sv cat led fr actor key a b x ys = Inl (DatabaseError ''22003'' '''')"
proof -
  obtain t where run: "propose_group sv cat led fr actor key a b x ys =
      rbind (write_group cat led fr actor k (sv_sha sv t) ads rds anchor related) (\<lambda>(i, created, led).
        group_answer sv cat led i ads False created ''created group proposal cannot be read back'')"
    by (rule propose_group_run [OF assms(2,3)])
  have req: "sorted related" "distinct related" "2 \<le> length related" "length related \<le> 49" "anchor \<notin> set related" "ads \<noteq> rds"
    "rx_match Reconciliation.IDEMPOTENCY_KEY k"
    using assms(2) canonical_related_ids_Inr [of ys related] key_matches [of key k] unfolding group_request_def by blast+
  have now: "actor \<in> fst ` set (ct_subjects cat)" "fr_id fr \<notin> gc_id ` set (gl_groups led)"
    "fr_audit fr \<notin> au_id ` set (gl_audits led)" "digest_shape (sv_sha sv t)"
    using assms(1) by (auto simp: drafting_now_def)
  define e where "e = group_audit fr actor (fr_id fr) (length related) False"
  define g where "g = group_row_for fr actor ads rds anchor related"
  define l1 where "l1 = led\<lparr>gl_audits := gl_audits led @ [e]\<rparr>"
  have g: "gc_id g = fr_id fr" "gc_anchor_dataset g = ads" "gc_related_dataset g = rds" "gc_related g = related" "gc_proposer g = actor"
    "composition g = (GROUP_RULE_VERSION, anchor, related)"
    by (simp_all add: g_def group_row_for_def composition_def)
  have trigger: "group_trigger cat l1 g \<longleftrightarrow> draft_members cat ads rds anchor related \<noteq> None"
    unfolding g_def by (rule group_trigger_iff [where n = "length related"]) (use req in \<open>simp_all add: l1_def e_def\<close>)
  show ?thesis
  proof (cases "draft_members cat ads rds anchor related")
    case None
    then have "write_group cat led fr actor k (sv_sha sv t) ads rds anchor related = Inl group_unavailable"
      using trigger req(4) now(3) assms(4) by (intro group_unavailable_sum) (simp_all add: l1_def e_def g_def)
    then show ?thesis unfolding run None by simp
  next
    case (Some p)
    obtain am ms where p: "p = (am, ms)" by (cases p)
    define l2 where "l2 = l1\<lparr>gl_groups := gl_groups led @ [g]\<rparr>"
    define r where "r = \<lparr>gr_actor = actor, gr_key = k, gr_digest = sv_sha sv t, gr_group = fr_id fr\<rparr>"
    have "insert_group cat l1 g = Inr l2"
      using Some trigger g req(3,4,6) now(1,2) assms(4) unfolding insert_group_Inr existing_group_None
      by (simp add: l2_def l1_def)
    moreover have "insert_group_receipt l2 r = Inr (l2\<lparr>gl_receipts := gl_receipts led @ [r]\<rparr>)"
      using assms(3) req(7) now(4) g(1) unfolding insert_group_receipt_Inr group_receipt_None by (simp add: l2_def l1_def r_def)
    ultimately have written: "write_group cat led fr actor k (sv_sha sv t) ads rds anchor related
        = Inr (fr_id fr, True, l2\<lparr>gl_receipts := gl_receipts led @ [r]\<rparr>)"
      using group_audit_recorded [OF now(3) req(4)] assms(4)
      unfolding write_group_Inr by (simp add: l1_def e_def g_def r_def)
    have first: "find (\<lambda>h. gc_id h = fr_id fr) (gl_groups led @ [g]) = Some g"
    proof -
      have "find (\<lambda>h. gc_id h = fr_id fr) (gl_groups led) = None" using now(2) by (force simp: find_None_iff)
      then show ?thesis using g(1) by (simp add: find_append)
    qed
    have ne: "related \<noteq> []" using req(3) by auto
    obtain row where "group_select cat g = (if totals_fit am ms then Inr [row] else Inl (DatabaseError ''22003'' ''''))"
      using draft_row_selected [OF Some [unfolded p] ne now(1), of fr] unfolding g_def by blast
    then show ?thesis
      unfolding run written Some p
      by (simp add: group_answer_def load_group_def l2_def first) (simp add: g_def l1_def e_def r_def receipt_key_def)
  qed
qed


text \<open>A request for a composition that has a draft is answered with that draft and adds none, although the same
  request would be refused if the composition were new: its datasets are not compared with those of the movements.\<close>

theorem known_compositions_are_not_checked:
  assumes "drafts_reach sv empty_groups led" "drafting_now sv cat led fr actor"
    and "group_request sv cat key a b x ys k ads rds anchor related" "group_receipt led actor k = None"
    and "existing_group led anchor related = Some g" "group_select cat g = Inr [row]"
  shows "\<exists>r led'. propose_group sv cat led fr actor key a b x ys = Inr (r, led') \<and> \<not> gp_created r
    \<and> gp_group r = group_from_row sv ads row \<and> gl_groups led' = gl_groups led"
proof -
  obtain t where run: "propose_group sv cat led fr actor key a b x ys =
      rbind (write_group cat led fr actor k (sv_sha sv t) ads rds anchor related) (\<lambda>(i, created, led).
        group_answer sv cat led i ads False created ''created group proposal cannot be read back'')"
    by (rule propose_group_run [OF assms(3,4)])
  have req: "length related \<le> 49" "rx_match Reconciliation.IDEMPOTENCY_KEY k"
    using assms(3) canonical_related_ids_Inr [of ys related] key_matches [of key k] unfolding group_request_def by blast+
  have now: "fr_audit fr \<notin> au_id ` set (gl_audits led)" "digest_shape (sv_sha sv t)"
    using assms(2) by (auto simp: drafting_now_def)
  have g: "g \<in> set (gl_groups led)"
    using assms(5) unfolding existing_group_def by (metis find_Some_iff nth_mem)
  define l1 where "l1 = led\<lparr>gl_audits := gl_audits led @ [group_audit fr actor (gc_id g) (length related) True]\<rparr>"
  define r where "r = \<lparr>gr_actor = actor, gr_key = k, gr_digest = sv_sha sv t, gr_group = gc_id g\<rparr>"
  have "insert_group_receipt l1 r = Inr (l1\<lparr>gl_receipts := gl_receipts led @ [r]\<rparr>)"
    using assms(4) req(2) now(2) g unfolding insert_group_receipt_Inr group_receipt_None by (simp add: l1_def r_def)
  then have written: "write_group cat led fr actor k (sv_sha sv t) ads rds anchor related
      = Inr (gc_id g, False, l1\<lparr>gl_receipts := gl_receipts led @ [r]\<rparr>)"
    using group_audit_recorded [OF now(1) req(1)] assms(5) unfolding write_group_Inr by (simp add: l1_def r_def)
  have "find (\<lambda>h. gc_id h = gc_id g) (gl_groups led) = Some g"
    using drafts_ok [OF assms(1)] g by (intro find_distinct_row) (simp_all add: groups_ok_def)
  then show ?thesis
    unfolding run written using assms(6) by (simp add: group_answer_def load_group_def l1_def)
qed

section \<open>A draft of the sample company\<close>

definition sample_related :: "string list" where "sample_related = [m_id nameless, m_id receipt_move]"

lemma sample_group_ids [simp]: "canonical_uuid (m_id nameless) = Some (m_id nameless)" "sorted sample_related" "distinct sample_related"
  "m_id payment \<notin> set sample_related" "length sample_related = 2"
  using uuid_text_mono [of 20 21] by (simp_all add: sample_movements canonical_uuid_text sample_related_def uuid_text_inject)


lemma sample_request:
  "group_request sample_services sample_catalog key_one ds_a ds_b (m_id payment) [m_id receipt_move, m_id nameless]
     key_one ds_a ds_b (m_id payment) sample_related"
  "group_request sample_services sample_catalog key_two ds_b ds_a (m_id payment) sample_related
     key_two ds_b ds_a (m_id payment) sample_related"
proof -
  have "canonical_related_ids sample_related = Inr sample_related"
    using sample_group_ids by (simp add: canonical_related_ids_def uuid_field_def sort_key_id_if_sorted sample_related_def)
  moreover have "canonical_related_ids [m_id receipt_move, m_id nameless] = canonical_related_ids sample_related"
    by (rule canonical_related_ids_perm) (simp add: sample_related_def)
  moreover have "load_eligible_pair sample_services sample_catalog (review_query ds_b ds_a DEFAULT_DATE_WINDOW_DAYS)
      = Inr (sample_dataset ds_b, sample_dataset ds_a)"
    by (auto simp: load_eligible_pair_iff review_query_def sample_services_def dataset_rows_def sample_catalog_def sample_dataset_def
        eligible_dataset_def ELIGIBLE_DATASET_STATES_def ELIGIBLE_COMPLETENESS_STATES_def)
  ultimately show
    "group_request sample_services sample_catalog key_one ds_a ds_b (m_id payment) [m_id receipt_move, m_id nameless]
       key_one ds_a ds_b (m_id payment) sample_related"
    "group_request sample_services sample_catalog key_two ds_b ds_a (m_id payment) sample_related
       key_two ds_b ds_a (m_id payment) sample_related"
    using sample_eligible [of DEFAULT_DATE_WINDOW_DAYS] by (simp_all add: group_request_def)
qed

lemma sample_members:
  "draft_members sample_catalog ds_a ds_b (m_id payment) sample_related = Some (payment, [nameless, receipt_move])"
  "draft_members sample_catalog ds_b ds_a (m_id payment) sample_related = None"
  by (simp_all add: draft_members_def movement_by_id_def sample_catalog_def sample_related_def member_eligible_def related_eligible_def
      dataset_of_def live_movement_def sample_dataset_def eligible_dataset_def ELIGIBLE_DATASET_STATES_def
      ELIGIBLE_COMPLETENESS_STATES_def sample_movements uuid_text_inject)

lemma sample_totals: "totals_fit payment [nameless, receipt_move]"
  by (simp add: totals_fit_def sample_movements)

lemma sample_drafting: "drafting_now sample_services sample_catalog empty_groups fresh_one ''ana''"
  using sample_digest by (simp add: drafting_now_def empty_groups_def sample_catalog_def)

lemma empty_group_lookups [simp]: "group_receipt empty_groups actor k = None" "existing_group empty_groups anchor related = None"
  "gl_groups empty_groups = []"
  by (simp_all add: group_receipt_def existing_group_def empty_groups_def)

theorem draft_is_accepted_exactly_when_witness:
  "(\<exists>r led'. propose_group sample_services sample_catalog empty_groups fresh_one ''ana'' key_one ds_a ds_b (m_id payment)
      [m_id receipt_move, m_id nameless] = Inr (r, led') \<and> gp_created r
      \<and> gl_groups led' = [group_row_for fresh_one ''ana'' ds_a ds_b (m_id payment) sample_related])
   \<and> propose_group sample_services sample_catalog empty_groups fresh_one ''ana'' key_two ds_b ds_a (m_id payment) sample_related
      = Inl group_unavailable"
  using draft_is_accepted_exactly_when [OF sample_drafting sample_request(1) empty_group_lookups(1,2)]
    draft_is_accepted_exactly_when [OF sample_drafting sample_request(2) empty_group_lookups(1,2)]
  by (auto simp: sample_members sample_totals)


lemma sample_draft:
  obtains r led where "propose_group sample_services sample_catalog empty_groups fresh_one ''ana'' key_one ds_a ds_b (m_id payment)
      [m_id receipt_move, m_id nameless] = Inr (r, led)" "drafts_reach sample_services empty_groups led"
    "gl_groups led = [group_row_for fresh_one ''ana'' ds_a ds_b (m_id payment) sample_related]"
    "drafting_now sample_services sample_catalog led fresh_two ''luis''" "group_receipt led ''luis'' key_two = None"
    "existing_group led (m_id payment) sample_related = Some (group_row_for fresh_one ''ana'' ds_a ds_b (m_id payment) sample_related)"
proof -
  obtain r led where run: "propose_group sample_services sample_catalog empty_groups fresh_one ''ana'' key_one ds_a ds_b (m_id payment)
        [m_id receipt_move, m_id nameless] = Inr (r, led)"
      "gl_groups led = [group_row_for fresh_one ''ana'' ds_a ds_b (m_id payment) sample_related]"
      "map au_id (gl_audits led) = [''audit-1'']" "map receipt_key (gl_receipts led) = [(''ana'', key_one, uuid_text 100)]"
    using draft_is_accepted_exactly_when [OF sample_drafting sample_request(1) empty_group_lookups(1,2)]
    by (auto simp: sample_members sample_totals empty_groups_def group_audit_def audit_of_def fresh_one_def)
  have "drafts_reach sample_services empty_groups led" using run(1) by (intro r_into_rtranclp group_step.drafted)
  moreover have "au_id ` set (gl_audits led) = {''audit-1''}" using run(3) by (metis list.set(1,2) list.set_map)
  then have "drafting_now sample_services sample_catalog led fresh_two ''luis''"
    using sample_digest run(2) by (simp add: drafting_now_def sample_catalog_def fresh_two_def fresh_one_def group_row_for_def uuid_text_inject)
  moreover have "group_receipt led ''luis'' key_two = None"
    using run(4) by (cases "gl_receipts led") (auto simp: group_receipt_def receipt_key_def)
  moreover have "existing_group led (m_id payment) sample_related = Some (group_row_for fresh_one ''ana'' ds_a ds_b (m_id payment) sample_related)"
    by (simp add: existing_group_def run(2) composition_def group_row_for_def)
  ultimately show ?thesis using run by (intro that) simp_all
qed

lemma draft_row_known:
  obtains row where "group_select sample_catalog (group_row_for fresh_one ''ana'' ds_a ds_b (m_id payment) sample_related) = Inr [row]"
  using draft_row_selected [OF sample_members(1), of "''ana''" fresh_one] sample_totals
  by (auto simp: sample_related_def sample_catalog_def)

theorem known_compositions_are_not_checked_witness:
  "\<exists>led r led'. propose_group sample_services sample_catalog led fresh_two ''luis'' key_two ds_b ds_a (m_id payment) sample_related
      = Inr (r, led') \<and> \<not> gp_created r \<and> draft_members sample_catalog ds_b ds_a (m_id payment) sample_related = None"
proof -
  obtain r led where led: "drafts_reach sample_services empty_groups led" "drafting_now sample_services sample_catalog led fresh_two ''luis''"
      "group_receipt led ''luis'' key_two = None"
      "existing_group led (m_id payment) sample_related = Some (group_row_for fresh_one ''ana'' ds_a ds_b (m_id payment) sample_related)"
    by (rule sample_draft)
  obtain row where "group_select sample_catalog (group_row_for fresh_one ''ana'' ds_a ds_b (m_id payment) sample_related) = Inr [row]"
    by (rule draft_row_known)
  from known_compositions_are_not_checked [OF led(1,2) sample_request(2) led(3,4) this] sample_members(2) show ?thesis by blast
qed

theorem one_draft_per_composition_witness:
  "\<exists>led g. drafts_reach sample_services empty_groups led \<and> g \<in> set (gl_groups led)
     \<and> filter (\<lambda>h. composition h = composition g) (gl_groups led) = [g] \<and> draft_ok g"
proof -
  obtain r led where led: "drafts_reach sample_services empty_groups led"
      "gl_groups led = [group_row_for fresh_one ''ana'' ds_a ds_b (m_id payment) sample_related]"
    by (rule sample_draft)
  then show ?thesis using one_draft_per_composition [OF led(1) rtranclp.rtrancl_refl, of "hd (gl_groups led)"] by auto
qed

theorem draft_difference_is_exact_witness:
  "\<exists>led v. load_group sample_services sample_catalog led (uuid_text 100) ds_a = Inr (Some v)
     \<and> text_amount (gv_difference v) = text_amount (mw_amount (gv_anchor v)) - text_amount (gv_total v)
     \<and> gl_groups led = [group_row_for fresh_one ''ana'' ds_a ds_b (m_id payment) sample_related]"
proof -
  let ?g = "group_row_for fresh_one ''ana'' ds_a ds_b (m_id payment) sample_related"
  obtain row where "group_select sample_catalog ?g = Inr [row]" by (rule draft_row_known)
  moreover have "gc_id ?g = uuid_text 100" by (simp add: group_row_for_def fresh_one_def)
  ultimately have "load_group sample_services sample_catalog (empty_groups\<lparr>gl_groups := [?g]\<rparr>) (uuid_text 100) ds_a
      = Inr (Some (group_from_row sample_services ds_a row))"
    by (simp add: load_group_def)
  with draft_difference_is_exact [OF this] show ?thesis by (intro exI conjI) auto
qed

end
