(* ===== verification/CloseReadiness.thy ===== *)
theory CloseReadiness
  imports Reconciliation
begin

text \<open>
  \<open>apps/api/src/fincilia_api/close_readiness.py\<close>: the diagnosis of the newest periods. The tables are lists of
  rows of one company; every query of the module is an expression over them. Identifiers are UUIDs in
  canonical text, never empty, so their truth value is their presence. The collation of the database
  and the local date of a balance (\<open>as_of AT TIME ZONE source_timezone\<close>) are fields of the tables.
\<close>

section \<open>Tables\<close>

record expectation_row =
  xp_id :: string
  xp_source :: string
  xp_account :: "string option"
  xp_start :: date
  xp_end :: date
  xp_state :: string
  xp_satisfied :: "string option"

record dataset_version =
  dv_id :: string
  dv_artifact :: string
  dv_state :: string
  dv_completeness :: string
  dv_lineage :: string
  dv_rejected :: nat
  dv_movements :: nat
  dv_prepared :: nat

record dated_movement =
  dm_id :: string
  dm_dataset :: string
  dm_accounting :: "date option"

record quality_issue =
  qi_id :: string
  qi_scope :: string
  qi_ref :: string
  qi_severity :: string
  qi_status :: string

record balance_row =
  ab_dataset :: string
  ab_account :: string
  ab_type :: string
  ab_date :: date
  ab_lineage :: string

record assessment_row =
  am_id :: string
  am_expectation :: string
  am_dataset :: string
  am_account :: "string option"
  am_state :: string
  am_lineage :: string
  am_created :: nat

record statement_root_row =
  sr_id :: string
  sr_account :: string
  sr_start :: date
  sr_end :: date

record statement_row =
  st_id :: string
  st_root :: string
  st_account :: string
  st_start :: date
  st_end :: date
  st_version :: nat
  st_state :: string
  st_lineage :: string
  st_assessments :: "string list"
  st_created :: nat

text \<open>
  Sources and accounts by identifier (an account has a family and a name), overlays with their dataset,
  reviews of overlays with their decision, the overlays that have been applied.
\<close>

record close_tables =
  tb_expectations :: "expectation_row list"
  tb_sources :: "(string \<times> string) list"
  tb_accounts :: "(string \<times> string \<times> string) list"
  tb_datasets :: "dataset_version list"
  tb_movements :: "dated_movement list"
  tb_reviews :: review_ledger
  tb_issues :: "quality_issue list"
  tb_overlays :: "(string \<times> string) list"
  tb_overlay_reviews :: "(string \<times> string) list"
  tb_applied :: "string list"
  tb_balances :: "balance_row list"
  tb_assessments :: "assessment_row list"
  tb_roots :: "statement_root_row list"
  tb_statements :: "statement_row list"
  tb_collation :: "string \<Rightarrow> nat"

datatype close_error = CloseReadinessError string string | CloseReviewError string string
  | ClosePeriodError string string | Underlying rec_error

type_synonym 'a close_answer = "(close_error, 'a) result"

section \<open>Vocabulary\<close>

definition CLOSE_READINESS_DEFAULT :: int where "CLOSE_READINESS_DEFAULT = 12"
definition CLOSE_READINESS_MAX :: int where "CLOSE_READINESS_MAX = 24"
definition MAX_EXPECTATIONS :: nat where "MAX_EXPECTATIONS = 1200"

definition validated_limit :: "int \<Rightarrow> int close_answer" where
  "validated_limit limit = (if \<not> (1 \<le> limit \<and> limit \<le> CLOSE_READINESS_MAX)
     then Inl (CloseReadinessError ''close-readiness-limit-invalid'' ''limit must be between 1 and 24'') else Inr limit)"

text \<open>The states that \<open>_control\<close> accepts are the constructors of a type.\<close>

datatype control_state = Pass | Blocked | Unavailable

definition state_text :: "control_state \<Rightarrow> string" where
  "state_text s = (case s of Pass \<Rightarrow> ''pass'' | Blocked \<Rightarrow> ''blocked'' | Unavailable \<Rightarrow> ''unavailable'')"

record control =
  cl_code :: string
  cl_state :: control_state
  cl_count :: nat
  cl_detail :: string

definition control_of :: "string \<Rightarrow> control_state \<Rightarrow> nat \<Rightarrow> string \<Rightarrow> control" where
  "control_of control_code state n detail = \<lparr>cl_code = control_code, cl_state = state, cl_count = n, cl_detail = detail\<rparr>"

section \<open>Periods and their sources\<close>

text \<open>The first row of an \<open>ORDER BY key DESC LIMIT 1\<close>; the keys end in a primary key.\<close>

definition latest_by :: "('a \<Rightarrow> 'k::linorder) \<Rightarrow> 'a list \<Rightarrow> 'a option" where
  "latest_by key xs = (case sort_key key xs of [] \<Rightarrow> None | y # ys \<Rightarrow> Some (last (y # ys)))"

definition newest_periods :: "close_tables \<Rightarrow> int \<Rightarrow> (date \<times> date) list" where
  "newest_periods tb limit = take (nat limit) (rev (sort (remdups (map (\<lambda>e. (xp_end e, xp_start e)) (tb_expectations tb)))))"

definition state_rank :: "string \<Rightarrow> int" where
  "state_rank s = (if s = ''published'' then 0 else if s = ''validated'' then 1 else 2)"

definition chosen_dataset :: "close_tables \<Rightarrow> expectation_row \<Rightarrow> dataset_version option" where
  "chosen_dataset tb e = latest_by (\<lambda>d. (- state_rank (dv_state d), dv_prepared d, dv_id d))
     (filter (\<lambda>d. Some (dv_artifact d) = xp_satisfied e) (tb_datasets tb))"

type_synonym period_row = "expectation_row \<times> string \<times> dataset_version option \<times> (string \<times> string) option"

definition expectation_rows :: "close_tables \<Rightarrow> date \<times> date \<Rightarrow> period_row list" where
  "expectation_rows tb p = sort_key (\<lambda>(e, name, _). (tb_collation tb name, xp_id e))
     (concat (map (\<lambda>e. case map_of (tb_sources tb) (xp_source e) of None \<Rightarrow> []
          | Some name \<Rightarrow> [(e, name, chosen_dataset tb e, Option.bind (xp_account e) (map_of (tb_accounts tb)))])
        (filter (\<lambda>e. (xp_end e, xp_start e) = p) (tb_expectations tb))))"

definition period_rows :: "close_tables \<Rightarrow> int \<Rightarrow> period_row list close_answer" where
  "period_rows tb limit =
     (let rows = take (MAX_EXPECTATIONS + 1) (concat (map (expectation_rows tb) (newest_periods tb limit))) in
      if length rows > MAX_EXPECTATIONS
      then Inl (CloseReadinessError ''close-readiness-scope-too-large''
        ''the selected periods contain more than 1200 expectations; reduce the period window'')
      else Inr rows)"

record source_view =
  so_expectation :: string
  so_source :: string
  so_name :: string
  so_account :: "string option"
  so_start :: string
  so_end :: string
  so_state :: string
  so_artifact :: "string option"
  so_dataset :: "string option"
  so_dataset_state :: "string option"
  so_completeness :: "string option"
  so_lineage :: "string option"
  so_rejected :: nat
  so_movements :: nat
  so_prepared :: "string option"
  so_family :: "string option"
  so_account_name :: "string option"
  so_rule :: string

definition row_source :: "services \<Rightarrow> period_row \<Rightarrow> source_view" where
  "row_source sv row = (case row of (e, name, chosen, account) \<Rightarrow>
     \<lparr>so_expectation = xp_id e, so_source = xp_source e, so_name = name, so_account = xp_account e,
      so_start = isoformat (xp_start e), so_end = isoformat (xp_end e), so_state = xp_state e, so_artifact = xp_satisfied e,
      so_dataset = map_option dv_id chosen, so_dataset_state = map_option dv_state chosen,
      so_completeness = map_option dv_completeness chosen, so_lineage = map_option dv_lineage chosen,
      so_rejected = (case chosen of None \<Rightarrow> 0 | Some d \<Rightarrow> dv_rejected d),
      so_movements = (case chosen of None \<Rightarrow> 0 | Some d \<Rightarrow> dv_movements d),
      so_prepared = map_option (\<lambda>d. sv_iso sv (dv_prepared d)) chosen,
      so_family = map_option fst account, so_account_name = map_option snd account,
      so_rule = (if chosen \<noteq> None then ''published_then_validated_then_latest_for_satisfied_artifact''
        else ''no_dataset_for_satisfied_artifact'')\<rparr>)"


section \<open>Evidence of a dataset\<close>

record dataset_check =
  dc_missing_dates :: nat
  dc_open_candidates :: "string list"
  dc_high_issues :: "string list"
  dc_proposed :: nat
  dc_unapplied :: nat

definition movement_dataset :: "close_tables \<Rightarrow> string \<Rightarrow> string option" where
  "movement_dataset tb i = map_option dm_dataset (find (\<lambda>m. dm_id m = i) (tb_movements tb))"

definition missing_accounting_dates :: "close_tables \<Rightarrow> string \<Rightarrow> nat" where
  "missing_accounting_dates tb ds = length (filter (\<lambda>m. dm_dataset m = ds \<and> dm_accounting m = None) (tb_movements tb))"

text \<open>Candidates without decision of which both movements exist and one is of the dataset.\<close>

definition open_candidates :: "close_tables \<Rightarrow> string \<Rightarrow> string list" where
  "open_candidates tb ds = map mc_id (filter (\<lambda>c. decision_for (tb_reviews tb) (mc_id c) = None
       \<and> (case (movement_dataset tb (mc_left c), movement_dataset tb (mc_right c)) of
            (Some l, Some r) \<Rightarrow> ds = l \<or> ds = r | _ \<Rightarrow> False)) (lg_candidates (tb_reviews tb)))"

definition active_high_issues :: "close_tables \<Rightarrow> string \<Rightarrow> string list" where
  "active_high_issues tb ds = map qi_id (filter (\<lambda>q. qi_status q \<in> set [''open'', ''acknowledged''] \<and> qi_severity q = ''high''
       \<and> ((qi_scope q = ''dataset'' \<and> qi_ref q = ds) \<or> (qi_scope q = ''movement'' \<and> movement_dataset tb (qi_ref q) = Some ds)))
     (tb_issues tb))"

definition proposed_corrections :: "close_tables \<Rightarrow> string \<Rightarrow> nat" where
  "proposed_corrections tb ds = length (filter (\<lambda>(i, d). d = ds \<and> map_of (tb_overlay_reviews tb) i = None) (tb_overlays tb))"

definition unapplied_corrections :: "close_tables \<Rightarrow> string \<Rightarrow> nat" where
  "unapplied_corrections tb ds = length (filter (\<lambda>(i, d). d = ds
     \<and> map_of (tb_overlay_reviews tb) i = Some ''approved'' \<and> i \<notin> set (tb_applied tb)) (tb_overlays tb))"

definition dataset_checks :: "close_tables \<Rightarrow> string list \<Rightarrow> (string \<times> dataset_check) list" where
  "dataset_checks tb ids = map (\<lambda>ds. (ds, \<lparr>dc_missing_dates = missing_accounting_dates tb ds,
     dc_open_candidates = open_candidates tb ds, dc_high_issues = active_high_issues tb ds,
     dc_proposed = proposed_corrections tb ds, dc_unapplied = unapplied_corrections tb ds\<rparr>)) ids"

definition count_unique :: "dataset_check list \<Rightarrow> (dataset_check \<Rightarrow> string list) \<Rightarrow> nat" where
  "count_unique checks field = length (remdups (concat (map field checks)))"

text \<open>The dictionaries by dataset and account, by expectation and dataset, by account and period.\<close>

type_synonym balance_lookup = "string \<Rightarrow> string \<Rightarrow> balance_row list"
type_synonym assessment_lookup = "string \<Rightarrow> string \<Rightarrow> assessment_row option"
type_synonym statement_lookup = "string \<Rightarrow> date \<Rightarrow> date \<Rightarrow> (statement_root_row \<times> statement_row) option"

definition balance_checks :: "close_tables \<Rightarrow> string list \<Rightarrow> balance_lookup" where
  "balance_checks tb ids ds acc = filter (\<lambda>b. ab_dataset b = ds \<and> ds \<in> set ids \<and> ab_account b = acc) (tb_balances tb)"

definition assessment_checks :: "close_tables \<Rightarrow> source_view list \<Rightarrow> assessment_lookup" where
  "assessment_checks tb sources xp ds =
     (if (xp, Some ds) \<in> (\<lambda>s. (so_expectation s, so_dataset s)) ` set sources
      then latest_by (\<lambda>a. (am_created a, am_id a)) (filter (\<lambda>a. am_expectation a = xp \<and> am_dataset a = ds) (tb_assessments tb))
      else None)"

definition statement_checks :: "close_tables \<Rightarrow> (date \<times> date) list \<Rightarrow> statement_lookup" where
  "statement_checks tb periods acc period_start period_end =
     latest_by (\<lambda>(r, s). (st_version s, st_created s, st_id s))
       (filter (\<lambda>(r, s). st_root s = sr_id r \<and> sr_account r = acc \<and> sr_start r = period_start \<and> sr_end r = period_end
          \<and> (period_start, period_end) \<in> set periods) (List.product (tb_roots tb) (tb_statements tb)))"

section \<open>A period\<close>

record account_view =
  av_account :: string
  av_name :: "string option"
  av_sources :: nat
  av_assessments :: nat
  av_root :: "string option"
  av_statement :: "string option"
  av_version :: "nat option"
  av_state :: "string option"
  av_lineage :: "string option"
  av_coverage :: string

record period_item =
  pi_start :: string
  pi_end :: string
  pi_status :: string
  pi_close_ready :: bool
  pi_can_execute :: bool
  pi_sources_count :: nat
  pi_selected :: nat
  pi_accounts :: nat
  pi_unassigned :: nat
  pi_controls :: "control list"
  pi_blockers :: "(string \<times> nat \<times> string) list"
  pi_sources :: "source_view list"
  pi_reconciliations :: "account_view list"

definition how_many :: "('a \<Rightarrow> bool) \<Rightarrow> 'a list \<Rightarrow> nat" where
  "how_many P xs = length (filter P xs)"

definition required_type :: "source_view \<Rightarrow> string" where
  "required_type s = (if so_family s = Some ''accounting_ledger'' then ''ledger'' else ''closing'')"

definition balance_candidates :: "date \<Rightarrow> date \<Rightarrow> balance_lookup \<Rightarrow> source_view \<Rightarrow> balance_row list" where
  "balance_candidates period_start period_end balances s = (case (so_dataset s, so_account s) of
     (Some ds, Some acc) \<Rightarrow> filter (\<lambda>b. ab_type b = required_type s \<and> period_start \<le> ab_date b \<and> ab_date b \<le> period_end) (balances ds acc)
   | _ \<Rightarrow> [])"

definition balance_observed :: "date \<Rightarrow> date \<Rightarrow> balance_lookup \<Rightarrow> source_view \<Rightarrow> bool" where
  "balance_observed period_start period_end balances s = (balance_candidates period_start period_end balances s \<noteq> [])"

definition balance_eligible :: "date \<Rightarrow> date \<Rightarrow> balance_lookup \<Rightarrow> source_view \<Rightarrow> bool" where
  "balance_eligible period_start period_end balances s =
     list_ex (\<lambda>b. ab_lineage b = ''complete'') (balance_candidates period_start period_end balances s)"

text \<open>The assessment of a source that counts, if it has one.\<close>

definition eligible_assessment :: "assessment_lookup \<Rightarrow> source_view \<Rightarrow> string option" where
  "eligible_assessment assessments s = (case (so_dataset s, so_account s) of
     (Some ds, Some acc) \<Rightarrow> (case assessments (so_expectation s) ds of None \<Rightarrow> None
       | Some a \<Rightarrow> if am_account a = Some acc \<and> am_state a = ''verified'' \<and> am_lineage a = ''complete'' then Some (am_id a) else None)
   | _ \<Rightarrow> None)"

definition coverage_state :: "nat \<Rightarrow> string list \<Rightarrow> (statement_root_row \<times> statement_row) option \<Rightarrow> string" where
  "coverage_state sources expected_ids statement =
     (if length expected_ids \<noteq> sources then ''missing_assessment''
      else case statement of None \<Rightarrow> ''missing_statement''
      | Some (r, s) \<Rightarrow> if sort (st_assessments s) \<noteq> expected_ids then ''stale_inputs''
          else if st_state s \<noteq> ''balanced'' then ''review_required'' else ''covered'')"

definition account_view_of ::
    "date \<Rightarrow> date \<Rightarrow> source_view list \<Rightarrow> assessment_lookup \<Rightarrow> statement_lookup \<Rightarrow> string \<Rightarrow> account_view" where
  "account_view_of period_start period_end sources assessments statements acc =
     (let own = filter (\<lambda>s. so_account s = Some acc) sources;
          expected_ids = sort (concat (map (\<lambda>s. case eligible_assessment assessments s of None \<Rightarrow> [] | Some i \<Rightarrow> [i]) own));
          statement = statements acc period_start period_end in
      \<lparr>av_account = acc, av_name = Option.bind (map_of (rev (map (\<lambda>s. (so_account s, so_account_name s)) sources)) (Some acc)) id,
       av_sources = length own, av_assessments = length expected_ids,
       av_root = map_option (sr_id \<circ> fst) statement, av_statement = map_option (st_id \<circ> snd) statement,
       av_version = map_option (st_version \<circ> snd) statement, av_state = map_option (st_state \<circ> snd) statement,
       av_lineage = map_option (st_lineage \<circ> snd) statement, av_coverage = coverage_state (length own) expected_ids statement\<rparr>)"


text \<open>The counts behind the controls.\<close>

record period_counts =
  pc_sources :: nat
  pc_pending :: nat
  pc_no_dataset :: nat
  pc_unpublished :: nat
  pc_incomplete :: nat
  pc_lineage_gaps :: nat
  pc_rejected :: nat
  pc_missing_dates :: nat
  pc_open_reviews :: nat
  pc_high_issues :: nat
  pc_corrections :: nat
  pc_observed :: nat
  pc_eligible :: nat
  pc_missing_assessments :: nat
  pc_accounts :: nat
  pc_uncovered :: nat
  pc_statement_gaps :: nat

definition with_dataset :: "(source_view \<Rightarrow> string option) \<Rightarrow> string \<Rightarrow> source_view \<Rightarrow> bool" where
  "with_dataset field wanted s = (so_dataset s \<noteq> None \<and> field s \<noteq> Some wanted)"

definition expected_accounts :: "source_view list \<Rightarrow> string list" where
  "expected_accounts sources = sorted_set (concat (map (\<lambda>s. case so_account s of None \<Rightarrow> [] | Some a \<Rightarrow> [a]) sources))"

definition period_counts_of ::
    "date \<Rightarrow> date \<Rightarrow> source_view list \<Rightarrow> dataset_check list \<Rightarrow> balance_lookup \<Rightarrow> assessment_lookup \<Rightarrow> account_view list \<Rightarrow> period_counts" where
  "period_counts_of period_start period_end sources checks balances assessments accounts =
     \<lparr>pc_sources = length sources,
      pc_pending = how_many (\<lambda>s. so_state s \<noteq> ''satisfied'') sources,
      pc_no_dataset = how_many (\<lambda>s. so_dataset s = None) sources,
      pc_unpublished = how_many (with_dataset so_dataset_state ''published'') sources,
      pc_incomplete = how_many (with_dataset so_completeness ''verified'') sources,
      pc_lineage_gaps = how_many (with_dataset so_lineage ''complete'') sources,
      pc_rejected = sum_list (map so_rejected (filter (\<lambda>s. so_dataset s \<noteq> None) sources)),
      pc_missing_dates = sum_list (map dc_missing_dates checks),
      pc_open_reviews = count_unique checks dc_open_candidates,
      pc_high_issues = count_unique checks dc_high_issues,
      pc_corrections = sum_list (map (\<lambda>c. dc_proposed c + dc_unapplied c) checks),
      pc_observed = how_many (balance_observed period_start period_end balances) sources,
      pc_eligible = how_many (balance_eligible period_start period_end balances) sources,
      pc_missing_assessments = how_many (\<lambda>s. eligible_assessment assessments s = None) sources,
      pc_accounts = length accounts,
      pc_uncovered = (if accounts = [] then 1 else how_many (\<lambda>a. av_coverage a \<noteq> ''covered'') accounts),
      pc_statement_gaps = how_many (\<lambda>a. av_lineage a \<noteq> Some ''complete'') accounts\<rparr>"

definition zero_control :: "string \<Rightarrow> nat \<Rightarrow> string \<Rightarrow> control" where
  "zero_control control_code n detail = control_of control_code (if n = 0 then Pass else Blocked) n detail"

definition balance_detail :: "period_counts \<Rightarrow> string" where
  "balance_detail c = show_nat (pc_observed c) @ '' observacion(es) encontrada(s); '' @ show_nat (pc_eligible c)
     @ '' con linaje completo para '' @ show_nat (pc_sources c) @ '' fuente(s) esperada(s).''"

definition coverage_detail :: "period_counts \<Rightarrow> string" where
  "coverage_detail c = show_nat (pc_accounts c - pc_uncovered c) @ '' de '' @ show_nat (pc_accounts c)
     @ '' cuenta(s) tienen un statement balanceado, vigente y ligado a las evaluaciones actuales.''"

definition controls_of :: "period_counts \<Rightarrow> control list" where
  "controls_of c =
     [control_of ''expected_sources'' (if pc_sources c \<noteq> 0 then Pass else Blocked) (pc_sources c)
        ''Fuentes esperadas configuradas para el periodo.'',
      zero_control ''expectations_satisfied'' (pc_pending c) ''Expectativas pendientes, tardias o exoneradas.'',
      zero_control ''dataset_evidence'' (pc_no_dataset c) ''Fuentes sin dataset asociado a su evidencia satisfecha.'',
      zero_control ''published_datasets'' (pc_unpublished c) ''Datasets que aun no estan publicados.'',
      zero_control ''verified_completeness'' (pc_incomplete c) ''Datasets sin completitud verificada.'',
      zero_control ''complete_lineage'' (pc_lineage_gaps c) ''Datasets cuyo linaje no esta completo.'',
      zero_control ''rejected_rows'' (pc_rejected c) ''Filas rechazadas que requieren explicacion.'',
      zero_control ''accounting_dates'' (pc_missing_dates c) ''Movimientos sin fecha contable.'',
      zero_control ''reconciliation_reviews'' (pc_open_reviews c) ''Expedientes de conciliacion sin decision humana.'',
      zero_control ''quality_alerts'' (pc_high_issues c) ''Alertas de calidad altas abiertas o reconocidas.'',
      zero_control ''pending_corrections'' (pc_corrections c) ''Correcciones propuestas o aprobadas sin aplicar.'',
      control_of ''account_balances'' (if 0 < pc_sources c \<and> pc_sources c - pc_eligible c = 0 then Pass else Blocked)
        (pc_sources c - pc_eligible c) (balance_detail c),
      control_of ''completeness_assessments'' (if pc_sources c \<noteq> 0 \<and> pc_missing_assessments c = 0 then Pass else Blocked)
        (pc_missing_assessments c) ''Evaluaciones verificadas, con linaje completo y ligadas al dataset actual.'',
      control_of ''reconciliation_statements'' (if pc_accounts c \<noteq> 0 \<and> pc_uncovered c = 0 then Pass else Blocked)
        (pc_uncovered c) (coverage_detail c),
      control_of ''reconciliation_statement_lineage'' (if pc_accounts c \<noteq> 0 \<and> pc_statement_gaps c = 0 then Pass else Blocked)
        (if pc_accounts c \<noteq> 0 then pc_statement_gaps c else 1)
        ''Statements cuyo linaje de decision aun no alcanza estado completo.'',
      control_of ''product_close'' Unavailable 1 ''La ejecucion de cierre permanece fuera del alcance autorizado.'']"

definition diagnostic_ready :: "control list \<Rightarrow> bool" where
  "diagnostic_ready controls = list_all (\<lambda>c. cl_state c = Pass) (filter (\<lambda>c. cl_code c \<noteq> ''product_close'') controls)"

definition blockers_of :: "control list \<Rightarrow> (string \<times> nat \<times> string) list" where
  "blockers_of controls = map (\<lambda>c. (cl_code c, cl_count c, cl_detail c))
     (filter (\<lambda>c. cl_state c \<noteq> Pass \<and> cl_code c \<noteq> ''product_close'') controls)"

definition checks_of :: "(string \<times> dataset_check) list \<Rightarrow> source_view list \<Rightarrow> dataset_check list close_answer" where
  "checks_of given sources = map_result (\<lambda>ds. case map_of given ds of
       None \<Rightarrow> Inl (Underlying (PythonError (KeyError ds))) | Some c \<Rightarrow> Inr c)
     (concat (map (\<lambda>s. case so_dataset s of None \<Rightarrow> [] | Some ds \<Rightarrow> [ds]) sources))"

definition build_period ::
    "date \<Rightarrow> date \<Rightarrow> source_view list \<Rightarrow> (string \<times> dataset_check) list \<Rightarrow> balance_lookup \<Rightarrow> assessment_lookup \<Rightarrow> statement_lookup
     \<Rightarrow> period_item close_answer" where
  "build_period period_start period_end sources given balances assessments statements =
     rbind (checks_of given sources) (\<lambda>checks.
       let accounts = map (account_view_of period_start period_end sources assessments statements) (expected_accounts sources);
           counts = period_counts_of period_start period_end sources checks balances assessments accounts;
           controls = controls_of counts in
       Inr \<lparr>pi_start = isoformat period_start, pi_end = isoformat period_end,
         pi_status = (if diagnostic_ready controls then ''ready_for_review'' else ''blocked''),
         pi_close_ready = False, pi_can_execute = False, pi_sources_count = length sources,
         pi_selected = length checks, pi_accounts = length accounts,
         pi_unassigned = how_many (\<lambda>s. so_account s = None) sources,
         pi_controls = controls, pi_blockers = blockers_of controls, pi_sources = sources, pi_reconciliations = accounts\<rparr>)"

section \<open>The diagnosis\<close>

text \<open>\<open>periods.setdefault(key, []).append(source)\<close>: the groups in the order their keys appear.\<close>

fun group_add :: "'k \<Rightarrow> 'v \<Rightarrow> ('k \<times> 'v list) list \<Rightarrow> ('k \<times> 'v list) list" where
  "group_add k v [] = [(k, [v])]"
| "group_add k v ((key, vs) # groups) = (if key = k then (key, vs @ [v]) # groups else (key, vs) # group_add k v groups)"

definition grouped :: "('k \<times> 'v) list \<Rightarrow> ('k \<times> 'v list) list" where
  "grouped kvs = fold (\<lambda>(k, v). group_add k v) kvs []"

record readiness =
  rn_mode :: string
  rn_close_ready :: bool
  rn_can_execute :: bool
  rn_periods :: nat
  rn_blocked :: nat
  rn_ready :: int
  rn_sources :: nat
  rn_limit :: int
  rn_items :: "period_item list"

definition list_close_readiness :: "services \<Rightarrow> close_tables \<Rightarrow> int \<Rightarrow> readiness close_answer" where
  "list_close_readiness sv tb limit = rbind (validated_limit limit) (\<lambda>limit. rbind (period_rows tb limit) (\<lambda>rows.
     let sources = map (row_source sv) rows;
         dataset_ids = sorted_set (concat (map (\<lambda>s. case so_dataset s of None \<Rightarrow> [] | Some ds \<Rightarrow> [ds]) sources));
         checks = dataset_checks tb dataset_ids;
         balances = balance_checks tb dataset_ids;
         assessments = assessment_checks tb sources;
         periods = grouped (map (\<lambda>row. ((xp_start (fst row), xp_end (fst row)), row_source sv row)) rows);
         statements = statement_checks tb (map fst periods) in
     rbind (map_result (\<lambda>((period_start, period_end), period_sources).
         build_period period_start period_end period_sources checks balances assessments statements) periods) (\<lambda>items.
       let blocked = how_many (\<lambda>i. pi_status i = ''blocked'') items in
       Inr \<lparr>rn_mode = ''diagnostic_only'', rn_close_ready = False, rn_can_execute = False, rn_periods = length items,
         rn_blocked = blocked, rn_ready = int (length items) - int blocked, rn_sources = length sources, rn_limit = limit,
         rn_items = items\<rparr>)))"

end
