(* ===== verification/ReadinessLaws.thy ===== *)
theory ReadinessLaws
  imports CloseReadiness ReviewLedger
begin

text \<open>
  What the diagnosis of a period means in terms of the tables: the specification \<open>period_ready\<close> and the proof
  that the sixteen controls compute it, that the diagnosis never fails on what the database holds, and
  that every expectation of the newest periods is in exactly one item.
\<close>

section \<open>First rows and groups\<close>

lemma latest_by_None [simp]: "latest_by key xs = None \<longleftrightarrow> xs = []"
  by (cases "sort_key key xs") (auto simp: latest_by_def dest: arg_cong [of _ _ length])

lemma latest_by_Some:
  assumes "latest_by key xs = Some x"
  shows "x \<in> set xs \<and> (\<forall>y \<in> set xs. key y \<le> key x)"
proof -
  define ys where "ys = sort_key key xs"
  have ne: "ys \<noteq> []" using assms by (auto simp: latest_by_def ys_def)
  then have "x = last ys" using assms by (cases ys) (simp_all add: latest_by_def ys_def [symmetric])
  then have x: "x = ys ! (length ys - 1)" using last_conv_nth [OF ne] by (rule trans)
  have "sorted (map key ys)" by (simp add: ys_def)
  then have "map key ys ! i \<le> map key ys ! (length ys - 1)" if "i < length ys" for i
    by (rule sorted_nth_mono) (use that in simp_all)
  then have "\<forall>i < length ys. key (ys ! i) \<le> key x" using ne unfolding x by simp
  then have "\<forall>y \<in> set ys. key y \<le> key x" by (simp add: all_set_conv_all_nth)
  moreover have "x \<in> set ys" using ne unfolding x by simp
  ultimately show ?thesis by (simp add: ys_def)
qed

lemma group_add_new: "k \<notin> fst ` set gs \<Longrightarrow> group_add k v gs = gs @ [(k, [v])]"
  by (induction gs) auto

lemma group_add_last: "k \<notin> fst ` set gs \<Longrightarrow> group_add k v (gs @ [(k, vs)]) = gs @ [(k, vs @ [v])]"
  by (induction gs) auto

lemma group_block_on:
  "k \<notin> fst ` set gs \<Longrightarrow> fold (\<lambda>(k, v). group_add k v) (map (Pair k) ws) (gs @ [(k, vs)]) = gs @ [(k, vs @ ws)]"
  by (induction ws arbitrary: vs) (simp_all add: group_add_last)

lemma group_block:
  "k \<notin> fst ` set gs \<Longrightarrow> ws \<noteq> [] \<Longrightarrow> fold (\<lambda>(k, v). group_add k v) (map (Pair k) ws) gs = gs @ [(k, ws)]"
  using group_block_on [of k gs "tl ws" "[hd ws]"] by (cases ws) (simp_all add: group_add_new)

lemma grouped_blocks:
  assumes "distinct (map K ps)" "\<forall>p \<in> set ps. B p \<noteq> []"
  shows "grouped (concat (map (\<lambda>p. map (Pair (K p)) (B p)) ps)) = map (\<lambda>p. (K p, B p)) ps"
proof -
  have "fold (\<lambda>(k, v). group_add k v) (concat (map (\<lambda>p. map (Pair (K p)) (B p)) ps)) gs = gs @ map (\<lambda>p. (K p, B p)) ps"
    if "distinct (map K ps)" "\<forall>p \<in> set ps. B p \<noteq> []" "K ` set ps \<inter> fst ` set gs = {}" for gs
    using that
  proof (induction ps arbitrary: gs)
    case (Cons p ps)
    have "fold (\<lambda>(k, v). group_add k v) (map (Pair (K p)) (B p)) gs = gs @ [(K p, B p)]"
      using Cons.prems by (intro group_block) auto
    moreover have "fold (\<lambda>(k, v). group_add k v) (concat (map (\<lambda>p. map (Pair (K p)) (B p)) ps)) (gs @ [(K p, B p)])
        = (gs @ [(K p, B p)]) @ map (\<lambda>p. (K p, B p)) ps"
      using Cons.prems by (intro Cons.IH) auto
    ultimately show ?case by simp
  qed simp
  then show ?thesis using assms by (simp add: grouped_def)
qed

section \<open>Periods\<close>

text \<open>The foreign key of expectations to their source.\<close>

definition sources_known :: "close_tables \<Rightarrow> bool" where
  "sources_known tb = (\<forall>e \<in> set (tb_expectations tb). xp_source e \<in> fst ` set (tb_sources tb))"

definition due :: "close_tables \<Rightarrow> date \<times> date \<Rightarrow> expectation_row list" where
  "due tb p = filter (\<lambda>e. (xp_end e, xp_start e) = p) (tb_expectations tb)"

definition row_of :: "close_tables \<Rightarrow> expectation_row \<Rightarrow> period_row" where
  "row_of tb e = (e, the (map_of (tb_sources tb) (xp_source e)), chosen_dataset tb e, Option.bind (xp_account e) (map_of (tb_accounts tb)))"

lemma expectation_rows_mset:
  assumes "sources_known tb"
  shows "mset (expectation_rows tb p) = mset (map (row_of tb) (due tb p))"
proof -
  have known: "\<exists>name. map_of (tb_sources tb) (xp_source e) = Some name" if "e \<in> set (tb_expectations tb)" for e
    using assms that by (auto simp: sources_known_def image_iff weak_map_of_SomeI)
  have "concat (map (\<lambda>e. case map_of (tb_sources tb) (xp_source e) of None \<Rightarrow> []
      | Some name \<Rightarrow> [(e, name, chosen_dataset tb e, Option.bind (xp_account e) (map_of (tb_accounts tb)))]) es) = map (row_of tb) es"
    if "set es \<subseteq> set (tb_expectations tb)" for es
    using that
  proof (induction es)
    case (Cons e es)
    then obtain name where "map_of (tb_sources tb) (xp_source e) = Some name" using known [of e] by auto
    then show ?case using Cons by (simp add: row_of_def)
  qed simp
  then show ?thesis unfolding expectation_rows_def due_def by simp
qed

lemma distinct_newest: "distinct (newest_periods tb limit)"
  by (simp add: newest_periods_def distinct_take)

lemma newest_due: "p \<in> set (newest_periods tb limit) \<Longrightarrow> due tb p \<noteq> []"
  by (auto simp: newest_periods_def due_def filter_empty_conv dest!: in_set_takeD)


text \<open>
  The groups of the rows of the newest periods are the rows of each period; no period loses its rows,
  and every expectation of the periods is in one.
\<close>

definition period_key :: "period_row \<Rightarrow> date \<times> date" where
  "period_key row = (xp_start (fst row), xp_end (fst row))"

lemma expectation_rows_key:
  assumes "row \<in> set (expectation_rows tb p)"
  shows "period_key row = prod.swap p"
  using assms by (auto simp: expectation_rows_def period_key_def split: option.splits)

lemma expectation_rows_not_empty:
  assumes "sources_known tb" "p \<in> set (newest_periods tb limit)"
  shows "expectation_rows tb p \<noteq> []"
  using expectation_rows_mset [OF assms(1), of p] newest_due [OF assms(2)] by (metis mset_zero_iff map_is_Nil_conv)

lemma rows_grouped:
  assumes "sources_known tb"
  shows "grouped (map (\<lambda>row. (period_key row, f row)) (concat (map (expectation_rows tb) (newest_periods tb limit))))
    = map (\<lambda>p. (prod.swap p, map f (expectation_rows tb p))) (newest_periods tb limit)"
proof -
  have block: "map (\<lambda>row. (period_key row, f row)) (expectation_rows tb p) = map (Pair (prod.swap p)) (map f (expectation_rows tb p))" for p
    using expectation_rows_key by simp
  have rows: "map (\<lambda>row. (period_key row, f row)) (concat (map (expectation_rows tb) (newest_periods tb limit)))
      = concat (map (\<lambda>p. map (Pair (prod.swap p)) (map f (expectation_rows tb p))) (newest_periods tb limit))"
    unfolding map_concat map_map comp_def block ..
  have "distinct (map prod.swap (newest_periods tb limit))"
    by (simp add: distinct_map distinct_newest)
  then show ?thesis
    unfolding rows by (rule grouped_blocks) (use expectation_rows_not_empty [OF assms] in simp)
qed

section \<open>The checks of the datasets\<close>

definition check_of :: "close_tables \<Rightarrow> string \<Rightarrow> dataset_check" where
  "check_of tb ds = \<lparr>dc_missing_dates = missing_accounting_dates tb ds, dc_open_candidates = open_candidates tb ds,
     dc_high_issues = active_high_issues tb ds, dc_proposed = proposed_corrections tb ds, dc_unapplied = unapplied_corrections tb ds\<rparr>"

definition chosen_ids :: "source_view list \<Rightarrow> string list" where
  "chosen_ids sources = concat (map (\<lambda>s. case so_dataset s of None \<Rightarrow> [] | Some ds \<Rightarrow> [ds]) sources)"

lemma set_chosen_ids: "set (chosen_ids sources) = {ds. Some ds \<in> so_dataset ` set sources}"
  by (auto simp: chosen_ids_def image_iff split: option.splits)

lemma map_result_total: "\<forall>x \<in> set xs. f x = Inr (g x) \<Longrightarrow> map_result f xs = Inr (map g xs)"
  by (induction xs) simp_all

lemma checks_found:
  assumes "set (chosen_ids sources) \<subseteq> set ids"
  shows "checks_of (dataset_checks tb ids) sources = Inr (map (check_of tb) (chosen_ids sources))"
proof -
  have "map_of (dataset_checks tb ids) ds = Some (check_of tb ds)" if "ds \<in> set ids" for ds
    using that unfolding dataset_checks_def check_of_def by (induction ids) auto
  then show ?thesis
    using assms unfolding checks_of_def chosen_ids_def [symmetric] by (intro map_result_total) auto
qed


section \<open>What a ready period is\<close>

definition touches :: "close_tables \<Rightarrow> string \<Rightarrow> match_candidate \<Rightarrow> bool" where
  "touches tb ds c = (\<exists>l r. movement_dataset tb (mc_left c) = Some l \<and> movement_dataset tb (mc_right c) = Some r \<and> ds \<in> {l, r})"

definition about :: "close_tables \<Rightarrow> string \<Rightarrow> quality_issue \<Rightarrow> bool" where
  "about tb ds q = ((qi_scope q = ''dataset'' \<and> qi_ref q = ds) \<or> (qi_scope q = ''movement'' \<and> movement_dataset tb (qi_ref q) = Some ds))"

text \<open>Nothing of a dataset waits: dates, reconciliation reviews, high alerts, corrections.\<close>

definition nothing_waits :: "close_tables \<Rightarrow> string \<Rightarrow> bool" where
  "nothing_waits tb ds = ((\<forall>m \<in> set (tb_movements tb). dm_dataset m = ds \<longrightarrow> dm_accounting m \<noteq> None)
     \<and> (\<forall>c \<in> set (lg_candidates (tb_reviews tb)). touches tb ds c \<longrightarrow> decision_for (tb_reviews tb) (mc_id c) \<noteq> None)
     \<and> (\<forall>q \<in> set (tb_issues tb). about tb ds q \<longrightarrow> qi_severity q = ''high'' \<longrightarrow> qi_status q \<notin> {''open'', ''acknowledged''})
     \<and> (\<forall>(i, d) \<in> set (tb_overlays tb). d = ds \<longrightarrow> map_of (tb_overlay_reviews tb) i \<noteq> None
          \<and> (map_of (tb_overlay_reviews tb) i = Some ''approved'' \<longrightarrow> i \<in> set (tb_applied tb))))"

definition dataset_clear :: "close_tables \<Rightarrow> dataset_version \<Rightarrow> bool" where
  "dataset_clear tb d = (dv_state d = ''published'' \<and> dv_completeness d = ''verified'' \<and> dv_lineage d = ''complete''
     \<and> dv_rejected d = 0 \<and> nothing_waits tb (dv_id d))"

definition balance_held :: "close_tables \<Rightarrow> date \<times> date \<Rightarrow> dataset_version \<Rightarrow> string \<Rightarrow> bool" where
  "balance_held tb p d acc = (\<exists>b \<in> set (tb_balances tb). ab_dataset b = dv_id d \<and> ab_account b = acc
     \<and> ab_type b = (if map_option fst (map_of (tb_accounts tb) acc) = Some ''accounting_ledger'' then ''ledger'' else ''closing'')
     \<and> snd p \<le> ab_date b \<and> ab_date b \<le> fst p \<and> ab_lineage b = ''complete'')"

definition assessment_of :: "close_tables \<Rightarrow> expectation_row \<Rightarrow> string option" where
  "assessment_of tb e = (case (chosen_dataset tb e, xp_account e) of
     (Some d, Some acc) \<Rightarrow> (case latest_by (\<lambda>a. (am_created a, am_id a))
         (filter (\<lambda>a. am_expectation a = xp_id e \<and> am_dataset a = dv_id d) (tb_assessments tb)) of
       None \<Rightarrow> None
     | Some a \<Rightarrow> if am_account a = Some acc \<and> am_state a = ''verified'' \<and> am_lineage a = ''complete'' then Some (am_id a) else None)
   | _ \<Rightarrow> None)"

definition statement_of :: "close_tables \<Rightarrow> date \<times> date \<Rightarrow> string \<Rightarrow> (statement_root_row \<times> statement_row) option" where
  "statement_of tb p acc = latest_by (\<lambda>(r, s). (st_version s, st_created s, st_id s))
     (filter (\<lambda>(r, s). st_root s = sr_id r \<and> sr_account r = acc \<and> sr_start r = snd p \<and> sr_end r = fst p)
       (List.product (tb_roots tb) (tb_statements tb)))"

text \<open>The newest statement of the account is balanced, complete and made from the current assessments.\<close>

definition account_balanced :: "close_tables \<Rightarrow> date \<times> date \<Rightarrow> string \<Rightarrow> bool" where
  "account_balanced tb p acc = (\<exists>r s. statement_of tb p acc = Some (r, s) \<and> st_state s = ''balanced'' \<and> st_lineage s = ''complete''
     \<and> mset (st_assessments s) = mset (map (\<lambda>e. the (assessment_of tb e)) (filter (\<lambda>e. xp_account e = Some acc) (due tb p))))"

definition source_ready :: "close_tables \<Rightarrow> date \<times> date \<Rightarrow> expectation_row \<Rightarrow> bool" where
  "source_ready tb p e = (xp_state e = ''satisfied'' \<and> assessment_of tb e \<noteq> None
     \<and> (\<exists>d acc. chosen_dataset tb e = Some d \<and> xp_account e = Some acc
          \<and> dataset_clear tb d \<and> balance_held tb p d acc \<and> account_balanced tb p acc))"

definition period_ready :: "close_tables \<Rightarrow> date \<times> date \<Rightarrow> bool" where
  "period_ready tb p = (due tb p \<noteq> [] \<and> (\<forall>e \<in> set (due tb p). source_ready tb p e))"

section \<open>The controls compute it\<close>

lemma diagnostic_ready_iff:
  "diagnostic_ready (controls_of c) \<longleftrightarrow> pc_sources c \<noteq> 0 \<and> pc_pending c = 0 \<and> pc_no_dataset c = 0 \<and> pc_unpublished c = 0
     \<and> pc_incomplete c = 0 \<and> pc_lineage_gaps c = 0 \<and> pc_rejected c = 0 \<and> pc_missing_dates c = 0 \<and> pc_open_reviews c = 0
     \<and> pc_high_issues c = 0 \<and> pc_corrections c = 0 \<and> pc_sources c \<le> pc_eligible c \<and> pc_missing_assessments c = 0
     \<and> pc_accounts c \<noteq> 0 \<and> pc_uncovered c = 0 \<and> pc_statement_gaps c = 0"
  by (auto simp: diagnostic_ready_def controls_of_def zero_control_def control_of_def)

lemma how_many_zero [simp]: "how_many P xs = 0 \<longleftrightarrow> (\<forall>x \<in> set xs. \<not> P x)"
  by (simp add: how_many_def filter_empty_conv)

lemma how_many_all: "length xs \<le> how_many P xs \<longleftrightarrow> (\<forall>x \<in> set xs. P x)"
proof (induction xs)
  case (Cons x xs)
  have "how_many P xs \<le> length xs" by (simp add: how_many_def)
  then show ?case using Cons by (auto simp: how_many_def)
qed simp

lemma count_unique_zero: "count_unique checks field = 0 \<longleftrightarrow> (\<forall>c \<in> set checks. field c = [])"
  by (auto simp: count_unique_def)

text \<open>A check without findings is a dataset for which nothing waits.\<close>

lemma check_clear:
  "dc_missing_dates (check_of tb ds) = 0 \<and> dc_open_candidates (check_of tb ds) = [] \<and> dc_high_issues (check_of tb ds) = []
     \<and> dc_proposed (check_of tb ds) + dc_unapplied (check_of tb ds) = 0 \<longleftrightarrow> nothing_waits tb ds"
proof -
  have "missing_accounting_dates tb ds = 0 \<longleftrightarrow> (\<forall>m \<in> set (tb_movements tb). dm_dataset m = ds \<longrightarrow> dm_accounting m \<noteq> None)"
    by (auto simp: missing_accounting_dates_def filter_empty_conv)
  moreover have "(case (movement_dataset tb (mc_left c), movement_dataset tb (mc_right c)) of (Some l, Some r) \<Rightarrow> ds = l \<or> ds = r | _ \<Rightarrow> False)
      = touches tb ds c" for c
    by (auto simp: touches_def split: option.splits)
  then have "open_candidates tb ds = [] \<longleftrightarrow>
      (\<forall>c \<in> set (lg_candidates (tb_reviews tb)). touches tb ds c \<longrightarrow> decision_for (tb_reviews tb) (mc_id c) \<noteq> None)"
    by (auto simp: open_candidates_def filter_empty_conv)
  moreover have "active_high_issues tb ds = [] \<longleftrightarrow> (\<forall>q \<in> set (tb_issues tb). about tb ds q \<longrightarrow> qi_severity q = ''high''
      \<longrightarrow> qi_status q \<notin> {''open'', ''acknowledged''})"
    by (auto simp: active_high_issues_def about_def filter_empty_conv)
  moreover have "proposed_corrections tb ds = 0 \<and> unapplied_corrections tb ds = 0 \<longleftrightarrow> (\<forall>(i, d) \<in> set (tb_overlays tb). d = ds
      \<longrightarrow> map_of (tb_overlay_reviews tb) i \<noteq> None \<and> (map_of (tb_overlay_reviews tb) i = Some ''approved'' \<longrightarrow> i \<in> set (tb_applied tb)))"
    by (fastforce simp: proposed_corrections_def unapplied_corrections_def filter_empty_conv)
  ultimately show ?thesis by (simp add: check_of_def nothing_waits_def)
qed


definition view_of :: "services \<Rightarrow> close_tables \<Rightarrow> expectation_row \<Rightarrow> source_view" where
  "view_of sv tb e = row_source sv (row_of tb e)"

lemma view_of_simps [simp]:
  "so_expectation (view_of sv tb e) = xp_id e" "so_account (view_of sv tb e) = xp_account e" "so_state (view_of sv tb e) = xp_state e"
  "so_dataset (view_of sv tb e) = map_option dv_id (chosen_dataset tb e)"
  "so_dataset_state (view_of sv tb e) = map_option dv_state (chosen_dataset tb e)"
  "so_completeness (view_of sv tb e) = map_option dv_completeness (chosen_dataset tb e)"
  "so_lineage (view_of sv tb e) = map_option dv_lineage (chosen_dataset tb e)"
  "so_rejected (view_of sv tb e) = (case chosen_dataset tb e of None \<Rightarrow> 0 | Some d \<Rightarrow> dv_rejected d)"
  "so_family (view_of sv tb e) = map_option fst (Option.bind (xp_account e) (map_of (tb_accounts tb)))"
  by (simp_all add: view_of_def row_source_def row_of_def)

lemma balance_eligible_iff:
  assumes "\<And>d. chosen_dataset tb e = Some d \<Longrightarrow> dv_id d \<in> set ids"
  shows "balance_eligible (snd p) (fst p) (balance_checks tb ids) (view_of sv tb e)
    \<longleftrightarrow> (\<exists>d acc. chosen_dataset tb e = Some d \<and> xp_account e = Some acc \<and> balance_held tb p d acc)"
  using assms
  by (cases "chosen_dataset tb e"; cases "xp_account e")
    (auto simp: balance_eligible_def balance_candidates_def balance_checks_def balance_held_def required_type_def list_ex_iff)

definition found_assessment :: "close_tables \<Rightarrow> string \<Rightarrow> string \<Rightarrow> assessment_row option" where
  "found_assessment tb xp ds = latest_by (\<lambda>a. (am_created a, am_id a))
     (filter (\<lambda>a. am_expectation a = xp \<and> am_dataset a = ds) (tb_assessments tb))"

lemma eligible_assessment_of:
  assumes "\<And>d. chosen_dataset tb e = Some d \<Longrightarrow> assessments (xp_id e) (dv_id d) = found_assessment tb (xp_id e) (dv_id d)"
  shows "eligible_assessment assessments (view_of sv tb e) = assessment_of tb e"
  using assms by (auto simp: eligible_assessment_def assessment_of_def found_assessment_def split: option.splits)

lemma sort_eq_iff: "sort xs = sort ys \<longleftrightarrow> mset xs = mset (ys :: 'a::linorder list)"
  by (metis mset_sort properties_for_sort sorted_sort)

lemma somes_all: "\<forall>x \<in> set xs. f x \<noteq> None \<Longrightarrow> concat (map (\<lambda>x. case f x of None \<Rightarrow> [] | Some i \<Rightarrow> [i]) xs) = map (\<lambda>x. the (f x)) xs"
  by (induction xs) auto

text \<open>The account of a period whose sources all have an assessment.\<close>

lemma account_covered:
  assumes views: "mset sources = mset (map (view_of sv tb) (due tb p))"
    and assessed: "\<forall>e \<in> set (due tb p). eligible_assessment assessments (view_of sv tb e) = assessment_of tb e \<and> assessment_of tb e \<noteq> None"
    and statement: "statements acc (snd p) (fst p) = statement_of tb p acc"
  shows "av_coverage (account_view_of (snd p) (fst p) sources assessments statements acc) = ''covered''
      \<and> av_lineage (account_view_of (snd p) (fst p) sources assessments statements acc) = Some ''complete'' \<longleftrightarrow> account_balanced tb p acc"
proof -
  define own where "own = filter (\<lambda>s. so_account s = Some acc) sources"
  define es where "es = filter (\<lambda>e. xp_account e = Some acc) (due tb p)"
  have split: "filter_mset (\<lambda>s. so_account s = Some acc) (mset (map (view_of sv tb) xs))
      = mset (map (view_of sv tb) (filter (\<lambda>e. xp_account e = Some acc) xs))" for xs
    by (induction xs) simp_all
  have "mset own = filter_mset (\<lambda>s. so_account s = Some acc) (mset (map (view_of sv tb) (due tb p)))"
    unfolding own_def views [symmetric] by simp
  also have "\<dots> = mset (map (view_of sv tb) es)"
    unfolding es_def by (rule split)
  finally have own: "mset own = mset (map (view_of sv tb) es)" .
  have "set own = view_of sv tb ` set es" using mset_eq_setD [OF own] by simp
  then have "\<forall>s \<in> set own. eligible_assessment assessments s \<noteq> None" using assessed by (auto simp: es_def)
  then have "concat (map (\<lambda>s. case eligible_assessment assessments s of None \<Rightarrow> [] | Some i \<Rightarrow> [i]) own)
      = map (\<lambda>s. the (eligible_assessment assessments s)) own" (is "?ids = _")
    by (rule somes_all)
  moreover have "mset (map (\<lambda>s. the (eligible_assessment assessments s)) own)
      = mset (map (\<lambda>e. the (assessment_of tb e)) es)"
  proof -
    have "mset (map (\<lambda>s. the (eligible_assessment assessments s)) own)
        = mset (map (\<lambda>e. the (eligible_assessment assessments (view_of sv tb e))) es)"
      using arg_cong [OF own, of "image_mset (\<lambda>s. the (eligible_assessment assessments s))"] by (simp add: multiset.map_comp comp_def)
    also have "map (\<lambda>e. the (eligible_assessment assessments (view_of sv tb e))) es = map (\<lambda>e. the (assessment_of tb e)) es"
      using assessed by (intro map_cong) (auto simp: es_def)
    finally show ?thesis .
  qed
  ultimately have ids: "mset ?ids = mset (map (\<lambda>e. the (assessment_of tb e)) es)" "length ?ids = length own" by simp_all
  have "coverage_state (length own) (sort ?ids) (statement_of tb p acc) = ''covered''
      \<longleftrightarrow> (\<exists>r s. statement_of tb p acc = Some (r, s) \<and> mset (st_assessments s) = mset ?ids \<and> st_state s = ''balanced'')"
    by (auto simp: coverage_state_def ids(2) sort_eq_iff split: option.splits if_splits)
  then show ?thesis
    unfolding account_view_of_def Let_def own_def [symmetric] statement account_balanced_def es_def [symmetric] ids(1)
    by (auto simp: ids(1) [unfolded own_def])
qed

lemma view_states:
  "(so_dataset (view_of sv tb e) \<noteq> None
      \<and> \<not> with_dataset so_dataset_state ''published'' (view_of sv tb e) \<and> \<not> with_dataset so_completeness ''verified'' (view_of sv tb e)
      \<and> \<not> with_dataset so_lineage ''complete'' (view_of sv tb e)
      \<and> (so_dataset (view_of sv tb e) = None \<or> so_rejected (view_of sv tb e) = 0))
    = (\<exists>d. chosen_dataset tb e = Some d \<and> dv_state d = ''published'' \<and> dv_completeness d = ''verified''
      \<and> dv_lineage d = ''complete'' \<and> dv_rejected d = 0)"
  by (cases "chosen_dataset tb e") (simp_all add: with_dataset_def)

text \<open>The counts of a period, whose sources are the views of its expectations.\<close>

lemma chosen_datasets:
  assumes "set sources = view_of sv tb ` set (due tb p)"
  shows "{ds. Some ds \<in> so_dataset ` set sources} = {ds. \<exists>e \<in> set (due tb p). \<exists>d. chosen_dataset tb e = Some d \<and> ds = dv_id d}"
proof -
  have "so_dataset ` set sources = (\<lambda>e. map_option dv_id (chosen_dataset tb e)) ` set (due tb p)"
    unfolding assms image_image by simp
  moreover have "Some ds = map_option dv_id o' \<longleftrightarrow> (\<exists>d. o' = Some d \<and> ds = dv_id d)" for ds and o' :: "dataset_version option"
    by (cases o') auto
  ultimately show ?thesis by (simp add: image_iff)
qed

lemma waiting_counts:
  assumes sources: "set sources = view_of sv tb ` set (due tb p)"
    and c: "c = period_counts_of a b sources (map (check_of tb) (chosen_ids sources)) bal asm accs"
  shows "pc_missing_dates c = 0 \<and> pc_open_reviews c = 0 \<and> pc_high_issues c = 0 \<and> pc_corrections c = 0
      \<longleftrightarrow> (\<forall>e \<in> set (due tb p). \<forall>d. chosen_dataset tb e = Some d \<longrightarrow> nothing_waits tb (dv_id d))"
proof -
  have "pc_missing_dates c = 0 \<and> pc_open_reviews c = 0 \<and> pc_high_issues c = 0 \<and> pc_corrections c = 0
      \<longleftrightarrow> (\<forall>ds \<in> set (chosen_ids sources). nothing_waits tb ds)"
    unfolding check_clear [symmetric] c period_counts_of_def by (auto simp: count_unique_zero)
  also have "\<dots> \<longleftrightarrow> (\<forall>e \<in> set (due tb p). \<forall>d. chosen_dataset tb e = Some d \<longrightarrow> nothing_waits tb (dv_id d))"
    unfolding set_chosen_ids chosen_datasets [OF sources] by auto
  finally show ?thesis .
qed

lemma state_counts:
  assumes sources: "set sources = view_of sv tb ` set (due tb p)"
    and c: "c = period_counts_of a b sources checks bal asm accs"
  shows "pc_sources c \<noteq> 0 \<and> pc_pending c = 0 \<and> pc_no_dataset c = 0 \<and> pc_unpublished c = 0 \<and> pc_incomplete c = 0
      \<and> pc_lineage_gaps c = 0 \<and> pc_rejected c = 0 \<longleftrightarrow> due tb p \<noteq> [] \<and> (\<forall>e \<in> set (due tb p). xp_state e = ''satisfied''
      \<and> (\<exists>d. chosen_dataset tb e = Some d \<and> dv_state d = ''published'' \<and> dv_completeness d = ''verified''
          \<and> dv_lineage d = ''complete'' \<and> dv_rejected d = 0))"
proof -
  have "sources = [] \<longleftrightarrow> due tb p = []" using sources by auto
  then have n: "pc_sources c \<noteq> 0 \<longleftrightarrow> due tb p \<noteq> []" by (simp add: c period_counts_of_def)
  have each: "pc_pending c = 0 \<longleftrightarrow> (\<forall>e \<in> set (due tb p). xp_state e = ''satisfied'')"
    "pc_no_dataset c = 0 \<longleftrightarrow> (\<forall>e \<in> set (due tb p). so_dataset (view_of sv tb e) \<noteq> None)"
    "pc_unpublished c = 0 \<longleftrightarrow> (\<forall>e \<in> set (due tb p). \<not> with_dataset so_dataset_state ''published'' (view_of sv tb e))"
    "pc_incomplete c = 0 \<longleftrightarrow> (\<forall>e \<in> set (due tb p). \<not> with_dataset so_completeness ''verified'' (view_of sv tb e))"
    "pc_lineage_gaps c = 0 \<longleftrightarrow> (\<forall>e \<in> set (due tb p). \<not> with_dataset so_lineage ''complete'' (view_of sv tb e))"
    by (simp_all add: c period_counts_of_def sources)
  have rejected: "pc_rejected c = 0 \<longleftrightarrow> (\<forall>e \<in> set (due tb p). so_dataset (view_of sv tb e) = None \<or> so_rejected (view_of sv tb e) = 0)"
    by (auto simp: c period_counts_of_def sources)
  have "pc_sources c \<noteq> 0 \<and> pc_pending c = 0 \<and> pc_no_dataset c = 0 \<and> pc_unpublished c = 0 \<and> pc_incomplete c = 0
      \<and> pc_lineage_gaps c = 0 \<and> pc_rejected c = 0 \<longleftrightarrow> due tb p \<noteq> [] \<and> (\<forall>e \<in> set (due tb p).
        xp_state e = ''satisfied'' \<and> so_dataset (view_of sv tb e) \<noteq> None
        \<and> \<not> with_dataset so_dataset_state ''published'' (view_of sv tb e) \<and> \<not> with_dataset so_completeness ''verified'' (view_of sv tb e)
        \<and> \<not> with_dataset so_lineage ''complete'' (view_of sv tb e)
        \<and> (so_dataset (view_of sv tb e) = None \<or> so_rejected (view_of sv tb e) = 0))"
    by (simp only: n each rejected ball_conj_distrib)
  also have "\<dots> \<longleftrightarrow> due tb p \<noteq> [] \<and> (\<forall>e \<in> set (due tb p). xp_state e = ''satisfied''
      \<and> (\<exists>d. chosen_dataset tb e = Some d \<and> dv_state d = ''published'' \<and> dv_completeness d = ''verified''
        \<and> dv_lineage d = ''complete'' \<and> dv_rejected d = 0))"
    by (simp only: view_states)
  finally show ?thesis .
qed

lemma account_counts:
  assumes views: "mset sources = mset (map (view_of sv tb) (due tb p))"
    and statements: "\<And>acc. statements acc (snd p) (fst p) = statement_of tb p acc"
    and assessed: "\<forall>e \<in> set (due tb p). eligible_assessment assessments (view_of sv tb e) = assessment_of tb e \<and> assessment_of tb e \<noteq> None"
    and held: "\<forall>e \<in> set (due tb p). xp_account e \<noteq> None"
    and accounts: "accounts = map (account_view_of (snd p) (fst p) sources assessments statements) (expected_accounts sources)"
    and c: "c = period_counts_of a b sources checks bal asm accounts"
  shows "pc_accounts c \<noteq> 0 \<and> pc_uncovered c = 0 \<and> pc_statement_gaps c = 0
      \<longleftrightarrow> due tb p \<noteq> [] \<and> (\<forall>e \<in> set (due tb p). \<forall>acc. xp_account e = Some acc \<longrightarrow> account_balanced tb p acc)"
proof -
  have sources: "set sources = view_of sv tb ` set (due tb p)" using mset_eq_setD [OF views] by simp
  have accs: "set (expected_accounts sources) = {acc. \<exists>e \<in> set (due tb p). xp_account e = Some acc}"
    by (auto simp: expected_accounts_def sources split: option.splits)
  have "accounts = [] \<longleftrightarrow> due tb p = []"
  proof -
    have "accounts = [] \<longleftrightarrow> set (expected_accounts sources) = {}" by (simp add: accounts)
    also have "\<dots> \<longleftrightarrow> due tb p = []" unfolding accs using held by (cases "due tb p") auto
    finally show ?thesis .
  qed
  moreover have "av_coverage a = ''covered'' \<and> av_lineage a = Some ''complete'' \<longleftrightarrow> account_balanced tb p acc"
    if "a = account_view_of (snd p) (fst p) sources assessments statements acc" for a acc
    unfolding that by (rule account_covered, rule views) (use assessed statements in simp_all)
  then have "(\<forall>a \<in> set accounts. av_coverage a = ''covered'') \<and> (\<forall>a \<in> set accounts. av_lineage a = Some ''complete'')
      \<longleftrightarrow> (\<forall>acc \<in> set (expected_accounts sources). account_balanced tb p acc)"
    unfolding accounts by auto
  ultimately show ?thesis unfolding accs by (auto simp: c period_counts_of_def)
qed

section \<open>The counts of a period\<close>

text \<open>The datasets chosen for the expectations of a period, one entry for each expectation that has one.\<close>

definition chosen_of :: "close_tables \<Rightarrow> date \<times> date \<Rightarrow> dataset_version list" where
  "chosen_of tb p = concat (map (\<lambda>e. case chosen_dataset tb e of None \<Rightarrow> [] | Some d \<Rightarrow> [d]) (due tb p))"

definition correction_waits :: "close_tables \<Rightarrow> string \<Rightarrow> bool" where
  "correction_waits tb i = (case map_of (tb_overlay_reviews tb) i of None \<Rightarrow> True
     | Some decision \<Rightarrow> decision = ''approved'' \<and> i \<notin> set (tb_applied tb))"

definition accounts_due :: "close_tables \<Rightarrow> date \<times> date \<Rightarrow> string set" where
  "accounts_due tb p = {acc. \<exists>e \<in> set (due tb p). xp_account e = Some acc}"

text \<open>Every source of the account has an assessment, and its newest statement is balanced and made from them.\<close>

definition account_covered_by :: "close_tables \<Rightarrow> date \<times> date \<Rightarrow> string \<Rightarrow> bool" where
  "account_covered_by tb p acc = ((\<forall>e \<in> set (due tb p). xp_account e = Some acc \<longrightarrow> assessment_of tb e \<noteq> None)
     \<and> (\<exists>r s. statement_of tb p acc = Some (r, s) \<and> st_state s = ''balanced''
          \<and> mset (st_assessments s) = mset (map (\<lambda>e. the (assessment_of tb e)) (filter (\<lambda>e. xp_account e = Some acc) (due tb p)))))"

text \<open>What is counted for each control, in terms of the tables.\<close>

definition evidence_counts :: "close_tables \<Rightarrow> date \<times> date \<Rightarrow> (string \<times> nat) list" where
  "evidence_counts tb p =
     [(''expected_sources'', length (due tb p)),
      (''expectations_satisfied'', how_many (\<lambda>e. xp_state e \<noteq> ''satisfied'') (due tb p)),
      (''dataset_evidence'', how_many (\<lambda>e. chosen_dataset tb e = None) (due tb p)),
      (''published_datasets'', how_many (\<lambda>d. dv_state d \<noteq> ''published'') (chosen_of tb p)),
      (''verified_completeness'', how_many (\<lambda>d. dv_completeness d \<noteq> ''verified'') (chosen_of tb p)),
      (''complete_lineage'', how_many (\<lambda>d. dv_lineage d \<noteq> ''complete'') (chosen_of tb p)),
      (''rejected_rows'', sum_list (map dv_rejected (chosen_of tb p))),
      (''accounting_dates'', sum_list (map (\<lambda>d. how_many (\<lambda>m. dm_dataset m = dv_id d \<and> dm_accounting m = None) (tb_movements tb)) (chosen_of tb p))),
      (''reconciliation_reviews'', card {mc_id c |c. c \<in> set (lg_candidates (tb_reviews tb)) \<and> decision_for (tb_reviews tb) (mc_id c) = None
         \<and> (\<exists>d \<in> set (chosen_of tb p). touches tb (dv_id d) c)}),
      (''quality_alerts'', card {qi_id q |q. q \<in> set (tb_issues tb) \<and> qi_severity q = ''high'' \<and> qi_status q \<in> {''open'', ''acknowledged''}
         \<and> (\<exists>d \<in> set (chosen_of tb p). about tb (dv_id d) q)}),
      (''pending_corrections'', sum_list (map (\<lambda>d. how_many (\<lambda>(i, ds). ds = dv_id d \<and> correction_waits tb i) (tb_overlays tb)) (chosen_of tb p))),
      (''account_balances'', how_many (\<lambda>e. \<not> (\<exists>d acc. chosen_dataset tb e = Some d \<and> xp_account e = Some acc \<and> balance_held tb p d acc)) (due tb p)),
      (''completeness_assessments'', how_many (\<lambda>e. assessment_of tb e = None) (due tb p)),
      (''reconciliation_statements'', if accounts_due tb p = {} then 1 else card {acc \<in> accounts_due tb p. \<not> account_covered_by tb p acc}),
      (''reconciliation_statement_lineage'', if accounts_due tb p = {} then 1
         else card {acc \<in> accounts_due tb p. \<not> (\<exists>r s. statement_of tb p acc = Some (r, s) \<and> st_lineage s = ''complete'')})]"

lemma how_many_mset: "mset xs = mset (map f ys) \<Longrightarrow> how_many P xs = how_many (\<lambda>y. P (f y)) ys"
proof -
  have size: "how_many P zs = size (filter_mset P (mset zs))" for zs by (simp add: how_many_def flip: mset_filter)
  assume "mset xs = mset (map f ys)"
  then have "how_many P xs = how_many P (map f ys)" unfolding size by simp
  then show ?thesis by (simp add: how_many_def filter_map comp_def)
qed

lemma sum_mset_list: "mset xs = mset (map f ys) \<Longrightarrow> sum_list (map g xs) = sum_list (map (\<lambda>y. g (f y)) ys)" for g :: "_ \<Rightarrow> nat"
proof -
  assume "mset xs = mset (map f ys)"
  then have "sum_mset (image_mset g (mset xs)) = sum_mset (image_mset g (mset (map f ys)))" by simp
  then show ?thesis unfolding mset_map [symmetric] sum_mset_sum_list by (simp add: comp_def)
qed

lemma concat_mset: "mset xs = mset ys \<Longrightarrow> mset (concat (map g xs)) = mset (concat (map g ys))"
proof -
  have "mset (concat (map g zs)) = \<Sum>\<^sub># (image_mset (\<lambda>z. mset (g z)) (mset zs))" for zs by (induction zs) simp_all
  then show "mset xs = mset ys \<Longrightarrow> ?thesis" by simp
qed

lemma how_many_chosen:
  "how_many (\<lambda>e. case chosen_dataset tb e of None \<Rightarrow> False | Some d \<Rightarrow> P d) (due tb p) = how_many P (chosen_of tb p)"
proof -
  have "how_many (\<lambda>e. case chosen_dataset tb e of None \<Rightarrow> False | Some d \<Rightarrow> P d) es
      = how_many P (concat (map (\<lambda>e. case chosen_dataset tb e of None \<Rightarrow> [] | Some d \<Rightarrow> [d]) es))" for es
    by (induction es) (auto simp: how_many_def split: option.splits)
  then show ?thesis by (simp add: chosen_of_def)
qed

lemma chosen_ids_mset:
  assumes "mset sources = mset (map (view_of sv tb) (due tb p))"
  shows "mset (chosen_ids sources) = mset (map dv_id (chosen_of tb p))"
proof -
  have "mset (chosen_ids sources) = mset (chosen_ids (map (view_of sv tb) (due tb p)))"
    unfolding chosen_ids_def by (rule concat_mset [OF assms])
  also have "chosen_ids (map (view_of sv tb) es) = map dv_id (concat (map (\<lambda>e. case chosen_dataset tb e of None \<Rightarrow> [] | Some d \<Rightarrow> [d]) es))" for es
    unfolding chosen_ids_def by (induction es) (auto split: option.splits)
  finally show ?thesis by (simp add: chosen_of_def)
qed

lemma count_unique_card: "count_unique (map (check_of tb) ids) field = card (\<Union>ds \<in> set ids. set (field (check_of tb ds)))"
  by (simp add: count_unique_def length_remdups_card_conv)

lemma waiting_evidence:
  assumes "mset sources = mset (map (view_of sv tb) (due tb p))"
    and c: "c = period_counts_of a b sources (map (check_of tb) (chosen_ids sources)) bal asm accs"
  shows "pc_missing_dates c = sum_list (map (\<lambda>d. how_many (\<lambda>m. dm_dataset m = dv_id d \<and> dm_accounting m = None) (tb_movements tb)) (chosen_of tb p))"
    and "pc_open_reviews c = card {mc_id x |x. x \<in> set (lg_candidates (tb_reviews tb)) \<and> decision_for (tb_reviews tb) (mc_id x) = None
         \<and> (\<exists>d \<in> set (chosen_of tb p). touches tb (dv_id d) x)}"
    and "pc_high_issues c = card {qi_id q |q. q \<in> set (tb_issues tb) \<and> qi_severity q = ''high'' \<and> qi_status q \<in> {''open'', ''acknowledged''}
         \<and> (\<exists>d \<in> set (chosen_of tb p). about tb (dv_id d) q)}"
    and "pc_corrections c = sum_list (map (\<lambda>d. how_many (\<lambda>(i, ds). ds = dv_id d \<and> correction_waits tb i) (tb_overlays tb)) (chosen_of tb p))"
proof -
  note ids = chosen_ids_mset [OF assms(1)]
  have set_ids: "set (chosen_ids sources) = dv_id ` set (chosen_of tb p)" using mset_eq_setD [OF ids] by simp
  have sum: "sum_list (map g (map (check_of tb) (chosen_ids sources))) = sum_list (map (\<lambda>d. g (check_of tb (dv_id d))) (chosen_of tb p))"
    for g :: "dataset_check \<Rightarrow> nat"
    using sum_mset_list [OF ids, of "\<lambda>ds. g (check_of tb ds)"] by (simp add: comp_def)
  show "pc_missing_dates c = sum_list (map (\<lambda>d. how_many (\<lambda>m. dm_dataset m = dv_id d \<and> dm_accounting m = None) (tb_movements tb)) (chosen_of tb p))"
    unfolding c period_counts_of_def period_counts.simps sum
    by (simp add: check_of_def missing_accounting_dates_def how_many_def)
  have split: "proposed_corrections tb ds + unapplied_corrections tb ds = how_many (\<lambda>(i, x). x = ds \<and> correction_waits tb i) (tb_overlays tb)" for ds
  proof -
    have "length (filter (\<lambda>(i, d). d = ds \<and> map_of (tb_overlay_reviews tb) i = None) os) + length (filter (\<lambda>(i, d). d = ds
        \<and> map_of (tb_overlay_reviews tb) i = Some ''approved'' \<and> i \<notin> set (tb_applied tb)) os)
      = length (filter (\<lambda>(i, x). x = ds \<and> correction_waits tb i) os)" for os
      by (induction os) (auto simp: correction_waits_def split: option.splits)
    then show ?thesis by (simp add: proposed_corrections_def unapplied_corrections_def how_many_def)
  qed
  show "pc_corrections c = sum_list (map (\<lambda>d. how_many (\<lambda>(i, ds). ds = dv_id d \<and> correction_waits tb i) (tb_overlays tb)) (chosen_of tb p))"
    unfolding c period_counts_of_def period_counts.simps sum by (simp add: check_of_def split)
  have "(case (movement_dataset tb (mc_left x), movement_dataset tb (mc_right x)) of (Some l, Some r) \<Rightarrow> ds = l \<or> ds = r | _ \<Rightarrow> False)
      = touches tb ds x" for ds x
    by (auto simp: touches_def split: option.splits)
  then have open_ids: "set (open_candidates tb ds) = {mc_id x |x. x \<in> set (lg_candidates (tb_reviews tb))
      \<and> decision_for (tb_reviews tb) (mc_id x) = None \<and> touches tb ds x}" for ds
    by (auto simp: open_candidates_def)
  have "(\<Union>ds \<in> set (chosen_ids sources). set (dc_open_candidates (check_of tb ds)))
      = {mc_id x |x. x \<in> set (lg_candidates (tb_reviews tb)) \<and> decision_for (tb_reviews tb) (mc_id x) = None
         \<and> (\<exists>d \<in> set (chosen_of tb p). touches tb (dv_id d) x)}"
    unfolding set_ids by (simp add: check_of_def open_ids) blast
  then show "pc_open_reviews c = card {mc_id x |x. x \<in> set (lg_candidates (tb_reviews tb)) \<and> decision_for (tb_reviews tb) (mc_id x) = None
         \<and> (\<exists>d \<in> set (chosen_of tb p). touches tb (dv_id d) x)}"
    unfolding c period_counts_of_def period_counts.simps count_unique_card by simp
  have "(\<Union>ds \<in> set (chosen_ids sources). set (dc_high_issues (check_of tb ds)))
      = {qi_id q |q. q \<in> set (tb_issues tb) \<and> qi_severity q = ''high'' \<and> qi_status q \<in> {''open'', ''acknowledged''}
         \<and> (\<exists>d \<in> set (chosen_of tb p). about tb (dv_id d) q)}"
    unfolding set_ids by (auto simp: check_of_def active_high_issues_def about_def)
  then show "pc_high_issues c = card {qi_id q |q. q \<in> set (tb_issues tb) \<and> qi_severity q = ''high'' \<and> qi_status q \<in> {''open'', ''acknowledged''}
         \<and> (\<exists>d \<in> set (chosen_of tb p). about tb (dv_id d) q)}"
    unfolding c period_counts_of_def period_counts.simps count_unique_card by simp
qed

lemma state_evidence:
  assumes "mset sources = mset (map (view_of sv tb) (due tb p))" and c: "c = period_counts_of a b sources checks bal asm accs"
  shows "pc_sources c = length (due tb p)" "pc_pending c = how_many (\<lambda>e. xp_state e \<noteq> ''satisfied'') (due tb p)"
    "pc_no_dataset c = how_many (\<lambda>e. chosen_dataset tb e = None) (due tb p)"
    "pc_unpublished c = how_many (\<lambda>d. dv_state d \<noteq> ''published'') (chosen_of tb p)"
    "pc_incomplete c = how_many (\<lambda>d. dv_completeness d \<noteq> ''verified'') (chosen_of tb p)"
    "pc_lineage_gaps c = how_many (\<lambda>d. dv_lineage d \<noteq> ''complete'') (chosen_of tb p)"
    "pc_rejected c = sum_list (map dv_rejected (chosen_of tb p))"
proof -
  note many = how_many_mset [OF assms(1)]
  show "pc_sources c = length (due tb p)" using arg_cong [OF assms(1), of size] by (simp add: c period_counts_of_def)
  show "pc_pending c = how_many (\<lambda>e. xp_state e \<noteq> ''satisfied'') (due tb p)" "pc_no_dataset c = how_many (\<lambda>e. chosen_dataset tb e = None) (due tb p)"
    by (simp_all add: c period_counts_of_def many)
  have field: "how_many (with_dataset f wanted) sources = how_many (\<lambda>d. g d \<noteq> wanted) (chosen_of tb p)"
    if "\<And>e. f (view_of sv tb e) = map_option g (chosen_dataset tb e)" for f g and wanted :: string
    unfolding many how_many_chosen [symmetric]
    by (intro arg_cong [of _ _ "\<lambda>P. how_many P (due tb p)"] ext) (auto simp: with_dataset_def that split: option.splits)
  show "pc_unpublished c = how_many (\<lambda>d. dv_state d \<noteq> ''published'') (chosen_of tb p)"
    "pc_incomplete c = how_many (\<lambda>d. dv_completeness d \<noteq> ''verified'') (chosen_of tb p)"
    "pc_lineage_gaps c = how_many (\<lambda>d. dv_lineage d \<noteq> ''complete'') (chosen_of tb p)"
    by (simp_all add: c period_counts_of_def field)
  have "sum_list (map so_rejected (filter (\<lambda>s. so_dataset s \<noteq> None) xs))
      = sum_list (map (\<lambda>s. if so_dataset s = None then 0 else so_rejected s) xs)" for xs
    by (induction xs) auto
  then have "pc_rejected c = sum_list (map (\<lambda>s. if so_dataset s = None then 0 else so_rejected s) sources)"
    unfolding c period_counts_of_def period_counts.simps .
  also have "\<dots> = sum_list (map (\<lambda>e. case chosen_dataset tb e of None \<Rightarrow> 0 | Some d \<Rightarrow> dv_rejected d) (due tb p))"
    unfolding sum_mset_list [OF assms(1)] by (intro arg_cong [of _ _ sum_list] map_cong) (auto split: option.splits)
  also have "\<dots> = sum_list (map dv_rejected (chosen_of tb p))"
  proof -
    have "sum_list (map (\<lambda>e. case chosen_dataset tb e of None \<Rightarrow> 0 | Some d \<Rightarrow> dv_rejected d) es)
        = sum_list (map dv_rejected (concat (map (\<lambda>e. case chosen_dataset tb e of None \<Rightarrow> [] | Some d \<Rightarrow> [d]) es)))" for es
      by (induction es) (auto split: option.splits)
    then show ?thesis by (simp add: chosen_of_def)
  qed
  finally show "pc_rejected c = sum_list (map dv_rejected (chosen_of tb p))" .
qed

text \<open>Accounts, balances and assessments.\<close>

lemma own_sources:
  assumes "mset sources = mset (map (view_of sv tb) (due tb p))"
  shows "mset (filter (\<lambda>s. so_account s = Some acc) sources)
    = mset (map (view_of sv tb) (filter (\<lambda>e. xp_account e = Some acc) (due tb p)))"
proof -
  have "filter_mset (\<lambda>s. so_account s = Some acc) (mset (map (view_of sv tb) xs))
      = mset (map (view_of sv tb) (filter (\<lambda>e. xp_account e = Some acc) xs))" for xs
    by (induction xs) simp_all
  then show ?thesis by (simp only: mset_filter assms)
qed

lemma somes_some: "length (concat (map (\<lambda>x. case f x of None \<Rightarrow> [] | Some i \<Rightarrow> [i]) xs)) = length xs \<longleftrightarrow> (\<forall>x \<in> set xs. f x \<noteq> None)"
proof (induction xs)
  case (Cons x xs)
  have "length (concat (map (\<lambda>x. case f x of None \<Rightarrow> [] | Some i \<Rightarrow> [i]) xs)) \<le> length xs" by (induction xs) (auto split: option.splits)
  then show ?case using Cons by (auto split: option.splits)
qed simp

lemma account_covered_iff:
  assumes views: "mset sources = mset (map (view_of sv tb) (due tb p))"
    and assessed: "\<forall>e \<in> set (due tb p). eligible_assessment assessments (view_of sv tb e) = assessment_of tb e"
    and statement: "statements acc (snd p) (fst p) = statement_of tb p acc"
  shows "av_coverage (account_view_of (snd p) (fst p) sources assessments statements acc) = ''covered'' \<longleftrightarrow> account_covered_by tb p acc"
proof -
  define own where "own = filter (\<lambda>s. so_account s = Some acc) sources"
  define es where "es = filter (\<lambda>e. xp_account e = Some acc) (due tb p)"
  define ids where "ids = concat (map (\<lambda>s. case eligible_assessment assessments s of None \<Rightarrow> [] | Some i \<Rightarrow> [i]) own)"
  have own: "mset own = mset (map (view_of sv tb) es)" unfolding own_def es_def by (rule own_sources [OF views])
  have all: "(\<forall>s \<in> set own. eligible_assessment assessments s \<noteq> None) \<longleftrightarrow> (\<forall>e \<in> set es. assessment_of tb e \<noteq> None)"
    using assessed mset_eq_setD [OF own] by (auto simp: es_def)
  have ids: "mset ids = mset (map (\<lambda>e. the (assessment_of tb e)) es)" if "\<forall>e \<in> set es. assessment_of tb e \<noteq> None"
  proof -
    have "mset ids = mset (concat (map (\<lambda>s. case eligible_assessment assessments s of None \<Rightarrow> [] | Some i \<Rightarrow> [i]) (map (view_of sv tb) es)))"
      unfolding ids_def by (rule concat_mset [OF own])
    also have "concat (map (\<lambda>s. case eligible_assessment assessments s of None \<Rightarrow> [] | Some i \<Rightarrow> [i]) (map (view_of sv tb) es))
        = concat (map (\<lambda>e. case assessment_of tb e of None \<Rightarrow> [] | Some i \<Rightarrow> [i]) es)"
      unfolding map_map comp_def by (intro arg_cong [of _ _ concat] map_cong) (use assessed in \<open>auto simp: es_def\<close>)
    also have "\<dots> = map (\<lambda>e. the (assessment_of tb e)) es" by (rule somes_all [OF that])
    finally show ?thesis .
  qed
  have len: "length (sort ids) = length own \<longleftrightarrow> (\<forall>e \<in> set es. assessment_of tb e \<noteq> None)"
    unfolding all [symmetric] ids_def length_sort by (rule somes_some)
  have "coverage_state (length own) (sort ids) (statement_of tb p acc) = ''covered''
      \<longleftrightarrow> (\<forall>e \<in> set es. assessment_of tb e \<noteq> None)
        \<and> (\<exists>r s. statement_of tb p acc = Some (r, s) \<and> mset (st_assessments s) = mset ids \<and> st_state s = ''balanced'')"
    using len by (auto simp: coverage_state_def sort_eq_iff split: option.splits if_splits)
  also have "\<dots> \<longleftrightarrow> account_covered_by tb p acc"
    using ids by (auto simp: account_covered_by_def es_def [symmetric]) (auto simp: es_def)
  finally show ?thesis
    unfolding account_view_of_def Let_def own_def [symmetric] ids_def [symmetric] statement by simp
qed

lemma account_evidence:
  assumes views: "mset sources = mset (map (view_of sv tb) (due tb p))"
    and assessed: "\<forall>e \<in> set (due tb p). eligible_assessment assessments (view_of sv tb e) = assessment_of tb e"
    and statements: "\<And>acc. statements acc (snd p) (fst p) = statement_of tb p acc"
    and accounts: "accounts = map (account_view_of (snd p) (fst p) sources assessments statements) (expected_accounts sources)"
    and c: "c = period_counts_of a b sources checks bal asm accounts"
  shows "pc_accounts c = card (accounts_due tb p)"
    and "pc_uncovered c = (if accounts_due tb p = {} then 1 else card {acc \<in> accounts_due tb p. \<not> account_covered_by tb p acc})"
    and "pc_statement_gaps c = card {acc \<in> accounts_due tb p. \<not> (\<exists>r s. statement_of tb p acc = Some (r, s) \<and> st_lineage s = ''complete'')}"
proof -
  have accs: "set (expected_accounts sources) = accounts_due tb p" "distinct (expected_accounts sources)"
    using mset_eq_setD [OF views] by (auto simp: expected_accounts_def accounts_due_def sorted_set_def split: option.splits)
  have count: "how_many P accounts = card {acc \<in> accounts_due tb p. P (account_view_of (snd p) (fst p) sources assessments statements acc)}" for P
  proof -
    have "how_many P accounts = length (filter (\<lambda>acc. P (account_view_of (snd p) (fst p) sources assessments statements acc)) (expected_accounts sources))"
      by (simp add: accounts how_many_def filter_map comp_def)
    also have "\<dots> = card (set (filter (\<lambda>acc. P (account_view_of (snd p) (fst p) sources assessments statements acc)) (expected_accounts sources)))"
      by (rule distinct_card [symmetric]) (simp add: accs(2))
    finally show ?thesis by (simp add: accs(1))
  qed
  show "pc_accounts c = card (accounts_due tb p)"
    using distinct_card [OF accs(2)] by (simp add: c period_counts_of_def accounts accs(1))
  have "accounts = [] \<longleftrightarrow> accounts_due tb p = {}" using accs(1) by (auto simp: accounts)
  then show "pc_uncovered c = (if accounts_due tb p = {} then 1 else card {acc \<in> accounts_due tb p. \<not> account_covered_by tb p acc})"
    unfolding c period_counts_of_def period_counts.simps count
    using account_covered_iff [where statements = statements, OF views assessed statements] by simp
  have "av_lineage (account_view_of (snd p) (fst p) sources assessments statements acc) \<noteq> Some ''complete''
      \<longleftrightarrow> \<not> (\<exists>r s. statement_of tb p acc = Some (r, s) \<and> st_lineage s = ''complete'')" for acc
    by (auto simp: account_view_of_def Let_def statements)
  then show "pc_statement_gaps c = card {acc \<in> accounts_due tb p. \<not> (\<exists>r s. statement_of tb p acc = Some (r, s) \<and> st_lineage s = ''complete'')}"
    unfolding c period_counts_of_def period_counts.simps count by simp
qed

text \<open>What the controls of a period report, and the numbers around them.\<close>

definition reported_controls :: "close_tables \<Rightarrow> date \<times> date \<Rightarrow> (string \<times> control_state \<times> nat) list" where
  "reported_controls tb p = map (\<lambda>(control_code, n). (control_code, if (n = 0) = (control_code = ''expected_sources'') then Blocked else Pass, n))
     (evidence_counts tb p) @ [(''product_close'', Unavailable, 1)]"

definition numbers_right :: "close_tables \<Rightarrow> date \<times> date \<Rightarrow> period_item \<Rightarrow> bool" where
  "numbers_right tb p i = (map (\<lambda>k. (cl_code k, cl_state k, cl_count k)) (pi_controls i) = reported_controls tb p
     \<and> map (\<lambda>(control_code, n, _). (control_code, n)) (pi_blockers i)
        = map (\<lambda>(control_code, _, n). (control_code, n)) (filter (\<lambda>(_, state, _). state = Blocked) (reported_controls tb p))
     \<and> pi_sources_count i = length (due tb p) \<and> pi_selected i = length (chosen_of tb p) \<and> pi_accounts i = card (accounts_due tb p)
     \<and> pi_unassigned i = how_many (\<lambda>e. xp_account e = None) (due tb p) \<and> \<not> pi_close_ready i \<and> \<not> pi_can_execute i)"

lemma blockers_listed:
  "map (\<lambda>(control_code, n, _). (control_code, n)) (blockers_of (controls_of c)) = map (\<lambda>(control_code, _, n). (control_code, n))
     (filter (\<lambda>(_, state, _). state = Blocked) (map (\<lambda>k. (cl_code k, cl_state k, cl_count k)) (controls_of c)))"
proof -
  define fit where "fit k = ((cl_state k = Blocked) = (cl_state k \<noteq> Pass \<and> cl_code k \<noteq> ''product_close''))" for k :: control
  have fits: "fit (control_of a (if b then Pass else Blocked) n d)" if "a \<noteq> ''product_close''" for a b n d
    using that by (simp add: control_of_def fit_def)
  have last: "fit (control_of ''product_close'' Unavailable n d)" for n d by (simp add: control_of_def fit_def)
  have "list_all fit (controls_of c)"
    unfolding controls_of_def zero_control_def list.pred_inject by (intro conjI TrueI fits last) simp_all
  then have "\<forall>k \<in> set (controls_of c). (cl_state k = Blocked) = (cl_state k \<noteq> Pass \<and> cl_code k \<noteq> ''product_close'')"
    by (simp add: list_all_iff fit_def)
  moreover have "map (\<lambda>(control_code, n, _). (control_code, n)) (blockers_of ks) = map (\<lambda>(control_code, _, n). (control_code, n))
     (filter (\<lambda>(_, state, _). state = Blocked) (map (\<lambda>k. (cl_code k, cl_state k, cl_count k)) ks))"
    if "\<forall>k \<in> set ks. (cl_state k = Blocked) = (cl_state k \<noteq> Pass \<and> cl_code k \<noteq> ''product_close'')" for ks
    using that by (induction ks) (auto simp: blockers_of_def)
  ultimately show ?thesis by blast
qed

lemma control_triples:
  assumes "pc_sources c \<noteq> 0" "pc_accounts c = 0 \<longrightarrow> pc_uncovered c = 1"
  shows "map (\<lambda>k. (cl_code k, cl_state k, cl_count k)) (controls_of c)
    = map (\<lambda>(control_code, n). (control_code, if (n = 0) = (control_code = ''expected_sources'') then Blocked else Pass, n))
      [(''expected_sources'', pc_sources c), (''expectations_satisfied'', pc_pending c), (''dataset_evidence'', pc_no_dataset c),
       (''published_datasets'', pc_unpublished c), (''verified_completeness'', pc_incomplete c), (''complete_lineage'', pc_lineage_gaps c),
       (''rejected_rows'', pc_rejected c), (''accounting_dates'', pc_missing_dates c), (''reconciliation_reviews'', pc_open_reviews c),
       (''quality_alerts'', pc_high_issues c), (''pending_corrections'', pc_corrections c),
       (''account_balances'', pc_sources c - pc_eligible c), (''completeness_assessments'', pc_missing_assessments c),
       (''reconciliation_statements'', pc_uncovered c),
       (''reconciliation_statement_lineage'', if pc_accounts c = 0 then 1 else pc_statement_gaps c)]
      @ [(''product_close'', Unavailable, 1)]"
  unfolding controls_of_def zero_control_def control_of_def
  by (simp split del: if_split; intro conjI; use assms in auto)

lemma counts_evidence:
  assumes views: "mset sources = mset (map (view_of sv tb) (due tb p))" and due: "due tb p \<noteq> []"
    and found: "\<And>e d. e \<in> set (due tb p) \<Longrightarrow> chosen_dataset tb e = Some d \<Longrightarrow> dv_id d \<in> set ids"
    and assessed: "\<forall>e \<in> set (due tb p). eligible_assessment assessments (view_of sv tb e) = assessment_of tb e"
    and statements: "\<And>acc. statements acc (snd p) (fst p) = statement_of tb p acc"
    and accounts: "accounts = map (account_view_of (snd p) (fst p) sources assessments statements) (expected_accounts sources)"
    and c: "c = period_counts_of (snd p) (fst p) sources (map (check_of tb) (chosen_ids sources)) (balance_checks tb ids) assessments accounts"
  shows "map (\<lambda>k. (cl_code k, cl_state k, cl_count k)) (controls_of c) = reported_controls tb p" and "pc_accounts c = card (accounts_due tb p)"
proof -
  note state = state_evidence [OF views c]
  note waiting = waiting_evidence [OF views c]
  note account = account_evidence [OF views assessed statements accounts c]
  have "pc_eligible c = how_many (\<lambda>e. balance_eligible (snd p) (fst p) (balance_checks tb ids) (view_of sv tb e)) (due tb p)"
    using how_many_mset [OF views] by (simp add: c period_counts_of_def)
  also have "\<dots> = how_many (\<lambda>e. \<exists>d acc. chosen_dataset tb e = Some d \<and> xp_account e = Some acc \<and> balance_held tb p d acc) (due tb p)"
    unfolding how_many_def by (intro arg_cong [of _ _ length] filter_cong refl balance_eligible_iff found)
  finally have balances: "pc_sources c - pc_eligible c
      = how_many (\<lambda>e. \<not> (\<exists>d acc. chosen_dataset tb e = Some d \<and> xp_account e = Some acc \<and> balance_held tb p d acc)) (due tb p)"
    using sum_length_filter_compl [of "\<lambda>e. \<exists>d acc. chosen_dataset tb e = Some d \<and> xp_account e = Some acc \<and> balance_held tb p d acc" "due tb p"]
    by (simp add: how_many_def state(1))
  have assessed': "pc_missing_assessments c = how_many (\<lambda>e. assessment_of tb e = None) (due tb p)"
  proof -
    have "pc_missing_assessments c = how_many (\<lambda>e. eligible_assessment assessments (view_of sv tb e) = None) (due tb p)"
      using how_many_mset [OF views] by (simp add: c period_counts_of_def)
    also have "\<dots> = how_many (\<lambda>e. assessment_of tb e = None) (due tb p)"
      unfolding how_many_def using assessed by (intro arg_cong [of _ _ length] filter_cong) auto
    finally show ?thesis .
  qed
  have "finite (accounts_due tb p)" unfolding accounts_due_def
    by (rule finite_subset [of _ "(\<lambda>e. the (xp_account e)) ` set (due tb p)"]) force+
  then have "pc_accounts c \<noteq> 0 \<longleftrightarrow> accounts_due tb p \<noteq> {}" by (simp add: account(1))
  then have none: "pc_accounts c = 0 \<longleftrightarrow> accounts_due tb p = {}" by blast
  then have uncovered: "pc_accounts c = 0 \<longrightarrow> pc_uncovered c = 1" by (simp add: account(2))
  have sources: "pc_sources c \<noteq> 0" using due by (simp add: state(1))
  show "map (\<lambda>k. (cl_code k, cl_state k, cl_count k)) (controls_of c) = reported_controls tb p"
    unfolding control_triples [OF sources uncovered] reported_controls_def evidence_counts_def balances assessed'
    unfolding none state waiting account(2,3) by (rule refl)
  show "pc_accounts c = card (accounts_due tb p)" by (rule account(1))
qed

text \<open>One period, built from views that are a permutation of those of its expectations.\<close>

lemma build_period_ready:
  assumes views: "mset sources = mset (map (view_of sv tb) (due tb p))"
    and ids: "set (chosen_ids sources) \<subseteq> set ids"
    and assessments: "\<And>e d. e \<in> set (due tb p) \<Longrightarrow> chosen_dataset tb e = Some d
      \<Longrightarrow> assessments (xp_id e) (dv_id d) = found_assessment tb (xp_id e) (dv_id d)"
    and statements: "\<And>acc. statements acc (snd p) (fst p) = statement_of tb p acc" and due: "due tb p \<noteq> []"
  shows "\<exists>item. build_period (snd p) (fst p) sources (dataset_checks tb ids) (balance_checks tb ids) assessments statements = Inr item
    \<and> pi_start item = isoformat (snd p) \<and> pi_end item = isoformat (fst p) \<and> pi_sources item = sources
    \<and> pi_status item = (if period_ready tb p then ''ready_for_review'' else ''blocked'') \<and> numbers_right tb p item"
proof -
  define checks where "checks = map (check_of tb) (chosen_ids sources)"
  define accounts where "accounts = map (account_view_of (snd p) (fst p) sources assessments statements) (expected_accounts sources)"
  define c where "c = period_counts_of (snd p) (fst p) sources checks (balance_checks tb ids) assessments accounts"
  have sources: "set sources = view_of sv tb ` set (due tb p)" using mset_eq_setD [OF views] by simp
  have found: "dv_id d \<in> set ids" if "e \<in> set (due tb p)" "chosen_dataset tb e = Some d" for e d
    using ids that unfolding set_chosen_ids chosen_datasets [OF sources] by auto
  have assessed: "eligible_assessment assessments (view_of sv tb e) = assessment_of tb e" if "e \<in> set (due tb p)" for e
    by (rule eligible_assessment_of) (rule assessments [OF that])
  have checks_clear: "pc_missing_dates c = 0 \<and> pc_open_reviews c = 0 \<and> pc_high_issues c = 0 \<and> pc_corrections c = 0
      \<longleftrightarrow> (\<forall>e \<in> set (due tb p). \<forall>d. chosen_dataset tb e = Some d \<longrightarrow> nothing_waits tb (dv_id d))"
    by (rule waiting_counts [OF sources]) (simp add: c_def checks_def)
  have balances: "pc_sources c \<le> pc_eligible c \<longleftrightarrow> (\<forall>e \<in> set (due tb p). \<exists>d acc. chosen_dataset tb e = Some d
      \<and> xp_account e = Some acc \<and> balance_held tb p d acc)"
  proof -
    have "pc_sources c \<le> pc_eligible c \<longleftrightarrow>
        (\<forall>e \<in> set (due tb p). balance_eligible (snd p) (fst p) (balance_checks tb ids) (view_of sv tb e))"
      by (simp add: c_def period_counts_of_def how_many_all sources)
    also have "\<dots> \<longleftrightarrow> (\<forall>e \<in> set (due tb p). \<exists>d acc. chosen_dataset tb e = Some d \<and> xp_account e = Some acc \<and> balance_held tb p d acc)"
      by (intro ball_cong refl balance_eligible_iff found)
    finally show ?thesis .
  qed
  have missing: "pc_missing_assessments c = 0 \<longleftrightarrow> (\<forall>e \<in> set (due tb p). assessment_of tb e \<noteq> None)"
    using assessed by (simp add: c_def period_counts_of_def sources)
  have states: "pc_sources c \<noteq> 0 \<and> pc_pending c = 0 \<and> pc_no_dataset c = 0 \<and> pc_unpublished c = 0 \<and> pc_incomplete c = 0
      \<and> pc_lineage_gaps c = 0 \<and> pc_rejected c = 0 \<longleftrightarrow> due tb p \<noteq> [] \<and> (\<forall>e \<in> set (due tb p). xp_state e = ''satisfied''
      \<and> (\<exists>d. chosen_dataset tb e = Some d \<and> dv_state d = ''published'' \<and> dv_completeness d = ''verified''
          \<and> dv_lineage d = ''complete'' \<and> dv_rejected d = 0))"
    by (rule state_counts [OF sources c_def])
  have "diagnostic_ready (controls_of c) \<longleftrightarrow> period_ready tb p"
  proof (cases "(\<forall>e \<in> set (due tb p). assessment_of tb e \<noteq> None) \<and> (\<forall>e \<in> set (due tb p). \<exists>d acc. chosen_dataset tb e = Some d
      \<and> xp_account e = Some acc \<and> balance_held tb p d acc)")
    case False
    then show ?thesis
      unfolding diagnostic_ready_iff period_ready_def source_ready_def using missing balances by blast
  next
    case True
    then have cov: "pc_accounts c \<noteq> 0 \<and> pc_uncovered c = 0 \<and> pc_statement_gaps c = 0
        \<longleftrightarrow> due tb p \<noteq> [] \<and> (\<forall>e \<in> set (due tb p). \<forall>acc. xp_account e = Some acc \<longrightarrow> account_balanced tb p acc)"
      by (intro account_counts [OF views statements _ _ accounts_def c_def]) (use assessed in auto)
    have "diagnostic_ready (controls_of c) \<longleftrightarrow>
        (due tb p \<noteq> [] \<and> (\<forall>e \<in> set (due tb p). xp_state e = ''satisfied''
          \<and> (\<exists>d. chosen_dataset tb e = Some d \<and> dv_state d = ''published'' \<and> dv_completeness d = ''verified''
             \<and> dv_lineage d = ''complete'' \<and> dv_rejected d = 0)))
        \<and> (\<forall>e \<in> set (due tb p). \<forall>d. chosen_dataset tb e = Some d \<longrightarrow> nothing_waits tb (dv_id d))
        \<and> (\<forall>e \<in> set (due tb p). \<forall>acc. xp_account e = Some acc \<longrightarrow> account_balanced tb p acc)"
      unfolding diagnostic_ready_iff using states checks_clear balances missing cov True by blast
    also have "\<dots> \<longleftrightarrow> period_ready tb p"
      unfolding period_ready_def source_ready_def dataset_clear_def using True by (auto 4 4)
    finally show ?thesis .
  qed
  note ready = this
  have "\<forall>e \<in> set (due tb p). eligible_assessment assessments (view_of sv tb e) = assessment_of tb e" using assessed by blast
  note counts = counts_evidence [OF views due found this statements accounts_def c_def [unfolded checks_def]]
  have "length (chosen_ids sources) = length (chosen_of tb p)"
    using arg_cong [OF chosen_ids_mset [OF views], of size] by simp
  moreover have held: "length accounts = card (accounts_due tb p)"
    using counts(2) by (simp add: c_def period_counts_of_def)
  ultimately have "numbers_right tb p \<lparr>pi_start = x, pi_end = y, pi_status = z, pi_close_ready = False, pi_can_execute = False,
      pi_sources_count = length sources, pi_selected = length checks, pi_accounts = length accounts,
      pi_unassigned = how_many (\<lambda>s. so_account s = None) sources, pi_controls = controls_of c, pi_blockers = blockers_of (controls_of c),
      pi_sources = sources, pi_reconciliations = accounts\<rparr>" for x y z
    using counts arg_cong [OF views, of size] how_many_mset [OF views, of "\<lambda>s. so_account s = None"]
    unfolding numbers_right_def period_item.simps blockers_listed counts(1) held by (simp add: checks_def)
  with ready show ?thesis
    unfolding build_period_def checks_found [OF ids] rbind_simps Let_def
    by (simp add: c_def checks_def accounts_def)
qed

section \<open>The whole diagnosis\<close>

lemma map_result_all2:
  "\<forall>x \<in> set xs. \<exists>y. f x = Inr y \<and> R x y \<Longrightarrow> \<exists>ys. map_result f xs = Inr ys \<and> list_all2 R xs ys"
proof (induction xs)
  case (Cons x xs)
  then obtain y ys where "f x = Inr y" "R x y" "map_result f xs = Inr ys" "list_all2 R xs ys" by auto
  then show ?case by simp
qed simp

definition item_of :: "services \<Rightarrow> close_tables \<Rightarrow> date \<times> date \<Rightarrow> period_item \<Rightarrow> bool" where
  "item_of sv tb p i = (pi_start i = isoformat (snd p) \<and> pi_end i = isoformat (fst p)
     \<and> pi_sources i = map (row_source sv) (expectation_rows tb p)
     \<and> pi_status i = (if period_ready tb p then ''ready_for_review'' else ''blocked'') \<and> numbers_right tb p i)"

definition scope_size :: "close_tables \<Rightarrow> int \<Rightarrow> nat" where
  "scope_size tb limit = sum_list (map (\<lambda>p. length (due tb p)) (newest_periods tb limit))"

lemma length_expectation_rows:
  assumes "sources_known tb"
  shows "length (expectation_rows tb p) = length (due tb p)"
  using arg_cong [OF expectation_rows_mset [OF assms, of p], of size] by simp

lemma row_views:
  assumes "sources_known tb"
  shows "mset (map (row_source sv) (expectation_rows tb p)) = mset (map (view_of sv tb) (due tb p))"
proof -
  have "view_of sv tb = row_source sv \<circ> row_of tb" by (simp add: fun_eq_iff view_of_def)
  then show ?thesis
    using arg_cong [OF expectation_rows_mset [OF assms, of p], of "image_mset (row_source sv)"] by (simp add: multiset.map_comp)
qed

lemma diagnosis_items:
  assumes known: "sources_known tb" and limit: "1 \<le> limit" "limit \<le> CLOSE_READINESS_MAX" and size: "scope_size tb limit \<le> MAX_EXPECTATIONS"
  shows "\<exists>r. list_close_readiness sv tb limit = Inr r \<and> list_all2 (item_of sv tb) (newest_periods tb limit) (rn_items r)
    \<and> rn_blocked r = how_many (\<lambda>i. pi_status i = ''blocked'') (rn_items r) \<and> rn_periods r = length (rn_items r)
    \<and> rn_ready r = int (length (rn_items r)) - int (rn_blocked r) \<and> rn_sources r = scope_size tb limit \<and> rn_limit r = limit
    \<and> \<not> rn_close_ready r \<and> \<not> rn_can_execute r"
proof -
  define rows where "rows = concat (map (expectation_rows tb) (newest_periods tb limit))"
  define sources where "sources = map (row_source sv) rows"
  define ids where "ids = sorted_set (chosen_ids sources)"
  have size': "length rows = scope_size tb limit"
    by (simp add: rows_def scope_size_def length_concat comp_def length_expectation_rows [OF known])
  then have fetched: "period_rows tb limit = Inr rows"
    using size by (simp add: period_rows_def rows_def [symmetric])
  have grouped: "grouped (map (\<lambda>row. ((xp_start (fst row), xp_end (fst row)), row_source sv row)) rows)
      = map (\<lambda>p. (prod.swap p, map (row_source sv) (expectation_rows tb p))) (newest_periods tb limit)"
    using rows_grouped [OF known, of "row_source sv" limit] by (simp add: rows_def period_key_def)
  define statements where "statements = statement_checks tb (map prod.swap (newest_periods tb limit))"
  have one: "\<exists>i. build_period (snd p) (fst p) (map (row_source sv) (expectation_rows tb p)) (dataset_checks tb ids)
      (balance_checks tb ids) (assessment_checks tb sources) statements = Inr i \<and> item_of sv tb p i"
    if p: "p \<in> set (newest_periods tb limit)" for p
  proof -
    define own where "own = map (row_source sv) (expectation_rows tb p)"
    have views: "mset own = mset (map (view_of sv tb) (due tb p))" unfolding own_def by (rule row_views [OF known])
    have sub: "set own \<subseteq> set sources" using p by (auto simp: own_def sources_def rows_def)
    have "set (chosen_ids own) \<subseteq> set ids" using sub by (auto simp: ids_def set_chosen_ids)
    moreover have "assessment_checks tb sources (xp_id e) (dv_id d) = found_assessment tb (xp_id e) (dv_id d)"
      if "e \<in> set (due tb p)" "chosen_dataset tb e = Some d" for e d
    proof -
      have "view_of sv tb e \<in> set own" using mset_eq_setD [OF views] that(1) by auto
      then have "(xp_id e, Some (dv_id d)) \<in> (\<lambda>s. (so_expectation s, so_dataset s)) ` set sources"
        using sub that(2) by (intro image_eqI [of _ _ "view_of sv tb e"]) auto
      then show ?thesis by (simp add: assessment_checks_def found_assessment_def)
    qed
    moreover have "statements acc (snd p) (fst p) = statement_of tb p acc" for acc
    proof -
      have "(snd p, fst p) \<in> set (map prod.swap (newest_periods tb limit))"
        using p by (auto intro!: image_eqI [of _ _ p] simp: prod.swap_def)
      then show ?thesis by (simp add: statements_def statement_checks_def statement_of_def)
    qed
    ultimately have "\<exists>i. build_period (snd p) (fst p) own (dataset_checks tb ids) (balance_checks tb ids)
        (assessment_checks tb sources) statements = Inr i \<and> pi_start i = isoformat (snd p) \<and> pi_end i = isoformat (fst p)
        \<and> pi_sources i = own \<and> pi_status i = (if period_ready tb p then ''ready_for_review'' else ''blocked'') \<and> numbers_right tb p i"
      by (intro build_period_ready [OF views]) (simp_all add: newest_due [OF p])
    then show ?thesis unfolding own_def item_of_def by blast
  qed
  have "\<exists>items. map_result (\<lambda>p. build_period (snd p) (fst p) (map (row_source sv) (expectation_rows tb p)) (dataset_checks tb ids)
      (balance_checks tb ids) (assessment_checks tb sources) statements) (newest_periods tb limit) = Inr items
      \<and> list_all2 (item_of sv tb) (newest_periods tb limit) items"
    by (rule map_result_all2) (use one in blast)
  then obtain items where items: "map_result (\<lambda>p. build_period (snd p) (fst p) (map (row_source sv) (expectation_rows tb p)) (dataset_checks tb ids)
      (balance_checks tb ids) (assessment_checks tb sources) statements) (newest_periods tb limit) = Inr items"
    "list_all2 (item_of sv tb) (newest_periods tb limit) items" by blast
  have mapped: "map_result g (map h xs) = map_result (g \<circ> h) xs" for g :: "(date \<times> date) \<times> source_view list \<Rightarrow> period_item close_answer"
    and h :: "date \<times> date \<Rightarrow> _" and xs
    by (induction xs) simp_all
  have "map_result (\<lambda>((period_start, period_end), period_sources). build_period period_start period_end period_sources
        (dataset_checks tb ids) (balance_checks tb ids) (assessment_checks tb sources) statements)
      (map (\<lambda>p. (prod.swap p, map (row_source sv) (expectation_rows tb p))) (newest_periods tb limit)) = Inr items"
    unfolding mapped items(1) [symmetric] by (intro arg_cong2 [where f = map_result] refl ext) (simp add: prod.swap_def)
  then show ?thesis
    using limit items(2) size' unfolding list_close_readiness_def
    by (simp add: validated_limit_def fetched Let_def grouped sources_def [symmetric] chosen_ids_def [symmetric] ids_def [symmetric]
        comp_def statements_def [symmetric])
qed

lemma diagnosis_scope:
  assumes "sources_known tb" "list_close_readiness sv tb limit = Inr r"
  shows "1 \<le> limit \<and> limit \<le> CLOSE_READINESS_MAX \<and> scope_size tb limit \<le> MAX_EXPECTATIONS"
proof -
  have "length (concat (map (expectation_rows tb) (newest_periods tb limit))) = scope_size tb limit"
    by (simp add: scope_size_def length_concat comp_def length_expectation_rows [OF assms(1)])
  moreover have "1 \<le> limit \<and> limit \<le> CLOSE_READINESS_MAX \<and> (\<exists>rows. period_rows tb limit = Inr rows)"
    using assms(2) by (auto simp: list_close_readiness_def validated_limit_def rbind_Inr_iff split: if_splits)
  ultimately show ?thesis by (auto simp: period_rows_def Let_def split: if_splits)
qed

text \<open>C15. The diagnosis answers exactly for the newest periods, and calls a period ready for review exactly when
  the tables say so: every expectation satisfied by a published, verified and complete dataset without
  rejected rows, undated movements, undecided reviews, high alerts or pending corrections, with a balance, a
  current assessment and a newest statement that is balanced and made from the current assessments. Each
  period shows its sixteen controls with the counts that the tables give, blocked exactly when they are not zero (the first
  one when it is), the blocked ones again as blockers, and how many sources, datasets and accounts it has; the
  reply counts the periods, those blocked, those ready and the sources, and never offers to execute a close.\<close>

theorem periods_are_ready_exactly_when:
  assumes "sources_known tb" "list_close_readiness sv tb limit = Inr r"
  shows "map (\<lambda>i. (pi_start i, pi_end i, pi_status i)) (rn_items r)
      = map (\<lambda>p. (isoformat (snd p), isoformat (fst p), if period_ready tb p then ''ready_for_review'' else ''blocked'')) (newest_periods tb limit)
    \<and> list_all2 (numbers_right tb) (newest_periods tb limit) (rn_items r)
    \<and> rn_periods r = length (newest_periods tb limit)
    \<and> rn_blocked r = how_many (\<lambda>p. \<not> period_ready tb p) (newest_periods tb limit)
    \<and> rn_ready r = int (how_many (period_ready tb) (newest_periods tb limit))
    \<and> rn_sources r = sum_list (map (\<lambda>p. length (due tb p)) (newest_periods tb limit))
    \<and> rn_limit r = limit \<and> \<not> rn_close_ready r \<and> \<not> rn_can_execute r"
proof -
  have items: "list_all2 (item_of sv tb) (newest_periods tb limit) (rn_items r)"
    "rn_blocked r = how_many (\<lambda>i. pi_status i = ''blocked'') (rn_items r)" "rn_periods r = length (rn_items r)"
    "rn_ready r = int (length (rn_items r)) - int (rn_blocked r)" "rn_sources r = scope_size tb limit" "rn_limit r = limit"
    "\<not> rn_close_ready r" "\<not> rn_can_execute r"
    using diagnosis_items [OF assms(1), of limit sv] diagnosis_scope [OF assms] assms(2) by auto
  have len: "length (rn_items r) = length (newest_periods tb limit)" using list_all2_lengthD [OF items(1)] by simp
  from items(1) have blocked: "how_many (\<lambda>i. pi_status i = ''blocked'') (rn_items r) = how_many (\<lambda>p. \<not> period_ready tb p) (newest_periods tb limit)"
    by (induction rule: list_all2_induct) (auto simp: how_many_def item_of_def)
  have "how_many (period_ready tb) (newest_periods tb limit) + how_many (\<lambda>p. \<not> period_ready tb p) (newest_periods tb limit)
      = length (newest_periods tb limit)"
    unfolding how_many_def by (rule sum_length_filter_compl)
  then have ready: "rn_ready r = int (how_many (period_ready tb) (newest_periods tb limit))"
    unfolding items(4) items(2) blocked len by linarith
  have numbers: "list_all2 (numbers_right tb) (newest_periods tb limit) (rn_items r)"
    by (rule list_all2_mono [OF items(1)]) (simp add: item_of_def)
  from items(1) have "map (\<lambda>i. (pi_start i, pi_end i, pi_status i)) (rn_items r)
      = map (\<lambda>p. (isoformat (snd p), isoformat (fst p), if period_ready tb p then ''ready_for_review'' else ''blocked'')) (newest_periods tb limit)"
    by (induction rule: list_all2_induct) (auto simp: item_of_def)
  then show ?thesis using items(2,3,5-8) blocked ready numbers by (simp add: len scope_size_def)
qed

text \<open>C40. The diagnosis fails on a limit outside 1 to 24 and on more than 1200 expectations, on nothing else.\<close>

theorem diagnosis_fails_only_on_its_bounds:
  assumes "sources_known tb"
  shows "case list_close_readiness sv tb limit of
      Inl e \<Rightarrow> e = (if 1 \<le> limit \<and> limit \<le> CLOSE_READINESS_MAX
          then CloseReadinessError ''close-readiness-scope-too-large''
            ''the selected periods contain more than 1200 expectations; reduce the period window''
          else CloseReadinessError ''close-readiness-limit-invalid'' ''limit must be between 1 and 24'')
        \<and> \<not> (1 \<le> limit \<and> limit \<le> CLOSE_READINESS_MAX \<and> scope_size tb limit \<le> MAX_EXPECTATIONS)
    | Inr r \<Rightarrow> 1 \<le> limit \<and> limit \<le> CLOSE_READINESS_MAX \<and> scope_size tb limit \<le> MAX_EXPECTATIONS
        \<and> mset (concat (map (\<lambda>i. map so_expectation (pi_sources i)) (rn_items r)))
          = mset (map xp_id (concat (map (due tb) (newest_periods tb limit))))"
proof (cases "1 \<le> limit \<and> limit \<le> CLOSE_READINESS_MAX \<and> scope_size tb limit \<le> MAX_EXPECTATIONS")
  case True
  then obtain r where r: "list_close_readiness sv tb limit = Inr r" "list_all2 (item_of sv tb) (newest_periods tb limit) (rn_items r)"
    using diagnosis_items [OF assms, of limit sv] by auto
  have one: "mset (map so_expectation (pi_sources i)) = mset (map xp_id (due tb p))" if "item_of sv tb p i" for p i
  proof -
    have "mset (pi_sources i) = mset (map (view_of sv tb) (due tb p))" using that row_views [OF assms] by (simp add: item_of_def)
    from arg_cong [OF this, of "image_mset so_expectation"] show ?thesis by (simp add: multiset.map_comp comp_def)
  qed
  from r(2) have "mset (concat (map (\<lambda>i. map so_expectation (pi_sources i)) (rn_items r)))
      = mset (map xp_id (concat (map (due tb) (newest_periods tb limit))))"
    by (induction rule: list_all2_induct) (use one in auto)
  then show ?thesis using r(1) True by simp
next
  case False
  have "length (concat (map (expectation_rows tb) (newest_periods tb limit))) = scope_size tb limit"
    by (simp add: scope_size_def length_concat comp_def length_expectation_rows [OF assms])
  then show ?thesis
    using False by (auto simp: list_close_readiness_def validated_limit_def period_rows_def)
qed

text \<open>Of the datasets of the artifact that satisfied an expectation, a published one is chosen when there is one,
  a newer one over an older one of the same state.\<close>

lemma published_dataset_wins:
  assumes "chosen_dataset tb e = Some d" "d' \<in> set (tb_datasets tb)" "Some (dv_artifact d') = xp_satisfied e"
  shows "Some (dv_artifact d) = xp_satisfied e \<and> (dv_state d' = ''published'' \<longrightarrow> dv_state d = ''published'')
    \<and> (dv_state d = dv_state d' \<longrightarrow> dv_prepared d' \<le> dv_prepared d)"
proof -
  have "(- state_rank (dv_state d'), dv_prepared d', dv_id d') \<le> (- state_rank (dv_state d), dv_prepared d, dv_id d)"
    "Some (dv_artifact d) = xp_satisfied e"
    using latest_by_Some [OF assms(1) [unfolded chosen_dataset_def]] assms(2,3) by auto
  then show ?thesis by (auto simp: less_eq_prod_def state_rank_def split: if_splits)
qed

section \<open>A sample company with one period\<close>

definition march :: "date \<times> date" where "march = (Date 2026 3 31, Date 2026 3 1)"

definition sample_expectation :: expectation_row where
  "sample_expectation = \<lparr>xp_id = ''x1'', xp_source = ''s1'', xp_account = Some ''acc'', xp_start = Date 2026 3 1, xp_end = Date 2026 3 31,
     xp_state = ''satisfied'', xp_satisfied = Some ''file''\<rparr>"

definition sample_published :: dataset_version where
  "sample_published = \<lparr>dv_id = ds_a, dv_artifact = ''file'', dv_state = ''published'', dv_completeness = ''verified'',
     dv_lineage = ''complete'', dv_rejected = 0, dv_movements = 1, dv_prepared = 5\<rparr>"

definition sample_draft_version :: dataset_version where
  "sample_draft_version = sample_published\<lparr>dv_id := ds_b, dv_state := ''validated'', dv_prepared := 9\<rparr>"

definition sample_tables :: "review_ledger \<Rightarrow> close_tables" where
  "sample_tables led = \<lparr>tb_expectations = [sample_expectation], tb_sources = [(''s1'', ''Banco'')],
     tb_accounts = [(''acc'', ''bank_account'', ''Cuenta'')], tb_datasets = [sample_published, sample_draft_version],
     tb_movements = [\<lparr>dm_id = m_id payment, dm_dataset = ds_a, dm_accounting = Some (Date 2026 3 5)\<rparr>,
       \<lparr>dm_id = m_id receipt_move, dm_dataset = ds_b, dm_accounting = None\<rparr>],
     tb_reviews = led, tb_issues = [\<lparr>qi_id = ''q1'', qi_scope = ''dataset'', qi_ref = ds_a, qi_severity = ''high'', qi_status = ''resolved''\<rparr>],
     tb_overlays = [(''o1'', ds_a)], tb_overlay_reviews = [(''o1'', ''rejected'')], tb_applied = [],
     tb_balances = [\<lparr>ab_dataset = ds_a, ab_account = ''acc'', ab_type = ''closing'', ab_date = Date 2026 3 31, ab_lineage = ''complete''\<rparr>],
     tb_assessments = [\<lparr>am_id = ''as1'', am_expectation = ''x1'', am_dataset = ds_a, am_account = Some ''acc'', am_state = ''verified'',
       am_lineage = ''complete'', am_created = 1\<rparr>],
     tb_roots = [\<lparr>sr_id = ''root'', sr_account = ''acc'', sr_start = Date 2026 3 1, sr_end = Date 2026 3 31\<rparr>],
     tb_statements = [\<lparr>st_id = ''st1'', st_root = ''root'', st_account = ''acc'', st_start = Date 2026 3 1, st_end = Date 2026 3 31, st_version = 1, st_state = ''balanced'', st_lineage = ''complete'',
       st_assessments = [''as1''], st_created = 3\<rparr>],
     tb_collation = length\<rparr>"

lemma latest_by_single [simp]: "latest_by key [x] = Some x"
  by (simp add: latest_by_def)

lemma sample_newest: "newest_periods (sample_tables led) 12 = [march]"
  by (simp add: newest_periods_def sample_tables_def sample_expectation_def march_def)

lemma sample_due: "due (sample_tables led) march = [sample_expectation]"
  by (simp add: due_def sample_tables_def sample_expectation_def march_def)

lemma sample_known: "sources_known (sample_tables led)"
  by (simp add: sources_known_def sample_tables_def sample_expectation_def)

lemma sample_chosen: "chosen_dataset (sample_tables led) sample_expectation = Some sample_published"
  by (simp add: chosen_dataset_def latest_by_def sample_tables_def sample_expectation_def sample_published_def sample_draft_version_def
      state_rank_def)

text \<open>The period is ready while no review of its movement waits, and blocked by one that does.\<close>

lemma sample_period:
  "period_ready (sample_tables led) march
    \<longleftrightarrow> (\<forall>c \<in> set (lg_candidates led). touches (sample_tables led) ds_a c \<longrightarrow> decision_for led (mc_id c) \<noteq> None)"
proof -
  have "assessment_of (sample_tables led) sample_expectation = Some ''as1''"
    using sample_chosen [of led]
    by (simp add: assessment_of_def) (simp add: sample_tables_def sample_expectation_def sample_published_def)
  moreover have "balance_held (sample_tables led) march sample_published ''acc''"
    by (simp add: balance_held_def sample_tables_def march_def sample_published_def date_less_iff less_eq_date_def)
  moreover have "account_balanced (sample_tables led) march ''acc''"
    using calculation(1) by (simp add: account_balanced_def sample_due)
      (simp add: statement_of_def sample_tables_def march_def sample_expectation_def)
  moreover have "dataset_clear (sample_tables led) sample_published \<longleftrightarrow>
      (\<forall>c \<in> set (lg_candidates led). touches (sample_tables led) ds_a c \<longrightarrow> decision_for led (mc_id c) \<noteq> None)"
  proof -
    have "tb_reviews (sample_tables led) = led" by (simp add: sample_tables_def)
    then show ?thesis
      by (simp add: dataset_clear_def nothing_waits_def sample_published_def)
        (auto simp: sample_tables_def about_def)
  qed
  ultimately show ?thesis
    using sample_chosen [of led] by (simp add: period_ready_def sample_due source_ready_def) (simp add: sample_expectation_def)
qed

lemma sample_diagnosis:
  obtains r where "list_close_readiness sample_services (sample_tables led) 12 = Inr r"
  using diagnosis_items [OF sample_known, of 12 led sample_services]
  by (auto simp: CLOSE_READINESS_MAX_def scope_size_def sample_newest sample_due MAX_EXPECTATIONS_def)

theorem periods_are_ready_exactly_when_witness:
  "\<exists>r. list_close_readiness sample_services (sample_tables empty_ledger) 12 = Inr r
     \<and> map pi_status (rn_items r) = [''ready_for_review''] \<and> rn_blocked r = 0"
proof -
  obtain r where r: "list_close_readiness sample_services (sample_tables empty_ledger) 12 = Inr r" by (rule sample_diagnosis)
  have "period_ready (sample_tables empty_ledger) march" by (simp add: sample_period)
  with periods_are_ready_exactly_when [OF sample_known r] have
    "map (\<lambda>i. (pi_start i, pi_end i, pi_status i)) (rn_items r) = [(isoformat (snd march), isoformat (fst march), ''ready_for_review'')]"
    "rn_blocked r = 0"
    by (simp_all add: sample_newest)
  then show ?thesis using r by (auto simp: map_eq_Cons_conv)
qed

theorem diagnosis_fails_only_on_its_bounds_witness:
  "list_close_readiness sample_services (sample_tables empty_ledger) 25
     = Inl (CloseReadinessError ''close-readiness-limit-invalid'' ''limit must be between 1 and 24'')"
  using diagnosis_fails_only_on_its_bounds [OF sample_known, where sv = sample_services and limit = 25, of empty_ledger]
  by (auto simp: CLOSE_READINESS_MAX_def split: sum.splits)

end
