(* ===== verification/CloseLedger.thy ===== *)
theory CloseLedger
  imports CloseReadiness GroupDrafts Tenancy
begin

text \<open>
  \<open>apps/api/src/fincilia_api/close_review.py\<close> and \<open>close_period.py\<close>: packets that fix the diagnosis of a period
  for a reviewer, their decisions, the close of a period and its reopening, over append-only tables. An
  insertion checks what the constraints and triggers of migrations V0034 and V0046 check, in their order;
  manifests and snapshots are records, so the tests on the shape of their JSON hold by type, and the
  limits on the stored size of a JSON value are left out. A command runs under its advisory locks and is one step. Dates that the
  module prints and reads back stay dates.
\<close>

section \<open>People\<close>

record engagement_row =
  en_firm :: string
  en_status :: string
  en_valid_to :: "date option"

record membership_row =
  ms_firm :: string
  ms_subject :: string
  ms_status :: string
  ms_role :: string

record subject_row =
  su_id :: string
  su_name :: string
  su_status :: string
  su_kind :: string

record grant_row =
  gt_subject :: string
  gt_role :: string
  gt_revoked :: bool

record people =
  pp_engagements :: "engagement_row list"
  pp_memberships :: "membership_row list"
  pp_subjects :: "subject_row list"
  pp_grants :: "grant_row list"
  pp_today :: date
  pp_collation :: "string \<Rightarrow> nat"

definition active_engagement :: "people \<Rightarrow> engagement_row \<Rightarrow> bool" where
  "active_engagement pp e = (en_status e = ''active'' \<and> (case en_valid_to e of None \<Rightarrow> True | Some d \<Rightarrow> pp_today pp \<le> d))"

text \<open>The joined rows of \<open>list_members\<close> and of \<open>is_close_reviewer_eligible\<close>, before their grants.\<close>

definition active_members :: "people \<Rightarrow> (subject_row \<times> string) list" where
  "active_members pp = concat (map (\<lambda>e. if active_engagement pp e then
       concat (map (\<lambda>m. if ms_firm m = en_firm e \<and> ms_status m = ''active'' then
           map (\<lambda>s. (s, ms_role m)) (filter (\<lambda>s. su_id s = ms_subject m \<and> su_status s = ''active'' \<and> su_kind s = ''person'') (pp_subjects pp))
         else []) (pp_memberships pp))
     else []) (pp_engagements pp))"

record member_view =
  mv_subject :: string
  mv_name :: string
  mv_firm_role :: string
  mv_roles :: "string list"

definition company_roles :: "people \<Rightarrow> string \<Rightarrow> string list" where
  "company_roles pp i = sorted_set (map gt_role (filter (\<lambda>g. gt_subject g = i \<and> \<not> gt_revoked g) (pp_grants pp)))"

definition list_members :: "people \<Rightarrow> member_view list" where
  "list_members pp = map (\<lambda>(s, role). \<lparr>mv_subject = su_id s, mv_name = su_name s, mv_firm_role = role, mv_roles = company_roles pp (su_id s)\<rparr>)
     (sort_key (\<lambda>(s, role). (pp_collation pp (su_name s), su_id s)) (remdups (active_members pp)))"

definition eligible_reviewers :: "people \<Rightarrow> (string \<times> string \<times> string list) list" where
  "eligible_reviewers pp = map (\<lambda>m. (mv_subject m, mv_name m, mv_roles m))
     (filter (\<lambda>m. ''close.approve'' \<in> derive_permissions (mv_roles m)) (list_members pp))"

definition is_close_reviewer_eligible :: "people \<Rightarrow> string \<Rightarrow> bool" where
  "is_close_reviewer_eligible pp i = list_ex (\<lambda>(s, role). su_id s = i \<and> list_ex (\<lambda>g. gt_subject g = su_id s \<and> \<not> gt_revoked g
     \<and> gt_role g \<in> set [''owner'', ''reviewer'']) (pp_grants pp)) (active_members pp)"

definition subject_name :: "people \<Rightarrow> string \<Rightarrow> string option" where
  "subject_name pp i = map_option su_name (find (\<lambda>s. su_id s = i) (pp_subjects pp))"

section \<open>Manifests and snapshots\<close>

definition MANIFEST_SCHEMA_VERSION :: string where "MANIFEST_SCHEMA_VERSION = ''close-evidence-v1''"
definition SNAPSHOT_SCHEMA_VERSION :: string where "SNAPSHOT_SCHEMA_VERSION = ''accounting-close-v1''"
definition CLOSE_REVIEW_MAX :: int where "CLOSE_REVIEW_MAX = 100"
definition CLOSE_PERIOD_MAX :: int where "CLOSE_PERIOD_MAX = 100"

definition REVIEW_REASONS :: "(string \<times> string list) list" where
  "REVIEW_REASONS = [(''evidence_reviewed'', [''controls_reviewed'']),
     (''changes_requested'', [''missing_evidence'', ''inconsistent_scope'', ''quality_blocker'', ''lineage_gap'', ''reconciliation_gap''])]"

definition REOPEN_REASONS :: "string list" where
  "REOPEN_REASONS = [''late_evidence'', ''material_error'', ''regulatory_adjustment'', ''scope_correction'', ''other_documented'']"

definition REOPEN_DECISION_REASONS :: "(string \<times> string list) list" where
  "REOPEN_DECISION_REASONS = [(''approved'', [''documented_basis_confirmed'']),
     (''rejected'', [''insufficient_basis'', ''wrong_scope'', ''duplicate_request''])]"

record manifest_control =
  fc_code :: string
  fc_state :: string
  fc_count :: nat

record manifest_source =
  fs_expectation :: string
  fs_source :: string
  fs_account :: "string option"
  fs_state :: string
  fs_dataset :: "string option"
  fs_dataset_state :: "string option"
  fs_completeness :: "string option"
  fs_lineage :: "string option"
  fs_rejected :: nat
  fs_movements :: nat

record manifest_account =
  fa_account :: string
  fa_sources :: nat
  fa_assessments :: nat
  fa_root :: "string option"
  fa_statement :: "string option"
  fa_version :: "nat option"
  fa_state :: "string option"
  fa_lineage :: "string option"
  fa_coverage :: string

record manifest =
  mf_schema :: string
  mf_status :: string
  mf_controls :: "manifest_control list"
  mf_sources :: "manifest_source list"
  mf_accounts :: "manifest_account list"

definition manifest_control_of :: "control \<Rightarrow> manifest_control" where
  "manifest_control_of c = \<lparr>fc_code = cl_code c, fc_state = state_text (cl_state c), fc_count = cl_count c\<rparr>"

definition manifest_source_of :: "source_view \<Rightarrow> manifest_source" where
  "manifest_source_of s = \<lparr>fs_expectation = so_expectation s, fs_source = so_source s, fs_account = so_account s, fs_state = so_state s,
     fs_dataset = so_dataset s, fs_dataset_state = so_dataset_state s, fs_completeness = so_completeness s, fs_lineage = so_lineage s,
     fs_rejected = so_rejected s, fs_movements = so_movements s\<rparr>"

definition manifest_account_of :: "account_view \<Rightarrow> manifest_account" where
  "manifest_account_of a = \<lparr>fa_account = av_account a, fa_sources = av_sources a, fa_assessments = av_assessments a, fa_root = av_root a,
     fa_statement = av_statement a, fa_version = av_version a, fa_state = av_state a, fa_lineage = av_lineage a, fa_coverage = av_coverage a\<rparr>"

definition build_manifest :: "period_item \<Rightarrow> manifest" where
  "build_manifest period = \<lparr>mf_schema = MANIFEST_SCHEMA_VERSION, mf_status = pi_status period,
     mf_controls = sort_key fc_code (map manifest_control_of (pi_controls period)),
     mf_sources = sort_key fs_expectation (map manifest_source_of (pi_sources period)),
     mf_accounts = sort_key fa_account (map manifest_account_of (pi_reconciliations period))\<rparr>"

definition opt_text :: "string option \<Rightarrow> pyval" where
  "opt_text v = (case v of None \<Rightarrow> PNone | Some t \<Rightarrow> PStr t)"

definition control_json :: "manifest_control \<Rightarrow> pyval" where
  "control_json c = PDict [(''code'', PStr (fc_code c)), (''state'', PStr (fc_state c)), (''count'', PInt (int (fc_count c)))]"

definition source_json :: "manifest_source \<Rightarrow> pyval" where
  "source_json s = PDict [(''expectation_id'', PStr (fs_expectation s)), (''data_source_id'', PStr (fs_source s)),
     (''financial_account_id'', opt_text (fs_account s)), (''expectation_state'', PStr (fs_state s)),
     (''dataset_version_id'', opt_text (fs_dataset s)), (''dataset_state'', opt_text (fs_dataset_state s)),
     (''completeness_state'', opt_text (fs_completeness s)), (''lineage_state'', opt_text (fs_lineage s)),
     (''rejected_count'', PInt (int (fs_rejected s))), (''movement_count'', PInt (int (fs_movements s)))]"

definition account_json :: "manifest_account \<Rightarrow> pyval" where
  "account_json a = PDict [(''financial_account_id'', PStr (fa_account a)), (''source_count'', PInt (int (fa_sources a))),
     (''assessment_count'', PInt (int (fa_assessments a))), (''statement_root_id'', opt_text (fa_root a)),
     (''statement_id'', opt_text (fa_statement a)),
     (''statement_version'', case fa_version a of None \<Rightarrow> PNone | Some n \<Rightarrow> PInt (int n)),
     (''statement_state'', opt_text (fa_state a)), (''statement_lineage_state'', opt_text (fa_lineage a)),
     (''coverage_state'', PStr (fa_coverage a))]"

definition manifest_json :: "manifest \<Rightarrow> pydict" where
  "manifest_json m = [(''schema_version'', PStr (mf_schema m)), (''diagnostic_status'', PStr (mf_status m)),
     (''controls'', PList (map control_json (mf_controls m))), (''sources'', PList (map source_json (mf_sources m))),
     (''accounts'', PList (map account_json (mf_accounts m)))]"


section \<open>Tables\<close>

record packet_row =
  pk_id :: string
  pk_start :: date
  pk_end :: date
  pk_version :: nat
  pk_schema :: string
  pk_manifest :: manifest
  pk_digest :: string
  pk_status :: string
  pk_author :: string
  pk_reviewer :: string
  pk_at :: nat
  pk_audit :: string

record packet_decision =
  pd_id :: string
  pd_packet :: string
  pd_decision :: string
  pd_reason :: string
  pd_digest :: string
  pd_by :: string
  pd_at :: nat
  pd_audit :: string

record command_receipt =
  rc_actor :: string
  rc_action :: string
  rc_key :: string
  rc_digest :: string
  rc_kind :: string
  rc_ref :: string

record snapshot =
  sn_schema :: string
  sn_packet :: string
  sn_version :: nat
  sn_digest :: string
  sn_controls :: "manifest_control list"
  sn_sources :: "manifest_source list"
  sn_accounts :: "manifest_account list"

record close_row =
  cz_id :: string
  cz_start :: date
  cz_end :: date
  cz_version :: nat
  cz_packet :: string
  cz_digest :: string
  cz_schema :: string
  cz_snapshot :: snapshot
  cz_snapshot_digest :: string
  cz_by :: string
  cz_at :: nat
  cz_audit :: string

record reopen_request =
  rq_id :: string
  rq_close :: string
  rq_reason :: string
  rq_rationale :: string
  rq_by :: string
  rq_at :: nat
  rq_audit :: string

record reopen_decision =
  ro_id :: string
  ro_request :: string
  ro_decision :: string
  ro_reason :: string
  ro_by :: string
  ro_at :: nat
  ro_audit :: string

record close_ledger =
  kl_packets :: "packet_row list"
  kl_decisions :: "packet_decision list"
  kl_receipts :: "command_receipt list"
  kl_closes :: "close_row list"
  kl_requests :: "reopen_request list"
  kl_reopens :: "reopen_decision list"
  kl_period_receipts :: "command_receipt list"
  kl_audits :: "audit_event list"

definition empty_close_ledger :: close_ledger where
  "empty_close_ledger = \<lparr>kl_packets = [], kl_decisions = [], kl_receipts = [], kl_closes = [], kl_requests = [], kl_reopens = [],
     kl_period_receipts = [], kl_audits = []\<rparr>"

definition failed :: "string \<Rightarrow> string \<Rightarrow> 'a close_answer" where
  "failed state constraint = Inl (Underlying (DatabaseError state constraint))"

definition known_subject :: "people \<Rightarrow> string \<Rightarrow> bool" where
  "known_subject pp i = (i \<in> su_id ` set (pp_subjects pp))"

section \<open>Packets and their decisions\<close>

definition source_in_scope :: "close_tables \<Rightarrow> packet_row \<Rightarrow> manifest_source \<Rightarrow> bool" where
  "source_in_scope tb p s =
     (case find (\<lambda>e. xp_id e = fs_expectation s \<and> xp_start e = pk_start p \<and> xp_end e = pk_end p) (tb_expectations tb) of
        None \<Rightarrow> False
      | Some e \<Rightarrow> xp_source e = fs_source s \<and> xp_account e = fs_account s
          \<and> (case fs_dataset s of None \<Rightarrow> True
             | Some ds \<Rightarrow> list_ex (\<lambda>d. dv_id d = ds \<and> Some (dv_artifact d) = xp_satisfied e) (tb_datasets tb)))"

text \<open>A comparison with a null is neither true nor false, and only a true one raises.\<close>

definition differs :: "'a option \<Rightarrow> 'a \<Rightarrow> bool" where
  "differs v wanted = (case v of None \<Rightarrow> False | Some t \<Rightarrow> t \<noteq> wanted)"

text \<open>The refusal of an account reference, if there is one.\<close>

definition account_refusal :: "close_tables \<Rightarrow> packet_row \<Rightarrow> manifest_account \<Rightarrow> string option" where
  "account_refusal tb p a =
     (if fa_account a \<notin> fst ` set (tb_accounts tb) then Some ''ck_close_manifest_account_scope''
      else case fa_statement a of
        Some i \<Rightarrow> (case find (\<lambda>s. st_id s = i \<and> st_account s = fa_account a \<and> st_start s = pk_start p \<and> st_end s = pk_end p) (tb_statements tb) of
            None \<Rightarrow> Some ''ck_close_manifest_statement_scope''
          | Some s \<Rightarrow> if differs (fa_root a) (st_root s) \<or> differs (fa_version a) (st_version s)
              then Some ''ck_close_manifest_statement_scope'' else None)
      | None \<Rightarrow> if fa_root a \<noteq> None \<or> fa_version a \<noteq> None then Some ''ck_close_manifest_statement_identity'' else None)"

definition packet_trigger :: "people \<Rightarrow> close_tables \<Rightarrow> packet_row \<Rightarrow> unit close_answer" where
  "packet_trigger pp tb p =
     (let m = pk_manifest p in
      if \<not> is_close_reviewer_eligible pp (pk_reviewer p) then failed ''42501'' ''''
      else if mf_schema m \<noteq> pk_schema p \<or> mf_status m \<noteq> pk_status p \<or> length (mf_controls m) > 32
          \<or> length (mf_sources m) > 1200 \<or> length (mf_accounts m) > 1200
      then failed ''23514'' ''ck_close_manifest_envelope''
      else if list_ex (\<lambda>c. fc_state c \<notin> set [''pass'', ''blocked'', ''unavailable'']) (mf_controls m)
      then failed ''23514'' ''ck_close_manifest_control''
      else if \<not> list_all (source_in_scope tb p) (mf_sources m) then failed ''23514'' ''ck_close_manifest_source_scope''
      else case find (\<lambda>a. account_refusal tb p a \<noteq> None) (mf_accounts m) of
        Some a \<Rightarrow> failed ''23514'' (the (account_refusal tb p a))
      | None \<Rightarrow> Inr ())"

definition insert_packet :: "people \<Rightarrow> close_tables \<Rightarrow> close_ledger \<Rightarrow> packet_row \<Rightarrow> close_ledger close_answer" where
  "insert_packet pp tb led p = rbind (packet_trigger pp tb p) (\<lambda>_.
     if \<not> 1 \<le> pk_version p then failed ''23514'' ''close_review_packet_version_check''
     else if pk_schema p \<noteq> MANIFEST_SCHEMA_VERSION then failed ''23514'' ''close_review_packet_manifest_schema_version_check''
     else if \<not> digest_shape (pk_digest p) then failed ''23514'' ''close_review_packet_manifest_digest_check''
     else if pk_status p \<notin> set [''blocked'', ''ready_for_review''] then failed ''23514'' ''close_review_packet_diagnostic_status_check''
     else if \<not> pk_start p \<le> pk_end p then failed ''23514'' ''ck_close_review_packet_period''
     else if pk_author p = pk_reviewer p then failed ''23514'' ''ck_close_review_packet_sod''
     else if pk_id p \<in> pk_id ` set (kl_packets led) then failed ''23505'' ''close_review_packet_pkey''
     else if (pk_start p, pk_end p, pk_version p) \<in> (\<lambda>x. (pk_start x, pk_end x, pk_version x)) ` set (kl_packets led)
     then failed ''23505'' ''uq_close_review_packet_version''
     else if \<not> known_subject pp (pk_author p) then failed ''23503'' ''close_review_packet_prepared_by_fkey''
     else if \<not> known_subject pp (pk_reviewer p) then failed ''23503'' ''close_review_packet_assigned_reviewer_id_fkey''
     else if pk_audit p \<notin> au_id ` set (kl_audits led) then failed ''23503'' ''fk_close_review_packet_audit''
     else Inr (led\<lparr>kl_packets := kl_packets led @ [p]\<rparr>))"

definition packet_by_id :: "close_ledger \<Rightarrow> string \<Rightarrow> packet_row option" where
  "packet_by_id led i = find (\<lambda>p. pk_id p = i) (kl_packets led)"

definition packet_decision_of :: "close_ledger \<Rightarrow> string \<Rightarrow> packet_decision option" where
  "packet_decision_of led i = find (\<lambda>d. pd_packet d = i) (kl_decisions led)"

definition insert_packet_decision :: "people \<Rightarrow> close_ledger \<Rightarrow> packet_decision \<Rightarrow> close_ledger close_answer" where
  "insert_packet_decision pp led d = (case packet_by_id led (pd_packet d) of None \<Rightarrow> failed ''23503'' ''''
   | Some p \<Rightarrow>
       if pd_by d \<noteq> pk_reviewer p \<or> pd_by d = pk_author p \<or> \<not> is_close_reviewer_eligible pp (pd_by d) then failed ''42501'' ''''
       else if pd_digest d \<noteq> pk_digest p then failed ''23514'' ''ck_close_review_digest''
       else if pd_decision d = ''evidence_reviewed'' \<and> (pk_status p \<noteq> ''ready_for_review'' \<or> pd_reason d \<noteq> ''controls_reviewed'')
       then failed ''23514'' ''ck_close_review_positive''
       else if pd_decision d = ''changes_requested'' \<and> pd_reason d = ''controls_reviewed'' then failed ''23514'' ''ck_close_review_negative''
       else if pd_decision d \<notin> fst ` set REVIEW_REASONS then failed ''23514'' ''close_review_decision_decision_check''
       else if pd_reason d \<notin> set (concat (map snd REVIEW_REASONS)) then failed ''23514'' ''close_review_decision_reason_code_check''
       else if \<not> digest_shape (pd_digest d) then failed ''23514'' ''close_review_decision_observed_manifest_digest_check''
       else if pd_id d \<in> pd_id ` set (kl_decisions led) then failed ''23505'' ''close_review_decision_pkey''
       else if pd_packet d \<in> pd_packet ` set (kl_decisions led) then failed ''23505'' ''uq_close_review_decision_terminal''
       else if \<not> known_subject pp (pd_by d) then failed ''23503'' ''close_review_decision_decided_by_fkey''
       else if pd_audit d \<notin> au_id ` set (kl_audits led) then failed ''23503'' ''fk_close_review_decision_audit''
       else Inr (led\<lparr>kl_decisions := kl_decisions led @ [d]\<rparr>))"

definition receipt_checked :: "command_receipt list \<Rightarrow> command_receipt \<Rightarrow> string list \<Rightarrow> string list \<Rightarrow> string \<Rightarrow> string \<Rightarrow> unit close_answer" where
  "receipt_checked receipts r actions kinds table key_name =
     (if rc_action r \<notin> set actions then failed ''23514'' (table @ ''_action_check'')
      else if \<not> rx_match Reconciliation.IDEMPOTENCY_KEY (rc_key r) then failed ''23514'' (table @ ''_idempotency_key_check'')
      else if \<not> digest_shape (rc_digest r) then failed ''23514'' (table @ ''_request_digest_check'')
      else if rc_kind r \<notin> set kinds then failed ''23514'' (table @ ''_result_kind_check'')
      else if (rc_actor r, rc_key r) \<in> (\<lambda>x. (rc_actor x, rc_key x)) ` set receipts then failed ''23505'' key_name
      else Inr ())"

definition insert_review_receipt :: "close_ledger \<Rightarrow> command_receipt \<Rightarrow> close_ledger close_answer" where
  "insert_review_receipt led r =
     (if rc_kind r = ''packet'' \<and> packet_by_id led (rc_ref r) = None then failed ''23503'' ''''
      else if rc_kind r \<noteq> ''packet'' \<and> \<not> list_ex (\<lambda>d. pd_id d = rc_ref r \<and> pd_decision d = rc_action r) (kl_decisions led) then failed ''23514'' ''''
      else rbind (receipt_checked (kl_receipts led) r [''prepare'', ''evidence_reviewed'', ''changes_requested''] [''packet'', ''decision'']
          ''close_review_command_receipt'' ''uq_close_review_receipt_key'') (\<lambda>_.
        if (rc_action r = ''prepare'') \<noteq> (rc_kind r = ''packet'') then failed ''23514'' ''ck_close_review_receipt_result''
        else Inr (led\<lparr>kl_receipts := kl_receipts led @ [r]\<rparr>)))"

section \<open>Closes and their reopening\<close>

definition reopened :: "close_ledger \<Rightarrow> string \<Rightarrow> bool" where
  "reopened led i = list_ex (\<lambda>r. rq_close r = i \<and> list_ex (\<lambda>d. ro_request d = rq_id r \<and> ro_decision d = ''approved'') (kl_reopens led)) (kl_requests led)"

definition accounting_period_is_closed :: "close_ledger \<Rightarrow> date \<Rightarrow> date \<Rightarrow> bool" where
  "accounting_period_is_closed led period_start period_end =
     list_ex (\<lambda>c. cz_start c \<le> period_end \<and> period_start \<le> cz_end c \<and> \<not> reopened led (cz_id c)) (kl_closes led)"

definition next_close_version :: "close_ledger \<Rightarrow> date \<Rightarrow> date \<Rightarrow> nat" where
  "next_close_version led period_start period_end =
     Max (insert 0 (set (map cz_version (filter (\<lambda>c. cz_start c = period_start \<and> cz_end c = period_end) (kl_closes led))))) + 1"

definition CLOSE_CONTROLS :: "string list" where
  "CLOSE_CONTROLS = [''account_balances'', ''accounting_dates'', ''complete_lineage'', ''completeness_assessments'', ''dataset_evidence'',
     ''expectations_satisfied'', ''expected_sources'', ''pending_corrections'', ''product_close'', ''published_datasets'',
     ''quality_alerts'', ''reconciliation_reviews'', ''reconciliation_statement_lineage'', ''reconciliation_statements'',
     ''rejected_rows'', ''verified_completeness'']"

definition snapshot_refusal :: "close_row \<Rightarrow> packet_row \<Rightarrow> string option" where
  "snapshot_refusal c p = (let s = cz_snapshot c in
     if sn_schema s \<noteq> cz_schema c \<or> sn_packet s \<noteq> cz_packet c \<or> sn_version s \<noteq> pk_version p \<or> sn_digest s \<noteq> cz_digest c
       \<or> length (sn_controls s) \<noteq> 16 \<or> sn_sources s = [] \<or> sn_accounts s = [] then Some ''ck_period_close_snapshot''
     else if sort (map fc_code (sn_controls s)) \<noteq> CLOSE_CONTROLS then Some ''ck_period_close_control_set''
     else if list_ex (\<lambda>x. (fc_code x = ''product_close'' \<and> fc_state x \<noteq> ''unavailable'')
         \<or> (fc_code x \<noteq> ''product_close'' \<and> fc_state x \<noteq> ''pass'')) (sn_controls s) then Some ''ck_period_close_controls_pass''
     else if list_ex (\<lambda>x. fs_state x \<noteq> ''satisfied'' \<or> differs (fs_dataset_state x) ''published'' \<or> differs (fs_completeness x) ''verified''
         \<or> differs (fs_lineage x) ''complete'' \<or> fs_rejected x \<noteq> 0) (sn_sources s) then Some ''ck_period_close_source_eligible''
     else if list_ex (\<lambda>x. fa_statement x = None \<or> fa_version x = None \<or> differs (fa_state x) ''balanced'' \<or> differs (fa_lineage x) ''complete''
         \<or> fa_coverage x \<noteq> ''covered'') (sn_accounts s) then Some ''ck_period_close_account_eligible''
     else None)"

definition close_trigger :: "close_ledger \<Rightarrow> close_row \<Rightarrow> unit close_answer" where
  "close_trigger led c =
     (case (packet_by_id led (cz_packet c),
            find (\<lambda>d. pd_packet d = cz_packet c \<and> pd_decision d = ''evidence_reviewed'' \<and> pd_digest d = cz_digest c) (kl_decisions led)) of
        (Some p, Some d) \<Rightarrow>
          if pk_start p \<noteq> cz_start c \<or> pk_end p \<noteq> cz_end c \<or> pk_digest p \<noteq> cz_digest c \<or> pd_by d \<noteq> cz_by c \<or> pk_author p = cz_by c
          then failed ''23514'' ''ck_period_close_reviewed_packet''
          else if list_ex (\<lambda>n. pk_start n = cz_start c \<and> pk_end n = cz_end c \<and> pk_version p < pk_version n) (kl_packets led)
          then failed ''40001'' ''ck_period_close_latest_packet''
          else if accounting_period_is_closed led (cz_start c) (cz_end c) then failed ''23P01'' ''ck_period_close_no_overlap''
          else if cz_version c \<noteq> next_close_version led (cz_start c) (cz_end c) then failed ''23514'' ''ck_period_close_version''
          else (case snapshot_refusal c p of Some name \<Rightarrow> failed ''23514'' name | None \<Rightarrow> Inr ())
      | _ \<Rightarrow> failed ''23514'' ''ck_period_close_reviewed_packet'')"

definition insert_close :: "people \<Rightarrow> close_ledger \<Rightarrow> close_row \<Rightarrow> close_ledger close_answer" where
  "insert_close pp led c = rbind (close_trigger led c) (\<lambda>_.
     if \<not> 1 \<le> cz_version c then failed ''23514'' ''accounting_period_close_version_check''
     else if \<not> digest_shape (cz_digest c) then failed ''23514'' ''accounting_period_close_observed_manifest_digest_check''
     else if cz_schema c \<noteq> SNAPSHOT_SCHEMA_VERSION then failed ''23514'' ''accounting_period_close_snapshot_schema_version_check''
     else if \<not> digest_shape (cz_snapshot_digest c) then failed ''23514'' ''accounting_period_close_snapshot_digest_check''
     else if \<not> cz_start c \<le> cz_end c then failed ''23514'' ''ck_accounting_period_close_window''
     else if cz_id c \<in> cz_id ` set (kl_closes led) then failed ''23505'' ''accounting_period_close_pkey''
     else if (cz_start c, cz_end c, cz_version c) \<in> (\<lambda>x. (cz_start x, cz_end x, cz_version x)) ` set (kl_closes led)
     then failed ''23505'' ''uq_accounting_period_close_version''
     else if cz_packet c \<in> cz_packet ` set (kl_closes led) then failed ''23505'' ''uq_accounting_period_close_packet''
     else if \<not> known_subject pp (cz_by c) then failed ''23503'' ''accounting_period_close_closed_by_fkey''
     else if cz_audit c \<notin> au_id ` set (kl_audits led) then failed ''23503'' ''fk_accounting_period_close_audit''
     else Inr (led\<lparr>kl_closes := kl_closes led @ [c]\<rparr>))"

definition close_by_id :: "close_ledger \<Rightarrow> string \<Rightarrow> close_row option" where
  "close_by_id led i = find (\<lambda>c. cz_id c = i) (kl_closes led)"

definition request_by_id :: "close_ledger \<Rightarrow> string \<Rightarrow> reopen_request option" where
  "request_by_id led i = find (\<lambda>r. rq_id r = i) (kl_requests led)"

definition insert_reopen_request :: "people \<Rightarrow> close_ledger \<Rightarrow> reopen_request \<Rightarrow> close_ledger close_answer" where
  "insert_reopen_request pp led r =
     (if \<not> (case close_by_id led (rq_close r) of None \<Rightarrow> False | Some c \<Rightarrow> accounting_period_is_closed led (cz_start c) (cz_end c))
      then failed ''23514'' ''ck_period_reopen_active_close''
      else if rq_reason r \<notin> set REOPEN_REASONS then failed ''23514'' ''accounting_period_reopen_request_reason_code_check''
      else if \<not> (10 \<le> length (rq_rationale r) \<and> length (rq_rationale r) \<le> 500) then failed ''23514'' ''accounting_period_reopen_request_rationale_check''
      else if rq_id r \<in> rq_id ` set (kl_requests led) then failed ''23505'' ''accounting_period_reopen_request_pkey''
      else if rq_close r \<in> rq_close ` set (kl_requests led) then failed ''23505'' ''uq_period_reopen_request_close''
      else if \<not> known_subject pp (rq_by r) then failed ''23503'' ''accounting_period_reopen_request_requested_by_fkey''
      else if rq_audit r \<notin> au_id ` set (kl_audits led) then failed ''23503'' ''fk_period_reopen_request_audit''
      else Inr (led\<lparr>kl_requests := kl_requests led @ [r]\<rparr>))"

definition insert_reopen_decision :: "people \<Rightarrow> close_ledger \<Rightarrow> reopen_decision \<Rightarrow> close_ledger close_answer" where
  "insert_reopen_decision pp led d =
     (if \<not> (case request_by_id led (ro_request d) of None \<Rightarrow> False | Some r \<Rightarrow> rq_by r \<noteq> ro_by d) then failed ''42501'' ''ck_period_reopen_sod''
      else if ro_decision d = ''approved'' \<and> ro_reason d \<noteq> ''documented_basis_confirmed'' then failed ''23514'' ''ck_period_reopen_positive''
      else if ro_decision d = ''rejected'' \<and> ro_reason d = ''documented_basis_confirmed'' then failed ''23514'' ''ck_period_reopen_negative''
      else if ro_decision d \<notin> fst ` set REOPEN_DECISION_REASONS then failed ''23514'' ''accounting_period_reopen_decision_decision_check''
      else if ro_reason d \<notin> set (concat (map snd REOPEN_DECISION_REASONS)) then failed ''23514'' ''accounting_period_reopen_decision_reason_code_check''
      else if ro_id d \<in> ro_id ` set (kl_reopens led) then failed ''23505'' ''accounting_period_reopen_decision_pkey''
      else if ro_request d \<in> ro_request ` set (kl_reopens led) then failed ''23505'' ''uq_period_reopen_decision_terminal''
      else if \<not> known_subject pp (ro_by d) then failed ''23503'' ''accounting_period_reopen_decision_decided_by_fkey''
      else if ro_audit d \<notin> au_id ` set (kl_audits led) then failed ''23503'' ''fk_period_reopen_decision_audit''
      else Inr (led\<lparr>kl_reopens := kl_reopens led @ [d]\<rparr>))"

definition insert_period_receipt :: "close_ledger \<Rightarrow> command_receipt \<Rightarrow> close_ledger close_answer" where
  "insert_period_receipt led r = rbind (receipt_checked (kl_period_receipts led) r [''close'', ''request_reopen'', ''approve_reopen'', ''reject_reopen'']
       [''close'', ''reopen_request'', ''reopen_decision''] ''accounting_period_command_receipt'' ''uq_period_command_receipt_key'') (\<lambda>_.
     Inr (led\<lparr>kl_period_receipts := kl_period_receipts led @ [r]\<rparr>))"


section \<open>Commands of the review\<close>

definition close_uuid :: "string \<Rightarrow> string \<Rightarrow> string close_answer" where
  "close_uuid value field_name = (case canonical_uuid value of Some t \<Rightarrow> Inr t
     | None \<Rightarrow> Inl (CloseReviewError ''close-review-input-invalid'' (field_name @ '' must be a UUID'')))"

definition close_key :: "string \<Rightarrow> string close_answer" where
  "close_key value = (if \<not> rx_match Reconciliation.IDEMPOTENCY_KEY value
     then Inl (CloseReviewError ''close-review-idempotency-invalid'' ''Idempotency-Key must contain 16 to 128 safe characters'')
     else Inr value)"

definition lifted :: "'a answer \<Rightarrow> 'a close_answer" where
  "lifted m = (case m of Inl e \<Rightarrow> Inl (Underlying e) | Inr x \<Rightarrow> Inr x)"

text \<open>
  \<open>_digest\<close> of both close modules dumps with \<open>ensure_ascii=False\<close>, which is what \<open>canonical_json\<close> writes: \<open>json_char\<close>
  escapes quotes, backslashes and control characters and leaves every other character. The digest of \<open>Reconciliation\<close>
  may share it, since the payloads of that module are ASCII.
\<close>

definition close_digest :: "services \<Rightarrow> pydict \<Rightarrow> string close_answer" where
  "close_digest sv payload = lifted (Reconciliation.digest sv payload)"

definition record_close_audit :: "close_ledger \<Rightarrow> audit_event \<Rightarrow> close_ledger close_answer" where
  "record_close_audit led e = rbind (lifted (record_audit (empty_ledger\<lparr>lg_audits := kl_audits led\<rparr>) e))
     (\<lambda>l. Inr (led\<lparr>kl_audits := lg_audits l\<rparr>))"

definition exact_period :: "services \<Rightarrow> close_tables \<Rightarrow> date \<Rightarrow> date \<Rightarrow> period_item close_answer" where
  "exact_period sv tb period_start period_end =
     (if period_end < period_start
      then Inl (CloseReviewError ''close-review-period-invalid'' ''period_end must not precede period_start'')
      else rbind (list_close_readiness sv tb CLOSE_READINESS_MAX) (\<lambda>diagnostic.
        case find (\<lambda>i. pi_start i = isoformat period_start \<and> pi_end i = isoformat period_end) (rn_items diagnostic) of
          Some i \<Rightarrow> Inr i
        | None \<Rightarrow> Inl (CloseReviewError ''close-review-period-unavailable''
            ''the requested period is not in the current company diagnostic window'')))"

definition current_manifest :: "services \<Rightarrow> close_tables \<Rightarrow> date \<Rightarrow> date \<Rightarrow> (manifest \<times> string) close_answer" where
  "current_manifest sv tb period_start period_end = rbind (exact_period sv tb period_start period_end) (\<lambda>period.
     rbind (close_digest sv (manifest_json (build_manifest period))) (\<lambda>dig. Inr (build_manifest period, dig)))"

record packet_view =
  pv_packet :: packet_row
  pv_start :: string
  pv_end :: string
  pv_author_name :: string
  pv_reviewer_name :: string
  pv_at :: string
  pv_decision :: "packet_decision option"
  pv_decider_name :: "string option"
  pv_decided_at :: "string option"
  pv_eligible :: bool
  pv_status :: string
  pv_replayed :: bool
  pv_effect :: string
  pv_certifies :: bool
  pv_can_execute :: bool

text \<open>A row of \<open>PACKET_SELECT\<close>: author and reviewer are joined, decision and decider are if there are any.\<close>

definition packet_view_of :: "services \<Rightarrow> people \<Rightarrow> close_ledger \<Rightarrow> bool \<Rightarrow> packet_row \<Rightarrow> packet_view list" where
  "packet_view_of sv pp led replayed p = (case (subject_name pp (pk_author p), subject_name pp (pk_reviewer p)) of
     (Some author, Some reviewer) \<Rightarrow> (let d = packet_decision_of led (pk_id p) in
       [\<lparr>pv_packet = p, pv_start = isoformat (pk_start p), pv_end = isoformat (pk_end p), pv_author_name = author,
         pv_reviewer_name = reviewer, pv_at = sv_iso sv (pk_at p), pv_decision = d,
         pv_decider_name = Option.bind d (\<lambda>d. subject_name pp (pd_by d)), pv_decided_at = map_option (\<lambda>d. sv_iso sv (pd_at d)) d,
         pv_eligible = is_close_reviewer_eligible pp (pk_reviewer p),
         pv_status = (case d of None \<Rightarrow> ''pending_review'' | Some d \<Rightarrow> pd_decision d), pv_replayed = replayed,
         pv_effect = ''none'', pv_certifies = False, pv_can_execute = False\<rparr>])
   | _ \<Rightarrow> [])"

definition load_packet :: "services \<Rightarrow> people \<Rightarrow> close_ledger \<Rightarrow> string \<Rightarrow> bool \<Rightarrow> packet_view option close_answer" where
  "load_packet sv pp led i replayed = rbind (close_uuid i ''packet_id'') (\<lambda>i. Inr (case packet_by_id led i of None \<Rightarrow> None
     | Some p \<Rightarrow> (case packet_view_of sv pp led replayed p of [] \<Rightarrow> None | v # _ \<Rightarrow> Some v)))"

text \<open>\<open>list_packets\<close> for an optional period; the texts of the dates have been read.\<close>

definition list_packets :: "services \<Rightarrow> people \<Rightarrow> close_ledger \<Rightarrow> int \<Rightarrow> date option \<Rightarrow> date option \<Rightarrow> (packet_view list \<times> bool) close_answer" where
  "list_packets sv pp led limit period_start period_end =
     (if \<not> (1 \<le> limit \<and> limit \<le> CLOSE_REVIEW_MAX) then Inl (CloseReviewError ''close-review-limit-invalid'' ''limit must be between 1 and 100'')
      else if (period_start = None) \<noteq> (period_end = None) then Inl (CloseReviewError ''close-review-period-invalid'' ''both period dates are required'')
      else if (case (period_start, period_end) of (Some s, Some e) \<Rightarrow> e < s | _ \<Rightarrow> False)
      then Inl (CloseReviewError ''close-review-period-invalid'' ''period_end must not precede period_start'')
      else (let rows = take (nat limit + 1) (concat (map (packet_view_of sv pp led False)
            (rev (sort_key (\<lambda>p. (pk_end p, pk_start p, pk_version p)) (rev (sort_key pk_id
              (filter (\<lambda>p. (period_start = None \<or> period_start = Some (pk_start p)) \<and> (period_end = None \<or> period_end = Some (pk_end p))) (kl_packets led)))))))) in
        Inr (take (nat limit) rows, int (length rows) > limit)))"

definition review_receipt :: "command_receipt list \<Rightarrow> string \<Rightarrow> string \<Rightarrow> command_receipt option" where
  "review_receipt receipts actor key = find (\<lambda>r. rc_actor r = actor \<and> rc_key r = key) receipts"

definition no_visible_result :: close_error where
  "no_visible_result = Underlying (RuntimeError ''close review receipt points to no visible result'')"

definition review_replay :: "services \<Rightarrow> people \<Rightarrow> close_ledger \<Rightarrow> string \<Rightarrow> string \<Rightarrow> command_receipt option \<Rightarrow> packet_view option close_answer" where
  "review_replay sv pp led action dig receipt = (case receipt of None \<Rightarrow> Inr None
   | Some r \<Rightarrow>
       if rc_action r \<noteq> action \<or> rc_digest r \<noteq> dig
       then Inl (CloseReviewError ''close-review-idempotency-conflict'' ''the idempotency key was already used with another command'')
       else rbind (if rc_kind r = ''packet'' then load_packet sv pp led (rc_ref r) True
           else (case find (\<lambda>d. pd_id d = rc_ref r) (kl_decisions led) of None \<Rightarrow> Inr None
             | Some d \<Rightarrow> load_packet sv pp led (pd_packet d) True))
         (\<lambda>found. case found of None \<Rightarrow> Inl no_visible_result | Some v \<Rightarrow> Inr (Some v)))"

definition next_packet_version :: "close_ledger \<Rightarrow> date \<Rightarrow> date \<Rightarrow> nat" where
  "next_packet_version led period_start period_end =
     Max (insert 0 (set (map pk_version (filter (\<lambda>p. pk_start p = period_start \<and> pk_end p = period_end) (kl_packets led))))) + 1"

definition read_packet :: "services \<Rightarrow> people \<Rightarrow> string \<Rightarrow> string \<Rightarrow> close_ledger \<Rightarrow> (packet_view \<times> close_ledger) close_answer" where
  "read_packet sv pp message i led = rbind (load_packet sv pp led i False) (\<lambda>found. case found of
     None \<Rightarrow> Inl (Underlying (RuntimeError message)) | Some v \<Rightarrow> Inr (v, led))"

definition write_packet :: "people \<Rightarrow> close_tables \<Rightarrow> close_ledger \<Rightarrow> fresh \<Rightarrow> string \<Rightarrow> string \<Rightarrow> string \<Rightarrow> date \<Rightarrow> date \<Rightarrow> string
     \<Rightarrow> manifest \<Rightarrow> string \<Rightarrow> close_ledger close_answer" where
  "write_packet pp tb led fr actor key dig period_start period_end reviewer m manifest_digest =
     (let version = next_packet_version led period_start period_end in
      rbind (record_close_audit led (audit_of fr actor ''close.review.prepare'' ''close_review_packet'' (fr_id fr)
        [(''period_start'', PStr (isoformat period_start)), (''period_end'', PStr (isoformat period_end)),
         (''version'', PInt (int version)), (''diagnostic_status'', PStr (mf_status m)), (''manifest_digest'', PStr manifest_digest)])) (\<lambda>led.
      rbind (insert_packet pp tb led \<lparr>pk_id = fr_id fr, pk_start = period_start, pk_end = period_end, pk_version = version,
        pk_schema = MANIFEST_SCHEMA_VERSION, pk_manifest = m, pk_digest = manifest_digest, pk_status = mf_status m,
        pk_author = actor, pk_reviewer = reviewer, pk_at = fr_now fr, pk_audit = fr_audit fr\<rparr>) (\<lambda>led.
      insert_review_receipt led \<lparr>rc_actor = actor, rc_action = ''prepare'', rc_key = key, rc_digest = dig, rc_kind = ''packet'', rc_ref = fr_id fr\<rparr>)))"

definition prepare_packet :: "services \<Rightarrow> people \<Rightarrow> close_tables \<Rightarrow> close_ledger \<Rightarrow> fresh \<Rightarrow> string \<Rightarrow> string \<Rightarrow> date \<Rightarrow> date \<Rightarrow> string
     \<Rightarrow> (packet_view \<times> close_ledger) close_answer" where
  "prepare_packet sv pp tb led fr actor idempotency period_start period_end assigned =
     rbind (close_uuid assigned ''assigned_reviewer_id'') (\<lambda>reviewer.
       if reviewer = actor then Inl (CloseReviewError ''close-review-segregation-of-duties''
         ''the preparer cannot be assigned to review their own packet'')
       else rbind (close_key idempotency) (\<lambda>key.
         rbind (close_digest sv [(''period_start'', PStr (isoformat period_start)), (''period_end'', PStr (isoformat period_end)),
             (''assigned_reviewer_id'', PStr reviewer)]) (\<lambda>dig.
         rbind (review_replay sv pp led ''prepare'' dig (review_receipt (kl_receipts led) actor key)) (\<lambda>replay. case replay of
           Some v \<Rightarrow> Inr (v, led)
         | None \<Rightarrow>
             if \<not> is_close_reviewer_eligible pp reviewer then Inl (CloseReviewError ''close-review-reviewer-ineligible''
               ''the assigned person no longer has close review access'')
             else rbind (exact_period sv tb period_start period_end) (\<lambda>period.
               rbind (close_digest sv (manifest_json (build_manifest period))) (\<lambda>manifest_digest.
               rbind (write_packet pp tb led fr actor key dig period_start period_end reviewer (build_manifest period) manifest_digest)
                 (read_packet sv pp ''created close review packet cannot be read back'' (fr_id fr))))))))"

definition write_packet_decision :: "people \<Rightarrow> close_ledger \<Rightarrow> fresh \<Rightarrow> string \<Rightarrow> string \<Rightarrow> string \<Rightarrow> string \<Rightarrow> string \<Rightarrow> string \<Rightarrow> string
     \<Rightarrow> close_ledger close_answer" where
  "write_packet_decision pp led fr actor key dig i decision reason current =
     rbind (record_close_audit led (audit_of fr actor (''close.review.'' @ decision) ''close_review_packet'' i
       [(''decision'', PStr decision), (''reason_code'', PStr reason), (''manifest_digest'', PStr current)])) (\<lambda>led.
     rbind (insert_packet_decision pp led \<lparr>pd_id = fr_id fr, pd_packet = i, pd_decision = decision, pd_reason = reason,
       pd_digest = current, pd_by = actor, pd_at = fr_now fr, pd_audit = fr_audit fr\<rparr>) (\<lambda>led.
     insert_review_receipt led \<lparr>rc_actor = actor, rc_action = decision, rc_key = key, rc_digest = dig, rc_kind = ''decision'', rc_ref = fr_id fr\<rparr>))"

definition decide_packet :: "services \<Rightarrow> people \<Rightarrow> close_tables \<Rightarrow> close_ledger \<Rightarrow> fresh \<Rightarrow> string \<Rightarrow> string \<Rightarrow> string \<Rightarrow> string \<Rightarrow> string
     \<Rightarrow> (packet_view \<times> close_ledger) close_answer" where
  "decide_packet sv pp tb led fr actor idempotency packet_id decision reason =
     rbind (close_uuid packet_id ''packet_id'') (\<lambda>i.
       if \<not> list_ex (\<lambda>(d, reasons). d = decision \<and> reason \<in> set reasons) REVIEW_REASONS
       then Inl (CloseReviewError ''close-review-decision-invalid'' ''decision and reason_code are not an allowed combination'')
       else rbind (close_key idempotency) (\<lambda>key.
         rbind (close_digest sv [(''packet_id'', PStr i), (''decision'', PStr decision), (''reason_code'', PStr reason)]) (\<lambda>dig.
         rbind (review_replay sv pp led decision dig (review_receipt (kl_receipts led) actor key)) (\<lambda>replay. case replay of
           Some v \<Rightarrow> Inr (v, led)
         | None \<Rightarrow> rbind (load_packet sv pp led i False) (\<lambda>found. case found of
             None \<Rightarrow> Inl (CloseReviewError ''close-review-packet-unavailable'' ''the review packet is unavailable'')
           | Some v \<Rightarrow>
               if pv_decision v \<noteq> None then Inl (CloseReviewError ''close-review-already-decided'' ''the review packet is already terminal'')
               else if pk_reviewer (pv_packet v) \<noteq> actor \<or> pk_author (pv_packet v) = actor
               then Inl (CloseReviewError ''close-review-segregation-of-duties'' ''only the assigned independent reviewer can decide this packet'')
               else if \<not> is_close_reviewer_eligible pp actor
               then Inl (CloseReviewError ''close-review-reviewer-ineligible'' ''the assigned person no longer has close review access'')
               else rbind (exact_period sv tb (pk_start (pv_packet v)) (pk_end (pv_packet v))) (\<lambda>period.
                 rbind (close_digest sv (manifest_json (build_manifest period))) (\<lambda>current.
                   if current \<noteq> pk_digest (pv_packet v)
                   then Inl (CloseReviewError ''close-review-evidence-stale'' ''the diagnostic evidence changed; prepare a new packet version'')
                   else if decision = ''evidence_reviewed'' \<and> pi_status period \<noteq> ''ready_for_review''
                   then Inl (CloseReviewError ''close-review-evidence-blocked'' ''blocked diagnostic evidence can only receive changes_requested'')
                   else rbind (write_packet_decision pp led fr actor key dig i decision reason current)
                     (read_packet sv pp ''decided close review packet cannot be read back'' i))))))))"


section \<open>Commands of the close\<close>

definition period_uuid :: "string \<Rightarrow> string \<Rightarrow> string close_answer" where
  "period_uuid value field_name = (case canonical_uuid value of Some t \<Rightarrow> Inr t
     | None \<Rightarrow> Inl (ClosePeriodError ''accounting-period-input-invalid'' (field_name @ '' must be a UUID'')))"

definition period_command_key :: "string \<Rightarrow> string close_answer" where
  "period_command_key value = (if \<not> rx_match Reconciliation.IDEMPOTENCY_KEY value
     then Inl (ClosePeriodError ''accounting-period-idempotency-invalid'' ''Idempotency-Key must contain 16 to 128 safe characters'')
     else Inr value)"

definition build_snapshot :: "packet_row \<Rightarrow> manifest \<Rightarrow> snapshot" where
  "build_snapshot p m = \<lparr>sn_schema = SNAPSHOT_SCHEMA_VERSION, sn_packet = pk_id p, sn_version = pk_version p, sn_digest = pk_digest p,
     sn_controls = mf_controls m, sn_sources = mf_sources m, sn_accounts = mf_accounts m\<rparr>"

definition snapshot_json :: "snapshot \<Rightarrow> pydict" where
  "snapshot_json s = [(''schema_version'', PStr (sn_schema s)), (''packet_id'', PStr (sn_packet s)),
     (''packet_version'', PInt (int (sn_version s))), (''manifest_digest'', PStr (sn_digest s)),
     (''controls'', PList (map control_json (sn_controls s))), (''sources'', PList (map source_json (sn_sources s))),
     (''accounts'', PList (map account_json (sn_accounts s)))]"

definition request_for :: "close_ledger \<Rightarrow> string \<Rightarrow> reopen_request option" where
  "request_for led i = find (\<lambda>r. rq_close r = i) (kl_requests led)"

definition decision_on :: "close_ledger \<Rightarrow> string \<Rightarrow> reopen_decision option" where
  "decision_on led i = find (\<lambda>d. ro_request d = i) (kl_reopens led)"

record close_view =
  zv_close :: close_row
  zv_start :: string
  zv_end :: string
  zv_closer :: string
  zv_at :: string
  zv_status :: string
  zv_request :: "(reopen_request \<times> string option \<times> reopen_decision option \<times> string option) option"
  zv_replayed :: bool
  zv_effect :: string
  zv_certifies :: bool

definition close_status :: "close_ledger \<Rightarrow> close_row \<Rightarrow> string" where
  "close_status led c = (case request_for led (cz_id c) of None \<Rightarrow> ''closed''
     | Some r \<Rightarrow> (case decision_on led (rq_id r) of None \<Rightarrow> ''reopen_requested''
        | Some d \<Rightarrow> if ro_decision d = ''approved'' then ''reopened'' else ''closed''))"

definition close_view_of :: "services \<Rightarrow> people \<Rightarrow> close_ledger \<Rightarrow> bool \<Rightarrow> close_row \<Rightarrow> close_view list" where
  "close_view_of sv pp led replayed c = (case subject_name pp (cz_by c) of None \<Rightarrow> []
   | Some closer \<Rightarrow>
       [\<lparr>zv_close = c, zv_start = isoformat (cz_start c), zv_end = isoformat (cz_end c), zv_closer = closer, zv_at = sv_iso sv (cz_at c),
         zv_status = close_status led c,
         zv_request = map_option (\<lambda>r. (r, subject_name pp (rq_by r), decision_on led (rq_id r),
             Option.bind (decision_on led (rq_id r)) (\<lambda>d. subject_name pp (ro_by d)))) (request_for led (cz_id c)),
         zv_replayed = replayed, zv_effect = ''period_state_only'', zv_certifies = False\<rparr>])"

definition load_close :: "services \<Rightarrow> people \<Rightarrow> close_ledger \<Rightarrow> string \<Rightarrow> bool \<Rightarrow> close_view option close_answer" where
  "load_close sv pp led i replayed = rbind (period_uuid i ''close_id'') (\<lambda>i. Inr (case close_by_id led i of None \<Rightarrow> None
     | Some c \<Rightarrow> (case close_view_of sv pp led replayed c of [] \<Rightarrow> None | v # _ \<Rightarrow> Some v)))"

definition list_closes :: "services \<Rightarrow> people \<Rightarrow> close_ledger \<Rightarrow> int \<Rightarrow> date option \<Rightarrow> date option \<Rightarrow> (close_view list \<times> bool) close_answer" where
  "list_closes sv pp led limit period_start period_end =
     (if \<not> (1 \<le> limit \<and> limit \<le> CLOSE_PERIOD_MAX) then Inl (ClosePeriodError ''accounting-period-limit-invalid'' ''limit must be between 1 and 100'')
      else if (period_start = None) \<noteq> (period_end = None) then Inl (ClosePeriodError ''accounting-period-range-invalid'' ''both period dates are required'')
      else if (case (period_start, period_end) of (Some s, Some e) \<Rightarrow> e < s | _ \<Rightarrow> False)
      then Inl (ClosePeriodError ''accounting-period-range-invalid'' ''period_end precedes period_start'')
      else (let rows = take (nat limit + 1) (concat (map (close_view_of sv pp led False)
            (rev (sort_key (\<lambda>c. (cz_end c, cz_start c, cz_version c)) (rev (sort_key cz_id
              (filter (\<lambda>c. (period_start = None \<or> period_start = Some (cz_start c)) \<and> (period_end = None \<or> period_end = Some (cz_end c))) (kl_closes led)))))))) in
        Inr (take (nat limit) rows, int (length rows) > limit)))"

definition close_for_result :: "services \<Rightarrow> people \<Rightarrow> close_ledger \<Rightarrow> string \<Rightarrow> string \<Rightarrow> bool \<Rightarrow> close_view option close_answer" where
  "close_for_result sv pp led kind ref replayed =
     (if kind = ''close'' then load_close sv pp led ref replayed
      else if kind = ''reopen_request'' then (case request_by_id led ref of None \<Rightarrow> Inr None | Some r \<Rightarrow> load_close sv pp led (rq_close r) replayed)
      else (case find (\<lambda>d. ro_id d = ref) (kl_reopens led) of None \<Rightarrow> Inr None
        | Some d \<Rightarrow> (case request_by_id led (ro_request d) of None \<Rightarrow> Inr None | Some r \<Rightarrow> load_close sv pp led (rq_close r) replayed)))"

definition period_replay :: "services \<Rightarrow> people \<Rightarrow> close_ledger \<Rightarrow> string \<Rightarrow> string \<Rightarrow> command_receipt option \<Rightarrow> close_view option close_answer" where
  "period_replay sv pp led action dig receipt = (case receipt of None \<Rightarrow> Inr None
   | Some r \<Rightarrow>
       if rc_action r \<noteq> action \<or> rc_digest r \<noteq> dig
       then Inl (ClosePeriodError ''accounting-period-idempotency-conflict'' ''the idempotency key was already used with another command'')
       else rbind (close_for_result sv pp led (rc_kind r) (rc_ref r) True) (\<lambda>found. case found of
         None \<Rightarrow> Inl (Underlying (RuntimeError ''accounting period receipt points to no visible result'')) | Some v \<Rightarrow> Inr (Some v)))"

definition read_close :: "services \<Rightarrow> people \<Rightarrow> string \<Rightarrow> string \<Rightarrow> close_ledger \<Rightarrow> (close_view \<times> close_ledger) close_answer" where
  "read_close sv pp message i led = rbind (load_close sv pp led i False) (\<lambda>found. case found of
     None \<Rightarrow> Inl (Underlying (RuntimeError message)) | Some v \<Rightarrow> Inr (v, led))"

definition write_close :: "services \<Rightarrow> people \<Rightarrow> close_ledger \<Rightarrow> fresh \<Rightarrow> string \<Rightarrow> string \<Rightarrow> string \<Rightarrow> packet_row \<Rightarrow> manifest \<Rightarrow> string
     \<Rightarrow> close_ledger close_answer" where
  "write_close sv pp led fr actor key dig p m current =
     rbind (close_digest sv (snapshot_json (build_snapshot p m))) (\<lambda>snapshot_digest.
       let version = next_close_version led (pk_start p) (pk_end p) in
       rbind (record_close_audit led (audit_of fr actor ''accounting.period.close'' ''accounting_period'' (fr_id fr)
         [(''period_start'', PStr (isoformat (pk_start p))), (''period_end'', PStr (isoformat (pk_end p))), (''version'', PInt (int version)),
          (''packet_id'', PStr (pk_id p)), (''manifest_digest'', PStr current), (''snapshot_digest'', PStr snapshot_digest)])) (\<lambda>led.
       rbind (insert_close pp led \<lparr>cz_id = fr_id fr, cz_start = pk_start p, cz_end = pk_end p, cz_version = version, cz_packet = pk_id p,
         cz_digest = current, cz_schema = SNAPSHOT_SCHEMA_VERSION, cz_snapshot = build_snapshot p m, cz_snapshot_digest = snapshot_digest,
         cz_by = actor, cz_at = fr_now fr, cz_audit = fr_audit fr\<rparr>) (\<lambda>led.
       insert_period_receipt led \<lparr>rc_actor = actor, rc_action = ''close'', rc_key = key, rc_digest = dig, rc_kind = ''close'', rc_ref = fr_id fr\<rparr>)))"

definition close_period :: "services \<Rightarrow> people \<Rightarrow> close_tables \<Rightarrow> close_ledger \<Rightarrow> fresh \<Rightarrow> string \<Rightarrow> string \<Rightarrow> string
     \<Rightarrow> (close_view \<times> close_ledger) close_answer" where
  "close_period sv pp tb led fr actor idempotency packet_id =
     rbind (period_uuid packet_id ''packet_id'') (\<lambda>i.
     rbind (period_command_key idempotency) (\<lambda>key.
     rbind (close_digest sv [(''packet_id'', PStr i)]) (\<lambda>dig.
     rbind (period_replay sv pp led ''close'' dig (review_receipt (kl_period_receipts led) actor key)) (\<lambda>replay. case replay of
       Some v \<Rightarrow> Inr (v, led)
     | None \<Rightarrow> rbind (load_packet sv pp led i False) (\<lambda>found. case found of
         None \<Rightarrow> Inl (ClosePeriodError ''accounting-period-packet-unavailable'' ''review packet is unavailable'')
       | Some v \<Rightarrow> (case pv_decision v of
           None \<Rightarrow> Inl (ClosePeriodError ''accounting-period-not-reviewed'' ''review packet is not evidence_reviewed'')
         | Some d \<Rightarrow>
             if pd_decision d \<noteq> ''evidence_reviewed''
             then Inl (ClosePeriodError ''accounting-period-not-reviewed'' ''review packet is not evidence_reviewed'')
             else if pd_by d \<noteq> actor \<or> pk_author (pv_packet v) = actor
             then Inl (ClosePeriodError ''accounting-period-segregation-of-duties'' ''only the assigned independent reviewer can close this period'')
             else rbind (current_manifest sv tb (pk_start (pv_packet v)) (pk_end (pv_packet v))) (\<lambda>(m, current).
               if current \<noteq> pk_digest (pv_packet v)
               then Inl (ClosePeriodError ''accounting-period-evidence-stale'' ''period evidence changed after review; create a new packet'')
               else rbind (write_close sv pp led fr actor key dig (pv_packet v) m current)
                 (read_close sv pp ''created accounting period close cannot be read back'' (fr_id fr)))))))))"

definition valid_rationale :: "string \<Rightarrow> bool" where
  "valid_rationale t = (10 \<le> length t \<and> length t \<le> 500 \<and> \<not> list_ex (\<lambda>c. code c < 32) t)"

definition write_reopen_request :: "people \<Rightarrow> close_ledger \<Rightarrow> fresh \<Rightarrow> string \<Rightarrow> string \<Rightarrow> string \<Rightarrow> string \<Rightarrow> string \<Rightarrow> string
     \<Rightarrow> close_ledger close_answer" where
  "write_reopen_request pp led fr actor key dig i reason rationale =
     rbind (record_close_audit led (audit_of fr actor ''accounting.period.reopen.request'' ''accounting_period'' i [(''reason_code'', PStr reason)])) (\<lambda>led.
     rbind (insert_reopen_request pp led \<lparr>rq_id = fr_id fr, rq_close = i, rq_reason = reason, rq_rationale = rationale, rq_by = actor,
       rq_at = fr_now fr, rq_audit = fr_audit fr\<rparr>) (\<lambda>led.
     insert_period_receipt led \<lparr>rc_actor = actor, rc_action = ''request_reopen'', rc_key = key, rc_digest = dig, rc_kind = ''reopen_request'',
       rc_ref = fr_id fr\<rparr>))"

definition request_reopen :: "services \<Rightarrow> people \<Rightarrow> close_ledger \<Rightarrow> fresh \<Rightarrow> string \<Rightarrow> string \<Rightarrow> string \<Rightarrow> string \<Rightarrow> string
     \<Rightarrow> (close_view \<times> close_ledger) close_answer" where
  "request_reopen sv pp led fr actor idempotency close_id reason rationale_text =
     rbind (period_uuid close_id ''close_id'') (\<lambda>i.
       if reason \<notin> set REOPEN_REASONS then Inl (ClosePeriodError ''accounting-period-reopen-reason-invalid'' ''reopen reason is not allowed'')
       else let rationale = py_strip rationale_text in
         if \<not> valid_rationale rationale then Inl (ClosePeriodError ''accounting-period-reopen-rationale-invalid''
           ''rationale must contain 10 to 500 printable characters'')
         else rbind (period_command_key idempotency) (\<lambda>key.
           rbind (close_digest sv [(''close_id'', PStr i), (''reason_code'', PStr reason), (''rationale'', PStr rationale)]) (\<lambda>dig.
           rbind (period_replay sv pp led ''request_reopen'' dig (review_receipt (kl_period_receipts led) actor key)) (\<lambda>replay. case replay of
             Some v \<Rightarrow> Inr (v, led)
           | None \<Rightarrow> rbind (load_close sv pp led i False) (\<lambda>current. case current of
               None \<Rightarrow> Inl (ClosePeriodError ''accounting-period-unavailable'' ''accounting period is unavailable'')
             | Some v \<Rightarrow>
                 if zv_status v \<noteq> ''closed'' \<or> zv_request v \<noteq> None
                 then Inl (ClosePeriodError ''accounting-period-reopen-unavailable'' ''period is not an active close without a request'')
                 else rbind (write_reopen_request pp led fr actor key dig i reason rationale)
                   (read_close sv pp ''reopen request cannot be read back'' i))))))"

definition write_reopen_decision :: "people \<Rightarrow> close_ledger \<Rightarrow> fresh \<Rightarrow> string \<Rightarrow> string \<Rightarrow> string \<Rightarrow> string \<Rightarrow> string \<Rightarrow> string \<Rightarrow> string
     \<Rightarrow> string \<Rightarrow> close_ledger close_answer" where
  "write_reopen_decision pp led fr actor action key dig i close_id decision reason =
     rbind (record_close_audit led (audit_of fr actor (''accounting.period.reopen.'' @ decision) ''accounting_period'' close_id
       [(''decision'', PStr decision), (''reason_code'', PStr reason)])) (\<lambda>led.
     rbind (insert_reopen_decision pp led \<lparr>ro_id = fr_id fr, ro_request = i, ro_decision = decision, ro_reason = reason, ro_by = actor,
       ro_at = fr_now fr, ro_audit = fr_audit fr\<rparr>) (\<lambda>led.
     insert_period_receipt led \<lparr>rc_actor = actor, rc_action = action, rc_key = key, rc_digest = dig, rc_kind = ''reopen_decision'',
       rc_ref = fr_id fr\<rparr>))"

definition decide_reopen :: "services \<Rightarrow> people \<Rightarrow> close_ledger \<Rightarrow> fresh \<Rightarrow> string \<Rightarrow> string \<Rightarrow> string \<Rightarrow> string \<Rightarrow> string
     \<Rightarrow> (close_view \<times> close_ledger) close_answer" where
  "decide_reopen sv pp led fr actor idempotency request_id decision reason =
     rbind (period_uuid request_id ''request_id'') (\<lambda>i.
       if \<not> list_ex (\<lambda>(d, reasons). d = decision \<and> reason \<in> set reasons) REOPEN_DECISION_REASONS
       then Inl (ClosePeriodError ''accounting-period-reopen-decision-invalid'' ''decision and reason_code are not an allowed combination'')
       else let action = (if decision = ''approved'' then ''approve_reopen'' else ''reject_reopen'') in
         rbind (period_command_key idempotency) (\<lambda>key.
         rbind (close_digest sv [(''request_id'', PStr i), (''decision'', PStr decision), (''reason_code'', PStr reason)]) (\<lambda>dig.
         rbind (period_replay sv pp led action dig (review_receipt (kl_period_receipts led) actor key)) (\<lambda>replay. case replay of
           Some v \<Rightarrow> Inr (v, led)
         | None \<Rightarrow> (case request_by_id led i of
             None \<Rightarrow> Inl (ClosePeriodError ''accounting-period-reopen-unavailable'' ''reopen request is unavailable'')
           | Some r \<Rightarrow>
               if rq_by r = actor then Inl (ClosePeriodError ''accounting-period-segregation-of-duties''
                 ''the requester cannot decide their own reopen request'')
               else if decision_on led i \<noteq> None then Inl (ClosePeriodError ''accounting-period-reopen-already-decided'' ''reopen request is terminal'')
               else rbind (write_reopen_decision pp led fr actor action key dig i (rq_close r) decision reason)
                 (read_close sv pp ''reopen decision cannot be read back'' (rq_close r)))))))"

end
