(* ===== verification/CloseLaws.thy ===== *)
theory CloseLaws
  imports CloseLedger ReadinessLaws
begin

text \<open>
  What the append-only tables of the close keep whatever commands run: packets and decisions by two people,
  closes from reviewed packets of ready periods, no two active closes that share a day, reopening by two people.
\<close>

section \<open>Accepted insertions\<close>

lemma failed_Inr [simp]: "failed state constraint \<noteq> Inr x"
  by (simp add: failed_def)

lemma failed_guard: "(if P then failed state constraint else x) = Inr y \<longleftrightarrow> \<not> P \<and> x = Inr y"
  by (simp add: failed_def)

lemma record_close_audit_Inr: "record_close_audit led e = Inr led' \<Longrightarrow> led' = led\<lparr>kl_audits := kl_audits led @ [e]\<rparr>"
  by (auto simp: record_close_audit_def lifted_def rbind_Inr_iff split: sum.splits dest!: record_audit_Inr)

lemma insert_packet_Inr:
  "insert_packet pp tb led p = Inr led' \<longleftrightarrow> packet_trigger pp tb p = Inr () \<and> 1 \<le> pk_version p \<and> pk_schema p = MANIFEST_SCHEMA_VERSION
     \<and> digest_shape (pk_digest p) \<and> pk_status p \<in> {''blocked'', ''ready_for_review''} \<and> pk_start p \<le> pk_end p \<and> pk_author p \<noteq> pk_reviewer p
     \<and> pk_id p \<notin> pk_id ` set (kl_packets led)
     \<and> (pk_start p, pk_end p, pk_version p) \<notin> (\<lambda>x. (pk_start x, pk_end x, pk_version x)) ` set (kl_packets led)
     \<and> known_subject pp (pk_author p) \<and> known_subject pp (pk_reviewer p) \<and> pk_audit p \<in> au_id ` set (kl_audits led)
     \<and> led' = led\<lparr>kl_packets := kl_packets led @ [p]\<rparr>"
  unfolding insert_packet_def rbind_Inr_iff failed_guard by auto

lemma insert_packet_decision_Inr:
  "insert_packet_decision pp led d = Inr led' \<longleftrightarrow> (\<exists>p. packet_by_id led (pd_packet d) = Some p \<and> pd_by d = pk_reviewer p
     \<and> pd_by d \<noteq> pk_author p \<and> is_close_reviewer_eligible pp (pd_by d) \<and> pd_digest d = pk_digest p
     \<and> (pd_decision d = ''evidence_reviewed'' \<longrightarrow> pk_status p = ''ready_for_review'' \<and> pd_reason d = ''controls_reviewed'')
     \<and> (pd_decision d = ''changes_requested'' \<longrightarrow> pd_reason d \<noteq> ''controls_reviewed''))
     \<and> pd_decision d \<in> fst ` set REVIEW_REASONS \<and> pd_reason d \<in> set (concat (map snd REVIEW_REASONS)) \<and> digest_shape (pd_digest d)
     \<and> pd_id d \<notin> pd_id ` set (kl_decisions led) \<and> pd_packet d \<notin> pd_packet ` set (kl_decisions led)
     \<and> known_subject pp (pd_by d) \<and> pd_audit d \<in> au_id ` set (kl_audits led) \<and> led' = led\<lparr>kl_decisions := kl_decisions led @ [d]\<rparr>"
  unfolding insert_packet_decision_def by (cases "packet_by_id led (pd_packet d)"; simp only: option.case failed_guard failed_Inr) auto

lemma insert_review_receipt_Inr:
  "insert_review_receipt led r = Inr led' \<Longrightarrow> (rc_actor r, rc_key r) \<notin> (\<lambda>x. (rc_actor x, rc_key x)) ` set (kl_receipts led)
     \<and> led' = led\<lparr>kl_receipts := kl_receipts led @ [r]\<rparr>"
  unfolding insert_review_receipt_def receipt_checked_def by (simp only: failed_guard rbind_Inr_iff) auto

lemma insert_period_receipt_Inr:
  "insert_period_receipt led r = Inr led' \<Longrightarrow> (rc_actor r, rc_key r) \<notin> (\<lambda>x. (rc_actor x, rc_key x)) ` set (kl_period_receipts led)
     \<and> led' = led\<lparr>kl_period_receipts := kl_period_receipts led @ [r]\<rparr>"
  unfolding insert_period_receipt_def receipt_checked_def by (simp only: failed_guard rbind_Inr_iff) auto

text \<open>The packet and the decision a close rests on.\<close>

definition rests_on :: "close_ledger \<Rightarrow> close_row \<Rightarrow> packet_row \<Rightarrow> packet_decision \<Rightarrow> bool" where
  "rests_on led c p d = (p \<in> set (kl_packets led) \<and> d \<in> set (kl_decisions led) \<and> cz_packet c = pk_id p \<and> pd_packet d = pk_id p
     \<and> pd_decision d = ''evidence_reviewed'' \<and> pd_digest d = cz_digest c \<and> pk_digest p = cz_digest c \<and> pd_by d = cz_by c
     \<and> pk_author p \<noteq> cz_by c \<and> pk_start p = cz_start c \<and> pk_end p = cz_end c \<and> snapshot_refusal c p = None)"

lemma close_trigger_Inr:
  assumes "close_trigger led c = Inr ()"
  obtains p d where "rests_on led c p d" "\<not> accounting_period_is_closed led (cz_start c) (cz_end c)"
    "cz_version c = next_close_version led (cz_start c) (cz_end c)"
    "\<forall>n \<in> set (kl_packets led). pk_start n = cz_start c \<and> pk_end n = cz_end c \<longrightarrow> pk_version n \<le> pk_version p"
proof -
  obtain p d where found: "packet_by_id led (cz_packet c) = Some p"
      "find (\<lambda>d. pd_packet d = cz_packet c \<and> pd_decision d = ''evidence_reviewed'' \<and> pd_digest d = cz_digest c) (kl_decisions led) = Some d"
    using assms unfolding close_trigger_def by (auto split: option.splits)
  note p = find_SomeD [OF found(1) [unfolded packet_by_id_def]] and d = find_SomeD [OF found(2)]
  have "pk_start p = cz_start c \<and> pk_end p = cz_end c \<and> pk_digest p = cz_digest c \<and> pd_by d = cz_by c \<and> pk_author p \<noteq> cz_by c
      \<and> \<not> list_ex (\<lambda>n. pk_start n = cz_start c \<and> pk_end n = cz_end c \<and> pk_version p < pk_version n) (kl_packets led)
      \<and> \<not> accounting_period_is_closed led (cz_start c) (cz_end c) \<and> cz_version c = next_close_version led (cz_start c) (cz_end c)
      \<and> snapshot_refusal c p = None"
    using assms unfolding close_trigger_def found
    by (simp only: option.case prod.case failed_guard de_Morgan_disj not_not) (auto split: option.splits)
  then show ?thesis using p d by (intro that [of p d]) (auto simp: rests_on_def list_ex_iff not_less)
qed

lemma insert_close_Inr:
  "insert_close pp led c = Inr led' \<longleftrightarrow> close_trigger led c = Inr () \<and> 1 \<le> cz_version c \<and> digest_shape (cz_digest c)
     \<and> cz_schema c = SNAPSHOT_SCHEMA_VERSION \<and> digest_shape (cz_snapshot_digest c) \<and> cz_start c \<le> cz_end c
     \<and> cz_id c \<notin> cz_id ` set (kl_closes led)
     \<and> (cz_start c, cz_end c, cz_version c) \<notin> (\<lambda>x. (cz_start x, cz_end x, cz_version x)) ` set (kl_closes led)
     \<and> cz_packet c \<notin> cz_packet ` set (kl_closes led) \<and> known_subject pp (cz_by c) \<and> cz_audit c \<in> au_id ` set (kl_audits led)
     \<and> led' = led\<lparr>kl_closes := kl_closes led @ [c]\<rparr>"
  unfolding insert_close_def rbind_Inr_iff failed_guard by auto

lemma insert_reopen_request_Inr:
  "insert_reopen_request pp led r = Inr led' \<longleftrightarrow> (\<exists>c. close_by_id led (rq_close r) = Some c \<and> accounting_period_is_closed led (cz_start c) (cz_end c))
     \<and> rq_reason r \<in> set REOPEN_REASONS \<and> 10 \<le> length (rq_rationale r) \<and> length (rq_rationale r) \<le> 500
     \<and> rq_id r \<notin> rq_id ` set (kl_requests led) \<and> rq_close r \<notin> rq_close ` set (kl_requests led)
     \<and> known_subject pp (rq_by r) \<and> rq_audit r \<in> au_id ` set (kl_audits led) \<and> led' = led\<lparr>kl_requests := kl_requests led @ [r]\<rparr>"
  unfolding insert_reopen_request_def failed_guard by (auto split: option.splits)

lemma insert_reopen_decision_Inr:
  "insert_reopen_decision pp led d = Inr led' \<longleftrightarrow> (\<exists>r. request_by_id led (ro_request d) = Some r \<and> rq_by r \<noteq> ro_by d)
     \<and> (ro_decision d = ''approved'' \<longrightarrow> ro_reason d = ''documented_basis_confirmed'')
     \<and> (ro_decision d = ''rejected'' \<longrightarrow> ro_reason d \<noteq> ''documented_basis_confirmed'')
     \<and> ro_decision d \<in> fst ` set REOPEN_DECISION_REASONS \<and> ro_reason d \<in> set (concat (map snd REOPEN_DECISION_REASONS))
     \<and> ro_id d \<notin> ro_id ` set (kl_reopens led) \<and> ro_request d \<notin> ro_request ` set (kl_reopens led)
     \<and> known_subject pp (ro_by d) \<and> ro_audit d \<in> au_id ` set (kl_audits led) \<and> led' = led\<lparr>kl_reopens := kl_reopens led @ [d]\<rparr>"
  unfolding insert_reopen_decision_def failed_guard by (auto split: option.splits)


section \<open>The invariant\<close>

definition decision_ok :: "close_ledger \<Rightarrow> packet_decision \<Rightarrow> bool" where
  "decision_ok led d = (\<exists>p \<in> set (kl_packets led). pd_packet d = pk_id p \<and> pd_by d = pk_reviewer p \<and> pd_by d \<noteq> pk_author p
     \<and> pd_digest d = pk_digest p \<and> (pd_decision d = ''evidence_reviewed'' \<longrightarrow> pk_status p = ''ready_for_review''))"

definition overlapping :: "close_row \<Rightarrow> close_row \<Rightarrow> bool" where
  "overlapping a b = (cz_start a \<le> cz_end b \<and> cz_start b \<le> cz_end a)"

definition close_ok :: "close_ledger \<Rightarrow> bool" where
  "close_ok led = (distinct (map pk_id (kl_packets led)) \<and> distinct (map pd_packet (kl_decisions led))
     \<and> (\<forall>d \<in> set (kl_decisions led). decision_ok led d)
     \<and> distinct (map cz_id (kl_closes led)) \<and> distinct (map cz_packet (kl_closes led))
     \<and> (\<forall>c \<in> set (kl_closes led). cz_start c \<le> cz_end c \<and> (\<exists>p d. rests_on led c p d))
     \<and> (\<forall>a \<in> set (kl_closes led). \<forall>b \<in> set (kl_closes led). a \<noteq> b \<longrightarrow> overlapping a b \<longrightarrow> reopened led (cz_id a) \<or> reopened led (cz_id b))
     \<and> distinct (map rq_id (kl_requests led)) \<and> distinct (map rq_close (kl_requests led))
     \<and> (\<forall>r \<in> set (kl_requests led). rq_close r \<in> cz_id ` set (kl_closes led))
     \<and> distinct (map ro_request (kl_reopens led))
     \<and> (\<forall>d \<in> set (kl_reopens led). \<exists>r \<in> set (kl_requests led). ro_request d = rq_id r \<and> ro_by d \<noteq> rq_by r))"

definition close_extends :: "close_ledger \<Rightarrow> close_ledger \<Rightarrow> bool" where
  "close_extends a b = (prefix (kl_packets a) (kl_packets b) \<and> prefix (kl_decisions a) (kl_decisions b)
     \<and> prefix (kl_receipts a) (kl_receipts b) \<and> prefix (kl_closes a) (kl_closes b) \<and> prefix (kl_requests a) (kl_requests b)
     \<and> prefix (kl_reopens a) (kl_reopens b) \<and> prefix (kl_period_receipts a) (kl_period_receipts b) \<and> prefix (kl_audits a) (kl_audits b))"

lemma close_extends_refl: "close_extends a a"
  by (simp add: close_extends_def)

lemma close_extends_trans: "close_extends a b \<Longrightarrow> close_extends b c \<Longrightarrow> close_extends a c"
  by (auto simp: close_extends_def intro: prefix_order.trans)

lemma prefix_set: "prefix xs ys \<Longrightarrow> set xs \<subseteq> set ys"
  by (auto simp: prefix_def)

lemma reopened_iff:
  "reopened led i \<longleftrightarrow> (\<exists>r \<in> set (kl_requests led). \<exists>d \<in> set (kl_reopens led). rq_close r = i \<and> ro_request d = rq_id r \<and> ro_decision d = ''approved'')"
  by (auto simp: reopened_def list_ex_iff)

lemma reopened_mono: "close_extends a b \<Longrightarrow> reopened a i \<Longrightarrow> reopened b i"
  unfolding reopened_iff close_extends_def using prefix_set by (meson in_mono)

lemma decision_ok_mono: "close_extends a b \<Longrightarrow> decision_ok a d \<Longrightarrow> decision_ok b d"
  unfolding decision_ok_def close_extends_def using prefix_set by (meson in_mono)

lemma rests_on_mono: "close_extends a b \<Longrightarrow> rests_on a c p d \<Longrightarrow> rests_on b c p d"
  unfolding rests_on_def close_extends_def using prefix_set by (meson in_mono)

text \<open>Tables that do not change keep their part of the invariant.\<close>

lemma close_ok_kept:
  assumes "close_ok a" "close_extends a b" "kl_packets b = kl_packets a" "kl_decisions b = kl_decisions a" "kl_closes b = kl_closes a"
    "kl_requests b = kl_requests a" "kl_reopens b = kl_reopens a"
  shows "close_ok b"
  using assms(1) reopened_mono [OF assms(2)] decision_ok_mono [OF assms(2)] rests_on_mono [OF assms(2)]
  unfolding close_ok_def assms(3-7) by blast

lemma audit_kept: "record_close_audit a e = Inr b \<Longrightarrow> close_ok a \<Longrightarrow> close_ok b \<and> close_extends a b"
proof -
  assume e: "record_close_audit a e = Inr b" and ok: "close_ok a"
  have b: "b = a\<lparr>kl_audits := kl_audits a @ [e]\<rparr>" by (rule record_close_audit_Inr [OF e])
  have "close_extends a b" unfolding b close_extends_def by simp
  then show ?thesis using close_ok_kept [OF ok, of b] b by simp
qed

lemma review_receipt_kept: "insert_review_receipt a r = Inr b \<Longrightarrow> close_ok a \<Longrightarrow> close_ok b \<and> close_extends a b"
proof -
  assume e: "insert_review_receipt a r = Inr b" and ok: "close_ok a"
  have b: "b = a\<lparr>kl_receipts := kl_receipts a @ [r]\<rparr>" using insert_review_receipt_Inr [OF e] by simp
  have "close_extends a b" unfolding b close_extends_def by simp
  then show ?thesis using close_ok_kept [OF ok, of b] b by simp
qed

lemma period_receipt_kept: "insert_period_receipt a r = Inr b \<Longrightarrow> close_ok a \<Longrightarrow> close_ok b \<and> close_extends a b"
proof -
  assume e: "insert_period_receipt a r = Inr b" and ok: "close_ok a"
  have b: "b = a\<lparr>kl_period_receipts := kl_period_receipts a @ [r]\<rparr>" using insert_period_receipt_Inr [OF e] by simp
  have "close_extends a b" unfolding b close_extends_def by simp
  then show ?thesis using close_ok_kept [OF ok, of b] b by simp
qed

lemma packet_kept:
  assumes "insert_packet pp tb a p = Inr b" "close_ok a"
  shows "close_ok b \<and> close_extends a b"
proof -
  have b: "b = a\<lparr>kl_packets := kl_packets a @ [p]\<rparr>" and new: "pk_id p \<notin> pk_id ` set (kl_packets a)"
    using assms(1) unfolding insert_packet_Inr by blast+
  have ext: "close_extends a b" unfolding b close_extends_def by simp
  note mono = decision_ok_mono [OF ext] rests_on_mono [OF ext] reopened_mono [OF ext]
  have "kl_decisions b = kl_decisions a" "kl_closes b = kl_closes a" "kl_requests b = kl_requests a" "kl_reopens b = kl_reopens a"
    "distinct (map pk_id (kl_packets b))"
    using assms(2) new unfolding b close_ok_def by auto
  then show ?thesis using assms(2) ext mono unfolding close_ok_def by (simp only: simp_thms) blast
qed

lemma packet_decision_kept:
  assumes "insert_packet_decision pp a d = Inr b" "close_ok a"
  shows "close_ok b \<and> close_extends a b"
proof -
  have b: "b = a\<lparr>kl_decisions := kl_decisions a @ [d]\<rparr>" and new: "pd_packet d \<notin> pd_packet ` set (kl_decisions a)"
    using assms(1) unfolding insert_packet_decision_Inr by blast+
  obtain p where p: "packet_by_id a (pd_packet d) = Some p" "pd_by d = pk_reviewer p" "pd_by d \<noteq> pk_author p" "pd_digest d = pk_digest p"
      "pd_decision d = ''evidence_reviewed'' \<longrightarrow> pk_status p = ''ready_for_review''"
    using assms(1) unfolding insert_packet_decision_Inr by blast
  have "p \<in> set (kl_packets a)" "pk_id p = pd_packet d" using find_SomeD [OF p(1) [unfolded packet_by_id_def]] by simp_all
  then have okd: "decision_ok a d" using p(2-5) unfolding decision_ok_def by (intro bexI [of _ p]) simp_all
  have ext: "close_extends a b" unfolding b close_extends_def by simp
  note mono = decision_ok_mono [OF ext] rests_on_mono [OF ext] reopened_mono [OF ext]
  have "kl_packets b = kl_packets a" "kl_closes b = kl_closes a" "kl_requests b = kl_requests a" "kl_reopens b = kl_reopens a"
    "distinct (map pd_packet (kl_decisions b))" "\<forall>x \<in> set (kl_decisions b). decision_ok a x"
    using assms(2) new okd unfolding b close_ok_def by auto
  then show ?thesis using assms(2) ext mono unfolding close_ok_def by (simp only: simp_thms) blast
qed

lemma closed_iff:
  "accounting_period_is_closed led s e \<longleftrightarrow> (\<exists>c \<in> set (kl_closes led). cz_start c \<le> e \<and> s \<le> cz_end c \<and> \<not> reopened led (cz_id c))"
  by (auto simp: accounting_period_is_closed_def list_ex_iff)

lemma close_kept:
  assumes "insert_close pp a c = Inr b" "close_ok a"
  shows "close_ok b \<and> close_extends a b"
proof -
  have b: "b = a\<lparr>kl_closes := kl_closes a @ [c]\<rparr>" and new: "cz_id c \<notin> cz_id ` set (kl_closes a)" "cz_packet c \<notin> cz_packet ` set (kl_closes a)"
    and window: "cz_start c \<le> cz_end c" and trigger: "close_trigger a c = Inr ()"
    using assms(1) unfolding insert_close_Inr by blast+
  obtain p d where rests: "rests_on a c p d" and free: "\<not> accounting_period_is_closed a (cz_start c) (cz_end c)"
    using trigger by (rule close_trigger_Inr)
  have ext: "close_extends a b" unfolding b close_extends_def by simp
  note mono = decision_ok_mono [OF ext] rests_on_mono [OF ext]
  have same: "kl_packets b = kl_packets a" "kl_decisions b = kl_decisions a" "kl_requests b = kl_requests a" "kl_reopens b = kl_reopens a"
    "set (kl_closes b) = insert c (set (kl_closes a))"
    unfolding b by simp_all
  have reopen: "reopened b i = reopened a i" for i unfolding reopened_iff same ..
  have "overlapping x c \<Longrightarrow> reopened a (cz_id x)" "overlapping c x \<Longrightarrow> reopened a (cz_id x)" if "x \<in> set (kl_closes a)" for x
    using free that unfolding closed_iff overlapping_def by auto
  then have "\<forall>x \<in> set (kl_closes b). \<forall>y \<in> set (kl_closes b). x \<noteq> y \<longrightarrow> overlapping x y \<longrightarrow> reopened b (cz_id x) \<or> reopened b (cz_id y)"
    using assms(2) unfolding close_ok_def same reopen by blast
  moreover have "\<forall>x \<in> set (kl_closes b). cz_start x \<le> cz_end x \<and> (\<exists>p d. rests_on b x p d)"
    using assms(2) rests window mono(2) unfolding close_ok_def same by blast
  moreover have "distinct (map cz_id (kl_closes b))" "distinct (map cz_packet (kl_closes b))"
    using assms(2) new unfolding close_ok_def b by auto
  ultimately show ?thesis using assms(2) ext mono(1) unfolding close_ok_def same by (simp only: simp_thms) blast
qed

lemma reopen_request_kept:
  assumes "insert_reopen_request pp a r = Inr b" "close_ok a"
  shows "close_ok b \<and> close_extends a b"
proof -
  have b: "b = a\<lparr>kl_requests := kl_requests a @ [r]\<rparr>"
    and new: "rq_id r \<notin> rq_id ` set (kl_requests a)" "rq_close r \<notin> rq_close ` set (kl_requests a)"
    and ex: "\<exists>c. close_by_id a (rq_close r) = Some c"
    using assms(1) unfolding insert_reopen_request_Inr by blast+
  obtain c where "close_by_id a (rq_close r) = Some c" using ex by blast
  then have there: "rq_close r \<in> cz_id ` set (kl_closes a)" unfolding close_by_id_def using find_SomeD by (metis (mono_tags, lifting) image_eqI)
  have ext: "close_extends a b" unfolding b close_extends_def by simp
  note mono = decision_ok_mono [OF ext] rests_on_mono [OF ext] reopened_mono [OF ext]
  have same: "kl_packets b = kl_packets a" "kl_decisions b = kl_decisions a" "kl_closes b = kl_closes a" "kl_reopens b = kl_reopens a"
    "set (kl_requests b) = insert r (set (kl_requests a))"
    unfolding b by simp_all
  have "distinct (map rq_id (kl_requests b))" "distinct (map rq_close (kl_requests b))"
    using assms(2) new unfolding close_ok_def b by auto
  then show ?thesis using assms(2) ext mono there unfolding close_ok_def same by (simp only: simp_thms) blast
qed

lemma reopen_decision_kept:
  assumes "insert_reopen_decision pp a d = Inr b" "close_ok a"
  shows "close_ok b \<and> close_extends a b"
proof -
  have b: "b = a\<lparr>kl_reopens := kl_reopens a @ [d]\<rparr>" and new: "ro_request d \<notin> ro_request ` set (kl_reopens a)"
    and ex: "\<exists>r. request_by_id a (ro_request d) = Some r \<and> rq_by r \<noteq> ro_by d"
    using assms(1) unfolding insert_reopen_decision_Inr by blast+
  obtain r where r: "request_by_id a (ro_request d) = Some r" "rq_by r \<noteq> ro_by d" using ex by blast
  have there: "\<exists>r \<in> set (kl_requests a). ro_request d = rq_id r \<and> ro_by d \<noteq> rq_by r"
    using find_SomeD [OF r(1) [unfolded request_by_id_def]] r(2) by (intro bexI [of _ r]) auto
  have ext: "close_extends a b" unfolding b close_extends_def by simp
  note mono = decision_ok_mono [OF ext] rests_on_mono [OF ext] reopened_mono [OF ext]
  have same: "kl_packets b = kl_packets a" "kl_decisions b = kl_decisions a" "kl_closes b = kl_closes a" "kl_requests b = kl_requests a"
    "set (kl_reopens b) = insert d (set (kl_reopens a))"
    unfolding b by simp_all
  have "distinct (map ro_request (kl_reopens b))" using assms(2) new unfolding close_ok_def b by auto
  then show ?thesis using assms(2) ext mono there unfolding close_ok_def same by (simp only: simp_thms) blast
qed

section \<open>Commands\<close>

text \<open>Insertions in a row.\<close>

lemma kept_bind:
  assumes "rbind m f = Inr c" "\<And>b. m = Inr b \<Longrightarrow> close_ok b \<and> close_extends a b"
    and "\<And>b. f b = Inr c \<Longrightarrow> close_ok b \<Longrightarrow> close_ok c \<and> close_extends b c"
  shows "close_ok c \<and> close_extends a c"
  using assms by (auto simp: rbind_Inr_iff intro: close_extends_trans)

lemma write_packet_kept:
  assumes "write_packet pp tb a fr actor key dig s e reviewer m md = Inr b" "close_ok a"
  shows "close_ok b \<and> close_extends a b"
  using assms(1) unfolding write_packet_def Let_def
  by (rule kept_bind) (erule audit_kept [OF _ assms(2)], erule kept_bind, erule (1) packet_kept, erule (1) review_receipt_kept)

lemma write_packet_decision_kept:
  assumes "write_packet_decision pp a fr actor key dig i decision reason current = Inr b" "close_ok a"
  shows "close_ok b \<and> close_extends a b"
  using assms(1) unfolding write_packet_decision_def
  by (rule kept_bind) (erule audit_kept [OF _ assms(2)], erule kept_bind, erule (1) packet_decision_kept, erule (1) review_receipt_kept)

lemma write_close_kept:
  assumes "write_close sv pp a fr actor key dig p m current = Inr b" "close_ok a"
  shows "close_ok b \<and> close_extends a b"
proof -
  from assms(1) obtain sd where "rbind (record_close_audit a (audit_of fr actor ''accounting.period.close'' ''accounting_period'' (fr_id fr)
         [(''period_start'', PStr (isoformat (pk_start p))), (''period_end'', PStr (isoformat (pk_end p))),
          (''version'', PInt (int (next_close_version a (pk_start p) (pk_end p)))),
          (''packet_id'', PStr (pk_id p)), (''manifest_digest'', PStr current), (''snapshot_digest'', PStr sd)])) (\<lambda>led.
       rbind (insert_close pp led \<lparr>cz_id = fr_id fr, cz_start = pk_start p, cz_end = pk_end p,
         cz_version = next_close_version a (pk_start p) (pk_end p), cz_packet = pk_id p,
         cz_digest = current, cz_schema = SNAPSHOT_SCHEMA_VERSION, cz_snapshot = build_snapshot p m, cz_snapshot_digest = sd,
         cz_by = actor, cz_at = fr_now fr, cz_audit = fr_audit fr\<rparr>) (\<lambda>led.
       insert_period_receipt led \<lparr>rc_actor = actor, rc_action = ''close'', rc_key = key, rc_digest = dig, rc_kind = ''close'', rc_ref = fr_id fr\<rparr>)) = Inr b"
    unfolding write_close_def Let_def rbind_Inr_iff by blast
  then show ?thesis
    by (rule kept_bind) (erule audit_kept [OF _ assms(2)], erule kept_bind, erule (1) close_kept, erule (1) period_receipt_kept)
qed

lemma write_reopen_request_kept:
  assumes "write_reopen_request pp a fr actor key dig i reason rationale = Inr b" "close_ok a"
  shows "close_ok b \<and> close_extends a b"
  using assms(1) unfolding write_reopen_request_def
  by (rule kept_bind) (erule audit_kept [OF _ assms(2)], erule kept_bind, erule (1) reopen_request_kept, erule (1) period_receipt_kept)

lemma write_reopen_decision_kept:
  assumes "write_reopen_decision pp a fr actor action key dig i cid decision reason = Inr b" "close_ok a"
  shows "close_ok b \<and> close_extends a b"
  using assms(1) unfolding write_reopen_decision_def
  by (rule kept_bind) (erule audit_kept [OF _ assms(2)], erule kept_bind, erule (1) reopen_decision_kept, erule (1) period_receipt_kept)

lemma load_packet_Some:
  assumes "load_packet sv pp led i replayed = Inr (Some v)"
  shows "pv_packet v \<in> set (kl_packets led) \<and> canonical_uuid i = Some (pk_id (pv_packet v))
    \<and> pv_decision v = packet_decision_of led (pk_id (pv_packet v)) \<and> pv_replayed v = replayed"
  using assms
  by (auto simp: load_packet_def close_uuid_def packet_view_of_def rbind_Inr_iff packet_by_id_def Let_def
      split: option.splits list.splits dest!: find_SomeD)

text \<open>What a successful command has written, if anything.\<close>

lemma prepare_packet_writes:
  assumes "prepare_packet sv pp tb a fr actor k s e assigned = Inr (v, b)"
  shows "b = a \<or> (\<exists>reviewer key dig period md. exact_period sv tb s e = Inr period
    \<and> write_packet pp tb a fr actor key dig s e reviewer (build_manifest period) md = Inr b)"
  using assms unfolding prepare_packet_def read_packet_def
  by (auto simp: rbind_Inr_iff split: if_splits option.splits)

lemma decide_packet_writes:
  assumes "decide_packet sv pp tb a fr actor k i decision reason = Inr (v, b)"
  shows "b = a \<or> (\<exists>p period key dig. p \<in> set (kl_packets a) \<and> packet_decision_of a (pk_id p) = None \<and> pk_reviewer p = actor \<and> pk_author p \<noteq> actor
    \<and> is_close_reviewer_eligible pp actor \<and> exact_period sv tb (pk_start p) (pk_end p) = Inr period
    \<and> close_digest sv (manifest_json (build_manifest period)) = Inr (pk_digest p)
    \<and> (decision = ''evidence_reviewed'' \<longrightarrow> pi_status period = ''ready_for_review'')
    \<and> write_packet_decision pp a fr actor key dig (pk_id p) decision reason (pk_digest p) = Inr b)"
proof -
  consider "b = a" | j key dig w period where "canonical_uuid i = Some j" "load_packet sv pp a j False = Inr (Some w)" "pv_decision w = None"
      "pk_reviewer (pv_packet w) = actor" "pk_author (pv_packet w) \<noteq> actor" "is_close_reviewer_eligible pp actor"
      "exact_period sv tb (pk_start (pv_packet w)) (pk_end (pv_packet w)) = Inr period"
      "close_digest sv (manifest_json (build_manifest period)) = Inr (pk_digest (pv_packet w))"
      "decision = ''evidence_reviewed'' \<longrightarrow> pi_status period = ''ready_for_review''"
      "write_packet_decision pp a fr actor key dig j decision reason (pk_digest (pv_packet w)) = Inr b"
    using assms unfolding decide_packet_def read_packet_def close_uuid_def
    by (auto simp: rbind_Inr_iff split: if_splits option.splits)
  then show ?thesis
  proof cases
    case 2
    from load_packet_Some [OF 2(2)] have w: "pv_packet w \<in> set (kl_packets a)" "canonical_uuid j = Some (pk_id (pv_packet w))"
      "packet_decision_of a (pk_id (pv_packet w)) = None" using 2(3) by simp_all
    moreover have "pk_id (pv_packet w) = j" using w(2) 2(1) canonical_uuid_idem by fastforce
    ultimately show ?thesis using 2(4-10) by blast
  qed simp
qed

lemma close_period_writes:
  assumes "close_period sv pp tb a fr actor k i = Inr (v, b)"
  shows "b = a \<or> (\<exists>p d m key dig. p \<in> set (kl_packets a) \<and> packet_decision_of a (pk_id p) = Some d \<and> pd_decision d = ''evidence_reviewed''
    \<and> pd_by d = actor \<and> pk_author p \<noteq> actor \<and> current_manifest sv tb (pk_start p) (pk_end p) = Inr (m, pk_digest p)
    \<and> write_close sv pp a fr actor key dig p m (pk_digest p) = Inr b)"
proof -
  obtain j key dig replay where replay: "period_replay sv pp a ''close'' dig (review_receipt (kl_period_receipts a) actor key) = Inr replay"
    and run: "(case replay of Some v \<Rightarrow> Inr (v, a) | None \<Rightarrow> rbind (load_packet sv pp a j False) (\<lambda>found. case found of
         None \<Rightarrow> Inl (ClosePeriodError ''accounting-period-packet-unavailable'' ''review packet is unavailable'')
       | Some v \<Rightarrow> (case pv_decision v of
           None \<Rightarrow> Inl (ClosePeriodError ''accounting-period-not-reviewed'' ''review packet is not evidence_reviewed'')
         | Some d \<Rightarrow>
             if pd_decision d \<noteq> ''evidence_reviewed''
             then Inl (ClosePeriodError ''accounting-period-not-reviewed'' ''review packet is not evidence_reviewed'')
             else if pd_by d \<noteq> actor \<or> pk_author (pv_packet v) = actor
             then Inl (ClosePeriodError ''accounting-period-segregation-of-duties'' ''only the assigned independent reviewer can close this period'')
             else rbind (current_manifest sv tb (pk_start (pv_packet v)) (pk_end (pv_packet v))) (\<lambda>(m, current).
               if current \<noteq> pk_digest (pv_packet v)
               then Inl (ClosePeriodError ''accounting-period-evidence-stale'' ''period evidence changed after review; create a new packet'')
               else rbind (write_close sv pp a fr actor key dig (pv_packet v) m current)
                 (read_close sv pp ''created accounting period close cannot be read back'' (fr_id fr)))))) = Inr (v, b)"
    using assms unfolding close_period_def rbind_Inr_iff by blast
  show ?thesis
  proof (cases replay)
    case (Some x)
    then show ?thesis using run by simp
  next
    case None
    then obtain w d where w: "load_packet sv pp a j False = Inr (Some w)" "pv_decision w = Some d"
      using run by (auto simp: rbind_Inr_iff split: option.splits)
    obtain m current where "pd_decision d = ''evidence_reviewed''" "pd_by d = actor" "pk_author (pv_packet w) \<noteq> actor"
      "current_manifest sv tb (pk_start (pv_packet w)) (pk_end (pv_packet w)) = Inr (m, current)" "current = pk_digest (pv_packet w)"
      "write_close sv pp a fr actor key dig (pv_packet w) m current = Inr b"
      using run unfolding None w read_close_def
      by (auto simp: w rbind_Inr_iff guard_Inr split: option.splits)
    moreover have "pv_packet w \<in> set (kl_packets a)" "packet_decision_of a (pk_id (pv_packet w)) = Some d"
      using load_packet_Some [OF w(1)] w(2) by simp_all
    ultimately show ?thesis by blast
  qed
qed

lemma request_reopen_writes:
  assumes "request_reopen sv pp a fr actor k i reason given = Inr (v, b)"
  shows "b = a \<or> (\<exists>key dig j w. load_close sv pp a j False = Inr (Some w) \<and> zv_request w = None
    \<and> write_reopen_request pp a fr actor key dig j reason (py_strip given) = Inr b)"
proof -
  obtain j key dig replay where replay: "period_replay sv pp a ''request_reopen'' dig (review_receipt (kl_period_receipts a) actor key) = Inr replay"
    and run: "(case replay of Some v \<Rightarrow> Inr (v, a) | None \<Rightarrow> rbind (load_close sv pp a j False) (\<lambda>current. case current of
               None \<Rightarrow> Inl (ClosePeriodError ''accounting-period-unavailable'' ''accounting period is unavailable'')
             | Some v \<Rightarrow>
                 if zv_status v \<noteq> ''closed'' \<or> zv_request v \<noteq> None
                 then Inl (ClosePeriodError ''accounting-period-reopen-unavailable'' ''period is not an active close without a request'')
                 else rbind (write_reopen_request pp a fr actor key dig j reason (py_strip given))
                   (read_close sv pp ''reopen request cannot be read back'' j))) = Inr (v, b)"
    using assms unfolding request_reopen_def rbind_Inr_iff Let_def guard_Inr by blast
  show ?thesis
  proof (cases replay)
    case (Some x)
    then show ?thesis using run by simp
  next
    case None
    then obtain w where w: "load_close sv pp a j False = Inr (Some w)" using run by (auto simp: rbind_Inr_iff split: option.splits)
    have "zv_request w = None" "write_reopen_request pp a fr actor key dig j reason (py_strip given) = Inr b"
      using run unfolding None w read_close_def
      by (auto simp: w rbind_Inr_iff guard_Inr simp del: not_None_eq not_Some_eq split: option.splits)
    then show ?thesis using w by blast
  qed
qed

lemma decide_reopen_writes:
  assumes "decide_reopen sv pp a fr actor k i decision reason = Inr (v, b)"
  shows "b = a \<or> (\<exists>action key dig r. request_by_id a (rq_id r) = Some r \<and> rq_by r \<noteq> actor \<and> decision_on a (rq_id r) = None
    \<and> write_reopen_decision pp a fr actor action key dig (rq_id r) (rq_close r) decision reason = Inr b)"
proof -
  obtain j action key dig replay where replay: "period_replay sv pp a action dig (review_receipt (kl_period_receipts a) actor key) = Inr replay"
    and run: "(case replay of Some v \<Rightarrow> Inr (v, a) | None \<Rightarrow> (case request_by_id a j of
             None \<Rightarrow> Inl (ClosePeriodError ''accounting-period-reopen-unavailable'' ''reopen request is unavailable'')
           | Some r \<Rightarrow>
               if rq_by r = actor then Inl (ClosePeriodError ''accounting-period-segregation-of-duties''
                 ''the requester cannot decide their own reopen request'')
               else if decision_on a j \<noteq> None then Inl (ClosePeriodError ''accounting-period-reopen-already-decided'' ''reopen request is terminal'')
               else rbind (write_reopen_decision pp a fr actor action key dig j (rq_close r) decision reason)
                 (read_close sv pp ''reopen decision cannot be read back'' (rq_close r)))) = Inr (v, b)"
    using assms unfolding decide_reopen_def rbind_Inr_iff Let_def guard_Inr by blast
  show ?thesis
  proof (cases replay)
    case (Some x)
    then show ?thesis using run by simp
  next
    case None
    then obtain r where r: "request_by_id a j = Some r" using run by (auto split: option.splits)
    then have j: "j = rq_id r" by (auto simp: request_by_id_def dest: find_SomeD)
    have "rq_by r \<noteq> actor" "decision_on a j = None" "write_reopen_decision pp a fr actor action key dig j (rq_close r) decision reason = Inr b"
      using run unfolding None r read_close_def by (auto simp: rbind_Inr_iff guard_Inr split: option.splits)
    then show ?thesis using r unfolding j by blast
  qed
qed

section \<open>Reachable ledgers\<close>

text \<open>A step is a successful command, or the audit of a refusal.\<close>

inductive close_step :: "services \<Rightarrow> close_ledger \<Rightarrow> close_ledger \<Rightarrow> bool" for sv where
  prepared: "prepare_packet sv pp tb led fr actor k s e assigned = Inr (v, led') \<Longrightarrow> close_step sv led led'"
| decided: "decide_packet sv pp tb led fr actor k i decision reason = Inr (v, led') \<Longrightarrow> close_step sv led led'"
| closed: "close_period sv pp tb led fr actor k i = Inr (z, led') \<Longrightarrow> close_step sv led led'"
| asked: "request_reopen sv pp led fr actor k i reason rationale = Inr (z, led') \<Longrightarrow> close_step sv led led'"
| answered: "decide_reopen sv pp led fr actor k i decision reason = Inr (z, led') \<Longrightarrow> close_step sv led led'"
| denied: "record_close_audit led e = Inr led' \<Longrightarrow> au_outcome e = ''denied'' \<Longrightarrow> close_step sv led led'"

lemma close_step_kept:
  assumes "close_step sv a b" "close_ok a"
  shows "close_ok b \<and> close_extends a b"
proof -
  have same: "close_ok a \<and> close_extends a a" using assms(2) close_extends_refl by blast
  from assms(1) show ?thesis
  proof cases
    case (prepared pp tb fr actor k s e assigned v)
    from prepare_packet_writes [OF this] show ?thesis using write_packet_kept [OF _ assms(2)] same by blast
  next
    case (decided pp tb fr actor k i decision reason v)
    from decide_packet_writes [OF this] show ?thesis using write_packet_decision_kept [OF _ assms(2)] same by blast
  next
    case (closed pp tb fr actor k i z)
    from close_period_writes [OF this] show ?thesis using write_close_kept [OF _ assms(2)] same by blast
  next
    case (asked pp fr actor k i reason rationale z)
    from request_reopen_writes [OF this] show ?thesis using write_reopen_request_kept [OF _ assms(2)] same by blast
  next
    case (answered pp fr actor k i decision reason z)
    from decide_reopen_writes [OF this] show ?thesis using write_reopen_decision_kept [OF _ assms(2)] same by blast
  next
    case (denied e)
    then show ?thesis using audit_kept [OF _ assms(2)] by blast
  qed
qed

interpretation closing: growing_store "close_step sv" close_ok close_extends for sv
  by unfold_locales (auto intro: close_extends_refl close_extends_trans dest: close_step_kept)

abbreviation closing_reaches :: "services \<Rightarrow> close_ledger \<Rightarrow> close_ledger \<Rightarrow> bool" where
  "closing_reaches sv \<equiv> (close_step sv)\<^sup>*\<^sup>*"

lemma close_ok_empty: "close_ok empty_close_ledger"
  by (simp add: close_ok_def empty_close_ledger_def)

lemma closing_ok: "closing_reaches sv empty_close_ledger led \<Longrightarrow> close_ok led"
  using closing.run_kept close_ok_empty by blast

text \<open>C10. No two active closes share a day, in whatever order packets were reviewed, periods closed and reopened; a close
  stays in the table, and it stays active until a reopening of it is approved.\<close>

theorem active_closes_never_overlap:
  assumes "closing_reaches sv empty_close_ledger led" "closing_reaches sv led later"
    and "a \<in> set (kl_closes led)" "b \<in> set (kl_closes later)"
    and "\<not> reopened later (cz_id a)" "\<not> reopened later (cz_id b)"
    and "cz_start a \<le> day" "day \<le> cz_end a" "cz_start b \<le> day" "day \<le> cz_end b"
  shows "a = b \<and> accounting_period_is_closed later day day"
proof -
  from closing.run_kept [OF assms(2) closing_ok [OF assms(1)]] have ok: "close_ok later" and ext: "close_extends led later" by simp_all
  have a: "a \<in> set (kl_closes later)" using ext assms(3) prefix_set by (auto simp: close_extends_def)
  have "overlapping a b" using assms(7-10) by (auto simp: overlapping_def)
  then have "a = b" using ok a assms(4-6) by (auto simp: close_ok_def)
  moreover have "accounting_period_is_closed later day day" unfolding closed_iff using a assms(5,7,8) by blast
  ultimately show ?thesis by simp
qed

text \<open>C14. A close stays, was made by the reviewer of its packet, who is not its preparer, from a packet that was ready; a
  reopened close was requested by one person and approved by another.\<close>

theorem closes_and_reopenings_take_two_people:
  assumes "closing_reaches sv empty_close_ledger led" "closing_reaches sv led later" "c \<in> set (kl_closes led)"
  shows "c \<in> set (kl_closes later)
    \<and> (\<exists>p \<in> set (kl_packets later). pk_id p = cz_packet c \<and> pk_status p = ''ready_for_review'' \<and> pk_digest p = cz_digest c
        \<and> pk_reviewer p = cz_by c \<and> pk_author p \<noteq> cz_by c)
    \<and> (reopened later (cz_id c) \<longrightarrow> (\<exists>r \<in> set (kl_requests later). \<exists>d \<in> set (kl_reopens later).
        rq_close r = cz_id c \<and> ro_request d = rq_id r \<and> ro_decision d = ''approved'' \<and> ro_by d \<noteq> rq_by r))"
proof -
  from closing.run_kept [OF assms(2) closing_ok [OF assms(1)]] have ok: "close_ok later" and ext: "close_extends led later" by simp_all
  have c: "c \<in> set (kl_closes later)" using ext assms(3) prefix_set by (auto simp: close_extends_def)
  then obtain p d where pd: "rests_on later c p d" using ok by (auto simp: close_ok_def)
  then have "d \<in> set (kl_decisions later)" by (simp add: rests_on_def)
  then obtain q where q: "q \<in> set (kl_packets later)" "pd_packet d = pk_id q" "pd_by d = pk_reviewer q" "pk_status q = ''ready_for_review''"
    using ok pd by (auto simp: close_ok_def decision_ok_def rests_on_def)
  have "q = p"
  proof -
    have "inj_on pk_id (set (kl_packets later))" using ok by (simp add: close_ok_def distinct_map)
    then show ?thesis using pd q(1,2) by (auto simp: rests_on_def dest: inj_onD)
  qed
  moreover have "\<exists>r \<in> set (kl_requests later). \<exists>d \<in> set (kl_reopens later). rq_close r = cz_id c \<and> ro_request d = rq_id r
      \<and> ro_decision d = ''approved'' \<and> ro_by d \<noteq> rq_by r" if re: "reopened later (cz_id c)"
  proof -
    obtain r d where rd: "r \<in> set (kl_requests later)" "d \<in> set (kl_reopens later)" "rq_close r = cz_id c" "ro_request d = rq_id r"
      "ro_decision d = ''approved''" using re unfolding reopened_iff by blast
    obtain r' where r': "r' \<in> set (kl_requests later)" "ro_request d = rq_id r'" "ro_by d \<noteq> rq_by r'"
      using ok rd(2) unfolding close_ok_def by blast
    have "inj_on rq_id (set (kl_requests later))" using ok by (simp add: close_ok_def distinct_map)
    then have "r' = r" using rd r' by (auto dest: inj_onD)
    then show ?thesis using rd r'(3) by blast
  qed
  ultimately show ?thesis using c pd q by (auto simp: rests_on_def intro!: bexI [of _ p])
qed

section \<open>A period closes only when its evidence is ready\<close>

lemma separated_inject:
  assumes "u @ c # x = v @ c # y" "c \<notin> set u" "c \<notin> set v"
  shows "u = v \<and> x = y"
proof -
  have "takeWhile (\<lambda>z. z \<noteq> c) (w @ c # z) = w" if "c \<notin> set w" for w z using that by (induction w) auto
  then have "u = v" using assms by metis
  then show ?thesis using assms(1) by simp
qed

lemma pad_digits: "all_digits (pad w n)" "digits_val (pad w n) = n"
  by (simp_all add: pad_def pad_left_def [symmetric] all_digits_pad_left digits_val_pad_left)

lemma no_dash_in_pad: "CHR ''-'' \<notin> set (pad w n)"
  using pad_digits(1) [of w n] by (auto simp: all_digits_def list_all_iff is_digit_def code_def)

lemma pad_inject: "pad w m = pad w n \<Longrightarrow> m = n"
  using pad_digits(2) by metis

lemma isoformat_inject: "isoformat a = isoformat b \<longleftrightarrow> a = b"
proof
  assume eq: "isoformat a = isoformat b"
  obtain y m d y' m' d' where ab: "a = Date y m d" "b = Date y' m' d'" by (metis date.exhaust)
  from eq have "pad 4 y @ CHR ''-'' # pad 2 m @ CHR ''-'' # pad 2 d = pad 4 y' @ CHR ''-'' # pad 2 m' @ CHR ''-'' # pad 2 d'"
    by (simp add: ab)
  from separated_inject [OF this no_dash_in_pad no_dash_in_pad]
  have "pad 4 y = pad 4 y'" "pad 2 m @ CHR ''-'' # pad 2 d = pad 2 m' @ CHR ''-'' # pad 2 d'" by simp_all
  moreover from separated_inject [OF this(2) no_dash_in_pad no_dash_in_pad] have "pad 2 m = pad 2 m'" "pad 2 d = pad 2 d'" by simp_all
  ultimately show "a = b" by (auto simp: ab dest: pad_inject)
qed simp

text \<open>What a diagnosed period was computed from.\<close>

definition computed_from :: "period_item \<Rightarrow> period_counts \<Rightarrow> bool" where
  "computed_from i c = (pi_controls i = controls_of c \<and> pi_status i = (if diagnostic_ready (pi_controls i) then ''ready_for_review'' else ''blocked'')
     \<and> (\<exists>s e checks balances assessments statements. pi_reconciliations i
          = map (account_view_of s e (pi_sources i) assessments statements) (expected_accounts (pi_sources i))
        \<and> c = period_counts_of s e (pi_sources i) checks balances assessments (pi_reconciliations i)))"

lemma build_period_computed:
  assumes "build_period s e sources given balances assessments statements = Inr i"
  shows "\<exists>c. computed_from i c"
proof -
  from assms obtain checks where "pi_controls i = controls_of (period_counts_of s e (pi_sources i) checks balances assessments (pi_reconciliations i))"
    "pi_status i = (if diagnostic_ready (pi_controls i) then ''ready_for_review'' else ''blocked'')"
    "pi_reconciliations i = map (account_view_of s e (pi_sources i) assessments statements) (expected_accounts (pi_sources i))"
    unfolding build_period_def rbind_Inr_iff Let_def by auto
  then show ?thesis unfolding computed_from_def by blast
qed

lemma diagnosis_computed:
  assumes "list_close_readiness sv tb limit = Inr r" "i \<in> set (rn_items r)"
  shows "\<exists>c. computed_from i c"
proof -
  obtain f :: "(date \<times> date) \<times> source_view list \<Rightarrow> period_item close_answer" and xs where run: "map_result f xs = Inr (rn_items r)"
    and f: "\<And>x i. f x = Inr i \<Longrightarrow> \<exists>c. computed_from i c"
  proof -
    from assms(1) obtain rows where "period_rows tb limit = Inr rows"
      and "map_result (\<lambda>((s, e), own). build_period s e own (dataset_checks tb (sorted_set (chosen_ids (map (row_source sv) rows))))
          (balance_checks tb (sorted_set (chosen_ids (map (row_source sv) rows)))) (assessment_checks tb (map (row_source sv) rows))
          (statement_checks tb (map fst (grouped (map (\<lambda>row. ((xp_start (fst row), xp_end (fst row)), row_source sv row)) rows)))))
        (grouped (map (\<lambda>row. ((xp_start (fst row), xp_end (fst row)), row_source sv row)) rows)) = Inr (rn_items r)"
      unfolding list_close_readiness_def validated_limit_def chosen_ids_def
      by (auto simp: rbind_Inr_iff Let_def split: if_splits)
    then show ?thesis by (elim that) (auto dest: build_period_computed)
  qed
  have "\<exists>x \<in> set xs. f x = Inr i" if "map_result f xs = Inr ys" "i \<in> set ys" for ys
    using that by (induction xs arbitrary: ys) (auto simp: rbind_Inr_iff split: sum.splits)
  then show ?thesis using run assms(2) f by blast
qed

text \<open>The diagnosis that a packet fixes is that of its own period, and ready exactly when the tables are.\<close>

lemma exact_period_ready:
  assumes "sources_known tb" "exact_period sv tb s e = Inr period"
  shows "(e, s) \<in> set (newest_periods tb CLOSE_READINESS_MAX) \<and> pi_start period = isoformat s \<and> pi_end period = isoformat e
    \<and> pi_status period = (if period_ready tb (e, s) then ''ready_for_review'' else ''blocked'')
    \<and> (diagnostic_ready (pi_controls period) \<longleftrightarrow> period_ready tb (e, s)) \<and> (\<exists>c. computed_from period c)"
proof -
  obtain r where r: "list_close_readiness sv tb CLOSE_READINESS_MAX = Inr r"
    and found: "find (\<lambda>i. pi_start i = isoformat s \<and> pi_end i = isoformat e) (rn_items r) = Some period"
    using assms(2) by (auto simp: exact_period_def rbind_Inr_iff split: if_splits option.splits)
  have period: "period \<in> set (rn_items r)" "pi_start period = isoformat s" "pi_end period = isoformat e"
    using find_SomeD [OF found] by simp_all
  have "1 \<le> CLOSE_READINESS_MAX" by (simp add: CLOSE_READINESS_MAX_def)
  then have "list_all2 (item_of sv tb) (newest_periods tb CLOSE_READINESS_MAX) (rn_items r)"
    using diagnosis_items [OF assms(1), of CLOSE_READINESS_MAX sv] diagnosis_scope [OF assms(1) r] r by auto
  then obtain p where p: "p \<in> set (newest_periods tb CLOSE_READINESS_MAX)" "item_of sv tb p period"
    using period(1) unfolding list_all2_conv_all_nth by (metis in_set_conv_nth)
  then have "p = (e, s)" using period by (auto simp: item_of_def isoformat_inject prod_eq_iff)
  moreover obtain c where "computed_from period c" using diagnosis_computed [OF r period(1)] by blast
  moreover from this have "pi_status period = (if diagnostic_ready (pi_controls period) then ''ready_for_review'' else ''blocked'')"
    by (simp add: computed_from_def)
  ultimately show ?thesis using p by (auto simp: item_of_def split: if_splits)
qed

lemma passing_controls:
  assumes "list_ex (\<lambda>x. (fc_code x = ''product_close'' \<and> fc_state x \<noteq> ''unavailable'')
         \<or> (fc_code x \<noteq> ''product_close'' \<and> fc_state x \<noteq> ''pass'')) (mf_controls (build_manifest period)) = False"
  shows "diagnostic_ready (pi_controls period)"
proof -
  have "cl_state c = Pass" if "c \<in> set (pi_controls period)" "cl_code c \<noteq> ''product_close''" for c
  proof -
    have "manifest_control_of c \<in> set (mf_controls (build_manifest period))" using that(1) by (simp add: build_manifest_def)
    then have "fc_state (manifest_control_of c) = ''pass''" using assms that(2) by (auto simp: list_ex_iff manifest_control_of_def)
    then show ?thesis by (auto simp: manifest_control_of_def state_text_def split: control_state.splits)
  qed
  then show ?thesis by (auto simp: diagnostic_ready_def list_all_iff)
qed

lemma close_trigger_audit: "close_trigger (led\<lparr>kl_audits := as\<rparr>) c = close_trigger led c"
proof -
  let ?l = "led\<lparr>kl_audits := as\<rparr>"
  have same: "packet_by_id ?l = packet_by_id led" "accounting_period_is_closed ?l = accounting_period_is_closed led"
    "next_close_version ?l = next_close_version led" "kl_decisions ?l = kl_decisions led" "kl_packets ?l = kl_packets led"
    by (simp_all add: packet_by_id_def accounting_period_is_closed_def reopened_def next_close_version_def fun_eq_iff)
  show ?thesis unfolding close_trigger_def same ..
qed

lemma write_close_Inr:
  assumes "write_close sv pp a fr actor key dig p m current = Inr b"
  obtains c e r where "b = a\<lparr>kl_audits := kl_audits a @ [e], kl_closes := kl_closes a @ [c], kl_period_receipts := kl_period_receipts a @ [r]\<rparr>"
    "close_trigger a c = Inr ()" "cz_id c \<notin> cz_id ` set (kl_closes a)" "cz_start c \<le> cz_end c"
    "cz_start c = pk_start p" "cz_end c = pk_end p" "cz_packet c = pk_id p" "cz_digest c = current" "cz_by c = actor"
    "cz_snapshot c = build_snapshot p m" "cz_id c = fr_id fr" "au_id e = fr_audit fr" "rc_actor r = actor"
proof -
  define c where "c sd = \<lparr>cz_id = fr_id fr, cz_start = pk_start p, cz_end = pk_end p,
    cz_version = next_close_version a (pk_start p) (pk_end p), cz_packet = pk_id p, cz_digest = current, cz_schema = SNAPSHOT_SCHEMA_VERSION,
    cz_snapshot = build_snapshot p m, cz_snapshot_digest = sd, cz_by = actor, cz_at = fr_now fr, cz_audit = fr_audit fr\<rparr>" for sd
  define r where "r = \<lparr>rc_actor = actor, rc_action = ''close'', rc_key = key, rc_digest = dig, rc_kind = ''close'', rc_ref = fr_id fr\<rparr>"
  define e where "e sd = audit_of fr actor ''accounting.period.close'' ''accounting_period'' (fr_id fr)
         [(''period_start'', PStr (isoformat (pk_start p))), (''period_end'', PStr (isoformat (pk_end p))),
          (''version'', PInt (int (next_close_version a (pk_start p) (pk_end p)))),
          (''packet_id'', PStr (pk_id p)), (''manifest_digest'', PStr current), (''snapshot_digest'', PStr sd)]" for sd
  obtain sd mid x where audit: "record_close_audit a (e sd) = Inr mid" and close: "insert_close pp mid (c sd) = Inr x"
    and receipt: "insert_period_receipt x r = Inr b"
    using assms unfolding write_close_def Let_def rbind_Inr_iff c_def r_def e_def by blast
  have mid: "mid = a\<lparr>kl_audits := kl_audits a @ [e sd]\<rparr>" by (rule record_close_audit_Inr [OF audit])
  from close have "close_trigger a (c sd) = Inr ()" "cz_id (c sd) \<notin> cz_id ` set (kl_closes a)" "cz_start (c sd) \<le> cz_end (c sd)"
    "x = mid\<lparr>kl_closes := kl_closes mid @ [c sd]\<rparr>"
    unfolding insert_close_Inr mid close_trigger_audit by simp_all
  then show ?thesis
    using insert_period_receipt_Inr [OF receipt] by (intro that [where c = "c sd" and e = "e sd" and r = r]) (simp_all add: mid c_def e_def r_def audit_of_def)
qed

text \<open>C12. A close that is made rests on a packet whose reviewer, not its preparer, makes it; the diagnosis of the tables at that
  moment has the digest the packet fixed, and the period is ready by the tables; no active close shares a day with
  it, and from then on the period is closed.\<close>

theorem closed_only_when_ready:
  assumes "sources_known tb" "closing_reaches sv empty_close_ledger led"
    and "close_period sv pp tb led fr actor key i = Inr (view, led')" "kl_closes led' \<noteq> kl_closes led"
  shows "\<exists>c p d period. kl_closes led' = kl_closes led @ [c] \<and> rests_on led c p d \<and> cz_by c = actor \<and> pk_author p \<noteq> actor
    \<and> exact_period sv tb (cz_start c) (cz_end c) = Inr period
    \<and> close_digest sv (manifest_json (build_manifest period)) = Inr (cz_digest c) \<and> cz_snapshot c = build_snapshot p (build_manifest period)
    \<and> (cz_end c, cz_start c) \<in> set (newest_periods tb CLOSE_READINESS_MAX) \<and> period_ready tb (cz_end c, cz_start c)
    \<and> \<not> accounting_period_is_closed led (cz_start c) (cz_end c) \<and> accounting_period_is_closed led' (cz_start c) (cz_end c)"
proof -
  have ok: "close_ok led" by (rule closing_ok [OF assms(2)])
  obtain p m k dig where p: "p \<in> set (kl_packets led)" and current: "current_manifest sv tb (pk_start p) (pk_end p) = Inr (m, pk_digest p)"
    and wrote: "write_close sv pp led fr actor k dig p m (pk_digest p) = Inr led'"
    using close_period_writes [OF assms(3)] assms(4) by auto
  from wrote obtain c e r where led': "led' = led\<lparr>kl_audits := kl_audits led @ [e], kl_closes := kl_closes led @ [c],
      kl_period_receipts := kl_period_receipts led @ [r]\<rparr>"
    and trigger: "close_trigger led c = Inr ()" and new: "cz_id c \<notin> cz_id ` set (kl_closes led)" and window: "cz_start c \<le> cz_end c"
    and fields: "cz_start c = pk_start p" "cz_end c = pk_end p" "cz_packet c = pk_id p" "cz_digest c = pk_digest p" "cz_by c = actor"
      "cz_snapshot c = build_snapshot p m"
    by (rule write_close_Inr) (rule that; assumption)
  from trigger obtain q d where rests: "rests_on led c q d" and free: "\<not> accounting_period_is_closed led (cz_start c) (cz_end c)"
    by (rule close_trigger_Inr)
  from current obtain period where period: "exact_period sv tb (cz_start c) (cz_end c) = Inr period" "m = build_manifest period"
    "close_digest sv (manifest_json (build_manifest period)) = Inr (cz_digest c)"
    by (auto simp: current_manifest_def rbind_Inr_iff fields)
  have "sn_controls (cz_snapshot c) = mf_controls (build_manifest period)" by (simp add: fields(6) period(2) build_snapshot_def)
  then have "diagnostic_ready (pi_controls period)"
    using rests by (intro passing_controls) (auto simp: rests_on_def snapshot_refusal_def Let_def split: if_splits)
  then have ready: "period_ready tb (cz_end c, cz_start c)" "(cz_end c, cz_start c) \<in> set (newest_periods tb CLOSE_READINESS_MAX)"
    using exact_period_ready [OF assms(1) period(1)] by simp_all
  have "\<forall>r \<in> set (kl_requests led). rq_close r \<in> cz_id ` set (kl_closes led)" using ok unfolding close_ok_def by blast
  then have "\<not> reopened led' (cz_id c)" using new unfolding reopened_iff by (simp add: led') metis
  then have "accounting_period_is_closed led' (cz_start c) (cz_end c)" using window unfolding closed_iff by (auto simp: led')
  moreover have "inj_on pk_id (set (kl_packets led))" using ok by (simp add: close_ok_def distinct_map)
  then have q: "q = p" using rests fields(3) p by (auto simp: rests_on_def dest: inj_onD)
  moreover have "pk_author p \<noteq> actor" using rests fields(5) unfolding q rests_on_def by simp
  moreover have "kl_closes led' = kl_closes led @ [c]" by (simp add: led')
  ultimately show ?thesis
    using rests free period ready fields by (intro exI [of _ c] exI [of _ p] exI [of _ d] exI [of _ period]) simp
qed

section \<open>Exactly which periods close\<close>

lemma sort_key_Nil [simp]: "sort_key f xs = [] \<longleftrightarrow> xs = []"
  by (metis mset_sort mset_zero_iff)

lemma close_control_codes: "sort (map cl_code (controls_of c)) = CLOSE_CONTROLS"
proof -
  have "map cl_code (controls_of c) = [''expected_sources'', ''expectations_satisfied'', ''dataset_evidence'', ''published_datasets'',
      ''verified_completeness'', ''complete_lineage'', ''rejected_rows'', ''accounting_dates'', ''reconciliation_reviews'', ''quality_alerts'',
      ''pending_corrections'', ''account_balances'', ''completeness_assessments'', ''reconciliation_statements'',
      ''reconciliation_statement_lineage'', ''product_close'']"
    by (simp add: controls_of_def zero_control_def control_of_def)
  moreover have "sort \<dots> = CLOSE_CONTROLS" unfolding CLOSE_CONTROLS_def by code_simp
  ultimately show ?thesis by simp
qed

lemma control_states:
  assumes "computed_from i c" "diagnostic_ready (pi_controls i)" "x \<in> set (mf_controls (build_manifest i))"
  shows "fc_state x = (if fc_code x = ''product_close'' then ''unavailable'' else ''pass'')"
proof -
  obtain y where y: "y \<in> set (pi_controls i)" "x = manifest_control_of y" using assms(3) by (auto simp: build_manifest_def)
  have "cl_state y = Pass" if "cl_code y \<noteq> ''product_close''" using assms(2) y(1) that by (auto simp: diagnostic_ready_def list_all_iff)
  moreover have "cl_state y = Unavailable" if "cl_code y = ''product_close''"
    using y(1) that assms(1) by (auto simp: computed_from_def controls_of_def zero_control_def control_of_def)
  ultimately show ?thesis by (auto simp: y(2) manifest_control_of_def state_text_def)
qed

lemma ready_sources:
  assumes "computed_from i c" "diagnostic_ready (pi_controls i)"
  shows "pi_sources i \<noteq> [] \<and> (\<forall>s \<in> set (pi_sources i). so_state s = ''satisfied'' \<and> so_dataset_state s = Some ''published''
    \<and> so_completeness s = Some ''verified'' \<and> so_lineage s = Some ''complete'' \<and> so_rejected s = 0)"
proof -
  from assms(1) obtain s e checks balances assessments statements where
    c: "c = period_counts_of s e (pi_sources i) checks balances assessments (pi_reconciliations i)" and controls: "pi_controls i = controls_of c"
    unfolding computed_from_def by blast
  have "pc_sources c \<noteq> 0 \<and> pc_pending c = 0 \<and> pc_no_dataset c = 0 \<and> pc_unpublished c = 0 \<and> pc_incomplete c = 0 \<and> pc_lineage_gaps c = 0
      \<and> pc_rejected c = 0"
    using assms(2) unfolding controls diagnostic_ready_iff by simp
  then show ?thesis by (simp add: c period_counts_of_def with_dataset_def) force
qed

lemma ready_accounts:
  assumes "computed_from i c" "diagnostic_ready (pi_controls i)"
  shows "pi_reconciliations i \<noteq> [] \<and> (\<forall>a \<in> set (pi_reconciliations i). av_statement a \<noteq> None \<and> av_version a \<noteq> None
    \<and> av_state a = Some ''balanced'' \<and> av_lineage a = Some ''complete'' \<and> av_coverage a = ''covered'')"
proof -
  from assms(1) obtain s e checks balances assessments statements where
    accounts: "pi_reconciliations i = map (account_view_of s e (pi_sources i) assessments statements) (expected_accounts (pi_sources i))"
    and c: "c = period_counts_of s e (pi_sources i) checks balances assessments (pi_reconciliations i)" and controls: "pi_controls i = controls_of c"
    unfolding computed_from_def by blast
  have "pc_accounts c \<noteq> 0 \<and> pc_uncovered c = 0 \<and> pc_statement_gaps c = 0"
    using assms(2) unfolding controls diagnostic_ready_iff by simp
  then have all: "pi_reconciliations i \<noteq> []" "\<forall>a \<in> set (pi_reconciliations i). av_coverage a = ''covered'' \<and> av_lineage a = Some ''complete''"
    by (auto simp: c period_counts_of_def split: if_splits)
  have "av_statement a \<noteq> None \<and> av_version a \<noteq> None \<and> av_state a = Some ''balanced''"
    if a: "a \<in> set (pi_reconciliations i)" for a
  proof -
    obtain acc where acc: "a = account_view_of s e (pi_sources i) assessments statements acc" using a accounts by auto
    then show ?thesis using all(2) a
      by (auto simp: account_view_of_def Let_def coverage_state_def split: option.splits if_splits)
  qed
  then show ?thesis using all by blast
qed

lemma snapshot_ready:
  assumes "sources_known tb" "exact_period sv tb s e = Inr period" "cz_snapshot c = build_snapshot p (build_manifest period)"
    and "cz_schema c = SNAPSHOT_SCHEMA_VERSION" "cz_packet c = pk_id p" "cz_digest c = pk_digest p"
  shows "snapshot_refusal c p = None \<longleftrightarrow> period_ready tb (e, s)"
proof -
  note ready = exact_period_ready [OF assms(1,2)]
  from ready obtain counts where comp: "computed_from period counts" by blast
  have shape: "sn_controls (cz_snapshot c) = mf_controls (build_manifest period)" "sn_sources (cz_snapshot c) = mf_sources (build_manifest period)"
    "sn_accounts (cz_snapshot c) = mf_accounts (build_manifest period)"
    by (simp_all add: assms(3) build_snapshot_def)
  show ?thesis
  proof
    assume "snapshot_refusal c p = None"
    then have "diagnostic_ready (pi_controls period)"
      by (intro passing_controls) (auto simp: shape snapshot_refusal_def Let_def split: if_splits)
    then show "period_ready tb (e, s)" using ready by blast
  next
    assume "period_ready tb (e, s)"
    then have diag: "diagnostic_ready (pi_controls period)" using ready by blast
    note src = ready_sources [OF comp diag] and acc = ready_accounts [OF comp diag] and ctl = control_states [OF comp diag]
    have controls: "pi_controls period = controls_of counts" using comp by (simp add: computed_from_def)
    have "mset (map fc_code (mf_controls (build_manifest period))) = mset (map cl_code (controls_of counts))"
      by (simp add: build_manifest_def controls manifest_control_of_def multiset.map_comp comp_def)
    then have "sort (map fc_code (mf_controls (build_manifest period))) = CLOSE_CONTROLS"
      using close_control_codes [of counts] unfolding sort_eq_iff [symmetric] by simp
    moreover have "length (mf_controls (build_manifest period)) = 16"
      by (simp add: build_manifest_def controls controls_of_def)
    moreover have "mf_sources (build_manifest period) \<noteq> []" "mf_accounts (build_manifest period) \<noteq> []"
      using src acc by (simp_all add: build_manifest_def)
    moreover have "\<forall>x \<in> set (mf_controls (build_manifest period)). \<not> ((fc_code x = ''product_close'' \<and> fc_state x \<noteq> ''unavailable'')
         \<or> (fc_code x \<noteq> ''product_close'' \<and> fc_state x \<noteq> ''pass''))"
      using ctl by auto
    moreover have "\<forall>x \<in> set (mf_sources (build_manifest period)). \<not> (fs_state x \<noteq> ''satisfied'' \<or> differs (fs_dataset_state x) ''published''
         \<or> differs (fs_completeness x) ''verified'' \<or> differs (fs_lineage x) ''complete'' \<or> fs_rejected x \<noteq> 0)"
      using src by (auto simp: build_manifest_def manifest_source_of_def differs_def)
    moreover have "\<forall>x \<in> set (mf_accounts (build_manifest period)). \<not> (fa_statement x = None \<or> fa_version x = None
         \<or> differs (fa_state x) ''balanced'' \<or> differs (fa_lineage x) ''complete'' \<or> fa_coverage x \<noteq> ''covered'')"
      using acc by (auto simp: build_manifest_def manifest_account_of_def differs_def)
    ultimately show "snapshot_refusal c p = None"
      unfolding snapshot_refusal_def Let_def shape
      by (simp add: list_ex_iff assms(3-6) build_snapshot_def)
  qed
qed

text \<open>Digests of manifests and snapshots exist; the event of a close fits the bound of an audit detail.\<close>

fun printable :: "pyval \<Rightarrow> bool" where
  "printable (PDec d) = False"
| "printable (PList xs) = list_all printable xs"
| "printable (PDict kvs) = list_all (\<lambda>kv. printable (snd kv)) kvs"
| "printable v = True"

lemma map_result_exists: "\<forall>x \<in> set xs. \<exists>y. f x = Inr y \<Longrightarrow> \<exists>ys. map_result f xs = Inr ys"
  by (induction xs) auto

lemma json_dump_printable: "printable v \<Longrightarrow> \<exists>t. json_dump v = Inr t"
proof (induction v rule: printable.induct)
  case (2 xs)
  then have "\<exists>ts. map_result json_dump xs = Inr ts" by (intro map_result_exists) (auto simp: list_all_iff)
  then show ?case by auto
next
  case (3 kvs)
  then have "\<exists>ts. map_result (\<lambda>kv. rbind (json_dump (snd kv)) (\<lambda>t. Inr (fst kv, t))) kvs = Inr ts"
    by (intro map_result_exists) (auto simp: list_all_iff rbind_Inr_iff)
  then show ?case by auto
qed simp_all

lemma close_digest_printable:
  assumes "list_all (\<lambda>kv. printable (snd kv)) payload"
  obtains t where "close_digest sv payload = Inr (sv_sha sv t)"
  using json_dump_printable [of "PDict payload"] assms that by (auto simp: close_digest_def lifted_def digest_def canonical_json_def)

lemma printable_rows: "printable (control_json c)" "printable (source_json s)" "printable (account_json a)"
  by (simp_all add: control_json_def source_json_def account_json_def opt_text_def split: option.split)

lemma printable_snapshot: "list_all (\<lambda>kv. printable (snd kv)) (snapshot_json s)"
  by (simp add: snapshot_json_def list_all_iff printable_rows)

lemma length_py_join: "length (py_join sep xs) \<le> sum_list (map (\<lambda>x. length x + length sep) xs)"
  by (induction sep xs rule: py_join.induct) simp_all

lemma audit_recorded:
  assumes "map_result dump_item (sort_key fst (au_detail e)) = Inr items" "sum_list (map (\<lambda>(k, t). 6 * length k + length t + 6) items) \<le> 2000"
    and "au_id e \<notin> au_id ` set (kl_audits led)"
  shows "record_close_audit led e = Inr (led\<lparr>kl_audits := kl_audits led @ [e]\<rparr>)"
proof -
  define t where "t = ''{'' @ py_join '', '' (map (\<lambda>(k, t). json_string k @ '': '' @ t) items) @ ''}''"
  have "sum_list (map (\<lambda>x. length x + length '', '') (map (\<lambda>(k, t). json_string k @ '': '' @ t) items))
      \<le> sum_list (map (\<lambda>(k, t). 6 * length k + length t + 6) items)"
    unfolding map_map by (rule sum_list_mono) (use json_string_len in \<open>auto simp: split_beta intro: le_trans\<close>)
  then have "length t \<le> 2002"
    using length_py_join [of "'', ''" "map (\<lambda>(k, t). json_string k @ '': '' @ t) items"] assms(2) by (simp add: t_def)
  then have "\<not> utf8_size t > MAX_AUDIT_DETAIL_BYTES" using utf8_size_le [of t] by (simp add: MAX_AUDIT_DETAIL_BYTES_def)
  moreover have "audit_payload (au_detail e) = Inr t" by (simp add: audit_payload_def assms(1) t_def)
  ultimately show ?thesis using assms(3) by (simp add: record_close_audit_def record_audit_def lifted_def)
qed

lemma length_isoformat: "valid_date d \<Longrightarrow> length (isoformat d) = 10"
proof (cases d)
  case (Date y m x)
  assume v: "valid_date d"
  have "days_in_month y m \<le> 31" by (simp add: days_in_month_def)
  then have "y < 10 ^ 4" "m < 10 ^ 2" "x < 10 ^ 2" using v by (auto simp: Date)
  moreover have "n < 10 ^ w \<Longrightarrow> 0 < w \<Longrightarrow> length (pad w n) = w" for n w
    by (simp add: pad_def pad_left_def [symmetric] length_pad_left length_show_nat)
  ultimately show ?thesis by (simp add: Date)
qed

lemma length_uuid_text: "length (uuid_text n) = 36"
  by (simp add: uuid_text_def Let_def)

lemma length_canonical_uuid: "canonical_uuid i = Some t \<Longrightarrow> length t = 36"
  by (auto simp: canonical_uuid_def length_uuid_text)

text \<open>What a command that closes may take for granted: a packet it can read, a new key, new identifiers, known people.\<close>

definition closable_now :: "services \<Rightarrow> people \<Rightarrow> close_ledger \<Rightarrow> fresh \<Rightarrow> string \<Rightarrow> string \<Rightarrow> packet_row \<Rightarrow> bool" where
  "closable_now sv pp led fr actor key p = (p \<in> set (kl_packets led) \<and> canonical_uuid (pk_id p) = Some (pk_id p)
     \<and> valid_date (pk_start p) \<and> valid_date (pk_end p) \<and> pk_start p \<le> pk_end p \<and> digest_shape (pk_digest p)
     \<and> known_subject pp (pk_author p) \<and> known_subject pp (pk_reviewer p) \<and> known_subject pp actor
     \<and> rx_match Reconciliation.IDEMPOTENCY_KEY key \<and> review_receipt (kl_period_receipts led) actor key = None
     \<and> canonical_uuid (fr_id fr) = Some (fr_id fr) \<and> fr_id fr \<notin> cz_id ` set (kl_closes led) \<and> fr_audit fr \<notin> au_id ` set (kl_audits led)
     \<and> (\<forall>t. digest_shape (sv_sha sv t)) \<and> next_close_version led (pk_start p) (pk_end p) < 10 ^ 10)"

lemma known_subject_name: "known_subject pp i \<Longrightarrow> \<exists>n. subject_name pp i = Some n"
proof -
  assume "known_subject pp i"
  then have "find (\<lambda>s. su_id s = i) (pp_subjects pp) \<noteq> None" by (auto simp: known_subject_def find_None_iff)
  then show ?thesis by (auto simp: subject_name_def)
qed

lemma packet_known:
  assumes "close_ok led" "p \<in> set (kl_packets led)"
  shows "packet_by_id led (pk_id p) = Some p"
proof (cases "packet_by_id led (pk_id p)")
  case None
  then show ?thesis using assms(2) by (auto simp: packet_by_id_def find_None_iff)
next
  case (Some q)
  then have "q \<in> set (kl_packets led)" "pk_id q = pk_id p" using find_SomeD [OF Some [unfolded packet_by_id_def]] by simp_all
  moreover have "distinct (map pk_id (kl_packets led))" using assms(1) by (simp add: close_ok_def)
  ultimately show ?thesis using Some assms(2) same_row [of pk_id "kl_packets led" q p] by simp
qed

lemma load_packet_known:
  assumes "close_ok led" "closable_now sv pp led fr actor key p"
  obtains v where "load_packet sv pp led (pk_id p) False = Inr (Some v)" "pv_packet v = p" "pv_decision v = packet_decision_of led (pk_id p)"
proof -
  have found: "packet_by_id led (pk_id p) = Some p" using assms by (intro packet_known) (auto simp: closable_now_def)
  obtain a r where "subject_name pp (pk_author p) = Some a" "subject_name pp (pk_reviewer p) = Some r"
    using assms(2) known_subject_name [of pp "pk_author p"] known_subject_name [of pp "pk_reviewer p"] by (auto simp: closable_now_def)
  then have "\<exists>v. packet_view_of sv pp led False p = [v] \<and> pv_packet v = p \<and> pv_decision v = packet_decision_of led (pk_id p)"
    by (simp add: packet_view_of_def Let_def)
  then obtain v where v: "packet_view_of sv pp led False p = [v]" "pv_packet v = p" "pv_decision v = packet_decision_of led (pk_id p)" by blast
  have "canonical_uuid (pk_id p) = Some (pk_id p)" using assms(2) by (simp add: closable_now_def)
  with found v(1) have "load_packet sv pp led (pk_id p) False = Inr (Some v)" by (simp add: load_packet_def close_uuid_def)
  from that [OF this v(2,3)] show ?thesis .
qed

lemma next_close_version_new:
  "1 \<le> next_close_version led s e" "(s, e, next_close_version led s e) \<notin> (\<lambda>x. (cz_start x, cz_end x, cz_version x)) ` set (kl_closes led)"
proof -
  have "cz_version x < next_close_version led s e" if "x \<in> set (kl_closes led)" "cz_start x = s" "cz_end x = e" for x
  proof -
    have "cz_version x \<le> Max (insert 0 (set (map cz_version (filter (\<lambda>c. cz_start c = s \<and> cz_end c = e) (kl_closes led)))))"
      using that by (intro Max_ge) auto
    then show ?thesis by (simp add: next_close_version_def)
  qed
  then show "(s, e, next_close_version led s e) \<notin> (\<lambda>x. (cz_start x, cz_end x, cz_version x)) ` set (kl_closes led)" by fastforce
qed (simp add: next_close_version_def)

lemma write_close_outcome:
  assumes "close_ok led" "closable_now sv pp led fr actor key p" "digest_shape dig" "digest_shape current"
  obtains c where "cz_start c = pk_start p" "cz_end c = pk_end p" "cz_packet c = pk_id p" "cz_digest c = current" "cz_by c = actor"
    "cz_schema c = SNAPSHOT_SCHEMA_VERSION" "cz_snapshot c = build_snapshot p m" "cz_version c = next_close_version led (pk_start p) (pk_end p)"
    "is_ok (rbind (write_close sv pp led fr actor key dig p m current) (read_close sv pp message (fr_id fr)))
      \<longleftrightarrow> pk_id p \<notin> cz_packet ` set (kl_closes led) \<and> close_trigger led c = Inr ()"
proof -
  note now = assms(2) [unfolded closable_now_def]
  let ?v = "next_close_version led (pk_start p) (pk_end p)"
  obtain t where sd: "close_digest sv (snapshot_json (build_snapshot p m)) = Inr (sv_sha sv t)"
    by (rule close_digest_printable [OF printable_snapshot])
  define c where "c = \<lparr>cz_id = fr_id fr, cz_start = pk_start p, cz_end = pk_end p, cz_version = ?v, cz_packet = pk_id p,
    cz_digest = current, cz_schema = SNAPSHOT_SCHEMA_VERSION, cz_snapshot = build_snapshot p m, cz_snapshot_digest = sv_sha sv t,
    cz_by = actor, cz_at = fr_now fr, cz_audit = fr_audit fr\<rparr>"
  define e where "e = audit_of fr actor ''accounting.period.close'' ''accounting_period'' (fr_id fr)
         [(''period_start'', PStr (isoformat (pk_start p))), (''period_end'', PStr (isoformat (pk_end p))), (''version'', PInt (int ?v)),
          (''packet_id'', PStr (pk_id p)), (''manifest_digest'', PStr current), (''snapshot_digest'', PStr (sv_sha sv t))]"
  have "map_result dump_item (sort_key fst (au_detail e)) = Inr
      [(''manifest_digest'', json_string current), (''packet_id'', json_string (pk_id p)), (''period_end'', json_string (isoformat (pk_end p))),
       (''period_start'', json_string (isoformat (pk_start p))), (''snapshot_digest'', json_string (sv_sha sv t)), (''version'', show_int (int ?v))]"
    by (simp add: e_def audit_of_def dump_item_def)
  moreover have "length (show_int (int ?v)) \<le> 10" using now by (simp add: show_int_def length_show_nat)
  moreover have "length current = 64" "length (sv_sha sv t) = 64" "length (pk_id p) = 36"
    using assms(4) now length_canonical_uuid by (auto simp: digest_shape_def)
  moreover have "length (isoformat (pk_start p)) = 10" "length (isoformat (pk_end p)) = 10" using now length_isoformat by simp_all
  ultimately have audit: "record_close_audit led e = Inr (led\<lparr>kl_audits := kl_audits led @ [e]\<rparr>)"
    using json_string_len [of current] json_string_len [of "sv_sha sv t"] json_string_len [of "pk_id p"]
      json_string_len [of "isoformat (pk_start p)"] json_string_len [of "isoformat (pk_end p)"] now
    by (intro audit_recorded) (auto simp: e_def audit_of_def)
  define r where "r = \<lparr>rc_actor = actor, rc_action = ''close'', rc_key = key, rc_digest = dig, rc_kind = ''close'', rc_ref = fr_id fr\<rparr>"
  let ?mid = "led\<lparr>kl_audits := kl_audits led @ [e]\<rparr>" and ?final = "led\<lparr>kl_audits := kl_audits led @ [e], kl_closes := kl_closes led @ [c],
      kl_period_receipts := kl_period_receipts led @ [r]\<rparr>"
  have run: "write_close sv pp led fr actor key dig p m current = rbind (insert_close pp ?mid c) (\<lambda>l. insert_period_receipt l r)"
    unfolding write_close_def sd rbind_simps Let_def e_def [symmetric] audit c_def [symmetric] r_def [symmetric] ..
  have insert: "insert_close pp ?mid c = Inr l \<longleftrightarrow> close_trigger led c = Inr () \<and> pk_id p \<notin> cz_packet ` set (kl_closes led)
      \<and> l = ?mid\<lparr>kl_closes := kl_closes led @ [c]\<rparr>" for l
    unfolding insert_close_Inr close_trigger_audit using now next_close_version_new assms(4)
    by (auto simp: c_def e_def audit_of_def)
  have receipt: "insert_period_receipt (?mid\<lparr>kl_closes := kl_closes led @ [c]\<rparr>) r = Inr ?final"
    using now assms(3) by (simp add: insert_period_receipt_def receipt_checked_def r_def review_receipt_def find_None_iff) blast
  have "fr_id fr \<notin> cz_id ` set (kl_closes led)" using now by blast
  then have "find (\<lambda>c. cz_id c = fr_id fr) (kl_closes led) = None" unfolding find_None_iff by (metis image_eqI)
  then have "close_by_id ?final (fr_id fr) = Some c" by (simp add: close_by_id_def find_append c_def)
  moreover obtain n where "subject_name pp actor = Some n" using now known_subject_name by blast
  ultimately have "\<exists>v. read_close sv pp message (fr_id fr) ?final = Inr (v, ?final)"
    using now by (simp add: read_close_def load_close_def period_uuid_def close_view_of_def c_def)
  then have "is_ok (rbind (write_close sv pp led fr actor key dig p m current) (read_close sv pp message (fr_id fr)))
      \<longleftrightarrow> pk_id p \<notin> cz_packet ` set (kl_closes led) \<and> close_trigger led c = Inr ()"
    unfolding is_ok_iff run rbind_Inr_iff insert using receipt by auto
  then show ?thesis by (rule that [rotated -1]) (simp_all add: c_def)
qed

lemma close_trigger_outcome:
  assumes "close_ok led" "closable_now sv pp led fr actor key p" "packet_decision_of led (pk_id p) = Some d"
    and "pd_decision d = ''evidence_reviewed''" "pd_by d = actor"
    and "sources_known tb" "exact_period sv tb (pk_start p) (pk_end p) = Inr period"
    and c: "cz_start c = pk_start p" "cz_end c = pk_end p" "cz_packet c = pk_id p" "cz_digest c = pk_digest p" "cz_by c = actor"
      "cz_schema c = SNAPSHOT_SCHEMA_VERSION" "cz_snapshot c = build_snapshot p (build_manifest period)"
      "cz_version c = next_close_version led (pk_start p) (pk_end p)"
  shows "close_trigger led c = Inr () \<longleftrightarrow> period_ready tb (pk_end p, pk_start p)
    \<and> (\<forall>n \<in> set (kl_packets led). pk_start n = pk_start p \<and> pk_end n = pk_end p \<longrightarrow> pk_version n \<le> pk_version p)
    \<and> \<not> accounting_period_is_closed led (pk_start p) (pk_end p)"
proof -
  have p: "packet_by_id led (pk_id p) = Some p"
    using assms(1,2) by (intro packet_known) (auto simp: closable_now_def)
  have d: "d \<in> set (kl_decisions led)" "pd_packet d = pk_id p" using find_SomeD [OF assms(3) [unfolded packet_decision_of_def]] by simp_all
  then obtain q where q: "q \<in> set (kl_packets led)" "pd_packet d = pk_id q" "pd_by d \<noteq> pk_author q" "pd_digest d = pk_digest q"
    using assms(1) unfolding close_ok_def decision_ok_def by blast
  have dist: "distinct (map pk_id (kl_packets led))" "distinct (map pd_packet (kl_decisions led))" and "p \<in> set (kl_packets led)"
    using assms(1,2) by (simp_all add: close_ok_def closable_now_def)
  then have "q = p" using q(1,2) d(2) same_row [OF dist(1), of q p] by simp
  with q assms(5) have qp: "pk_author p \<noteq> actor" "pd_digest d = pk_digest p" by simp_all
  have uniq: "x = d" if "x \<in> set (kl_decisions led)" "pd_packet x = pk_id p" for x
    using that d same_row [OF dist(2), of x d] by simp
  have found: "find (\<lambda>d. pd_packet d = pk_id p \<and> pd_decision d = ''evidence_reviewed'' \<and> pd_digest d = pk_digest p) (kl_decisions led) = Some d"
  proof (cases "find (\<lambda>d. pd_packet d = pk_id p \<and> pd_decision d = ''evidence_reviewed'' \<and> pd_digest d = pk_digest p) (kl_decisions led)")
    case None
    then show ?thesis using d qp(2) assms(4) unfolding find_None_iff by blast
  next
    case (Some x)
    from find_SomeD [OF this] have "x = d" by (intro uniq) simp_all
    then show ?thesis using Some by simp
  qed
  have "close_trigger led c = Inr () \<longleftrightarrow>
      \<not> list_ex (\<lambda>n. pk_start n = pk_start p \<and> pk_end n = pk_end p \<and> pk_version p < pk_version n) (kl_packets led)
      \<and> \<not> accounting_period_is_closed led (pk_start p) (pk_end p) \<and> snapshot_refusal c p = None"
    unfolding close_trigger_def c p found using qp assms(5)
    by (simp only: option.case prod.case failed_guard simp_thms) (auto split: option.splits)
  then show ?thesis
    using snapshot_ready [OF assms(6,7) c(7,6,3,4)] by (auto simp: list_ex_iff not_less)
qed

lemma close_period_run:
  assumes "close_ok led" "closable_now sv pp led fr actor key p" "packet_decision_of led (pk_id p) = Some d"
    and "pd_decision d = ''evidence_reviewed''" "pd_by d = actor"
  obtains t where "close_period sv pp tb led fr actor key (pk_id p) = rbind (current_manifest sv tb (pk_start p) (pk_end p)) (\<lambda>(m, current).
     if current \<noteq> pk_digest p
     then Inl (ClosePeriodError ''accounting-period-evidence-stale'' ''period evidence changed after review; create a new packet'')
     else rbind (write_close sv pp led fr actor key (sv_sha sv t) p m current)
       (read_close sv pp ''created accounting period close cannot be read back'' (fr_id fr)))"
proof -
  note now = assms(2) [unfolded closable_now_def]
  obtain v where v: "load_packet sv pp led (pk_id p) False = Inr (Some v)" "pv_packet v = p" "pv_decision v = packet_decision_of led (pk_id p)"
    by (rule load_packet_known [OF assms(1,2)])
  obtain t where t: "close_digest sv [(''packet_id'', PStr (pk_id p))] = Inr (sv_sha sv t)"
    by (rule close_digest_printable [of "[(''packet_id'', PStr (pk_id p))]"]) simp_all
  have d: "d \<in> set (kl_decisions led)" "pd_packet d = pk_id p" using find_SomeD [OF assms(3) [unfolded packet_decision_of_def]] by simp_all
  then obtain q where q: "q \<in> set (kl_packets led)" "pd_packet d = pk_id q" "pd_by d \<noteq> pk_author q"
    using assms(1) unfolding close_ok_def decision_ok_def by blast
  have "distinct (map pk_id (kl_packets led))" using assms(1) by (simp add: close_ok_def)
  from same_row [OF this q(1), of p] have "q = p" using now d(2) q(2) by simp
  with q(3) assms(5) have "pk_author p \<noteq> actor" by simp
  then show thesis
    using now assms(3-5)
    by (intro that [of t]) (simp add: close_period_def period_uuid_def period_command_key_def t period_replay_def v, unfold v(2), rule refl)
qed

lemma close_refused_unreviewed:
  assumes "close_ok led" "closable_now sv pp led fr actor key p"
    and "\<not> (\<exists>d. packet_decision_of led (pk_id p) = Some d \<and> pd_decision d = ''evidence_reviewed'' \<and> pd_by d = actor)"
  shows "\<not> is_ok (close_period sv pp tb led fr actor key (pk_id p))"
proof -
  note now = assms(2) [unfolded closable_now_def]
  obtain v where v: "load_packet sv pp led (pk_id p) False = Inr (Some v)" "pv_packet v = p" "pv_decision v = packet_decision_of led (pk_id p)"
    by (rule load_packet_known [OF assms(1,2)])
  obtain t where t: "close_digest sv [(''packet_id'', PStr (pk_id p))] = Inr (sv_sha sv t)"
    by (rule close_digest_printable [of "[(''packet_id'', PStr (pk_id p))]"]) simp_all
  show ?thesis
    using now assms(3) by (auto simp: close_period_def period_uuid_def period_command_key_def t period_replay_def v split: option.splits)
qed

lemma close_outcome:
  assumes "closing_reaches sv empty_close_ledger led" "sources_known tb" "closable_now sv pp led fr actor key p"
  shows "is_ok (close_period sv pp tb led fr actor key (pk_id p)) \<longleftrightarrow>
     (\<exists>d. packet_decision_of led (pk_id p) = Some d \<and> pd_decision d = ''evidence_reviewed'' \<and> pd_by d = actor)
     \<and> (\<exists>period. exact_period sv tb (pk_start p) (pk_end p) = Inr period
        \<and> close_digest sv (manifest_json (build_manifest period)) = Inr (pk_digest p))
     \<and> period_ready tb (pk_end p, pk_start p)
     \<and> (\<forall>n \<in> set (kl_packets led). pk_start n = pk_start p \<and> pk_end n = pk_end p \<longrightarrow> pk_version n \<le> pk_version p)
     \<and> pk_id p \<notin> cz_packet ` set (kl_closes led) \<and> \<not> accounting_period_is_closed led (pk_start p) (pk_end p)"
    (is "?ok \<longleftrightarrow> ?reviewed \<and> ?current \<and> ?ready \<and> ?latest \<and> ?unused \<and> ?free")
proof (cases ?reviewed)
  case False
  then show ?thesis using close_refused_unreviewed [OF closing_ok [OF assms(1)] assms(3)] by blast
next
  case True
  then obtain d where d: "packet_decision_of led (pk_id p) = Some d" "pd_decision d = ''evidence_reviewed''" "pd_by d = actor" by blast
  note ok = closing_ok [OF assms(1)]
  obtain t where run: "close_period sv pp tb led fr actor key (pk_id p) = rbind (current_manifest sv tb (pk_start p) (pk_end p)) (\<lambda>(m, current).
     if current \<noteq> pk_digest p
     then Inl (ClosePeriodError ''accounting-period-evidence-stale'' ''period evidence changed after review; create a new packet'')
     else rbind (write_close sv pp led fr actor key (sv_sha sv t) p m current)
       (read_close sv pp ''created accounting period close cannot be read back'' (fr_id fr)))"
    by (rule close_period_run [OF ok assms(3) d])
  show ?thesis
  proof (cases ?current)
    case False
    then have "\<not> ?ok"
      unfolding run is_ok_iff by (auto simp: current_manifest_def rbind_Inr_iff guard_Inr)
    then show ?thesis using False by blast
  next
    case True
    then obtain period where period: "exact_period sv tb (pk_start p) (pk_end p) = Inr period"
      "close_digest sv (manifest_json (build_manifest period)) = Inr (pk_digest p)" by blast
    have shapes: "digest_shape (sv_sha sv t)" "digest_shape (pk_digest p)" using assms(3) by (simp_all add: closable_now_def)
    obtain c where c: "cz_start c = pk_start p" "cz_end c = pk_end p" "cz_packet c = pk_id p" "cz_digest c = pk_digest p" "cz_by c = actor"
      "cz_schema c = SNAPSHOT_SCHEMA_VERSION" "cz_snapshot c = build_snapshot p (build_manifest period)"
      "cz_version c = next_close_version led (pk_start p) (pk_end p)"
      and made: "is_ok (rbind (write_close sv pp led fr actor key (sv_sha sv t) p (build_manifest period) (pk_digest p))
        (read_close sv pp ''created accounting period close cannot be read back'' (fr_id fr)))
        \<longleftrightarrow> pk_id p \<notin> cz_packet ` set (kl_closes led) \<and> close_trigger led c = Inr ()"
      by (rule write_close_outcome [OF ok assms(3) shapes])
    have "?ok \<longleftrightarrow> pk_id p \<notin> cz_packet ` set (kl_closes led) \<and> close_trigger led c = Inr ()"
      unfolding run using made by (simp add: current_manifest_def period)
    also have "\<dots> \<longleftrightarrow> ?unused \<and> ?ready \<and> ?latest \<and> ?free"
      unfolding close_trigger_outcome [OF ok assms(3) d assms(2) period(1) c] by blast
    finally show ?thesis using True \<open>?reviewed\<close> by blast
  qed
qed

text \<open>C13. A close of a packet, with a new key, is made exactly when the one who makes it reviewed the packet as ready, the diagnosis of
  the tables still has the digest of the packet and is ready, no newer packet of the period exists, the packet was not
  closed before and no active close shares a day with it.\<close>

theorem period_closes_exactly_when:
  assumes "closing_reaches sv empty_close_ledger led" "sources_known tb" "closable_now sv pp led fr actor key p"
  shows "is_ok (close_period sv pp tb led fr actor key (pk_id p)) \<longleftrightarrow>
     (\<exists>d. packet_decision_of led (pk_id p) = Some d \<and> pd_decision d = ''evidence_reviewed'' \<and> pd_by d = actor)
     \<and> (\<exists>period. exact_period sv tb (pk_start p) (pk_end p) = Inr period
        \<and> close_digest sv (manifest_json (build_manifest period)) = Inr (pk_digest p))
     \<and> period_ready tb (pk_end p, pk_start p)
     \<and> (\<forall>n \<in> set (kl_packets led). pk_start n = pk_start p \<and> pk_end n = pk_end p \<longrightarrow> pk_version n \<le> pk_version p)
     \<and> pk_id p \<notin> cz_packet ` set (kl_closes led) \<and> \<not> accounting_period_is_closed led (pk_start p) (pk_end p)"
  by (rule close_outcome [OF assms])

lemma close_period_new:
  assumes "close_ok led" "closable_now sv pp led fr actor key p" "packet_decision_of led (pk_id p) = Some d"
    and "pd_decision d = ''evidence_reviewed''" "pd_by d = actor" "close_period sv pp tb led fr actor key (pk_id p) = Inr (v, b)"
  obtains c where "kl_closes b = kl_closes led @ [c]" "cz_start c = pk_start p" "cz_end c = pk_end p" "cz_id c = fr_id fr"
    "cz_by c = actor" "kl_requests b = kl_requests led" "kl_reopens b = kl_reopens led"
    "map au_id (kl_audits b) = map au_id (kl_audits led) @ [fr_audit fr]"
    "map rc_actor (kl_period_receipts b) = map rc_actor (kl_period_receipts led) @ [actor]"
proof -
  obtain t where run: "close_period sv pp tb led fr actor key (pk_id p) = rbind (current_manifest sv tb (pk_start p) (pk_end p)) (\<lambda>(m, current).
     if current \<noteq> pk_digest p
     then Inl (ClosePeriodError ''accounting-period-evidence-stale'' ''period evidence changed after review; create a new packet'')
     else rbind (write_close sv pp led fr actor key (sv_sha sv t) p m current)
       (read_close sv pp ''created accounting period close cannot be read back'' (fr_id fr)))"
    by (rule close_period_run [OF assms(1-5)])
  obtain m where "write_close sv pp led fr actor key (sv_sha sv t) p m (pk_digest p) = Inr b"
    using assms(6) unfolding run by (auto simp: rbind_Inr_iff guard_Inr read_close_def split: option.splits)
  then show thesis by (rule write_close_Inr) (rule that, simp_all)
qed

section \<open>A company that closes March\<close>

definition period_tables :: close_tables where
  "period_tables = \<lparr>tb_expectations = [sample_expectation], tb_sources = [(''s1'', ''Banco'')],
     tb_accounts = [(''acc'', ''bank_account'', ''Cuenta'')], tb_datasets = [sample_published],
     tb_movements = [\<lparr>dm_id = ''m1'', dm_dataset = ds_a, dm_accounting = Some (Date 2026 3 5)\<rparr>],
     tb_reviews = empty_ledger, tb_issues = [], tb_overlays = [], tb_overlay_reviews = [], tb_applied = [],
     tb_balances = [\<lparr>ab_dataset = ds_a, ab_account = ''acc'', ab_type = ''closing'', ab_date = Date 2026 3 31, ab_lineage = ''complete''\<rparr>],
     tb_assessments = [\<lparr>am_id = ''as1'', am_expectation = ''x1'', am_dataset = ds_a, am_account = Some ''acc'', am_state = ''verified'',
       am_lineage = ''complete'', am_created = 1\<rparr>],
     tb_roots = [\<lparr>sr_id = ''root'', sr_account = ''acc'', sr_start = Date 2026 3 1, sr_end = Date 2026 3 31\<rparr>],
     tb_statements = [\<lparr>st_id = ''st1'', st_root = ''root'', st_account = ''acc'', st_start = Date 2026 3 1, st_end = Date 2026 3 31,
       st_version = 1, st_state = ''balanced'', st_lineage = ''complete'', st_assessments = [''as1''], st_created = 3\<rparr>],
     tb_collation = length\<rparr>"

definition period_sample :: period_row where
  "period_sample = (sample_expectation, ''Banco'', Some sample_published, Some (''bank_account'', ''Cuenta''))"

definition source_sample :: source_view where
  "source_sample = row_source sample_services period_sample"

definition account_sample :: account_view where
  "account_sample = \<lparr>av_account = ''acc'', av_name = Some ''Cuenta'', av_sources = 1, av_assessments = 1, av_root = Some ''root'',
     av_statement = Some ''st1'', av_version = Some 1, av_state = Some ''balanced'', av_lineage = Some ''complete'', av_coverage = ''covered''\<rparr>"

definition counts_sample :: period_counts where
  "counts_sample = \<lparr>pc_sources = 1, pc_pending = 0, pc_no_dataset = 0, pc_unpublished = 0, pc_incomplete = 0, pc_lineage_gaps = 0, pc_rejected = 0,
     pc_missing_dates = 0, pc_open_reviews = 0, pc_high_issues = 0, pc_corrections = 0, pc_observed = 1, pc_eligible = 1,
     pc_missing_assessments = 0, pc_accounts = 1, pc_uncovered = 0, pc_statement_gaps = 0\<rparr>"

lemma period_newest: "newest_periods period_tables CLOSE_READINESS_MAX = [march]"
  by (simp add: newest_periods_def period_tables_def sample_expectation_def march_def CLOSE_READINESS_MAX_def)

lemma period_known: "sources_known period_tables"
  by (simp add: sources_known_def period_tables_def sample_expectation_def)

lemma period_rows_sample: "period_rows period_tables CLOSE_READINESS_MAX = Inr [period_sample]"
  by (simp add: period_rows_def period_newest expectation_rows_def Let_def MAX_EXPECTATIONS_def)
    (simp add: period_tables_def sample_expectation_def march_def chosen_dataset_def sample_published_def period_sample_def)

lemma source_fields [simp]:
  "so_expectation source_sample = ''x1''" "so_source source_sample = ''s1''" "so_account source_sample = Some ''acc''"
  "so_state source_sample = ''satisfied''" "so_dataset source_sample = Some ds_a" "so_dataset_state source_sample = Some ''published''"
  "so_completeness source_sample = Some ''verified''" "so_lineage source_sample = Some ''complete''" "so_rejected source_sample = 0"
  "so_movements source_sample = 1" "so_family source_sample = Some ''bank_account''" "so_account_name source_sample = Some ''Cuenta''"
  by (simp_all add: source_sample_def period_sample_def row_source_def sample_expectation_def sample_published_def)

lemma assessment_sample: "eligible_assessment (assessment_checks period_tables [source_sample]) source_sample = Some ''as1''"
  by (simp add: eligible_assessment_def assessment_checks_def) (simp add: period_tables_def)

lemma statement_sample:
  "statement_checks period_tables [(Date 2026 3 1, Date 2026 3 31)] ''acc'' (Date 2026 3 1) (Date 2026 3 31) =
     Some (\<lparr>sr_id = ''root'', sr_account = ''acc'', sr_start = Date 2026 3 1, sr_end = Date 2026 3 31\<rparr>,
       \<lparr>st_id = ''st1'', st_root = ''root'', st_account = ''acc'', st_start = Date 2026 3 1, st_end = Date 2026 3 31,
       st_version = 1, st_state = ''balanced'', st_lineage = ''complete'', st_assessments = [''as1''], st_created = 3\<rparr>)"
  by (simp add: statement_checks_def period_tables_def)

lemma account_sample_view:
  "account_view_of (Date 2026 3 1) (Date 2026 3 31) [source_sample] (assessment_checks period_tables [source_sample])
     (statement_checks period_tables [(Date 2026 3 1, Date 2026 3 31)]) ''acc'' = account_sample"
  unfolding account_view_of_def Let_def statement_sample
  by (simp add: assessment_sample account_sample_def coverage_state_def)

lemma balance_sample:
  "balance_candidates (Date 2026 3 1) (Date 2026 3 31) (balance_checks period_tables [ds_a]) source_sample
    = [\<lparr>ab_dataset = ds_a, ab_account = ''acc'', ab_type = ''closing'', ab_date = Date 2026 3 31, ab_lineage = ''complete''\<rparr>]"
  by (simp add: balance_candidates_def balance_checks_def period_tables_def required_type_def less_eq_date_def)

lemma check_sample:
  "dataset_checks period_tables [ds_a] = [(ds_a, \<lparr>dc_missing_dates = 0, dc_open_candidates = [], dc_high_issues = [], dc_proposed = 0, dc_unapplied = 0\<rparr>)]"
  by (simp add: dataset_checks_def missing_accounting_dates_def open_candidates_def active_high_issues_def proposed_corrections_def
      unapplied_corrections_def) (simp add: period_tables_def empty_ledger_def)

lemma counts_sample_of:
  "period_counts_of (Date 2026 3 1) (Date 2026 3 31) [source_sample] (map snd (dataset_checks period_tables [ds_a]))
     (balance_checks period_tables [ds_a]) (assessment_checks period_tables [source_sample]) [account_sample] = counts_sample"
  by (simp add: period_counts_of_def counts_sample_def with_dataset_def how_many_def count_unique_def check_sample
      balance_observed_def balance_eligible_def balance_sample assessment_sample account_sample_def del: One_nat_def)

lemma sample_item:
  obtains item where "exact_period sample_services period_tables (Date 2026 3 1) (Date 2026 3 31) = Inr item"
    "pi_status item = ''ready_for_review''" "pi_controls item = controls_of counts_sample" "pi_sources item = [source_sample]"
    "pi_reconciliations item = [account_sample]"
proof -
  have ids: "sorted_set [ds_a] = [ds_a]" "expected_accounts [source_sample] = [''acc'']" by (simp_all add: sorted_set_def expected_accounts_def)
  have key: "xp_start (fst period_sample) = Date 2026 3 1" "xp_end (fst period_sample) = Date 2026 3 31" "row_source sample_services period_sample = source_sample"
    by (simp_all add: period_sample_def sample_expectation_def source_sample_def)
  have checks: "checks_of (dataset_checks period_tables [ds_a]) [source_sample] = Inr (map snd (dataset_checks period_tables [ds_a]))"
    by (simp add: checks_of_def dataset_checks_def)
  have ready: "diagnostic_ready (controls_of counts_sample)" by (simp add: diagnostic_ready_iff counts_sample_def)
  obtain item where item: "build_period (Date 2026 3 1) (Date 2026 3 31) [source_sample] (dataset_checks period_tables [ds_a])
      (balance_checks period_tables [ds_a]) (assessment_checks period_tables [source_sample])
      (statement_checks period_tables [(Date 2026 3 1, Date 2026 3 31)]) = Inr item"
    and fields: "pi_status item = ''ready_for_review''" "pi_controls item = controls_of counts_sample" "pi_sources item = [source_sample]"
    "pi_reconciliations item = [account_sample]" "pi_start item = isoformat (Date 2026 3 1)" "pi_end item = isoformat (Date 2026 3 31)"
    using checks ready by (simp add: build_period_def Let_def ids account_sample_view counts_sample_of del: One_nat_def)
  have "exact_period sample_services period_tables (Date 2026 3 1) (Date 2026 3 31) = Inr item"
    using fields(5,6) by (simp add: exact_period_def less_date_def list_close_readiness_def validated_limit_def CLOSE_READINESS_MAX_def
        period_rows_sample [unfolded CLOSE_READINESS_MAX_def] Let_def key grouped_def ids item del: One_nat_def)
  from that [OF this fields(1-4)] show thesis .
qed

definition ana_id :: string where "ana_id = uuid_text 6"
definition luis_id :: string where "luis_id = uuid_text 7"
definition eva_id :: string where "eva_id = uuid_text 8"
definition packet_id :: string where "packet_id = uuid_text 100"

definition closers :: people where
  "closers = \<lparr>pp_engagements = [\<lparr>en_firm = ''firm'', en_status = ''active'', en_valid_to = None\<rparr>],
     pp_memberships = [\<lparr>ms_firm = ''firm'', ms_subject = luis_id, ms_status = ''active'', ms_role = ''staff''\<rparr>],
     pp_subjects = [\<lparr>su_id = ana_id, su_name = ''Ana'', su_status = ''active'', su_kind = ''person''\<rparr>,
       \<lparr>su_id = luis_id, su_name = ''Luis'', su_status = ''active'', su_kind = ''person''\<rparr>,
       \<lparr>su_id = eva_id, su_name = ''Eva'', su_status = ''active'', su_kind = ''person''\<rparr>],
     pp_grants = [\<lparr>gt_subject = luis_id, gt_role = ''reviewer'', gt_revoked = False\<rparr>], pp_today = Date 2026 4 1, pp_collation = length\<rparr>"

lemma close_ids [simp]: "ana_id \<noteq> luis_id" "luis_id \<noteq> ana_id" "eva_id \<noteq> ana_id" "ana_id \<noteq> eva_id" "eva_id \<noteq> luis_id" "luis_id \<noteq> eva_id"
  "canonical_uuid luis_id = Some luis_id" "canonical_uuid packet_id = Some packet_id"
  by (simp_all add: ana_id_def luis_id_def eva_id_def packet_id_def canonical_uuid_text uuid_text_inject)

lemma closers_eligible [simp]: "is_close_reviewer_eligible closers luis_id"
  by (simp add: is_close_reviewer_eligible_def active_members_def closers_def active_engagement_def)

lemma closers_known [simp]: "known_subject closers ana_id" "known_subject closers luis_id" "known_subject closers eva_id"
  "subject_name closers ana_id = Some ''Ana''" "subject_name closers luis_id = Some ''Luis''"
  by (simp_all add: known_subject_def subject_name_def closers_def)

lemma key_matches_sample [simp]: "rx_match Reconciliation.IDEMPOTENCY_KEY key_one" "rx_match Reconciliation.IDEMPOTENCY_KEY key_two"
  using key_matches [OF sample_keys(1)] key_matches [OF sample_keys(2)] by simp_all

abbreviation sample_sha :: string where "sample_sha \<equiv> replicate 64 (CHR ''a'')"

lemma sample_shapes [simp]: "sv_sha sample_services t = sample_sha" "digest_shape sample_sha"
  using sample_digest [of t] by (simp_all add: sample_services_def)

definition march_packet :: "period_item \<Rightarrow> packet_row" where
  "march_packet item = \<lparr>pk_id = packet_id, pk_start = Date 2026 3 1, pk_end = Date 2026 3 31, pk_version = 1, pk_schema = MANIFEST_SCHEMA_VERSION,
     pk_manifest = build_manifest item, pk_digest = sample_sha, pk_status = ''ready_for_review'', pk_author = ana_id, pk_reviewer = luis_id,
     pk_at = 1, pk_audit = ''audit-1''\<rparr>"

lemma march_packet_simps [simp]:
  "pk_id (march_packet item) = packet_id" "pk_manifest (march_packet item) = build_manifest item" "pk_version (march_packet item) = 1"
  "pk_schema (march_packet item) = MANIFEST_SCHEMA_VERSION" "pk_status (march_packet item) = ''ready_for_review''"
  "pk_digest (march_packet item) = sample_sha" "pk_author (march_packet item) = ana_id" "pk_reviewer (march_packet item) = luis_id"
  "pk_start (march_packet item) = Date 2026 3 1" "pk_end (march_packet item) = Date 2026 3 31"
  by (simp_all add: march_packet_def)

lemma printable_manifest: "list_all (\<lambda>kv. printable (snd kv)) (manifest_json m)"
  by (simp add: manifest_json_def list_all_iff printable_rows)

lemma march_in_scope:
  assumes "pi_status item = ''ready_for_review''" "pi_controls item = controls_of counts_sample" "pi_sources item = [source_sample]"
    "pi_reconciliations item = [account_sample]"
  shows "packet_trigger closers period_tables (march_packet item) = Inr ()"
proof -
  have sources: "mf_sources (build_manifest item) = [manifest_source_of source_sample]" and
    accounts: "mf_accounts (build_manifest item) = [manifest_account_of account_sample]" and
    controls: "length (mf_controls (build_manifest item)) = 16"
    by (simp_all add: build_manifest_def assms controls_of_def)
  have states: "fc_state x \<in> {''pass'', ''unavailable''}" if "x \<in> set (mf_controls (build_manifest item))" for x
    using that
    by (auto simp: build_manifest_def assms controls_of_def manifest_control_of_def zero_control_def control_of_def counts_sample_def state_text_def)
  have source: "source_in_scope period_tables (march_packet item) (manifest_source_of source_sample)"
    by (simp add: source_in_scope_def period_tables_def march_packet_def manifest_source_of_def) (simp add: sample_expectation_def sample_published_def)
  have account: "account_refusal period_tables (march_packet item) (manifest_account_of account_sample) = None"
    by (simp add: account_refusal_def period_tables_def march_packet_def manifest_account_of_def account_sample_def differs_def)
  have "mf_schema (build_manifest item) = MANIFEST_SCHEMA_VERSION" "mf_status (build_manifest item) = ''ready_for_review''"
    by (simp_all add: build_manifest_def assms)
  moreover have "\<not> list_ex (\<lambda>c. fc_state c \<notin> set [''pass'', ''blocked'', ''unavailable'']) (mf_controls (build_manifest item))"
    using states by (fastforce simp: list_ex_iff)
  ultimately show ?thesis
    using source account by (simp add: packet_trigger_def Let_def sources accounts controls)
qed

lemma march_prepared:
  assumes "exact_period sample_services period_tables (Date 2026 3 1) (Date 2026 3 31) = Inr item"
    and "pi_status item = ''ready_for_review''" "pi_controls item = controls_of counts_sample" "pi_sources item = [source_sample]"
    "pi_reconciliations item = [account_sample]"
  obtains v led where "prepare_packet sample_services closers period_tables empty_close_ledger fresh_one ana_id key_one
      (Date 2026 3 1) (Date 2026 3 31) luis_id = Inr (v, led)" "kl_packets led = [march_packet item]" "kl_decisions led = []"
    "map au_id (kl_audits led) = [''audit-1'']" "map rc_actor (kl_receipts led) = [ana_id]" "kl_closes led = []" "kl_period_receipts led = []"
proof -
  define e where "e = audit_of fresh_one ana_id ''close.review.prepare'' ''close_review_packet'' packet_id
        [(''period_start'', PStr (isoformat (Date 2026 3 1))), (''period_end'', PStr (isoformat (Date 2026 3 31))),
         (''version'', PInt 1), (''diagnostic_status'', PStr ''ready_for_review''), (''manifest_digest'', PStr sample_sha)]"
  have v: "next_packet_version empty_close_ledger s x = 1" for s x by (simp add: next_packet_version_def empty_close_ledger_def)
  have m: "mf_status (build_manifest item) = ''ready_for_review''" by (simp add: build_manifest_def assms)
  have "map_result dump_item (sort_key fst (au_detail e)) = Inr
      [(''diagnostic_status'', json_string ''ready_for_review''), (''manifest_digest'', json_string sample_sha),
       (''period_end'', json_string (isoformat (Date 2026 3 31))), (''period_start'', json_string (isoformat (Date 2026 3 1))), (''version'', show_int 1)]"
    by (simp add: e_def audit_of_def dump_item_def)
  moreover have "length (isoformat (Date 2026 3 31)) = 10" "length (isoformat (Date 2026 3 1)) = 10" "length (show_int 1) \<le> 10"
    by (simp_all add: length_isoformat days_in_month_def show_int_def length_show_nat del: isoformat.simps)
  ultimately have audit: "record_close_audit empty_close_ledger e = Inr (empty_close_ledger\<lparr>kl_audits := [e]\<rparr>)"
    using json_string_len [of sample_sha] json_string_len [of "''ready_for_review''"]
      json_string_len [of "isoformat (Date 2026 3 1)"] json_string_len [of "isoformat (Date 2026 3 31)"]
      audit_recorded [of e _ empty_close_ledger]
    by (simp add: empty_close_ledger_def del: isoformat.simps)
  have trigger: "packet_trigger closers period_tables (march_packet item) = Inr ()" by (rule march_in_scope [OF assms(2-5)])
  have insert: "insert_packet closers period_tables (empty_close_ledger\<lparr>kl_audits := [e]\<rparr>) (march_packet item)
      = Inr (empty_close_ledger\<lparr>kl_audits := [e], kl_packets := [march_packet item]\<rparr>)"
    unfolding insert_packet_Inr trigger
    by (simp add: march_packet_def empty_close_ledger_def e_def audit_of_def fresh_one_def less_eq_date_def)
  define r where "r = \<lparr>rc_actor = ana_id, rc_action = ''prepare'', rc_key = key_one, rc_digest = sample_sha, rc_kind = ''packet'', rc_ref = packet_id\<rparr>"
  let ?led = "empty_close_ledger\<lparr>kl_audits := [e], kl_packets := [march_packet item], kl_receipts := [r]\<rparr>"
  have receipt: "insert_review_receipt (empty_close_ledger\<lparr>kl_audits := [e], kl_packets := [march_packet item]\<rparr>) r = Inr ?led"
    by (simp add: insert_review_receipt_def receipt_checked_def r_def packet_by_id_def march_packet_def empty_close_ledger_def)
  have digest: "close_digest sample_services [(''period_start'', PStr (isoformat (Date 2026 3 1))),
      (''period_end'', PStr (isoformat (Date 2026 3 31))), (''assigned_reviewer_id'', PStr luis_id)] = Inr sample_sha"
    by (rule close_digest_printable [of "[(''period_start'', PStr (isoformat (Date 2026 3 1))),
      (''period_end'', PStr (isoformat (Date 2026 3 31))), (''assigned_reviewer_id'', PStr luis_id)]" sample_services]) simp_all
  have evidence: "close_digest sample_services (manifest_json (build_manifest item)) = Inr sample_sha"
    by (rule close_digest_printable [OF printable_manifest, of sample_services]) simp
  have row: "\<lparr>pk_id = packet_id, pk_start = Date 2026 3 1, pk_end = Date 2026 3 31, pk_version = 1,
        pk_schema = MANIFEST_SCHEMA_VERSION, pk_manifest = build_manifest item, pk_digest = sample_sha, pk_status = ''ready_for_review'',
        pk_author = ana_id, pk_reviewer = luis_id, pk_at = fr_now fresh_one, pk_audit = fr_audit fresh_one\<rparr> = march_packet item"
    by (simp add: march_packet_def fresh_one_def packet_id_def)
  have id: "fr_id fresh_one = packet_id" by (simp add: fresh_one_def packet_id_def)
  have wrote: "write_packet closers period_tables empty_close_ledger fresh_one ana_id key_one sample_sha (Date 2026 3 1) (Date 2026 3 31)
      luis_id (build_manifest item) sample_sha = Inr ?led"
    unfolding write_packet_def Let_def v m row id of_nat_1 e_def [symmetric] r_def [symmetric] audit rbind_simps insert receipt ..
  have "\<exists>v. read_packet sample_services closers ''created close review packet cannot be read back'' packet_id ?led = Inr (v, ?led)"
    by (simp add: read_packet_def load_packet_def close_uuid_def packet_by_id_def packet_view_of_def Let_def)
  then obtain view where read: "read_packet sample_services closers ''created close review packet cannot be read back'' packet_id ?led = Inr (view, ?led)" by blast
  have none: "review_replay sample_services closers empty_close_ledger ''prepare'' d (review_receipt (kl_receipts empty_close_ledger) ana_id key_one) = Inr None" for d
    by (simp add: review_replay_def review_receipt_def empty_close_ledger_def)
  have "prepare_packet sample_services closers period_tables empty_close_ledger fresh_one ana_id key_one
      (Date 2026 3 1) (Date 2026 3 31) luis_id = Inr (view, ?led)"
    unfolding prepare_packet_def
    by (simp add: close_uuid_def close_key_def digest none assms(1) evidence wrote id read del: isoformat.simps One_nat_def)
  from that [OF this] show thesis by (simp add: empty_close_ledger_def e_def r_def audit_of_def fresh_one_def)
qed

lemma march_decided:
  assumes item: "exact_period sample_services period_tables (Date 2026 3 1) (Date 2026 3 31) = Inr item"
    "pi_status item = ''ready_for_review''"
    and led: "kl_packets led = [march_packet item]" "kl_decisions led = []" "map au_id (kl_audits led) = [''audit-1'']"
      "map rc_actor (kl_receipts led) = [ana_id]" "kl_closes led = []" "kl_period_receipts led = []"
  obtains v led' d where "decide_packet sample_services closers period_tables led fresh_two luis_id key_two packet_id
      ''evidence_reviewed'' ''controls_reviewed'' = Inr (v, led')" "kl_packets led' = [march_packet item]" "kl_decisions led' = [d]"
    "pd_packet d = packet_id" "pd_decision d = ''evidence_reviewed''" "pd_by d = luis_id" "kl_closes led' = []" "kl_period_receipts led' = []"
    "map au_id (kl_audits led') = [''audit-1'', ''audit-2'']"
proof -
  define e where "e = audit_of fresh_two luis_id (''close.review.'' @ ''evidence_reviewed'') ''close_review_packet'' packet_id
       [(''decision'', PStr ''evidence_reviewed''), (''reason_code'', PStr ''controls_reviewed''), (''manifest_digest'', PStr sample_sha)]"
  have dump: "map_result dump_item (sort_key fst (au_detail e)) = Inr
      [(''decision'', json_string ''evidence_reviewed''), (''manifest_digest'', json_string sample_sha), (''reason_code'', json_string ''controls_reviewed'')]"
    by (simp add: e_def audit_of_def dump_item_def)
  have new: "au_id e \<notin> au_id ` set (kl_audits led)"
    using arg_cong [OF led(3), of set] by (simp add: e_def audit_of_def fresh_two_def)
  have audit: "record_close_audit led e = Inr (led\<lparr>kl_audits := kl_audits led @ [e]\<rparr>)"
    using json_string_len [of sample_sha] json_string_len [of "''evidence_reviewed''"] json_string_len [of "''controls_reviewed''"]
    by (intro audit_recorded [OF dump _ new]) simp
  define d where "d = \<lparr>pd_id = fr_id fresh_two, pd_packet = packet_id, pd_decision = ''evidence_reviewed'', pd_reason = ''controls_reviewed'',
    pd_digest = sample_sha, pd_by = luis_id, pd_at = fr_now fresh_two, pd_audit = fr_audit fresh_two\<rparr>"
  define r where "r = \<lparr>rc_actor = luis_id, rc_action = ''evidence_reviewed'', rc_key = key_two, rc_digest = sample_sha, rc_kind = ''decision'',
    rc_ref = fr_id fresh_two\<rparr>"
  let ?mid = "led\<lparr>kl_audits := kl_audits led @ [e]\<rparr>"
  let ?two = "?mid\<lparr>kl_decisions := [d]\<rparr>"
  let ?final = "?two\<lparr>kl_receipts := kl_receipts led @ [r]\<rparr>"
  have insert: "insert_packet_decision closers ?mid d = Inr ?two"
    unfolding insert_packet_decision_Inr
    by (simp add: packet_by_id_def led d_def e_def audit_of_def REVIEW_REASONS_def)
  have actors: "rc_actor ` set (kl_receipts led) = {ana_id}" using arg_cong [OF led(4), of set] by simp
  then have others: "\<forall>x \<in> set (kl_receipts led). rc_actor x \<noteq> luis_id" using close_ids(1) by (metis imageI singletonD)
  then have fresh: "(luis_id, key_two) \<notin> (\<lambda>x. (rc_actor x, rc_key x)) ` set (kl_receipts led)" by auto
  have receipt: "insert_review_receipt ?two r = Inr ?final"
    using fresh by (simp add: insert_review_receipt_def receipt_checked_def r_def d_def)
  have digest: "close_digest sample_services [(''packet_id'', PStr packet_id), (''decision'', PStr ''evidence_reviewed''),
      (''reason_code'', PStr ''controls_reviewed'')] = Inr sample_sha"
    by (rule close_digest_printable [of "[(''packet_id'', PStr packet_id), (''decision'', PStr ''evidence_reviewed''),
      (''reason_code'', PStr ''controls_reviewed'')]" sample_services]) simp_all
  have evidence: "close_digest sample_services (manifest_json (build_manifest item)) = Inr sample_sha"
    by (rule close_digest_printable [OF printable_manifest, of sample_services]) simp
  have wrote: "write_packet_decision closers led fresh_two luis_id key_two sample_sha packet_id ''evidence_reviewed'' ''controls_reviewed'' sample_sha
      = Inr ?final"
    unfolding write_packet_decision_def e_def [symmetric] d_def [symmetric] r_def [symmetric] audit rbind_simps insert receipt ..
  have "\<exists>v. read_packet sample_services closers ''decided close review packet cannot be read back'' packet_id ?final = Inr (v, ?final)"
    by (simp add: read_packet_def load_packet_def close_uuid_def packet_by_id_def packet_view_of_def Let_def led)
  then obtain view where read: "read_packet sample_services closers ''decided close review packet cannot be read back'' packet_id ?final = Inr (view, ?final)" by blast
  have none: "review_receipt (kl_receipts led) luis_id key_two = None" using others by (auto simp: review_receipt_def find_None_iff)
  have "\<exists>w. load_packet sample_services closers led packet_id False = Inr (Some w) \<and> pv_packet w = march_packet item \<and> pv_decision w = None"
    by (simp add: load_packet_def close_uuid_def packet_by_id_def packet_view_of_def Let_def led packet_decision_of_def)
  then obtain w where w: "load_packet sample_services closers led packet_id False = Inr (Some w)" "pv_packet w = march_packet item" "pv_decision w = None" by blast
  have "decide_packet sample_services closers period_tables led fresh_two luis_id key_two packet_id
      ''evidence_reviewed'' ''controls_reviewed'' = Inr (view, ?final)"
    unfolding decide_packet_def
    by (simp add: close_uuid_def close_key_def REVIEW_REASONS_def digest none review_replay_def w item evidence wrote read del: One_nat_def)
  from that [OF this] show thesis by (simp add: led d_def e_def audit_of_def fresh_two_def)
qed

lemma march_reviewed:
  obtains led p d where "closing_reaches sample_services empty_close_ledger led" "kl_packets led = [p]" "pk_id p = packet_id"
    "pk_start p = Date 2026 3 1" "pk_end p = Date 2026 3 31" "kl_decisions led = [d]" "kl_closes led = []"
    "closable_now sample_services closers led \<lparr>fr_id = uuid_text 300, fr_audit = ''audit-3'', fr_now = 3\<rparr> luis_id key_two p"
    "map au_id (kl_audits led) = [''audit-1'', ''audit-2'']" "kl_period_receipts led = []"
    "packet_decision_of led packet_id = Some d" "pd_decision d = ''evidence_reviewed''" "pd_by d = luis_id"
    "is_ok (close_period sample_services closers period_tables led \<lparr>fr_id = uuid_text 300, fr_audit = ''audit-3'', fr_now = 3\<rparr> luis_id key_two packet_id)"
proof -
  let ?fr = "\<lparr>fr_id = uuid_text 300, fr_audit = ''audit-3'', fr_now = 3\<rparr>"
  obtain item where item: "exact_period sample_services period_tables (Date 2026 3 1) (Date 2026 3 31) = Inr item"
    "pi_status item = ''ready_for_review''" "pi_controls item = controls_of counts_sample" "pi_sources item = [source_sample]"
    "pi_reconciliations item = [account_sample]"
    by (rule sample_item)
  obtain v led where led: "prepare_packet sample_services closers period_tables empty_close_ledger fresh_one ana_id key_one
      (Date 2026 3 1) (Date 2026 3 31) luis_id = Inr (v, led)" "kl_packets led = [march_packet item]" "kl_decisions led = []"
    "map au_id (kl_audits led) = [''audit-1'']" "map rc_actor (kl_receipts led) = [ana_id]" "kl_closes led = []" "kl_period_receipts led = []"
    by (rule march_prepared [OF item])
  obtain w led2 d where two: "decide_packet sample_services closers period_tables led fresh_two luis_id key_two packet_id
      ''evidence_reviewed'' ''controls_reviewed'' = Inr (w, led2)" "kl_packets led2 = [march_packet item]" "kl_decisions led2 = [d]"
    "pd_packet d = packet_id" "pd_decision d = ''evidence_reviewed''" "pd_by d = luis_id" "kl_closes led2 = []" "kl_period_receipts led2 = []"
    "map au_id (kl_audits led2) = [''audit-1'', ''audit-2'']"
    by (rule march_decided [OF item(1,2) led(2-7)])
  have reach: "closing_reaches sample_services empty_close_ledger led2"
    using close_step.prepared [OF led(1)] close_step.decided [OF two(1)] by (meson rtranclp.rtrancl_into_rtrancl rtranclp.rtrancl_refl)
  have "''audit-3'' \<notin> au_id ` set (kl_audits led2)" using arg_cong [OF two(9), of set] by simp
  then have now: "closable_now sample_services closers led2 ?fr luis_id key_two (march_packet item)"
    by (simp add: closable_now_def two canonical_uuid_text days_in_month_def less_eq_date_def review_receipt_def next_close_version_def)
  obtain t where digest: "close_digest sample_services (manifest_json (build_manifest item)) = Inr sample_sha"
    by (rule close_digest_printable [OF printable_manifest, of sample_services]) simp
  have ready: "period_ready period_tables (Date 2026 3 31, Date 2026 3 1)"
    using exact_period_ready [OF period_known item(1)] item(2) by (auto split: if_splits)
  have "is_ok (close_period sample_services closers period_tables led2 ?fr luis_id key_two (pk_id (march_packet item)))"
    unfolding close_outcome [OF reach period_known now]
    using item(1) digest ready two(4-6)
    by (simp add: two(2,3,7) packet_decision_of_def accounting_period_is_closed_def del: One_nat_def)
  then show thesis using that [OF reach two(2)] two(3-9) now by (simp add: packet_decision_of_def)
qed

lemma march_closed:
  obtains led view led' c where "closing_reaches sample_services empty_close_ledger led"
    "close_period sample_services closers period_tables led \<lparr>fr_id = uuid_text 300, fr_audit = ''audit-3'', fr_now = 3\<rparr> luis_id key_two packet_id
      = Inr (view, led')"
    "closing_reaches sample_services empty_close_ledger led'" "kl_closes led = []" "kl_closes led' = [c]"
    "cz_start c = Date 2026 3 1" "cz_end c = Date 2026 3 31" "\<not> reopened led' (cz_id c)" "cz_id c = uuid_text 300" "cz_by c = luis_id"
    "kl_requests led' = []" "kl_reopens led' = []" "map au_id (kl_audits led') = [''audit-1'', ''audit-2'', ''audit-3'']"
    "map rc_actor (kl_period_receipts led') = [luis_id]"
proof -
  obtain led p d where led: "closing_reaches sample_services empty_close_ledger led" "kl_packets led = [p]" "pk_id p = packet_id"
    "pk_start p = Date 2026 3 1" "pk_end p = Date 2026 3 31" "kl_decisions led = [d]" "kl_closes led = []"
    "closable_now sample_services closers led \<lparr>fr_id = uuid_text 300, fr_audit = ''audit-3'', fr_now = 3\<rparr> luis_id key_two p"
    "map au_id (kl_audits led) = [''audit-1'', ''audit-2'']" "kl_period_receipts led = []"
    "packet_decision_of led packet_id = Some d" "pd_decision d = ''evidence_reviewed''" "pd_by d = luis_id"
    "is_ok (close_period sample_services closers period_tables led \<lparr>fr_id = uuid_text 300, fr_audit = ''audit-3'', fr_now = 3\<rparr> luis_id key_two packet_id)"
    by (rule march_reviewed)
  obtain view led' where run: "close_period sample_services closers period_tables led \<lparr>fr_id = uuid_text 300, fr_audit = ''audit-3'', fr_now = 3\<rparr> luis_id key_two packet_id = Inr (view, led')"
    using led(14) unfolding is_ok_iff by auto
  note ok = closing_ok [OF led(1)]
  have dec: "packet_decision_of led (pk_id p) = Some d" using led(3,11) by simp
  have run': "close_period sample_services closers period_tables led \<lparr>fr_id = uuid_text 300, fr_audit = ''audit-3'', fr_now = 3\<rparr> luis_id key_two (pk_id p) = Inr (view, led')"
    using run led(3) by simp
  obtain c where c: "kl_closes led' = kl_closes led @ [c]" "cz_start c = pk_start p" "cz_end c = pk_end p"
    "cz_id c = fr_id \<lparr>fr_id = uuid_text 300, fr_audit = ''audit-3'', fr_now = 3\<rparr>" "cz_by c = luis_id"
    "kl_requests led' = kl_requests led" "kl_reopens led' = kl_reopens led"
    "map au_id (kl_audits led') = map au_id (kl_audits led) @ [fr_audit \<lparr>fr_id = uuid_text 300, fr_audit = ''audit-3'', fr_now = 3\<rparr>]"
    "map rc_actor (kl_period_receipts led') = map rc_actor (kl_period_receipts led) @ [luis_id]"
    by (rule close_period_new [OF ok led(8) dec led(12,13) run'])
  have none: "kl_requests led = []" "kl_reopens led = []" using ok led(7) by (auto simp: close_ok_def)
  then have "\<not> reopened led' (cz_id c)" using c(6) by (simp add: reopened_iff)
  moreover have "closing_reaches sample_services empty_close_ledger led'"
    using led(1) close_step.closed [OF run] by (rule rtranclp.rtrancl_into_rtrancl)
  ultimately show thesis using that [OF led(1) run] c led(4,5,7,9,10) none by simp
qed

theorem period_closes_exactly_when_witness:
  "\<exists>led p. p \<in> set (kl_packets led) \<and> pk_id p \<notin> cz_packet ` set (kl_closes led) \<and> period_ready period_tables (pk_end p, pk_start p)
     \<and> \<not> accounting_period_is_closed led (pk_start p) (pk_end p)"
proof -
  obtain led p d where led: "closing_reaches sample_services empty_close_ledger led" "kl_packets led = [p]" "pk_id p = packet_id"
    "closable_now sample_services closers led \<lparr>fr_id = uuid_text 300, fr_audit = ''audit-3'', fr_now = 3\<rparr> luis_id key_two p"
    "is_ok (close_period sample_services closers period_tables led \<lparr>fr_id = uuid_text 300, fr_audit = ''audit-3'', fr_now = 3\<rparr> luis_id key_two packet_id)"
    by (rule march_reviewed) (rule that; assumption)
  have "is_ok (close_period sample_services closers period_tables led \<lparr>fr_id = uuid_text 300, fr_audit = ''audit-3'', fr_now = 3\<rparr> luis_id key_two (pk_id p))"
    using led(3,5) by simp
  then show ?thesis
    unfolding period_closes_exactly_when [OF led(1) period_known led(4)] by (intro exI [of _ led] exI [of _ p]) (simp add: led(2))
qed

theorem closed_only_when_ready_witness:
  "\<exists>led c. kl_closes led = [c] \<and> period_ready period_tables (cz_end c, cz_start c) \<and> cz_by c = luis_id
     \<and> accounting_period_is_closed led (cz_start c) (cz_end c)"
proof -
  obtain led view led' c where led: "closing_reaches sample_services empty_close_ledger led"
    "close_period sample_services closers period_tables led \<lparr>fr_id = uuid_text 300, fr_audit = ''audit-3'', fr_now = 3\<rparr> luis_id key_two packet_id
      = Inr (view, led')" "kl_closes led = []" "kl_closes led' = [c]"
    by (rule march_closed) (rule that; assumption)
  have "kl_closes led' \<noteq> kl_closes led" using led(3,4) by simp
  from closed_only_when_ready [OF period_known led(1,2) this] show ?thesis using led(3) by (intro exI [of _ led']) auto
qed

theorem active_closes_never_overlap_witness:
  "\<exists>led c. kl_closes led = [c] \<and> accounting_period_is_closed led (Date 2026 3 15) (Date 2026 3 15)"
proof -
  obtain led' c where led: "closing_reaches sample_services empty_close_ledger led'" "kl_closes led' = [c]"
    "cz_start c = Date 2026 3 1" "cz_end c = Date 2026 3 31" "\<not> reopened led' (cz_id c)"
    by (rule march_closed) (rule that; assumption)
  have "c \<in> set (kl_closes led')" "cz_start c \<le> Date 2026 3 15" "Date 2026 3 15 \<le> cz_end c"
    using led(2-4) by (simp_all add: less_eq_date_def)
  from active_closes_never_overlap [OF led(1) rtranclp.rtrancl_refl this(1,1) led(5,5) this(2,3,2,3)] show ?thesis using led(2) by blast
qed

theorem closes_and_reopenings_take_two_people_witness:
  "\<exists>(led :: close_ledger) c p. c \<in> set (kl_closes led) \<and> p \<in> set (kl_packets led) \<and> pk_id p = cz_packet c \<and> pk_author p \<noteq> cz_by c"
proof -
  obtain led' c where led: "closing_reaches sample_services empty_close_ledger led'" "kl_closes led' = [c]"
    by (rule march_closed) (rule that; assumption)
  have c: "c \<in> set (kl_closes led')" by (simp add: led(2))
  from closes_and_reopenings_take_two_people [OF led(1) rtranclp.rtrancl_refl c] show ?thesis by blast
qed

end
