(* ===== verification/ClosedPeriods.thy ===== *)
theory ClosedPeriods
  imports CloseLaws
begin

text \<open>
  Where the close meets the other components: match decisions stop at a closed period, the roles that may review a
  close are those that derive its permission, and a rejected reopening leaves a period closed for good.
\<close>

section \<open>Decisions on movements of a closed period\<close>

text \<open>The catalog of the reconciliation over the closes of a company.\<close>

definition with_closes :: "catalog \<Rightarrow> close_ledger \<Rightarrow> catalog" where
  "with_closes cat led = cat\<lparr>ct_closed := accounting_period_is_closed led\<rparr>"

definition without_closes :: "catalog \<Rightarrow> catalog" where
  "without_closes cat = cat\<lparr>ct_closed := (\<lambda>_ _. False)\<rparr>"

lemma review_ignores_closes:
  "load_review sv (with_closes cat z) led i = load_review sv (without_closes cat) led i"
proof -
  have same: "ct_subjects (with_closes cat z) = ct_subjects (without_closes cat)"
    "movement_by_id (with_closes cat z) = movement_by_id (without_closes cat)"
    by (simp_all add: fun_eq_iff with_closes_def without_closes_def movement_by_id_def)
  have "review_row_of (with_closes cat z) = review_row_of (without_closes cat)"
    unfolding fun_eq_iff review_row_of_def same by blast
  then show ?thesis by (simp add: load_review_def review_select_def)
qed

text \<open>C11. A decision that would be accepted is refused by the database while an active close shares a day with the span of
  its movements, whatever was closed and reopened before.\<close>

theorem closed_periods_take_no_decisions:
  assumes "closing_reaches sv empty_close_ledger led" "closing_reaches sv led later" "z \<in> set (kl_closes led)" "\<not> reopened later (cz_id z)"
    and "reaches sv empty_ledger reviews"
    and "decidable_now sv (without_closes cat) reviews fr actor c" "idempotency_key key = Inr k" "receipt_of reviews actor k = None"
    and "canonical_uuid i = Some (mc_id c)" "valid_reason decision reason" "decision_for reviews (mc_id c) = None"
    and "decision = ''confirmed'' \<longrightarrow> actor \<noteq> mc_proposer c \<and> \<not> confirmation_conflict reviews c"
    and "movement_by_id cat (mc_left c) = Some l" "movement_by_id cat (mc_right c) = Some r"
    and "min (m_occurred l) (m_occurred r) \<le> cz_end z" "cz_start z \<le> max (m_occurred l) (m_occurred r)"
  shows "is_ok (decide_review sv (without_closes cat) reviews reviews fr actor key i decision reason)
    \<and> decide_review sv (with_closes cat later) reviews reviews fr actor key i decision reason
      = Inl (DatabaseError ''55000'' ''ck_financial_write_period_open'')"
proof
  have ok: "ledger_ok reviews" using assms(5) reachable_ok by blast
  have "period_open (without_closes cat) c"
    using assms(13,14) by (simp add: period_open_def without_closes_def movement_by_id_def)
  then show "is_ok (decide_review sv (without_closes cat) reviews reviews fr actor key i decision reason)"
    by (rule decision_outcome [OF ok assms(6-12)]) simp
  obtain v where v: "load_review sv (without_closes cat) reviews (mc_id c) = Some v" "rv_id v = mc_id c" "rv_proposer v = mc_proposer c"
    "(rv_decision v = None) = (decision_for reviews (mc_id c) = None)" "rv_conflict v = confirmation_conflict reviews c"
    by (rule load_review_now [OF ok assms(6)])
  have v': "load_review sv (with_closes cat later) reviews (mc_id c) = Some v" using v(1) by (simp add: review_ignores_closes)
  obtain t where dig: "digest sv (decide_payload (mc_id c) decision reason) = Inr (sv_sha sv t)" using decide_digest by blast
  have guard: "decision_guard v actor decision = Inr ()" using assms(11,12) v by (auto simp: decision_guard_def)
  from closing.run_kept [OF assms(2) closing_ok [OF assms(1)]] have "z \<in> set (kl_closes later)"
    using assms(3) prefix_set by (auto simp: close_extends_def)
  then have "accounting_period_is_closed later (min (m_occurred l) (m_occurred r)) (max (m_occurred l) (m_occurred r))"
    unfolding closed_iff using assms(4,15,16) by blast
  then have closed: "\<not> period_open (with_closes cat later) c"
    using assms(13,14) by (simp add: period_open_def with_closes_def movement_by_id_def)
  have now: "candidate_by_id reviews (mc_id c) = Some c" "fr_audit fr \<notin> au_id ` set (lg_audits reviews)"
    using assms(6) by (simp_all add: decidable_now_def)
  let ?e = "audit_of fr actor (''match.'' @ decision_action decision) ''match_candidate'' (mc_id c)
       [(''decision'', PStr decision), (''reason_code'', PStr reason)]"
  have audit: "record_audit reviews ?e = Inr (reviews\<lparr>lg_audits := lg_audits reviews @ [?e]\<rparr>)"
    by (rule decision_audit [OF assms(10)]) (use now(2) in \<open>simp_all add: audit_of_def\<close>)
  have "write_decision (with_closes cat later) reviews fr actor k (sv_sha sv t) v decision reason
      = Inl (DatabaseError ''55000'' ''ck_financial_write_period_open'')"
    unfolding write_decision_def v(2) audit rbind_simps
    using now(1) closed by (simp add: insert_decision_def candidate_by_id_def unique_violation_def)
  then show "decide_review sv (with_closes cat later) reviews reviews fr actor key i decision reason
      = Inl (DatabaseError ''55000'' ''ck_financial_write_period_open'')"
    unfolding decide_run [OF assms(7,9,10) dig assms(8) v', of reviews fr] guard by simp
qed

section \<open>Reviewers of a close\<close>

lemma approver_roles: "''close.approve'' \<in> granted_by ROLE_PERMISSIONS role \<longleftrightarrow> role \<in> {''owner'', ''reviewer''}"
  by (auto simp: granted_by_iff ROLE_PERMISSIONS_def PERMISSIONS_def split: if_splits)

text \<open>C17. The people offered as reviewers, found by their derived permissions, are those the database accepts, found by
  the two roles it names.\<close>

theorem reviewers_offered_are_accepted:
  "i \<in> fst ` set (eligible_reviewers pp) \<longleftrightarrow> is_close_reviewer_eligible pp i"
proof -
  have roles: "''close.approve'' \<in> derive_permissions (company_roles pp i)
      \<longleftrightarrow> (\<exists>g \<in> set (pp_grants pp). gt_subject g = i \<and> \<not> gt_revoked g \<and> gt_role g \<in> {''owner'', ''reviewer''})" for i
    unfolding derive_permissions_eq by (auto simp: company_roles_def approver_roles)
  have "set (list_members pp) = (\<lambda>(s, role). \<lparr>mv_subject = su_id s, mv_name = su_name s, mv_firm_role = role, mv_roles = company_roles pp (su_id s)\<rparr>)
      ` set (active_members pp)"
    by (simp add: list_members_def)
  then have "i \<in> fst ` set (eligible_reviewers pp) \<longleftrightarrow>
      (\<exists>(s, role) \<in> set (active_members pp). su_id s = i \<and> ''close.approve'' \<in> derive_permissions (company_roles pp (su_id s)))"
    by (force simp: eligible_reviewers_def)
  then show ?thesis unfolding roles by (auto simp: is_close_reviewer_eligible_def list_ex_iff)
qed

section \<open>Rejected reopenings\<close>

text \<open>C16. After a rejected reopening no later sequence of commands reopens the close, and no second request is made for it.\<close>

theorem rejected_reopen_is_final:
  assumes "closing_reaches sv empty_close_ledger led" "closing_reaches sv led later"
    and "r \<in> set (kl_requests led)" "d \<in> set (kl_reopens led)" "ro_request d = rq_id r" "ro_decision d = ''rejected''"
  shows "\<not> reopened later (rq_close r) \<and> (\<forall>x \<in> set (kl_requests later). rq_close x = rq_close r \<longrightarrow> x = r)
    \<and> (\<exists>c \<in> set (kl_closes later). cz_id c = rq_close r
        \<and> (\<forall>day. cz_start c \<le> day \<and> day \<le> cz_end c \<longrightarrow> accounting_period_is_closed later day day))"
proof -
  from closing.run_kept [OF assms(2) closing_ok [OF assms(1)]] have ok: "close_ok later" and ext: "close_extends led later" by simp_all
  have r: "r \<in> set (kl_requests later)" and d: "d \<in> set (kl_reopens later)"
    using ext assms(3,4) prefix_set by (auto simp: close_extends_def)
  have dist: "distinct (map rq_id (kl_requests later))" "distinct (map rq_close (kl_requests later))" "distinct (map ro_request (kl_reopens later))"
    and known: "\<forall>r \<in> set (kl_requests later). rq_close r \<in> cz_id ` set (kl_closes later)"
    using ok unfolding close_ok_def by blast+
  have only: "x = r" if "x \<in> set (kl_requests later)" "rq_close x = rq_close r" for x
    using same_row [OF dist(2) that(1) r] that(2) by simp
  have final: "\<not> reopened later (rq_close r)"
  proof
    assume "reopened later (rq_close r)"
    then obtain x y where xy: "x \<in> set (kl_requests later)" "rq_close x = rq_close r" "y \<in> set (kl_reopens later)" "ro_request y = rq_id x"
      "ro_decision y = ''approved''" unfolding reopened_iff by blast
    have "x = r" by (rule only [OF xy(1,2)])
    then have "y = d" using same_row [OF dist(3) xy(3) d] xy(4) assms(5) by simp
    then show False using xy(5) assms(6) by simp
  qed
  obtain c where c: "c \<in> set (kl_closes later)" "cz_id c = rq_close r" using known r by (metis imageE)
  have "accounting_period_is_closed later day day" if "cz_start c \<le> day" "day \<le> cz_end c" for day
    unfolding closed_iff using c final that by auto
  then show ?thesis using final only c by blast
qed

section \<open>March is closed, asked for and stays closed\<close>

lemma march_is_open_without_closes: "without_closes sample_catalog = sample_catalog"
  by (simp add: without_closes_def sample_catalog_def fun_eq_iff)

theorem closed_periods_take_no_decisions_witness:
  "\<exists>(led :: close_ledger) (reviews :: review_ledger) (c :: match_candidate). decide_review sample_services (with_closes sample_catalog led) reviews reviews fresh_two ''luis'' key_two (mc_id c)
     ''confirmed'' ''reference_supported'' = Inl (DatabaseError ''55000'' ''ck_financial_write_period_open'')"
proof -
  obtain led z where led: "closing_reaches sample_services empty_close_ledger led" "kl_closes led = [z]"
    "cz_start z = Date 2026 3 1" "cz_end z = Date 2026 3 31" "\<not> reopened led (cz_id z)"
    by (rule march_closed) (rule that; assumption)
  obtain r1 reviews c where one: "propose_review sample_services sample_catalog empty_ledger fresh_one ''ana'' key_one ds_a ds_b
      (m_id payment) (m_id receipt_move) 3 = Inr (r1, reviews)" "reaches sample_services empty_ledger reviews" "ledger_ok reviews" "rp_created r1"
    "lg_candidates reviews = [c]" "mc_id c = uuid_text 100" "mc_proposer c = ''ana''" "mc_left c = m_id payment" "mc_right c = m_id receipt_move"
    "lg_decisions reviews = []" "lg_members reviews = []" "map au_id (lg_audits reviews) = [''audit-1'']" "map mr_actor (lg_receipts reviews) = [''ana'']"
    by (rule sample_first)
  have now: "decidable_now sample_services (without_closes sample_catalog) reviews fresh_two ''luis'' c"
    unfolding march_is_open_without_closes by (rule sample_decidable [OF one(5-10,12)])
  have "mr_actor x = ''ana''" if "x \<in> set (lg_receipts reviews)" for x using arg_cong [OF one(13), of set] that by auto
  then have none: "receipt_of reviews ''luis'' key_two = None" by (auto simp: receipt_of_def find_None_iff)
  have cid: "canonical_uuid (mc_id c) = Some (mc_id c)" by (simp add: one(6) canonical_uuid_text)
  have reason: "valid_reason ''confirmed'' ''reference_supported''" by (simp add: valid_reason_def DECISION_REASONS_def)
  have z: "z \<in> set (kl_closes led)" by (simp add: led(2))
  have moves: "movement_by_id sample_catalog (mc_left c) = Some payment" "movement_by_id sample_catalog (mc_right c) = Some receipt_move"
    by (simp_all add: one(8,9) movement_by_id_def sample_catalog_def sample_movements uuid_text_inject)
  have free: "decision_for reviews (mc_id c) = None" "''confirmed'' = ''confirmed'' \<longrightarrow> ''luis'' \<noteq> mc_proposer c \<and> \<not> confirmation_conflict reviews c"
    by (simp_all add: one(7,10,11) decision_for_def confirmation_conflict_def)
  have "min (m_occurred payment) (m_occurred receipt_move) \<le> cz_end z" "cz_start z \<le> max (m_occurred payment) (m_occurred receipt_move)"
    by (simp_all add: led(3,4) payment_def receipt_move_def sample_movement_def less_eq_date_def)
  from closed_periods_take_no_decisions [OF led(1) rtranclp.rtrancl_refl z led(5) one(2) now sample_keys(2) none cid reason free moves this]
  show ?thesis by blast
qed

abbreviation fresh_four :: fresh where "fresh_four \<equiv> \<lparr>fr_id = uuid_text 400, fr_audit = ''audit-4'', fr_now = 4\<rparr>"
abbreviation fresh_five :: fresh where "fresh_five \<equiv> \<lparr>fr_id = uuid_text 500, fr_audit = ''audit-5'', fr_now = 5\<rparr>"

lemma sample_close_digest: "list_all (\<lambda>kv. printable (snd kv)) payload \<Longrightarrow> close_digest sample_services payload = Inr sample_sha"
  by (rule close_digest_printable [of payload sample_services]) simp_all

lemma no_receipt: "actor \<notin> rc_actor ` set receipts \<Longrightarrow> review_receipt receipts actor key = None"
  by (auto simp: review_receipt_def find_None_iff)

lemma new_receipt: "actor \<notin> rc_actor ` set receipts \<Longrightarrow> (actor, key) \<notin> (\<lambda>x. (rc_actor x, rc_key x)) ` set receipts"
  by auto

lemma march_asked:
  obtains led c r where "closing_reaches sample_services empty_close_ledger led" "kl_closes led = [c]" "kl_requests led = [r]" "kl_reopens led = []"
    "rq_close r = cz_id c" "cz_id c = uuid_text 300" "cz_by c = luis_id" "rq_id r = uuid_text 400" "rq_by r = ana_id"
    "map au_id (kl_audits led) = [''audit-1'', ''audit-2'', ''audit-3'', ''audit-4'']" "map rc_actor (kl_period_receipts led) = [luis_id, ana_id]"
    "cz_start c = Date 2026 3 1" "cz_end c = Date 2026 3 31"
proof -
  let ?why = "''Factura tardia de marzo''" and ?i = "uuid_text 300"
  obtain led c where led: "closing_reaches sample_services empty_close_ledger led" "kl_closes led = [c]"
    "cz_start c = Date 2026 3 1" "cz_end c = Date 2026 3 31" "\<not> reopened led (cz_id c)" "cz_id c = ?i" "cz_by c = luis_id"
    "kl_requests led = []" "kl_reopens led = []" "map au_id (kl_audits led) = [''audit-1'', ''audit-2'', ''audit-3'']"
    "map rc_actor (kl_period_receipts led) = [luis_id]"
    by (rule march_closed) (rule that; assumption)
  have uuid: "canonical_uuid ?i = Some ?i" by (simp add: canonical_uuid_text)
  define e where "e = audit_of fresh_four ana_id ''accounting.period.reopen.request'' ''accounting_period'' ?i [(''reason_code'', PStr ''late_evidence'')]"
  define r where "r = \<lparr>rq_id = fr_id fresh_four, rq_close = ?i, rq_reason = ''late_evidence'', rq_rationale = ?why, rq_by = ana_id,
       rq_at = fr_now fresh_four, rq_audit = fr_audit fresh_four\<rparr>"
  define x where "x = \<lparr>rc_actor = ana_id, rc_action = ''request_reopen'', rc_key = key_one, rc_digest = sample_sha, rc_kind = ''reopen_request'',
       rc_ref = fr_id fresh_four\<rparr>"
  have dump: "map_result dump_item (sort_key fst (au_detail e)) = Inr [(''reason_code'', json_string ''late_evidence'')]"
    by (simp add: e_def audit_of_def dump_item_def)
  have new: "au_id e \<notin> au_id ` set (kl_audits led)" using arg_cong [OF led(10), of set] by (simp add: e_def audit_of_def)
  have audit: "record_close_audit led e = Inr (led\<lparr>kl_audits := kl_audits led @ [e]\<rparr>)"
    using json_string_len [of "''late_evidence''"] by (intro audit_recorded [OF dump _ new]) simp
  let ?final = "led\<lparr>kl_audits := kl_audits led @ [e], kl_requests := [r], kl_period_receipts := kl_period_receipts led @ [x]\<rparr>"
  have "accounting_period_is_closed led (cz_start c) (cz_end c)"
    unfolding closed_iff using led(3-5) by (simp add: led(2) less_eq_date_def)
  then have insert: "insert_reopen_request closers (led\<lparr>kl_audits := kl_audits led @ [e]\<rparr>) r
      = Inr (led\<lparr>kl_audits := kl_audits led @ [e], kl_requests := [r]\<rparr>)"
    unfolding insert_reopen_request_Inr
    by (simp add: close_by_id_def led r_def e_def audit_of_def REOPEN_REASONS_def accounting_period_is_closed_def reopened_def)
  have "ana_id \<notin> rc_actor ` set (kl_period_receipts led)" using arg_cong [OF led(11), of set] by simp
  note receipts = no_receipt [OF this] new_receipt [OF this]
  have receipt: "insert_period_receipt (led\<lparr>kl_audits := kl_audits led @ [e], kl_requests := [r]\<rparr>) x = Inr ?final"
    using receipts by (simp add: insert_period_receipt_def receipt_checked_def x_def)
  have wrote: "write_reopen_request closers led fresh_four ana_id key_one sample_sha ?i ''late_evidence'' ?why = Inr ?final"
    unfolding write_reopen_request_def e_def [symmetric] r_def [symmetric] x_def [symmetric] audit rbind_simps insert receipt ..
  have "\<exists>v. read_close sample_services closers ''reopen request cannot be read back'' ?i ?final = Inr (v, ?final)"
    by (simp add: read_close_def load_close_def period_uuid_def uuid close_by_id_def led close_view_of_def)
  then obtain view where read: "read_close sample_services closers ''reopen request cannot be read back'' ?i ?final = Inr (view, ?final)" by blast
  have "\<exists>w. load_close sample_services closers led ?i False = Inr (Some w) \<and> zv_status w = ''closed'' \<and> zv_request w = None"
    by (simp add: load_close_def period_uuid_def uuid close_by_id_def led close_view_of_def close_status_def request_for_def)
  then obtain w where w: "load_close sample_services closers led ?i False = Inr (Some w)" "zv_status w = ''closed''" "zv_request w = None" by blast
  have strip: "py_strip ?why = ?why" "valid_rationale ?why"
    by (simp_all add: py_strip_def is_space_def valid_rationale_def code_def)
  have "request_reopen sample_services closers led fresh_four ana_id key_one ?i ''late_evidence'' ?why = Inr (view, ?final)"
    unfolding request_reopen_def
    by (simp add: period_uuid_def uuid REOPEN_REASONS_def strip period_command_key_def sample_close_digest receipts period_replay_def w wrote read)
  then have "close_step sample_services led ?final" by (rule close_step.asked)
  with led(1) have "closing_reaches sample_services empty_close_ledger ?final" by (rule rtranclp.rtrancl_into_rtrancl)
  from that [OF this, of c r] show thesis by (simp add: led r_def e_def x_def audit_of_def)
qed

lemma march_rejected:
  obtains led c r d where "closing_reaches sample_services empty_close_ledger led" "kl_requests led = [r]" "kl_reopens led = [d]"
    "ro_request d = rq_id r" "ro_decision d = ''rejected''" "kl_closes led = [c]" "rq_close r = cz_id c"
    "cz_start c = Date 2026 3 1" "cz_end c = Date 2026 3 31"
proof -
  let ?i = "uuid_text 400"
  obtain led c r where led: "closing_reaches sample_services empty_close_ledger led" "kl_closes led = [c]" "kl_requests led = [r]" "kl_reopens led = []"
    "rq_close r = cz_id c" "cz_id c = uuid_text 300" "cz_by c = luis_id" "rq_id r = uuid_text 400" "rq_by r = ana_id"
    "map au_id (kl_audits led) = [''audit-1'', ''audit-2'', ''audit-3'', ''audit-4'']" "map rc_actor (kl_period_receipts led) = [luis_id, ana_id]"
    "cz_start c = Date 2026 3 1" "cz_end c = Date 2026 3 31"
    by (rule march_asked)
  have uuids: "canonical_uuid ?i = Some ?i" "canonical_uuid (uuid_text 300) = Some (uuid_text 300)" by (simp_all add: canonical_uuid_text)
  define e where "e = audit_of fresh_five eva_id (''accounting.period.reopen.'' @ ''rejected'') ''accounting_period'' (uuid_text 300)
       [(''decision'', PStr ''rejected''), (''reason_code'', PStr ''wrong_scope'')]"
  define d where "d = \<lparr>ro_id = fr_id fresh_five, ro_request = ?i, ro_decision = ''rejected'', ro_reason = ''wrong_scope'', ro_by = eva_id,
       ro_at = fr_now fresh_five, ro_audit = fr_audit fresh_five\<rparr>"
  define x where "x = \<lparr>rc_actor = eva_id, rc_action = ''reject_reopen'', rc_key = key_one, rc_digest = sample_sha, rc_kind = ''reopen_decision'',
       rc_ref = fr_id fresh_five\<rparr>"
  have dump: "map_result dump_item (sort_key fst (au_detail e))
      = Inr [(''decision'', json_string ''rejected''), (''reason_code'', json_string ''wrong_scope'')]"
    by (simp add: e_def audit_of_def dump_item_def)
  have new: "au_id e \<notin> au_id ` set (kl_audits led)" using arg_cong [OF led(10), of set] by (simp add: e_def audit_of_def)
  have audit: "record_close_audit led e = Inr (led\<lparr>kl_audits := kl_audits led @ [e]\<rparr>)"
    using json_string_len [of "''rejected''"] json_string_len [of "''wrong_scope''"] by (intro audit_recorded [OF dump _ new]) simp
  let ?final = "led\<lparr>kl_audits := kl_audits led @ [e], kl_reopens := [d], kl_period_receipts := kl_period_receipts led @ [x]\<rparr>"
  have insert: "insert_reopen_decision closers (led\<lparr>kl_audits := kl_audits led @ [e]\<rparr>) d
      = Inr (led\<lparr>kl_audits := kl_audits led @ [e], kl_reopens := [d]\<rparr>)"
    unfolding insert_reopen_decision_Inr
    by (simp add: request_by_id_def led d_def e_def audit_of_def REOPEN_DECISION_REASONS_def)
  have "eva_id \<notin> rc_actor ` set (kl_period_receipts led)" using arg_cong [OF led(11), of set] by simp
  note receipts = no_receipt [OF this] new_receipt [OF this]
  have receipt: "insert_period_receipt (led\<lparr>kl_audits := kl_audits led @ [e], kl_reopens := [d]\<rparr>) x = Inr ?final"
    using receipts by (simp add: insert_period_receipt_def receipt_checked_def x_def)
  have wrote: "write_reopen_decision closers led fresh_five eva_id ''reject_reopen'' key_one sample_sha ?i (uuid_text 300) ''rejected'' ''wrong_scope''
      = Inr ?final"
    unfolding write_reopen_decision_def e_def [symmetric] d_def [symmetric] x_def [symmetric] audit rbind_simps insert receipt ..
  have "\<exists>v. read_close sample_services closers ''reopen decision cannot be read back'' (uuid_text 300) ?final = Inr (v, ?final)"
    by (simp add: read_close_def load_close_def period_uuid_def uuids close_by_id_def led close_view_of_def)
  then obtain view where read: "read_close sample_services closers ''reopen decision cannot be read back'' (uuid_text 300) ?final = Inr (view, ?final)" by blast
  have "decide_reopen sample_services closers led fresh_five eva_id key_one ?i ''rejected'' ''wrong_scope'' = Inr (view, ?final)"
    unfolding decide_reopen_def
    by (simp add: period_uuid_def uuids REOPEN_DECISION_REASONS_def period_command_key_def sample_close_digest receipts period_replay_def
        request_by_id_def led decision_on_def wrote read)
  then have "close_step sample_services led ?final" by (rule close_step.answered)
  with led(1) have "closing_reaches sample_services empty_close_ledger ?final" by (rule rtranclp.rtrancl_into_rtrancl)
  from that [OF this, of r d c] show thesis by (simp add: led d_def e_def x_def audit_of_def)
qed

theorem rejected_reopen_is_final_witness:
  "\<exists>led :: close_ledger. kl_reopens led \<noteq> [] \<and> accounting_period_is_closed led (Date 2026 3 15) (Date 2026 3 15)"
proof -
  obtain led c r d where led: "closing_reaches sample_services empty_close_ledger led" "kl_requests led = [r]" "kl_reopens led = [d]"
    "ro_request d = rq_id r" "ro_decision d = ''rejected''" "kl_closes led = [c]" "rq_close r = cz_id c"
    "cz_start c = Date 2026 3 1" "cz_end c = Date 2026 3 31"
    by (rule march_rejected)
  have "r \<in> set (kl_requests led)" "d \<in> set (kl_reopens led)" by (simp_all add: led)
  from rejected_reopen_is_final [OF led(1) rtranclp.rtrancl_refl this led(4,5)]
  have "accounting_period_is_closed led (Date 2026 3 15) (Date 2026 3 15)" by (simp add: led less_eq_date_def)
  then show ?thesis using led(3) by (intro exI [of _ led]) simp
qed

end
