(* ===== verification/Spec2Isabelle.thy ===== *)
theory Spec2Isabelle
  imports Money Tenancy Release Tokenization Cycles ColumnMapping CellRef Lineage Completeness Dedupe FileExtraction StreamAgreement IngestionLaws ReviewLedger GroupDrafts ReadinessLaws ClosedPeriods
begin

text \<open>
  A verification library of the Fincilia platform, which turns bank files into reconciled accounts.

  THE PROGRAM. A document enters through \<open>ingestion.py\<close>, is profiled (\<open>profiling.py\<close>) and read row by
  row with the coordinates of every cell (\<open>extraction.py\<close>). A declared mapping turns rows into movements
  (\<open>mapping.py\<close>) whose amounts are exact decimals (\<open>money.py\<close>); every published field keeps a plan of the
  steps that made it (\<open>lineage.py\<close>). Redeliveries and duplicates are found by the dedupe engine, the
  completeness engine says what is known about a source and whether a period may close, \<open>cycles.py\<close> says
  when a document is due, \<open>release.py\<close> and \<open>tokenization.py\<close> give results and accounts their stable names and
  \<open>tenancy.py\<close> decides who may do what. All of these are functions of their arguments. Around them the API
  keeps ledgers in PostgreSQL: candidates of matching are explored, proposed and decided by two people
  (\<open>reconciliation.py\<close>), and a period is diagnosed, its evidence reviewed and the period closed and reopened
  (\<open>close_readiness.py\<close>, \<open>close_review.py\<close>, \<open>close_period.py\<close>); the constraints and triggers of the
  migrations are part of what these commands do. A closed period takes no more decisions of matching.

  THE THEORIES, in the order of their imports. Paths are below \<open>src/packages/contracts/python/fincilia_contracts\<close>
  unless another is given.
  \<^item> Prelude: results with errors, the collections of simplification rules, lemmas on lists.
  \<^item> PyValue: what the sources use of Python: exceptions, \<open>Decimal\<close>, dictionaries of values, \<open>repr\<close> and \<open>str\<close>.
  \<^item> PyText: text as code points, bytes, and the four codecs; the locale \<open>line_codec\<close> says what the readers
    need of a codec, and its interpretations show that the four codecs have it.
  \<^item> Calendar: the days of the Gregorian calendar and their texts.
  \<^item> Money (\<open>money.py\<close>), Tenancy (\<open>tenancy.py\<close>), Release (\<open>release.py\<close>), Tokenization (\<open>tokenization.py\<close>),
    Cycles (\<open>cycles.py\<close>), Lineage (\<open>lineage.py\<close>), CellRef (the coordinates of \<open>spreadsheet.py\<close>),
    ColumnMapping (\<open>mapping.py\<close>): one theory per module.
  \<^item> Completeness (\<open>src/tools/completeness_engine/engine.py\<close>) and Dedupe (\<open>src/tools/dedupe_engine/engine.py\<close>).
  \<^item> CsvReader: the state machine of \<open>csv.reader\<close> over any iterator of lines; Profiling (\<open>profiling.py\<close>).
  \<^item> FileExtraction and StreamExtraction: the two readers of \<open>extraction.py\<close>; StreamAgreement: they agree.
  \<^item> Patterns: regular expressions with Python's backtracking search; PdfDocument (\<open>pdf_document.py\<close>): passive PDF
    files, their texts and OCR derivatives; Ingestion (\<open>ingestion.py\<close>): admission and promotion of files; IngestionLaws: what leaves quarantine, and what \<open>run_scan\<close> and \<open>classify_extraction\<close> of
    \<open>src/workers/document\<close> make of a failure.
  \<^item> Uuid: the spellings that \<open>uuid.UUID\<close> accepts. Reconciliation: the exploration of candidates and the review
    commands of \<open>src/apps/api/src/fincilia_api/reconciliation.py\<close> with the migrations V0017, V0025 and the guard
    of V0046; CandidateLaws: pages, order and eligibility; ReviewLedger: the reachable ledgers of reviews;
    GroupDrafts: the drafts of groups of the same file with V0035.
  \<^item> CloseReadiness: the diagnosis of periods of \<open>close_readiness.py\<close>; ReadinessLaws: what it says of the stored
    rows. CloseLedger: packets, their review, closing and reopening of \<open>close_review.py\<close> and \<open>close_period.py\<close>
    with V0034 and V0046; CloseLaws: the reachable ledgers of closes; ClosedPeriods: what a close means for
    the matching component, and the directory of reviewers of \<open>access.py\<close>.

  HOW THE MODEL CORRESPONDS. Dataclasses are records with the fields of the source (renamed where a name
  would clash), dictionaries are association lists in insertion order, exceptions are the left side of
  a sum, generators are the lists of what they yield together with how they end. A table is the list of its rows
  in the order they were inserted, for one company (the row level security of the database hides the others);
  an INSERT is a function that checks the triggers, keys, checks and foreign keys of its table and adds the
  row or fails with the database's error state, and a command that fails changes nothing. What a command reads
  before it takes its lock is an argument of its own (\<open>seen\<close>), so that stale reads are part of the model.
  New identifiers and the time come in a record \<open>fresh\<close>, the services a command calls (SHA-256, clock, texts
  of numbers) in a record \<open>services\<close>. Python integers are
  \<open>int\<close> or \<open>nat\<close>; nothing in the source wraps around. \<open>Decimal\<close> is modelled with its 28-digit context, so
  rounding and \<open>InvalidOperation\<close> are part of the results. Text that may hold any character is a list
  of code points, ASCII identifiers are strings. SHA-256, HMAC, \<open>str.lower\<close> beyond ASCII, Unicode
  normalisation and clocks are arguments of the definitions that use them.

  WHAT THE LEMMAS SHOW.
  \<^item> Extraction: the two readers produce the same rows whatever the chunks, and a byte limit or a clock only cuts
    them short; a row is exactly what its bytes say; spans are disjoint and in order; nothing is dropped unless the result says so.
  \<^item> Mapping and money: every row is published or rejected, amounts and dates follow the declared formats
    and are never rounded silently, published movements are well formed.
  \<^item> Lineage: built plans are complete, paths interleave the overrides in order, overrides are reviewed.
  \<^item> Completeness: what the verdict, the statement and the close gate depend on, as equivalences.
  \<^item> Dedupe: the inbox as a transition system with reachability and a refinement to the life of a message;
    identity and collision of artifacts; candidates have no effect.
  \<^item> Admission: whatever is promoted is inert, PDF files included as far as their names are written out, and carries
    no secret that was found; the patterns of secrets.
  \<^item> Matching: pages list the eligible pairs once each, in the documented order as far as references can be
    compared; no movement is confirmed twice in any reachable ledger;
    confirmations are by a second person; repeated commands are replayed; a stale read does not
    change what is accepted.
  \<^item> Closing: the diagnosis is ready exactly when the stored rows satisfy \<open>period_ready\<close> and its controls show the
    counts \<open>evidence_counts\<close> of the stored rows; active closes never
    overlap; what closes was reviewed by a second person on the evidence of today; an active close stops the
    decisions of matching; reopening takes two people and a rejected reopening is final. Both ledgers are
    instances of the locale \<open>growing_store\<close>: rows are only added and stay as they are.
  \<^item> Cycles, release, tokenization, tenancy: tiling and deadlines, what keys depend on, injectivity of
    tokens, segregation of duties along whole histories.

  BOUNDS AND TERMINATION. No definition uses fuel. The two loops that read a stored object line by line are
  partial functions whose value \<open>None\<close> would be an endless loop, and \<open>reading_ends\<close> shows that they return for every
  object and chunk size. Loops that consume lines or chunks terminate because
  \<open>csv.reader\<close> and the store make progress (\<open>csv_next_progress\<close>, \<open>store_read_size\<close>); the limits of the
  source (rows, bytes, columns, cell length, periods, windows) are constants of the model with their
  values.

  NOT MODELLED. The HTTP surface, sessions, the queue, the object store and the external services are I/O or
  framework code around these functions. Of the SQL, the statements and tables of the matching and closing
  modules are modelled, the stored size of their JSON documents, advisory locks and row locks are not; the
  modules for datasets, corrections, onboarding and billing are mostly statements over tables of their own. Spreadsheet and open document files are
  read with zip and XML libraries; of PDF files the package \<open>pypdf\<close> is a parameter, the boxes of their texts and the JSON form of
  OCR derivatives are left out. The float \<open>type_confidence\<close> of a profile and the dictionaries that
  carry it are left out. The tools below \<open>src/tools\<close> other than the two engines check documents and
  infrastructure, not the running program.
\<close>

end
